(* ===== verification/Prelude.thy ===== *)
theory Prelude
  imports Main "HOL-Library.Word" "HOL-Library.Monad_Syntax" "HOL-Library.Sublist"
begin

text \<open>
  Shared vocabulary of the development: C strings as lists of bytes, the option monad for
  executions that may go wrong, and the generic list lemmas the component theories use.

  A \<^verbatim>\<open>char *\<close> that points into a NUL-terminated string is the list of the bytes from
  the pointer up to the terminator; \<open>[]\<close> is a pointer at the terminator. \<open>deref\<close>
  reads the byte pointed at (NUL at the end of the list) and \<open>adv\<close> moves the pointer on.
  A result of type \<open>'a option\<close> is \<open>None\<close> when the C execution has no defined result:
  it moves a pointer past the terminator and uses it, reads or writes outside an object,
  reads an indeterminate value or dereferences NULL.
\<close>

named_theorems bind_defs \<open>unfolding of the option monad in the operations\<close>
named_theorems cmem \<open>facts on pointers, strings and buffers\<close>

type_synonym cstring = string

type_synonym u32 = "32 word"

abbreviation NUL :: char where
  "NUL \<equiv> CHR 0x00"

abbreviation NL :: char where
  "NL \<equiv> CHR 0x0A"

abbreviation DQ :: char where
  "DQ \<equiv> CHR 0x22"

definition deref :: "cstring \<Rightarrow> char" where
  "deref p = (case p of [] \<Rightarrow> NUL | c # _ \<Rightarrow> c)"

definition adv :: "cstring \<Rightarrow> cstring option" where
  "adv p = (case p of [] \<Rightarrow> None | _ # r \<Rightarrow> Some r)"

text \<open>A buffer whose bytes may contain a NUL reads as the C string before it.\<close>

definition c_str :: "string \<Rightarrow> cstring" where
  "c_str s = takeWhile (\<lambda>c. c \<noteq> NUL) s"

definition is_cstr :: "string \<Rightarrow> bool" where
  "is_cstr s = list_all (\<lambda>c. c \<noteq> NUL) s"

lemma deref_simps [simp]: "deref [] = NUL" "deref (c # r) = c"
  by (simp_all add: deref_def)

lemma adv_simps [simp]: "adv [] = None" "adv (c # r) = Some r"
  by (simp_all add: adv_def)

lemma adv_eq_Some [simp]: "adv p = Some q \<longleftrightarrow> (\<exists>c. p = c # q)"
  by (cases p) auto

lemma deref_neq_NulD: "deref p \<noteq> NUL \<Longrightarrow> \<exists>r. p = deref p # r"
  by (cases p) auto

lemma deref_eqD: "deref p = c \<Longrightarrow> c \<noteq> NUL \<Longrightarrow> p = c # tl p"
  by (cases p) auto

lemma is_cstr_simps [simp]:
  "is_cstr []" "is_cstr (c # s) \<longleftrightarrow> c \<noteq> NUL \<and> is_cstr s"
  "is_cstr (s @ t) \<longleftrightarrow> is_cstr s \<and> is_cstr t"
  by (auto simp: is_cstr_def)

lemma c_str_id [simp]: "is_cstr s \<Longrightarrow> c_str s = s"
  by (simp add: c_str_def is_cstr_def list_all_iff takeWhile_eq_all_conv)

lemma is_cstr_c_str [simp]: "is_cstr (c_str s)"
  unfolding c_str_def is_cstr_def list_all_iff
  using set_takeWhileD by fastforce

subsection \<open>Splitting a string at the first byte that fails a test\<close>

lemma takeWhile_append_stop [simp]:
  "list_all P s \<Longrightarrow> \<not> P c \<Longrightarrow> takeWhile P (s @ c # r) = s"
  by (induction s) auto

lemma dropWhile_append_stop [simp]:
  "list_all P s \<Longrightarrow> \<not> P c \<Longrightarrow> dropWhile P (s @ c # r) = c # r"
  by (induction s) auto

lemma takeWhile_all [simp]: "list_all P s \<Longrightarrow> takeWhile P s = s"
  by (induction s) auto

lemma dropWhile_all [simp]: "list_all P s \<Longrightarrow> dropWhile P s = []"
  by (induction s) auto

lemma length_dropWhile_tl: "dropWhile P s = c # r \<Longrightarrow> length r < length s"
  by (metis length_Cons length_dropWhile_le less_eq_Suc_le)

lemma length_dropWhile_less [cmem]:
  assumes "c # r = dropWhile P s"
  shows "length r < length s" "length (dropWhile Q r) < length s"
proof -
  show l: "length r < length s" using assms by (metis length_dropWhile_tl)
  show "length (dropWhile Q r) < length s"
    using length_dropWhile_le [of Q r] l by linarith
qed

lemmas length_dropWhile_less' [cmem] = length_dropWhile_less [OF sym]

lemma suffix_dropWhile_trans: "suffix s t \<Longrightarrow> suffix (dropWhile P s) t"
  by (metis suffix_dropWhile suffix_order.trans)

lemma suffix_tl_trans: "suffix (c # s) t \<Longrightarrow> suffix s t"
  by (metis suffix_Cons suffix_def suffix_order.trans suffix_order.refl)

lemma suffix_length_lt: "suffix (c # s) t \<Longrightarrow> length s < length t"
  using suffix_length_le by fastforce

lemma list_all_takeWhile [simp]: "list_all P (takeWhile P s)"
  by (induction s) auto

lemma int_length_remove1 [cmem]:
  "x \<in> set xs \<Longrightarrow> int (length xs - Suc 0) = int (length xs) - 1"
  by (cases xs) auto

text \<open>\<^verbatim>\<open>strncmp(a, b, n) == 0\<close> on C strings.\<close>

definition strncmp_eq :: "cstring \<Rightarrow> cstring \<Rightarrow> nat \<Rightarrow> bool" where
  "strncmp_eq a b n = (take n a = take n b)"

lemma strncmp_eq_prefix: "strncmp_eq k s (length k) \<longleftrightarrow> prefix k s"
  unfolding strncmp_eq_def prefix_def
  by (metis append_take_drop_id append_eq_conv_conj take_all order_refl)

text \<open>\<^verbatim>\<open>strstr(s, pat)\<close>: the part before the first occurrence and the part from it.\<close>

fun strstr :: "cstring \<Rightarrow> cstring \<Rightarrow> (cstring \<times> cstring) option" where
  "strstr [] pat = (if pat = [] then Some ([], []) else None)"
| "strstr (c # s) pat =
     (if prefix pat (c # s) then Some ([], c # s)
      else map_option (\<lambda>(a, b). (c # a, b)) (strstr s pat))"

lemma strstr_Some: "strstr s pat = Some (a, b) \<Longrightarrow> s = a @ b \<and> prefix pat b"
  by (induction s pat arbitrary: a b rule: strstr.induct) (auto split: if_splits)

lemma strstr_None: "strstr s pat = None \<longleftrightarrow> \<not> sublist pat s"
  by (induction s pat rule: strstr.induct)
    (auto simp: sublist_Cons_right split: if_splits)

text \<open>A counted loop over a list, with an operation that may fail.\<close>

fun foldM :: "('a \<Rightarrow> 's \<Rightarrow> 's option) \<Rightarrow> 'a list \<Rightarrow> 's \<Rightarrow> 's option" where
  "foldM f [] s = Some s"
| "foldM f (x # xs) s = f x s \<bind> foldM f xs"

lemma foldM_append: "foldM f (xs @ ys) s = foldM f xs s \<bind> foldM f ys"
  by (induction xs arbitrary: s) (auto split: Option.bind_split)

lemma foldM_snoc: "foldM f (xs @ [x]) s = foldM f xs s \<bind> f x"
proof -
  have m: "m \<bind> foldM f [] = m" for m by (cases m) simp_all
  then show ?thesis by (cases "foldM f xs s") (simp_all add: foldM_append m)
qed

lemma foldM_invariant:
  assumes "\<And>x s. x \<in> set xs \<Longrightarrow> I s \<Longrightarrow> \<exists>s'. f x s = Some s' \<and> I s'" and "I s"
  shows "\<exists>s'. foldM f xs s = Some s' \<and> I s'"
  using assms
proof (induction xs arbitrary: s)
  case (Cons x xs)
  then obtain s' where "f x s = Some s'" "I s'" by (meson list.set_intros(1))
  moreover have "\<exists>t. foldM f xs s' = Some t \<and> I t"
    using Cons.IH Cons.prems(1) \<open>I s'\<close> by (meson list.set_intros(2))
  ultimately show ?case by simp
qed simp

lemma foldM_preserves:
  assumes "\<And>x s s'. x \<in> set xs \<Longrightarrow> I s \<Longrightarrow> f x s = Some s' \<Longrightarrow> I s'"
    and "I s" and "foldM f xs s = Some t"
  shows "I t"
  using assms
proof (induction xs arbitrary: s)
  case (Cons x xs)
  from Cons.prems(3) obtain s' where s': "f x s = Some s'" "foldM f xs s' = Some t"
    by (auto simp: bind_eq_Some_conv)
  then have "I s'" using Cons.prems(1,2) by (meson list.set_intros(1))
  then show ?case using Cons.IH Cons.prems(1) s'(2) by (meson list.set_intros(2))
qed simp

text \<open>An indexed read of an array of which \<open>length xs\<close> slots are initialised.\<close>

definition nth_opt :: "'a list \<Rightarrow> int \<Rightarrow> 'a option" where
  "nth_opt xs i = (if 0 \<le> i \<and> i < int (length xs) then Some (xs ! nat i) else None)"

lemma nth_opt_Some [simp]: "i < length xs \<Longrightarrow> nth_opt xs (int i) = Some (xs ! i)"
  by (simp add: nth_opt_def)

lemma nth_opt_None: "nth_opt xs i = None \<longleftrightarrow> i < 0 \<or> int (length xs) \<le> i"
  by (auto simp: nth_opt_def)

end
