(* ===== verification/Libc.thy ===== *)
theory Libc
  imports Prelude
begin

text \<open>
  The part of the C library the sources rely on, in the C locale and on the 32-bit targets
  of the distribution (i386 and PowerPC, \<^verbatim>\<open>int\<close> and \<^verbatim>\<open>long\<close> of 32 bits):
  character classes, \<^verbatim>\<open>strcasecmp\<close>, \<^verbatim>\<open>atoi\<close> and the \<^verbatim>\<open>%d\<close>,
  \<^verbatim>\<open>%x\<close> and \<^verbatim>\<open>%s\<close> conversions of \<^verbatim>\<open>printf\<close> and \<^verbatim>\<open>scanf\<close>.
\<close>

subsection \<open>Bytes and character classes\<close>

definition byte :: "char \<Rightarrow> nat" where
  "byte c = of_char c"

definition isdigit :: "char \<Rightarrow> bool" where
  "isdigit c = (48 \<le> byte c \<and> byte c \<le> 57)"

definition isupper :: "char \<Rightarrow> bool" where
  "isupper c = (65 \<le> byte c \<and> byte c \<le> 90)"

definition islower :: "char \<Rightarrow> bool" where
  "islower c = (97 \<le> byte c \<and> byte c \<le> 122)"

definition isalpha :: "char \<Rightarrow> bool" where
  "isalpha c = (isupper c \<or> islower c)"

definition isalnum :: "char \<Rightarrow> bool" where
  "isalnum c = (isalpha c \<or> isdigit c)"

definition isspace :: "char \<Rightarrow> bool" where
  "isspace c = (byte c = 32 \<or> (9 \<le> byte c \<and> byte c \<le> 13))"

definition isprint :: "char \<Rightarrow> bool" where
  "isprint c = (32 \<le> byte c \<and> byte c \<le> 126)"

definition tolower :: "char \<Rightarrow> char" where
  "tolower c = (if isupper c then char_of (byte c + 32) else c)"

definition strcaseeq :: "cstring \<Rightarrow> cstring \<Rightarrow> bool" where
  "strcaseeq a b = (map tolower a = map tolower b)"

lemmas ctype_defs = isdigit_def isupper_def islower_def isalpha_def isalnum_def isspace_def
  isprint_def

lemma byte_less [simp]: "byte c < 256"
  by (simp add: byte_def)

lemma byte_char_of [simp]: "n < 256 \<Longrightarrow> byte (char_of n) = n"
  by (simp add: byte_def)

lemma byte_inject: "byte c = byte d \<Longrightarrow> c = d"
  by (simp add: byte_def)

lemma byte_NUL [simp]: "byte NUL = 0"
  by (simp add: byte_def)

lemma ctype_NUL [simp]:
  "\<not> isdigit NUL" "\<not> isalpha NUL" "\<not> isalnum NUL" "\<not> isspace NUL" "\<not> isprint NUL"
  by (simp_all add: ctype_defs)

lemma isdigit_not_isspace [simp]: "isdigit c \<Longrightarrow> \<not> isspace c"
  by (auto simp: ctype_defs)

lemma isalnum_not_isspace [simp]: "isalnum c \<Longrightarrow> \<not> isspace c"
  by (auto simp: ctype_defs)

lemma isdigit_isalnum [simp]: "isdigit c \<Longrightarrow> isalnum c"
  by (simp add: isalnum_def)

subsection \<open>Decimal output\<close>

definition digit_char :: "nat \<Rightarrow> char" where
  "digit_char d = char_of (48 + d)"

fun dec_nat :: "nat \<Rightarrow> string" where
  "dec_nat n =
     (if n < 10 then [digit_char n] else dec_nat (n div 10) @ [digit_char (n mod 10)])"

declare dec_nat.simps [simp del]

text \<open>\<^verbatim>\<open>%d\<close>; \<^verbatim>\<open>%4d\<close> and \<^verbatim>\<open>%02d\<close> pad it.\<close>

definition dec :: "int \<Rightarrow> string" where
  "dec i = (if i < 0 then CHR ''-'' # dec_nat (nat (- i)) else dec_nat (nat i))"

definition dec_pad4 :: "int \<Rightarrow> string" where
  "dec_pad4 i = replicate (4 - length (dec i)) CHR '' '' @ dec i"

definition dec_02 :: "int \<Rightarrow> string" where
  "dec_02 i =
     (if i < 0 then CHR ''-'' # replicate (1 - length (dec_nat (nat (- i)))) CHR ''0''
                      @ dec_nat (nat (- i))
      else replicate (2 - length (dec_nat (nat i))) CHR ''0'' @ dec_nat (nat i))"

definition hex_char :: "nat \<Rightarrow> char" where
  "hex_char d = (if d < 10 then char_of (48 + d) else char_of (87 + d))"

fun hex :: "nat \<Rightarrow> string" where
  "hex n = (if n < 16 then [hex_char n] else hex (n div 16) @ [hex_char (n mod 16)])"

declare hex.simps [simp del]

text \<open>\<^verbatim>\<open>%s\<close> of glibc, which prints a NULL argument as \<open>(null)\<close>.\<close>

definition pct_s :: "cstring option \<Rightarrow> cstring" where
  "pct_s v = (case v of None \<Rightarrow> ''(null)'' | Some s \<Rightarrow> s)"

lemma pct_s_simps [simp]: "pct_s None = ''(null)''" "pct_s (Some s) = s"
  by (simp_all add: pct_s_def)

lemma byte_digit_char [simp]: "d < 10 \<Longrightarrow> byte (digit_char d) = 48 + d"
  by (simp add: digit_char_def)

lemma isdigit_digit_char [simp]: "d < 10 \<Longrightarrow> isdigit (digit_char d)"
  by (simp add: isdigit_def)

lemma dec_nat_digits [simp]: "list_all isdigit (dec_nat n)"
proof (induction n rule: dec_nat.induct)
  case (1 n)
  then show ?case by (subst dec_nat.simps) auto
qed

lemma dec_nat_nonempty [simp]: "dec_nat n \<noteq> []"
  by (subst dec_nat.simps) simp

lemma dec_nonempty [simp]: "dec i \<noteq> []"
  by (simp add: dec_def)

lemma Nil_dec [simp]: "[] \<noteq> dec i"
  by (metis dec_nonempty)

lemma length_dec_nat_le3: "n < 1000 \<Longrightarrow> length (dec_nat n) \<le> 3"
  by (subst dec_nat.simps, simp, subst dec_nat.simps, simp, subst dec_nat.simps) simp

subsection \<open>Decimal input\<close>

fun scan_digits :: "nat \<Rightarrow> cstring \<Rightarrow> nat \<times> cstring" where
  "scan_digits n [] = (n, [])"
| "scan_digits n (c # s) =
     (if isdigit c then scan_digits (10 * n + (byte c - 48)) s else (n, c # s))"

definition int_max :: int where
  "int_max = 2147483647"

definition int_min :: int where
  "int_min = - 2147483648"

definition clamp32 :: "int \<Rightarrow> int" where
  "clamp32 i = max int_min (min int_max i)"

definition wrap32 :: "int \<Rightarrow> int" where
  "wrap32 i = (i + 2147483648) mod 4294967296 - 2147483648"

text \<open>
  \<^verbatim>\<open>strtol(s, &end, 10)\<close> on a 32-bit \<^verbatim>\<open>long\<close>, which is what \<^verbatim>\<open>atoi\<close> and the
  \<^verbatim>\<open>%d\<close> of \<^verbatim>\<open>sscanf\<close> use: \<open>None\<close> when no digit is found.
\<close>

definition scan_d :: "cstring \<Rightarrow> (int \<times> cstring) option" where
  "scan_d s =
     (let s1 = dropWhile isspace s;
          neg = (deref s1 = CHR ''-'');
          s2 = (if deref s1 = CHR ''-'' \<or> deref s1 = CHR ''+'' then tl s1 else s1)
      in if isdigit (deref s2)
         then (case scan_digits 0 s2 of
                 (n, r) \<Rightarrow> Some (clamp32 (if neg then - int n else int n), r))
         else None)"

definition atoi :: "cstring \<Rightarrow> int" where
  "atoi s = (case scan_d s of None \<Rightarrow> 0 | Some (i, _) \<Rightarrow> i)"

text \<open>\<^verbatim>\<open>sscanf(s, "%d.%d.%d.%d", ...)\<close>: the numbers it converts, at most four.\<close>

definition sscanf_quad :: "cstring \<Rightarrow> int list" where
  "sscanf_quad s =
     (case scan_d s of None \<Rightarrow> [] | Some (a, r1) \<Rightarrow>
      if deref r1 \<noteq> CHR ''.'' then [a] else
      case scan_d (tl r1) of None \<Rightarrow> [a] | Some (b, r2) \<Rightarrow>
      if deref r2 \<noteq> CHR ''.'' then [a, b] else
      case scan_d (tl r2) of None \<Rightarrow> [a, b] | Some (c, r3) \<Rightarrow>
      if deref r3 \<noteq> CHR ''.'' then [a, b, c] else
      case scan_d (tl r3) of None \<Rightarrow> [a, b, c] | Some (d, _) \<Rightarrow> [a, b, c, d])"

lemma scan_digits_append:
  "list_all isdigit s \<Longrightarrow> \<not> isdigit (deref r) \<Longrightarrow>
   scan_digits n (s @ r) = (fst (scan_digits n s), r)"
proof (induction s arbitrary: n)
  case Nil
  then show ?case by (cases r) auto
qed auto

lemma scan_digits_snoc:
  "list_all isdigit s \<Longrightarrow> isdigit c \<Longrightarrow>
   scan_digits n (s @ [c]) = (10 * fst (scan_digits n s) + (byte c - 48), [])"
  by (induction s arbitrary: n) auto

lemma scan_digits_dec_nat: "scan_digits 0 (dec_nat n) = (n, [])"
proof (induction n rule: dec_nat.induct)
  case (1 n)
  show ?case
  proof (cases "n < 10")
    case True
    then show ?thesis by (subst dec_nat.simps) simp
  next
    case False
    then have "scan_digits 0 (dec_nat n) =
        (10 * (n div 10) + (byte (digit_char (n mod 10)) - 48), [])"
      using "1" by (subst dec_nat.simps) (simp add: scan_digits_snoc)
    then show ?thesis by simp
  qed
qed

lemma deref_dec_nat: "isdigit (deref (dec_nat n @ r))"
  using dec_nat_digits [of n] by (cases "dec_nat n") auto

lemma dropWhile_deref: "\<not> P (deref s) \<Longrightarrow> dropWhile P s = s"
  by (cases s) auto

lemma isdigit_bytes: "isdigit c \<Longrightarrow> c \<noteq> CHR ''-'' \<and> c \<noteq> CHR ''+'' \<and> c \<noteq> CHR ''.''"
  by (auto simp: isdigit_def byte_def)

theorem scan_d_dec:
  assumes "int_min \<le> i" "i \<le> int_max" "\<not> isdigit (deref r)"
  shows "scan_d (dec i @ r) = Some (i, r)"
proof (cases "i < 0")
  case True
  have "\<not> isspace CHR ''-''" by (simp add: isspace_def byte_def)
  then have "scan_d (dec i @ r) = Some (clamp32 (- int (nat (- i))), r)"
    using True assms(3) deref_dec_nat [of "nat (- i)" r]
    by (simp add: scan_d_def dec_def scan_digits_append scan_digits_dec_nat)
  then show ?thesis using assms True by (simp add: clamp32_def)
next
  case False
  let ?s = "dec_nat (nat i) @ r"
  have d: "isdigit (deref ?s)" by (rule deref_dec_nat)
  have "dropWhile isspace ?s = ?s"
    by (rule dropWhile_deref) (rule isdigit_not_isspace [OF d])
  then have "scan_d (dec i @ r) = Some (clamp32 (int (nat i)), r)"
    using False assms(3) d isdigit_bytes [OF d]
    by (simp add: scan_d_def dec_def scan_digits_append scan_digits_dec_nat)
  then show ?thesis using assms False by (simp add: clamp32_def)
qed

corollary atoi_dec: "int_min \<le> i \<Longrightarrow> i \<le> int_max \<Longrightarrow> atoi (dec i) = i"
  using scan_d_dec [of i "[]"] by (simp add: atoi_def)

lemma atoi_range: "int_min \<le> atoi s \<and> atoi s \<le> int_max"
  by (auto simp: atoi_def scan_d_def clamp32_def int_min_def int_max_def Let_def
      split: option.splits prod.splits if_splits)

lemma wrap32_id: "int_min \<le> i \<Longrightarrow> i \<le> int_max \<Longrightarrow> wrap32 i = i"
  by (simp add: wrap32_def int_min_def int_max_def)

lemma wrap32_range: "int_min \<le> wrap32 i \<and> wrap32 i \<le> int_max"
proof -
  have "0 \<le> (i + 2147483648) mod 4294967296" by simp
  moreover have "(i + 2147483648) mod 4294967296 < 4294967296" by simp
  ultimately show ?thesis unfolding wrap32_def int_min_def int_max_def by linarith
qed

text \<open>Four decimal numbers with dots, as addresses and masks are written.\<close>

definition dotted :: "int \<Rightarrow> int \<Rightarrow> int \<Rightarrow> int \<Rightarrow> string" where
  "dotted a b c d = dec a @ ''.'' @ dec b @ ''.'' @ dec c @ ''.'' @ dec d"

definition int32 :: "int \<Rightarrow> bool" where
  "int32 i = (int_min \<le> i \<and> i \<le> int_max)"

lemma not_isdigit_dot [simp]: "\<not> isdigit CHR ''.''"
  by (simp add: isdigit_def byte_def)

lemma sscanf_quad_dotted:
  assumes "int32 a" "int32 b" "int32 c" "int32 d"
  shows "sscanf_quad (dotted a b c d) = [a, b, c, d]"
  using assms unfolding int32_def sscanf_quad_def dotted_def
  by (simp add: scan_d_dec scan_d_dec [where r = "[]", simplified])

end
