(* ===== verification/StrBuf.thy ===== *)
theory StrBuf
  imports Libc
begin

text \<open>
  The growing string of \<^verbatim>\<open>contrib/setup/str.c\<close>. The record is the struct
  \<^verbatim>\<open>Str\<close>: the cached length, the size of the allocation and the C string held in
  the buffer. Every operation checks the writes it makes against the allocation and is
  \<open>None\<close> where the code would write outside it. The invariant \<open>str_ok\<close> says the
  cached length is the length of the text and that it fits with a byte to spare; under it
  every operation is defined and the abstraction of the buffer to its text is exact, which
  is what lets the other components use plain strings for a \<^verbatim>\<open>Str\<close>.
\<close>

record str_buf =
  str_len :: int
  str_sz :: int
  str_str :: cstring

definition str_new :: str_buf where
  "str_new = (let sz = 16; sz = sz * 2 in \<lparr>str_len = 0, str_sz = sz, str_str = []\<rparr>)"

definition str_resize :: "str_buf \<Rightarrow> int \<Rightarrow> str_buf option" where
  "str_resize s sz =
     (if sz < str_sz s
      then if sz < 0 then None
           else Some (s\<lparr>str_str := take (nat sz) (str_str s), str_len := sz, str_sz := sz\<rparr>)
      else if int (length (str_str s)) < sz then Some (s\<lparr>str_sz := sz\<rparr>)
      else None)"

definition str_trunc :: "str_buf \<Rightarrow> int \<Rightarrow> str_buf option" where
  "str_trunc s len =
     (if len < str_sz s
      then if len < 0 then None
           else Some (s\<lparr>str_len := len, str_str := take (nat len) (str_str s)\<rparr>)
      else Some s)"

text \<open>\<^verbatim>\<open>strcat(s->str, p)\<close>, checked against the allocation.\<close>

definition str_strcat :: "str_buf \<Rightarrow> cstring \<Rightarrow> str_buf option" where
  "str_strcat s p =
     (if int (length (str_str s) + length p) < str_sz s
      then Some (s\<lparr>str_str := str_str s @ p\<rparr>) else None)"

text \<open>The \<^verbatim>\<open>while\<close> loop that makes room for \<open>len\<close> more bytes.\<close>

partial_function (option) str_grow :: "int \<Rightarrow> str_buf \<Rightarrow> str_buf option" where
  "str_grow len s =
     (if len + str_len s \<ge> str_sz s - 1
      then str_resize s (str_sz s * 2 + len + 1) \<bind> str_grow len
      else Some s)"

definition str_append_charp :: "str_buf \<Rightarrow> cstring option \<Rightarrow> str_buf option" where
  "str_append_charp s po =
     (case po of None \<Rightarrow> Some s
      | Some p \<Rightarrow> do {
          let len = int (length p);
          s \<leftarrow> str_grow len s;
          if len + str_len s < str_sz s - 1
          then do { s \<leftarrow> str_strcat s p; Some (s\<lparr>str_len := str_len s + len\<rparr>) }
          else str_strcat s p })"

definition str_append_char :: "str_buf \<Rightarrow> char \<Rightarrow> str_buf option" where
  "str_append_char s c = str_append_charp s (Some (c_str [c, NUL]))"

definition str_append_str :: "str_buf \<Rightarrow> str_buf \<Rightarrow> str_buf option" where
  "str_append_str s s2 = str_append_charp s (Some (str_str s2))"

subsection \<open>The invariant and the abstraction\<close>

definition str_ok :: "str_buf \<Rightarrow> bool" where
  "str_ok s \<longleftrightarrow> str_len s = int (length (str_str s)) \<and> str_len s < str_sz s - 1"

lemma str_new_ok [cmem]: "str_ok str_new" "str_str str_new = []"
  by (simp_all add: str_ok_def str_new_def)

lemma str_resize_ok:
  "str_ok s \<Longrightarrow> str_sz s \<le> sz \<Longrightarrow> str_resize s sz = Some (s\<lparr>str_sz := sz\<rparr>)"
  by (simp add: str_resize_def str_ok_def)

lemma str_trunc_0 [cmem]:
  assumes "str_ok s"
  shows "str_trunc s 0 = Some (s\<lparr>str_len := 0, str_str := []\<rparr>)"
  using assms by (simp add: str_trunc_def str_ok_def)

text \<open>One pass of the loop makes enough room, so the loop ends after at most two tests.\<close>

lemma str_grow_ok:
  assumes ok: "str_ok s" and len: "0 \<le> len"
  shows "str_grow len s =
     Some (if len + str_len s < str_sz s - 1 then s
           else s\<lparr>str_sz := str_sz s * 2 + len + 1\<rparr>)"
proof (cases "len + str_len s < str_sz s - 1")
  case True
  then show ?thesis by (subst str_grow.simps) simp
next
  case False
  let ?s = "s\<lparr>str_sz := str_sz s * 2 + len + 1\<rparr>"
  have "str_grow len s = str_grow len ?s"
    using False len ok
    by (subst str_grow.simps) (simp add: str_resize_ok str_ok_def)
  also have "\<dots> = Some ?s"
    using ok len by (subst str_grow.simps) (simp add: str_ok_def)
  finally show ?thesis using False by simp
qed

lemma str_append_charp_ok:
  assumes "str_ok s"
  shows "\<exists>s'. str_append_charp s (Some p) = Some s' \<and> str_ok s' \<and> str_str s' = str_str s @ p
     \<and> str_sz s' \<le> max (str_sz s) (str_sz s * 2 + int (length p) + 1)"
  using assms
  by (auto simp: str_append_charp_def str_grow_ok str_strcat_def str_ok_def Let_def)

lemma str_append_charp_NULL [simp]: "str_append_charp s None = Some s"
  by (simp add: str_append_charp_def)

lemma str_append_char_text: "c_str [c, NUL] = (if c = NUL then [] else [c])"
  by (simp add: c_str_def)

text \<open>
  The interface the evaluator and the page generator use: a buffer that starts empty, is
  appended to and truncated to nothing. Its clients only see the text.
\<close>

locale text_buffer =
  fixes new :: 'b
    and append :: "'b \<Rightarrow> cstring option \<Rightarrow> 'b option"
    and clear :: "'b \<Rightarrow> 'b option"
    and content :: "'b \<Rightarrow> cstring"
    and invar :: "'b \<Rightarrow> bool"
  assumes new_law: "invar new" "content new = []"
    and append_law: "invar b \<Longrightarrow> \<exists>b'. append b (Some p) = Some b' \<and> invar b' \<and> content b' = content b @ p"
    and append_null: "append b None = Some b"
    and clear_law: "invar b \<Longrightarrow> \<exists>b'. clear b = Some b' \<and> invar b' \<and> content b' = []"
begin

lemma append_any:
  "invar b \<Longrightarrow> \<exists>b'. append b po = Some b' \<and> invar b' \<and>
     content b' = content b @ (case po of None \<Rightarrow> [] | Some p \<Rightarrow> p)"
  using append_law append_null by (cases po) auto

lemma append_all:
  "invar b \<Longrightarrow> \<exists>b'. foldM (\<lambda>po b. append b po) pos b = Some b' \<and> invar b' \<and>
     content b' = content b @ concat (map (case_option [] id) pos)"
proof (induction pos arbitrary: b)
  case (Cons po pos)
  from append_any [OF Cons.prems, of po] obtain b1 where
    b1: "append b po = Some b1" "invar b1" "content b1 = content b @ (case po of None \<Rightarrow> [] | Some p \<Rightarrow> p)"
    by blast
  from Cons.IH [OF b1(2)] show ?case
    using b1 by (auto split: option.split)
qed simp

lemma reuse:
  "invar b \<Longrightarrow> \<exists>b0 b'. clear b = Some b0 \<and> append b0 (Some p) = Some b' \<and> invar b' \<and> content b' = p"
  using clear_law [of b] append_law by (metis append_Nil)

end

interpretation sb: text_buffer str_new str_append_charp "\<lambda>s. str_trunc s 0" str_str str_ok
proof unfold_locales
  fix b p
  assume "str_ok b"
  then show "\<exists>b'. str_append_charp b (Some p) = Some b' \<and> str_ok b' \<and> str_str b' = str_str b @ p"
    using str_append_charp_ok by blast
next
  fix b
  assume "str_ok b"
  then show "\<exists>b'. str_trunc b 0 = Some b' \<and> str_ok b' \<and> str_str b' = []"
    by (simp add: str_trunc_0) (simp add: str_ok_def)
qed (simp_all add: cmem)

subsection \<open>Properties\<close>

text \<open>
  Appending is total, safe and exact: from a buffer that satisfies the invariant,
  \<^verbatim>\<open>str_append_charp\<close> returns (its growth loop ends and neither
  \<^verbatim>\<open>strcpy\<close> nor \<^verbatim>\<open>strcat\<close> writes outside the allocation), the text is the
  old text followed by the argument and the invariant holds again. Any sequence of appends
  to a new buffer therefore holds the concatenation of its arguments, NULL counting as
  empty.
\<close>

theorem str_appends_concat:
  "\<exists>s. foldM (\<lambda>po s. str_append_charp s po) pos str_new = Some s \<and> str_ok s
     \<and> str_str s = concat (map (case_option [] id) pos)"
  using sb.append_all [of str_new pos] by (simp add: str_new_ok)

end
