(* ===== verification/ItemList.thy ===== *)
theory ItemList
  imports Libc
begin

text \<open>
  The item list of \<^verbatim>\<open>contrib/setup/list.c\<close>. The record is the struct
  \<^verbatim>\<open>List\<close> with the items stored so far and, as \<open>list_cap\<close>, the number of slots
  of the block \<^verbatim>\<open>item\<close> points to; the code does not keep that number, and where its
  own \<^verbatim>\<open>sz\<close> disagrees with it the stores are checked against the block.
\<close>

record item_list =
  list_n :: int
  list_sz :: int
  list_item :: "cstring list"
  list_cap :: int

definition list_items :: "item_list \<Rightarrow> cstring list" where
  "list_items l = take (nat (list_n l)) (list_item l)"

definition list_new :: "int \<Rightarrow> item_list" where
  "list_new sz = (let sz = sz * 2 in \<lparr>list_n = 0, list_sz = sz, list_item = [], list_cap = sz\<rparr>)"

text \<open>\<^verbatim>\<open>l->item[i] = x; ++i\<close> for the first slot not yet written.\<close>

definition list_put :: "cstring \<Rightarrow> item_list \<Rightarrow> item_list option" where
  "list_put x l =
     (if int (length (list_item l)) < list_cap l
      then Some (l\<lparr>list_item := list_item l @ [x]\<rparr>) else None)"

text \<open>
  \<^verbatim>\<open>list_split\<close>: the number of separators is counted first, to size the block, and
  the string is then cut in place. A separator of 0 means any white space.
\<close>

fun split_count :: "char \<Rightarrow> cstring \<Rightarrow> int" where
  "split_count sep [] = 0"
| "split_count sep (c # p) =
     (if sep = NUL \<and> isspace c then 1 else if c = sep then 1 else 0) + split_count sep p"

function split_ws_loop :: "cstring \<Rightarrow> item_list \<Rightarrow> item_list option" where
  "split_ws_loop p l =
     (if p = [] then Some l
      else let s = takeWhile (\<lambda>c. \<not> isspace c) p; r = dropWhile (\<lambda>c. \<not> isspace c) p in
        case r of
          [] \<Rightarrow> list_put s l
        | _ # r' \<Rightarrow> list_put s l \<bind> split_ws_loop (dropWhile isspace r'))"
  by pat_completeness auto
termination
  by (relation "measure (\<lambda>(p, l). length p)") (auto simp: cmem)

function split_sep_loop :: "char \<Rightarrow> cstring \<Rightarrow> item_list \<Rightarrow> item_list option" where
  "split_sep_loop sep p l =
     (if p = [] then Some l
      else let s = takeWhile (\<lambda>c. c \<noteq> sep) p; r = dropWhile (\<lambda>c. c \<noteq> sep) p in
        case r of
          [] \<Rightarrow> list_put s l
        | _ # r' \<Rightarrow> list_put s l \<bind> split_sep_loop sep r')"
  by pat_completeness auto
termination
  by (relation "measure (\<lambda>(sep, p, l). length p)") (auto simp: cmem)

declare split_ws_loop.simps [simp del] split_sep_loop.simps [simp del]

definition list_split :: "char \<Rightarrow> cstring option \<Rightarrow> item_list option" where
  "list_split sep str =
     (case str of None \<Rightarrow> Some (list_new 0)
      | Some str \<Rightarrow> do {
          let c = split_count sep str;
          let l = list_new (c + 1);
          l \<leftarrow> (if sep = NUL then split_ws_loop str l else split_sep_loop sep str l);
          Some (l\<lparr>list_n := int (length (list_item l))\<rparr>) })"

text \<open>
  \<^verbatim>\<open>list_join\<close>: the bytes it allocates, and the text it then writes there. The
  allocation counts the items and the terminator, not the blanks between the items; a text
  that does not fit with its terminator is written over what lies behind the block, which
  has no defined result.
\<close>

definition list_join_alloc :: "item_list \<Rightarrow> int" where
  "list_join_alloc l = 1 + sum_list (map (\<lambda>s. int (length s)) (list_items l))"

fun join_items :: "cstring list \<Rightarrow> cstring" where
  "join_items [] = []"
| "join_items [s] = s"
| "join_items (s # t # ss) = s @ '' '' @ join_items (t # ss)"

definition list_join :: "item_list \<Rightarrow> cstring option" where
  "list_join l =
     (let ret = join_items (list_items l) in
      if int (length ret) < list_join_alloc l then Some ret else None)"

definition list_push :: "item_list \<Rightarrow> cstring \<Rightarrow> item_list option" where
  "list_push l item =
     (if list_n l < list_sz l
      then if 0 \<le> list_n l \<and> list_n l < list_cap l
           then Some (l\<lparr>list_item := list_items l @ [item], list_n := list_n l + 1\<rparr>) else None
      else let cap = list_sz l * 2 in
           if 0 \<le> list_n l \<and> list_n l < cap
           then Some (l\<lparr>list_item := list_items l @ [item], list_cap := cap, list_n := list_n l + 1\<rparr>)
           else None)"

definition list_pop :: "item_list \<Rightarrow> cstring option \<times> item_list" where
  "list_pop l =
     (let n = list_n l in
      if n > 0 then (nth_opt (list_item l) (n - 1), l\<lparr>list_n := n - 1\<rparr>) else (None, l))"

definition list_grep_item :: "item_list \<Rightarrow> cstring \<Rightarrow> cstring option" where
  "list_grep_item l str = List.find (\<lambda>s. s = str) (list_items l)"

definition list_remove_item :: "item_list \<Rightarrow> cstring \<Rightarrow> item_list" where
  "list_remove_item l str =
     (if str \<in> set (list_items l)
      then l\<lparr>list_item := remove1 str (list_items l), list_n := list_n l - 1\<rparr> else l)"

text \<open>
  \<^verbatim>\<open>list_sort_item\<close> hands \<^verbatim>\<open>comp_num\<close> to the C library's \<^verbatim>\<open>qsort\<close>,
  which is an argument here.
\<close>

definition comp_num :: "cstring \<Rightarrow> cstring \<Rightarrow> int" where
  "comp_num a b = wrap32 (atoi a - atoi b)"

definition list_sort_item ::
    "((cstring \<Rightarrow> cstring \<Rightarrow> int) \<Rightarrow> cstring list \<Rightarrow> cstring list) \<Rightarrow> item_list \<Rightarrow> item_list" where
  "list_sort_item qsort l = l\<lparr>list_item := qsort comp_num (list_items l)\<rparr>"

subsection \<open>What splitting computes\<close>

text \<open>The items of a string, without the list structure that holds them.\<close>

function words :: "cstring \<Rightarrow> cstring list" where
  "words p =
     (if p = [] then []
      else takeWhile (\<lambda>c. \<not> isspace c) p #
        (case dropWhile (\<lambda>c. \<not> isspace c) p of
           [] \<Rightarrow> [] | _ # r \<Rightarrow> words (dropWhile isspace r)))"
  by pat_completeness auto
termination
  by (relation "measure length") (auto simp: cmem)

function fields :: "char \<Rightarrow> cstring \<Rightarrow> cstring list" where
  "fields sep p =
     (if p = [] then []
      else takeWhile (\<lambda>c. c \<noteq> sep) p #
        (case dropWhile (\<lambda>c. c \<noteq> sep) p of [] \<Rightarrow> [] | _ # r \<Rightarrow> fields sep r))"
  by pat_completeness auto
termination
  by (relation "measure (\<lambda>(sep, p). length p)") (auto simp: cmem)

declare words.simps [simp del] fields.simps [simp del]

lemma words_Nil [simp]: "words [] = []" and fields_Nil [simp]: "fields sep [] = []"
  by (simp_all add: words.simps fields.simps)

lemma list_put_Some:
  "int (length (list_item l)) < list_cap l \<Longrightarrow>
   list_put x l = Some (l\<lparr>list_item := list_item l @ [x]\<rparr>)"
  by (simp add: list_put_def)

lemma split_ws_loop_words:
  "int (length (list_item l) + length (words p)) \<le> list_cap l \<Longrightarrow>
   split_ws_loop p l = Some (l\<lparr>list_item := list_item l @ words p\<rparr>)"
proof (induction p arbitrary: l rule: words.induct)
  case (1 p)
  show ?case
  proof (cases "p = []")
    case True
    then show ?thesis by (simp add: split_ws_loop.simps)
  next
    case False
    show ?thesis
    proof (cases "dropWhile (\<lambda>c. \<not> isspace c) p")
      case Nil
      with False "1.prems" show ?thesis
        by (simp add: split_ws_loop.simps [of p] words.simps [of p] list_put_Some Let_def
            del: dropWhile_eq_Nil_conv)
    next
      case (Cons c r)
      with False "1.prems" "1.IH" [OF False Cons] show ?thesis
        by (simp add: split_ws_loop.simps [of p] words.simps [of p] list_put_Some Let_def
            del: dropWhile_eq_Nil_conv)
    qed
  qed
qed

lemma split_sep_loop_fields:
  "int (length (list_item l) + length (fields sep p)) \<le> list_cap l \<Longrightarrow>
   split_sep_loop sep p l = Some (l\<lparr>list_item := list_item l @ fields sep p\<rparr>)"
proof (induction sep p arbitrary: l rule: fields.induct)
  case (1 sep p)
  show ?case
  proof (cases "p = []")
    case True
    then show ?thesis by (simp add: split_sep_loop.simps)
  next
    case False
    show ?thesis
    proof (cases "dropWhile (\<lambda>c. c \<noteq> sep) p")
      case Nil
      with False "1.prems" show ?thesis
        by (simp add: split_sep_loop.simps [of sep p] fields.simps [of sep p] list_put_Some Let_def
            del: dropWhile_eq_Nil_conv)
    next
      case (Cons c r)
      with False "1.prems" "1.IH" [OF False Cons] show ?thesis
        by (simp add: split_sep_loop.simps [of sep p] fields.simps [of sep p] list_put_Some Let_def
            del: dropWhile_eq_Nil_conv)
    qed
  qed
qed

subsection \<open>The block is large enough\<close>

lemma split_count_nonneg: "0 \<le> split_count sep p"
  by (induction p) auto

lemma split_count_append: "split_count sep (s @ t) = split_count sep s + split_count sep t"
  by (induction s) auto

lemma split_count_dropWhile: "split_count sep (dropWhile P s) \<le> split_count sep s"
  by (metis split_count_append takeWhile_dropWhile_id split_count_nonneg le_add_same_cancel2)

lemma dropWhile_head: "dropWhile P s = c # r \<Longrightarrow> \<not> P c"
  by (metis hd_dropWhile list.sel(1) list.simps(3))

lemma length_words_le: "int (length (words p)) \<le> split_count NUL p + 1"
proof (induction p rule: words.induct)
  case (1 p)
  show ?case
  proof (cases "p = [] \<or> dropWhile (\<lambda>c. \<not> isspace c) p = []")
    case True
    then show ?thesis by (cases "p = []") (simp_all add: words.simps [of p] split_count_nonneg del: dropWhile_eq_Nil_conv)
  next
    case False
    then obtain c r where r: "dropWhile (\<lambda>c. \<not> isspace c) p = c # r"
      by (meson list.exhaust)
    then have "isspace c" by (auto dest: dropWhile_head)
    then have "split_count NUL (dropWhile isspace r) + 1 \<le> split_count NUL p"
      using split_count_dropWhile [of NUL isspace r]
        split_count_dropWhile [of NUL "\<lambda>c. \<not> isspace c" p] r by simp
    then show ?thesis
      using "1.IH" [OF _ r] False r by (simp add: words.simps [of p])
  qed
qed

lemma length_fields_le: "int (length (fields sep p)) \<le> split_count sep p + 1"
proof (induction sep p rule: fields.induct)
  case (1 sep p)
  show ?case
  proof (cases "p = [] \<or> dropWhile (\<lambda>c. c \<noteq> sep) p = []")
    case True
    then show ?thesis by (cases "p = []") (simp_all add: fields.simps [of sep p] split_count_nonneg del: dropWhile_eq_Nil_conv)
  next
    case False
    then obtain c r where r: "dropWhile (\<lambda>c. c \<noteq> sep) p = c # r"
      by (meson list.exhaust)
    then have "c = sep" by (auto dest: dropWhile_head)
    then have "split_count sep r + 1 \<le> split_count sep p"
      using split_count_dropWhile [of sep "\<lambda>c. c \<noteq> sep" p] r by (simp split: if_splits)
    then show ?thesis
      using "1.IH" [OF _ r] False r by (simp add: fields.simps [of sep p])
  qed
qed

definition split_items :: "char \<Rightarrow> cstring option \<Rightarrow> cstring list" where
  "split_items sep po =
     (case po of None \<Rightarrow> [] | Some p \<Rightarrow> if sep = NUL then words p else fields sep p)"

definition list_ok :: "item_list \<Rightarrow> bool" where
  "list_ok l \<longleftrightarrow> list_n l = int (length (list_item l)) \<and> list_n l \<le> list_cap l \<and> list_sz l \<le> list_cap l"

lemma list_split_eq:
  "list_split sep (Some p) =
     Some \<lparr>list_n = int (length (split_items sep (Some p))), list_sz = 2 * (split_count sep p + 1),
           list_item = split_items sep (Some p), list_cap = 2 * (split_count sep p + 1)\<rparr>"
  using length_words_le [of p] length_fields_le [of sep p] split_count_nonneg [of sep p]
  by (simp add: list_split_def split_items_def list_new_def Let_def split_ws_loop_words
      split_sep_loop_fields)

lemma list_split_NULL: "list_split sep None = Some (list_new 0)"
  by (simp add: list_split_def)

lemma list_split_ok:
  "\<exists>l. list_split sep po = Some l \<and> list_ok l \<and> list_items l = split_items sep po
     \<and> (po \<noteq> None \<longrightarrow> list_n l < list_sz l)"
proof (cases po)
  case None
  then show ?thesis
    by (simp add: list_split_def list_new_def list_ok_def list_items_def split_items_def)
next
  case (Some p)
  then show ?thesis
    using length_words_le [of p] length_fields_le [of sep p] split_count_nonneg [of sep p]
    by (auto simp: list_split_eq list_ok_def list_items_def split_items_def)
qed

subsection \<open>Operations on the items\<close>

lemma list_push_room:
  assumes "list_ok l" "list_n l < list_sz l"
  shows "\<exists>l'. list_push l x = Some l' \<and> list_ok l' \<and> list_items l' = list_items l @ [x]"
  using assms by (simp add: list_push_def list_ok_def list_items_def nat_add_distrib)

lemma list_remove_items:
  assumes "list_ok l"
  shows "list_ok (list_remove_item l x)" "list_items (list_remove_item l x) = remove1 x (list_items l)"
  using assms
  by (auto simp: list_remove_item_def list_ok_def list_items_def length_remove1 remove1_idem
      cmem)

lemma list_grep_member: "list_grep_item l x = (if x \<in> set (list_items l) then Some x else None)"
proof -
  have "List.find (\<lambda>s. s = x) xs = (if x \<in> set xs then Some x else None)" for xs
    by (induction xs) auto
  then show ?thesis by (simp add: list_grep_item_def)
qed

lemma list_pop_push:
  assumes "list_ok l" "list_n l < list_sz l" "list_push l x = Some l'"
  shows "\<exists>l''. list_pop l' = (Some x, l'') \<and> list_items l'' = list_items l"
  using assms
  by (auto simp: list_push_def list_ok_def list_items_def list_pop_def nth_opt_def nth_append
      nat_add_distrib)

subsection \<open>Joining and splitting again\<close>

definition word_ok :: "cstring \<Rightarrow> bool" where
  "word_ok s \<longleftrightarrow> s \<noteq> [] \<and> list_all (\<lambda>c. \<not> isspace c) s"

lemma isspace_blank [simp]: "isspace CHR '' ''"
  by (simp add: isspace_def byte_def)

lemma words_word: "word_ok s \<Longrightarrow> words s = [s]"
  by (simp add: words.simps [of s] word_ok_def)

lemma words_append_blank:
  assumes "word_ok s" "r = [] \<or> \<not> isspace (hd r)"
  shows "words (s @ CHR '' '' # r) = s # words r"
proof -
  have "dropWhile isspace r = r"
    using assms(2) by (cases r) auto
  then show ?thesis
    using assms(1) by (simp add: words.simps [of "s @ CHR '' '' # r"] word_ok_def)
qed

lemma join_items_hd:
  "list_all word_ok xs \<Longrightarrow> xs \<noteq> [] \<Longrightarrow> join_items xs \<noteq> [] \<and> \<not> isspace (hd (join_items xs))"
  by (induction xs rule: join_items.induct) (auto simp: word_ok_def list_all_iff neq_Nil_conv)

lemma words_join: "list_all word_ok xs \<Longrightarrow> words (join_items xs) = xs"
proof (induction xs rule: join_items.induct)
  case (3 s t ss)
  then have "words (s @ CHR '' '' # join_items (t # ss)) = s # words (join_items (t # ss))"
    using join_items_hd [of "t # ss"] by (intro words_append_blank) auto
  then show ?case using "3" by simp
qed (simp_all add: words_word)

lemma length_join_items:
  "int (length (join_items xs)) = sum_list (map (\<lambda>s. int (length s)) xs) + max 0 (int (length xs) - 1)"
  by (induction xs rule: join_items.induct) auto

text \<open>
  The encoding of a list of identifiers in one configuration value, as the handlers use it:
  what is joined splits into the same items, for items that pass \<open>valid\<close>.
\<close>

locale id_codec =
  fixes enc :: "'a list \<Rightarrow> 's"
    and decode :: "'s \<Rightarrow> 'a list"
    and valid :: "'a \<Rightarrow> bool"
  assumes decode_enc: "list_all valid xs \<Longrightarrow> decode (enc xs) = xs"
begin

lemma decode_add:
  "list_all valid xs \<Longrightarrow> valid x \<Longrightarrow> decode (enc (decode (enc xs) @ [x])) = xs @ [x]"
  using decode_enc [of xs] decode_enc [of "xs @ [x]"] by simp

lemma decode_remove:
  assumes "list_all valid xs"
  shows "decode (enc (remove1 x (decode (enc xs)))) = remove1 x xs"
  using decode_enc [OF assms] decode_enc [of "remove1 x xs"] assms
  by (metis list_all_iff notin_set_remove1)

lemma enc_inj: "list_all valid xs \<Longrightarrow> list_all valid ys \<Longrightarrow> enc xs = enc ys \<Longrightarrow> xs = ys"
  using decode_enc by metis

lemma add_remove:
  assumes "list_all valid xs" "valid x" "x \<notin> set xs"
  shows "decode (enc (remove1 x (decode (enc (xs @ [x]))))) = xs"
  using decode_remove [of "xs @ [x]" x] assms by (simp add: remove1_append)

end

interpretation idl: id_codec join_items words word_ok
  by unfold_locales (rule words_join)

subsection \<open>Properties\<close>

text \<open>
  C28. \<^verbatim>\<open>list_split\<close> is defined on every string and every separator: the block it
  sizes by counting separators holds all the items it then stores, at least one slot is
  left for a push, and the items are the maximal runs between separators (for separator 0,
  runs of bytes that are not white space, after the first).
\<close>

theorem list_split_safe:
  "\<exists>l. list_split sep (Some p) = Some l \<and> list_n l = int (length (list_item l))
     \<and> list_n l < list_cap l \<and> list_items l = (if sep = NUL then words p else fields sep p)"
proof -
  obtain l where l: "list_split sep (Some p) = Some l" "list_ok l"
    "list_items l = split_items sep (Some p)" "list_n l < list_sz l"
    using list_split_ok [of sep "Some p"] by auto
  then show ?thesis by (auto simp: list_ok_def split_items_def)
qed

text \<open>
  \<^verbatim>\<open>list_join\<close> under-allocates, by one byte per blank between items: it has a
  defined result exactly for a list of at most one item, and the result is that item.
\<close>

lemma list_join_items:
  "list_join l = (case list_items l of [] \<Rightarrow> Some [] | [s] \<Rightarrow> Some s | _ \<Rightarrow> None)"
proof -
  have "list_join l =
      (if length (list_items l) \<le> 1 then Some (join_items (list_items l)) else None)"
    unfolding list_join_def list_join_alloc_def length_join_items Let_def by auto
  then show ?thesis by (auto split: list.split)
qed

theorem list_join_overrun:
  "list_join_alloc l = int (length (join_items (list_items l))) + 1 - max 0 (int (length (list_items l)) - 1)
   \<and> (list_join l = None \<longleftrightarrow> 2 \<le> length (list_items l))"
  unfolding list_join_items by (auto simp: list_join_alloc_def length_join_items split: list.split)

text \<open>
  \<^verbatim>\<open>list_push\<close> never records that it grew the block: starting from a full list
  of capacity \<^verbatim>\<open>sz\<close>, the pushes are defined exactly as long as they fit in twice
  \<^verbatim>\<open>sz\<close> slots, and the next one writes outside the block.
\<close>

lemma list_push_full:
  assumes "list_ok l" "list_sz l \<le> list_n l"
  shows "list_push l x = (if list_n l < 2 * list_sz l
     then Some \<lparr>list_n = list_n l + 1, list_sz = list_sz l, list_item = list_items l @ [x],
                list_cap = 2 * list_sz l\<rparr> else None)"
  using assms by (auto simp: list_push_def list_ok_def Let_def)

lemma list_push_sz: "list_push l x = Some l' \<Longrightarrow> list_sz l' = list_sz l"
  by (auto simp: list_push_def Let_def split: if_splits)

theorem list_push_bound:
  assumes "list_n l = int (length (list_item l))" "list_n l = list_sz l" "list_sz l \<le> list_cap l"
  shows "(\<exists>l'. foldM (\<lambda>x l. list_push l x) xs l = Some l') \<longleftrightarrow> int (length xs) \<le> list_sz l"
proof -
  have "(\<exists>l'. foldM (\<lambda>x l. list_push l x) xs l = Some l') \<longleftrightarrow> xs = [] \<or> list_n l + int (length xs) \<le> 2 * list_sz l"
    if "list_n l = int (length (list_item l))" "list_sz l \<le> list_n l" "list_sz l \<le> list_cap l"
    for l
    using that
  proof (induction xs arbitrary: l)
    case (Cons x xs)
    have ok: "list_ok (l\<lparr>list_cap := max (list_n l) (list_cap l)\<rparr>)"
      using Cons.prems by (simp add: list_ok_def)
    have push: "list_push l x = (if list_n l < 2 * list_sz l
       then Some \<lparr>list_n = list_n l + 1, list_sz = list_sz l, list_item = list_items l @ [x],
                  list_cap = 2 * list_sz l\<rparr> else None)"
      using Cons.prems by (auto simp: list_push_def Let_def)
    let ?l = "\<lparr>list_n = list_n l + 1, list_sz = list_sz l, list_item = list_items l @ [x],
                  list_cap = 2 * list_sz l\<rparr>"
    have "list_n ?l = int (length (list_item ?l))" "list_sz ?l \<le> list_n ?l"
      "list_sz ?l \<le> list_cap ?l" if "list_n l < 2 * list_sz l"
      using Cons.prems that by (auto simp: list_items_def)
    with Cons.IH [of ?l] show ?case
      by (auto simp: push)
  qed simp
  from this [of l] show ?thesis using assms by auto
qed

theorem list_push_bound_witness:
  "(\<exists>l'. foldM (\<lambda>x l. list_push l x) [''x'', ''y'', ''z'']
      \<lparr>list_n = 2, list_sz = 2, list_item = [''1'', ''2''], list_cap = 2\<rparr> = Some l') \<longleftrightarrow> (3 :: int) \<le> 2"
  using list_push_bound
    [of "\<lparr>list_n = 2, list_sz = 2, list_item = [''1'', ''2''], list_cap = 2\<rparr>" "[''x'', ''y'', ''z'']"]
  by simp

end
