(* ===== verification/Netmask.thy ===== *)
theory Netmask
  imports Libc
begin

unbundle bit_operations_syntax

text \<open>
  Addresses and netmasks of \<^verbatim>\<open>contrib/setup\<close>: the prefix-length table of
  \<^verbatim>\<open>eval.c\<close> with its two conversions, the address checks of \<^verbatim>\<open>eval.c\<close>,
  the octet scanner of \<^verbatim>\<open>rc2conf.c\<close> and the network and broadcast arithmetic of
  \<^verbatim>\<open>ok.c\<close> and \<^verbatim>\<open>rc2conf.c\<close>.
\<close>

definition mask_tbl :: "int list list" where
  "mask_tbl =
     [[0, 0, 0, 0], [128, 0, 0, 0], [192, 0, 0, 0], [224, 0, 0, 0],
      [240, 0, 0, 0], [248, 0, 0, 0], [252, 0, 0, 0], [254, 0, 0, 0],
      [255, 0, 0, 0], [255, 128, 0, 0], [255, 192, 0, 0], [255, 224, 0, 0],
      [255, 240, 0, 0], [255, 248, 0, 0], [255, 252, 0, 0], [255, 254, 0, 0],
      [255, 255, 0, 0], [255, 255, 128, 0], [255, 255, 192, 0], [255, 255, 224, 0],
      [255, 255, 240, 0], [255, 255, 248, 0], [255, 255, 252, 0], [255, 255, 254, 0],
      [255, 255, 255, 0], [255, 255, 255, 128], [255, 255, 255, 192], [255, 255, 255, 224],
      [255, 255, 255, 240], [255, 255, 255, 248], [255, 255, 255, 252], [255, 255, 255, 254],
      [255, 255, 255, 255]]"

definition mask_to_ip4 :: "int \<Rightarrow> cstring" where
  "mask_to_ip4 msk =
     (if msk \<ge> 0 \<and> msk \<le> 32
      then let r = mask_tbl ! nat msk in dotted (r ! 0) (r ! 1) (r ! 2) (r ! 3)
      else ''0.0.0.0'')"

text \<open>
  The loop \<^verbatim>\<open>while(*dd == 0xff && n < 32)\<close> over the array \<^verbatim>\<open>d[4]\<close>: \<open>None\<close> when
  \<^verbatim>\<open>dd\<close> is read past the fourth element.
\<close>

fun mask_scan :: "int list \<Rightarrow> int \<Rightarrow> (int \<times> int) option" where
  "mask_scan [] n = None"
| "mask_scan (x # dd) n = (if x = 0xff \<and> n < 32 then mask_scan dd (n + 8) else Some (x, n))"

definition mask_tail :: "int \<Rightarrow> int" where
  "mask_tail x =
     (if x = 0 then 0 else if x = 0x80 then 1 else if x = 0xc0 then 2 else if x = 0xe0 then 3
      else if x = 0xf0 then 4 else if x = 0xf8 then 5 else if x = 0xfc then 6
      else if x = 0xfe then 7 else if x = 0xff then 8 else 0)"

definition ip4_to_mask :: "cstring option \<Rightarrow> int option" where
  "ip4_to_mask ip4 =
     (case ip4 of None \<Rightarrow> Some 24
      | Some s \<Rightarrow>
          let d = sscanf_quad s in
          if length d \<noteq> 4 then Some 24
          else map_option (\<lambda>(x, n). n + mask_tail x) (mask_scan d 0))"

text \<open>
  \<^verbatim>\<open>is_ipnum\<close> returns a pointer at the separator after the number, or NULL
  (\<open>None\<close>): one to three bytes up to a dot, a dash or the end that
  \<^verbatim>\<open>sscanf\<close> reads as at most 255.
\<close>

definition ipnum_stop :: "char \<Rightarrow> bool" where
  "ipnum_stop c = (c = CHR ''.'' \<or> c = NUL \<or> c = CHR ''-'')"

definition is_ipnum :: "cstring \<Rightarrow> cstring option" where
  "is_ipnum s =
     (let num = takeWhile (\<lambda>c. \<not> ipnum_stop c) s; i = length num in
      if i \<ge> 4 \<or> i = 0 then None
      else case scan_d num of
             None \<Rightarrow> None
           | Some (v, _) \<Rightarrow> if v > 255 then None else Some (drop i s))"

text \<open>
  The inner loop of \<^verbatim>\<open>is_ipcheckval_zero\<close> over the four numbers of an address (the
  argument counts the numbers after this one): the byte after the last number and the
  pointer behind it, or \<open>None\<close> where the code returns 0.
\<close>

fun ipcheck_nums :: "nat \<Rightarrow> cstring \<Rightarrow> (char \<times> cstring) option" where
  "ipcheck_nums 0 val = (case is_ipnum val of None \<Rightarrow> None | Some r \<Rightarrow> Some (deref r, tl r))"
| "ipcheck_nums (Suc i) val =
     (case is_ipnum val of None \<Rightarrow> None
      | Some r \<Rightarrow> if deref r \<noteq> CHR ''.'' then None else ipcheck_nums i (tl r))"

definition is_ipcheckval_zero :: "cstring \<Rightarrow> bool \<Rightarrow> bool" where
  "is_ipcheckval_zero val sw =
     (case ipcheck_nums 3 val of
        None \<Rightarrow> False
      | Some (c, val') \<Rightarrow>
          if sw then
            (if c \<noteq> CHR ''-'' then False
             else case ipcheck_nums 3 val' of None \<Rightarrow> False | Some (c', _) \<Rightarrow> c' = NUL)
          else c = NUL)"

definition is_ipcheckval :: "cstring \<Rightarrow> bool" where
  "is_ipcheckval val = is_ipcheckval_zero val False"

definition is_ipcheckval_range :: "cstring \<Rightarrow> bool" where
  "is_ipcheckval_range val = is_ipcheckval_zero val True"

text \<open>
  \<^verbatim>\<open>get_ipnum\<close> of \<^verbatim>\<open>rc2conf.c\<close>: the number and the pointer it returns, which is
  invalid (\<open>None\<close>) when the terminator was consumed.
\<close>

definition get_ipnum :: "cstring \<Rightarrow> int \<times> cstring option" where
  "get_ipnum s =
     (let str = takeWhile (\<lambda>c. c \<noteq> CHR ''.'' \<and> c \<noteq> NUL) s; i = length str in
      if i \<ge> 4 \<or> i = 0 then (0, Some s)
      else case scan_d str of
             None \<Rightarrow> (0, Some s)
           | Some (v, _) \<Rightarrow> if v > 255 then (0, Some s) else (v, adv (drop i s)))"

subsection \<open>Network and broadcast addresses\<close>

definition bcast_octet :: "u32 \<Rightarrow> u32 \<Rightarrow> u32" where
  "bcast_octet adr msk = (adr AND msk) OR (0xff AND NOT msk)"

definition dotted_u32 :: "u32 list \<Rightarrow> cstring" where
  "dotted_u32 w = dotted (sint (w ! 0)) (sint (w ! 1)) (sint (w ! 2)) (sint (w ! 3))"

text \<open>
  The broadcast address of \<^verbatim>\<open>ok_network\<close>; \<open>None\<close> when \<^verbatim>\<open>sscanf\<close> leaves one
  of the four octets of the address or the mask unset.
\<close>

definition broadcast_of :: "cstring \<Rightarrow> cstring \<Rightarrow> cstring option" where
  "broadcast_of adr msk =
     (let a = sscanf_quad adr; m = sscanf_quad msk in
      if length a = 4 \<and> length m = 4
      then Some (dotted_u32 (map2 (\<lambda>x y. bcast_octet (word_of_int x) (word_of_int y)) a m))
      else None)"

text \<open>
  The loop of \<^verbatim>\<open>rc2dhcpd_sub\<close> that masks the first address of the range: the octets
  of the subnet, or \<open>None\<close> when a pointer behind a terminator is used.
\<close>

fun subnet_octets :: "nat \<Rightarrow> cstring option \<Rightarrow> cstring option \<Rightarrow> u32 list option" where
  "subnet_octets 0 p q = Some []"
| "subnet_octets (Suc i) p q =
     (case (p, q) of
        (Some tmp, Some tmp2) \<Rightarrow>
          (let (j, tmp) = get_ipnum tmp; (k, tmp2) = get_ipnum tmp2 in
           map_option (Cons (word_of_int j AND word_of_int k)) (subnet_octets i tmp tmp2))
      | _ \<Rightarrow> None)"

subsection \<open>Lemmas\<close>

definition octet :: "int \<Rightarrow> bool" where
  "octet i = (0 \<le> i \<and> i \<le> 255)"

lemma octet_int32: "octet i \<Longrightarrow> int32 i"
  by (simp add: octet_def int32_def int_min_def int_max_def)

lemma octet_dec:
  assumes "octet i"
  shows "length (dec i) < 4" "dec i \<noteq> []" "list_all isdigit (dec i)" "scan_d (dec i) = Some (i, [])"
    "clamp32 i = i"
proof -
  have "length (dec_nat (nat i)) \<le> 3"
    using assms by (intro length_dec_nat_le3) (simp add: octet_def nat_less_iff)
  then show "length (dec i) < 4" "dec i \<noteq> []" "list_all isdigit (dec i)"
    "scan_d (dec i) = Some (i, [])" "clamp32 i = i"
    using assms scan_d_dec [of i "[]"]
    by (simp_all add: octet_def dec_def int_min_def int_max_def clamp32_def)
qed

lemma digits_no_stop:
  "list_all isdigit s \<Longrightarrow> list_all (\<lambda>c. \<not> ipnum_stop c) s \<and>
     list_all (\<lambda>c. c \<noteq> CHR ''.'' \<and> c \<noteq> NUL) s"
  by (auto simp: list_all_iff ipnum_stop_def isdigit_def byte_def)

lemma is_ipnum_dec:
  assumes "octet i" "r = [] \<or> ipnum_stop (hd r)"
  shows "is_ipnum (dec i @ r) = Some r"
proof -
  note d = octet_dec [OF assms(1)]
  have "takeWhile (\<lambda>c. \<not> ipnum_stop c) (dec i @ r) = dec i"
    using assms(2) digits_no_stop [OF d(3)] by (cases r) auto
  then show ?thesis
    using d assms(1) by (simp add: is_ipnum_def octet_def)
qed

lemma get_ipnum_dec:
  assumes "octet i"
  shows "get_ipnum (dec i @ CHR ''.'' # r) = (i, Some r)" "get_ipnum (dec i) = (i, None)"
proof -
  note d = octet_dec [OF assms]
  have "list_all (\<lambda>c. c \<noteq> CHR ''.'' \<and> c \<noteq> NUL) (dec i)"
    using digits_no_stop [OF d(3)] by blast
  then show "get_ipnum (dec i @ CHR ''.'' # r) = (i, Some r)" "get_ipnum (dec i) = (i, None)"
    using d assms by (simp_all add: get_ipnum_def octet_def)
qed

lemma ipnum_stop_chars [simp]: "ipnum_stop CHR ''.''" "ipnum_stop CHR ''-''"
  by (simp_all add: ipnum_stop_def)

lemma ipcheck_nums_dotted:
  assumes "octet a" "octet b" "octet c" "octet d" "r = [] \<or> ipnum_stop (hd r)"
  shows "ipcheck_nums 3 (dotted a b c d @ r) = Some (deref r, tl r)"
  using assms
  by (simp add: dotted_def numeral_3_eq_3 is_ipnum_dec)

lemma is_ipnum_cases:
  assumes "is_ipnum s = Some r"
  shows "\<exists>num v rest. s = num @ r \<and> 0 < length num \<and> length num \<le> 3
    \<and> list_all (\<lambda>c. \<not> ipnum_stop c) num \<and> scan_d num = Some (v, rest) \<and> v \<le> 255
    \<and> (r = [] \<or> ipnum_stop (hd r))"
proof -
  let ?num = "takeWhile (\<lambda>c. \<not> ipnum_stop c) s"
  from assms obtain v rest where "0 < length ?num" "length ?num \<le> 3" "scan_d ?num = Some (v, rest)"
    "v \<le> 255" "r = drop (length ?num) s"
    by (auto simp: is_ipnum_def Let_def split: if_splits option.splits)
  moreover have "r = dropWhile (\<lambda>c. \<not> ipnum_stop c) s"
    using calculation(5) by (simp add: dropWhile_eq_drop)
  then have "s = ?num @ r" "r = [] \<or> ipnum_stop (hd r)"
    using hd_dropWhile [of "\<lambda>c. \<not> ipnum_stop c" s] by auto
  ultimately show ?thesis by (metis list_all_takeWhile)
qed

subsection \<open>Properties\<close>

lemma mask_tbl_rows: "list_all (\<lambda>r. length r = 4 \<and> list_all octet r) mask_tbl"
  by (simp add: mask_tbl_def octet_def)

lemma mask_tbl_scan:
  "\<forall>n < 33. map_option (\<lambda>(x, k). k + mask_tail x) (mask_scan (mask_tbl ! n) 0) =
     (if n = 32 then None else Some (int n))"
  unfolding Ball_def [symmetric] by code_simp

lemma list4: "length r = 4 \<Longrightarrow> r = [r ! 0, r ! 1, r ! 2, r ! 3]"
  by (auto simp: list_eq_iff_nth_eq less_Suc_eq numeral_eq_Suc)

lemma sscanf_quad_mask:
  assumes "n \<le> 32"
  shows "sscanf_quad (mask_to_ip4 (int n)) = mask_tbl ! n"
proof -
  have "n < length mask_tbl" using assms by (simp add: mask_tbl_def)
  then have r: "length (mask_tbl ! n) = 4" "list_all octet (mask_tbl ! n)"
    using mask_tbl_rows by (auto simp: list_all_length)
  then have "\<And>i. i < 4 \<Longrightarrow> int32 (mask_tbl ! n ! i)"
    by (simp add: list_all_length octet_int32)
  then have "sscanf_quad (mask_to_ip4 (int n)) =
      [mask_tbl ! n ! 0, mask_tbl ! n ! 1, mask_tbl ! n ! 2, mask_tbl ! n ! 3]"
    using assms by (simp add: mask_to_ip4_def Let_def sscanf_quad_dotted)
  then show ?thesis using list4 [OF r(1)] by simp
qed

text \<open>
  C29. The two conversions between a prefix length and a netmask are inverse for the lengths
  0 to 31; for 255.255.255.255, the mask of length 32, \<^verbatim>\<open>ip4_to_mask\<close> reads the array
  element behind its four octets.
\<close>

theorem ip4_to_mask_inverse:
  assumes "n \<le> 32"
  shows "ip4_to_mask (Some (mask_to_ip4 (int n))) = (if n = 32 then None else Some (int n))"
proof -
  have "length (mask_tbl ! n) = 4"
    using mask_tbl_rows assms by (auto simp: list_all_length mask_tbl_def)
  then show ?thesis
    using assms mask_tbl_scan by (simp add: ip4_to_mask_def Let_def sscanf_quad_mask)
qed

theorem ip4_to_mask_inverse_witness:
  "ip4_to_mask (Some (mask_to_ip4 (int 24))) = Some 24"
  using ip4_to_mask_inverse [of 24] by simp

text \<open>What \<^verbatim>\<open>is_ipnum\<close> takes for one number of an address.\<close>

definition ip_number :: "cstring \<Rightarrow> bool" where
  "ip_number num \<longleftrightarrow> 0 < length num \<and> length num \<le> 3 \<and> list_all (\<lambda>c. \<not> ipnum_stop c) num
     \<and> (case scan_d num of None \<Rightarrow> False | Some (v, _) \<Rightarrow> v \<le> 255)"

lemma is_ipnum_number:
  assumes "ip_number num" "r = [] \<or> ipnum_stop (hd r)"
  shows "is_ipnum (num @ r) = Some r"
proof -
  have "takeWhile (\<lambda>c. \<not> ipnum_stop c) (num @ r) = num"
    using assms by (cases r) (auto simp: ip_number_def)
  then show ?thesis
    using assms by (auto simp: is_ipnum_def ip_number_def split: option.splits)
qed

lemma is_ipnum_iff:
  "is_ipnum s = Some r \<longleftrightarrow> (\<exists>num. s = num @ r \<and> ip_number num \<and> (r = [] \<or> ipnum_stop (hd r)))"
proof
  assume "is_ipnum s = Some r"
  from is_ipnum_cases [OF this] show "\<exists>num. s = num @ r \<and> ip_number num \<and> (r = [] \<or> ipnum_stop (hd r))"
    by (auto simp: ip_number_def)
next
  assume "\<exists>num. s = num @ r \<and> ip_number num \<and> (r = [] \<or> ipnum_stop (hd r))"
  then show "is_ipnum s = Some r" using is_ipnum_number by blast
qed

lemma is_cstr_tl: "is_cstr s \<Longrightarrow> deref s = c \<Longrightarrow> c \<noteq> NUL \<Longrightarrow> s = c # tl s \<and> is_cstr (tl s)"
  by (cases s) auto

text \<open>
  \<^verbatim>\<open>is_ipcheckval\<close> accepts exactly four numbers separated by single dots with
  nothing behind the last one; it never reads past the terminator, whatever the string.
\<close>

theorem is_ipcheckval_iff:
  assumes "is_cstr s"
  shows "is_ipcheckval s \<longleftrightarrow>
    (\<exists>a b c d. s = a @ ''.'' @ b @ ''.'' @ c @ ''.'' @ d
       \<and> ip_number a \<and> ip_number b \<and> ip_number c \<and> ip_number d)"
    (is "_ \<longleftrightarrow> ?R")
proof
  assume "is_ipcheckval s"
  then obtain r1 r2 r3 r4 where r: "is_ipnum s = Some r1" "deref r1 = CHR ''.''"
    "is_ipnum (tl r1) = Some r2" "deref r2 = CHR ''.''"
    "is_ipnum (tl r2) = Some r3" "deref r3 = CHR ''.''"
    "is_ipnum (tl r3) = Some r4" "deref r4 = NUL"
    by (auto simp: is_ipcheckval_def is_ipcheckval_zero_def numeral_3_eq_3
        split: option.splits if_splits)
  from r(1) obtain a where a: "s = a @ r1" "ip_number a" by (auto simp: is_ipnum_iff)
  from r(3) obtain b where b: "tl r1 = b @ r2" "ip_number b" by (auto simp: is_ipnum_iff)
  from r(5) obtain c where c: "tl r2 = c @ r3" "ip_number c" by (auto simp: is_ipnum_iff)
  from r(7) obtain d where d: "tl r3 = d @ r4" "ip_number d" by (auto simp: is_ipnum_iff)
  have 1: "r1 = CHR ''.'' # tl r1" "is_cstr (tl r1)"
    using a assms r(2) is_cstr_tl [of r1] by auto
  have 2: "r2 = CHR ''.'' # tl r2" "is_cstr (tl r2)"
    using b 1 r(4) is_cstr_tl [of r2] by auto
  have 3: "r3 = CHR ''.'' # tl r3" "is_cstr (tl r3)"
    using c 2 r(6) is_cstr_tl [of r3] by auto
  have "r4 = []"
    using d 3(2) r(8) by (cases r4) auto
  with a b c d 1 2 3 have "s = a @ ''.'' @ b @ ''.'' @ c @ ''.'' @ d" by (metis append.right_neutral append_Cons append_Nil)
  with a b c d show ?R by blast
next
  assume ?R
  then obtain a b c d where s: "s = a @ CHR ''.'' # b @ CHR ''.'' # c @ CHR ''.'' # d"
    and n: "ip_number a" "ip_number b" "ip_number c" "ip_number d"
    by auto
  have d: "is_ipnum d = Some []" using is_ipnum_number [of d "[]"] n by simp
  show "is_ipcheckval s"
    unfolding s is_ipcheckval_def is_ipcheckval_zero_def
    by (simp add: numeral_3_eq_3 is_ipnum_number n d)
qed

theorem is_ipcheckval_iff_witness: "is_cstr ''1.2.3'' \<and> \<not> is_ipcheckval ''1.2.3'' \<and> is_ipcheckval ''10.0.0.255''"
proof -
  have n: "ip_number ''10''" "ip_number ''0''" "ip_number ''255''"
    by (simp_all add: ip_number_def ipnum_stop_def scan_d_def isspace_def isdigit_def byte_def clamp32_def
        int_min_def int_max_def)
  have "is_ipcheckval ''10.0.0.255''"
    by (rule is_ipcheckval_iff [THEN iffD2])
      (simp, rule exI [of _ "''10''"], rule exI [of _ "''0''"], rule exI [of _ "''0''"],
       rule exI [of _ "''255''"], simp add: n)
  moreover have "\<not> is_ipcheckval ''1.2.3''"
    using is_ipcheckval_iff [of "''1.2.3''"] by (auto simp: is_ipcheckval_def is_ipcheckval_zero_def
      numeral_3_eq_3 is_ipnum_def ipnum_stop_def scan_d_def isspace_def isdigit_def byte_def clamp32_def
      int_min_def int_max_def)
  ultimately show ?thesis by simp
qed

subsection \<open>Broadcast addresses\<close>

definition bcast_int :: "int \<Rightarrow> int \<Rightarrow> int" where
  "bcast_int a m = (a AND m) OR (0xff AND NOT m)"

lemma bcast_int_octet: "octet a \<Longrightarrow> octet (bcast_int a m)"
proof -
  assume a: "octet a"
  have "0 \<le> a AND m" "a AND m \<le> a" "0 \<le> 0xff AND NOT m" "0xff AND NOT m \<le> (255 :: int)"
    using a by (simp_all add: octet_def AND_upper1)
  moreover have "(a AND m) OR (0xff AND NOT m) < 2 ^ 8"
    by (rule OR_upper) (use a calculation in \<open>auto simp: octet_def\<close>)
  ultimately show ?thesis by (simp add: octet_def bcast_int_def)
qed

lemma bcast_int_laws:
  assumes "octet m"
  shows "bcast_int a m AND m = a AND m" "bcast_int a m OR m = 0xff OR m OR (a AND m)"
    "bcast_int (bcast_int a m) m = bcast_int a m"
  unfolding bcast_int_def by (auto intro!: bit_eqI simp: bit_simps)

lemma sint_bcast_octet:
  assumes "octet a" "octet m"
  shows "sint (bcast_octet (word_of_int a) (word_of_int m)) = bcast_int a m"
proof -
  have "bcast_octet (word_of_int a) (word_of_int m) = word_of_int (bcast_int a m)"
    by (simp add: bcast_octet_def bcast_int_def of_int_and_eq of_int_or_eq of_int_not_eq)
  moreover have "octet (bcast_int a m)" by (rule bcast_int_octet [OF assms(1)])
  ultimately show ?thesis
    by (simp add: signed_of_int signed_take_bit_int_eq_self octet_def)
qed

text \<open>
  \<^verbatim>\<open>ok_network\<close> computes the broadcast address: for an address and a mask of
  four octets each the result is again four octets, each keeps the network bits of the
  address, has every host bit set, and computing the broadcast of a broadcast changes
  nothing.
\<close>

theorem broadcast_of_dotted:
  assumes "octet a0" "octet a1" "octet a2" "octet a3" "octet m0" "octet m1" "octet m2" "octet m3"
  shows "\<exists>b0 b1 b2 b3. broadcast_of (dotted a0 a1 a2 a3) (dotted m0 m1 m2 m3) = Some (dotted b0 b1 b2 b3)
    \<and> broadcast_of (dotted b0 b1 b2 b3) (dotted m0 m1 m2 m3) = Some (dotted b0 b1 b2 b3)
    \<and> (\<forall>(a, m, b) \<in> {(a0, m0, b0), (a1, m1, b1), (a2, m2, b2), (a3, m3, b3)}.
         octet b \<and> b AND m = a AND m \<and> (\<forall>i < 8. \<not> bit m i \<longrightarrow> bit b i))"
proof (intro exI conjI)
  show "broadcast_of (dotted a0 a1 a2 a3) (dotted m0 m1 m2 m3) =
     Some (dotted (bcast_int a0 m0) (bcast_int a1 m1) (bcast_int a2 m2) (bcast_int a3 m3))"
    using assms by (simp add: broadcast_of_def sscanf_quad_dotted octet_int32 dotted_u32_def
        sint_bcast_octet)
  show "broadcast_of (dotted (bcast_int a0 m0) (bcast_int a1 m1) (bcast_int a2 m2) (bcast_int a3 m3))
      (dotted m0 m1 m2 m3) =
     Some (dotted (bcast_int a0 m0) (bcast_int a1 m1) (bcast_int a2 m2) (bcast_int a3 m3))"
    using assms by (simp add: broadcast_of_def sscanf_quad_dotted octet_int32 dotted_u32_def
        sint_bcast_octet bcast_int_octet bcast_int_laws)
  have host: "\<forall>i < 8. \<not> bit m i \<longrightarrow> bit (bcast_int a m) i" for a m :: int
  proof (intro allI impI)
    fix i :: nat
    assume "i < 8" "\<not> bit m i"
    moreover from \<open>i < 8\<close> have "bit (255 :: int) i"
      by (auto simp: less_Suc_eq numeral_eq_Suc bit_0 bit_Suc)
    ultimately show "bit (bcast_int a m) i" by (simp add: bcast_int_def bit_simps)
  qed
  show "\<forall>(a, m, b) \<in> {(a0, m0, bcast_int a0 m0), (a1, m1, bcast_int a1 m1), (a2, m2, bcast_int a2 m2),
      (a3, m3, bcast_int a3 m3)}. octet b \<and> b AND m = a AND m \<and> (\<forall>i < 8. \<not> bit m i \<longrightarrow> bit b i)"
    using assms host by (simp add: bcast_int_octet bcast_int_laws)
qed

theorem broadcast_of_dotted_witness:
  "\<exists>b0 b1 b2 b3. broadcast_of (dotted 192 168 253 254) (dotted 255 255 255 0) = Some (dotted b0 b1 b2 b3)"
  using broadcast_of_dotted [of 192 168 253 254 255 255 255 0] by (auto simp: octet_def)

end
