(* ===== verification/EnvTable.thy ===== *)
theory EnvTable
  imports Libc
begin

unbundle bit_operations_syntax

text \<open>
  The configuration table of \<^verbatim>\<open>contrib/setup/eval.c\<close>: the linked list behind
  \<^verbatim>\<open>envtop\<close>, its update flags, and the state of one CGI request that the rest of
  \<^verbatim>\<open>setup.cgi\<close> works on. The list is kept in order; an update overwrites the value and
  the flag of the first node with the key, a new key goes to the end. \<open>config_store\<close>
  states what the table promises its clients.
\<close>

record env_entry =
  env_key :: cstring
  env_val :: cstring
  env_flag :: "32 word"

definition RC_bWRITE :: "32 word" where "RC_bWRITE = 1"
definition RC_bUPDATE :: "32 word" where "RC_bUPDATE = 2"
definition RC_bNULL :: "32 word" where "RC_bNULL = 4"

lemmas rc_flags = RC_bWRITE_def RC_bUPDATE_def RC_bNULL_def

record tm_t =
  tm_year :: int
  tm_mon :: int
  tm_mday :: int
  tm_hour :: int
  tm_min :: int
  tm_sec :: int

text \<open>
  The state of a request: the table, the process environment, the files and which
  names can be opened for writing, the page
  written so far and the globals of \<^verbatim>\<open>setup.c\<close>. What the kernel and the C library
  hold outside the program (the clock, the user and group databases, the hardware
  addresses, \<^verbatim>\<open>crypt\<close>) is read from the last fields, like whether the target has
  signed characters (i386 does, PowerPC does not); \<open>sys_log\<close> lists the shell
  commands run, \<open>sys_effect\<close> is what a shell command makes of the files, and
  \<open>clock_set\<close> is the last time given to the clock.

  A file stands under its path without \<^verbatim>\<open>.\<close>, \<^verbatim>\<open>..\<close> and empty components.
  The names in the program have none; a name that is built from what a user sent leads to the
  file \<open>real_path\<close> of it. There are no symbolic links.
\<close>

fun path_comps :: "cstring \<Rightarrow> cstring list" where
  "path_comps [] = [[]]"
| "path_comps (c # s) =
     (if c = CHR ''/'' then [] # path_comps s
      else case path_comps s of [] \<Rightarrow> [[c]] | d # ds \<Rightarrow> (c # d) # ds)"

definition path_step :: "cstring list \<Rightarrow> cstring \<Rightarrow> cstring list" where
  "path_step up d =
     (if d = [] \<or> d = ''.'' then up else if d = ''..'' then tl up else d # up)"

definition real_path :: "cstring \<Rightarrow> cstring" where
  "real_path p = concat (map (\<lambda>d. CHR ''/'' # d) (rev (foldl path_step [] (path_comps p))))"

record cgi =
  envtop :: "env_entry list"
  penv :: "cstring \<Rightarrow> cstring option"
  files :: "cstring \<Rightarrow> cstring option"
  can_write :: "cstring \<Rightarrow> bool"
  html_out :: cstring
  HTML_error :: cstring
  HTML_script :: cstring
  HTML_script_name :: "cstring option"
  HTML_script_op :: cstring
  HTML_script_subop :: cstring
  HTML_script_arg1 :: cstring
  HTML_script_arg2 :: cstring
  d_flg :: bool
  char_signed :: bool
  sys_log :: "cstring list"
  clock_set :: "tm_t option"
  shutdown_arg :: cstring
  if_addr :: "cstring \<Rightarrow> nat list option"
  host_ip :: "cstring \<Rightarrow> cstring option"
  root_passwd :: "cstring option"
  stdin_data :: cstring
  build_date :: cstring
  tm_now :: tm_t
  time_now :: int
  pid_now :: int
  getpwuid :: "int \<Rightarrow> cstring option"
  getgrgid :: "int \<Rightarrow> cstring option"
  hw_addr :: "cstring \<Rightarrow> nat list"
  crypt :: "cstring \<Rightarrow> cstring \<Rightarrow> cstring"
  sys_effect :: "cstring \<Rightarrow> (cstring \<Rightarrow> cstring option) \<Rightarrow> cstring \<Rightarrow> cstring option"

subsection \<open>Writing and deleting\<close>

text \<open>The flag a write leaves: \<open>ch\<close> says whether the value is new or differs.\<close>

definition put_flag :: "32 word \<Rightarrow> bool \<Rightarrow> 32 word" where
  "put_flag sw ch = (if sw AND RC_bWRITE \<noteq> 0 then sw OR (if ch then RC_bUPDATE else 0) else sw)"

fun env_put :: "cstring \<Rightarrow> cstring \<Rightarrow> 32 word \<Rightarrow> env_entry list \<Rightarrow> env_entry list" where
  "env_put key val sw [] = [\<lparr>env_key = key, env_val = val, env_flag = put_flag sw True\<rparr>]"
| "env_put key val sw (e # es) =
     (if key = env_key e
      then \<lparr>env_key = key, env_val = val, env_flag = put_flag sw (val \<noteq> env_val e)\<rparr> # es
      else e # env_put key val sw es)"

definition putval_withdesc ::
    "cstring \<Rightarrow> cstring \<Rightarrow> cstring option \<Rightarrow> 32 word \<Rightarrow> cgi \<Rightarrow> cgi" where
  "putval_withdesc key val desc sw w =
     (if key = [] then w
      else w\<lparr>envtop := env_put key val sw (envtop w), penv := (penv w)(key := Some val)\<rparr>)"

definition putval :: "cstring \<Rightarrow> cstring \<Rightarrow> 32 word \<Rightarrow> cgi \<Rightarrow> cgi" where
  "putval key val sw w = putval_withdesc key val None sw w"

fun env_del :: "cstring \<Rightarrow> env_entry list \<Rightarrow> env_entry list" where
  "env_del key [] = []"
| "env_del key (e # es) = (if key = env_key e then es else e # env_del key es)"

definition delval :: "cstring \<Rightarrow> cgi \<Rightarrow> cgi" where
  "delval key w = w\<lparr>envtop := env_del key (envtop w)\<rparr>"

subsection \<open>Reading\<close>

definition env_find :: "cstring \<Rightarrow> env_entry list \<Rightarrow> env_entry option" where
  "env_find key es = List.find (\<lambda>e. env_key e = key) es"

definition getvalp :: "cstring \<Rightarrow> cgi \<Rightarrow> env_entry option" where
  "getvalp key w = env_find key (envtop w)"

text \<open>The value and the flag; the clock answers for the six date keys.\<close>

definition getval2 :: "cstring \<Rightarrow> cgi \<Rightarrow> cstring option \<times> 32 word" where
  "getval2 key w =
     (let tm = tm_now w in
      if key = ''x_year'' then (Some (dec_pad4 (tm_year tm + 1900)), 0)
      else if key = ''x_mon'' then (Some (dec_02 (tm_mon tm + 1)), 0)
      else if key = ''x_mday'' then (Some (dec_02 (tm_mday tm)), 0)
      else if key = ''x_hour'' then (Some (dec_02 (tm_hour tm)), 0)
      else if key = ''x_min'' then (Some (dec_02 (tm_min tm)), 0)
      else if key = ''x_sec'' then (Some (dec_02 (tm_sec tm)), 0)
      else case getvalp key w of
             None \<Rightarrow> (None, 0)
           | Some e \<Rightarrow> (Some (env_val e), env_flag e))"

definition getval :: "cstring \<Rightarrow> cgi \<Rightarrow> cstring option" where
  "getval key w = fst (getval2 key w)"

definition getval3 :: "cstring \<Rightarrow> cgi \<Rightarrow> cstring" where
  "getval3 key w = (case getval key w of None \<Rightarrow> '''' | Some v \<Rightarrow> v)"

definition my_atoi :: "cstring option \<Rightarrow> int" where
  "my_atoi s = (case s of None \<Rightarrow> 0 | Some v \<Rightarrow> atoi v)"

definition getval_int :: "cstring \<Rightarrow> cgi \<Rightarrow> int" where
  "getval_int key w = (case getval key w of None \<Rightarrow> 0 | Some v \<Rightarrow> atoi v)"

definition date_key :: "cstring \<Rightarrow> bool" where
  "date_key key \<longleftrightarrow> key \<in> {''x_year'', ''x_mon'', ''x_mday'', ''x_hour'', ''x_min'', ''x_sec''}"

subsection \<open>Flags\<close>

fun env_upd_flag :: "(32 word \<Rightarrow> 32 word) \<Rightarrow> cstring \<Rightarrow> env_entry list \<Rightarrow> env_entry list" where
  "env_upd_flag f key [] = []"
| "env_upd_flag f key (e # es) =
     (if env_key e = key then e\<lparr>env_flag := f (env_flag e)\<rparr> # es else e # env_upd_flag f key es)"

definition setvalflag :: "cstring \<Rightarrow> 32 word \<Rightarrow> cgi \<Rightarrow> int \<times> cgi" where
  "setvalflag key flag w =
     (case getvalp key w of None \<Rightarrow> (0, w)
      | Some _ \<Rightarrow> (1, w\<lparr>envtop := env_upd_flag (\<lambda>f. f OR flag) key (envtop w)\<rparr>))"

definition unsetvalflag :: "cstring \<Rightarrow> 32 word \<Rightarrow> cgi \<Rightarrow> int \<times> cgi" where
  "unsetvalflag key flag w =
     (case getvalp key w of None \<Rightarrow> (0, w)
      | Some _ \<Rightarrow> (1, w\<lparr>envtop := env_upd_flag (\<lambda>f. f AND NOT flag) key (envtop w)\<rparr>))"

definition getvalflag :: "cstring \<Rightarrow> cgi \<Rightarrow> 32 word" where
  "getvalflag key w = (case getvalp key w of None \<Rightarrow> 0 | Some e \<Rightarrow> env_flag e)"

text \<open>\<^verbatim>\<open>is_updateval\<close> stops as soon as both bits are collected.\<close>

fun is_updateval_loop :: "env_entry list \<Rightarrow> 32 word \<Rightarrow> 32 word" where
  "is_updateval_loop [] ret = ret"
| "is_updateval_loop (e # es) ret =
     (if \<not> strncmp_eq (env_key e) ''x_'' 2 \<or> env_flag e AND RC_bNULL \<noteq> 0
      then is_updateval_loop es ret
      else let msk = RC_bWRITE OR RC_bUPDATE; ret = ret OR (env_flag e AND msk) in
           if ret = msk then ret else is_updateval_loop es ret)"

definition is_updateval :: "cgi \<Rightarrow> 32 word" where
  "is_updateval w = is_updateval_loop (envtop w) 0"

text \<open>
  The array bookkeeping is compiled out: \<^verbatim>\<open>search_array\<close> answers NULL, so
  \<^verbatim>\<open>put_array\<close> walks the list and changes nothing.
\<close>

definition search_array :: "cstring \<Rightarrow> int \<Rightarrow> cstring option" where
  "search_array key bcount = None"

definition put_array :: "32 word \<Rightarrow> cgi \<Rightarrow> cgi" where
  "put_array sw w =
     fold (\<lambda>e w. case search_array (env_key e) 2 of None \<Rightarrow> w | Some k \<Rightarrow> w) (envtop w) w"

subsection \<open>The table as a map\<close>

definition env_ok :: "env_entry list \<Rightarrow> bool" where
  "env_ok es \<longleftrightarrow> distinct (map env_key es) \<and> [] \<notin> env_key ` set es"

definition env_map :: "env_entry list \<Rightarrow> cstring \<Rightarrow> cstring option" where
  "env_map es key = map_option env_val (env_find key es)"

lemma env_find_simps [simp]:
  "env_find key [] = None"
  "env_find key (e # es) = (if env_key e = key then Some e else env_find key es)"
  by (simp_all add: env_find_def)

lemma env_find_None: "env_find key es = None \<longleftrightarrow> key \<notin> env_key ` set es"
  by (induction es) auto

lemma env_find_SomeD: "env_find key es = Some e \<Longrightarrow> e \<in> set es \<and> env_key e = key"
  by (induction es) (auto split: if_splits)

lemma env_find_put:
  "env_find k (env_put key val sw es) =
     (if k = key then Some \<lparr>env_key = key, env_val = val,
         env_flag = put_flag sw (env_map es key \<noteq> Some val)\<rparr> else env_find k es)"
  by (induction es) (auto simp: env_map_def eq_commute)

lemma env_keys_put: "env_key ` set (env_put key val sw es) = insert key (env_key ` set es)"
  by (induction es) auto

lemma env_ok_put: "env_ok es \<Longrightarrow> key \<noteq> [] \<Longrightarrow> env_ok (env_put key val sw es)"
  unfolding env_ok_def
proof (induction es)
  case (Cons e es)
  then show ?case
    using env_keys_put [of key val sw es] by (auto simp: image_iff)
qed simp

lemma env_keys_del: "distinct (map env_key es) \<Longrightarrow> env_key ` set (env_del key es) = env_key ` set es - {key}"
  by (induction es) auto

lemma env_ok_del: "env_ok es \<Longrightarrow> env_ok (env_del key es)"
  unfolding env_ok_def
proof (induction es)
  case (Cons e es)
  then show ?case using env_keys_del [of es key] by (auto simp: image_iff)
qed simp

lemma env_find_del:
  "distinct (map env_key es) \<Longrightarrow> env_find k (env_del key es) = (if k = key then None else env_find k es)"
  by (induction es) (auto simp: env_find_None)

lemma env_key_upd_flag [simp]: "map env_key (env_upd_flag f key es) = map env_key es"
  by (induction es) auto

lemma env_val_upd_flag [simp]: "map env_val (env_upd_flag f key es) = map env_val es"
  by (induction es) auto

lemma env_ok_upd_flag [simp]: "env_ok (env_upd_flag f key es) \<longleftrightarrow> env_ok es"
  unfolding env_ok_def by (metis env_key_upd_flag list.set_map)

lemma env_find_upd_flag:
  "env_find k (env_upd_flag f key es) =
     (if k = key then map_option (\<lambda>e. e\<lparr>env_flag := f (env_flag e)\<rparr>) (env_find k es)
      else env_find k es)"
  by (induction es) auto

lemma env_map_upd_flag [simp]: "env_map (env_upd_flag f key es) = env_map es"
  by (rule ext) (auto simp: env_map_def env_find_upd_flag option.map_comp comp_def)

text \<open>
  The interface the handlers and the page code rely on: a store of values by key that a
  write and a delete change at one key only.
\<close>

locale config_store =
  fixes put :: "'k \<Rightarrow> 'v \<Rightarrow> 's \<Rightarrow> 's"
    and del :: "'k \<Rightarrow> 's \<Rightarrow> 's"
    and lookup :: "'s \<Rightarrow> 'k \<Rightarrow> 'v option"
    and key_ok :: "'k \<Rightarrow> bool"
    and invar :: "'s \<Rightarrow> bool"
  assumes lookup_put: "invar s \<Longrightarrow> key_ok k \<Longrightarrow> lookup (put k v s) = (lookup s)(k \<mapsto> v)"
    and lookup_del: "invar s \<Longrightarrow> lookup (del k s) = (lookup s)(k := None)"
    and invar_put: "invar s \<Longrightarrow> key_ok k \<Longrightarrow> invar (put k v s)"
    and invar_del: "invar s \<Longrightarrow> invar (del k s)"
begin

lemma put_overwrites:
  "invar s \<Longrightarrow> key_ok k \<Longrightarrow> lookup (put k v (put k u s)) = lookup (put k v s)"
  by (simp add: lookup_put invar_put)

lemma put_commutes:
  "invar s \<Longrightarrow> key_ok k \<Longrightarrow> key_ok l \<Longrightarrow> k \<noteq> l \<Longrightarrow>
   lookup (put k v (put l u s)) = lookup (put l u (put k v s))"
  by (simp add: lookup_put invar_put fun_upd_twist)

lemma del_put: "invar s \<Longrightarrow> key_ok k \<Longrightarrow> lookup (del k (put k v s)) = lookup (del k s)"
  by (simp add: lookup_put lookup_del invar_put)

lemma put_all:
  "invar s \<Longrightarrow> list_all (key_ok \<circ> fst) kvs \<Longrightarrow>
     invar (fold (\<lambda>(k, v). put k v) kvs s) \<and>
     lookup (fold (\<lambda>(k, v). put k v) kvs s) = lookup s ++ map_of (rev kvs)"
proof (induction kvs arbitrary: s)
  case (Cons kv kvs)
  obtain k v where kv: "kv = (k, v)" by (cases kv)
  have "lookup s ++ map_of (rev (kv # kvs)) = (lookup s)(k \<mapsto> v) ++ map_of (rev kvs)"
    by (simp add: kv map_add_assoc)
  then show ?case
    using Cons.IH [of "put k v s"] Cons.prems by (simp add: kv invar_put lookup_put fun_upd_def)
qed simp

end

definition world_map :: "cgi \<Rightarrow> cstring \<Rightarrow> cstring option" where
  "world_map w = env_map (envtop w)"

definition world_ok :: "cgi \<Rightarrow> bool" where
  "world_ok w = env_ok (envtop w)"

interpretation cs: config_store "\<lambda>k v w. putval k v sw w" delval world_map "\<lambda>k. k \<noteq> []" world_ok
  for sw
proof unfold_locales
  fix s :: cgi and k v :: cstring
  assume ok: "world_ok s"
  show "world_map (delval k s) = (world_map s)(k := None)"
    using ok by (auto simp: world_map_def delval_def env_map_def world_ok_def env_ok_def env_find_del)
  show "world_ok (delval k s)"
    using ok by (simp add: world_ok_def delval_def env_ok_del)
  assume "k \<noteq> []"
  then show "world_map (putval k v sw s) = (world_map s)(k \<mapsto> v)"
    by (auto simp: world_map_def putval_def putval_withdesc_def env_map_def env_find_put)
  show "world_ok (putval k v sw s)"
    using ok \<open>k \<noteq> []\<close>
    by (simp add: world_ok_def putval_def putval_withdesc_def env_ok_put)
qed

lemma getval_map: "\<not> date_key key \<Longrightarrow> getval key w = world_map w key"
  by (simp add: getval_def getval2_def date_key_def world_map_def env_map_def getvalp_def Let_def
      split: option.split)

lemma world_ok_putval [simp]: "world_ok w \<Longrightarrow> world_ok (putval k v sw w)"
  by (cases "k = []") (simp_all add: cs.invar_put, simp add: putval_def putval_withdesc_def)

lemma putval_frame [simp]:
  "files (putval k v sw w) = files w" "html_out (putval k v sw w) = html_out w"
  "HTML_error (putval k v sw w) = HTML_error w" "d_flg (putval k v sw w) = d_flg w"
  "sys_log (putval k v sw w) = sys_log w" "tm_now (putval k v sw w) = tm_now w"
  "HTML_script_arg1 (putval k v sw w) = HTML_script_arg1 w"
  "HTML_script_arg2 (putval k v sw w) = HTML_script_arg2 w" "sys_effect (putval k v sw w) = sys_effect w"
  by (simp_all add: putval_def putval_withdesc_def)

lemma delval_frame [simp]:
  "files (delval k w) = files w" "html_out (delval k w) = html_out w"
  "HTML_error (delval k w) = HTML_error w" "sys_log (delval k w) = sys_log w"
  "tm_now (delval k w) = tm_now w" "sys_effect (delval k w) = sys_effect w"
  by (simp_all add: delval_def)

lemma setvalflag_frame [simp]:
  "files (snd (setvalflag k f w)) = files w" "html_out (snd (setvalflag k f w)) = html_out w"
  "HTML_error (snd (setvalflag k f w)) = HTML_error w" "sys_log (snd (setvalflag k f w)) = sys_log w"
  "world_ok (snd (setvalflag k f w)) = world_ok w" "sys_effect (snd (setvalflag k f w)) = sys_effect w"
  "world_map (snd (setvalflag k f w)) = world_map w"
  by (simp_all add: setvalflag_def world_ok_def world_map_def split: option.split)

subsection \<open>Properties\<close>

text \<open>The texts of the clock, by key.\<close>

definition clock_text :: "tm_t \<Rightarrow> cstring \<Rightarrow> cstring option" where
  "clock_text tm = map_of
     [(''x_year'', dec_pad4 (tm_year tm + 1900)), (''x_mon'', dec_02 (tm_mon tm + 1)), (''x_mday'', dec_02 (tm_mday tm)),
      (''x_hour'', dec_02 (tm_hour tm)), (''x_min'', dec_02 (tm_min tm)), (''x_sec'', dec_02 (tm_sec tm))]"

lemma clock_text_None: "clock_text tm k = None \<longleftrightarrow> \<not> date_key k"
  by (simp add: clock_text_def date_key_def)

lemma getval_clock: "getval k w = (case clock_text (tm_now w) k of None \<Rightarrow> world_map w k | Some d \<Rightarrow> Some d)"
proof (cases "date_key k")
  case True
  then show ?thesis by (auto simp: date_key_def clock_text_def getval_def getval2_def Let_def)
qed (simp add: clock_text_None [THEN iffD2] getval_map)

text \<open>
  C9. Reading after writing: after \<^verbatim>\<open>putval\<close> with a non-empty key
  \<^verbatim>\<open>getval\<close> answers the new value at that key and what it answered before at every other;
  after \<^verbatim>\<open>delval\<close> the key is unknown and the others are as before; both keep the keys of the
  table distinct. The six date keys answer with the text of the clock, whatever is written or deleted.
\<close>

theorem getval_putval_delval:
  assumes "world_ok w" "key \<noteq> []"
  shows "getval k (putval key val sw w) =
      (case clock_text (tm_now w) k of Some d \<Rightarrow> Some d | None \<Rightarrow> if k = key then Some val else getval k w)
    \<and> getval k (delval key w) =
      (case clock_text (tm_now w) k of Some d \<Rightarrow> Some d | None \<Rightarrow> if k = key then None else getval k w)
    \<and> world_ok (putval key val sw w) \<and> world_ok (delval key w)"
  using assms
  by (auto simp: getval_clock cs.lookup_put cs.lookup_del cs.invar_del split: option.split)

definition empty_cgi :: cgi where
  "empty_cgi = \<lparr>envtop = [], penv = (\<lambda>_. None), files = (\<lambda>_. None), can_write = (\<lambda>_. True), html_out = [], HTML_error = [],
     HTML_script = [], HTML_script_name = None, HTML_script_op = [], HTML_script_subop = [],
     HTML_script_arg1 = [], HTML_script_arg2 = [], d_flg = False, char_signed = True, sys_log = [], clock_set = None, shutdown_arg = [],
     if_addr = (\<lambda>_. Some [192, 168, 253, 254]), host_ip = (\<lambda>h. Some h), root_passwd = Some ''x'', stdin_data = [], build_date = [],
     tm_now = \<lparr>tm_year = 105, tm_mon = 2, tm_mday = 1, tm_hour = 9, tm_min = 5, tm_sec = 0\<rparr>,
     time_now = 60, pid_now = 77, getpwuid = (\<lambda>_. None), getgrgid = (\<lambda>_. None),
     hw_addr = (\<lambda>_. [0, 80, 194, 1, 2, 3]), crypt = (\<lambda>k s. s), sys_effect = (\<lambda>_ f. f)\<rparr>"

lemma empty_cgi_ok [simp]: "world_ok empty_cgi" "world_map empty_cgi k = None"
  by (simp_all add: empty_cgi_def world_ok_def env_ok_def world_map_def env_map_def)

theorem getval_putval_delval_witness:
  "getval ''x_hostname'' (putval ''x_hostname'' ''box'' RC_bWRITE empty_cgi) = Some ''box''
    \<and> getval ''x_domain'' (putval ''x_hostname'' ''box'' RC_bWRITE empty_cgi) = None
    \<and> getval ''x_min'' (putval ''x_min'' ''59'' RC_bWRITE empty_cgi) = Some ''05''"
proof -
  have c: "clock_text (tm_now empty_cgi) ''x_min'' = Some ''05''" by code_simp
  show ?thesis
    using getval_putval_delval [of empty_cgi "''x_hostname''" "''x_hostname''" "''box''" RC_bWRITE]
      getval_putval_delval [of empty_cgi "''x_hostname''" "''x_domain''" "''box''" RC_bWRITE]
      getval_putval_delval [of empty_cgi "''x_min''" "''x_min''" "''59''" RC_bWRITE] c
    by (simp add: clock_text_None [THEN iffD2] date_key_def getval_map)
qed

text \<open>
  Change detection: a \<^verbatim>\<open>putval\<close> with the write flag marks the entry as updated
  (flag 3) exactly when the key was unknown or held another value, and as only written
  (flag 1) otherwise. A second write of the same value in the same request therefore clears
  the update mark the first one set.
\<close>

lemma putval_flag:
  "key \<noteq> [] \<Longrightarrow> getvalflag key (putval key val RC_bWRITE w) = (if world_map w key = Some val then 1 else 3)"
  by (auto simp: getvalflag_def getvalp_def putval_def putval_withdesc_def env_find_put put_flag_def
      rc_flags world_map_def)

theorem second_write_clears_update:
  assumes "world_ok w" "key \<noteq> []"
  shows "getvalflag key (putval key val RC_bWRITE w) = (if world_map w key = Some val then 1 else 3)
    \<and> getvalflag key (putval key val RC_bWRITE (putval key val RC_bWRITE w)) = 1"
  using assms by (simp add: putval_flag cs.lookup_put)

theorem second_write_clears_update_witness:
  "getvalflag ''i_user_id'' (putval ''i_user_id'' ''0'' RC_bWRITE empty_cgi) = 3
    \<and> getvalflag ''i_user_id'' (putval ''i_user_id'' ''0'' RC_bWRITE
        (putval ''i_user_id'' ''0'' RC_bWRITE empty_cgi)) = 1"
  using second_write_clears_update [of empty_cgi "''i_user_id''" "''0''"] by simp

definition counted :: "env_entry \<Rightarrow> bool" where
  "counted e \<longleftrightarrow> strncmp_eq (env_key e) ''x_'' 2 \<and> env_flag e AND RC_bNULL = 0"

lemma or_and_absorb: "(ret :: 32 word) AND 3 = ret \<Longrightarrow> (ret OR (f AND 3)) AND 3 = ret OR (f AND 3)"
  by (metis word_ao_dist word_bw_assocs(1) word_log_esimps(7) and.idem)

lemma fold_or_3:
  "fold (\<lambda>e r. r OR (env_flag e AND 3)) es (3 :: 32 word) = 3"
proof (induction es)
  case (Cons e es)
  have "(3 :: 32 word) OR (env_flag e AND 3) = 3"
    by (metis word_ao_absorbs(2) word_bw_comms(1) word_bw_comms(2))
  with Cons show ?case by simp
qed simp

lemma bit_word_3: "bit (3 :: 32 word) i \<longleftrightarrow> i < 2"
proof -
  have "bit (mask 2 :: 32 word) i \<longleftrightarrow> i < 2"
    by (auto simp only: bit_mask_iff possible_bit_word) (simp add: min_def)
  then show ?thesis by (simp add: mask_eq_exp_minus_1)
qed

lemma is_updateval_loop_fold:
  "is_updateval_loop es ret = fold (\<lambda>e r. r OR (env_flag e AND 3)) (List.filter counted es) ret"
proof (induction es arbitrary: ret)
  case (Cons e es)
  then show ?case
    using fold_or_3 by (auto simp: counted_def Let_def rc_flags)
qed simp

text \<open>
  C11. \<^verbatim>\<open>is_updateval\<close>, with its early exit, computes the union of the write and
  update bits of all entries whose key begins with \<^verbatim>\<open>x_\<close> and that are not marked as
  not to be written; in particular it reports 3 exactly when both bits occur among them.
\<close>

theorem is_updateval_union:
  "is_updateval w = fold (\<lambda>e r. r OR (env_flag e AND 3)) (List.filter counted (envtop w)) 0
   \<and> (is_updateval w = 3 \<longleftrightarrow>
       (\<exists>e \<in> set (envtop w). counted e \<and> bit (env_flag e) 0) \<and>
       (\<exists>e \<in> set (envtop w). counted e \<and> bit (env_flag e) 1))"
proof -
  let ?f = "\<lambda>es. fold (\<lambda>e r. r OR (env_flag e AND 3)) es"
  have b: "bit (?f es r) i \<longleftrightarrow> bit r i \<or> (i < 2 \<and> (\<exists>e \<in> set es. bit (env_flag e) i))" for es r i
  proof (induction es arbitrary: r)
    case (Cons e es)
    have "bit (r OR (env_flag e AND 3)) i \<longleftrightarrow> bit r i \<or> (i < 2 \<and> bit (env_flag e) i)"
      by (auto simp only: bit_or_iff bit_and_iff bit_word_3)
    with Cons show ?case by auto
  qed simp
  have three: "bit (3 :: 32 word) i \<longleftrightarrow> i = 0 \<or> i = 1" for i
    unfolding bit_word_3 by auto
  have union: "is_updateval w = ?f (List.filter counted (envtop w)) 0"
    by (simp add: is_updateval_def is_updateval_loop_fold)
  have both: "?f es 0 = 3 \<longleftrightarrow> (\<exists>e \<in> set es. bit (env_flag e) 0) \<and> (\<exists>e \<in> set es. bit (env_flag e) 1)" for es
  proof
    assume h: "?f es 0 = 3"
    from b [of es 0 0] b [of es 0 1] show "(\<exists>e \<in> set es. bit (env_flag e) 0) \<and> (\<exists>e \<in> set es. bit (env_flag e) 1)"
      by (simp_all only: h three) auto
  next
    assume "(\<exists>e \<in> set es. bit (env_flag e) 0) \<and> (\<exists>e \<in> set es. bit (env_flag e) 1)"
    then show "?f es 0 = 3"
      by (intro bit_word_eqI) (simp only: b three, auto)
  qed
  show ?thesis unfolding union both by auto
qed

end
