(* ===== verification/Template.thy ===== *)
theory Template
  imports StrBuf ItemList Netmask EnvTable
begin

text \<open>
  The template language of \<^verbatim>\<open>contrib/setup/eval.c\<close>: tokens, variable references and the
  built-in functions between \<^verbatim>\<open><?\<close> and \<^verbatim>\<open>?>\<close>. A scanner takes the
  pointer into the text and returns the text it appends to its result buffer and the
  pointer behind what it consumed. The built-in functions call the evaluator for their
  arguments, so they take it as the argument \<open>ev\<close>; \<open>eval\<close> ties the knot.
\<close>

type_synonym scan = "(cstring \<times> cstring) option"
type_synonym scanner = "cstring \<Rightarrow> scan"

definition is_atom :: "char \<Rightarrow> bool" where
  "is_atom c = (isalnum c \<or> c = CHR ''_'')"

abbreviation prepend :: "cstring \<Rightarrow> scan \<Rightarrow> scan" where
  "prepend s r \<equiv> map_option (\<lambda>(t, q). (s @ t, q)) r"

subsection \<open>Tokens\<close>

fun numeric_loop :: "int \<Rightarrow> cstring \<Rightarrow> int \<times> cstring" where
  "numeric_loop n [] = (n, [])"
| "numeric_loop n (c # s) =
     (if isdigit c then numeric_loop (wrap32 (wrap32 (n * 10) + int (byte c - 48))) s else (n, c # s))"

definition numeric :: "cstring \<Rightarrow> cstring \<times> cstring" where
  "numeric p = (case numeric_loop 0 p of (n, q) \<Rightarrow> (take 15 (dec n), q))"

definition val_name :: "cgi \<Rightarrow> cstring \<Rightarrow> cstring \<times> cstring" where
  "val_name w p = (getval3 (takeWhile is_atom p) w, dropWhile is_atom p)"

fun val_ref :: "cgi \<Rightarrow> cstring \<Rightarrow> cstring \<times> cstring" where
  "val_ref w [] = val_name w []"
| "val_ref w (c # p) =
     (if c = CHR ''{''
      then (case val_ref w p of
              (t, q) \<Rightarrow> if deref q = CHR ''}'' then (t, tl q) else val_name w (c # p))
      else val_name w (c # p))"

lemma val_name_suffix: "suffix (snd (val_name w p)) p"
  by (simp add: val_name_def suffix_dropWhile)

lemma val_ref_suffix: "suffix (snd (val_ref w p)) p"
proof (induction p)
  case (Cons c p)
  have t: "suffix (tl (snd (val_ref w p))) (c # p)"
    using Cons by (meson suffix_ConsI suffix_order.trans suffix_tl)
  show ?case
    using t val_name_suffix [of w "c # p"] by (auto split: prod.split)
qed (simp add: val_name_def)

text \<open>
  A quoted token: \<open>None\<close> when a backslash is the last byte, where the code steps over the
  terminator.
\<close>

function qatom :: "cgi \<Rightarrow> cstring \<Rightarrow> scan" where
  "qatom w p =
     (case p of
        [] \<Rightarrow> Some ([], [])
      | c # p' \<Rightarrow>
          if c = CHR 0x5C then (case p' of [] \<Rightarrow> None | d # q \<Rightarrow> prepend [d] (qatom w q))
          else if c = CHR ''$'' then prepend (fst (val_ref w p')) (qatom w (snd (val_ref w p')))
          else if c = DQ then Some ([], p)
          else prepend [c] (qatom w p'))"
  by pat_completeness auto
termination
proof (relation "measure (\<lambda>(w, p). length p)", goal_cases)
  case (3 w p c p')
  then show ?case
    using suffix_length_le [OF val_ref_suffix [of w p']] by simp
qed auto

declare qatom.simps [simp del]

definition atom :: "cstring \<Rightarrow> cstring \<times> cstring" where
  "atom p = (let p = dropWhile isspace p in (takeWhile is_atom p, dropWhile is_atom p))"

definition token :: "cgi \<Rightarrow> cstring \<Rightarrow> scan" where
  "token w inp =
     (let p = dropWhile isspace inp;
          plain = (case atom p of (t, q) \<Rightarrow> Some (t, dropWhile isspace q)) in
      if deref p = DQ
      then do { (t, q) \<leftarrow> qatom w (tl p);
                if deref q = DQ then Some (t, dropWhile isspace (tl q)) else plain }
      else plain)"

subsection \<open>Built-in functions\<close>

definition func_input_text :: "scanner \<Rightarrow> cgi \<Rightarrow> scanner" where
  \<open>func_input_text ev w p =
     (let out = (\<lambda>t t2 t3 q. Some (''<INPUT TYPE=TEXT NAME="'' @ t @ ''" VALUE="'' @ t2 @ ''" '' @ t3 @ ''>'', q)) in
      do { (tmp, p) \<leftarrow> ev p;
           if deref p \<noteq> CHR '','' then out tmp (getval3 tmp w) [] p
           else do { (tmp2, p) \<leftarrow> ev (tl p);
                     if deref p \<noteq> CHR '','' then out tmp tmp2 [] p
                     else do { (tmp3, p) \<leftarrow> ev (tl p); out tmp tmp2 tmp3 p } } })\<close>

definition func_input_passwd :: "scanner \<Rightarrow> cgi \<Rightarrow> scanner" where
  \<open>func_input_passwd ev w p =
     (let out = (\<lambda>t t2 t3 q. Some (''<INPUT TYPE=PASSWORD NAME="'' @ t @ ''" VALUE="'' @ t2 @ ''" '' @ t3 @ ''>'', q)) in
      do { (tmp, p) \<leftarrow> ev p;
           if deref p \<noteq> CHR '','' then out tmp (getval3 tmp w) [] p
           else do { (tmp2, p) \<leftarrow> ev (tl p);
                     if deref p \<noteq> CHR '','' then out tmp tmp2 [] p
                     else do { (tmp3, p) \<leftarrow> ev (tl p); out tmp tmp2 tmp3 p } } })\<close>

definition func_input_hidden :: "scanner \<Rightarrow> cgi \<Rightarrow> scanner" where
  \<open>func_input_hidden ev w inp =
     do { (tmp, p) \<leftarrow> ev inp;
          if deref p \<noteq> CHR '','' then Some ([], inp)
          else do { (tmp2, p) \<leftarrow> ev (tl p);
                    Some (''<INPUT TYPE=HIDDEN NAME="'' @ tmp @ ''" VALUE="'' @ tmp2 @ ''">'', p) } }\<close>

text \<open>
  The options of \<^verbatim>\<open>input_select\<close>. The loop goes on behind each comma; the test that
  the evaluator moved forward is there for the termination proof only and always holds for
  \<open>eval\<close> (\<open>select_loop_eval\<close> below).
\<close>

function select_loop :: "scanner \<Rightarrow> cstring \<Rightarrow> cstring \<Rightarrow> scan" where
  \<open>select_loop ev tmp2 p =
     (case ev p of
        None \<Rightarrow> None
      | Some (tmp3, q) \<Rightarrow>
          let opt = (if tmp2 = tmp3 then ''<OPTION SELECTED>'' else ''<OPTION>'') @ tmp3 @ [NL] in
          if deref q \<noteq> CHR '','' then Some (opt, q)
          else if length (tl q) < length p then prepend opt (select_loop ev tmp2 (tl q))
          else None)\<close>
  by pat_completeness auto
termination
  by (relation "measure (\<lambda>(ev, tmp2, p). length p)") auto

declare select_loop.simps [simp del]

definition func_input_select :: "scanner \<Rightarrow> cgi \<Rightarrow> scanner" where
  \<open>func_input_select ev w inp =
     do { (tmp, p) \<leftarrow> ev inp;
          if deref p \<noteq> CHR '','' then Some ([], inp)
          else do { (tmp2, p) \<leftarrow> ev (tl p);
                    if deref p \<noteq> CHR '','' then Some ([], inp)
                    else do { (opts, p) \<leftarrow> select_loop ev tmp2 (tl p);
                              Some (''<SELECT NAME="'' @ tmp @ ''">'' @ opts @ ''</SELECT>'', p) } } }\<close>

text \<open>
  The name of a checkbox is read from its second byte; with an empty name that byte of the
  new buffer was never written.
\<close>

definition func_input_checkbox :: "scanner \<Rightarrow> cgi \<Rightarrow> scanner" where
  \<open>func_input_checkbox ev w p =
     do { (tmp, p) \<leftarrow> ev p;
          (val, p) \<leftarrow> (if deref p \<noteq> CHR '','' then Some (getval tmp w, p)
                      else do { (tmp2, p) \<leftarrow> ev (tl p); Some (Some tmp2, p) });
          case tmp of
            [] \<Rightarrow> None
          | c # nm \<Rightarrow>
              let hid = (if nm \<noteq> [] then ''<INPUT TYPE=HIDDEN NAME="j'' @ nm @ ''" VALUE="NO">'' else []);
                  on = (case val of None \<Rightarrow> False | Some v \<Rightarrow> atoi v \<noteq> 0 \<or> strcaseeq v ''yes'') in
              Some (hid @ ''<INPUT TYPE=CHECKBOX NAME="'' @ tmp @
                    (if on then ''" VALUE="YES" CHECKED>'' else ''" VALUE="YES">''), p) }\<close>

definition func_input_radio :: "scanner \<Rightarrow> cgi \<Rightarrow> scanner" where
  \<open>func_input_radio ev w p =
     do { (tmp, p) \<leftarrow> ev p;
          if deref p \<noteq> CHR '','' then Some ([], p)
          else do { (tmp2, p) \<leftarrow> ev (tl p);
                    (tmp3, p) \<leftarrow> ev (if deref p \<noteq> CHR '','' then p else tl p);
                    Some (''<INPUT TYPE=RADIO NAME="'' @ tmp @ ''" VALUE="'' @ tmp2 @ ''"'' @
                          (if tmp2 = tmp3 then '' CHECKED'' else []) @ ''>'' @ [NL], p) } }\<close>

definition netmask_options :: "int \<Rightarrow> cstring" where
  \<open>netmask_options n =
     concat (map (\<lambda>i. ''<OPTION VALUE="'' @ mask_to_ip4 (int i) @
       (if n = int i then ''" SELECTED>'' else ''">'') @ dec (int i) @ [NL]) [2..<33])\<close>

definition func_input_netmask :: "scanner \<Rightarrow> cgi \<Rightarrow> scanner" where
  \<open>func_input_netmask ev w p =
     do { (tmp, p) \<leftarrow> ev p;
          (tmp2, p) \<leftarrow> (if deref p \<noteq> CHR '','' then Some (getval3 tmp w, p) else ev (tl p));
          n \<leftarrow> ip4_to_mask (Some tmp2);
          Some (''<SELECT NAME="'' @ tmp @ ''">'' @ netmask_options n @ ''</SELECT>'', p) }\<close>

definition func_eval :: "scanner \<Rightarrow> cgi \<Rightarrow> scanner" where
  "func_eval ev w p = do { (tmp, p) \<leftarrow> ev p; Some (getval3 tmp w, p) }"

definition func_head2 :: "scanner \<Rightarrow> cgi \<Rightarrow> scanner" where
  "func_head2 ev w p = do { (tmp, p) \<leftarrow> ev p; Some (''<P><B>'' @ tmp @ ''</B><P>'' @ [NL], p) }"

definition COLOR_C2 :: cstring where "COLOR_C2 = ''#ee86b8''"

definition func_head :: "scanner \<Rightarrow> cgi \<Rightarrow> scanner" where
  \<open>func_head ev w p =
     do { (tmp, p) \<leftarrow> ev p;
          Some (''<TABLE WIDTH="100%" BORDER=0 CELLSPACING=0 CELLPADDING=5><TR><TD BGCOLOR="'' @ COLOR_C2 @
                ''"><B>'' @ tmp @ ''</B></TD></TR></TABLE>'', p) }\<close>

text \<open>
  \<^verbatim>\<open>R_sprintf(fmt, s)\<close> with a format that comes from the template: \<^verbatim>\<open>%s\<close> once
  and \<^verbatim>\<open>%%\<close> are defined, any other conversion reads an argument that is not there
  or not of its type.
\<close>

fun sprintf_s :: "cstring \<Rightarrow> cstring option \<Rightarrow> cstring option" where
  "sprintf_s [] a = Some []"
| "sprintf_s [c] a = (if c = CHR ''%'' then None else Some [c])"
| "sprintf_s (c # d # f) a =
     (if c = CHR ''%''
      then if d = CHR ''%'' then map_option (Cons CHR ''%'') (sprintf_s f a)
           else if d = CHR ''s''
           then (case a of None \<Rightarrow> None | Some s \<Rightarrow> map_option ((@) s) (sprintf_s f None))
           else None
      else map_option (Cons c) (sprintf_s (d # f) a))"

text \<open>The label of the delete buttons.\<close>

definition del_label :: cstring where
  "del_label = [CHR 0xBA, CHR 0xEF, CHR 0xBD, CHR 0xFC]"

definition func_trlist :: "scanner \<Rightarrow> cgi \<Rightarrow> scanner" where
  \<open>func_trlist ev w inp =
     do { (tmp, p) \<leftarrow> ev inp;
          if deref p \<noteq> CHR '','' then Some ([], inp)
          else do { (tmp2, p) \<leftarrow> ev (tl p);
                    lst \<leftarrow> list_split NUL (getval tmp w);
                    rows \<leftarrow> foldM (\<lambda>item acc. do {
                        key \<leftarrow> sprintf_s tmp2 (Some item);
                        lst2 \<leftarrow> list_split NUL (getval key w);
                        Some (acc @ ''<TR>'' @
                              concat (map (\<lambda>s. ''<TD>'' @ s @ ''</TD>'') (list_items lst2)) @
                              ''<TD><INPUT TYPE=SUBMIT NAME="d__'' @ item @ ''" VALUE="'' @ del_label @
                              ''"></TD>'' @ [NL] @ ''</TR>'') }) (list_items lst) [];
                    Some (rows, p) } }\<close>

definition func_zone_trlist :: "scanner \<Rightarrow> cgi \<Rightarrow> scanner" where
  \<open>func_zone_trlist ev w p =
     do { l \<leftarrow> list_split NUL (getval ''x_named_zone__'' w);
          rows \<leftarrow> foldM (\<lambda>item acc. do {
              let i = atoi item;
              l2 \<leftarrow> list_split NUL (getval (''x_named_zone__'' @ dec i) w);
              i0 \<leftarrow> nth_opt (list_items l2) 0;
              i1 \<leftarrow> nth_opt (list_items l2) 1;
              Some (acc @ ''<TR>'' @ [NL] @ ''  <TD>'' @ dec i @ ''</TD>'' @
                    ''  <TD><A HREF="setup.cgi?i_login='' @ pct_s (getval ''x_login'' w) @
                    ''&i_key='' @ pct_s (getval ''x_key'' w) @ ''&op='' @ HTML_script_op w @
                    ''&subop='' @ HTML_script_subop w @ ''&a2='' @ dec i @ ''&a='' @ i0 @ ''">'' @ i1 @
                    ''</A></TD>'' @ ''  <TD>'' @ i0 @ ''</TD>'' @
                    ''<TD><INPUT TYPE=SUBMIT NAME="d__'' @ dec i @ ''" VALUE="'' @ del_label @
                    ''"></TD>'' @ [NL] @ ''</TR>'' @ [NL]) }) (list_items l) [];
          Some (rows, p) }\<close>

text \<open>
  Reading a file line by line: \<^verbatim>\<open>fgets\<close> with room for \<open>n\<close> bytes and a terminator
  stops behind a newline. \<^verbatim>\<open>ring_readln\<close> does so with \<open>n = 1023\<close>; a chunk of that
  length makes its skipping loop test a length it never updates, so it does not return.
\<close>

fun fgets_line :: "nat \<Rightarrow> cstring \<Rightarrow> cstring \<times> cstring" where
  "fgets_line 0 s = ([], s)"
| "fgets_line (Suc n) [] = ([], [])"
| "fgets_line (Suc n) (c # s) =
     (if c = NL then ([c], s) else (case fgets_line n s of (l, r) \<Rightarrow> (c # l, r)))"

lemma fgets_line_append: "fgets_line n s = (l, r) \<Longrightarrow> s = l @ r \<and> length l \<le> n"
  by (induction n s arbitrary: l r rule: fgets_line.induct) (auto split: if_splits prod.splits)

lemma fgets_line_nonempty: "0 < n \<Longrightarrow> s \<noteq> [] \<Longrightarrow> fst (fgets_line n s) \<noteq> []"
  by (cases n; cases s) (auto split: prod.splits)

lemma fgets_line_less:
  assumes "0 < n" "s \<noteq> []"
  shows "length (snd (fgets_line n s)) < length s"
proof -
  obtain l r where lr: "fgets_line n s = (l, r)" by (cases "fgets_line n s")
  then have "l \<noteq> []" using fgets_line_nonempty [OF assms] by simp
  with fgets_line_append [OF lr] lr show ?thesis by (cases l) auto
qed

function fgets_all :: "nat \<Rightarrow> cstring \<Rightarrow> cstring list" where
  "fgets_all n s =
     (if n = 0 \<or> s = [] then []
      else fst (fgets_line n s) # fgets_all n (snd (fgets_line n s)))"
  by pat_completeness auto
termination
  by (relation "measure (\<lambda>(n, s). length s)") (auto simp: fgets_line_less)

declare fgets_all.simps [simp del]

definition ring_readln :: "cstring \<Rightarrow> cstring option" where
  "ring_readln line = (if length (c_str line) = 1023 then None else Some (c_str line))"

text \<open>The lines of \<^verbatim>\<open>/etc/passwd\<close>; without the file the code reads through a NULL stream.\<close>

definition passwd_lines :: "cgi \<Rightarrow> cstring list option" where
  "passwd_lines w =
     (case files w ''/etc/passwd'' of None \<Rightarrow> None
      | Some s \<Rightarrow> foldM (\<lambda>l acc. map_option (\<lambda>x. acc @ [x]) (ring_readln l)) (fgets_all 1023 s) [])"

definition func_user_trlist :: "scanner \<Rightarrow> cgi \<Rightarrow> scanner" where
  \<open>func_user_trlist ev w p =
     do { ls \<leftarrow> passwd_lines w;
          rows \<leftarrow> foldM (\<lambda>passwd acc.
              if \<not> isalnum (deref passwd) then Some acc
              else do {
                l \<leftarrow> list_split CHR '':'' (Some passwd);
                if list_n l \<ge> 6 \<and> atoi (list_items l ! 2) \<ge> 32768 \<and> atoi (list_items l ! 2) \<le> 60000
                then Some (acc @ ''<TR>'' @ [NL] @ ''  <TD>'' @ list_items l ! 2 @ ''</TD>'' @
                           ''  <TD>'' @ list_items l ! 0 @ ''</TD>'' @ ''  <TD>'' @ list_items l ! 4 @ ''</TD>'' @
                           ''<TD><INPUT TYPE=SUBMIT NAME="d__'' @ list_items l ! 2 @ ''" VALUE="'' @
                           del_label @ ''"></TD>'' @ [NL] @ ''</TR>'' @ [NL])
                else Some acc }) ls [];
          Some (rows, p) }\<close>

definition next_uid :: "cstring list \<Rightarrow> int option" where
  "next_uid ls =
     map_option (\<lambda>mx. mx + 1) (foldM (\<lambda>passwd mx.
       if \<not> isalnum (deref passwd) then Some mx
       else do {
         l \<leftarrow> list_split CHR '':'' (Some passwd);
         if list_n l \<ge> 6
         then let uid = atoi (list_items l ! 2) in
              Some (if uid \<ge> 500 \<and> uid \<le> 60000 \<and> uid \<ge> mx then uid else mx)
         else Some mx }) ls (0 :: int))"

definition func_user_nextid :: "scanner \<Rightarrow> cgi \<Rightarrow> scanner" where
  \<open>func_user_nextid ev w p =
     do { ls \<leftarrow> passwd_lines w;
          mx \<leftarrow> next_uid ls;
          Some (''<INPUT TYPE=TEXT NAME="i_user_id" VALUE="'' @ dec mx @ ''">'' @ [NL], p) }\<close>

definition func_nextval :: "scanner \<Rightarrow> cgi \<Rightarrow> scanner" where
  "func_nextval ev w p =
     do { (tmp, p) \<leftarrow> ev p;
          lst \<leftarrow> list_split NUL (Some tmp);
          Some (if list_n lst > 0
                then dec (wrap32 (my_atoi (Some (list_items lst ! nat (list_n lst - 1))) + 1))
                else ''0'', p) }"

definition func_def_formarg :: "scanner \<Rightarrow> cgi \<Rightarrow> scanner" where
  \<open>func_def_formarg ev w p = Some (''METHOD=POST ACTION="'' @ pct_s (HTML_script_name w) @ ''"'', p)\<close>

subsection \<open>The evaluator\<close>

definition functab :: "(cstring \<times> (scanner \<Rightarrow> cgi \<Rightarrow> scanner)) list" where
  "functab =
     [(''eval'', func_eval), (''input_text'', func_input_text), (''input_passwd'', func_input_passwd),
      (''input_hidden'', func_input_hidden), (''input_select'', func_input_select),
      (''input_checkbox'', func_input_checkbox), (''input_radio'', func_input_radio),
      (''input_netmask'', func_input_netmask), (''head'', func_head), (''head2'', func_head2),
      (''trlist'', func_trlist), (''user_trlist'', func_user_trlist),
      (''zone_trlist'', func_zone_trlist), (''user_nextid'', func_user_nextid),
      (''nextval'', func_nextval), (''def_formarg'', func_def_formarg)]"

text \<open>
  The search for a built-in function. A call that is not closed by a parenthesis does not
  end the search: it goes on with the output of the call as the name and behind it in the
  text, as the code does.
\<close>

fun eval_func_loop :: "(cstring \<times> (scanner \<Rightarrow> cgi \<Rightarrow> scanner)) list \<Rightarrow> scanner \<Rightarrow> cgi \<Rightarrow>
    cstring \<Rightarrow> cstring \<Rightarrow> cstring \<Rightarrow> scan" where
  "eval_func_loop [] ev w inp tmp p = Some ([], inp)"
| "eval_func_loop ((nm, f) # tab) ev w inp tmp p =
     (if nm = tmp
      then if deref p = CHR ''(''
           then do { (tmp, p) \<leftarrow> f ev w (tl p);
                     if deref p = CHR '')'' then Some (tmp, tl p)
                     else eval_func_loop tab ev w inp tmp p }
           else eval_func_loop tab ev w inp [] p
      else eval_func_loop tab ev w inp tmp p)"

definition eval_func :: "scanner \<Rightarrow> cgi \<Rightarrow> scanner" where
  "eval_func ev w inp = (case atom inp of (tmp, p) \<Rightarrow> eval_func_loop functab ev w inp tmp p)"

definition eval_sub :: "scanner \<Rightarrow> cgi \<Rightarrow> scanner" where
  "eval_sub ev w inp =
     (if inp = [] then Some ([], inp)
      else do { (tmp, p) \<leftarrow> eval_func ev w inp;
                if p \<noteq> inp then Some (tmp, p) else token w inp })"

definition eval_body :: "scanner \<Rightarrow> cgi \<Rightarrow> scanner" where
  "eval_body ev w inp =
     do { (tmp, p) \<leftarrow> eval_sub ev w inp;
          if deref p = CHR ''[''
          then (case numeric (tl p) of (tmp2, p) \<Rightarrow>
                  if deref p = CHR '']''
                  then do {
                    let n = atoi tmp2;
                    lst \<leftarrow> list_split NUL (Some tmp);
                    t \<leftarrow> (if n < list_n lst then nth_opt (list_items lst) n else Some []);
                    Some (t, tl p) }
                  else Some (tmp, p))
          else Some (tmp, p) }"

text \<open>
  The evaluator. The arguments of a function are evaluated behind its opening parenthesis,
  so the recursive calls are on shorter texts only; \<open>eval_unfold\<close> below shows that the
  test of the length never fails.
\<close>

function eval :: "cgi \<Rightarrow> scanner" where
  "eval w inp = eval_body (\<lambda>q. if length q < length inp then eval w q else None) w inp"
  by pat_completeness auto
termination
  by (relation "measure (\<lambda>(w, p). length p)") auto

declare eval.simps [simp del]

text \<open>The old interface to tokens, with the caller's buffer of \<open>sz\<close> bytes.\<close>

definition t_token :: "cgi \<Rightarrow> cstring \<Rightarrow> int \<Rightarrow> (cstring \<times> cstring \<times> int) option" where
  "t_token w inp sz =
     do { (tmp, p) \<leftarrow> token w inp;
          let len = int (length tmp);
          let len = (if len \<ge> sz then sz - 1 else len);
          if len < 0 then None else Some (p, take (nat len) tmp, sz - len) }"

subsection \<open>Scanners only move forward\<close>

text \<open>
  The contract of every scanner: the pointer it returns points into the text it was given.
  Its clients chain scanners and step over delimiters.
\<close>

locale cursor_scanner =
  fixes scan :: "cstring \<Rightarrow> ('a \<times> cstring) option"
  assumes moves_on: "scan p = Some (t, q) \<Longrightarrow> suffix q p"
begin

lemma never_longer: "scan p = Some (t, q) \<Longrightarrow> length q \<le> length p"
  using moves_on suffix_length_le by blast

lemma twice: "scan p = Some (t, q) \<Longrightarrow> scan q = Some (u, r) \<Longrightarrow> suffix r p"
  using moves_on suffix_order.trans by blast

lemma over_delimiter:
  "scan p = Some (t, c # q) \<Longrightarrow> scan q = Some (u, r) \<Longrightarrow> suffix r p \<and> length r < length p"
  by (meson moves_on suffix_length_lt suffix_order.trans suffix_tl_trans le_less_trans never_longer)

lemma at_end: "scan [] = Some (t, q) \<Longrightarrow> q = []"
  using moves_on suffix_Nil by blast

end

interpretation vr: cursor_scanner "\<lambda>p. Some (val_ref w p)" for w
  by unfold_locales (metis option.inject snd_conv val_ref_suffix)

lemma qatom_Nil [simp]: "qatom w [] = Some ([], [])"
  by (simp add: qatom.simps [of w "[]"])

lemma qatom_Cons:
  "qatom w (c # p) =
     (if c = CHR 0x5C then (case p of [] \<Rightarrow> None | d # q \<Rightarrow> prepend [d] (qatom w q))
      else if c = CHR ''$'' then prepend (fst (val_ref w p)) (qatom w (snd (val_ref w p)))
      else if c = DQ then Some ([], c # p)
      else prepend [c] (qatom w p))"
  by (simp add: qatom.simps [of w "c # p"])

lemma qatom_suffix: "qatom w p = Some (t, q) \<Longrightarrow> suffix q p"
proof (induction w p arbitrary: t rule: qatom.induct)
  case (1 w p)
  show ?case
  proof (cases p)
    case Nil
    then show ?thesis using "1.prems" by simp
  next
    case (Cons c p')
    note IH = "1.IH" [OF Cons]
    have v: "suffix (snd (val_ref w p')) (c # p')" by (simp add: val_ref_suffix suffix_ConsI)
    have eq: "qatom w (c # p') = Some (t, q)" using "1.prems" Cons by simp
    consider "c = CHR 0x5C" | "c = CHR ''$''" | "c = DQ" | "c \<noteq> CHR 0x5C" "c \<noteq> CHR ''$''" "c \<noteq> DQ"
      by blast
    then show ?thesis
    proof cases
      case 1
      then obtain d r t' where "p' = d # r" "qatom w r = Some (t', q)"
        using eq by (auto simp: qatom_Cons split: list.splits)
      then show ?thesis using IH(1) 1 Cons by (simp add: suffix_ConsI)
    next
      case 2
      then obtain t' where "qatom w (snd (val_ref w p')) = Some (t', q)"
        using eq by (auto simp: qatom_Cons)
      then have "suffix q (snd (val_ref w p'))" using IH(2) 2 by simp
      then show ?thesis using v Cons suffix_order.trans by blast
    next
      case 3
      then show ?thesis using eq Cons by (simp add: qatom_Cons)
    next
      case 4
      then obtain t' where "qatom w p' = Some (t', q)"
        using eq by (auto simp: qatom_Cons)
      then show ?thesis using IH(3) 4 Cons by (simp add: suffix_ConsI)
    qed
  qed
qed

interpretation qa: cursor_scanner "qatom w" for w
  by unfold_locales (rule qatom_suffix)

lemma atom_suffix: "suffix (snd (atom p)) p"
  by (simp add: atom_def Let_def suffix_dropWhile_trans suffix_dropWhile)

interpretation at: cursor_scanner "\<lambda>p. Some (atom p)"
  by unfold_locales (metis atom_suffix option.inject snd_conv)

lemma token_suffix: "token w p = Some (t, q) \<Longrightarrow> suffix q p"
proof -
  assume tok: "token w p = Some (t, q)"
  let ?p = "dropWhile isspace p"
  have p: "suffix ?p p" by (rule suffix_dropWhile)
  have plain: "suffix (dropWhile isspace (snd (atom ?p))) p"
    using atom_suffix [of ?p] p by (meson suffix_dropWhile_trans suffix_order.trans)
  have quoted: "suffix (dropWhile isspace (tl r)) p" if "qatom w (tl ?p) = Some (u, r)" for u r
  proof -
    have "suffix r (tl ?p)" using that by (rule qatom_suffix)
    then have "suffix (tl r) p"
      by (meson p suffix_order.trans suffix_tl)
    then show ?thesis by (rule suffix_dropWhile_trans)
  qed
  from tok plain quoted show ?thesis
    by (auto simp: token_def Let_def bind_eq_Some_conv split: if_splits prod.splits)
qed

interpretation tk: cursor_scanner "token w" for w
  by unfold_locales (rule token_suffix)

definition moves :: "scanner \<Rightarrow> bool" where
  "moves f \<longleftrightarrow> (\<forall>p t q. f p = Some (t, q) \<longrightarrow> suffix q p)"

definition agree :: "scanner \<Rightarrow> scanner \<Rightarrow> cstring \<Rightarrow> bool" where
  "agree ev ev' p \<longleftrightarrow> moves ev \<and> (\<forall>q. suffix q p \<longrightarrow> ev q = ev' q)"

lemma movesD: "moves f \<Longrightarrow> f p = Some (t, q) \<Longrightarrow> suffix q p"
  by (simp add: moves_def)

lemma agree_suffix: "agree ev ev' p \<Longrightarrow> suffix q p \<Longrightarrow> agree ev ev' q"
  unfolding agree_def using suffix_order.trans by blast

lemma agree_tl [simp]: "agree ev ev' p \<Longrightarrow> agree ev ev' (tl p)"
  using agree_suffix suffix_tl by blast

lemma agreeD: "agree ev ev' p \<Longrightarrow> ev p = ev' p"
  by (simp add: agree_def)

lemma suffix_tl_le [simp]: "suffix q p \<Longrightarrow> suffix (tl q) p"
  using suffix_order.trans suffix_tl by blast

lemma select_loop_moves: "moves ev \<Longrightarrow> select_loop ev v p = Some (t, q) \<Longrightarrow> suffix q p"
proof (induction ev v p arbitrary: t rule: select_loop.induct)
  case (1 ev v p)
  obtain u r where ev: "ev p = Some (u, r)"
    using "1.prems"(2) by (auto simp: select_loop.simps [of ev v p] split: option.splits)
  have r: "suffix r p" using movesD [OF "1.prems"(1) ev] .
  have "suffix q (tl r)" if "select_loop ev v (tl r) = Some (t', q)" "deref r = CHR '',''"
      "length (tl r) < length p" for t'
    using "1.IH" [OF ev refl refl] that "1.prems"(1) by blast
  then show ?case
    using "1.prems"(2) ev r
    by (auto simp: select_loop.simps [of ev v p] Let_def split: if_splits intro: suffix_order.trans suffix_tl)
qed

lemma select_loop_agree: "agree ev ev' p \<Longrightarrow> select_loop ev v p = select_loop ev' v p"
proof (induction ev v p rule: select_loop.induct)
  case (1 ev v p)
  show ?case
  proof (cases "ev p")
    case None
    then show ?thesis using agreeD [OF "1.prems"] by (simp add: select_loop.simps [of _ v p])
  next
    case (Some r)
    obtain u q where r: "r = (u, q)" by (cases r)
    have q: "suffix q p" using "1.prems" Some r movesD by (auto simp: agree_def)
    have "agree ev ev' (tl q)" using agree_suffix [OF "1.prems" q] by simp
    then have "deref q = CHR '','' \<Longrightarrow> length (tl q) < length p \<Longrightarrow>
        select_loop ev v (tl q) = select_loop ev' v (tl q)"
      using "1.IH" [OF Some r [symmetric] refl] by simp
    then show ?thesis
      using Some r agreeD [OF "1.prems"] by (simp add: select_loop.simps [of _ v p] Let_def)
  qed
qed

text \<open>
  What the evaluator needs of a built-in function: it moves forward if its argument
  evaluator does, and it only looks at the evaluator on the text it is given. \<open>same p\<close>
  relates the two runs of a body and composes along its binds and tests.
\<close>

definition same :: "cstring \<Rightarrow> ('a \<times> cstring) option \<Rightarrow> ('a \<times> cstring) option \<Rightarrow> bool" where
  "same p x y \<longleftrightarrow> x = y \<and> (\<forall>t q. x = Some (t, q) \<longrightarrow> suffix q p)"

definition func_ok :: "(scanner \<Rightarrow> cgi \<Rightarrow> scanner) \<Rightarrow> bool" where
  "func_ok F \<longleftrightarrow> (\<forall>ev ev' w p. agree ev ev' p \<longrightarrow> same p (F ev w p) (F ev' w p))"

lemma same_None: "same p None None"
  by (simp add: same_def)

lemma same_Some: "suffix q p \<Longrightarrow> same p (Some (t, q)) (Some (t, q))"
  by (simp add: same_def)

lemma same_if: "(b \<Longrightarrow> same p x x') \<Longrightarrow> (\<not> b \<Longrightarrow> same p y y') \<Longrightarrow>
    same p (if b then x else y) (if b then x' else y')"
  by simp

lemma same_ev: "agree ev ev' q \<Longrightarrow> suffix q p \<Longrightarrow> same p (ev q) (ev' q)"
  unfolding same_def by (metis agreeD agree_def movesD suffix_order.trans)

lemma same_bind:
  assumes "same p x y" and "\<And>t q. suffix q p \<Longrightarrow> x = Some (t, q) \<Longrightarrow> same p (f t q) (g t q)"
  shows "same p (x \<bind> (\<lambda>(t, q). f t q)) (y \<bind> (\<lambda>(t, q). g t q))"
  using assms by (cases x) (auto simp: same_def split: prod.splits)

lemma same_ev_bind:
  assumes "agree ev ev' q" and "suffix q p"
    and "\<And>t r. suffix r p \<Longrightarrow> agree ev ev' r \<Longrightarrow> same p (f t r) (g t r)"
  shows "same p (ev q \<bind> (\<lambda>(t, r). f t r)) (ev' q \<bind> (\<lambda>(t, r). g t r))"
proof -
  have "same q (ev q) (ev' q)" using assms(1) by (rule same_ev) simp
  then have "same p (ev q) (ev' q)" and "\<And>t r. ev q = Some (t, r) \<Longrightarrow> suffix r q"
    using assms(2) by (simp_all add: same_def) (metis suffix_order.trans)
  then show ?thesis
    using assms(3) agree_suffix [OF assms(1)] by (rule_tac same_bind) blast+
qed

lemma same_pure_bind:
  "(\<And>x. same p (f x) (g x)) \<Longrightarrow> same p (o' \<bind> f) (o' \<bind> g)"
  by (cases o') (auto simp: same_def)

lemma same_case_prod: "(\<And>a b. same p (f a b) (g a b)) \<Longrightarrow> same p (case z of (a, b) \<Rightarrow> f a b) (case z of (a, b) \<Rightarrow> g a b)"
  by (cases z) simp

lemma same_case_list: "same p x x' \<Longrightarrow> (\<And>a b. same p (f a b) (g a b)) \<Longrightarrow>
    same p (case z of [] \<Rightarrow> x | a # b \<Rightarrow> f a b) (case z of [] \<Rightarrow> x' | a # b \<Rightarrow> g a b)"
  by (cases z) simp_all

lemma same_select_bind:
  assumes "agree ev ev' q" and "suffix q p" and "\<And>t r. suffix r p \<Longrightarrow> same p (f t r) (g t r)"
  shows "same p (select_loop ev v q \<bind> (\<lambda>(t, r). f t r)) (select_loop ev' v q \<bind> (\<lambda>(t, r). g t r))"
proof -
  have "moves ev" using assms(1) by (simp add: agree_def)
  then have "same p (select_loop ev v q) (select_loop ev' v q)"
    unfolding same_def
    using select_loop_agree [OF assms(1), of v] select_loop_moves [of ev v q] assms(2)
    by (metis suffix_order.trans)
  then show ?thesis using assms(3) by (rule same_bind)
qed

lemmas same_intros = same_if same_select_bind same_ev_bind same_Some same_None

lemma func_ok_input_text: "func_ok func_input_text"
  unfolding func_ok_def func_input_text_def Let_def
  by (intro allI impI same_intros) simp_all

lemma func_ok_input_passwd: "func_ok func_input_passwd"
  unfolding func_ok_def func_input_passwd_def Let_def
  by (intro allI impI same_intros) simp_all

lemma func_ok_input_hidden: "func_ok func_input_hidden"
  unfolding func_ok_def func_input_hidden_def Let_def
  by (intro allI impI same_intros) simp_all

lemma func_ok_input_select: "func_ok func_input_select"
  unfolding func_ok_def func_input_select_def Let_def
  by (intro allI impI same_intros) simp_all


lemma func_ok_input_checkbox: "func_ok func_input_checkbox"
  unfolding func_ok_def func_input_checkbox_def Let_def
  apply (intro allI impI)
  apply (rule same_ev_bind, assumption, simp)
  apply (rule same_bind)
   apply (intro same_intros; simp)
  apply (intro same_case_list same_intros; simp)
  done

lemma func_ok_input_radio: "func_ok func_input_radio"
  unfolding func_ok_def func_input_radio_def Let_def
  by (intro allI impI same_intros) (simp_all split: if_splits)

lemma func_ok_input_netmask: "func_ok func_input_netmask"
  unfolding func_ok_def func_input_netmask_def Let_def
  apply (intro allI impI)
  apply (rule same_ev_bind, assumption, simp)
  apply (rule same_bind)
   apply (intro same_if same_Some same_ev; simp)
  apply (intro same_pure_bind same_Some; simp)
  done

lemma func_ok_eval: "func_ok func_eval"
  unfolding func_ok_def func_eval_def by (intro allI impI same_intros) simp_all

lemma func_ok_head2: "func_ok func_head2"
  unfolding func_ok_def func_head2_def by (intro allI impI same_intros) simp_all

lemma func_ok_head: "func_ok func_head"
  unfolding func_ok_def func_head_def by (intro allI impI same_intros) simp_all

lemma func_ok_trlist: "func_ok func_trlist"
  unfolding func_ok_def func_trlist_def
  by (intro allI impI same_intros same_pure_bind) simp_all

lemma func_ok_zone_trlist: "func_ok func_zone_trlist"
  unfolding func_ok_def func_zone_trlist_def
  by (intro allI impI same_pure_bind same_intros) simp_all

lemma func_ok_user_trlist: "func_ok func_user_trlist"
  unfolding func_ok_def func_user_trlist_def
  by (intro allI impI same_pure_bind same_intros) simp_all

lemma func_ok_user_nextid: "func_ok func_user_nextid"
  unfolding func_ok_def func_user_nextid_def
  by (intro allI impI same_pure_bind same_intros) simp_all

lemma func_ok_nextval: "func_ok func_nextval"
  unfolding func_ok_def func_nextval_def
  by (intro allI impI same_intros same_pure_bind) simp_all

lemma func_ok_def_formarg: "func_ok func_def_formarg"
  unfolding func_ok_def func_def_formarg_def by (intro allI impI same_intros) simp_all

lemma functab_ok: "(nm, F) \<in> set functab \<Longrightarrow> func_ok F"
  unfolding functab_def
  by (auto simp: func_ok_input_text func_ok_input_passwd func_ok_input_hidden func_ok_input_select
      func_ok_input_checkbox func_ok_input_radio func_ok_input_netmask func_ok_eval func_ok_head2
      func_ok_head func_ok_trlist func_ok_zone_trlist func_ok_user_trlist func_ok_user_nextid
      func_ok_nextval func_ok_def_formarg)


text \<open>
  The evaluator calls itself behind an opening parenthesis only, so two evaluators that
  agree on the shorter suffixes of a text give the same result on the text.
\<close>

definition agree_below :: "scanner \<Rightarrow> scanner \<Rightarrow> cstring \<Rightarrow> bool" where
  "agree_below ev ev' p \<longleftrightarrow> moves ev \<and> (\<forall>q. suffix q p \<and> length q < length p \<longrightarrow> ev q = ev' q)"

lemma agree_below_tl:
  assumes "agree_below ev ev' inp" "suffix p inp" "p \<noteq> []"
  shows "agree ev ev' (tl p)"
proof -
  have "suffix q inp \<and> length q < length inp" if "suffix q (tl p)" for q
  proof -
    have "suffix q p" using that suffix_order.trans suffix_tl by blast
    moreover have "length q < length p"
      using suffix_length_le [OF that] assms(3) by (cases p) simp_all
    ultimately show ?thesis
      using assms(2) suffix_length_le [OF assms(2)] suffix_order.trans by fastforce
  qed
  then show ?thesis using assms(1) by (simp add: agree_def agree_below_def)
qed

lemma eval_func_loop_same:
  assumes "\<And>nm F. (nm, F) \<in> set tab \<Longrightarrow> func_ok F" "agree_below ev ev' inp" "suffix p inp"
  shows "same inp (eval_func_loop tab ev w inp tmp p) (eval_func_loop tab ev' w inp tmp p)"
  using assms(1,3)
proof (induction tab arbitrary: tmp p)
  case Nil
  then show ?case by (simp add: same_Some)
next
  case (Cons h tab)
  obtain nm F where h: "h = (nm, F)" by (cases h)
  have rest: "suffix q inp \<Longrightarrow>
      same inp (eval_func_loop tab ev w inp t q) (eval_func_loop tab ev' w inp t q)" for t q
    using Cons.IH Cons.prems(1) by (meson list.set_intros(2))
  have F: "same inp (F ev w (tl p)) (F ev' w (tl p))" if "deref p = CHR ''(''"
  proof -
    have ne: "p \<noteq> []" using that by auto
    have "same (tl p) (F ev w (tl p)) (F ev' w (tl p))"
      using Cons.prems(1) [of nm F] h agree_below_tl [OF assms(2) Cons.prems(2) ne]
      by (simp add: func_ok_def)
    then show ?thesis
      unfolding same_def using Cons.prems(2) by (metis suffix_order.trans suffix_tl_le)
  qed
  show ?case
    unfolding h eval_func_loop.simps
    by (intro same_if same_bind F) (simp_all add: rest same_Some Cons.prems)
qed

lemma eval_func_same:
  "agree_below ev ev' inp \<Longrightarrow> same inp (eval_func ev w inp) (eval_func ev' w inp)"
  using atom_suffix [of inp]
  by (auto simp: eval_func_def split: prod.split intro!: eval_func_loop_same dest: functab_ok)

lemma token_same: "same p (token w p) (token w p)"
  by (auto simp: same_def intro: token_suffix)

lemma eval_sub_same:
  "agree_below ev ev' inp \<Longrightarrow> same inp (eval_sub ev w inp) (eval_sub ev' w inp)"
  unfolding eval_sub_def
  by (intro same_if same_bind eval_func_same) (simp_all add: same_Some token_same)

lemma numeric_loop_suffix: "suffix (snd (numeric_loop n p)) p"
  by (induction n p rule: numeric_loop.induct) (auto intro: suffix_ConsI)

lemma numeric_suffix: "suffix (snd (numeric p)) p"
  using numeric_loop_suffix [of 0 p] by (cases "numeric_loop 0 p") (simp add: numeric_def)

lemma eval_body_same:
  assumes "agree_below ev ev' inp"
  shows "same inp (eval_body ev w inp) (eval_body ev' w inp)"
  unfolding eval_body_def
proof (rule same_bind [OF eval_sub_same [OF assms]])
  fix t q
  assume q: "suffix q inp"
  obtain u r where r: "numeric (tl q) = (u, r)" by (cases "numeric (tl q)")
  have "suffix r inp"
    using numeric_suffix [of "tl q"] r q by (metis snd_conv suffix_order.trans suffix_tl_le)
  then show "same inp
     (if deref q = CHR ''['' then case numeric (tl q) of (tmp2, p) \<Rightarrow>
        if deref p = CHR '']'' then let n = atoi tmp2 in do {
          lst \<leftarrow> list_split NUL (Some t);
          t \<leftarrow> if n < list_n lst then nth_opt (list_items lst) n else Some [];
          Some (t, tl p) } else Some (t, p) else Some (t, q))
     (if deref q = CHR ''['' then case numeric (tl q) of (tmp2, p) \<Rightarrow>
        if deref p = CHR '']'' then let n = atoi tmp2 in do {
          lst \<leftarrow> list_split NUL (Some t);
          t \<leftarrow> if n < list_n lst then nth_opt (list_items lst) n else Some [];
          Some (t, tl p) } else Some (t, p) else Some (t, q))"
    unfolding r prod.case Let_def using q
    by (auto simp: same_def bind_eq_Some_conv split: if_splits)
qed

lemma eval_moves: "moves (eval w)"
proof -
  have "eval w p = Some (t, q) \<Longrightarrow> suffix q p" for p t q
  proof (induction p arbitrary: t q rule: measure_induct_rule [of length])
    case (less p)
    let ?G = "\<lambda>q. if length q < length p then eval w q else None"
    have "moves ?G" using less.IH by (auto simp: moves_def split: if_splits)
    then have "agree_below ?G ?G p" by (simp add: agree_below_def)
    from eval_body_same [OF this, of w] less.prems show ?case
      by (simp add: eval.simps [of w p] same_def)
  qed
  then show ?thesis by (auto simp: moves_def)
qed

lemma eval_unfold: "eval w p = eval_body (eval w) w p"
proof -
  let ?G = "\<lambda>q. if length q < length p then eval w q else None"
  have "moves ?G" using eval_moves [of w] by (auto simp: moves_def split: if_splits)
  then have "agree_below ?G (eval w) p" by (simp add: agree_below_def)
  from eval_body_same [OF this, of w] show ?thesis
    by (simp add: eval.simps [of w p] same_def)
qed

interpretation ev: cursor_scanner "eval w" for w
  by unfold_locales (rule movesD [OF eval_moves])

lemma select_loop_eval:
  "select_loop (eval w) v p =
     (case eval w p of
        None \<Rightarrow> None
      | Some (tmp3, q) \<Rightarrow>
          let opt = (if v = tmp3 then ''<OPTION SELECTED>'' else ''<OPTION>'') @ tmp3 @ [NL] in
          if deref q \<noteq> CHR '','' then Some (opt, q) else prepend opt (select_loop (eval w) v (tl q)))"
proof -
  have "length (tl q) < length p" if "eval w p = Some (t, q)" "deref q = CHR '',''" for t q
    using ev.never_longer [OF that(1)] that(2) by (cases q) simp_all
  then show ?thesis
    by (auto simp: select_loop.simps [of "eval w" v p] Let_def split: option.splits)
qed


subsection \<open>What texts evaluate to\<close>

definition esc :: "cstring \<Rightarrow> cstring" where
  "esc s = concat (map (\<lambda>c. if c \<in> {DQ, CHR 0x5C, CHR ''$''} then [CHR 0x5C, c] else [c]) s)"

lemma esc_simps [simp]:
  "esc [] = []"
  "esc (c # s) = (if c \<in> {DQ, CHR 0x5C, CHR ''$''} then [CHR 0x5C, c] else [c]) @ esc s"
  by (simp_all add: esc_def)

lemma qatom_esc [simp]: "qatom w (esc s @ DQ # r) = Some (s, DQ # r)"
  by (induction s) (auto simp: qatom_Cons)

lemma not_space_DQ [simp]: "\<not> isspace DQ" "\<not> is_atom DQ" "\<not> is_atom CHR ''(''"
  "\<not> is_atom CHR '')''" "\<not> is_atom CHR ''}''" "\<not> is_atom CHR ''{''" "\<not> is_atom CHR '',''"
  by (simp_all add: isspace_def is_atom_def ctype_defs byte_def)

lemma val_ref_plain:
  "list_all is_atom nm \<Longrightarrow> \<not> is_atom (deref r) \<Longrightarrow> nm \<noteq> [] \<Longrightarrow> val_ref w (nm @ r) = (getval3 nm w, r)"
  by (cases nm; cases r) (auto simp: val_name_def takeWhile_tail)

lemma val_ref_braces:
  "list_all is_atom nm \<Longrightarrow> nm \<noteq> [] \<Longrightarrow> val_ref w (CHR ''{'' # nm @ CHR ''}'' # r) = (getval3 nm w, r)"
  using val_ref_plain [of nm "CHR ''}'' # r" w] by simp

text \<open>
  Tokens: a text quoted with a backslash before each quote, backslash and dollar is
  read back as it is; a variable in quotes, as \<^verbatim>\<open>$name\<close> or \<^verbatim>\<open>${name}\<close>, is
  replaced by its value, and by nothing when it has none. Both consume the closing quote and
  the blanks behind it.
\<close>

theorem token_quoted:
  "token w (DQ # esc s @ DQ # rest) = Some (s, dropWhile isspace rest)
   \<and> (list_all is_atom nm \<and> nm \<noteq> [] \<longrightarrow>
        token w (DQ # ''$'' @ nm @ DQ # rest) = Some (getval3 nm w, dropWhile isspace rest) \<and>
        token w (DQ # ''${'' @ nm @ ''}'' @ DQ # rest) = Some (getval3 nm w, dropWhile isspace rest))"
  using val_ref_plain [of nm "DQ # rest" w] val_ref_braces [of nm w "DQ # rest"]
  by (auto simp: token_def qatom_Cons split: prod.split)

theorem token_quoted_witness:
  "list_all is_atom ''x_host''
   \<and> token empty_cgi (DQ # ''$'' @ ''x_host'' @ DQ # '' ,'') = Some ([], '','')"
  using token_quoted [of empty_cgi "[]" "'' ,''" "''x_host''"]
  by (simp add: is_atom_def ctype_defs byte_def getval3_def getval_def getval2_def getvalp_def empty_cgi_def)


lemma suffix_last: "suffix q p \<Longrightarrow> q \<noteq> [] \<Longrightarrow> last p = last q"
  by (metis last_appendR suffix_def)

lemma qatom_fault: "qatom w p = None \<Longrightarrow> p \<noteq> [] \<and> last p = CHR 0x5C"
proof (induction w p rule: qatom.induct)
  case (1 w p)
  show ?case
  proof (cases p)
    case Nil
    then show ?thesis using "1.prems" by simp
  next
    case (Cons c p')
    note IH = "1.IH" [OF Cons]
    have eq: "qatom w (c # p') = None" using "1.prems" Cons by simp
    consider "c = CHR 0x5C" | "c = CHR ''$''" | "c = DQ" | "c \<noteq> CHR 0x5C" "c \<noteq> CHR ''$''" "c \<noteq> DQ"
      by blast
    then show ?thesis
    proof cases
      case 1
      then show ?thesis using eq IH(1) Cons by (cases p') (auto simp: qatom_Cons)
    next
      case 2
      then have "snd (val_ref w p') \<noteq> [] \<and> last (snd (val_ref w p')) = CHR 0x5C"
        using eq IH(2) by (auto simp: qatom_Cons)
      moreover from this have "p' \<noteq> []" using val_ref_suffix [of w p'] by auto
      ultimately show ?thesis using suffix_last [OF val_ref_suffix [of w p']] Cons by simp
    next
      case 3
      then show ?thesis using eq by (simp add: qatom_Cons)
    next
      case 4
      then show ?thesis using eq IH(3) Cons by (auto simp: qatom_Cons)
    qed
  qed
qed

text \<open>
  The only text a token cannot be read from is one with a backslash as its last byte:
  there the code copies the terminator and goes on reading behind it.
\<close>

theorem token_fault:
  assumes "token w p = None"
  shows "last p = CHR 0x5C"
proof -
  let ?p = "dropWhile isspace p"
  have "qatom w (tl ?p) = None"
    using assms by (auto simp: token_def Let_def bind_eq_None_conv split: if_splits prod.splits)
  then have "tl ?p \<noteq> [] \<and> last (tl ?p) = CHR 0x5C" by (rule qatom_fault)
  moreover have "suffix (tl ?p) p" by (simp add: suffix_dropWhile)
  ultimately show ?thesis using suffix_last by metis
qed

lemma token_fault_ex: "token w ('' '' @ [DQ, CHR ''a'', CHR 0x5C]) = None"
  by (simp add: token_def qatom_Cons isspace_def byte_def)

theorem token_fault_witness:
  "token empty_cgi ('' '' @ [DQ, CHR ''a'', CHR 0x5C]) = None \<and> last ('' '' @ [DQ, CHR ''a'', CHR 0x5C]) = CHR 0x5C"
  using token_fault [OF token_fault_ex [of empty_cgi]] token_fault_ex by blast

lemma eval_func_other: "atom p = ([], q) \<Longrightarrow> eval_func ev w p = Some ([], p)"
  by (simp add: eval_func_def functab_def)

lemma eval_sub_quoted [simp]:
  "eval_sub ev w (DQ # s) = token w (DQ # s)"
  by (simp add: eval_sub_def eval_func_other atom_def)

lemma eval_quoted:
  "deref (dropWhile isspace rest) \<noteq> CHR ''['' \<Longrightarrow>
   eval w (DQ # esc s @ DQ # rest) = Some (s, dropWhile isspace rest)"
  by (subst eval_unfold) (simp add: eval_body_def token_def)

lemma numeric_loop_app:
  "list_all isdigit s \<Longrightarrow> \<not> isdigit (deref r) \<Longrightarrow>
   numeric_loop n (s @ r) = (fst (numeric_loop n s), r)"
proof (induction s arbitrary: n)
  case Nil
  then show ?case by (cases r) auto
qed auto

lemma numeric_loop_dec_nat:
  "int n \<le> int_max \<Longrightarrow> numeric_loop 0 (dec_nat n) = (int n, [])"
proof (induction n rule: dec_nat.induct)
  case (1 n)
  show ?case
  proof (cases "n < 10")
    case True
    then show ?thesis by (subst dec_nat.simps) (simp add: wrap32_id int_min_def int_max_def)
  next
    case False
    have snoc: "numeric_loop k (s @ [c]) = (wrap32 (wrap32 (fst (numeric_loop k s) * 10) + int (byte c - 48)), [])"
      if "list_all isdigit s" "isdigit c" for k s c
      using that by (induction s arbitrary: k) auto
    have IH: "numeric_loop 0 (dec_nat (n div 10)) = (int (n div 10), [])"
      using "1.IH" False "1.prems" by (simp add: int_max_def)
    have "wrap32 (int (n div 10) * 10) = int (n div 10) * 10"
      using "1.prems" by (intro wrap32_id) (simp_all add: int_min_def int_max_def)
    moreover have "wrap32 (int n) = int n"
      using "1.prems" by (intro wrap32_id) (simp_all add: int_min_def)
    moreover have "int (n div 10) * 10 + int (n mod 10) = int n" by presburger
    ultimately show ?thesis
      using False by (subst dec_nat.simps) (simp add: snoc IH)
  qed
qed

lemma length_dec_nat: "n < 10 ^ Suc k \<Longrightarrow> length (dec_nat n) \<le> Suc k"
proof (induction k arbitrary: n)
  case (Suc k)
  show ?case
  proof (cases "n < 10")
    case False
    then have "length (dec_nat (n div 10)) \<le> Suc k" using Suc by (intro Suc.IH) (simp add: less_mult_imp_div_less)
    then show ?thesis using False by (subst dec_nat.simps) simp
  qed (subst dec_nat.simps, simp)
qed (subst dec_nat.simps, simp)

lemma numeric_dec:
  assumes "int n \<le> int_max" "\<not> isdigit (deref r)"
  shows "numeric (dec (int n) @ r) = (dec (int n), r)"
proof -
  have "n < 10 ^ Suc 9" using assms(1) by (simp add: int_max_def)
  then have "length (dec_nat n) \<le> Suc 9" by (rule length_dec_nat)
  then have "length (dec_nat n) \<le> 15" by simp
  then show ?thesis
    using assms by (simp add: numeric_def dec_def numeric_loop_app numeric_loop_dec_nat)
qed

text \<open>
  List elements: \<^verbatim>\<open>"..."[n]\<close> evaluates to the \<open>n\<close>-th word of the text,
  counted from 0, and to the empty text when there are no more than \<open>n\<close> words.
\<close>

theorem eval_index:
  assumes "int n \<le> int_max"
  shows "eval w (DQ # esc s @ DQ # ''['' @ dec (int n) @ '']'' @ rest) =
           Some (if n < length (words s) then words s ! n else [], rest)"
proof -
  have "\<not> isspace CHR ''[''" "\<not> isdigit CHR '']''" by (simp_all add: isspace_def isdigit_def byte_def)
  moreover have "int_min \<le> int n" by (simp add: int_min_def)
  ultimately show ?thesis
    using assms
    by (subst eval_unfold) (simp add: eval_body_def token_def numeric_dec atoi_dec list_split_eq
        list_items_def split_items_def)
qed

theorem eval_index_witness:
  "int 1 \<le> int_max \<and>
   eval empty_cgi (DQ # esc ''a b c'' @ DQ # ''['' @ dec (int 1) @ '']'' @ '','') = Some (''b'', '','')"
proof -
  have "words ''a b c'' = [''a'', ''b'', ''c'']"
    by (simp add: words.simps isspace_def byte_def)
  then show ?thesis
    using eval_index [of 1 empty_cgi "''a b c''" "'',''"] by (simp add: int_max_def)
qed

text \<open>
  An index is accumulated in a 32-bit \<^verbatim>\<open>int\<close> and compared with the number of
  words from above only: the index 4294967295 wraps to -1, passes the test and reads the slot
  before the array, for every list.
\<close>

theorem eval_index_wraps:
  "eval w (DQ # esc s @ DQ # ''[4294967295]'' @ rest) = None"
proof -
  have "numeric_loop 0 (''4294967295]'' @ rest) = (- 1, CHR '']'' # rest)"
    by (simp add: isdigit_def byte_def wrap32_def)
  moreover have "atoi (take 15 (dec (- 1))) = - 1"
    using atoi_dec [of "- 1"] by (simp add: dec_def dec_nat.simps int_min_def int_max_def)
  moreover have "\<not> isspace CHR ''[''" by (simp add: isspace_def byte_def)
  ultimately show ?thesis
    by (subst eval_unfold) (simp add: eval_body_def token_def numeric_def list_split_eq nth_opt_def
        bind_eq_None_conv)
qed


lemma atom_name:
  "list_all is_atom nm \<Longrightarrow> \<not> is_atom (deref r) \<Longrightarrow> nm \<noteq> [] \<Longrightarrow> atom (nm @ r) = (nm, r)"
proof -
  assume h: "list_all is_atom nm" "\<not> is_atom (deref r)" "nm \<noteq> []"
  have "\<not> isspace (deref nm)" using h(1,3) by (cases nm) (auto simp: is_atom_def isspace_def [of "CHR ''_''"] byte_def)
  then have "dropWhile isspace (nm @ r) = nm @ r" using h(3) by (cases nm) auto
  then show ?thesis using h by (cases r) (auto simp: atom_def dropWhile_append takeWhile_append)
qed

text \<open>
  A call in the page text: \<^verbatim>\<open>input_text("name")\<close> is replaced by an
  \<^verbatim>\<open>INPUT\<close> tag that carries the name and the current value of the variable as they
  are, without the HTML quoting of \<^verbatim>\<open>misc.c\<close>: a value with a quote and a closing
  bracket ends the tag early and its rest becomes markup of the page.
\<close>

theorem eval_input_text:
  assumes "deref rest \<noteq> CHR ''[''"
  shows "eval w (''input_text('' @ [DQ] @ esc nm @ [DQ] @ '')'' @ rest) =
     Some (''<INPUT TYPE=TEXT NAME='' @ [DQ] @ nm @ [DQ] @ '' VALUE='' @ [DQ] @ getval3 nm w @ [DQ] @ '' >'', rest)"
proof -
  have "atom (''input_text'' @ CHR ''('' # DQ # esc nm @ DQ # CHR '')'' # rest) =
      (''input_text'', CHR ''('' # DQ # esc nm @ DQ # CHR '')'' # rest)"
    by (rule atom_name) (simp_all add: is_atom_def ctype_defs byte_def)
  moreover have "eval w (DQ # esc nm @ DQ # CHR '')'' # rest) = Some (nm, CHR '')'' # rest)"
    using eval_quoted [of "CHR '')'' # rest" w nm] by (simp add: isspace_def byte_def)
  ultimately show ?thesis
    using assms by (subst eval_unfold) (simp add: eval_body_def eval_sub_def eval_func_def functab_def
        func_input_text_def)
qed

theorem eval_input_text_witness:
  "deref '' ?>'' \<noteq> CHR ''['' \<and>
   eval (putval ''x'' (DQ # ''><script>'') RC_bWRITE empty_cgi) (''input_text('' @ [DQ] @ esc ''x'' @ [DQ] @ '')'' @ '' ?>'') =
     Some (''<INPUT TYPE=TEXT NAME='' @ [DQ] @ ''x'' @ [DQ] @ '' VALUE='' @ [DQ, DQ] @ ''><script>'' @ [DQ] @ '' >'', '' ?>'')"
proof -
  have "getval3 ''x'' (putval ''x'' (DQ # ''><script>'') RC_bWRITE empty_cgi) = DQ # ''><script>''"
    by (simp add: getval3_def getval_map date_key_def cs.lookup_put)
  then show ?thesis
    using eval_input_text [of "'' ?>''" "putval ''x'' (DQ # ''><script>'') RC_bWRITE empty_cgi" "''x''"]
    by simp
qed

text \<open>
  The number the page proposes for a new account.
\<close>

definition passwd_uid :: "cstring \<Rightarrow> int option" where
  "passwd_uid l =
     (if \<not> isalnum (deref l) then None
      else let fs = ItemList.fields CHR '':'' l in if length fs \<ge> 6 then Some (atoi (fs ! 2)) else None)"

lemma next_uid_fold:
  "foldM (\<lambda>passwd mx.
       if \<not> isalnum (deref passwd) then Some mx
       else do {
         l \<leftarrow> list_split CHR '':'' (Some passwd);
         if list_n l \<ge> 6
         then let uid = atoi (list_items l ! 2) in
              Some (if uid \<ge> 500 \<and> uid \<le> 60000 \<and> uid \<ge> mx then uid else mx)
         else Some mx }) ls mx =
   Some (fold (\<lambda>u m. max u m) (List.filter (\<lambda>u. 500 \<le> u \<and> u \<le> 60000) (List.map_filter passwd_uid ls)) mx)"
proof (induction ls arbitrary: mx)
  case (Cons l ls)
  then show ?case
    by (auto simp: list_split_eq split_items_def list_items_def passwd_uid_def List.map_filter_simps
        Let_def max_def)
qed (simp add: List.map_filter_simps)

lemma fold_max_ge:
  "(mx :: int) \<le> fold max us mx \<and> (\<forall>u \<in> set us. u \<le> fold max us mx) \<and> (fold max us mx = mx \<or> fold max us mx \<in> set us)"
proof (induction us arbitrary: mx)
  case (Cons u us)
  have m: "max u mx \<le> fold max us (max u mx)" "max u mx = u \<or> max u mx = mx"
    using Cons.IH [of "max u mx"] by auto
  then have "u \<le> fold max us (max u mx)" "mx \<le> fold max us (max u mx)" by linarith+
  then show ?case using Cons.IH [of "max u mx"] m(2) by auto
qed simp

definition account_uids :: "cstring list \<Rightarrow> int set" where
  "account_uids ls = {u \<in> set (List.map_filter passwd_uid ls). 500 \<le> u \<and> u \<le> 60000}"

lemma next_uid_eq:
  "next_uid ls = Some (if account_uids ls = {} then 1 else Max (account_uids ls) + 1)"
proof -
  let ?us = "List.filter (\<lambda>u. 500 \<le> u \<and> u \<le> 60000) (List.map_filter passwd_uid ls)"
  have n: "next_uid ls = Some (fold max ?us 0 + 1)"
    by (simp add: next_uid_def next_uid_fold)
  have U: "account_uids ls = set ?us" by (auto simp: account_uids_def)
  show ?thesis
  proof (cases "?us = []")
    case True
    then show ?thesis using n U by simp
  next
    case False
    then obtain u where u: "u \<in> set ?us" by (meson last_in_set)
    then have "u > 0" by auto
    then have "fold max ?us 0 \<in> set ?us" using fold_max_ge [of 0 ?us] u by fastforce
    then have "Max (set ?us) = fold max ?us 0" using fold_max_ge [of 0 ?us] by (intro Max_eqI) auto
    then show ?thesis using n U False by simp
  qed
qed

text \<open>
  The proposed user id: one above the largest id between 500 and 60000 in the lines of
  the password file, and 1 when the file has no account in that range.
\<close>

theorem next_uid_max:
  "next_uid ls = Some (if account_uids ls = {} then 1 else Max (account_uids ls) + 1)"
  by (rule next_uid_eq)

end
