(* ===== verification/Misc.thy ===== *)
theory Misc
  imports Libc
begin

text \<open>
  The helpers of \<^verbatim>\<open>contrib/setup/misc.c\<close>: HTML quoting, URL decoding, cutting the
  newline off a line, and the ring of buffers with the heap behind it.
\<close>

subsection \<open>HTML quoting\<close>

definition quote_char :: "char \<Rightarrow> cstring" where
  "quote_char c =
     (if c = CHR ''&'' then ''&amp;'' else if c = DQ then ''&quot;''
      else if c = CHR ''<'' then ''&lt;'' else if c = CHR ''>'' then ''&gt;'' else [c])"

fun quote_loop :: "cstring \<Rightarrow> cstring \<Rightarrow> cstring" where
  "quote_loop out [] = out"
| "quote_loop out (c # s) = quote_loop (out @ quote_char c) s"

text \<open>The buffer has \<open>6 * strlen + 1\<close> bytes; \<open>None\<close> is a write behind it.\<close>

definition quote :: "cstring \<Rightarrow> cstring option" where
  "quote s =
     (let p = quote_loop [] s in
      if length p + 1 \<le> length s * 6 + 1 then Some p else None)"

text \<open>What a browser makes of the four references.\<close>

fun unquote :: "cstring \<Rightarrow> cstring" where
  "unquote [] = []"
| "unquote (c # s) =
     (if c \<noteq> CHR ''&'' then c # unquote s
      else if prefix ''amp;'' s then CHR ''&'' # unquote (drop 4 s)
      else if prefix ''quot;'' s then DQ # unquote (drop 5 s)
      else if prefix ''lt;'' s then CHR ''<'' # unquote (drop 3 s)
      else if prefix ''gt;'' s then CHR ''>'' # unquote (drop 3 s)
      else c # unquote s)"

lemma quote_loop_concat: "quote_loop out s = out @ concat (map quote_char s)"
  by (induction s arbitrary: out) auto

lemma length_quote_char: "length (quote_char c) \<le> 6"
  by (simp add: quote_char_def)

lemma length_quote: "length (concat (map quote_char s)) \<le> length s * 6"
proof (induction s)
  case (Cons c s)
  then show ?case using length_quote_char [of c] by simp
qed simp

lemma quote_eq: "quote s = Some (concat (map quote_char s))"
  using length_quote [of s] by (simp add: quote_def quote_loop_concat)

lemma unquote_quote_char: "unquote (quote_char c @ s) = c # unquote s"
  by (auto simp: quote_char_def)

text \<open>
  HTML quoting: \<^verbatim>\<open>quote\<close> never writes behind its buffer, its result holds no
  quote and no angle bracket, so it can stand in an attribute, and replacing the four
  references in it gives the text back.
\<close>

theorem quote_safe:
  "\<exists>q. quote s = Some q \<and> set q \<inter> {DQ, CHR ''<'', CHR ''>''} = {} \<and> unquote q = s"
proof -
  have "set (quote_char c) \<inter> {DQ, CHR ''<'', CHR ''>''} = {}" for c
    by (simp add: quote_char_def)
  moreover have "unquote (concat (map quote_char s)) = s"
    by (induction s) (simp_all add: unquote_quote_char)
  ultimately show ?thesis by (auto simp: quote_eq)
qed

subsection \<open>Lines and numbers\<close>

text \<open>\<^verbatim>\<open>chop\<close> looks at the byte before the terminator, also of an empty string.\<close>

definition chop :: "cstring \<Rightarrow> cstring option" where
  "chop s = (if s = [] then None else Some (if last s = NL then butlast s else s))"

definition ring_itoa :: "int \<Rightarrow> cstring" where
  "ring_itoa n = dec n"

subsection \<open>URL decoding\<close>

definition hex_val :: "char \<Rightarrow> nat option" where
  "hex_val c =
     (if isdigit c then Some (byte c - 48)
      else if 65 \<le> byte c \<and> byte c \<le> 70 then Some (byte c - 55)
      else if 97 \<le> byte c \<and> byte c \<le> 102 then Some (byte c - 87) else None)"

text \<open>
  \<^verbatim>\<open>strtol\<close> to the base 16 on the two bytes behind the percent sign: blanks, a sign
  and the prefix \<^verbatim>\<open>0x\<close> leave at most one digit.
\<close>

definition strtol16_2 :: "char \<Rightarrow> char \<Rightarrow> int" where
  "strtol16_2 a b =
     (case hex_val a of
        Some m \<Rightarrow> (case hex_val b of Some n \<Rightarrow> int (16 * m + n) | None \<Rightarrow> int m)
      | None \<Rightarrow>
          (case hex_val b of None \<Rightarrow> 0
           | Some n \<Rightarrow> if a = CHR ''-'' then - int n else if a = CHR ''+'' \<or> isspace a then int n else 0))"

text \<open>
  The decoded buffer: \<open>None\<close> when fewer than two bytes follow a percent sign, where the
  code steps over the terminator. Callers see the buffer up to its first NUL.
\<close>

fun htdecode :: "cstring \<Rightarrow> string option" where
  "htdecode [] = Some []"
| "htdecode (c # s) =
     (if c = CHR ''+'' then map_option (Cons CHR '' '') (htdecode s)
      else if c = CHR ''%''
      then (case s of
              a # b # s' \<Rightarrow> map_option (Cons (char_of (nat (strtol16_2 a b mod 256)))) (htdecode s')
            | _ \<Rightarrow> None)
      else map_option (Cons c) (htdecode s))"

definition ring_htdecode :: "cstring \<Rightarrow> cstring option" where
  "ring_htdecode s = map_option c_str (htdecode s)"

text \<open>The encoding of a form: blanks as plus signs, letters and digits plain, the rest in hex.\<close>

definition urlencode_char :: "char \<Rightarrow> cstring" where
  "urlencode_char c =
     (if isalnum c then [c] else if c = CHR '' '' then ''+''
      else [CHR ''%'', hex_char (byte c div 16), hex_char (byte c mod 16)])"

definition urlencode :: "cstring \<Rightarrow> cstring" where
  "urlencode s = concat (map urlencode_char s)"

lemma hex_val_hex_char: "d < 16 \<Longrightarrow> hex_val (hex_char d) = Some d"
  by (auto simp: hex_val_def hex_char_def isdigit_def)

lemma strtol16_hex: "strtol16_2 (hex_char (byte c div 16)) (hex_char (byte c mod 16)) = int (byte c)"
proof -
  have "byte c div 16 < 16" using byte_less [of c] by (simp add: less_mult_imp_div_less)
  moreover have "byte c mod 16 < 16" by simp
  ultimately show ?thesis by (simp add: strtol16_2_def hex_val_hex_char)
qed

lemma htdecode_urlencode_char: "htdecode (urlencode_char c @ s) = map_option (Cons c) (htdecode s)"
proof -
  have a: "\<not> isalnum CHR ''+''" "\<not> isalnum CHR ''%''" by (simp_all add: ctype_defs byte_def)
  have b: "char_of (nat (int (byte c) mod 256)) = c"
    using byte_less [of c] by (simp add: byte_def)
  show ?thesis using a b by (auto simp: urlencode_char_def strtol16_hex)
qed

lemma htdecode_urlencode_eq: "htdecode (urlencode s) = Some s"
  by (induction s) (simp_all add: urlencode_def htdecode_urlencode_char)

text \<open>
  URL decoding undoes the encoding of forms: a C string encoded byte by byte comes back
  unchanged.
\<close>

theorem htdecode_urlencode:
  assumes "is_cstr s"
  shows "ring_htdecode (urlencode s) = Some s"
  using assms by (simp add: ring_htdecode_def htdecode_urlencode_eq)

theorem htdecode_urlencode_witness:
  "is_cstr ''a b=1'' \<and> urlencode ''a b=1'' = ''a+b%3d1'' \<and> ring_htdecode ''a+b%3d1'' = Some ''a b=1''"
proof -
  have "urlencode ''a b=1'' = ''a+b%3d1''" by code_simp
  then show ?thesis using htdecode_urlencode [of "''a b=1''"] by simp
qed

definition whole :: "cstring \<Rightarrow> bool" where
  "whole s \<longleftrightarrow> (\<exists>a b. s = [CHR ''%'', a, b]) \<or> (\<exists>c. c \<noteq> CHR ''%'' \<and> s = [c])"

lemma htdecode_whole: "whole u \<Longrightarrow> htdecode (u @ s) = None \<longleftrightarrow> htdecode s = None"
  by (auto simp: whole_def split: if_splits)

lemma htdecode_wholes: "list_all whole us \<Longrightarrow> htdecode (concat us @ s) = None \<longleftrightarrow> htdecode s = None"
  by (induction us) (simp_all add: htdecode_whole)

lemma htdecode_None_split:
  "htdecode s = None \<Longrightarrow> \<exists>us t. list_all whole us \<and> s = concat us @ CHR ''%'' # t \<and> length t < 2"
proof (induction s rule: length_induct)
  case (1 s)
  then obtain c r where s: "s = c # r" by (cases s) auto
  have step: ?case if u: "whole u" "s = u @ r'" "u \<noteq> []" for u r'
  proof -
    have "htdecode r' = None" using htdecode_whole [OF u(1)] u(2) "1.prems" by simp
    moreover have "length r' < length s" using u(2,3) by simp
    ultimately obtain us t where "list_all whole us" "r' = concat us @ CHR ''%'' # t" "length t < 2"
      using "1.IH" by blast
    then show ?thesis using u by (intro exI [of _ "u # us"] exI [of _ t]) simp
  qed
  show ?case
  proof (cases "c = CHR ''%''")
    case False
    then show ?thesis using step [of "[c]" r] s by (simp add: whole_def)
  next
    case True
    show ?thesis
    proof (cases "length r < 2")
      case True
      then show ?thesis using \<open>c = CHR ''%''\<close> s by (intro exI [of _ "[]"] exI [of _ r]) simp
    next
      case False
      then obtain a b s' where "r = a # b # s'"
        by (metis One_nat_def Suc_1 Suc_leI le_less_linear length_0_conv less_Suc0 list.exhaust length_Cons less_Suc_eq_0_disj not_less)
      then show ?thesis using step [of "[c, a, b]" s'] s True by (simp add: whole_def)
    qed
  qed
qed

text \<open>
  URL decoding reads outside the text exactly when the text, after plain bytes and whole
  escapes, ends in a percent sign with fewer than two bytes behind it.
\<close>

theorem htdecode_fault:
  "ring_htdecode s = None \<longleftrightarrow>
     (\<exists>us t. list_all whole us \<and> s = concat us @ CHR ''%'' # t \<and> length t < 2)"
proof
  assume "ring_htdecode s = None"
  then show "\<exists>us t. list_all whole us \<and> s = concat us @ CHR ''%'' # t \<and> length t < 2"
    by (intro htdecode_None_split) (simp add: ring_htdecode_def)
next
  assume "\<exists>us t. list_all whole us \<and> s = concat us @ CHR ''%'' # t \<and> length t < 2"
  then obtain us t where us: "list_all whole us" "s = concat us @ CHR ''%'' # t" "length t < 2"
    by blast
  have "htdecode (CHR ''%'' # t) = None" using us(3) by (auto split: list.split)
  then show "ring_htdecode s = None" using htdecode_wholes [OF us(1)] us(2) by (simp add: ring_htdecode_def)
qed

subsection \<open>The ring of buffers\<close>

text \<open>
  The heap: the addresses in use and how many more \<^verbatim>\<open>malloc\<close> can give. A ring is a
  block of the heap with its slots. Running out of memory ends the program on the panic page
  (\<open>Inl\<close>); freeing what is not allocated is undefined (\<open>None\<close>).
\<close>

record heap =
  live :: "nat list"
  fresh :: nat
  room :: nat

record ring_t =
  ring_n :: int
  ring_i :: int
  ring_adr :: "nat option list"
  ring_self :: nat

definition panic :: "cstring \<Rightarrow> cstring + 'a" where
  "panic str = Inl (''Content-Type: text/html'' @ [NL, NL] @ ''Panic: '' @ str @ [NL])"

definition my_malloc :: "heap \<Rightarrow> cstring + (nat \<times> heap)" where
  "my_malloc h =
     (if room h = 0 then panic ''malloc''
      else Inr (fresh h, h\<lparr>live := fresh h # live h, fresh := fresh h + 1, room := room h - 1\<rparr>))"

definition my_free :: "nat option \<Rightarrow> heap \<Rightarrow> heap option" where
  "my_free adr h =
     (case adr of None \<Rightarrow> Some h
      | Some a \<Rightarrow> if a \<in> set (live h) then Some (h\<lparr>live := remove1 a (live h), room := room h + 1\<rparr>) else None)"

definition ring_new :: "nat \<Rightarrow> heap \<Rightarrow> cstring + (ring_t \<times> heap)" where
  "ring_new sz h =
     (case my_malloc h of Inl m \<Rightarrow> Inl m
      | Inr (a, h) \<Rightarrow> Inr (\<lparr>ring_n = int sz, ring_i = 0, ring_adr = replicate sz None, ring_self = a\<rparr>, h))"

definition ring_malloc :: "ring_t \<Rightarrow> heap \<Rightarrow> cstring + (nat \<times> ring_t \<times> heap)" where
  "ring_malloc r h = (case my_malloc h of Inl m \<Rightarrow> Inl m | Inr (a, h) \<Rightarrow> Inr (a, r, h))"

fun clear_slot :: "nat option \<Rightarrow> nat option list \<Rightarrow> nat option list" where
  "clear_slot ptr [] = []"
| "clear_slot ptr (s # ss) = (if s = ptr then None # ss else s # clear_slot ptr ss)"

definition ring_free :: "ring_t \<Rightarrow> nat option \<Rightarrow> heap \<Rightarrow> (ring_t \<times> heap) option" where
  "ring_free r ptr h = map_option (\<lambda>h. (r\<lparr>ring_adr := clear_slot ptr (ring_adr r)\<rparr>, h)) (my_free ptr h)"

fun free_slots :: "nat option list \<Rightarrow> heap \<Rightarrow> heap option" where
  "free_slots [] h = Some h"
| "free_slots (s # ss) h =
     (case (if s = None then Some h else my_free s h) of None \<Rightarrow> None | Some h \<Rightarrow> free_slots ss h)"

definition ring_delete :: "ring_t \<Rightarrow> heap \<Rightarrow> heap option" where
  "ring_delete r h =
     (case free_slots (ring_adr r) h of None \<Rightarrow> None | Some h \<Rightarrow> my_free (Some (ring_self r)) h)"

text \<open>A run of the program: a ring, allocations from it and frees of addresses it gave.\<close>

inductive ring_run :: "heap \<Rightarrow> ring_t \<Rightarrow> heap \<Rightarrow> bool" for h0 where
  new: "ring_new sz h0 = Inr (r, h) \<Longrightarrow> ring_run h0 r h"
| alloc: "ring_run h0 r h \<Longrightarrow> ring_malloc r h = Inr (a, r', h') \<Longrightarrow> ring_run h0 r' h'"
| free: "ring_run h0 r h \<Longrightarrow> ring_free r (Some a) h = Some (r', h') \<Longrightarrow> a \<noteq> ring_self r \<Longrightarrow> ring_run h0 r' h'"

lemma clear_slot_None: "list_all (\<lambda>s. s = None) ss \<Longrightarrow> clear_slot p ss = ss"
  by (induction ss) auto

lemma free_slots_None: "list_all (\<lambda>s. s = None) ss \<Longrightarrow> free_slots ss h = Some h"
  by (induction ss) auto

lemma ring_run_inv:
  "ring_run h0 r h \<Longrightarrow> list_all (\<lambda>s. s = None) (ring_adr r) \<and> ring_self r \<in> set (live h)"
proof (induction rule: ring_run.induct)
  case (new sz r h)
  then show ?case
    by (auto simp: ring_new_def my_malloc_def panic_def list_all_iff split: if_splits)
next
  case (alloc r h a r' h')
  then show ?case by (auto simp: ring_malloc_def my_malloc_def panic_def split: if_splits)
next
  case (free r h a r' h')
  then show ?case
    by (auto simp: ring_free_def my_free_def clear_slot_None split: if_splits)
qed

text \<open>
  The ring recycles nothing: in every run no slot ever holds an address, so
  \<^verbatim>\<open>ring_delete\<close> succeeds and releases the ring's own block only; every buffer that
  was not freed by hand stays allocated.
\<close>

theorem ring_delete_leaks:
  assumes "ring_run h0 r h"
  shows "ring_adr r = replicate (length (ring_adr r)) None
    \<and> (\<exists>h'. ring_delete r h = Some h' \<and> live h' = remove1 (ring_self r) (live h))"
  using ring_run_inv [OF assms]
  by (auto simp: ring_delete_def free_slots_None my_free_def list_all_iff intro!: replicate_eqI)

definition two_buffers :: "ring_t \<times> heap" where
  "two_buffers = (\<lparr>ring_n = 2, ring_i = 0, ring_adr = [None, None], ring_self = 7\<rparr>,
     \<lparr>live = [9, 8, 7], fresh = 10, room = 0\<rparr>)"

theorem ring_delete_leaks_witness:
  "\<exists>h'. ring_delete (fst two_buffers) (snd two_buffers) = Some h' \<and> live h' = [9, 8]"
proof -
  let ?h0 = "\<lparr>live = [], fresh = 7, room = 3\<rparr> :: heap"
  have "ring_run ?h0 \<lparr>ring_n = 2, ring_i = 0, ring_adr = [None, None], ring_self = 7\<rparr>
      \<lparr>live = [7], fresh = 8, room = 2\<rparr>"
    by (rule ring_run.new [of 2]) (simp add: ring_new_def my_malloc_def numeral_2_eq_2)
  from ring_run.alloc [OF ring_run.alloc [OF this]]
  have "ring_run ?h0 (fst two_buffers) (snd two_buffers)"
    by (simp add: ring_malloc_def my_malloc_def two_buffers_def)
  from ring_delete_leaks [OF this] show ?thesis by (simp add: two_buffers_def)
qed

end
