(* ===== verification/ConfFile.thy ===== *)
theory ConfFile
  imports Template Misc
begin

text \<open>
  The configuration files of \<^verbatim>\<open>contrib/setup/eval.c\<close>: reading the defaults, the saved
  and the temporary configuration into the table at the start of a request, and writing the
  table to the temporary file at the end of a handler. A path that cannot be opened where the
  code insists ends the request on the panic page (\<open>Inl\<close>, with the final state).
\<close>

definition RC_CONF :: cstring where "RC_CONF = ''/usr/contrib/etc/openblocks.conf''"
definition RC_CONF_DEFAULT :: cstring where
  "RC_CONF_DEFAULT = ''/usr/contrib/etc/defaults/openblocks.conf''"
definition RC_CONF_TMP :: cstring where "RC_CONF_TMP = ''/usr/contrib/etc/tmp.conf''"

lemmas conf_paths = RC_CONF_def RC_CONF_DEFAULT_def RC_CONF_TMP_def

subsection \<open>Reading\<close>

text \<open>The description behind a second number sign, which the table does not keep.\<close>

definition line_desc :: "bool \<Rightarrow> cstring \<Rightarrow> cstring option" where
  "line_desc check_desc inp =
     (if check_desc
      then (case dropWhile (\<lambda>c. c \<noteq> CHR ''#'') inp of
              [] \<Rightarrow> None
            | _ # r \<Rightarrow> (case dropWhile (\<lambda>c. c \<noteq> CHR ''#'') r of [] \<Rightarrow> None | _ # d \<Rightarrow> Some d))
      else None)"

definition read_conf_line :: "32 word \<Rightarrow> bool \<Rightarrow> cstring \<Rightarrow> cgi \<Rightarrow> cgi option" where
  "read_conf_line sw check_desc buf w =
     (if deref buf = CHR ''#'' then Some w
      else do {
        (p, key, _) \<leftarrow> t_token w buf 256;
        if deref p \<noteq> CHR ''='' then Some w
        else do {
          (p, val, _) \<leftarrow> t_token w (tl p) 256;
          let desc = line_desc check_desc p;
          case search_array key 3 of
            Some chk \<Rightarrow> if chk \<noteq> ''___a'' then Some w else Some (putval_withdesc key val desc sw w)
          | None \<Rightarrow>
              (case desc of
                 Some d \<Rightarrow> Some (putval_withdesc key val (Some d) sw w)
               | None \<Rightarrow> Some (putval key val sw w)) } })"

definition read_conf_sub :: "cstring \<Rightarrow> 32 word \<Rightarrow> bool \<Rightarrow> cgi \<Rightarrow> cgi option" where
  "read_conf_sub txt sw check_desc w =
     foldM (\<lambda>l. read_conf_line sw check_desc (c_str l)) (fgets_all 1023 txt) w"

text \<open>The panic page goes behind what was written before, and the program ends.\<close>

definition die :: "cstring \<Rightarrow> cgi \<Rightarrow> cgi + 'a" where
  "die msg w = map_sum (\<lambda>t. w\<lparr>html_out := html_out w @ t\<rparr>) id (panic msg)"

lemma die_eq: "die msg w = Inl (w\<lparr>html_out := html_out w @ ''Content-Type: text/html'' @ [NL, NL] @ ''Panic: '' @ msg @ [NL]\<rparr>)"
  by (simp add: die_def panic_def)

definition read_conf :: "cgi \<Rightarrow> (cgi + cgi) option" where
  "read_conf w =
     (let w = w\<lparr>envtop := []\<rparr> in
      case files w RC_CONF_DEFAULT of
        None \<Rightarrow> Some (die RC_CONF_DEFAULT w)
      | Some txt \<Rightarrow> do {
          w \<leftarrow> read_conf_sub txt 0 True w;
          let w = put_array 0 w;
          case files w RC_CONF of
            None \<Rightarrow> Some (die RC_CONF w)
          | Some txt \<Rightarrow> do {
              w \<leftarrow> read_conf_sub txt 0 False w;
              let w = put_array 0 w;
              case files w RC_CONF_TMP of
                None \<Rightarrow> Some (Inr w)
              | Some txt \<Rightarrow> do {
                  w \<leftarrow> read_conf_sub txt RC_bWRITE False w;
                  Some (Inr (put_array RC_bWRITE w)) } } })"

subsection \<open>Writing\<close>

definition env_line :: "env_entry \<Rightarrow> cstring" where
  "env_line e = env_key e @ ''='' @ [DQ] @ env_val e @ [DQ, NL]"

definition writes :: "bool \<Rightarrow> env_entry \<Rightarrow> bool" where
  "writes sw e \<longleftrightarrow> strncmp_eq (env_key e) ''x_'' 2 \<and>
     (sw \<or> (env_flag e AND RC_bNULL = 0 \<and> strstr (env_key e) ''___T'' = None))"

fun write_conf_loop :: "bool \<Rightarrow> env_entry list \<Rightarrow> nat \<Rightarrow> nat \<Rightarrow> cstring \<Rightarrow> cstring" where
  "write_conf_loop sw [] i j out =
     out @ ''# Key number = '' @ dec (int j) @ '' ('' @ dec (int i) @ '')'' @ [NL]"
| "write_conf_loop sw (e # es) i j out =
     (if \<not> strncmp_eq (env_key e) ''x_'' 2 then write_conf_loop sw es (i + 1) j out
      else if \<not> sw \<and> (env_flag e AND RC_bNULL \<noteq> 0 \<or> strstr (env_key e) ''___T'' \<noteq> None)
      then write_conf_loop sw es (i + 1) j out
      else write_conf_loop sw es (i + 1) (j + 1) (out @ env_line e))"

definition write_conf2 :: "cstring \<Rightarrow> bool \<Rightarrow> cgi \<Rightarrow> cgi + cgi" where
  "write_conf2 file sw w =
     (if \<not> can_write w file then die file w
      else let txt = write_conf_loop sw (envtop w) 0 0 (''# OpenBlockS Auto config'' @ [NL]);
               txt = (if sw then txt @ ''# update val = '' @ dec (uint (is_updateval w)) @ [NL] else txt)
           in Inr (w\<lparr>files := (files w)(file \<mapsto> txt)\<rparr>))"

definition write_conf :: "cgi \<Rightarrow> cgi + cgi" where
  "write_conf w = write_conf2 RC_CONF_TMP False w"

subsection \<open>What is written and what is read\<close>

text \<open>The text of a configuration with the entries \<open>es\<close> and the counters \<open>j\<close>, \<open>i\<close>.\<close>

definition conf_text :: "env_entry list \<Rightarrow> nat \<Rightarrow> cstring" where
  "conf_text es i =
     ''# OpenBlockS Auto config'' @ [NL] @ concat (map env_line es) @
     ''# Key number = '' @ dec (int (length es)) @ '' ('' @ dec (int i) @ '')'' @ [NL]"

lemma write_conf_loop_filter:
  "write_conf_loop sw es i j out =
     out @ concat (map env_line (List.filter (writes sw) es)) @
     ''# Key number = '' @ dec (int (j + length (List.filter (writes sw) es))) @
     '' ('' @ dec (int (i + length es)) @ '')'' @ [NL]"
  by (induction sw es i j out rule: write_conf_loop.induct) (auto simp: writes_def add_ac)

lemma write_conf_text:
  "can_write w RC_CONF_TMP \<Longrightarrow>
   write_conf w = Inr (w\<lparr>files := (files w)(RC_CONF_TMP \<mapsto>
     conf_text (List.filter (writes False) (envtop w)) (length (envtop w)))\<rparr>)"
  by (simp add: write_conf_def write_conf2_def write_conf_loop_filter conf_text_def)

lemma fgets_line_nl:
  "list_all (\<lambda>c. c \<noteq> NL) l \<Longrightarrow> length l < n \<Longrightarrow> fgets_line n (l @ NL # r) = (l @ [NL], r)"
proof (induction l arbitrary: n)
  case Nil
  then show ?case by (cases n) auto
next
  case (Cons c l)
  then show ?case by (cases n) auto
qed

lemma fgets_all_nl:
  "list_all (\<lambda>c. c \<noteq> NL) l \<Longrightarrow> length l < n \<Longrightarrow> fgets_all n (l @ NL # r) = (l @ [NL]) # fgets_all n r"
  by (subst fgets_all.simps) (auto simp: fgets_line_nl)

lemma fgets_all_Nil [simp]: "fgets_all n [] = []"
  by (simp add: fgets_all.simps)

text \<open>Values without a quote, backslash, dollar, newline or NUL are written as they are read.\<close>

definition plain_char :: "char \<Rightarrow> bool" where
  "plain_char c \<longleftrightarrow> c \<notin> {DQ, CHR 0x5C, CHR ''$'', NL, NUL}"

definition entry_ok :: "env_entry \<Rightarrow> bool" where
  "entry_ok e \<longleftrightarrow> list_all is_atom (env_key e) \<and> env_key e \<noteq> [] \<and> length (env_key e) \<le> 255
     \<and> list_all plain_char (env_val e) \<and> length (env_val e) \<le> 760"

lemma esc_plain: "list_all plain_char v \<Longrightarrow> esc v = v"
  by (induction v) (auto simp: plain_char_def)

lemma is_atom_char: "is_atom c \<Longrightarrow> c \<noteq> NL \<and> c \<noteq> NUL \<and> c \<noteq> CHR ''#'' \<and> \<not> isspace c \<and> c \<noteq> DQ"
  by (auto simp: is_atom_def ctype_defs byte_def)

lemma t_token_key:
  assumes "entry_ok e"
  shows "t_token w (env_key e @ CHR ''='' # r) 256 = Some (CHR ''='' # r, env_key e, 256 - int (length (env_key e)))"
proof -
  have k: "list_all is_atom (env_key e)" "env_key e \<noteq> []" "length (env_key e) \<le> 255"
    using assms by (simp_all add: entry_ok_def)
  then have d: "is_atom (deref (env_key e @ CHR ''='' # r))" by (cases "env_key e") auto
  have sp: "dropWhile isspace (env_key e @ CHR ''='' # r) = env_key e @ CHR ''='' # r"
    using is_atom_char [OF d] by (intro dropWhile_deref) simp
  have eq: "\<not> is_atom CHR ''=''" "\<not> isspace CHR ''=''"
    by (simp_all add: is_atom_def ctype_defs byte_def)
  have "token w (env_key e @ CHR ''='' # r) = Some (env_key e, CHR ''='' # r)"
    using is_atom_char [OF d] atom_name [OF k(1) _ k(2), of "CHR ''='' # r"] eq
    unfolding token_def sp by (simp add: Let_def)
  then show ?thesis using k(3) by (simp add: t_token_def)
qed

lemma t_token_val:
  assumes "entry_ok e"
  shows "\<exists>n. t_token w (DQ # env_val e @ DQ # [NL]) 256 = Some ([], take 255 (env_val e), n)"
proof -
  have "token w (DQ # esc (env_val e) @ DQ # [NL]) = Some (env_val e, dropWhile isspace [NL])"
    by (simp add: token_def)
  then have "token w (DQ # env_val e @ DQ # [NL]) = Some (env_val e, [])"
    using assms by (simp add: entry_ok_def esc_plain isspace_def byte_def)
  then show ?thesis by (simp add: t_token_def)
qed

lemma env_line_split: "env_line e = (env_key e @ CHR ''='' # DQ # env_val e @ [DQ]) @ [NL]"
  by (simp add: env_line_def)

lemma read_conf_line_entry:
  assumes "entry_ok e"
  shows "read_conf_line sw False (env_line e) w = Some (putval (env_key e) (take 255 (env_val e)) sw w)"
proof -
  have "deref (env_line e) = deref (env_key e)" "is_atom (deref (env_key e))"
    using assms by (cases "env_key e"; simp add: env_line_def entry_ok_def)+
  then have d: "deref (env_line e) \<noteq> CHR ''#''" using is_atom_char by metis
  obtain n where v: "t_token w (DQ # env_val e @ DQ # [NL]) 256 = Some ([], take 255 (env_val e), n)"
    using t_token_val [OF assms] by blast
  have k: "t_token w (env_line e) 256 =
      Some (CHR ''='' # DQ # env_val e @ DQ # [NL], env_key e, 256 - int (length (env_key e)))"
    using t_token_key [OF assms] by (simp add: env_line_def)
  show ?thesis
    using d k v by (simp add: read_conf_line_def line_desc_def search_array_def)
qed

lemma entry_ok_line:
  assumes "entry_ok e"
  shows "list_all (\<lambda>c. c \<noteq> NL) (env_key e @ CHR ''='' # DQ # env_val e @ [DQ])"
    "length (env_key e @ CHR ''='' # DQ # env_val e @ [DQ]) < 1023" "c_str (env_line e) = env_line e"
proof -
  have k: "c \<in> set (env_key e) \<Longrightarrow> c \<noteq> NL \<and> c \<noteq> NUL" for c
    using assms is_atom_char by (auto simp: entry_ok_def list_all_iff)
  have v: "c \<in> set (env_val e) \<Longrightarrow> c \<noteq> NL \<and> c \<noteq> NUL" for c
    using assms by (auto simp: entry_ok_def list_all_iff plain_char_def)
  show "list_all (\<lambda>c. c \<noteq> NL) (env_key e @ CHR ''='' # DQ # env_val e @ [DQ])"
    using k v by (auto simp: list_all_iff)
  show "length (env_key e @ CHR ''='' # DQ # env_val e @ [DQ]) < 1023"
    using assms by (simp add: entry_ok_def)
  show "c_str (env_line e) = env_line e"
    using k v by (intro c_str_id) (auto simp: is_cstr_def list_all_iff env_line_def)
qed

definition put_read :: "32 word \<Rightarrow> env_entry list \<Rightarrow> cgi \<Rightarrow> cgi" where
  "put_read sw es w = fold (\<lambda>(k, v). putval k v sw) (map (\<lambda>e. (env_key e, take 255 (env_val e))) es) w"

lemma read_lines_entries:
  assumes "list_all entry_ok es"
  shows "foldM (\<lambda>l. read_conf_line sw False (c_str l)) (fgets_all 1023 (concat (map env_line es) @ r)) w =
    foldM (\<lambda>l. read_conf_line sw False (c_str l)) (fgets_all 1023 r) (put_read sw es w)"
  using assms
proof (induction es arbitrary: w)
  case (Cons e es)
  then have e: "entry_ok e" by simp
  have "fgets_all 1023 (env_line e @ s) = env_line e # fgets_all 1023 s" for s
    using fgets_all_nl [OF entry_ok_line(1,2) [OF e]] by (simp add: env_line_split)
  then show ?case
    using Cons entry_ok_line(3) [OF e] read_conf_line_entry [OF e] by (simp add: put_read_def)
qed (simp add: put_read_def)

lemma comment_line:
  assumes "list_all (\<lambda>c. c \<noteq> NL \<and> c \<noteq> NUL) l" "length l < 1000"
  shows "foldM (\<lambda>l. read_conf_line sw chk (c_str l)) (fgets_all 1023 (CHR ''#'' # l @ NL # r)) w =
    foldM (\<lambda>l. read_conf_line sw chk (c_str l)) (fgets_all 1023 r) w"
proof -
  have "list_all (\<lambda>c. c \<noteq> NL) (CHR ''#'' # l)" using assms(1) by (auto simp: list_all_iff)
  moreover have "length (CHR ''#'' # l) < 1023" using assms(2) by simp
  ultimately have f: "fgets_all 1023 (CHR ''#'' # l @ NL # r) = (CHR ''#'' # l @ [NL]) # fgets_all 1023 r"
    using fgets_all_nl [of "CHR ''#'' # l" 1023 r] by simp
  have c: "c_str (CHR ''#'' # l @ [NL]) = CHR ''#'' # l @ [NL]"
    using assms(1) by (intro c_str_id) (auto simp: is_cstr_def list_all_iff)
  show ?thesis unfolding f by (simp only: foldM.simps c) (simp add: read_conf_line_def)
qed

lemma dec_int_plain: "list_all (\<lambda>c. c \<noteq> NL \<and> c \<noteq> NUL) (dec (int n))"
  using dec_nat_digits [of n] by (auto simp: dec_def list_all_iff isdigit_def byte_def)

lemma read_conf_text:
  assumes "list_all entry_ok es" "length es < 10 ^ 100" "n < 10 ^ 100"
  shows "read_conf_sub (conf_text es n) sw False w = Some (put_read sw es w)"
proof -
  have len: "m < 10 ^ 100 \<Longrightarrow> length (dec (int m)) \<le> 100" for m :: nat
    using length_dec_nat [of m 99] by (simp add: dec_def)
  have 1: "list_all (\<lambda>c. c \<noteq> NL \<and> c \<noteq> NUL) '' OpenBlockS Auto config''" by simp
  let ?l = "'' Key number = '' @ dec (int (length es)) @ '' ('' @ dec (int n) @ '')''"
  have 2: "list_all (\<lambda>c. c \<noteq> NL \<and> c \<noteq> NUL) ?l" using dec_int_plain by simp
  have 3: "length ?l < 1000" using len [OF assms(2)] len [OF assms(3)] by simp
  show ?thesis
    using comment_line [OF 1, of sw False "concat (map env_line es) @ CHR ''#'' # ?l @ NL # []" w]
      read_lines_entries [OF assms(1), of sw "CHR ''#'' # ?l @ NL # []" w]
      comment_line [OF 2 3, of sw False "[]" "put_read sw es w"]
    by (simp add: read_conf_sub_def conf_text_def)
qed


definition saved :: "cgi \<Rightarrow> env_entry list" where
  "saved w = List.filter (writes False) (envtop w)"

text \<open>
  C5. The temporary configuration survives the request: what \<^verbatim>\<open>write_conf\<close> wrote is
  read back by \<^verbatim>\<open>read_conf_sub\<close> as the same settings, each value cut to 255 bytes, on
  top of what the reader already had, when its table has no key twice. It needs that the file can be opened,
  that the table has fewer than \<open>10 ^ 100\<close> entries, and that every entry that is written has a
  non-empty name of at most 255 letters, digits and underscores and a value of at most 760 bytes without quote,
  backslash, dollar, newline or NUL; names outside \<^verbatim>\<open>x_\<close>, marked entries and names with
  \<^verbatim>\<open>___T\<close> are not written.
\<close>

theorem write_read_roundtrip:
  assumes "can_write w RC_CONF_TMP" "list_all entry_ok (saved w)" "length (envtop w) < 10 ^ 100" "world_ok v"
  shows "\<exists>w' txt v'. write_conf w = Inr w' \<and> files w' RC_CONF_TMP = Some txt
    \<and> read_conf_sub txt RC_bWRITE False v = Some v' \<and> world_ok v'
    \<and> world_map v' = world_map v ++ map_of (rev (map (\<lambda>e. (env_key e, take 255 (env_val e))) (saved w)))"
proof -
  let ?es = "saved w"
  have len: "length ?es < 10 ^ 100"
    using assms(3) by (auto simp: saved_def intro: le_less_trans [OF length_filter_le])
  let ?kvs = "map (\<lambda>e. (env_key e, take 255 (env_val e))) ?es"
  have "list_all ((\<lambda>k. k \<noteq> []) \<circ> fst) ?kvs"
    using assms(2) by (auto simp: list_all_iff entry_ok_def)
  note m = cs.put_all [OF assms(4) this, where sw = RC_bWRITE]
  show ?thesis
    using write_conf_text [OF assms(1)] read_conf_text [OF assms(2) len assms(3), of RC_bWRITE v] m
    by (simp add: put_read_def saved_def)
qed

definition two_settings :: cgi where
  "two_settings = putval ''x_fw_id___T'' ''4'' 1 (putval ''x_hostname'' ''box'' 1 (putval ''typ'' ''fw'' 0 empty_cgi))"

theorem write_read_roundtrip_witness:
  "\<exists>w' txt v'. write_conf two_settings = Inr w' \<and> files w' RC_CONF_TMP = Some txt
    \<and> read_conf_sub txt RC_bWRITE False empty_cgi = Some v'
    \<and> world_map v' ''x_hostname'' = Some ''box'' \<and> world_map v' ''x_fw_id___T'' = None"
proof -
  have env: "envtop two_settings =
     [\<lparr>env_key = ''typ'', env_val = ''fw'', env_flag = 0\<rparr>, \<lparr>env_key = ''x_hostname'', env_val = ''box'', env_flag = 3\<rparr>,
      \<lparr>env_key = ''x_fw_id___T'', env_val = ''4'', env_flag = 3\<rparr>]"
    by (simp add: two_settings_def putval_def putval_withdesc_def empty_cgi_def put_flag_def rc_flags)
  then have s: "saved two_settings = [\<lparr>env_key = ''x_hostname'', env_val = ''box'', env_flag = 3\<rparr>]"
    by (simp add: saved_def writes_def strncmp_eq_def rc_flags)
  have "can_write two_settings RC_CONF_TMP"
    by (simp add: two_settings_def putval_def putval_withdesc_def empty_cgi_def)
  moreover have "list_all entry_ok (saved two_settings)"
    by (simp add: s entry_ok_def is_atom_def ctype_defs byte_def plain_char_def)
  moreover have "length (envtop two_settings) < 10 ^ 100" by (simp add: env)
  ultimately show ?thesis
    using write_read_roundtrip [of two_settings empty_cgi] s by fastforce
qed

text \<open>
  A value is written as it is: one with a quote and a newline writes the same lines as
  two settings, so the text of one form field becomes a setting of any other name in the next
  request.
\<close>

theorem env_line_injection:
  "env_line \<lparr>env_key = k, env_val = u @ [DQ, NL] @ k2 @ ''='' @ [DQ] @ v, env_flag = f\<rparr> =
     env_line \<lparr>env_key = k, env_val = u, env_flag = f\<rparr> @ env_line \<lparr>env_key = k2, env_val = v, env_flag = f\<rparr>"
  by (simp add: env_line_def)

text \<open>
  \<^verbatim>\<open>read_conf\<close> ends in the panic page exactly when the defaults or the saved
  configuration is missing; the temporary one may be. Whatever was in the table before does
  not matter.
\<close>

lemma putval_withdesc_files [simp]: "files (putval_withdesc k v d sw w) = files w"
  by (simp add: putval_withdesc_def)

lemma read_conf_line_files: "read_conf_line sw c l w = Some v \<Longrightarrow> files v = files w"
proof (cases "deref l = CHR ''#''")
  case False
  assume h: "read_conf_line sw c l w = Some v"
  then obtain p key n where k: "t_token w l 256 = Some (p, key, n)"
    using False by (auto simp: read_conf_line_def bind_eq_Some_conv)
  show ?thesis
  proof (cases "deref p = CHR ''=''")
    case True
    then obtain q val m where "t_token w (tl p) 256 = Some (q, val, m)"
      using False h k by (auto simp: read_conf_line_def bind_eq_Some_conv)
    then show ?thesis
      using False True h k by (auto simp: read_conf_line_def search_array_def Let_def split: option.splits)
  qed (use False h k in \<open>simp add: read_conf_line_def\<close>)
qed (simp add: read_conf_line_def)

lemma read_conf_sub_files: "read_conf_sub t sw c w = Some v \<Longrightarrow> files v = files w"
  unfolding read_conf_sub_def
  by (rule foldM_preserves [where I = "\<lambda>v. files v = files w"]) (auto dest: read_conf_line_files)

lemma put_array_id [simp]: "put_array sw w = w"
proof -
  have "fold (\<lambda>e w. case search_array (env_key e) 2 of None \<Rightarrow> w | Some k \<Rightarrow> w) es v = v" for es and v :: cgi
    by (induction es) (auto simp: search_array_def)
  then show ?thesis by (simp add: put_array_def)
qed

theorem read_conf_panics:
  "(\<exists>m. read_conf w = Some (Inl m)) \<longleftrightarrow>
     files w RC_CONF_DEFAULT = None \<or>
     (files w RC_CONF = None \<and> read_conf_sub (the (files w RC_CONF_DEFAULT)) 0 True (w\<lparr>envtop := []\<rparr>) \<noteq> None)"
proof -
  let ?w = "w\<lparr>envtop := []\<rparr>"
  have f: "files v p = files w p" if "read_conf_sub t sw c ?w = Some v" for t sw c v p
    using read_conf_sub_files [OF that] by simp
  show ?thesis
  proof (cases "files w RC_CONF_DEFAULT")
    case None
    then show ?thesis by (simp add: read_conf_def Let_def die_eq)
  next
    case (Some t)
    show ?thesis
    proof (cases "read_conf_sub t 0 True ?w")
      case None
      then show ?thesis using Some by (simp add: read_conf_def Let_def)
    next
      case v: (Some v)
      then show ?thesis
        using Some f [OF v] by (cases "files w RC_CONF"; cases "files v RC_CONF_TMP")
          (auto simp: read_conf_def Let_def die_eq bind_eq_Some_conv split: option.splits)
    qed
  qed
qed

end
