(* ===== verification/Checks.thy ===== *)
theory Checks
  imports ConfFile
begin

unbundle bit_operations_syntax

text \<open>
  The input checks of \<^verbatim>\<open>contrib/setup/valtab.c\<close>: the checking functions, the table that
  says which of them belongs to which key, and \<^verbatim>\<open>err_chk\<close>, which applies them to the
  changed form fields of a request. A check answers \<open>Some None\<close> for an accepted value,
  \<open>Some (Some msg)\<close> for a rejected one, and \<open>None\<close> when it reads where it must not.
\<close>

type_synonym chk = "cstring \<Rightarrow> cstring \<Rightarrow> cgi \<Rightarrow> cstring option option"

subsection \<open>Checking functions\<close>

text \<open>A byte as the target reads it, with or without a sign.\<close>

definition char_val :: "cgi \<Rightarrow> char \<Rightarrow> int" where
  "char_val w c = (if char_signed w \<and> 128 \<le> byte c then int (byte c) - 256 else int (byte c))"

definition is_unixpath :: chk where
  "is_unixpath key desc w =
     (case getval key w of None \<Rightarrow> None
      | Some p \<Rightarrow> Some (if list_ex (\<lambda>c. char_val w c < 0x20) p
          then Some ([CHR 0xA5, CHR 0xD1, CHR 0xA5, CHR 0xB9, CHR 0xA4, CHR 0xCE, CHR 0xB5, CHR 0xAD, CHR 0xBD, CHR 0xD2, CHR 0xA4, CHR 0xAC, CHR 0xB4, CHR 0xD6, CHR 0xB0, CHR 0xE3, CHR 0xA4, CHR 0xC3, CHR 0xA4, CHR 0xC6, CHR 0xA4, CHR 0xA4, CHR 0xA4, CHR 0xDE, CHR 0xA4, CHR 0xB9])
          else None))"

definition is_hostname :: chk where
  "is_hostname key desc w =
     (case getval key w of None \<Rightarrow> None
      | Some p \<Rightarrow> Some (if list_ex (\<lambda>c. \<not> isalnum c \<and> c \<noteq> CHR ''-'' \<and> c \<noteq> CHR ''.'') p
          then Some ([CHR 0xA5, CHR 0xDB, CHR 0xA5, CHR 0xB9, CHR 0xA5, CHR 0xC8, CHR 0xCC, CHR 0xBE, CHR 0xA4, CHR 0xCE, CHR 0xB5, CHR 0xAD, CHR 0xBD, CHR 0xD2, CHR 0xA4, CHR 0xAC, CHR 0xB4, CHR 0xD6, CHR 0xB0, CHR 0xE3, CHR 0xA4, CHR 0xC3, CHR 0xA4, CHR 0xC6, CHR 0xA4, CHR 0xA4, CHR 0xA4, CHR 0xDE, CHR 0xA4, CHR 0xB9])
          else None))"

text \<open>
  One number of an address: up to seven bytes are read until a dot or the terminator. The
  result holds the bytes and the pointer behind the delimiter, \<open>None\<close> behind the
  terminator.
\<close>

fun ip4_num :: "cstring \<Rightarrow> nat \<Rightarrow> cstring \<Rightarrow> (cstring \<times> cstring option) option" where
  "ip4_num num 0 p = Some (num, Some p)"
| "ip4_num num (Suc n) [] = Some (num, None)"
| "ip4_num num (Suc n) (c # p) =
     (if c = CHR ''.'' then Some (num, Some p)
      else if \<not> isdigit c then None else ip4_num (num @ [c]) n p)"

text \<open>The four rounds; a round that starts behind the terminator has no defined result.\<close>

fun is_ip4_loop :: "nat \<Rightarrow> cstring option \<Rightarrow> bool option" where
  "is_ip4_loop 0 p = Some True"
| "is_ip4_loop (Suc k) None = None"
| "is_ip4_loop (Suc k) (Some p) =
     (case ip4_num [] 7 p of
        None \<Rightarrow> Some False
      | Some (num, q) \<Rightarrow>
          if length num \<ge> 4 \<or> num = [] then Some False
          else case scan_d num of
                 None \<Rightarrow> Some False
               | Some (i, _) \<Rightarrow> if i > 255 then Some False else is_ip4_loop k q)"

definition ip4_err :: "cstring \<Rightarrow> cstring" where
  "ip4_err val = [CHR 0x49, CHR 0x50, CHR 0xA5, CHR 0xA2, CHR 0xA5, CHR 0xC9, CHR 0xA5, CHR 0xEC, CHR 0xA5, CHR 0xB9, CHR 0xA4, CHR 0xCE, CHR 0xB5, CHR 0xAD, CHR 0xBD, CHR 0xD2, CHR 0xA4, CHR 0xAC, CHR 0xB4, CHR 0xD6, CHR 0xB0, CHR 0xE3, CHR 0xA4, CHR 0xC3, CHR 0xA4, CHR 0xC6, CHR 0xA4, CHR 0xA4, CHR 0xA4, CHR 0xDE, CHR 0xA4, CHR 0xB9, CHR 0x20, CHR 0x28] @ val @ '')''"

definition is_ip4 :: chk where
  "is_ip4 key desc w =
     do { val \<leftarrow> getval key w;
          ok \<leftarrow> is_ip4_loop 4 (Some val);
          Some (if ok then None else Some (ip4_err val)) }"

definition is_ip4_2 :: chk where
  "is_ip4_2 key desc w =
     do { p \<leftarrow> getval key w; if strcaseeq p ''ANY'' then Some None else is_ip4 key desc w }"

definition is_numeric :: chk where
  "is_numeric key desc w =
     (case getval key w of None \<Rightarrow> None
      | Some val0 \<Rightarrow> Some (if list_ex (\<lambda>c. \<not> isdigit c \<and> \<not> isspace c) val0
          then Some ([CHR 0xC3, CHR 0xCD, CHR 0xA4, CHR 0xCE, CHR 0xB5, CHR 0xAD, CHR 0xBD, CHR 0xD2, CHR 0xA4, CHR 0xAC, CHR 0xB4, CHR 0xD6, CHR 0xB0, CHR 0xE3, CHR 0xA4, CHR 0xC3, CHR 0xA4, CHR 0xC6, CHR 0xA4, CHR 0xA4, CHR 0xA4, CHR 0xDE, CHR 0xA4, CHR 0xB9, CHR 0x20, CHR 0x28] @ val0 @ '')'')
          else None))"

definition is_port :: chk where
  "is_port key desc w =
     do { p \<leftarrow> getval key w; if strcaseeq p ''ANY'' then Some None else is_numeric key desc w }"

definition is_uid :: chk where
  "is_uid key desc w =
     (let v = getval_int key w in
      if v < 32768 \<or> v > 60000
      then Some (Some ([CHR 0x55, CHR 0x49, CHR 0x44, CHR 0xA4, CHR 0xCF, CHR 0x33, CHR 0x32, CHR 0x37, CHR 0x36, CHR 0x38, CHR 0xA4, CHR 0xAB, CHR 0xA4, CHR 0xE9, CHR 0x36, CHR 0x30, CHR 0x30, CHR 0x30, CHR 0x30, CHR 0xA4, CHR 0xCE, CHR 0xB4, CHR 0xD6, CHR 0xA4, CHR 0xCE, CHR 0xBF, CHR 0xF4, CHR 0xBB, CHR 0xFA, CHR 0xA4, CHR 0xF2, CHR 0xBB, CHR 0xD8, CHR 0xC4, CHR 0xEA, CHR 0xA4, CHR 0xB7, CHR 0xA4, CHR 0xC6, CHR 0xA4, CHR 0xAF, CHR 0xA4, CHR 0xC0, CHR 0xA4, CHR 0xB5, CHR 0xA4, CHR 0xA4]))
      else if getpwuid w v \<noteq> None
      then Some (Some ([CHR 0xA4, CHR 0xBD, CHR 0xA4, CHR 0xCE, CHR 0x55, CHR 0x49, CHR 0x44, CHR 0xA4, CHR 0xCF, CHR 0xA4, CHR 0xB9, CHR 0xA4, CHR 0xC7, CHR 0xA4, CHR 0xCB, CHR 0xBB, CHR 0xC8, CHR 0xA4, CHR 0xEF, CHR 0xA4, CHR 0xEC, CHR 0xA4, CHR 0xC6, CHR 0xA4, CHR 0xA4, CHR 0xA4, CHR 0xDE, CHR 0xA4, CHR 0xB9]))
      else Some None)"

definition is_login :: chk where
  "is_login key desc w =
     (case getval key w of None \<Rightarrow> None
      | Some val \<Rightarrow>
          if length val > 8
          then Some (Some ([CHR 0xC4, CHR 0xB9, CHR 0xA4, CHR 0xB5, CHR 0xA4, CHR 0xCE, CHR 0xC0, CHR 0xA9, CHR 0xB8, CHR 0xC2, CHR 0xA4, CHR 0xF2, CHR 0xB1, CHR 0xDB, CHR 0xA4, CHR 0xA8, CHR 0xA4, CHR 0xC6, CHR 0xA4, CHR 0xA4, CHR 0xA4, CHR 0xDE, CHR 0xA4, CHR 0xB9]))
          else if \<not> isalpha (deref val)
          then Some (Some ([CHR 0xB1, CHR 0xD1, CHR 0xBB, CHR 0xFA, CHR 0xA4, CHR 0xC7, CHR 0xBB, CHR 0xCF, CHR 0xA4, CHR 0xDE, CHR 0xA4, CHR 0xC3, CHR 0xA4, CHR 0xC6, CHR 0xA4, CHR 0xA4, CHR 0xA4, CHR 0xDE, CHR 0xA4, CHR 0xBB, CHR 0xA4, CHR 0xF3]))
          else if list_ex (\<lambda>c. \<not> isalnum c \<and> c \<noteq> CHR ''_'') val
          then Some (Some ([CHR 0xBB, CHR 0xC8, CHR 0xCD, CHR 0xD1, CHR 0xA4, CHR 0xC7, CHR 0xA4, CHR 0xAD, CHR 0xA4, CHR 0xCA, CHR 0xA4, CHR 0xA4, CHR 0xCA, CHR 0xB8, CHR 0xBB, CHR 0xFA, CHR 0xA4, CHR 0xAC, CHR 0xB4, CHR 0xDE, CHR 0xA4, CHR 0xDE, CHR 0xA4, CHR 0xEC, CHR 0xA4, CHR 0xC6, CHR 0xA4, CHR 0xA4, CHR 0xA4, CHR 0xDE, CHR 0xA4, CHR 0xB9]))
          else Some None)"

definition is_print :: chk where
  "is_print key desc w =
     (case getval key w of None \<Rightarrow> None
      | Some val \<Rightarrow> Some (if list_ex (\<lambda>c. \<not> isprint c) val
          then Some (desc @ [CHR 0xA4, CHR 0xCB, CHR 0xBB, CHR 0xC8, CHR 0xA4, CHR 0xA8, CHR 0xA4, CHR 0xCA, CHR 0xA4, CHR 0xA4, CHR 0xCA, CHR 0xB8, CHR 0xBB, CHR 0xFA, CHR 0xA4, CHR 0xAC, CHR 0xB4, CHR 0xDE, CHR 0xA4, CHR 0xDE, CHR 0xA4, CHR 0xEC, CHR 0xA4, CHR 0xC6, CHR 0xA4, CHR 0xA4, CHR 0xA4, CHR 0xDE, CHR 0xA4, CHR 0xB9])
          else None))"

text \<open>
  The address checks of the interfaces store the mode in a \<^verbatim>\<open>char\<close>, so it counts
  modulo 256.
\<close>

definition chk_eth0 :: chk where
  "chk_eth0 key desc w =
     (if my_atoi (getval ''x_eth_typ__eth0'' w) mod 256 = 1 then Some None else is_ip4 key desc w)"

definition chk_eth1 :: chk where
  "chk_eth1 key desc w =
     (if my_atoi (getval ''x_eth_typ__eth1'' w) mod 256 = 1 then Some None else is_ip4 key desc w)"

subsection \<open>The table\<close>

definition VCF_NOTNULL :: "32 word" where "VCF_NOTNULL = 1"
definition VCF_NOTNULL_DHCP0 :: "32 word" where "VCF_NOTNULL_DHCP0 = 2"
definition VCF_NOTNULL_DHCP1 :: "32 word" where "VCF_NOTNULL_DHCP1 = 3"
definition VCF_NOTNULL_V6TUN :: "32 word" where "VCF_NOTNULL_V6TUN = 4"
definition VCF_NODISP :: "32 word" where "VCF_NODISP = 256"

lemmas vcf_defs = VCF_NOTNULL_def VCF_NOTNULL_DHCP0_def VCF_NOTNULL_DHCP1_def VCF_NOTNULL_V6TUN_def
  VCF_NODISP_def

datatype category = VC_SAVE | VC_SYSTEM | VC_USER | VC_NETWORK | VC_MASQ | VC_FW | VC_MISC | VC_HELP
  | VC_DHCPD | VC_SENDMAIL | VC_NAMED | VC_HTTPD | VC_LOGIN | VC_IPV6 | VC_SAMBA

datatype vtab_row =
  VTab (vt_key: cstring) (vt_desc: "cstring option") (vt_err_help: cstring) (vt_category: category)
    (vt_flag: "32 word") (vt_chk: "chk option") (vt_valdesc: "cstring list option")

definition msq_typ :: "cstring list" where
  "msq_typ = ['''', [CHR 0x49, CHR 0x50, CHR 0xA5, CHR 0xDE, CHR 0xA5, CHR 0xB9, CHR 0xA5, CHR 0xAB, CHR 0xA5, CHR 0xEC, CHR 0xA1, CHR 0xBC, CHR 0xA5, CHR 0xC9, CHR 0xA4, CHR 0xF2, CHR 0xBB, CHR 0xC8, CHR 0xCD, CHR 0xD1, CHR 0xA4, CHR 0xB7, CHR 0xA4, CHR 0xCA, CHR 0xA4, CHR 0xA4], ''eth0->eth1'', ''eth1->eth0'']"

definition eth_typ :: "cstring list" where
  "eth_typ = ['''', [CHR 0x44, CHR 0x48, CHR 0x43, CHR 0x50, CHR 0xA4, CHR 0xF2, CHR 0xCD, CHR 0xF8, CHR 0xCD, CHR 0xD1, CHR 0xA4, CHR 0xB9, CHR 0xA4, CHR 0xEB], [CHR 0xBC, CHR 0xEA, CHR 0xC6, CHR 0xB0, CHR 0xA4, CHR 0xC7, CHR 0xBB, CHR 0xD8, CHR 0xC4, CHR 0xEA, CHR 0xA4, CHR 0xB9, CHR 0xA4, CHR 0xEB]]"

definition vtab :: "vtab_row list" where
  "vtab =
     [VTab ''x_user_id'' (Some (''UID'')) '''' VC_USER VCF_NOTNULL (Some is_uid) None,
      VTab ''x_user_login___T'' (Some ([CHR 0xA5, CHR 0xED, CHR 0xA5, CHR 0xB0, CHR 0xA5, CHR 0xA4, CHR 0xA5, CHR 0xF3, CHR 0xCC, CHR 0xBE])) '''' VC_USER VCF_NOTNULL (Some is_login) None,
      VTab ''x_user_name___T'' (Some ([CHR 0xA5, CHR 0xE6, CHR 0xA1, CHR 0xBC, CHR 0xA5, CHR 0xB6, CHR 0xCC, CHR 0xBE])) '''' VC_USER VCF_NOTNULL (Some is_print) None,
      VTab ''x_user_passwd___T'' (Some ([CHR 0xA5, CHR 0xD1, CHR 0xA5, CHR 0xB9, CHR 0xA5, CHR 0xEF, CHR 0xA1, CHR 0xBC, CHR 0xA5, CHR 0xC9])) '''' VC_USER VCF_NOTNULL (Some is_print) None,
      VTab ''x_user_passwd2___T'' (Some ([CHR 0xA5, CHR 0xD1, CHR 0xA5, CHR 0xB9, CHR 0xA5, CHR 0xEF, CHR 0xA1, CHR 0xBC, CHR 0xA5, CHR 0xC9, CHR 0x32])) '''' VC_USER VCF_NOTNULL (Some is_print) None,
      VTab ''x_defaultroute_adr'' (Some ([CHR 0xA5, CHR 0xC7, CHR 0xA5, CHR 0xD5, CHR 0xA5, CHR 0xA9, CHR 0xA5, CHR 0xEB, CHR 0xA5, CHR 0xC8, CHR 0xA5, CHR 0xEB, CHR 0xA1, CHR 0xBC, CHR 0xA5, CHR 0xBF])) '''' VC_NETWORK VCF_NOTNULL (Some is_ip4) None,
      VTab ''x_defaultroute_interface'' (Some ([CHR 0xA5, CHR 0xC7, CHR 0xA5, CHR 0xD5, CHR 0xA5, CHR 0xA9, CHR 0xA5, CHR 0xEB, CHR 0xA5, CHR 0xC8, CHR 0xA5, CHR 0xEB, CHR 0xA1, CHR 0xBC, CHR 0xA5, CHR 0xBF, CHR 0xA5, CHR 0xA4, CHR 0xA5, CHR 0xF3, CHR 0xA5, CHR 0xBF, CHR 0xA5, CHR 0xD5, CHR 0xA5, CHR 0xA7, CHR 0xA1, CHR 0xBC, CHR 0xA5, CHR 0xB9])) '''' VC_NETWORK 0 None None,
      VTab ''x_eth_typ__eth0'' (Some ([CHR 0x65, CHR 0x74, CHR 0x68, CHR 0x30, CHR 0x20, CHR 0xA5, CHR 0xE2, CHR 0xA1, CHR 0xBC, CHR 0xA5, CHR 0xC9])) '''' VC_NETWORK 0 None (Some eth_typ),
      VTab ''x_eth_adr__eth0'' (Some ([CHR 0x65, CHR 0x74, CHR 0x68, CHR 0x30, CHR 0x20, CHR 0x49, CHR 0x50, CHR 0xA5, CHR 0xA2, CHR 0xA5, CHR 0xC9, CHR 0xA5, CHR 0xEC, CHR 0xA5, CHR 0xB9])) '''' VC_NETWORK 0 (Some chk_eth0) None,
      VTab ''x_eth_subnet_mask__eth0'' (Some ([CHR 0x65, CHR 0x74, CHR 0x68, CHR 0x30, CHR 0x20, CHR 0xA5, CHR 0xCD, CHR 0xA5, CHR 0xC3, CHR 0xA5, CHR 0xC8, CHR 0xA5, CHR 0xDE, CHR 0xA5, CHR 0xB9, CHR 0xA5, CHR 0xAF])) '''' VC_NETWORK 0 None None,
      VTab ''x_eth_typ__eth1'' (Some ([CHR 0x65, CHR 0x74, CHR 0x68, CHR 0x31, CHR 0x20, CHR 0xA5, CHR 0xE2, CHR 0xA1, CHR 0xBC, CHR 0xA5, CHR 0xC9])) '''' VC_NETWORK 0 None (Some eth_typ),
      VTab ''x_eth_adr__eth1'' (Some ([CHR 0x65, CHR 0x74, CHR 0x68, CHR 0x31, CHR 0x20, CHR 0x49, CHR 0x50, CHR 0xA5, CHR 0xA2, CHR 0xA5, CHR 0xC9, CHR 0xA5, CHR 0xEC, CHR 0xA5, CHR 0xB9])) '''' VC_NETWORK 0 (Some chk_eth1) None,
      VTab ''x_eth_subnet_mask__eth1'' (Some ([CHR 0x65, CHR 0x74, CHR 0x68, CHR 0x31, CHR 0x20, CHR 0xA5, CHR 0xCD, CHR 0xA5, CHR 0xC3, CHR 0xA5, CHR 0xC8, CHR 0xA5, CHR 0xDE, CHR 0xA5, CHR 0xB9, CHR 0xA5, CHR 0xAF])) '''' VC_NETWORK 0 None None,
      VTab ''x_nameserver3'' (Some ([CHR 0xA5, CHR 0xCD, CHR 0xA1, CHR 0xBC, CHR 0xA5, CHR 0xE0, CHR 0xA5, CHR 0xB5, CHR 0xA1, CHR 0xBC, CHR 0xA5, CHR 0xD0, CHR 0x33])) '''' VC_NETWORK 0 (Some is_ip4) None,
      VTab ''x_nameserver2'' (Some ([CHR 0xA5, CHR 0xCD, CHR 0xA1, CHR 0xBC, CHR 0xA5, CHR 0xE0, CHR 0xA5, CHR 0xB5, CHR 0xA1, CHR 0xBC, CHR 0xA5, CHR 0xD0, CHR 0x32])) '''' VC_NETWORK 0 (Some is_ip4) None,
      VTab ''x_nameserver'' (Some ([CHR 0xA5, CHR 0xCD, CHR 0xA1, CHR 0xBC, CHR 0xA5, CHR 0xE0, CHR 0xA5, CHR 0xB5, CHR 0xA1, CHR 0xBC, CHR 0xA5, CHR 0xD0])) '''' VC_NETWORK 0 (Some is_ip4) None,
      VTab ''x_domain'' (Some ([CHR 0xA5, CHR 0xC9, CHR 0xA5, CHR 0xE1, CHR 0xA5, CHR 0xA4, CHR 0xA5, CHR 0xF3, CHR 0xCC, CHR 0xBE])) '''' VC_NETWORK 0 (Some is_hostname) None,
      VTab ''x_ipv6_enable__eth0'' (Some ([CHR 0x65, CHR 0x74, CHR 0x68, CHR 0x30, CHR 0xA4, CHR 0xCE, CHR 0x49, CHR 0x50, CHR 0x76, CHR 0x36, CHR 0xA4, CHR 0xF2, CHR 0xCD, CHR 0xAD, CHR 0xB8, CHR 0xFA, CHR 0xA4, CHR 0xCB, CHR 0xA4, CHR 0xB9, CHR 0xA4, CHR 0xEB])) '''' VC_IPV6 0 None None,
      VTab ''x_ipv6_enable__eth1'' (Some ([CHR 0x65, CHR 0x74, CHR 0x68, CHR 0x31, CHR 0xA4, CHR 0xCE, CHR 0x49, CHR 0x50, CHR 0x76, CHR 0x36, CHR 0xA4, CHR 0xF2, CHR 0xCD, CHR 0xAD, CHR 0xB8, CHR 0xFA, CHR 0xA4, CHR 0xCB, CHR 0xA4, CHR 0xB9, CHR 0xA4, CHR 0xEB])) '''' VC_IPV6 0 None None,
      VTab ''x_ipv6_prefix__eth0'' (Some ([CHR 0x65, CHR 0x74, CHR 0x68, CHR 0x30, CHR 0xA4, CHR 0xCE, CHR 0x70, CHR 0x72, CHR 0x65, CHR 0x66, CHR 0x69, CHR 0x78])) '''' VC_IPV6 0 None None,
      VTab ''x_ipv6_prefix__eth1'' (Some ([CHR 0x65, CHR 0x74, CHR 0x68, CHR 0x31, CHR 0xA4, CHR 0xCE, CHR 0x70, CHR 0x72, CHR 0x65, CHR 0x66, CHR 0x69, CHR 0x78])) '''' VC_IPV6 0 None None,
      VTab ''x_ipv6_local__eth0'' (Some ([CHR 0x65, CHR 0x74, CHR 0x68, CHR 0x30, CHR 0xA4, CHR 0xCE, CHR 0x6C, CHR 0x6F, CHR 0x63, CHR 0x61, CHR 0x6C, CHR 0x20, CHR 0x61, CHR 0x64, CHR 0x64, CHR 0x72, CHR 0x65, CHR 0x73, CHR 0x73])) '''' VC_IPV6 0 None None,
      VTab ''x_ipv6_local__eth1'' (Some ([CHR 0x65, CHR 0x74, CHR 0x68, CHR 0x31, CHR 0xA4, CHR 0xCE, CHR 0x6C, CHR 0x6F, CHR 0x63, CHR 0x61, CHR 0x6C, CHR 0x20, CHR 0x61, CHR 0x64, CHR 0x64, CHR 0x72, CHR 0x65, CHR 0x73, CHR 0x73])) '''' VC_IPV6 0 None None,
      VTab ''x_ipv6_tunnel'' (Some ([CHR 0x49, CHR 0x50, CHR 0x76, CHR 0x34, CHR 0x20, CHR 0x6F, CHR 0x76, CHR 0x65, CHR 0x72, CHR 0x20, CHR 0x49, CHR 0x50, CHR 0x76, CHR 0x36, CHR 0xA5, CHR 0xC8, CHR 0xA5, CHR 0xF3, CHR 0xA5, CHR 0xCD, CHR 0xA5, CHR 0xEB, CHR 0xA4, CHR 0xF2, CHR 0xBB, CHR 0xC8, CHR 0xCD, CHR 0xD1, CHR 0xA4, CHR 0xB9, CHR 0xA4, CHR 0xEB])) '''' VC_IPV6 0 None None,
      VTab ''x_ipv6_tunnel_here'' (Some ([CHR 0xA5, CHR 0xC8, CHR 0xA5, CHR 0xF3, CHR 0xA5, CHR 0xCD, CHR 0xA5, CHR 0xEB, CHR 0xBC, CHR 0xAB, CHR 0xCA, CHR 0xAC, CHR 0xC2, CHR 0xA6, CHR 0x49, CHR 0x50, CHR 0x76, CHR 0x34, CHR 0xA5, CHR 0xA2, CHR 0xA5, CHR 0xC9, CHR 0xA5, CHR 0xEC, CHR 0xA5, CHR 0xB9])) '''' VC_IPV6 VCF_NOTNULL_V6TUN (Some is_ip4) None,
      VTab ''x_ipv6_tunnel_there'' (Some ([CHR 0xA5, CHR 0xC8, CHR 0xA5, CHR 0xF3, CHR 0xA5, CHR 0xCD, CHR 0xA5, CHR 0xEB, CHR 0xC1, CHR 0xEA, CHR 0xBC, CHR 0xEA, CHR 0xC2, CHR 0xA6, CHR 0x49, CHR 0x50, CHR 0x76, CHR 0x34, CHR 0xA5, CHR 0xA2, CHR 0xA5, CHR 0xC9, CHR 0xA5, CHR 0xEC, CHR 0xA5, CHR 0xB9])) '''' VC_IPV6 VCF_NOTNULL_V6TUN (Some is_ip4) None,
      VTab ''x_hostname'' (Some ([CHR 0xA5, CHR 0xDB, CHR 0xA5, CHR 0xB9, CHR 0xA5, CHR 0xC8, CHR 0xCC, CHR 0xBE])) '''' VC_SYSTEM VCF_NOTNULL (Some is_hostname) None,
      VTab ''x_domainname'' (Some ([CHR 0xA5, CHR 0xC9, CHR 0xA5, CHR 0xE1, CHR 0xA5, CHR 0xA4, CHR 0xA5, CHR 0xF3, CHR 0xCC, CHR 0xBE])) '''' VC_SYSTEM VCF_NOTNULL (Some is_hostname) None,
      VTab ''x_year'' (Some ([CHR 0xC7, CHR 0xAF])) '''' VC_SYSTEM 0 None None,
      VTab ''x_mon'' (Some ([CHR 0xB7, CHR 0xEE])) '''' VC_SYSTEM 0 None None,
      VTab ''x_mday'' (Some ([CHR 0xC6, CHR 0xFC])) '''' VC_SYSTEM 0 None None,
      VTab ''x_hour'' (Some ([CHR 0xBB, CHR 0xFE])) '''' VC_SYSTEM 0 None None,
      VTab ''x_min'' (Some ([CHR 0xCA, CHR 0xAC])) '''' VC_SYSTEM 0 None None,
      VTab ''x_sec'' (Some ([CHR 0xC9, CHR 0xC3])) '''' VC_SYSTEM 0 None None,
      VTab ''x_ntp_hostname'' (Some ([CHR 0xA3, CHR 0xCE, CHR 0xA3, CHR 0xD4, CHR 0xA3, CHR 0xD0, CHR 0xA5, CHR 0xB5, CHR 0xA1, CHR 0xBC, CHR 0xA5, CHR 0xD0])) '''' VC_SYSTEM 0 (Some is_ip4) None,
      VTab ''x_msq_typ'' (Some ([CHR 0x49, CHR 0x50, CHR 0xA5, CHR 0xDE, CHR 0xA5, CHR 0xB9, CHR 0xA5, CHR 0xAB, CHR 0xA5, CHR 0xEC, CHR 0xA1, CHR 0xBC, CHR 0xA5, CHR 0xC9])) '''' VC_MASQ VCF_NOTNULL None (Some msq_typ),
      VTab ''x_portfw_id'' (None) '''' VC_FW VCF_NOTNULL None None,
      VTab ''x_portfw_proto___T'' (None) '''' VC_FW VCF_NOTNULL None None,
      VTab ''x_portfw_interface___T'' (None) '''' VC_FW VCF_NOTNULL None None,
      VTab ''x_portfw_src_port___T'' (Some (''source port'')) '''' VC_FW VCF_NOTNULL (Some is_numeric) None,
      VTab ''x_portfw_dst_ip___T'' (Some (''destination IP'')) '''' VC_FW VCF_NOTNULL (Some is_ip4) None,
      VTab ''x_portfw_dst_port___T'' (Some (''destination port'')) '''' VC_FW VCF_NOTNULL (Some is_numeric) None,
      VTab ''x_fw_id'' (None) '''' VC_FW VCF_NOTNULL None None,
      VTab ''x_fw_proto___T'' (None) '''' VC_FW VCF_NOTNULL None None,
      VTab ''x_fw_src_ip___T'' (Some (''source IP'')) '''' VC_FW VCF_NOTNULL (Some is_ip4_2) None,
      VTab ''x_fw_src_subnet_mask___T'' (None) '''' VC_FW VCF_NOTNULL None None,
      VTab ''x_fw_src_port___T'' (Some (''source port'')) '''' VC_FW VCF_NOTNULL (Some is_port) None,
      VTab ''x_fw_dst_ip___T'' (Some (''destination ip'')) '''' VC_FW VCF_NOTNULL (Some is_ip4_2) None,
      VTab ''x_fw_dst_subnet_mask___T'' (None) '''' VC_FW VCF_NOTNULL None None,
      VTab ''x_fw_dst_port___T'' (Some (''destination port'')) '''' VC_FW VCF_NOTNULL (Some is_port) None,
      VTab ''x_fw_action___T'' (Some ([CHR 0xC6, CHR 0xB0, CHR 0xBA, CHR 0xEE])) '''' VC_FW VCF_NOTNULL None None,
      VTab ''x_dhcpd_enable'' (Some ([CHR 0x64, CHR 0x68, CHR 0x63, CHR 0x70, CHR 0x64, CHR 0xA4, CHR 0xF2, CHR 0xBB, CHR 0xC8, CHR 0xCD, CHR 0xD1, CHR 0xA4, CHR 0xB9, CHR 0xA4, CHR 0xEB])) '''' VC_DHCPD VCF_NOTNULL None None,
      VTab ''x_dhcpd_eth0_enable'' (Some ([CHR 0x65, CHR 0x74, CHR 0x68, CHR 0x30, CHR 0xC2, CHR 0xA6, CHR 0xA4, CHR 0xC7, CHR 0x64, CHR 0x68, CHR 0x63, CHR 0x70, CHR 0x64, CHR 0xA4, CHR 0xF2, CHR 0xBB, CHR 0xC8, CHR 0xCD, CHR 0xD1, CHR 0xA4, CHR 0xB9, CHR 0xA4, CHR 0xEB])) '''' VC_DHCPD VCF_NOTNULL None None,
      VTab ''x_dhcpd_eth0_range1'' (Some ([CHR 0x65, CHR 0x74, CHR 0x68, CHR 0x30, CHR 0x20, CHR 0xC8, CHR 0xCF, CHR 0xB0, CHR 0xCF])) '''' VC_DHCPD VCF_NOTNULL_DHCP0 (Some is_ip4) None,
      VTab ''x_dhcpd_eth0_range2'' (Some ([CHR 0x65, CHR 0x74, CHR 0x68, CHR 0x30, CHR 0x20, CHR 0xC8, CHR 0xCF, CHR 0xB0, CHR 0xCF])) '''' VC_DHCPD VCF_NOTNULL_DHCP0 (Some is_ip4) None,
      VTab ''x_dhcpd_eth0_nameserver'' (Some ([CHR 0x65, CHR 0x74, CHR 0x68, CHR 0x30, CHR 0x20, CHR 0xA5, CHR 0xCD, CHR 0xA1, CHR 0xBC, CHR 0xA5, CHR 0xE0, CHR 0xA5, CHR 0xB5, CHR 0xA1, CHR 0xBC, CHR 0xA5, CHR 0xD0])) '''' VC_DHCPD 0 (Some is_ip4) None,
      VTab ''x_dhcpd_eth0_domainname'' (Some ([CHR 0x65, CHR 0x74, CHR 0x68, CHR 0x30, CHR 0x20, CHR 0xA5, CHR 0xC9, CHR 0xA5, CHR 0xE1, CHR 0xA5, CHR 0xA4, CHR 0xA5, CHR 0xF3, CHR 0xCC, CHR 0xBE])) '''' VC_DHCPD 0 (Some is_hostname) None,
      VTab ''x_dhcpd_eth0_routers'' (Some ([CHR 0x65, CHR 0x74, CHR 0x68, CHR 0x31, CHR 0x20, CHR 0xA5, CHR 0xB2, CHR 0xA1, CHR 0xBC, CHR 0xA5, CHR 0xC8, CHR 0xA5, CHR 0xA6, CHR 0xA5, CHR 0xA7, CHR 0xA5, CHR 0xA4])) '''' VC_DHCPD 0 (Some is_ip4) None,
      VTab ''x_dhcpd_eth0_subnet_mask'' (Some ([CHR 0x65, CHR 0x74, CHR 0x68, CHR 0x31, CHR 0x20, CHR 0xA5, CHR 0xCD, CHR 0xA5, CHR 0xC3, CHR 0xA5, CHR 0xC8, CHR 0xA5, CHR 0xDE, CHR 0xA5, CHR 0xB9, CHR 0xA5, CHR 0xAF])) '''' VC_DHCPD 0 None None,
      VTab ''x_dhcpd_eth1_enable'' (Some ([CHR 0x65, CHR 0x74, CHR 0x68, CHR 0x31, CHR 0xC2, CHR 0xA6, CHR 0xA4, CHR 0xC7, CHR 0x64, CHR 0x68, CHR 0x63, CHR 0x70, CHR 0x64, CHR 0xA4, CHR 0xF2, CHR 0xBB, CHR 0xC8, CHR 0xCD, CHR 0xD1, CHR 0xA4, CHR 0xB9, CHR 0xA4, CHR 0xEB])) '''' VC_DHCPD VCF_NOTNULL None None,
      VTab ''x_dhcpd_eth1_range1'' (Some ([CHR 0x65, CHR 0x74, CHR 0x68, CHR 0x31, CHR 0x20, CHR 0xC8, CHR 0xCF, CHR 0xB0, CHR 0xCF])) '''' VC_DHCPD VCF_NOTNULL_DHCP1 (Some is_ip4) None,
      VTab ''x_dhcpd_eth1_range2'' (Some ([CHR 0x65, CHR 0x74, CHR 0x68, CHR 0x31, CHR 0x20, CHR 0xC8, CHR 0xCF, CHR 0xB0, CHR 0xCF])) '''' VC_DHCPD VCF_NOTNULL_DHCP1 (Some is_ip4) None,
      VTab ''x_dhcpd_eth1_nameserver'' (Some ([CHR 0x65, CHR 0x74, CHR 0x68, CHR 0x31, CHR 0x20, CHR 0xA5, CHR 0xCD, CHR 0xA1, CHR 0xBC, CHR 0xA5, CHR 0xE0, CHR 0xA5, CHR 0xB5, CHR 0xA1, CHR 0xBC, CHR 0xA5, CHR 0xD0])) '''' VC_DHCPD 0 (Some is_ip4) None,
      VTab ''x_dhcpd_eth1_domainname'' (Some ([CHR 0x65, CHR 0x74, CHR 0x68, CHR 0x31, CHR 0x20, CHR 0xA5, CHR 0xC9, CHR 0xA5, CHR 0xE1, CHR 0xA5, CHR 0xA4, CHR 0xA5, CHR 0xF3, CHR 0xCC, CHR 0xBE])) '''' VC_DHCPD 0 (Some is_hostname) None,
      VTab ''x_dhcpd_eth1_routers'' (Some ([CHR 0x65, CHR 0x74, CHR 0x68, CHR 0x31, CHR 0x20, CHR 0xA5, CHR 0xB2, CHR 0xA1, CHR 0xBC, CHR 0xA5, CHR 0xC8, CHR 0xA5, CHR 0xA6, CHR 0xA5, CHR 0xA7, CHR 0xA5, CHR 0xA4])) '''' VC_DHCPD 0 (Some is_ip4) None,
      VTab ''x_dhcpd_eth1_subnet_mask'' (Some ([CHR 0x65, CHR 0x74, CHR 0x68, CHR 0x31, CHR 0x20, CHR 0xA5, CHR 0xCD, CHR 0xA5, CHR 0xC3, CHR 0xA5, CHR 0xC8, CHR 0xA5, CHR 0xDE, CHR 0xA5, CHR 0xB9, CHR 0xA5, CHR 0xAF])) '''' VC_DHCPD 0 None None,
      VTab ''x_dhcpd_enable__eth0'' (Some ([CHR 0x65, CHR 0x74, CHR 0x68, CHR 0x30, CHR 0xC2, CHR 0xA6, CHR 0xA4, CHR 0xC7, CHR 0x64, CHR 0x68, CHR 0x63, CHR 0x70, CHR 0x64, CHR 0xA4, CHR 0xF2, CHR 0xBB, CHR 0xC8, CHR 0xCD, CHR 0xD1, CHR 0xA4, CHR 0xB9, CHR 0xA4, CHR 0xEB])) '''' VC_DHCPD VCF_NOTNULL None None,
      VTab ''x_dhcpd_range1__eth0'' (Some ([CHR 0x65, CHR 0x74, CHR 0x68, CHR 0x30, CHR 0x20, CHR 0xC8, CHR 0xCF, CHR 0xB0, CHR 0xCF])) '''' VC_DHCPD VCF_NOTNULL_DHCP0 (Some is_ip4) None,
      VTab ''x_dhcpd_range2__eth0'' (Some ([CHR 0x65, CHR 0x74, CHR 0x68, CHR 0x30, CHR 0x20, CHR 0xC8, CHR 0xCF, CHR 0xB0, CHR 0xCF])) '''' VC_DHCPD VCF_NOTNULL_DHCP0 (Some is_ip4) None,
      VTab ''x_dhcpd_nameserver__eth0'' (Some ([CHR 0x65, CHR 0x74, CHR 0x68, CHR 0x30, CHR 0x20, CHR 0xA5, CHR 0xCD, CHR 0xA1, CHR 0xBC, CHR 0xA5, CHR 0xE0, CHR 0xA5, CHR 0xB5, CHR 0xA1, CHR 0xBC, CHR 0xA5, CHR 0xD0])) '''' VC_DHCPD 0 (Some is_ip4) None,
      VTab ''x_dhcpd_domainname__eth0'' (Some ([CHR 0x65, CHR 0x74, CHR 0x68, CHR 0x30, CHR 0x20, CHR 0xA5, CHR 0xC9, CHR 0xA5, CHR 0xE1, CHR 0xA5, CHR 0xA4, CHR 0xA5, CHR 0xF3, CHR 0xCC, CHR 0xBE])) '''' VC_DHCPD 0 (Some is_hostname) None,
      VTab ''x_dhcpd_routers__eth0'' (Some ([CHR 0x65, CHR 0x74, CHR 0x68, CHR 0x30, CHR 0x20, CHR 0xA5, CHR 0xB2, CHR 0xA1, CHR 0xBC, CHR 0xA5, CHR 0xC8, CHR 0xA5, CHR 0xA6, CHR 0xA5, CHR 0xA7, CHR 0xA5, CHR 0xA4])) '''' VC_DHCPD 0 (Some is_ip4) None,
      VTab ''x_dhcpd_subnet_mask__eth0'' (Some ([CHR 0x65, CHR 0x74, CHR 0x68, CHR 0x30, CHR 0x20, CHR 0xA5, CHR 0xCD, CHR 0xA5, CHR 0xC3, CHR 0xA5, CHR 0xC8, CHR 0xA5, CHR 0xDE, CHR 0xA5, CHR 0xB9, CHR 0xA5, CHR 0xAF])) '''' VC_DHCPD 0 (Some is_ip4) None,
      VTab ''x_dhcpd_enable__eth1'' (Some ([CHR 0x65, CHR 0x74, CHR 0x68, CHR 0x31, CHR 0xC2, CHR 0xA6, CHR 0xA4, CHR 0xC7, CHR 0x64, CHR 0x68, CHR 0x63, CHR 0x70, CHR 0x64, CHR 0xA4, CHR 0xF2, CHR 0xBB, CHR 0xC8, CHR 0xCD, CHR 0xD1, CHR 0xA4, CHR 0xB9, CHR 0xA4, CHR 0xEB])) '''' VC_DHCPD VCF_NOTNULL None None,
      VTab ''x_dhcpd_range1__eth1'' (Some ([CHR 0x65, CHR 0x74, CHR 0x68, CHR 0x31, CHR 0x20, CHR 0xC8, CHR 0xCF, CHR 0xB0, CHR 0xCF])) '''' VC_DHCPD VCF_NOTNULL_DHCP1 (Some is_ip4) None,
      VTab ''x_dhcpd_range2__eth1'' (Some ([CHR 0x65, CHR 0x74, CHR 0x68, CHR 0x31, CHR 0x20, CHR 0xC8, CHR 0xCF, CHR 0xB0, CHR 0xCF])) '''' VC_DHCPD VCF_NOTNULL_DHCP1 (Some is_ip4) None,
      VTab ''x_dhcpd_nameserver__eth1'' (Some ([CHR 0x65, CHR 0x74, CHR 0x68, CHR 0x31, CHR 0x20, CHR 0xA5, CHR 0xCD, CHR 0xA1, CHR 0xBC, CHR 0xA5, CHR 0xE0, CHR 0xA5, CHR 0xB5, CHR 0xA1, CHR 0xBC, CHR 0xA5, CHR 0xD0])) '''' VC_DHCPD 0 (Some is_ip4) None,
      VTab ''x_dhcpd_domainname__eth1'' (Some ([CHR 0x65, CHR 0x74, CHR 0x68, CHR 0x31, CHR 0x20, CHR 0xA5, CHR 0xC9, CHR 0xA5, CHR 0xE1, CHR 0xA5, CHR 0xA4, CHR 0xA5, CHR 0xF3, CHR 0xCC, CHR 0xBE])) '''' VC_DHCPD 0 (Some is_hostname) None,
      VTab ''x_dhcpd_routers__eth1'' (Some ([CHR 0x65, CHR 0x74, CHR 0x68, CHR 0x31, CHR 0x20, CHR 0xA5, CHR 0xB2, CHR 0xA1, CHR 0xBC, CHR 0xA5, CHR 0xC8, CHR 0xA5, CHR 0xA6, CHR 0xA5, CHR 0xA7, CHR 0xA5, CHR 0xA4])) '''' VC_DHCPD 0 (Some is_ip4) None,
      VTab ''x_dhcpd_subnet_mask__eth1'' (Some ([CHR 0x65, CHR 0x74, CHR 0x68, CHR 0x31, CHR 0x20, CHR 0xA5, CHR 0xCD, CHR 0xA5, CHR 0xC3, CHR 0xA5, CHR 0xC8, CHR 0xA5, CHR 0xDE, CHR 0xA5, CHR 0xB9, CHR 0xA5, CHR 0xAF])) '''' VC_DHCPD 0 None None,
      VTab ''x_sendmail_enable'' (Some ([CHR 0x73, CHR 0x65, CHR 0x6E, CHR 0x64, CHR 0x6D, CHR 0x61, CHR 0x69, CHR 0x6C, CHR 0xA4, CHR 0xF2, CHR 0xBB, CHR 0xC8, CHR 0xCD, CHR 0xD1, CHR 0xA4, CHR 0xB9, CHR 0xA4, CHR 0xEB])) '''' VC_SENDMAIL VCF_NOTNULL None None,
      VTab ''x_sendmail_my_official_smtp_hostname'' (Some ([CHR 0xA5, CHR 0xDB, CHR 0xA5, CHR 0xB9, CHR 0xA5, CHR 0xC8, CHR 0xCC, CHR 0xBE, CHR 0x28, CHR 0x46, CHR 0x51, CHR 0x44, CHR 0x4E, CHR 0x29])) '''' VC_SENDMAIL VCF_NOTNULL (Some is_hostname) None,
      VTab ''x_sendmail_local_domain_name'' (Some ([CHR 0xA5, CHR 0xC9, CHR 0xA5, CHR 0xE1, CHR 0xA5, CHR 0xA4, CHR 0xA5, CHR 0xF3, CHR 0xCC, CHR 0xBE])) '''' VC_SENDMAIL VCF_NOTNULL (Some is_hostname) None,
      VTab ''x_sendmail_domain_alias1'' (Some ([CHR 0xCA, CHR 0xCC, CHR 0xCC, CHR 0xBE, CHR 0xA5, CHR 0xC9, CHR 0xA5, CHR 0xE1, CHR 0xA5, CHR 0xA4, CHR 0xA5, CHR 0xF3, CHR 0xCC, CHR 0xBE])) '''' VC_SENDMAIL 0 (Some is_hostname) None,
      VTab ''x_sendmail_relay_id'' (None) '''' VC_SENDMAIL VCF_NOTNULL None None,
      VTab ''x_sendmail_relay___T'' (Some ([CHR 0xA5, CHR 0xEA, CHR 0xA5, CHR 0xEC, CHR 0xA1, CHR 0xBC, CHR 0xB5, CHR 0xF6, CHR 0xB2, CHR 0xC4, CHR 0xA5, CHR 0xDB, CHR 0xA5, CHR 0xB9, CHR 0xA5, CHR 0xC8])) '''' VC_SENDMAIL VCF_NOTNULL (Some is_hostname) None,
      VTab ''x_named_enable'' (Some ([CHR 0x6E, CHR 0x61, CHR 0x6D, CHR 0x65, CHR 0x64, CHR 0xA4, CHR 0xF2, CHR 0xBB, CHR 0xC8, CHR 0xCD, CHR 0xD1, CHR 0xA4, CHR 0xB9, CHR 0xA4, CHR 0xEB])) '''' VC_NAMED VCF_NOTNULL None None,
      VTab ''x_named_zone_id'' (None) '''' VC_NAMED VCF_NOTNULL None None,
      VTab ''x_named_zone_name___T'' (Some ([CHR 0xA5, CHR 0xBE, CHR 0xA1, CHR 0xBC, CHR 0xA5, CHR 0xF3, CHR 0xCC, CHR 0xBE])) '''' VC_NAMED VCF_NOTNULL (Some is_hostname) None,
      VTab ''x_named_zone_typ___T'' (None) '''' VC_NAMED VCF_NOTNULL None None,
      VTab ''x_named_zone_record_id'' (None) '''' VC_NAMED VCF_NOTNULL None None,
      VTab ''x_named_zone_record_domain___T'' (Some ([CHR 0xA5, CHR 0xEC, CHR 0xA5, CHR 0xB3, CHR 0xA1, CHR 0xBC, CHR 0xA5, CHR 0xC9])) '''' VC_NAMED 0 (Some is_hostname) None,
      VTab ''x_named_zone_record_typ___T'' (Some ([CHR 0xA5, CHR 0xEC, CHR 0xA5, CHR 0xB3, CHR 0xA1, CHR 0xBC, CHR 0xA5, CHR 0xC9, CHR 0xBC, CHR 0xEF, CHR 0xCA, CHR 0xCC])) '''' VC_NAMED VCF_NOTNULL None None,
      VTab ''x_named_zone_record_resource___T'' (Some ([CHR 0xA5, CHR 0xEC, CHR 0xA5, CHR 0xB3, CHR 0xA1, CHR 0xBC, CHR 0xA5, CHR 0xC9])) '''' VC_NAMED VCF_NOTNULL None None,
      VTab ''x_named_zone_soa_mname__'' (Some ([CHR 0xA5, CHR 0xDB, CHR 0xA5, CHR 0xB9, CHR 0xA5, CHR 0xC8, CHR 0xCC, CHR 0xBE])) '''' VC_NAMED VCF_NOTNULL (Some is_hostname) None,
      VTab ''x_named_zone_soa_rname__'' (Some ([CHR 0xA5, CHR 0xE1, CHR 0xA1, CHR 0xBC, CHR 0xA5, CHR 0xEB, CHR 0xA1, CHR 0xA6, CHR 0xA5, CHR 0xA2, CHR 0xA5, CHR 0xC9, CHR 0xA5, CHR 0xEC, CHR 0xA5, CHR 0xB9])) '''' VC_NAMED VCF_NOTNULL (Some is_hostname) None,
      VTab ''x_named_zone_master__'' (Some ([CHR 0xA5, CHR 0xDE, CHR 0xA5, CHR 0xB9, CHR 0xA5, CHR 0xBF, CHR 0x44, CHR 0x4E, CHR 0x53, CHR 0xA5, CHR 0xB5, CHR 0xA1, CHR 0xBC, CHR 0xA5, CHR 0xD0])) '''' VC_NAMED VCF_NOTNULL (Some is_ip4) None,
      VTab ''x_httpd_enable'' (Some ([CHR 0x68, CHR 0x74, CHR 0x74, CHR 0x70, CHR 0x64, CHR 0xA4, CHR 0xF2, CHR 0xBB, CHR 0xC8, CHR 0xCD, CHR 0xD1, CHR 0xA4, CHR 0xB9, CHR 0xA4, CHR 0xEB])) '''' VC_HTTPD VCF_NOTNULL None None,
      VTab ''x_httpd_chroot'' (Some ([CHR 0x44, CHR 0x61, CHR 0x74, CHR 0x61, CHR 0x20, CHR 0x44, CHR 0x69, CHR 0x65, CHR 0x63, CHR 0x74, CHR 0x6F, CHR 0x72, CHR 0x79, CHR 0x20, CHR 0xA4, CHR 0xCB, CHR 0x20, CHR 0x63, CHR 0x68, CHR 0x72, CHR 0x6F, CHR 0x6F, CHR 0x74, CHR 0x20, CHR 0xA4, CHR 0xB9, CHR 0xA4, CHR 0xEB])) '''' VC_HTTPD VCF_NOTNULL None None,
      VTab ''x_httpd_dir'' (Some (''dir='')) '''' VC_HTTPD VCF_NOTNULL (Some is_unixpath) None,
      VTab ''x_httpd_cgipat'' (Some (''cgipat='')) '''' VC_HTTPD VCF_NOTNULL (Some is_unixpath) None,
      VTab ''x_httpd_logfile'' (Some (''logfile='')) '''' VC_HTTPD VCF_NOTNULL (Some is_unixpath) None,
      VTab ''x_samba_enable'' (Some ([CHR 0x73, CHR 0x61, CHR 0x6D, CHR 0x62, CHR 0x61, CHR 0xA4, CHR 0xF2, CHR 0xBB, CHR 0xC8, CHR 0xCD, CHR 0xD1, CHR 0xA4, CHR 0xB9, CHR 0xA4, CHR 0xEB])) '''' VC_SAMBA VCF_NOTNULL None None,
      VTab ''x_samba_workgroup'' (Some ([CHR 0xA5, CHR 0xEF, CHR 0xA1, CHR 0xBC, CHR 0xA5, CHR 0xAF, CHR 0xA5, CHR 0xB0, CHR 0xA5, CHR 0xEB, CHR 0xA1, CHR 0xBC, CHR 0xA5, CHR 0xD7, CHR 0xCC, CHR 0xBE])) '''' VC_SAMBA VCF_NOTNULL (Some is_hostname) None,
      VTab ''x_samba_nmbd_enable'' (Some ([CHR 0x6E, CHR 0x6D, CHR 0x62, CHR 0x64, CHR 0xA4, CHR 0xF2, CHR 0xBB, CHR 0xC8, CHR 0xCD, CHR 0xD1, CHR 0xA4, CHR 0xB9, CHR 0xA4, CHR 0xEB])) '''' VC_SAMBA VCF_NOTNULL None None,
      VTab ''x_netatalk_enable'' (Some ([CHR 0x4E, CHR 0x45, CHR 0x54, CHR 0x41, CHR 0x54, CHR 0x41, CHR 0x4C, CHR 0x4B, CHR 0xA4, CHR 0xF2, CHR 0xBB, CHR 0xC8, CHR 0xCD, CHR 0xD1, CHR 0xA4, CHR 0xB9, CHR 0xA4, CHR 0xEB])) '''' VC_SAMBA VCF_NOTNULL None None,
      VTab ''x_login'' (None) '''' VC_LOGIN (VCF_NOTNULL OR VCF_NODISP) None None,
      VTab ''x_passwd'' (None) '''' VC_LOGIN (VCF_NOTNULL OR VCF_NODISP) None None,
      VTab ''x_key'' (None) '''' VC_LOGIN 0 None None]"

definition vt_name :: "vtab_row \<Rightarrow> cstring" where
  "vt_name v = (case vt_desc v of None \<Rightarrow> vt_key v | Some d \<Rightarrow> d)"

subsection \<open>Checking a request\<close>

definition vtab_find :: "vtab_row list \<Rightarrow> cstring \<Rightarrow> vtab_row option" where
  "vtab_find tab key = List.find (\<lambda>v. strncmp_eq (vt_key v) key (length (vt_key v))) tab"

definition chk_head :: "cstring \<Rightarrow> cstring \<Rightarrow> cstring" where
  "chk_head nm msg = ''<B>'' @ nm @ '':</B>&nbsp;'' @ msg"

definition need_value :: cstring where
  "need_value = [CHR 0xC3, CHR 0xCD, CHR 0xA4, CHR 0xF2, CHR 0xC6, CHR 0xFE, CHR 0xCE, CHR 0xCF, CHR 0xA4, CHR 0xB7, CHR 0xA4, CHR 0xC6, CHR 0xA4, CHR 0xAF, CHR 0xA4, CHR 0xC0, CHR 0xA4, CHR 0xB5, CHR 0xA4, CHR 0xA4]"

text \<open>A value that may be missing unless the switch \<open>sw\<close> says yes.\<close>

definition chk_switch :: "cstring \<Rightarrow> vtab_row \<Rightarrow> cgi \<Rightarrow> cstring option" where
  "chk_switch sw v w =
     (case getval sw w of None \<Rightarrow> None
      | Some p \<Rightarrow> if p \<noteq> [] \<and> strcaseeq p ''YES'' then Some (chk_head (vt_name v) need_value) else None)"

definition err_chk_sub :: "cstring \<Rightarrow> cgi \<Rightarrow> cstring option option" where
  "err_chk_sub key w =
     (case vtab_find vtab key of
        None \<Rightarrow> Some (Some (chk_head key ([CHR 0xBD, CHR 0xC5, CHR 0xC2, CHR 0xE7, CHR 0xA4, CHR 0xCA, CHR 0xA5, CHR 0xB7, CHR 0xA5, CHR 0xB9, CHR 0xA5, CHR 0xC6, CHR 0xA5, CHR 0xE0, CHR 0xA5, CHR 0xA8, CHR 0xA5, CHR 0xE9, CHR 0xA1, CHR 0xBC])))
      | Some v \<Rightarrow>
          if getval3 key w = []
          then (let f = vt_flag v AND NOT VCF_NODISP in
                Some (if f = VCF_NOTNULL then Some (chk_head (vt_name v) need_value)
                      else if f = VCF_NOTNULL_DHCP0 then chk_switch ''x_dhcpd_enable__eth0'' v w
                      else if f = VCF_NOTNULL_DHCP1 then chk_switch ''x_dhcpd_enable__eth1'' v w
                      else if f = VCF_NOTNULL_V6TUN then chk_switch ''x_ipv6_tunnel'' v w
                      else None))
          else (case vt_chk v of
                  None \<Rightarrow> Some None
                | Some chk \<Rightarrow> map_option (map_option (chk_head (vt_name v))) (chk key key w)))"

definition x_key :: "cstring \<Rightarrow> cstring" where
  "x_key key = CHR ''x'' # tl key"

definition form_key :: "cstring \<Rightarrow> bool" where
  "form_key key \<longleftrightarrow> prefix ''i_'' key"

definition err_line :: "cstring \<Rightarrow> cstring" where
  "err_line msg = ''<FONT COLOR=red><B>'' @ [CHR 0xA5, CHR 0xA8, CHR 0xA5, CHR 0xE9, CHR 0xA1, CHR 0xBC] @ ''</B></FONT>&nbsp;'' @ msg @ ''<BR>'' @ [NL]"

definition err_chk :: "cgi \<Rightarrow> (bool \<times> cgi) option" where
  "err_chk w =
     foldM (\<lambda>e (errflg, v).
        if env_flag e = 3 \<and> form_key (env_key e)
        then (case err_chk_sub (x_key (env_key e)) v of
                None \<Rightarrow> None
              | Some None \<Rightarrow> Some (errflg, v)
              | Some (Some msg) \<Rightarrow> Some (True, v\<lparr>HTML_error := HTML_error v @ err_line msg\<rparr>))
        else Some (errflg, v)) (envtop w) (False, w)"

text \<open>The rows before the first that is not to be shown are compared with the key as a prefix.\<close>

definition change_row :: "cstring \<Rightarrow> vtab_row option" where
  "change_row key =
     List.find (\<lambda>v. strncmp_eq (vt_key v) key (length key))
       (takeWhile (\<lambda>v. vt_flag v AND VCF_NODISP = 0) vtab)"

definition output_change :: "cgi \<Rightarrow> cgi option" where
  "output_change w =
     map_option (\<lambda>w. w\<lparr>html_out := html_out w @ ''<P><FONT COLOR=red>'' @
         [CHR 0xC0, CHR 0xDF, CHR 0xC4, CHR 0xEA, CHR 0xA4, CHR 0xCF, CHR 0xCA, CHR 0xDD, CHR 0xC2, CHR 0xB8, CHR 0xA1, CHR 0xA6, CHR 0xBA, CHR 0xC6, CHR 0xB5, CHR 0xAF, CHR 0xC6, CHR 0xB0, CHR 0xB8, CHR 0xE5, CHR 0xA1, CHR 0xA2, CHR 0xCD, CHR 0xAD, CHR 0xB8, CHR 0xFA, CHR 0xA4, CHR 0xC8, CHR 0xA4, CHR 0xCA, CHR 0xA4, CHR 0xEA, CHR 0xA4, CHR 0xDE, CHR 0xA4, CHR 0xB9, CHR 0xA1, CHR 0xA3] @
         ''</FONT>'' @ [NL]\<rparr>)
       (foldM (\<lambda>e w.
          if form_key (env_key e)
          then (case change_row (x_key (env_key e)) of
                  None \<Rightarrow> Some w
                | Some v \<Rightarrow> do {
                    txt \<leftarrow> (case vt_valdesc v of None \<Rightarrow> Some (env_val e)
                           | Some ds \<Rightarrow> nth_opt ds (atoi (env_val e)));
                    Some (w\<lparr>html_out := html_out w @ chk_head (vt_name v) txt @ ''<BR>'' @ [NL]\<rparr>) })
          else Some w) (envtop w) w)"

subsection \<open>Addresses\<close>

definition octet_str :: "cstring \<Rightarrow> bool" where
  "octet_str s \<longleftrightarrow> s \<noteq> [] \<and> length s \<le> 3 \<and> list_all isdigit s \<and> atoi s \<le> 255"

definition upto_dot :: "cstring \<Rightarrow> cstring" where
  "upto_dot p = takeWhile (\<lambda>c. c \<noteq> CHR ''.'') p"

definition behind_dot :: "cstring \<Rightarrow> cstring option" where
  "behind_dot p = (if CHR ''.'' \<in> set p then Some (tl (dropWhile (\<lambda>c. c \<noteq> CHR ''.'') p)) else None)"

lemma ip4_num_eq:
  "ip4_num acc n p =
     (if list_all isdigit (take n (upto_dot p))
      then if length (upto_dot p) < n then Some (acc @ upto_dot p, behind_dot p)
           else Some (acc @ take n (upto_dot p), Some (drop n p))
      else None)"
  by (induction acc n p rule: ip4_num.induct) (auto simp: upto_dot_def behind_dot_def)

lemma scan_d_digits:
  assumes "list_all isdigit s" "s \<noteq> []"
  shows "scan_d s = Some (atoi s, [])"
proof -
  have d: "isdigit (deref s)" using assms by (cases s) auto
  then have "dropWhile isspace s = s" by (intro dropWhile_deref) simp
  moreover obtain n where "scan_digits 0 s = (n, [])" using scan_digits_append [OF assms(1), of "[]" 0] by simp
  ultimately show ?thesis
    using d isdigit_bytes [OF d] by (simp add: scan_d_def atoi_def)
qed

lemma is_ip4_step:
  "is_ip4_loop (Suc k) (Some p) =
     (if octet_str (upto_dot p) then is_ip4_loop k (behind_dot p) else Some False)"
proof (cases "list_all isdigit (take 7 (upto_dot p)) \<and> length (upto_dot p) < 4 \<and> upto_dot p \<noteq> []")
  case True
  then have "take 7 (upto_dot p) = upto_dot p" by (intro take_all) linarith
  then have "list_all isdigit (upto_dot p)" using True by metis
  from scan_d_digits [OF this] show ?thesis
    using True by (simp add: ip4_num_eq octet_str_def)
next
  case False
  then have "\<not> octet_str (upto_dot p)"
    by (auto simp: octet_str_def)
  moreover have "is_ip4_loop (Suc k) (Some p) = Some False"
    using False by (auto simp: ip4_num_eq)
  ultimately show ?thesis by simp
qed

text \<open>The octets a text begins with, and the texts that break off after some of them.\<close>

fun octets :: "nat \<Rightarrow> cstring \<Rightarrow> bool" where
  "octets 0 r = True"
| "octets (Suc k) p = (octet_str (upto_dot p) \<and>
     (case behind_dot p of None \<Rightarrow> k = 0 | Some r \<Rightarrow> octets k r))"

fun breaks_off :: "nat \<Rightarrow> cstring \<Rightarrow> bool" where
  "breaks_off 0 r = False"
| "breaks_off (Suc k) p = (octet_str (upto_dot p) \<and>
     (case behind_dot p of None \<Rightarrow> k > 0 | Some r \<Rightarrow> breaks_off k r))"

lemma is_ip4_loop_None: "is_ip4_loop k None = (if k = 0 then Some True else None)"
  by (cases k) simp_all

lemma is_ip4_loop_eq:
  "is_ip4_loop k (Some p) =
     (if octets k p then Some True else if breaks_off k p then None else Some False)"
proof (induction k arbitrary: p)
  case (Suc k)
  then show ?case
    by (auto simp: is_ip4_step is_ip4_loop_None simp del: is_ip4_loop.simps(3) split: option.splits)
qed simp

lemma upto_dot_eq: "CHR ''.'' \<notin> set a \<Longrightarrow> upto_dot (a @ CHR ''.'' # r) = a \<and> behind_dot (a @ CHR ''.'' # r) = Some r"
proof -
  assume "CHR ''.'' \<notin> set a"
  then have "list_all (\<lambda>c. c \<noteq> CHR ''.'') a" by (auto simp: list_all_iff)
  then show ?thesis by (simp add: upto_dot_def behind_dot_def)
qed

lemma upto_dot_end: "CHR ''.'' \<notin> set a \<Longrightarrow> upto_dot a = a \<and> behind_dot a = None"
proof -
  assume h: "CHR ''.'' \<notin> set a"
  then have "list_all (\<lambda>c. c \<noteq> CHR ''.'') a" by (auto simp: list_all_iff)
  then show ?thesis using h by (simp add: upto_dot_def behind_dot_def)
qed

lemma dot_split: "behind_dot p = Some r \<Longrightarrow> p = upto_dot p @ CHR ''.'' # r"
proof -
  assume "behind_dot p = Some r"
  then have r: "CHR ''.'' \<in> set p" "r = tl (dropWhile (\<lambda>c. c \<noteq> CHR ''.'') p)"
    by (auto simp: behind_dot_def split: if_splits)
  then have "dropWhile (\<lambda>c. c \<noteq> CHR ''.'') p \<noteq> []" by auto
  then have "dropWhile (\<lambda>c. c \<noteq> CHR ''.'') p = CHR ''.'' # r"
    using hd_dropWhile [of "\<lambda>c. c \<noteq> CHR ''.''" p] r(2) by (cases "dropWhile (\<lambda>c. c \<noteq> CHR ''.'') p") auto
  then show ?thesis using takeWhile_dropWhile_id [of "\<lambda>c. c \<noteq> CHR ''.''" p] by (simp add: upto_dot_def)
qed

lemma no_dot_upto: "behind_dot p = None \<Longrightarrow> upto_dot p = p"
  by (auto simp: behind_dot_def upto_dot_def takeWhile_eq_all_conv split: if_splits)

lemma octet_str_no_dot: "octet_str a \<Longrightarrow> CHR ''.'' \<notin> set a"
  by (auto simp: octet_str_def list_all_iff)

lemma four: "(4 :: nat) = Suc (Suc (Suc (Suc 0)))"
  by simp

lemma octets_Suc:
  "octets (Suc (Suc k)) p \<longleftrightarrow> (\<exists>a r. octet_str a \<and> p = a @ CHR ''.'' # r \<and> octets (Suc k) r)"
proof
  assume "octets (Suc (Suc k)) p"
  then obtain r where "octet_str (upto_dot p)" "behind_dot p = Some r" "octets (Suc k) r"
    by (auto split: option.splits)
  then show "\<exists>a r. octet_str a \<and> p = a @ CHR ''.'' # r \<and> octets (Suc k) r"
    using dot_split by blast
next
  assume "\<exists>a r. octet_str a \<and> p = a @ CHR ''.'' # r \<and> octets (Suc k) r"
  then obtain a r where a: "octet_str a" "p = a @ CHR ''.'' # r" "octets (Suc k) r" by blast
  then show "octets (Suc (Suc k)) p"
    using upto_dot_eq [OF octet_str_no_dot [OF a(1)], of r] by simp
qed

lemma octets_1: "octets (Suc 0) p \<longleftrightarrow> (\<exists>a r. octet_str a \<and> p = a @ r \<and> (r = [] \<or> deref r = CHR ''.''))"
proof
  assume h: "octets (Suc 0) p"
  show "\<exists>a r. octet_str a \<and> p = a @ r \<and> (r = [] \<or> deref r = CHR ''.'')"
  proof (cases "behind_dot p")
    case None
    then show ?thesis using h no_dot_upto [OF None] by (intro exI [of _ p] exI [of _ "[]"]) simp
  next
    case (Some r)
    then show ?thesis
      using h dot_split [OF Some] by (intro exI [of _ "upto_dot p"] exI [of _ "CHR ''.'' # r"]) simp
  qed
next
  assume "\<exists>a r. octet_str a \<and> p = a @ r \<and> (r = [] \<or> deref r = CHR ''.'')"
  then obtain a r where a: "octet_str a" "p = a @ r" "r = [] \<or> deref r = CHR ''.''" by blast
  note nd = octet_str_no_dot [OF a(1)]
  show "octets (Suc 0) p"
  proof (cases r)
    case Nil
    then show ?thesis using a upto_dot_end [OF nd] by simp
  next
    case (Cons c r')
    then show ?thesis using a upto_dot_eq [OF nd, of r'] by simp
  qed
qed

lemma octets_4:
  "octets 4 v \<longleftrightarrow> (\<exists>a b c d r. octet_str a \<and> octet_str b \<and> octet_str c \<and> octet_str d \<and>
     (r = [] \<or> deref r = CHR ''.'') \<and> v = a @ ''.'' @ b @ ''.'' @ c @ ''.'' @ d @ r)"
proof
  assume "octets 4 v"
  then obtain a v1 where 1: "octet_str a" "v = a @ CHR ''.'' # v1" "octets (Suc (Suc (Suc 0))) v1"
    unfolding four octets_Suc [of "Suc (Suc 0)"] by blast
  from 1(3) obtain b v2 where 2: "octet_str b" "v1 = b @ CHR ''.'' # v2" "octets (Suc (Suc 0)) v2"
    unfolding octets_Suc [of "Suc 0"] by blast
  from 2(3) obtain c v3 where 3: "octet_str c" "v2 = c @ CHR ''.'' # v3" "octets (Suc 0) v3"
    unfolding octets_Suc [of 0] by blast
  from 3(3) obtain d r where "octet_str d" "v3 = d @ r" "r = [] \<or> deref r = CHR ''.''"
    unfolding octets_1 by blast
  then show "\<exists>a b c d r. octet_str a \<and> octet_str b \<and> octet_str c \<and> octet_str d \<and>
     (r = [] \<or> deref r = CHR ''.'') \<and> v = a @ ''.'' @ b @ ''.'' @ c @ ''.'' @ d @ r"
    using 1 2 3 by (intro exI [of _ a] exI [of _ b] exI [of _ c] exI [of _ d] exI [of _ r]) simp
next
  assume "\<exists>a b c d r. octet_str a \<and> octet_str b \<and> octet_str c \<and> octet_str d \<and>
     (r = [] \<or> deref r = CHR ''.'') \<and> v = a @ ''.'' @ b @ ''.'' @ c @ ''.'' @ d @ r"
  then obtain a b c d r where o: "octet_str a" "octet_str b" "octet_str c" "octet_str d"
    "r = [] \<or> deref r = CHR ''.''" "v = a @ ''.'' @ b @ ''.'' @ c @ ''.'' @ d @ r"
    by blast
  then have v: "v = a @ CHR ''.'' # b @ CHR ''.'' # c @ CHR ''.'' # d @ r" by simp
  have "octets (Suc 0) (d @ r)" unfolding octets_1 using o by blast
  then have "octets (Suc (Suc 0)) (c @ CHR ''.'' # d @ r)" unfolding octets_Suc using o by blast
  then have "octets (Suc (Suc (Suc 0))) (b @ CHR ''.'' # c @ CHR ''.'' # d @ r)"
    unfolding octets_Suc [of "Suc 0"] using o by blast
  then show "octets 4 v" unfolding four octets_Suc [of "Suc (Suc 0)"] v using o by blast
qed

lemma is_ip4_accepted:
  "getval key w = Some v \<Longrightarrow> is_ip4 key desc w = Some None \<longleftrightarrow> octets 4 v"
  unfolding is_ip4_def by (auto simp: bind_eq_Some_conv is_ip4_loop_eq split: if_splits)

text \<open>
  The address check accepts exactly the texts that begin with four numbers of one to
  three digits, each at most 255, with dots between them and then end or go on with a dot:
  behind a fourth dot anything is accepted, markup and shell characters included.
\<close>

theorem is_ip4_accepts:
  "is_ip4 key desc w = Some None \<longleftrightarrow>
     (\<exists>a b c d r. octet_str a \<and> octet_str b \<and> octet_str c \<and> octet_str d \<and> (r = [] \<or> deref r = CHR ''.'') \<and>
        getval key w = Some (a @ ''.'' @ b @ ''.'' @ c @ ''.'' @ d @ r))"
proof -
  have "is_ip4 key desc w = Some None \<longleftrightarrow> (\<exists>v. getval key w = Some v \<and> octets 4 v)"
    unfolding is_ip4_def by (auto simp: bind_eq_Some_conv is_ip4_loop_eq split: if_splits)
  also have "\<dots> \<longleftrightarrow> (\<exists>a b c d r. octet_str a \<and> octet_str b \<and> octet_str c \<and> octet_str d \<and> (r = [] \<or> deref r = CHR ''.'') \<and>
        getval key w = Some (a @ ''.'' @ b @ ''.'' @ c @ ''.'' @ d @ r))"
    unfolding octets_4 by blast
  finally show ?thesis .
qed

text \<open>
  The address check reads behind the end of the value exactly when the value is missing
  or is one, two or three good numbers with dots between them: the test for a missing
  number is commented out in the code.
\<close>

lemma breaks_off_Suc:
  "breaks_off (Suc (Suc k)) p \<longleftrightarrow> octet_str p \<or> (\<exists>a r. octet_str a \<and> p = a @ CHR ''.'' # r \<and> breaks_off (Suc k) r)"
proof
  assume h: "breaks_off (Suc (Suc k)) p"
  show "octet_str p \<or> (\<exists>a r. octet_str a \<and> p = a @ CHR ''.'' # r \<and> breaks_off (Suc k) r)"
  proof (cases "behind_dot p")
    case None
    then show ?thesis using h no_dot_upto [OF None] by simp
  next
    case (Some r)
    then show ?thesis using h dot_split [OF Some] by (intro disjI2 exI [of _ "upto_dot p"] exI [of _ r]) simp
  qed
next
  assume "octet_str p \<or> (\<exists>a r. octet_str a \<and> p = a @ CHR ''.'' # r \<and> breaks_off (Suc k) r)"
  then show "breaks_off (Suc (Suc k)) p"
  proof
    assume "octet_str p"
    then show ?thesis using upto_dot_end [OF octet_str_no_dot] by simp
  next
    assume "\<exists>a r. octet_str a \<and> p = a @ CHR ''.'' # r \<and> breaks_off (Suc k) r"
    then obtain a r where a: "octet_str a" "p = a @ CHR ''.'' # r" "breaks_off (Suc k) r" by blast
    then show ?thesis using upto_dot_eq [OF octet_str_no_dot [OF a(1)], of r] by simp
  qed
qed

lemma breaks_off_1: "\<not> breaks_off (Suc 0) p"
  by (simp split: option.split)

lemma breaks_off_4:
  "breaks_off 4 v \<longleftrightarrow> (\<exists>a b c. octet_str a \<and> octet_str b \<and> octet_str c \<and>
     v \<in> {a, a @ ''.'' @ b, a @ ''.'' @ b @ ''.'' @ c})"
proof -
  have "breaks_off 4 v \<longleftrightarrow> octet_str v \<or> (\<exists>a r. octet_str a \<and> v = a @ CHR ''.'' # r \<and>
     (octet_str r \<or> (\<exists>b s. octet_str b \<and> r = b @ CHR ''.'' # s \<and> octet_str s)))" (is "_ \<longleftrightarrow> ?R")
    unfolding four breaks_off_Suc using breaks_off_1 by blast
  also have "?R \<longleftrightarrow> (\<exists>a b c. octet_str a \<and> octet_str b \<and> octet_str c \<and>
     (v = a \<or> v = a @ CHR ''.'' # b \<or> v = a @ CHR ''.'' # b @ CHR ''.'' # c))" by blast
  finally show ?thesis by simp
qed

theorem is_ip4_reads_past_end:
  "is_ip4 key desc w = None \<longleftrightarrow>
     getval key w = None \<or>
     (\<exists>a b c. octet_str a \<and> octet_str b \<and> octet_str c \<and>
        getval key w \<in> {Some a, Some (a @ ''.'' @ b), Some (a @ ''.'' @ b @ ''.'' @ c)})"
proof (cases "getval key w")
  case (Some v)
  have x: "octets 4 v \<Longrightarrow> \<not> breaks_off 4 v"
    unfolding four by (auto split: option.splits)
  then have "is_ip4 key desc w = None \<longleftrightarrow> breaks_off 4 v"
    using Some by (auto simp: is_ip4_def is_ip4_loop_eq)
  then show ?thesis unfolding breaks_off_4 Some by simp
qed (simp add: is_ip4_def)


subsection \<open>The table and the request\<close>

lemma find_skip: "\<not> P x \<Longrightarrow> List.find P xs = r \<Longrightarrow> List.find P (x # xs) = r"
  by simp

lemma find_hit: "P x \<Longrightarrow> List.find P (x # xs) = Some x"
  by simp

lemma find_tunnel_here:
  "\<exists>d. vtab_find vtab ''x_ipv6_tunnel_here'' = Some (VTab ''x_ipv6_tunnel'' d '''' VC_IPV6 0 None None)"
  unfolding vtab_find_def vtab_def strncmp_eq_prefix
  apply (rule exI)
  apply (rule find_skip, (simp; fail))+
  apply (rule find_hit)
  apply simp
  done

lemma find_tunnel_there:
  "\<exists>d. vtab_find vtab ''x_ipv6_tunnel_there'' = Some (VTab ''x_ipv6_tunnel'' d '''' VC_IPV6 0 None None)"
  unfolding vtab_find_def vtab_def strncmp_eq_prefix
  apply (rule exI)
  apply (rule find_skip, (simp; fail))+
  apply (rule find_hit)
  apply simp
  done

lemma find_domainname:
  "\<exists>d. vtab_find vtab ''x_domainname'' = Some (VTab ''x_domain'' d '''' VC_NETWORK 0 (Some is_hostname) None)"
  unfolding vtab_find_def vtab_def strncmp_eq_prefix
  apply (rule exI)
  apply (rule find_skip, (simp; fail))+
  apply (rule find_hit)
  apply simp
  done

lemma find_user_id:
  "\<exists>d. vtab_find vtab ''x_user_id'' = Some (VTab ''x_user_id'' d '''' VC_USER VCF_NOTNULL (Some is_uid) None)"
  unfolding vtab_find_def vtab_def strncmp_eq_prefix
  apply (rule exI)
  apply (rule find_hit)
  apply simp
  done

lemma rows_in_vtab:
  "(''x_ipv6_tunnel_here'', Some is_ip4) \<in> set (map (\<lambda>v. (vt_key v, vt_chk v)) vtab)"
  "(''x_domainname'', VCF_NOTNULL) \<in> set (map (\<lambda>v. (vt_key v, vt_flag v)) vtab)"
  unfolding vtab_def by simp_all

text \<open>
  The table is searched by prefix and in order, so a row whose name begins with the name
  of an earlier row is never used. The two ends of the IPv6 tunnel have a row that asks for an
  address, but whatever they hold they pass, as does an empty domain name of the system page,
  whose row asks for a value.
\<close>

theorem shadowed_rows_unchecked:
  "(''x_ipv6_tunnel_here'', Some is_ip4) \<in> set (map (\<lambda>v. (vt_key v, vt_chk v)) vtab)
   \<and> (''x_domainname'', VCF_NOTNULL) \<in> set (map (\<lambda>v. (vt_key v, vt_flag v)) vtab)
   \<and> err_chk_sub ''x_ipv6_tunnel_here'' w = Some None
   \<and> err_chk_sub ''x_ipv6_tunnel_there'' w = Some None
   \<and> (getval3 ''x_domainname'' w = [] \<longrightarrow> err_chk_sub ''x_domainname'' w = Some None)"
proof (intro conjI)
  show "err_chk_sub ''x_ipv6_tunnel_here'' w = Some None" "err_chk_sub ''x_ipv6_tunnel_there'' w = Some None"
    using find_tunnel_here find_tunnel_there by (auto simp: err_chk_sub_def vcf_defs)
  show "getval3 ''x_domainname'' w = [] \<longrightarrow> err_chk_sub ''x_domainname'' w = Some None"
    using find_domainname by (auto simp: err_chk_sub_def vcf_defs)
qed (rule rows_in_vtab)+

theorem shadowed_rows_unchecked_witness:
  "getval3 ''x_domainname'' empty_cgi = [] \<and> err_chk_sub ''x_domainname'' empty_cgi = Some None"
proof -
  have "getval3 ''x_domainname'' empty_cgi = []"
    by (simp add: getval3_def getval_map date_key_def)
  then show ?thesis using shadowed_rows_unchecked [of empty_cgi] by blast
qed

text \<open>The checks do not look at the error page they write.\<close>

lemma getval_error [simp]: "getval k (w\<lparr>HTML_error := h\<rparr>) = getval k w"
  by (simp add: getval_def getval2_def getvalp_def Let_def)

lemma getval_int_error [simp]: "getval_int k (w\<lparr>HTML_error := h\<rparr>) = getval_int k w"
  by (simp add: getval_int_def)

lemma chk_ip4_error [simp]:
  "is_ip4 k d (w\<lparr>HTML_error := h\<rparr>) = is_ip4 k d w"
  "is_numeric k d (w\<lparr>HTML_error := h\<rparr>) = is_numeric k d w"
  by (simp_all add: is_ip4_def is_numeric_def)

lemma chk_error:
  "chk \<in> {is_unixpath, is_hostname, is_ip4, is_ip4_2, is_numeric, is_port, is_uid, is_login, is_print,
     chk_eth0, chk_eth1} \<Longrightarrow> chk k d (w\<lparr>HTML_error := h\<rparr>) = chk k d w"
  by (cases "getval k w")
    (auto simp: is_unixpath_def is_hostname_def is_ip4_2_def is_port_def
      is_uid_def is_login_def is_print_def chk_eth0_def chk_eth1_def char_val_def Let_def)

lemma vtab_chks:
  "v \<in> set vtab \<Longrightarrow> vt_chk v = Some chk \<Longrightarrow>
   chk \<in> {is_unixpath, is_hostname, is_ip4, is_ip4_2, is_numeric, is_port, is_uid, is_login, is_print,
     chk_eth0, chk_eth1}"
  unfolding vtab_def by (elim set_ConsD [THEN disjE]; simp)

lemma err_chk_sub_error [simp]: "err_chk_sub key (w\<lparr>HTML_error := h\<rparr>) = err_chk_sub key w"
proof (cases "vtab_find vtab key")
  case (Some v)
  then have "v \<in> set vtab"
    by (auto simp: vtab_find_def find_Some_iff)
  then have "vt_chk v = Some chk \<Longrightarrow> chk key key (w\<lparr>HTML_error := h\<rparr>) = chk key key w" for chk
    using vtab_chks chk_error by blast
  then have "vt_chk v = None \<or> (\<exists>chk. vt_chk v = Some chk \<and> chk key key (w\<lparr>HTML_error := h\<rparr>) = chk key key w)"
    by (cases "vt_chk v") simp_all
  then show ?thesis
    using Some by (elim disjE exE)
      (simp_all add: err_chk_sub_def chk_switch_def getval3_def Let_def cong: option.case_cong)
qed (simp add: err_chk_sub_def)

definition rejected :: "cgi \<Rightarrow> env_entry \<Rightarrow> bool" where
  "rejected w e \<longleftrightarrow> env_flag e = 3 \<and> form_key (env_key e) \<and>
     (\<exists>msg. err_chk_sub (x_key (env_key e)) w = Some (Some msg))"

lemma err_chk_result:
  assumes "err_chk w = Some (flg, v)"
  shows "(flg \<longleftrightarrow> (\<exists>e \<in> set (envtop w). rejected w e)) \<and> (\<exists>h. v = w\<lparr>HTML_error := h\<rparr>)"
proof -
  let ?step = "\<lambda>e (errflg, v).
        if env_flag e = 3 \<and> form_key (env_key e)
        then (case err_chk_sub (x_key (env_key e)) v of
                None \<Rightarrow> None
              | Some None \<Rightarrow> Some (errflg, v)
              | Some (Some msg) \<Rightarrow> Some (True, v\<lparr>HTML_error := HTML_error v @ err_line msg\<rparr>))
        else Some (errflg, v)"
  have "foldM ?step es (b, w\<lparr>HTML_error := h\<rparr>) = Some (flg, v) \<Longrightarrow>
     (flg \<longleftrightarrow> b \<or> (\<exists>e \<in> set es. rejected w e)) \<and> (\<exists>h. v = w\<lparr>HTML_error := h\<rparr>)" for es b h
  proof (induction es arbitrary: b h)
    case (Cons e es)
    show ?case
    proof (cases "env_flag e = 3 \<and> form_key (env_key e)")
      case False
      then have "\<not> rejected w e" by (auto simp: rejected_def)
      then show ?thesis using Cons.IH [of b h] Cons.prems False by (simp split: if_splits)
    next
      case True
      then obtain r where r: "err_chk_sub (x_key (env_key e)) w = Some r"
        using Cons.prems by (cases "err_chk_sub (x_key (env_key e)) w") auto
      show ?thesis
      proof (cases r)
        case None
        then have "\<not> rejected w e" using r by (simp add: rejected_def)
        then show ?thesis using Cons.IH [of b h] Cons.prems True r None by simp
      next
        case (Some msg)
        then have "rejected w e" using r True by (simp add: rejected_def)
        then show ?thesis using Cons.IH [of True "h @ err_line msg"] Cons.prems True r Some by simp
      qed
    qed
  qed auto
  from this [of "envtop w" False "HTML_error w"] assms show ?thesis
    unfolding err_chk_def by simp
qed

text \<open>A form that sends the user id 0.\<close>

definition send_uid :: "cgi \<Rightarrow> cgi" where
  "send_uid w = putval ''x_user_id'' ''0'' RC_bWRITE (putval ''i_user_id'' ''0'' RC_bWRITE w)"

lemma send_uid_envtop:
  "envtop (send_uid empty_cgi) = [\<lparr>env_key = ''i_user_id'', env_val = ''0'', env_flag = 3\<rparr>,
     \<lparr>env_key = ''x_user_id'', env_val = ''0'', env_flag = 3\<rparr>]"
  "envtop (send_uid (send_uid empty_cgi)) = [\<lparr>env_key = ''i_user_id'', env_val = ''0'', env_flag = 1\<rparr>,
     \<lparr>env_key = ''x_user_id'', env_val = ''0'', env_flag = 1\<rparr>]"
  by (simp_all add: send_uid_def putval_def putval_withdesc_def empty_cgi_def put_flag_def rc_flags)

lemma err_chk_send_uid: "\<exists>v. err_chk (send_uid empty_cgi) = Some (True, v)"
proof -
  have g: "getval ''x_user_id'' (send_uid empty_cgi) = Some ''0''"
    by (simp add: getval_map date_key_def send_uid_def cs.lookup_put)
  have "atoi ''0'' = 0" by (simp add: atoi_def scan_d_def isspace_def isdigit_def byte_def clamp32_def int_min_def int_max_def)
  then have "getval_int ''x_user_id'' (send_uid empty_cgi) = 0" using g by (simp add: getval_int_def)
  then have "\<exists>m. err_chk_sub ''x_user_id'' (send_uid empty_cgi) = Some (Some m)"
    using find_user_id g by (auto simp: err_chk_sub_def getval3_def is_uid_def Let_def)
  then show ?thesis by (auto simp: err_chk_def send_uid_envtop form_key_def x_key_def)
qed

text \<open>
  C10. The check of a request: when it ends it answers whether some entry is rejected, an
  entry being looked at only if it is a form field (\<^verbatim>\<open>i_\<close>) whose flag says that it was
  written and differs from before; it changes nothing but the error text.
\<close>

theorem err_chk_rejects:
  assumes "err_chk w = Some (flg, v)"
  shows "(flg \<longleftrightarrow> (\<exists>e \<in> set (envtop w). rejected w e)) \<and> (\<exists>h. v = w\<lparr>HTML_error := h\<rparr>)"
  using assms by (rule err_chk_result)

theorem err_chk_rejects_witness:
  "\<exists>h. err_chk (send_uid empty_cgi) = Some (True, (send_uid empty_cgi)\<lparr>HTML_error := h\<rparr>)
     \<and> (\<exists>e \<in> set (envtop (send_uid empty_cgi)). rejected (send_uid empty_cgi) e)"
proof -
  obtain v where "err_chk (send_uid empty_cgi) = Some (True, v)" using err_chk_send_uid by blast
  then show ?thesis using err_chk_rejects [of "send_uid empty_cgi" True v] by auto
qed

text \<open>
  A form field that is sent twice with the same value is not checked: the second
  \<^verbatim>\<open>putval\<close> clears the mark that makes \<^verbatim>\<open>err_chk\<close> look at it. The user id 0 is
  rejected when it is sent once and passes when it is sent twice.
\<close>

theorem sent_twice_unchecked:
  "(\<exists>v. err_chk (send_uid empty_cgi) = Some (True, v))
   \<and> err_chk (send_uid (send_uid empty_cgi)) = Some (False, send_uid (send_uid empty_cgi))"
  using err_chk_send_uid by (simp add: err_chk_def [of "send_uid (send_uid empty_cgi)"] send_uid_envtop)

text \<open>
  The user page proposes a user id that its own check rejects, unless some account has an
  id of at least 32767: \<^verbatim>\<open>func_user_nextid\<close> counts from the ids above 500,
  \<^verbatim>\<open>is_uid\<close> starts at 32768.
\<close>

theorem proposed_uid_rejected:
  assumes "next_uid ls = Some n" "\<forall>u \<in> account_uids ls. u < 32767" "getval key w = Some (dec n)"
  shows "\<exists>msg. is_uid key desc w = Some (Some msg)"
proof -
  have fin: "finite (account_uids ls)" by (simp add: account_uids_def)
  have lo: "\<forall>u \<in> account_uids ls. 500 \<le> u" by (simp add: account_uids_def)
  have n: "n = (if account_uids ls = {} then 1 else Max (account_uids ls) + 1)"
    using assms(1) by (simp add: next_uid_eq)
  have "1 \<le> n \<and> n < 32768"
  proof (cases "account_uids ls = {}")
    case False
    then have "Max (account_uids ls) \<in> account_uids ls" using fin by (intro Max_in)
    then show ?thesis using n False lo assms(2) by fastforce
  qed (use n in simp)
  then have "getval_int key w = n"
    using assms(3) by (simp add: getval_int_def atoi_dec int_min_def int_max_def)
  then show ?thesis using \<open>1 \<le> n \<and> n < 32768\<close> by (simp add: is_uid_def)
qed

theorem proposed_uid_rejected_witness:
  "next_uid [] = Some 1 \<and> (\<exists>msg. is_uid ''i_user_id'' ''''
     (putval ''i_user_id'' (dec 1) RC_bWRITE empty_cgi) = Some (Some msg))"
proof -
  let ?w = "putval ''i_user_id'' (dec 1) RC_bWRITE empty_cgi"
  have "getval ''i_user_id'' ?w = Some (dec 1)"
    by (simp add: getval_map date_key_def cs.lookup_put)
  moreover have "account_uids [] = {}" by (simp add: account_uids_def List.map_filter_simps)
  moreover have "next_uid [] = Some 1" by (simp add: next_uid_def)
  ultimately show ?thesis using proposed_uid_rejected [of "[]" 1 "''i_user_id''" ?w] by simp
qed

end
