(* ===== verification/Handlers.thy ===== *)
theory Handlers
  imports Checks
begin

unbundle bit_operations_syntax

text \<open>
  The handlers of \<^verbatim>\<open>contrib/setup/ok.c\<close> that a page calls when its form was accepted or
  a delete button was pressed. A handler gets the rest of the button's name and the state
  and answers a status and the new state; it ends on the panic page (\<open>Inl\<close>) when the
  temporary configuration cannot be written, and has no defined result (\<open>None\<close>) where the
  code reads through a NULL pointer or an indeterminate value or writes outside a block, as
  \<^verbatim>\<open>list_join\<close> does for a list of two items or more (\<open>ItemList.list_join_overrun\<close>).
\<close>

datatype ok_status = NG | OK | OK_SAVE | OK_NOSAVE | CONT

text \<open>The numbers the code gives them; \<^verbatim>\<open>add\<close> returns one of them as a number.\<close>

definition status_num :: "ok_status \<Rightarrow> int" where
  "status_num s = (case s of NG \<Rightarrow> 0 | OK \<Rightarrow> 1 | OK_SAVE \<Rightarrow> 2 | OK_NOSAVE \<Rightarrow> 3 | CONT \<Rightarrow> 4)"

lemma status_num_inject: "status_num s = status_num t \<longleftrightarrow> s = t"
  by (cases s; cases t) (simp_all add: status_num_def)

instantiation ok_status :: linorder
begin

definition less_eq_ok_status :: "ok_status \<Rightarrow> ok_status \<Rightarrow> bool" where
  "less_eq_ok_status s t \<longleftrightarrow> status_num s \<le> status_num t"

definition less_ok_status :: "ok_status \<Rightarrow> ok_status \<Rightarrow> bool" where
  "less_ok_status s t \<longleftrightarrow> status_num s < status_num t"

instance
proof
  fix x y z :: ok_status
  show "(x < y) = (x \<le> y \<and> \<not> y \<le> x)"
    by (auto simp: less_eq_ok_status_def less_ok_status_def)
  show "x \<le> x"
    by (simp add: less_eq_ok_status_def)
  show "x \<le> y \<Longrightarrow> y \<le> z \<Longrightarrow> x \<le> z"
    by (simp add: less_eq_ok_status_def)
  show "x \<le> y \<Longrightarrow> y \<le> x \<Longrightarrow> x = y"
    by (simp add: less_eq_ok_status_def flip: status_num_inject)
  show "x \<le> y \<or> y \<le> x"
    by (auto simp: less_eq_ok_status_def)
qed

end

type_synonym reply = "(cgi + (ok_status \<times> cgi)) option"
type_synonym handler = "cstring \<Rightarrow> cgi \<Rightarrow> reply"

definition finish :: "ok_status \<Rightarrow> cgi \<Rightarrow> reply" where
  "finish st w = Some (map_sum id (Pair st) (write_conf w))"

definition stay :: "ok_status \<Rightarrow> cgi \<Rightarrow> reply" where
  "stay st w = Some (Inr (st, w))"

text \<open>A shell command: it is logged, and does to the files what the command does.\<close>

definition system_cmd :: "cstring \<Rightarrow> cgi \<Rightarrow> cgi" where
  "system_cmd cmd w = w\<lparr>sys_log := sys_log w @ [cmd], files := sys_effect w cmd (files w)\<rparr>"

definition str_of :: "cstring \<Rightarrow> cgi \<Rightarrow> cstring" where
  "str_of key w = pct_s (getval key w)"

text \<open>Blanks between the parts, as in the formats of the code.\<close>

definition spaced :: "cstring list \<Rightarrow> cstring" where
  "spaced xs = join_items xs"

definition ok_dhcp :: handler where "ok_dhcp arg w = finish OK w"
definition ok_dhcp3 :: handler where "ok_dhcp3 arg w = finish OK w"
definition ok_named_slave :: handler where "ok_named_slave arg w = finish OK w"
definition ok_named_master_soa :: handler where "ok_named_master_soa arg w = finish OK w"
definition ok_httpd :: handler where "ok_httpd arg w = finish OK w"
definition ok_masq :: handler where "ok_masq arg w = finish OK w"
definition ok_samba :: handler where "ok_samba arg w = finish OK w"

subsection \<open>Numbered entries\<close>

text \<open>
  \<^verbatim>\<open>add\<close>: the number it answers is that of the new entry, or the status
  \<^verbatim>\<open>CONT\<close> when the entry is already listed. A missing number is compared or copied
  through a NULL pointer.
\<close>

definition add :: "cstring \<Rightarrow> cstring \<Rightarrow> cgi \<Rightarrow> (int \<times> cgi) option" where
  "add list_key id_key w =
     do { alst \<leftarrow> list_split NUL (Some (getval3 list_key w));
          n \<leftarrow> getval id_key w;
          if list_grep_item alst n \<noteq> None then Some (status_num CONT, w)
          else do { alst \<leftarrow> list_push alst n;
                    new \<leftarrow> list_join alst;
                    Some (atoi n, putval list_key new 1 w) } }"

text \<open>The same with a number, in the other handlers: \<open>Inl\<close> when it is already listed.\<close>

definition add_id :: "cstring \<Rightarrow> int \<Rightarrow> cgi \<Rightarrow> (unit + cgi) option" where
  "add_id list_key n w =
     do { alst \<leftarrow> list_split NUL (Some (getval3 list_key w));
          if list_grep_item alst (dec n) \<noteq> None then Some (Inl ())
          else do { alst \<leftarrow> list_push alst (dec n);
                    new \<leftarrow> list_join alst;
                    Some (Inr (putval list_key new 1 w)) } }"

text \<open>The key of the record list of zone \<open>m\<close>; the keys of its records begin with it.\<close>

definition zone_records :: "int \<Rightarrow> cstring" where
  "zone_records m = ''x_named_zone_record__'' @ dec m @ ''__''"

definition ok_named_master :: handler where
  "ok_named_master arg w =
     (let w = (if getval ''x_named_zone_record_id'' w = None
               then putval ''x_named_zone_record_id'' ''0'' 1 w else w);
          m = my_atoi (Some (HTML_script_arg2 w)) in
      do { (n, w) \<leftarrow> add (zone_records m) ''x_named_zone_record_id'' w;
           let w = (case (getval ''x_named_zone_record_domain___T'' w, getval ''x_named_zone_record_typ___T'' w,
                          getval ''x_named_zone_record_resource___T'' w) of
                      (Some domain, Some typ, Some res) \<Rightarrow>
                        putval (zone_records m @ dec n) (spaced [domain, typ, res]) 1 w
                    | _ \<Rightarrow> w);
           finish CONT w })"

definition ok_named2 :: handler where
  "ok_named2 arg w =
     do { typ \<leftarrow> getval ''typ'' w;
          if typ = ''named_master_soa'' then ok_named_master_soa arg w
          else if deref (HTML_script_arg1 w) = CHR ''m'' then ok_named_master arg w
          else if deref (HTML_script_arg1 w) = CHR ''s'' then ok_named_slave arg w
          else do {
            (n, w) \<leftarrow> add ''x_named_zone__'' ''x_named_zone_id'' w;
            let w = (case (getval ''x_named_zone_typ___T'' w, getval ''x_named_zone_name___T'' w) of
                       (Some typ, Some name) \<Rightarrow>
                         (let w = putval (''x_named_zone__'' @ dec n) (spaced [typ, name]) 1 w;
                              w = putval (''x_named_zone_soa_mname__'' @ dec n)
                                    (str_of ''x_hostname'' w @ ''.'' @ str_of ''x_domainname'' w) 1 w
                          in putval (''x_named_zone_soa_rname__'' @ dec n)
                               (''root.'' @ str_of ''x_domainname'' w) 1 w)
                     | _ \<Rightarrow> w);
            finish CONT w } }"

definition ok_named :: handler where
  "ok_named arg w =
     (if deref arg = CHR ''2'' then ok_named2 arg w
      else if deref (HTML_script_arg1 w) = CHR ''m'' then ok_named_master arg w
      else if deref (HTML_script_arg1 w) = CHR ''s'' then ok_named_slave arg w
      else finish OK w)"

definition ok_sendmail2 :: handler where
  "ok_sendmail2 arg w =
     (let n = getval_int ''x_sendmail_relay_id'' w in
      do { r \<leftarrow> add_id ''x_sendmail_relay__'' n w;
           case r of
             Inl _ \<Rightarrow> stay CONT w
           | Inr w \<Rightarrow>
               let w = (case getval ''x_sendmail_relay___T'' w of
                          None \<Rightarrow> w | Some val \<Rightarrow> putval (''x_sendmail_relay__'' @ dec n) val 1 w)
               in finish CONT (delval ''x_sendmail_relay___T'' w) })"

definition ok_sendmail :: handler where
  "ok_sendmail arg w = (if deref arg = CHR ''2'' then ok_sendmail2 arg w else finish OK w)"

definition ok_portfw :: handler where
  "ok_portfw arg w =
     (let n = getval_int ''x_portfw_id'' w in
      do { r \<leftarrow> add_id ''x_portfw__'' n w;
           case r of
             Inl _ \<Rightarrow> stay CONT w
           | Inr w \<Rightarrow>
               finish CONT (putval (''x_portfw__'' @ dec n)
                 (spaced [str_of ''x_portfw_proto___T'' w, str_of ''x_portfw_interface___T'' w,
                    str_of ''x_portfw_src_port___T'' w, str_of ''x_portfw_dst_ip___T'' w,
                    str_of ''x_portfw_dst_port___T'' w]) 1 w) })"

definition ok_fw :: handler where
  "ok_fw arg w =
     (if deref arg = NUL \<or> deref arg = CHR ''1'' then ok_portfw arg w
      else let n = getval_int ''x_fw_id'' w in
      do { r \<leftarrow> add_id ''x_fw__'' n w;
           case r of
             Inl _ \<Rightarrow> stay CONT w
           | Inr w \<Rightarrow>
               finish CONT (putval (''x_fw__'' @ dec n)
                 (spaced [dec n, str_of ''x_fw_proto___T'' w, str_of ''x_fw_src_ip___T'' w,
                    str_of ''x_fw_src_subnet_mask___T'' w, str_of ''x_fw_src_port___T'' w,
                    str_of ''x_fw_dst_ip___T'' w, str_of ''x_fw_dst_subnet_mask___T'' w,
                    str_of ''x_fw_dst_port___T'' w, str_of ''x_fw_action___T'' w]) 1 w) })"

subsection \<open>Network and system pages\<close>

definition set_broadcast :: "cstring \<Rightarrow> cgi \<Rightarrow> cgi option" where
  "set_broadcast eth w =
     (case (getval (''x_eth_adr__'' @ eth) w, getval (''x_eth_subnet_mask__'' @ eth) w) of
        (Some adr, Some msk) \<Rightarrow> do {
          b \<leftarrow> broadcast_of adr msk;
          Some (putval (''x_eth_broadcast__'' @ eth) b 1 w) }
      | _ \<Rightarrow> Some w)"

definition ok_network :: handler where
  "ok_network arg w =
     do { w \<leftarrow> set_broadcast ''eth0'' w; w \<leftarrow> set_broadcast ''eth1'' w; finish OK w }"

text \<open>The interface part of the local address, from the six bytes of the hardware address.\<close>

definition set_local :: "cstring \<Rightarrow> cstring \<Rightarrow> cgi \<Rightarrow> cgi option" where
  "set_local ifname key w =
     (let p = hw_addr w ifname in
      if length p < 6 then None
      else Some (putval key
        (hex (((p ! 0) XOR 2) * 256 + p ! 1) @ '':'' @ hex (p ! 2 * 256 + 0xff) @ '':'' @
         hex (0xfe00 + p ! 3) @ '':'' @ hex (p ! 4 * 256 + p ! 5)) 1 w))"

definition ok_ipv6 :: handler where
  "ok_ipv6 arg w =
     do { w \<leftarrow> set_local ''eth0'' ''x_ipv6_local__eth0'' w;
          w \<leftarrow> set_local ''eth1'' ''x_ipv6_local__eth1'' w;
          finish OK w }"

definition hide_date :: "cgi \<Rightarrow> cgi" where
  "hide_date w =
     fold (\<lambda>k w. snd (setvalflag k RC_bNULL w))
       [''x_year'', ''x_mon'', ''x_mday'', ''x_hour'', ''x_min'', ''x_sec''] w"

definition ok_system3 :: handler where
  "ok_system3 arg w =
     (let w = hide_date w in
      do { n \<leftarrow> getval ''x_ntp_hostname'' w;
           finish OK (if length n > 6 then system_cmd (''/usr/sbin/ntpdate '' @ n) w else w) })"

text \<open>The remainder of C, with the sign of the dividend.\<close>

definition c_rem :: "int \<Rightarrow> int \<Rightarrow> int" where
  "c_rem a b = (if a < 0 then - ((- a) mod b) else a mod b)"

definition ok_system2 :: handler where
  "ok_system2 arg w =
     (let year = wrap32 (getval_int ''i_year'' w - 1900) in
      stay OK_NOSAVE
        (if year \<noteq> 0
         then w\<lparr>clock_set := Some \<lparr>tm_year = year,
                tm_mon = c_rem (wrap32 (getval_int ''i_mon'' w - 1)) 12,
                tm_mday = getval_int ''i_mday'' w,
                tm_hour = c_rem (getval_int ''i_hour'' w) 24,
                tm_min = c_rem (getval_int ''i_min'' w) 60,
                tm_sec = c_rem (getval_int ''i_sec'' w) 60\<rparr>\<rparr>
         else w))"

definition ok_system :: handler where
  "ok_system arg w =
     (if deref arg = CHR ''2'' then ok_system2 arg w
      else if deref arg = CHR ''3'' then ok_system3 arg w
      else finish OK (hide_date w))"

definition ok_save :: handler where
  "ok_save arg w =
     (let v = my_atoi (getval ''x_save_mode'' w);
          w = (case files w RC_CONF_TMP of
                 None \<Rightarrow> w
               | Some txt \<Rightarrow>
                   if can_write w RC_CONF
                   then w\<lparr>files := (files w)(RC_CONF_TMP := None, RC_CONF := Some txt)\<rparr> else w)
      in stay OK_SAVE w)"

subsection \<open>Accounts\<close>

definition USER_HOME :: cstring where "USER_HOME = ''/home''"
definition USER_GROUP :: int where "USER_GROUP = 100"

text \<open>Two given passwords that differ are an error of the user.\<close>

definition passwd_differs :: cstring where
  "passwd_differs =
     [CHR 0xA5, CHR 0xD1, CHR 0xA5, CHR 0xB9, CHR 0xA5, CHR 0xEF, CHR 0xA1, CHR 0xBC, CHR 0xA5, CHR 0xC9, CHR 0xA4, CHR 0xAC, CHR 0xB0, CHR 0xEC, CHR 0xC3, CHR 0xD7, CHR 0xA4, CHR 0xB7, CHR 0xA4, CHR 0xDE, CHR 0xA4, CHR 0xBB, CHR 0xA4, CHR 0xF3]"

definition useradd_cmd :: "cstring \<Rightarrow> cgi \<Rightarrow> cstring" where
  "useradd_cmd pw w =
     ''/usr/sbin/useradd -m -u '' @ str_of ''x_user_id'' w @ '' -g '' @ dec USER_GROUP @
     '' -p '' @ crypt w pw (dec (pid_now w)) @ '' -d '' @ USER_HOME @ ''/'' @ str_of ''x_user_login___T'' w @
     '' -c '' @ [CHR 0x27] @ str_of ''x_user_name___T'' w @ [CHR 0x27] @ '' '' @ str_of ''x_user_login___T'' w @
     '' > /dev/null''"

definition ok_user :: handler where
  "ok_user arg w =
     do { passwd1 \<leftarrow> getval ''x_user_passwd___T'' w;
          passwd2 \<leftarrow> getval ''x_user_passwd2___T'' w;
          if passwd1 \<noteq> passwd2
          then stay NG (w\<lparr>HTML_error := HTML_error w @ err_line passwd_differs\<rparr>)
          else stay CONT (system_cmd (useradd_cmd passwd1 w) w) }"

definition del_user :: "int \<Rightarrow> cgi \<Rightarrow> cgi" where
  "del_user uid w =
     (case getpwuid w uid of
        None \<Rightarrow> w
      | Some nm \<Rightarrow>
          let w' = system_cmd (''/usr/sbin/userdel -r '' @ nm) w in
          (case getgrgid w uid of
             None \<Rightarrow> w'
           | Some gr \<Rightarrow> system_cmd (''/usr/sbin/groupdel '' @ gr) w'))"

subsection \<open>Deleting\<close>

definition del_ent :: "cstring \<Rightarrow> cstring \<Rightarrow> cgi \<Rightarrow> cgi option" where
  "del_ent key tgt w =
     do { lst \<leftarrow> list_split NUL (getval key w);
          new \<leftarrow> list_join (list_remove_item lst tgt);
          Some (putval key new 1 w) }"

text \<open>The number in the name of a delete button.\<close>

definition d_number :: "env_entry \<Rightarrow> int option" where
  "d_number e =
     (if prefix ''d__'' (env_key e) then map_option fst (scan_d (drop 3 (env_key e))) else None)"

text \<open>The loop does not test for the end of the table.\<close>

definition del :: handler where
  "del arg w =
     do { e \<leftarrow> List.find (\<lambda>e. d_number e \<noteq> None) (envtop w);
          n \<leftarrow> d_number e;
          typ \<leftarrow> getval ''typ'' w;
          w \<leftarrow> (if typ = ''sendmail'' then del_ent ''x_sendmail_relay__'' (dec n) w
               else if typ = ''user'' then Some (del_user n w)
               else if typ = ''portfw'' then del_ent ''x_portfw__'' (dec n) w
               else if typ = ''fw'' then del_ent ''x_fw__'' (dec n) w
               else if typ = ''named'' then del_ent ''x_named_zone__'' (dec n) w
               else if typ = ''named_master''
               then del_ent (''x_named_zone_record__'' @ HTML_script_arg2 w @ ''__'') (dec n) w
               else Some w);
          finish OK w }"

subsection \<open>Lists of numbers\<close>

lemma word_ok_dec [simp]: "word_ok (dec n)"
proof -
  have "list_all (\<lambda>c. \<not> isspace c) (dec_nat k)" for k
    using dec_nat_digits [of k] by (auto simp: list_all_iff)
  then show ?thesis by (simp add: word_ok_def dec_def isspace_def [of "CHR ''-''"] byte_def)
qed

text \<open>The key holds the items \<open>xs\<close>, joined with blanks.\<close>

definition holds :: "cgi \<Rightarrow> cstring \<Rightarrow> cstring list \<Rightarrow> bool" where
  "holds w key xs \<longleftrightarrow> world_ok w \<and> key \<noteq> [] \<and> \<not> date_key key \<and> list_all word_ok xs
     \<and> getval3 key w = join_items xs"

lemma holds_words: "holds w key xs \<Longrightarrow> words (getval3 key w) = xs"
  by (simp add: holds_def idl.decode_enc)

lemma list_split_words:
  "\<exists>l. list_split NUL (Some p) = Some l \<and> list_ok l \<and> list_items l = words p \<and> list_n l < list_sz l"
  using list_split_ok [of NUL "Some p"] by (simp add: split_items_def)

definition joined :: "cstring list \<Rightarrow> cstring option" where
  "joined xs = (case xs of [] \<Rightarrow> Some [] | [s] \<Rightarrow> Some s | _ \<Rightarrow> None)"

lemma list_join_joined: "list_join l = joined (list_items l)"
  by (simp add: list_join_items joined_def)

lemma joined_snoc: "joined (xs @ [x]) = (if xs = [] then Some x else None)"
  by (cases xs) (auto simp: joined_def split: list.split)

lemma joined_items: "joined xs = Some s \<Longrightarrow> join_items xs = s"
  by (auto simp: joined_def split: list.splits)

lemma add_id_eq:
  "add_id key n w =
     (if dec n \<in> set (words (getval3 key w)) then Some (Inl ())
      else if words (getval3 key w) = [] then Some (Inr (putval key (dec n) 1 w)) else None)"
proof -
  obtain l where l: "list_split NUL (Some (getval3 key w)) = Some l" "list_ok l"
    "list_items l = words (getval3 key w)" "list_n l < list_sz l"
    using list_split_words by blast
  obtain l' where "list_push l (dec n) = Some l'" "list_items l' = list_items l @ [dec n]"
    using list_push_room [OF l(2,4)] by blast
  then show ?thesis using l by (simp add: add_id_def list_grep_member list_join_joined joined_snoc)
qed

lemma del_ent_eq:
  "del_ent key tgt w = map_option (\<lambda>s. putval key s 1 w) (joined (remove1 tgt (words (getval3 key w))))"
proof (cases "getval key w")
  case None
  then show ?thesis
    by (simp add: del_ent_def list_split_NULL list_join_joined joined_def list_remove_item_def list_items_def
        list_new_def getval3_def)
next
  case (Some v)
  obtain l where l: "list_split NUL (Some v) = Some l" "list_ok l" "list_items l = words v"
    using list_split_words by blast
  then show ?thesis
    using Some list_remove_items [OF l(2)]
    by (simp add: del_ent_def list_join_joined getval3_def map_conv_bind_option comp_def)
qed

lemma getval3_putval:
  "world_ok w \<Longrightarrow> key \<noteq> [] \<Longrightarrow> \<not> date_key k \<Longrightarrow>
   getval3 k (putval key v sw w) = (if k = key then v else getval3 k w)"
  by (simp add: getval3_def getval_map cs.lookup_put)

lemma holds_putval:
  "world_ok w \<Longrightarrow> key \<noteq> [] \<Longrightarrow> \<not> date_key key \<Longrightarrow> list_all word_ok xs \<Longrightarrow>
   holds (putval key (join_items xs) sw w) key xs"
  by (simp add: holds_def getval3_putval)

text \<open>
  Numbered entries: adding a listed number changes nothing; adding the first number lists it,
  and deleting it again gives the empty list; a second number is written behind the block
  that \<^verbatim>\<open>list_join\<close> allocates, and so is what a deletion leaves of three numbers.
\<close>

theorem add_then_delete:
  assumes "holds w key xs"
  shows "if dec n \<in> set xs then add_id key n w = Some (Inl ())
    else if xs = [] then
      \<exists>w'. add_id key n w = Some (Inr w') \<and> holds w' key [dec n] \<and> add_id key n w' = Some (Inl ())
        \<and> (\<exists>w''. del_ent key (dec n) w' = Some w'' \<and> holds w'' key [])
    else add_id key n w = None"
proof (cases "dec n \<notin> set xs \<and> xs = []")
  case False
  then show ?thesis using holds_words [OF assms] by (auto simp: add_id_eq)
next
  case True
  have k: "world_ok w" "key \<noteq> []" "\<not> date_key key"
    using assms(1) by (simp_all add: holds_def)
  let ?w = "putval key (dec n) 1 w"
  have h: "holds ?w key [dec n]" using holds_putval [OF k, of "[dec n]"] by simp
  have "holds (putval key [] 1 ?w) key []" using holds_putval [of ?w key "[]"] k by simp
  moreover have "add_id key n w = Some (Inr ?w)" using True holds_words [OF assms] by (simp add: add_id_eq)
  moreover have "add_id key n ?w = Some (Inl ())" by (simp add: add_id_eq holds_words [OF h])
  moreover have "del_ent key (dec n) ?w = Some (putval key [] 1 ?w)"
    by (simp add: del_ent_eq holds_words [OF h] joined_def)
  ultimately show ?thesis using True h by auto
qed

definition with_fw :: cgi where
  "with_fw = putval ''x_fw__'' ''1 2'' 0 empty_cgi"

lemma with_fw_holds: "holds with_fw ''x_fw__'' [dec 1, dec 2]"
proof -
  have "join_items [dec 1, dec 2] = ''1 2''" by code_simp
  then show ?thesis
    using holds_putval [of empty_cgi "''x_fw__''" "[dec 1, dec 2]" 0] by (simp add: with_fw_def date_key_def)
qed

theorem add_then_delete_witness: "add_id ''x_fw__'' 2 with_fw = Some (Inl ()) \<and> add_id ''x_fw__'' 3 with_fw = None"
proof -
  have "dec 3 \<notin> set [dec 1, dec 2]" by code_simp
  then show ?thesis
    using add_then_delete [OF with_fw_holds, of 3] add_then_delete [OF with_fw_holds, of 2] by simp
qed

definition fw_keys :: "cstring list" where
  "fw_keys = [''x_fw_proto___T'', ''x_fw_src_ip___T'', ''x_fw_src_subnet_mask___T'',
     ''x_fw_src_port___T'', ''x_fw_dst_ip___T'', ''x_fw_dst_subnet_mask___T'', ''x_fw_dst_port___T'',
     ''x_fw_action___T'']"

definition fw_rule :: "cgi \<Rightarrow> cstring" where
  "fw_rule w = join_items (dec (getval_int ''x_fw_id'' w) # map (\<lambda>k. str_of k w) fw_keys)"

lemma str_of_putval:
  "world_ok w \<Longrightarrow> key \<noteq> [] \<Longrightarrow> \<not> date_key k \<Longrightarrow> k \<noteq> key \<Longrightarrow> str_of k (putval key v sw w) = str_of k w"
  by (simp add: str_of_def getval_map cs.lookup_put)

lemma fw_keys_other: "k \<in> set fw_keys \<Longrightarrow> \<not> date_key k \<and> k \<noteq> ''x_fw__''"
  by (auto simp: fw_keys_def date_key_def)

lemma ok_fw_eq:
  assumes "holds w ''x_fw__'' xs" "deref arg = CHR ''2''"
  shows "ok_fw arg w =
     (if dec (getval_int ''x_fw_id'' w) \<in> set xs then stay CONT w
      else if xs = []
      then finish CONT (putval (''x_fw__'' @ dec (getval_int ''x_fw_id'' w)) (fw_rule w) 1
             (putval ''x_fw__'' (dec (getval_int ''x_fw_id'' w)) 1 w))
      else None)"
proof -
  let ?n = "getval_int ''x_fw_id'' w"
  let ?w1 = "putval ''x_fw__'' (dec ?n) 1 w"
  have w: "world_ok w" using assms(1) by (simp add: holds_def)
  have s: "str_of k ?w1 = str_of k w" if "k \<in> set fw_keys" for k
    using fw_keys_other [OF that] by (intro str_of_putval [OF w]) simp_all
  then have m: "map (\<lambda>k. str_of k ?w1) fw_keys = map (\<lambda>k. str_of k w) fw_keys"
    by (intro map_cong refl)
  have r: "fw_rule w = spaced (dec ?n # map (\<lambda>k. str_of k ?w1) fw_keys)"
    unfolding fw_rule_def spaced_def m ..
  have "\<not> (deref arg = NUL \<or> deref arg = CHR ''1'')" using assms(2) by simp
  then show ?thesis
    unfolding ok_fw_def Let_def add_id_eq holds_words [OF assms(1)] r
    by (cases "dec ?n \<in> set xs"; cases "xs = []") (simp_all add: fw_keys_def del: putval_frame)
qed

lemma files_update [simp]:
  "world_map (w\<lparr>files := f\<rparr>) = world_map w" "world_ok (w\<lparr>files := f\<rparr>) = world_ok w"
  "saved (w\<lparr>files := f\<rparr>) = saved w"
  by (simp_all add: world_map_def world_ok_def saved_def)

text \<open>
  A firewall rule: with a number that is listed the handler changes nothing and writes
  nothing; with the first number it lists it, stores the rule under it, the number first and
  the eight fields as they were sent, and writes the temporary configuration; a second
  number has no defined result.
\<close>

theorem ok_fw_adds_rule:
  assumes "holds w ''x_fw__'' xs" "can_write w RC_CONF_TMP"
  shows "if dec (getval_int ''x_fw_id'' w) \<in> set xs then ok_fw ''2'' w = Some (Inr (CONT, w))
     else if xs = [] then \<exists>w'. ok_fw ''2'' w = Some (Inr (CONT, w'))
       \<and> holds w' ''x_fw__'' [dec (getval_int ''x_fw_id'' w)]
       \<and> getval (''x_fw__'' @ dec (getval_int ''x_fw_id'' w)) w' = Some (fw_rule w)
       \<and> files w' RC_CONF_TMP = Some (conf_text (saved w') (length (envtop w')))
     else ok_fw ''2'' w = None"
proof (cases "dec (getval_int ''x_fw_id'' w) \<notin> set xs \<and> xs = []")
  case False
  then show ?thesis using ok_fw_eq [OF assms(1), of "''2''"] by (auto simp: stay_def)
next
  case True
  let ?n = "dec (getval_int ''x_fw_id'' w)"
  let ?w1 = "putval ''x_fw__'' ?n 1 w"
  let ?w2 = "putval (''x_fw__'' @ ?n) (fw_rule w) 1 ?w1"
  let ?w' = "?w2\<lparr>files := (files ?w2)(RC_CONF_TMP \<mapsto> conf_text (saved ?w2) (length (envtop ?w2)))\<rparr>"
  have k: "world_ok w" using assms(1) by (simp add: holds_def)
  have "can_write ?w2 RC_CONF_TMP" using assms(2) by (simp add: putval_def putval_withdesc_def)
  then have r: "ok_fw ''2'' w = Some (Inr (CONT, ?w'))"
    using ok_fw_eq [OF assms(1), of "''2''"] True by (simp add: finish_def write_conf_text saved_def)
  have d: "\<not> date_key ''x_fw__''" "\<not> date_key (''x_fw__'' @ ?n)"
    by (simp_all add: date_key_def)
  have w1: "world_ok ?w1" using k by simp
  have g: "getval ''x_fw__'' ?w' = Some ?n"
    using k d w1 by (simp add: getval_map cs.lookup_put)
  have "holds ?w' ''x_fw__'' [?n]"
    using k d w1 g by (simp add: holds_def getval3_def)
  moreover have "getval (''x_fw__'' @ ?n) ?w' = Some (fw_rule w)"
    using k d w1 by (simp add: getval_map cs.lookup_put)
  moreover have "files ?w' RC_CONF_TMP = Some (conf_text (saved ?w') (length (envtop ?w')))"
    by simp
  ultimately have "\<exists>w'. ok_fw ''2'' w = Some (Inr (CONT, w')) \<and> holds w' ''x_fw__'' [?n]
       \<and> getval (''x_fw__'' @ ?n) w' = Some (fw_rule w)
       \<and> files w' RC_CONF_TMP = Some (conf_text (saved w') (length (envtop w')))"
    using r by (intro exI [of _ ?w'] conjI)
  moreover have "?n \<notin> set xs" "xs = []" using True by simp_all
  ultimately show ?thesis by (simp only: if_False if_True simp_thms)
qed

theorem ok_fw_adds_rule_witness: "ok_fw ''2'' with_fw = None"
proof -
  have "getval_int ''x_fw_id'' with_fw = 0"
    by (simp add: getval_int_def getval_map date_key_def with_fw_def cs.lookup_put)
  moreover have "dec 0 \<notin> set [dec 1, dec 2]" by code_simp
  moreover have "can_write with_fw RC_CONF_TMP"
    by (simp add: with_fw_def putval_def putval_withdesc_def empty_cgi_def)
  ultimately show ?thesis using ok_fw_adds_rule [OF with_fw_holds] by simp
qed

lemma add_eq:
  "getval id_key w = Some n \<Longrightarrow>
   add list_key id_key w =
     (if n \<in> set (words (getval3 list_key w)) then Some (4, w)
      else if words (getval3 list_key w) = [] then Some (atoi n, putval list_key n 1 w) else None)"
proof -
  assume n: "getval id_key w = Some n"
  obtain l where l: "list_split NUL (Some (getval3 list_key w)) = Some l" "list_ok l"
    "list_items l = words (getval3 list_key w)" "list_n l < list_sz l"
    using list_split_words by blast
  obtain l' where "list_push l n = Some l'" "list_items l' = list_items l @ [n]"
    using list_push_room [OF l(2,4)] by blast
  then show ?thesis using l n by (simp add: add_def list_grep_member list_join_joined joined_snoc status_num_def)
qed

lemma zone_records_key [simp]: "\<not> date_key (zone_records m @ k)" "zone_records m \<noteq> []"
  by (simp_all add: date_key_def zone_records_def)

text \<open>
  A number that is listed already is not refused by \<^verbatim>\<open>add\<close>: it answers the
  status \<^verbatim>\<open>CONT\<close>, which its callers use as the number of the new entry. Sending the
  number of an existing record of a zone stores the sent record as record 4, over the one
  that is there.
\<close>

theorem add_known_record_hits_four:
  assumes "holds w (zone_records m) xs" "HTML_script_arg2 w = dec m" "int32 m"
    "getval ''x_named_zone_record_id'' w = Some n" "n \<in> set xs"
    "getval ''x_named_zone_record_domain___T'' w = Some d" "getval ''x_named_zone_record_typ___T'' w = Some t"
    "getval ''x_named_zone_record_resource___T'' w = Some r" "can_write w RC_CONF_TMP"
  shows "\<exists>w'. ok_named_master arg w = Some (Inr (CONT, w'))
    \<and> getval (zone_records m @ k) w' =
        (if k = ''4'' then Some (spaced [d, t, r]) else getval (zone_records m @ k) w)"
proof -
  let ?w1 = "putval (zone_records m @ dec 4) (spaced [d, t, r]) 1 w"
  have w: "world_ok w" using assms(1) by (simp add: holds_def)
  have four: "dec 4 = ''4''" by code_simp
  have m: "my_atoi (Some (HTML_script_arg2 w)) = m"
    using assms(2,3) by (simp add: my_atoi_def atoi_dec int32_def)
  have a: "add (zone_records m) ''x_named_zone_record_id'' w = Some (4, w)"
    using add_eq [OF assms(4)] holds_words [OF assms(1)] assms(5) by simp
  have "ok_named_master arg w = finish CONT ?w1"
    unfolding ok_named_master_def Let_def assms(4) by (simp add: a m assms(6-8))
  moreover have "can_write ?w1 RC_CONF_TMP" using assms(9) by (simp add: putval_def putval_withdesc_def)
  ultimately obtain f where r: "ok_named_master arg w = Some (Inr (CONT, ?w1\<lparr>files := f\<rparr>))"
    using write_conf_text [of ?w1] by (simp add: finish_def)
  have "getval (zone_records m @ k) (?w1\<lparr>files := f\<rparr>) =
      (if k = ''4'' then Some (spaced [d, t, r]) else getval (zone_records m @ k) w)"
    using w by (simp add: getval_map cs.lookup_put four)
  then show ?thesis using r by blast
qed

definition with_record :: cgi where
  "with_record = fold (\<lambda>(k, v). putval k v 1)
     [(zone_records 7, ''1 4''), (zone_records 7 @ ''4'', ''www A 10.0.0.4''), (zone_records 7 @ ''1'', ''ns A 10.0.0.1''),
      (''x_named_zone_record_id'', ''1''), (''x_named_zone_record_domain___T'', ''mx''),
      (''x_named_zone_record_typ___T'', ''A''), (''x_named_zone_record_resource___T'', ''10.0.0.9'')]
     (empty_cgi\<lparr>HTML_script_arg2 := ''7''\<rparr>)"

theorem add_known_record_hits_four_witness:
  "getval (zone_records 7 @ ''4'') with_record = Some ''www A 10.0.0.4''
   \<and> (\<exists>w'. ok_named_master '''' with_record = Some (Inr (CONT, w'))
        \<and> getval (zone_records 7 @ ''4'') w' = Some ''mx A 10.0.0.9'')"
proof -
  have z: "zone_records 7 = ''x_named_zone_record__7__''" by code_simp
  let ?e = "empty_cgi\<lparr>HTML_script_arg2 := ''7''\<rparr>"
  have e: "world_ok ?e" "world_map ?e = Map.empty"
    by (simp_all add: empty_cgi_def world_ok_def env_ok_def world_map_def env_map_def fun_eq_iff)
  let ?kvs = "[(zone_records 7, ''1 4''), (zone_records 7 @ ''4'', ''www A 10.0.0.4''), (zone_records 7 @ ''1'', ''ns A 10.0.0.1''),
      (''x_named_zone_record_id'', ''1''), (''x_named_zone_record_domain___T'', ''mx''),
      (''x_named_zone_record_typ___T'', ''A''), (''x_named_zone_record_resource___T'', ''10.0.0.9'')]"
  have "list_all ((\<lambda>k. k \<noteq> []) \<circ> fst) ?kvs" by simp
  note p = cs.put_all [OF e(1) this, where sw = 1]
  have g: "getval k with_record = map_of (rev ?kvs) k" if "\<not> date_key k" for k
    using p that e(2) by (simp add: getval_map with_record_def)
  have ok: "world_ok with_record" using p by (simp add: with_record_def)
  have fr: "HTML_script_arg2 with_record = dec 7" "can_write with_record RC_CONF_TMP"
  proof -
    have "HTML_script_arg2 with_record = ''7''" "can_write with_record RC_CONF_TMP"
      by (simp_all add: with_record_def putval_def putval_withdesc_def empty_cgi_def)
    moreover have "dec 7 = ''7''" by code_simp
    ultimately show "HTML_script_arg2 with_record = dec 7" "can_write with_record RC_CONF_TMP" by simp_all
  qed
  have h: "holds with_record (zone_records 7) [''1'', ''4'']"
    using ok g [of "zone_records 7"] zone_records_key(1) [of 7 "[]"]
    by (simp add: holds_def getval3_def z word_ok_def isspace_def byte_def)
  have "\<not> date_key ''x_named_zone_record_id''" "\<not> date_key ''x_named_zone_record_domain___T''"
    "\<not> date_key ''x_named_zone_record_typ___T''" "\<not> date_key ''x_named_zone_record_resource___T''"
    "\<not> date_key (zone_records 7 @ ''4'')"
    by (simp_all add: date_key_def z)
  note gs = this [THEN g, unfolded z, simplified]
  show ?thesis
    using add_known_record_hits_four [OF h fr(1), of "''1''" "''mx''" "''A''" "''10.0.0.9''" "''''" "''4''"] gs fr(2)
    by (simp add: z int32_def int_min_def int_max_def spaced_def)
qed

subsection \<open>What handlers write\<close>

text \<open>
  What a request may do to the files on its way to the handler's page: it runs commands for
  the accounts and for the clock, which do to the files what they do, and it may then replace
  the temporary configuration by a text that \<^verbatim>\<open>write_conf\<close> prints. A reply is
  \<open>tmp_only\<close> when it keeps to that and does not ask for the saving page.
\<close>

definition printed :: "cstring \<Rightarrow> bool" where
  "printed t \<longleftrightarrow> (\<exists>es n. t = conf_text (List.filter (writes False) es) n)"

definition handler_cmd :: "cstring \<Rightarrow> bool" where
  "handler_cmd c \<longleftrightarrow> prefix ''/usr/sbin/useradd '' c \<or> prefix ''/usr/sbin/userdel -r '' c
     \<or> prefix ''/usr/sbin/groupdel '' c \<or> prefix ''/usr/sbin/ntpdate '' c"

text \<open>What can be seen of a state from outside.\<close>

definition outside :: "cgi \<Rightarrow> (cstring \<Rightarrow> cstring option) \<times> cstring list \<times>
    (cstring \<Rightarrow> (cstring \<Rightarrow> cstring option) \<Rightarrow> cstring \<Rightarrow> cstring option)" where
  "outside w = (files w, sys_log w, sys_effect w)"

definition run_step :: "cgi \<Rightarrow> cgi \<Rightarrow> bool" where
  "run_step w v \<longleftrightarrow> (\<exists>cs. list_all handler_cmd cs \<and>
     outside v = (fold (sys_effect w) cs (files w), sys_log w @ cs, sys_effect w))"

definition tmp_step :: "cgi \<Rightarrow> cgi \<Rightarrow> bool" where
  "tmp_step w v \<longleftrightarrow> (\<exists>cs f. list_all handler_cmd cs \<and> outside v = (f, sys_log w @ cs, sys_effect w) \<and>
     (f = fold (sys_effect w) cs (files w) \<or>
      (\<exists>t. printed t \<and> f = (fold (sys_effect w) cs (files w))(RC_CONF_TMP \<mapsto> t))))"

definition tmp_only :: "cgi \<Rightarrow> reply \<Rightarrow> bool" where
  "tmp_only w r \<longleftrightarrow> (\<forall>w'. r = Some (Inl w') \<longrightarrow> tmp_step w w') \<and>
     (\<forall>st w'. r = Some (Inr (st, w')) \<longrightarrow> st \<noteq> OK_SAVE \<and> tmp_step w w')"

lemma outside_simps [simp]:
  "outside (putval k v sw w) = outside w" "outside (delval k w) = outside w"
  "outside (snd (setvalflag k f w)) = outside w"
  "outside (w\<lparr>HTML_error := e\<rparr>) = outside w" "outside (w\<lparr>clock_set := c\<rparr>) = outside w"
  "outside (w\<lparr>HTML_error := e, html_out := h\<rparr>) = outside w" "outside (w\<lparr>html_out := h\<rparr>) = outside w"
  by (simp_all add: outside_def)

lemma run_step_outside: "outside v = outside w \<Longrightarrow> run_step w v"
  by (auto simp: run_step_def outside_def intro: exI [of _ "[]"])

lemma run_step_refl [simp]: "run_step w w"
  by (simp add: run_step_outside)

lemma run_step_cmd:
  assumes "run_step w v" "handler_cmd c"
  shows "run_step w (system_cmd c v)"
proof -
  obtain cs where "list_all handler_cmd cs"
    "outside v = (fold (sys_effect w) cs (files w), sys_log w @ cs, sys_effect w)"
    using assms(1) by (auto simp: run_step_def)
  then show ?thesis
    using assms(2) unfolding run_step_def
    by (intro exI [of _ "cs @ [c]"]) (simp add: outside_def system_cmd_def)
qed

lemma run_step_cong: "outside u = outside v \<Longrightarrow> run_step w u = run_step w v"
  by (simp add: run_step_def)

lemma tmp_step_run: "run_step w v \<Longrightarrow> tmp_step w v"
  by (auto simp: run_step_def tmp_step_def)

lemma tmp_step_cong: "outside u = outside v \<Longrightarrow> outside x = outside w \<Longrightarrow> tmp_step x u = tmp_step w v"
  by (simp add: tmp_step_def outside_def)

lemma tmp_step_refl [simp]: "tmp_step w w"
  by (simp add: tmp_step_run)

lemma write_conf_cases:
  "(\<exists>w'. write_conf w = Inl w' \<and> outside w' = outside w) \<or>
   (\<exists>w' t. write_conf w = Inr w' \<and> printed t \<and>
      outside w' = ((files w)(RC_CONF_TMP \<mapsto> t), sys_log w, sys_effect w))"
proof (cases "can_write w RC_CONF_TMP")
  case True
  let ?t = "conf_text (List.filter (writes False) (envtop w)) (length (envtop w))"
  have "printed ?t" unfolding printed_def by blast
  moreover have "outside (w\<lparr>files := (files w)(RC_CONF_TMP \<mapsto> ?t)\<rparr>) =
      ((files w)(RC_CONF_TMP \<mapsto> ?t), sys_log w, sys_effect w)" by (simp add: outside_def)
  ultimately show ?thesis using write_conf_text [OF True] by (intro disjI2 exI conjI)
qed (simp add: write_conf_def write_conf2_def die_eq outside_def)

lemma tmp_only_finish:
  assumes "st \<noteq> OK_SAVE" "run_step w v"
  shows "tmp_only w (finish st v)"
  using write_conf_cases [of v]
proof (elim disjE exE conjE)
  fix u assume "write_conf v = Inl u" and o: "outside u = outside v"
  moreover have "tmp_step w u" by (rule tmp_step_run) (use assms(2) o in \<open>simp add: run_step_def\<close>)
  ultimately show ?thesis by (simp add: tmp_only_def finish_def)
next
  fix u t assume u: "write_conf v = Inr u" "printed t"
    "outside u = ((files v)(RC_CONF_TMP \<mapsto> t), sys_log v, sys_effect v)"
  then have "tmp_step w u"
    using assms(2) by (auto simp: run_step_def tmp_step_def outside_def)
  then show ?thesis using u(1) assms(1) by (simp add: tmp_only_def finish_def)
qed

lemma tmp_only_stay: "st \<noteq> OK_SAVE \<Longrightarrow> run_step w v \<Longrightarrow> tmp_only w (stay st v)"
  by (simp add: tmp_only_def stay_def tmp_step_run)

lemma tmp_only_finish_same: "st \<noteq> OK_SAVE \<Longrightarrow> outside v = outside w \<Longrightarrow> tmp_only w (finish st v)"
  by (simp add: tmp_only_finish run_step_outside)

lemma tmp_only_None: "tmp_only w None"
  by (simp add: tmp_only_def)

lemma tmp_only_bind:
  "(\<And>x. m = Some x \<Longrightarrow> tmp_only w (f x)) \<Longrightarrow> tmp_only w (m \<bind> f)"
  by (cases m) (simp_all add: tmp_only_None)

lemma tmp_only_if: "(b \<Longrightarrow> tmp_only w r) \<Longrightarrow> (\<not> b \<Longrightarrow> tmp_only w s) \<Longrightarrow> tmp_only w (if b then r else s)"
  by simp

lemma add_outside: "add l k w = Some (n, w') \<Longrightarrow> outside w' = outside w"
  by (auto simp: add_def bind_eq_Some_conv split: if_splits)

lemma add_id_outside: "add_id l n w = Some (Inr w') \<Longrightarrow> outside w' = outside w"
  by (auto simp: add_id_def bind_eq_Some_conv split: if_splits)

lemma del_ent_outside: "del_ent k t w = Some w' \<Longrightarrow> outside w' = outside w"
  by (auto simp: del_ent_def bind_eq_Some_conv)

lemma set_broadcast_outside: "set_broadcast e w = Some w' \<Longrightarrow> outside w' = outside w"
  by (auto simp: set_broadcast_def bind_eq_Some_conv split: option.splits)

lemma set_local_outside: "set_local e k w = Some w' \<Longrightarrow> outside w' = outside w"
  by (auto simp: set_local_def Let_def split: if_splits)

lemma hide_date_outside [simp]: "outside (hide_date w) = outside w"
  by (simp add: hide_date_def)

lemma useradd_handler_cmd: "handler_cmd (useradd_cmd pw w)"
  by (simp add: handler_cmd_def useradd_cmd_def)

lemma del_user_run: "run_step w (del_user n w)"
  by (auto simp: del_user_def Let_def handler_cmd_def intro!: run_step_cmd split: option.split)

lemmas tmp_only_intros = tmp_only_if tmp_only_finish tmp_only_stay

lemma tmp_only_named_master: "tmp_only w (ok_named_master arg w)"
  unfolding ok_named_master_def Let_def
  by (rule tmp_only_bind) (auto split: prod.split option.split dest!: add_outside intro!: tmp_only_finish_same)

lemma tmp_only_named2: "tmp_only w (ok_named2 arg w)"
proof -
  let ?put = "\<lambda>n ty name w. let w = putval (''x_named_zone__'' @ dec n) (spaced [ty, name]) 1 w;
      w = putval (''x_named_zone_soa_mname__'' @ dec n)
            (str_of ''x_hostname'' w @ ''.'' @ str_of ''x_domainname'' w) 1 w
      in putval (''x_named_zone_soa_rname__'' @ dec n) (''root.'' @ str_of ''x_domainname'' w) 1 w"
  have p: "outside (?put n ty name w) = outside w" for n ty name w by (simp add: Let_def)
  have c: "outside (case (a, b) of (Some ty, Some name) \<Rightarrow> ?put n ty name v | _ \<Rightarrow> v) = outside v" for a b n v
    using p by (simp split: option.split)
  show ?thesis
    unfolding ok_named2_def
    apply (intro tmp_only_bind tmp_only_if)
       apply (simp add: ok_named_master_soa_def tmp_only_finish)
      apply (rule tmp_only_named_master)
     apply (simp add: ok_named_slave_def tmp_only_finish)
    subgoal for ty r
      by (cases r) (use c add_outside in \<open>auto simp: Let_def intro!: tmp_only_finish_same\<close>)
    done
qed

lemma tmp_only_named: "tmp_only w (ok_named arg w)"
  unfolding ok_named_def
  by (intro tmp_only_intros tmp_only_named2 tmp_only_named_master)
    (simp_all add: ok_named_slave_def tmp_only_finish)

lemma tmp_only_sendmail: "tmp_only w (ok_sendmail arg w)"
  unfolding ok_sendmail_def ok_sendmail2_def Let_def
  by (intro tmp_only_intros tmp_only_bind)
    (auto split: sum.split option.split dest!: add_id_outside intro!: tmp_only_finish_same tmp_only_stay)

lemma tmp_only_fw: "tmp_only w (ok_fw arg w)"
  unfolding ok_fw_def ok_portfw_def Let_def
  by (intro tmp_only_intros tmp_only_bind)
    (auto split: sum.split dest!: add_id_outside intro!: tmp_only_finish_same tmp_only_stay)

lemma tmp_only_network: "tmp_only w (ok_network arg w)"
  unfolding ok_network_def
  by (intro tmp_only_bind tmp_only_finish_same) (auto dest!: set_broadcast_outside)

lemma tmp_only_ipv6: "tmp_only w (ok_ipv6 arg w)"
  unfolding ok_ipv6_def
  by (intro tmp_only_bind tmp_only_finish_same) (auto dest!: set_local_outside)

lemma ntpdate_run: "run_step w (system_cmd (''/usr/sbin/ntpdate '' @ n) (hide_date w))"
  by (intro run_step_cmd run_step_outside) (simp_all add: handler_cmd_def)

lemma tmp_only_system: "tmp_only w (ok_system arg w)"
  unfolding ok_system_def ok_system2_def ok_system3_def Let_def
  by (intro tmp_only_intros tmp_only_bind)
    (simp_all add: run_step_outside ntpdate_run del: append_Cons append_Nil)

lemma tmp_only_user: "tmp_only w (ok_user arg w)"
  unfolding ok_user_def
  by (intro tmp_only_intros tmp_only_bind) (auto intro: run_step_cmd run_step_outside useradd_handler_cmd)

lemma tmp_only_del: "tmp_only w (del arg w)"
  unfolding del_def
  by (intro tmp_only_bind tmp_only_finish)
    (auto split: if_splits dest!: del_ent_outside intro: run_step_outside del_user_run)

lemma tmp_only_plain:
  "tmp_only w (ok_dhcp arg w)" "tmp_only w (ok_httpd arg w)" "tmp_only w (ok_masq arg w)" "tmp_only w (ok_samba arg w)"
  by (simp_all add: ok_dhcp_def ok_httpd_def ok_masq_def ok_samba_def tmp_only_finish)

lemmas tmp_only_handlers = tmp_only_plain tmp_only_named tmp_only_sendmail tmp_only_fw tmp_only_network tmp_only_ipv6
  tmp_only_system tmp_only_user tmp_only_del

text \<open>
  The handler of the saving page moves the temporary configuration over the saved one
  and touches no other file; called again, without a temporary one, it does nothing.
\<close>

theorem ok_save_moves_tmp:
  assumes "files w RC_CONF_TMP = Some txt" "can_write w RC_CONF"
  shows "\<exists>w'. ok_save arg w = Some (Inr (OK_SAVE, w')) \<and> files w' RC_CONF = Some txt
    \<and> files w' RC_CONF_TMP = None \<and> (\<forall>p. p \<notin> {RC_CONF, RC_CONF_TMP} \<longrightarrow> files w' p = files w p)
    \<and> ok_save arg w' = Some (Inr (OK_SAVE, w'))"
  using assms by (simp add: ok_save_def stay_def conf_paths)

theorem ok_save_moves_tmp_witness:
  "\<exists>w'. ok_save '''' (empty_cgi\<lparr>files := [RC_CONF_TMP \<mapsto> ''x'']\<rparr>) = Some (Inr (OK_SAVE, w'))
    \<and> files w' RC_CONF = Some ''x''"
  using ok_save_moves_tmp [of "empty_cgi\<lparr>files := [RC_CONF_TMP \<mapsto> ''x'']\<rparr>" "''x''" "''''"]
  by (auto simp: empty_cgi_def)

subsection \<open>Commands and faults\<close>

lemma hide_date_getval: "world_ok w \<Longrightarrow> \<not> date_key k \<Longrightarrow> getval k (hide_date w) = getval k w"
  by (simp add: getval_map hide_date_def)

lemma hide_date_log [simp]: "sys_log (hide_date w) = sys_log w"
  by (simp add: hide_date_def)

lemma write_conf_log: "write_conf w = Inr w' \<Longrightarrow> sys_log w' = sys_log w"
  by (auto simp: write_conf_def write_conf2_def die_eq Let_def split: if_splits)

lemma write_conf_can: "can_write w RC_CONF_TMP \<Longrightarrow> \<exists>w'. write_conf w = Inr w'"
  by (simp add: write_conf_text)

lemma hide_date_can [simp]: "can_write (hide_date w) = can_write w"
  by (simp add: hide_date_def setvalflag_def split: option.split)

text \<open>
  The address check does not keep shell characters out of the root shell: a time server
  that consists of an address, a fourth dot and anything at all is accepted and becomes the
  end of the command line of \<^verbatim>\<open>ntpdate\<close>.
\<close>

theorem ntp_server_injection:
  assumes "world_ok w" "can_write w RC_CONF_TMP"
    "octet_str a" "octet_str b" "octet_str c" "octet_str d"
    "getval ''x_ntp_hostname'' w = Some (a @ ''.'' @ b @ ''.'' @ c @ ''.'' @ d @ ''.'' @ cmd)"
  shows "is_ip4 ''x_ntp_hostname'' desc w = Some None
    \<and> (\<exists>w'. ok_system ''3'' w = Some (Inr (OK, w')) \<and>
         sys_log w' = sys_log w @ [''/usr/sbin/ntpdate '' @ a @ ''.'' @ b @ ''.'' @ c @ ''.'' @ d @ ''.'' @ cmd])"
proof
  show "is_ip4 ''x_ntp_hostname'' desc w = Some None"
    unfolding is_ip4_accepted [OF assms(7)] octets_4 using assms(3-6)
    by (intro exI [of _ a] exI [of _ b] exI [of _ c] exI [of _ d] exI [of _ "''.'' @ cmd"]) simp
  let ?n = "a @ ''.'' @ b @ ''.'' @ c @ ''.'' @ d @ ''.'' @ cmd"
  have len: "length ?n > 6"
  proof -
    have "0 < length a" "0 < length b" "0 < length c" "0 < length d"
      using assms(3-6) by (simp_all add: octet_str_def)
    then show ?thesis unfolding length_append list.size by linarith
  qed
  let ?w1 = "system_cmd (''/usr/sbin/ntpdate '' @ ?n) (hide_date w)"
  have g: "getval ''x_ntp_hostname'' (hide_date w) = Some ?n"
    using assms(1,7) by (simp add: hide_date_getval date_key_def)
  have "can_write ?w1 RC_CONF_TMP" using assms(2) by (simp add: system_cmd_def)
  then obtain w' where w': "write_conf ?w1 = Inr w'" using write_conf_can by blast
  then have "sys_log w' = sys_log w @ [''/usr/sbin/ntpdate '' @ ?n]"
    using write_conf_log [OF w'] by (simp add: system_cmd_def)
  moreover have "ok_system ''3'' w = Some (Inr (OK, w'))"
    using g len w' by (simp add: ok_system_def ok_system3_def Let_def finish_def)
  ultimately show "\<exists>w'. ok_system ''3'' w = Some (Inr (OK, w')) \<and>
         sys_log w' = sys_log w @ [''/usr/sbin/ntpdate '' @ ?n]" by blast
qed

theorem ntp_server_injection_witness:
  "\<exists>w'. ok_system ''3'' (putval ''x_ntp_hostname'' ''1.2.3.4.;reboot'' 1 empty_cgi) = Some (Inr (OK, w'))
     \<and> sys_log w' = [''/usr/sbin/ntpdate 1.2.3.4.;reboot'']"
proof -
  let ?w = "putval ''x_ntp_hostname'' ''1.2.3.4.;reboot'' 1 empty_cgi"
  have "octet_str ''1''" "octet_str ''2''" "octet_str ''3''" "octet_str ''4''" by code_simp+
  moreover have "getval ''x_ntp_hostname'' ?w = Some (''1'' @ ''.'' @ ''2'' @ ''.'' @ ''3'' @ ''.'' @ ''4'' @ ''.'' @ '';reboot'')"
    by (simp add: getval_map date_key_def cs.lookup_put)
  moreover have "can_write ?w RC_CONF_TMP" "sys_log ?w = []"
    by (simp_all add: putval_def putval_withdesc_def empty_cgi_def)
  ultimately show ?thesis using ntp_server_injection [of ?w "''1''" "''2''" "''3''" "''4''" "'';reboot''" "''''"]
    by simp
qed

text \<open>
  A user name is accepted with any printable characters, and \<^verbatim>\<open>ok_user\<close> puts it
  between single quotes of the command line: a name with a quote ends them, and what follows
  stands outside.
\<close>

theorem user_name_injection:
  assumes "getval ''x_user_passwd___T'' w = Some pw" "getval ''x_user_passwd2___T'' w = Some pw"
    "getval ''x_user_name___T'' w = Some (nm @ [CHR 0x27] @ cmd)" "list_all isprint (nm @ cmd)"
  shows "is_print ''x_user_name___T'' desc w = Some None
    \<and> (\<exists>w' pre post. ok_user arg w = Some (Inr (CONT, w')) \<and>
         sys_log w' = sys_log w @ [pre @ [CHR 0x27] @ nm @ [CHR 0x27] @ cmd @ [CHR 0x27] @ post])"
proof
  have "isprint (CHR 0x27)" by (simp add: isprint_def byte_def)
  then show "is_print ''x_user_name___T'' desc w = Some None"
    using assms(3,4) by (auto simp: is_print_def list_all_iff list_ex_iff)
  have "\<exists>pre post. useradd_cmd pw w = pre @ [CHR 0x27] @ nm @ [CHR 0x27] @ cmd @ [CHR 0x27] @ post"
    unfolding useradd_cmd_def str_of_def [of "''x_user_name___T''"] assms(3) pct_s_simps
    by (intro exI [of _ "''/usr/sbin/useradd -m -u '' @ str_of ''x_user_id'' w @ '' -g '' @ dec USER_GROUP @
     '' -p '' @ crypt w pw (dec (pid_now w)) @ '' -d '' @ USER_HOME @ ''/'' @ str_of ''x_user_login___T'' w @
     '' -c ''"] exI [of _ "'' '' @ str_of ''x_user_login___T'' w @ '' > /dev/null''"])
      (simp only: append_assoc)
  then show "\<exists>w' pre post. ok_user arg w = Some (Inr (CONT, w')) \<and>
         sys_log w' = sys_log w @ [pre @ [CHR 0x27] @ nm @ [CHR 0x27] @ cmd @ [CHR 0x27] @ post]"
    using assms(1,2) by (auto simp: ok_user_def stay_def system_cmd_def)
qed

theorem user_name_injection_witness:
  "\<exists>w' pre post. ok_user '''' (putval ''x_user_name___T'' (CHR 0x27 # '';reboot;'') 1
      (putval ''x_user_passwd2___T'' ''pw'' 1 (putval ''x_user_passwd___T'' ''pw'' 1 empty_cgi))) = Some (Inr (CONT, w'))
    \<and> sys_log w' = [pre @ [CHR 0x27] @ [CHR 0x27] @ '';reboot;'' @ [CHR 0x27] @ post]"
proof -
  let ?w = "putval ''x_user_name___T'' (CHR 0x27 # '';reboot;'') 1
      (putval ''x_user_passwd2___T'' ''pw'' 1 (putval ''x_user_passwd___T'' ''pw'' 1 empty_cgi))"
  have "getval ''x_user_passwd___T'' ?w = Some ''pw''" "getval ''x_user_passwd2___T'' ?w = Some ''pw''"
    "getval ''x_user_name___T'' ?w = Some ([] @ [CHR 0x27] @ '';reboot;'')"
    by (simp_all add: getval_map date_key_def cs.lookup_put)
  moreover have "list_all isprint ([] @ '';reboot;'')" by (simp add: isprint_def byte_def)
  moreover have "sys_log ?w = []" by (simp add: empty_cgi_def)
  ultimately show ?thesis
    using user_name_injection [of ?w "''pw''" "[]" "'';reboot;''" "''''" "''''"] by simp
qed

text \<open>
  \<^verbatim>\<open>del\<close> looks for a delete button without testing for the end of the table:
  without one it goes through a NULL pointer, whatever else the table holds.
\<close>

theorem del_needs_button:
  assumes "\<forall>e \<in> set (envtop w). \<not> prefix ''d__'' (env_key e)"
  shows "del arg w = None"
proof -
  have "List.find (\<lambda>e. d_number e \<noteq> None) (envtop w) = None"
    using assms by (auto simp: find_None_iff d_number_def)
  then show ?thesis by (simp add: del_def)
qed

theorem del_needs_button_witness: "del '''' with_fw = None"
  using del_needs_button [of with_fw "''''"]
  by (simp add: with_fw_def putval_def putval_withdesc_def empty_cgi_def)

end
