(* ===== verification/Generators.thy ===== *)
theory Generators
  imports Handlers
begin

unbundle bit_operations_syntax

text \<open>
  The files that saving generates: the daemon configurations of
  \<^verbatim>\<open>contrib/setup/rc2conf.c\<close> and the packet filter and router advertisement files of
  \<^verbatim>\<open>sysupdate\<close> in \<^verbatim>\<open>setup.c\<close>. A generator answers its return value and the new
  state; \<open>None\<close> stands for a read or write outside a buffer, a list or a string.
\<close>

type_synonym gen = "cgi \<Rightarrow> (int \<times> cgi) option"

definition out_file :: "cstring \<Rightarrow> cstring \<Rightarrow> cgi \<Rightarrow> cgi" where
  "out_file file txt w = w\<lparr>files := (files w)(file \<mapsto> txt)\<rparr>"

text \<open>\<^verbatim>\<open>sprintf\<close> into a buffer of \<open>n\<close> bytes.\<close>

definition fits :: "nat \<Rightarrow> cstring \<Rightarrow> cstring option" where
  "fits n s = (if length s < n then Some s else None)"

lemma fits_Some [simp]: "length s < n \<Longrightarrow> fits n s = Some s"
  by (simp add: fits_def)

subsection \<open>Templates\<close>

record rensoh =
  rs_param :: cstring
  rs_kstr :: cstring
  rs_key :: cstring

text \<open>The marks in front of a parameter: its name, whether it is a list, how it is quoted.\<close>

definition strip_param :: "cstring \<Rightarrow> cstring \<times> bool \<times> nat" where
  "strip_param p0 =
     (let (p1, mix) = (if strncmp_eq p0 ''ar__'' 4 then (drop 4 p0, True) else (p0, False));
          (p2, n2) = (if strncmp_eq p1 ''ww__'' 4 then (drop 4 p1, 1) else (p1, 0));
          (p3, n3) = (if strncmp_eq p2 ''w>__'' 4 then (drop 4 p2, n2 + 2) else (p2, n2))
      in (p3, mix, n3))"

definition valconv_line :: "rensoh list \<Rightarrow> cgi \<Rightarrow> cstring \<Rightarrow> cstring option" where
  "valconv_line tab w param =
     (case List.find (\<lambda>r. case strip_param (rs_param r) of (p, _) \<Rightarrow> strncmp_eq param p (length p)) tab of
        None \<Rightarrow> Some param
      | Some r \<Rightarrow>
          (case strip_param (rs_param r) of (_, mix, q) \<Rightarrow>
             let tmp = getval3 (rs_key r) w in
             if \<not> mix
             then Some (rs_kstr r @ (if q = 0 then tmp @ [NL] else if q = 1 then [DQ] @ tmp @ [DQ, NL]
                                     else [DQ] @ tmp @ [DQ, CHR ''>'', NL]))
             else do { l \<leftarrow> list_split NUL (Some tmp);
                       Some (rs_kstr r @ concat (map (\<lambda>i. '' '' @ getval3 (rs_key r @ i) w) (list_items l)) @ [NL]) }))"

definition valconv :: "rensoh list \<Rightarrow> cstring \<Rightarrow> cgi \<Rightarrow> cstring option" where
  "valconv tab inp w =
     foldM (\<lambda>l acc. map_option ((@) acc) (valconv_line tab w (c_str l))) (fgets_all 1023 inp) []"

fun valconv2_find :: "rensoh list \<Rightarrow> cstring \<Rightarrow> (rensoh \<times> cstring \<times> cstring) option" where
  "valconv2_find [] param = None"
| "valconv2_find (r # rs) param =
     (case strstr param (rs_param r) of
        None \<Rightarrow> valconv2_find rs param
      | Some (a, b) \<Rightarrow> Some (r, a, drop (length (rs_param r)) b))"

definition valconv2_line :: "rensoh list \<Rightarrow> cgi \<Rightarrow> cstring \<Rightarrow> cstring option" where
  "valconv2_line tab w param =
     (case valconv2_find tab param of
        None \<Rightarrow> Some param
      | Some (r, a, b) \<Rightarrow> fits 1024 (a @ getval3 (rs_key r) w @ b))"

definition valconv2 :: "rensoh list \<Rightarrow> cstring \<Rightarrow> cgi \<Rightarrow> cstring option" where
  "valconv2 tab inp w =
     foldM (\<lambda>l acc. map_option ((@) acc) (valconv2_line tab w (c_str l))) (fgets_all 1023 inp) []"

subsection \<open>dhcpd\<close>

definition dhcp_key :: "cstring \<Rightarrow> int \<Rightarrow> cstring" where
  "dhcp_key opt no = ''x_dhcpd_'' @ opt @ ''__eth'' @ dec no"

definition dhcp_option :: "cstring \<Rightarrow> cstring \<Rightarrow> cstring \<Rightarrow> int \<Rightarrow> cgi \<Rightarrow> cstring" where
  "dhcp_option opt pre post no w =
     (let tmp = getval3 (dhcp_key opt no) w in
      if tmp \<noteq> [] then ''    option '' @ pre @ tmp @ post @ '';'' @ [NL] else [])"

definition rc2dhcpd_sub :: "int \<Rightarrow> cgi \<Rightarrow> (int \<times> cstring) option" where
  "rc2dhcpd_sub no w =
     (if no > 3 then Some (0, [])
      else if getval3 (dhcp_key ''enable'' no) w \<noteq> ''YES'' then Some (0, [])
      else let submask = getval3 (dhcp_key ''subnet_mask'' no) w;
               range1 = getval3 (dhcp_key ''range1'' no) w in
        do { ip \<leftarrow> subnet_octets 4 (Some range1) (Some submask);
             Some (1, ''subnet '' @ dotted_u32 ip @ '' netmask '' @ submask @ '' {'' @ [NL] @
               ''    range '' @ range1 @ '' '' @ getval3 (dhcp_key ''range2'' no) w @ '';'' @ [NL] @
               dhcp_option ''routers'' ''routers '' '''' no w @
               dhcp_option ''nameserver'' ''domain-name-servers '' '''' no w @
               dhcp_option ''domainname'' (''domain-name '' @ [DQ]) [DQ] no w @
               ''}'' @ [NL]) })"

definition RC_DHCPD_CF :: cstring where "RC_DHCPD_CF = ''/etc/dhcpd.conf''"

definition rc2dhcpd :: gen where
  "rc2dhcpd w =
     (if \<not> can_write w RC_DHCPD_CF then Some (0, w)
      else do { (_, t0) \<leftarrow> rc2dhcpd_sub 0 w; (_, t1) \<leftarrow> rc2dhcpd_sub 1 w;
                (_, t2) \<leftarrow> rc2dhcpd_sub 2 w; (_, t3) \<leftarrow> rc2dhcpd_sub 3 w;
                Some (1, out_file RC_DHCPD_CF
                  (''# setup.cgi (dhcpd) '' @ [NL] @ ''ddns-update-style none;'' @ [NL] @ t0 @ t1 @ t2 @ t3) w) })"

subsection \<open>sendmail\<close>

definition line_if :: "cstring \<Rightarrow> cstring" where
  "line_if tmp = (if tmp \<noteq> [] then tmp @ [NL] else [])"

text \<open>
  \<^verbatim>\<open>strtok\<close> with blanks: the tokens, and the text it leaves in the value it is given,
  which ends behind the first token.
\<close>

function strtok :: "cstring \<Rightarrow> cstring list" where
  "strtok s =
     (case dropWhile (\<lambda>c. c = CHR '' '') s of
        [] \<Rightarrow> []
      | c # r \<Rightarrow> takeWhile (\<lambda>c. c \<noteq> CHR '' '') (c # r) # strtok (dropWhile (\<lambda>c. c \<noteq> CHR '' '') r))"
  by pat_completeness auto
termination
  by (relation "measure length") (auto simp: cmem)

declare strtok.simps [simp del]

definition strtok_left :: "cstring \<Rightarrow> cstring" where
  "strtok_left s =
     takeWhile (\<lambda>c. c = CHR '' '') s @
     takeWhile (\<lambda>c. c \<noteq> CHR '' '') (dropWhile (\<lambda>c. c = CHR '' '') s)"

fun env_poke :: "cstring \<Rightarrow> cstring \<Rightarrow> env_entry list \<Rightarrow> env_entry list" where
  "env_poke key v [] = []"
| "env_poke key v (e # es) = (if env_key e = key then e\<lparr>env_val := v\<rparr> # es else e # env_poke key v es)"

definition RC_LOCAL_HOST_NAMES :: cstring where "RC_LOCAL_HOST_NAMES = ''/etc/mail/local-host-names''"
definition RC_RELAY_DOMAINS :: cstring where "RC_RELAY_DOMAINS = ''/etc/mail/relay-domains''"

text \<open>The loop tests for the end of the tokens behind its body, so it always runs once.\<close>

definition relay_ids :: "cstring \<Rightarrow> cstring list" where
  "relay_ids buf = (if strtok buf = [] then [''(null)''] else strtok buf)"

definition rc2sendmail :: gen where
  "rc2sendmail w =
     (if \<not> can_write w RC_LOCAL_HOST_NAMES then Some (0, w)
      else let w = out_file RC_LOCAL_HOST_NAMES
                 (line_if (getval3 ''x_sendmail_my_official_smtp_hostname'' w) @
                  line_if (getval3 ''x_sendmail_domain_alias1'' w)) w in
        if \<not> can_write w RC_RELAY_DOMAINS then Some (0, w)
        else let dom = line_if (getval3 ''x_sendmail_client_dom'' w);
                 buf = getval3 ''x_sendmail_relay__'' w in
          if buf = [] then Some (1, out_file RC_RELAY_DOMAINS dom w)
          else let w = w\<lparr>envtop := env_poke ''x_sendmail_relay__'' (strtok_left buf) (envtop w)\<rparr> in
            Some (1, out_file RC_RELAY_DOMAINS
              (dom @ concat (map (\<lambda>i. line_if (getval3 (take 31 (''x_sendmail_relay__'' @ i)) w)) (relay_ids buf))) w))"

text \<open>The variant for the older sendmail, which the Makefile does not choose.\<close>

definition RC_SENDMAIL_DEFAULT :: cstring where
  "RC_SENDMAIL_DEFAULT = ''/usr/contrib/etc/defaults/sendmail.cf''"
definition RC_SENDMAIL_CF :: cstring where "RC_SENDMAIL_CF = ''/etc/mail/sendmail.cf''"

definition sendmail_rconv :: "rensoh list" where
  "sendmail_rconv =
     [\<lparr>rs_param = ''Cw'', rs_kstr = ''Cw localhost local '', rs_key = ''x_sendmail_domain_alias1''\<rparr>,
      \<lparr>rs_param = ''Dm'', rs_kstr = ''Dm'', rs_key = ''x_sendmail_local_domain_name''\<rparr>,
      \<lparr>rs_param = ''Dj'', rs_kstr = ''Dj'', rs_key = ''x_sendmail_my_official_smtp_hostname''\<rparr>,
      \<lparr>rs_param = ''ar__C{LocalIP}'', rs_kstr = ''C{LocalIP} 127.0.0.1'', rs_key = ''x_sendmail_relay__''\<rparr>,
      \<lparr>rs_param = ''C{LocalDom} '', rs_kstr = ''C{localDom} '', rs_key = ''x_sendmail_client_dom''\<rparr>]"

definition rc2sendmail_v8 :: gen where
  "rc2sendmail_v8 w =
     (case files w RC_SENDMAIL_DEFAULT of
        None \<Rightarrow> Some (0, w)
      | Some inp \<Rightarrow>
          if \<not> can_write w RC_SENDMAIL_CF then Some (0, w)
          else do { txt \<leftarrow> valconv sendmail_rconv inp w; Some (1, out_file RC_SENDMAIL_CF txt w) })"

subsection \<open>named\<close>

definition TAB :: cstring where "TAB = [CHR 0x09]"

definition named_zone_master :: "cstring \<Rightarrow> cstring \<Rightarrow> cstring" where
  "named_zone_master zone file =
     ''zone '' @ [DQ] @ zone @ [DQ] @ '' {'' @ [NL] @ ''   type master;'' @ [NL] @
     ''   file '' @ [DQ] @ file @ [DQ] @ '';'' @ [NL] @ ''};'' @ [NL]"

definition named_zone_slave :: "cstring \<Rightarrow> cstring \<Rightarrow> cstring \<Rightarrow> cstring \<Rightarrow> cstring" where
  "named_zone_slave zone dir file master =
     ''zone '' @ [DQ] @ zone @ [DQ] @ '' {'' @ [NL] @ ''   type slave;'' @ [NL] @
     ''   file '' @ [DQ] @ dir @ ''/'' @ file @ [DQ] @ '';'' @ [NL] @ ''   masters {'' @ [NL] @
     ''       '' @ master @ '';'' @ [NL] @ ''   };'' @ [NL] @ ''};'' @ [NL]"

definition tabs :: "nat \<Rightarrow> cstring" where
  "tabs n = replicate n (CHR 0x09)"

definition soa_tail :: "int \<Rightarrow> cstring \<Rightarrow> cstring \<Rightarrow> cstring \<Rightarrow> cstring \<Rightarrow> cstring" where
  "soa_tail serial refresh retry expire minimum =
     tabs 4 @ dec serial @ TAB @ ''; Serial'' @ [NL] @ tabs 4 @ refresh @ tabs 2 @ ''; Refresh'' @ [NL] @
     tabs 4 @ retry @ tabs 2 @ ''; Retry'' @ [NL] @ tabs 4 @ expire @ tabs 2 @ ''; Expire'' @ [NL] @
     tabs 4 @ minimum @ '')'' @ tabs 2 @ ''; Minimum'' @ [NL]"

definition named_zone_db_head :: "cstring \<Rightarrow> cstring \<Rightarrow> cstring \<Rightarrow> int \<Rightarrow> cstring" where
  "named_zone_db_head zone mname rname serial =
     ''; zone '' @ [CHR 0x27] @ zone @ [CHR 0x27, NL] @ ''$TTL 3600'' @ [NL] @
     ''@'' @ TAB @ ''IN'' @ TAB @ ''SOA'' @ TAB @ mname @ ''. '' @ rname @ ''.  ('' @ [NL] @
     soa_tail serial ''3600'' ''300'' ''3600000'' ''3600''"

definition named_local_head :: "cgi \<Rightarrow> cstring" where
  "named_local_head w =
     ''$TTL 86400'' @ [NL] @ ''@'' @ TAB @ ''IN'' @ TAB @ ''SOA'' @ TAB @
     str_of ''x_hostname'' w @ ''.'' @ str_of ''x_domainname'' w @ ''. root.'' @ str_of ''x_domainname'' w @
     ''.  ('' @ [NL] @ soa_tail (time_now w) ''10800'' ''3600'' ''604800'' ''86400''"

definition zone_record_line :: "cstring list \<Rightarrow> cstring" where
  "zone_record_line xs =
     (case xs of
        [a, t, r] \<Rightarrow>
          if t \<in> {''A'', ''AAAA'', ''PTR'', ''NS'', ''CNAME''}
          then a @ TAB @ ''IN'' @ TAB @ t @ TAB @ r @ [NL] else []
      | [a, t, p, r] \<Rightarrow>
          if t = ''MX'' then a @ TAB @ ''IN'' @ TAB @ t @ TAB @ p @ TAB @ r @ [NL] else []
      | _ \<Rightarrow> [])"

definition rc2named_zonedb :: "cstring \<Rightarrow> cgi \<Rightarrow> cstring option" where
  "rc2named_zonedb no w =
     do { key \<leftarrow> fits 256 (''x_named_zone_record__'' @ no @ ''__'');
          l \<leftarrow> list_split NUL (Some (getval3 key w));
          foldM (\<lambda>item acc. do {
            l2 \<leftarrow> list_split NUL (Some (getval3 (key @ item) w));
            Some (acc @ zone_record_line (list_items l2)) }) (list_items l) [] }"

text \<open>
  One zone: the return value, what it adds to \<^verbatim>\<open>named.conf\<close>, and the state. The name of
  the zone's database is made of the name of the zone as it was sent.
\<close>

definition rc2named_zone :: "cstring \<Rightarrow> int \<Rightarrow> cgi \<Rightarrow> (int \<times> cstring \<times> cgi) option" where
  "rc2named_zone no serial w =
     do { zone \<leftarrow> fits 128 (''x_named_zone__'' @ no);
          l \<leftarrow> list_split NUL (Some (getval3 zone w));
          case list_items l of
            [typ, name] \<Rightarrow>
              if typ = ''master''
              then let conf = named_zone_master name (''db/'' @ name); db = ''/etc/namedb/db/'' @ name in
                   if \<not> can_write w db then Some (0, conf, w)
                   else do {
                     recs \<leftarrow> rc2named_zonedb no w;
                     Some (1, conf, out_file (real_path db)
                       (named_zone_db_head name (str_of (''x_named_zone_soa_mname__'' @ no) w)
                          (str_of (''x_named_zone_soa_rname__'' @ no) w) serial @ recs) w) }
              else if typ = ''slave''
              then do { key \<leftarrow> fits 128 (''x_named_zone_master__'' @ no);
                        Some (1, named_zone_slave name ''2nd'' name (getval3 key w), w) }
              else Some (1, [], w)
          | _ \<Rightarrow> Some (0, [], w) }"

text \<open>The zones in order; the first that answers 0 ends the generation.\<close>

fun named_zones :: "cstring list \<Rightarrow> int \<Rightarrow> cstring \<Rightarrow> cgi \<Rightarrow> (int \<times> cstring \<times> cgi) option" where
  "named_zones [] serial out w = Some (1, out, w)"
| "named_zones (no # nos) serial out w =
     do { (r, conf, w) \<leftarrow> rc2named_zone no serial w;
          if r \<noteq> 1 then Some (0, out @ conf, w) else named_zones nos serial (out @ conf) w }"

definition RC_NAMED_DEFAULT :: cstring where "RC_NAMED_DEFAULT = ''/usr/contrib/etc/defaults/named.conf''"
definition RC_NAMED_CF :: cstring where "RC_NAMED_CF = ''/etc/namedb/named.conf''"

definition rc2named :: gen where
  "rc2named w =
     (case files w RC_NAMED_DEFAULT of
        None \<Rightarrow> Some (0, w)
      | Some base \<Rightarrow>
          if \<not> can_write w RC_NAMED_CF then Some (0, w)
          else do { l \<leftarrow> list_split NUL (Some (getval3 ''x_named_zone__'' w));
                    (r, out, w) \<leftarrow> named_zones (list_items l) (time_now w)
                      (''# setup.cgi (named)'' @ [NL] @ concat (map c_str (fgets_all 511 base))) w;
                    Some (r, out_file RC_NAMED_CF out w) })"

definition named_localhost :: cstring where
  "named_localhost =
     tabs 2 @ ''IN'' @ TAB @ ''NS'' @ TAB @ ''localhost.'' @ [NL] @
     ''localhost.'' @ TAB @ ''IN'' @ TAB @ ''A'' @ TAB @ ''127.0.0.1'' @ [NL] @
     tabs 2 @ ''IN'' @ TAB @ ''AAAA'' @ TAB @ ''::1'' @ [NL]"

definition named_ptr :: "cstring \<Rightarrow> cstring" where
  "named_ptr nm =
     tabs 2 @ ''IN'' @ TAB @ ''NS'' @ TAB @ ''localhost.'' @ [NL] @
     nm @ tabs 2 @ ''IN'' @ TAB @ ''PTR'' @ TAB @ ''localhost.'' @ [NL]"

fun write_all :: "(cstring \<times> cstring) list \<Rightarrow> cgi \<Rightarrow> int \<times> cgi" where
  "write_all [] w = (1, w)"
| "write_all ((f, t) # fs) w = (if can_write w f then write_all fs (out_file f t w) else (0, w))"

definition rc2named_local :: gen where
  "rc2named_local w =
     Some (write_all
       [(''/etc/namedb/localhost'', named_local_head w @ named_localhost),
        (''/etc/namedb/127'', named_local_head w @ named_ptr ''1.0.0''),
        (''/etc/namedb/loopback.v6'', named_local_head w @ named_ptr ''1'')] w)"

subsection \<open>The resolver, the web server and samba\<close>

definition RC_RESOLVE_CF :: cstring where "RC_RESOLVE_CF = ''/etc/resolv.conf''"

definition rc2resolv :: gen where
  "rc2resolv w =
     (if \<not> can_write w RC_RESOLVE_CF then Some (0, w)
      else let dom = getval3 ''x_domain'' w;
               line = (\<lambda>k. let tmp = getval3 k w in if tmp = [] then [] else ''nameserver '' @ tmp @ [NL]) in
        Some (1, out_file RC_RESOLVE_CF
          ((if dom \<noteq> [] then ''domain '' @ dom @ [NL] else []) @
           concat (map line [''x_nameserver'', ''x_nameserver2'', ''x_nameserver3'', ''x_nameserver4''])) w))"

definition httpd_rconv :: "rensoh list" where
  "httpd_rconv =
     [\<lparr>rs_param = ''_$_DIR_$_'', rs_kstr = '''', rs_key = ''x_httpd_dir''\<rparr>,
      \<lparr>rs_param = ''_$_CGIPAT_$_'', rs_kstr = '''', rs_key = ''x_httpd_cgipat''\<rparr>,
      \<lparr>rs_param = ''_$_LOGFILE_$_'', rs_kstr = '''', rs_key = ''x_httpd_logfile''\<rparr>]"

definition RC_HTTPD_DEFAULT :: cstring where "RC_HTTPD_DEFAULT = ''/usr/contrib/etc/defaults/thttpd.conf''"
definition RC_HTTPD_CF :: cstring where "RC_HTTPD_CF = ''/usr/contrib/etc/thttpd.conf''"

definition rc2httpd :: gen where
  "rc2httpd w =
     (case files w RC_HTTPD_DEFAULT of
        None \<Rightarrow> Some (0, w)
      | Some inp \<Rightarrow>
          if \<not> can_write w RC_HTTPD_CF then Some (0, w)
          else do { txt \<leftarrow> valconv2 httpd_rconv inp w;
                    Some (1, out_file RC_HTTPD_CF
                      (txt @ (if getval3 ''x_httpd_chroot'' w = ''YES'' then ''chroot'' @ [NL] else [])) w) })"

definition samba_rconv :: "rensoh list" where
  "samba_rconv =
     [\<lparr>rs_param = ''MYGROUP'', rs_kstr = '''', rs_key = ''x_samba_workgroup''\<rparr>,
      \<lparr>rs_param = ''LinuxServer'', rs_kstr = '''', rs_key = ''x_hostname''\<rparr>]"

definition RC_SAMBA_CF_DEFAULT :: cstring where "RC_SAMBA_CF_DEFAULT = ''/usr/contrib/etc/defaults/smb.conf''"
definition RC_SAMBA_CF :: cstring where "RC_SAMBA_CF = ''/usr/contrib/samba/lib/smb.conf''"

definition rc2samba :: gen where
  "rc2samba w =
     (case files w RC_SAMBA_CF_DEFAULT of
        None \<Rightarrow> Some (0, w)
      | Some inp \<Rightarrow>
          if \<not> can_write w RC_SAMBA_CF then Some (0, w)
          else do { txt \<leftarrow> valconv2 samba_rconv inp w; Some (1, out_file RC_SAMBA_CF txt w) })"

subsection \<open>The packet filter and the router advertisements\<close>

definition any_or :: "cstring \<Rightarrow> cstring \<Rightarrow> cstring" where
  "any_or v txt = (if strcaseeq v ''ANY'' then [] else txt)"

text \<open>The address with its mask, as a part of a rule.\<close>

definition fw_net :: "cstring \<Rightarrow> cstring \<Rightarrow> cstring \<Rightarrow> cstring option" where
  "fw_net opt adr msk =
     (if strcaseeq adr ''ANY'' then Some []
      else map_option (\<lambda>n. opt @ '' '' @ adr @ ''/'' @ dec n @ '' '') (ip4_to_mask (Some msk)))"

definition iptables_line :: "cstring list \<Rightarrow> cstring option" where
  "iptables_line it =
     do { proto \<leftarrow> nth_opt it 1; src \<leftarrow> nth_opt it 2; srcm \<leftarrow> nth_opt it 3; sport \<leftarrow> nth_opt it 4;
          dst \<leftarrow> nth_opt it 5; dstm \<leftarrow> nth_opt it 6; dport \<leftarrow> nth_opt it 7; act \<leftarrow> nth_opt it 8;
          s \<leftarrow> fw_net ''--source'' src srcm;
          d \<leftarrow> fw_net ''--destination'' dst dstm;
          Some (''/sbin/iptables -A INPUT --proto '' @ proto @ '' '' @ s @
                any_or sport (''--source-port '' @ sport @ '' '') @ d @
                any_or dport (''--destination-port '' @ dport @ '' '') @ ''-j '' @ act @ [NL]) }"

definition fw_lines :: "cgi \<Rightarrow> cstring option" where
  "fw_lines w =
     (case getval ''x_fw__'' w of
        None \<Rightarrow> Some []
      | Some typ \<Rightarrow> do {
          lst \<leftarrow> list_split NUL (Some typ);
          foldM (\<lambda>item acc. do {
            lst2 \<leftarrow> list_split NUL (getval (''x_fw__'' @ item) w);
            map_option ((@) acc) (iptables_line (list_items lst2)) }) (list_items lst) [] })"

definition masq_lines :: "cgi \<Rightarrow> cstring" where
  "masq_lines w =
     (case getval ''x_msq_typ'' w of
        None \<Rightarrow> []
      | Some typ \<Rightarrow>
          if deref typ = CHR ''2'' then ''/sbin/iptables -t nat -A POSTROUTING -o eth1 -j MASQUERADE'' @ [NL]
          else if deref typ = CHR ''3'' then ''/sbin/iptables -t nat -A POSTROUTING -o eth0 -j MASQUERADE'' @ [NL]
          else [])"

definition portfw_line :: "cstring list \<Rightarrow> cgi \<Rightarrow> cstring option" where
  "portfw_line it w =
     do { proto \<leftarrow> nth_opt it 0; ifc \<leftarrow> nth_opt it 1; sport \<leftarrow> nth_opt it 2; dst \<leftarrow> nth_opt it 3;
          dport \<leftarrow> nth_opt it 4;
          Some (''/sbin/iptables -A PREROUTING -t nat -p '' @ proto @ '' -d '' @
                str_of (''x_eth_adr__'' @ ifc) w @ '' --dport '' @ sport @
                '' -j DNAT --to-destination '' @ dst @ '':'' @ dport @ [NL]) }"

definition portfw_lines :: "cgi \<Rightarrow> cstring option" where
  "portfw_lines w =
     (case getval ''x_portfw__'' w of
        None \<Rightarrow> Some []
      | Some typ \<Rightarrow> do {
          lst \<leftarrow> list_split NUL (Some typ);
          foldM (\<lambda>item acc. do {
            lst2 \<leftarrow> list_split NUL (getval (''x_portfw__'' @ item) w);
            map_option ((@) acc) (portfw_line (list_items lst2) w) }) (list_items lst) [] })"

definition radvd_part :: "cstring \<Rightarrow> cgi \<Rightarrow> cstring" where
  "radvd_part eth w =
     (case (getval (''x_ipv6_enable__'' @ eth) w, getval (''x_ipv6_prefix__'' @ eth) w) of
        (Some en, Some pre) \<Rightarrow>
          if strncmp_eq en ''YES'' 4
          then ''interface '' @ eth @ [NL] @ ''{'' @ [NL] @ TAB @ ''AdvSendAdvert on;'' @ [NL] @
               TAB @ ''prefix'' @ TAB @ pre @ ''::/64'' @ [NL] @ TAB @ ''{'' @ [NL] @
               tabs 2 @ ''AdvOnLink on;'' @ [NL] @ tabs 2 @ ''AdvAutonomous on;'' @ [NL] @
               tabs 2 @ ''AdvRouterAddr on;'' @ [NL] @ TAB @ ''};'' @ [NL] @ ''};'' @ [NL]
          else []
      | _ \<Rightarrow> [])"

definition UPSETCONF :: cstring where "UPSETCONF = ''/etc/rc.iptables''"
definition RADVDCONF :: cstring where "RADVDCONF = ''/etc/radvd.conf''"

definition sysupdate :: "cgi \<Rightarrow> cgi option" where
  "sysupdate w =
     do { w \<leftarrow> (if can_write w UPSETCONF
               then do { fw \<leftarrow> fw_lines w; pf \<leftarrow> portfw_lines w;
                         Some (out_file UPSETCONF (fw @ masq_lines w @ pf) w) }
               else Some w);
          Some (if can_write w RADVDCONF
                then out_file RADVDCONF (radvd_part ''eth0'' w @ radvd_part ''eth1'' w) w else w) }"

text \<open>All generators in the order of \<^verbatim>\<open>yazaki_main\<close>, on the configuration read anew.\<close>

definition yazaki_main :: "cgi \<Rightarrow> (cgi + cgi) option" where
  "yazaki_main w =
     do { r \<leftarrow> read_conf w;
          case r of
            Inl m \<Rightarrow> Some (Inl m)
          | Inr w \<Rightarrow> do {
              (_, w) \<leftarrow> rc2dhcpd w; (_, w) \<leftarrow> rc2sendmail w; (_, w) \<leftarrow> rc2named w;
              (_, w) \<leftarrow> rc2resolv w; (_, w) \<leftarrow> rc2httpd w; (_, w) \<leftarrow> rc2named_local w;
              Some (Inr w) } }"

subsection \<open>Packet filter rules\<close>

lemma list_split_Some:
  obtains l where "list_split NUL (Some v) = Some l" "list_items l = words v"
  using list_split_words [of v] that by blast

definition fw_step :: "cgi \<Rightarrow> cstring \<Rightarrow> cstring \<Rightarrow> cstring option" where
  "fw_step w item acc = map_option ((@) acc) (iptables_line (words (getval3 (''x_fw__'' @ item) w)))"

lemma list_split_getval:
  obtains l where "list_split NUL (getval k w) = Some l" "list_items l = words (getval3 k w)"
proof (cases "getval k w")
  case None
  then show ?thesis using that by (simp add: list_split_NULL list_items_def list_new_def getval3_def)
next
  case (Some v)
  obtain l where "list_split NUL (Some v) = Some l" "list_items l = words v" by (rule list_split_Some)
  then show ?thesis using that Some by (simp add: getval3_def)
qed

lemma fw_lines_eq: "fw_lines w = foldM (fw_step w) (words (getval3 ''x_fw__'' w)) []"
proof -
  have step: "list_split NUL (getval (''x_fw__'' @ item) w) \<bind>
      (\<lambda>lst2. map_option ((@) acc) (iptables_line (list_items lst2))) = fw_step w item acc" for item acc
  proof -
    obtain l where "list_split NUL (getval (''x_fw__'' @ item) w) = Some l"
      "list_items l = words (getval3 (''x_fw__'' @ item) w)" by (rule list_split_getval)
    then show ?thesis by (simp add: fw_step_def)
  qed
  show ?thesis
  proof (cases "getval ''x_fw__'' w")
    case None
    then show ?thesis by (simp add: fw_lines_def getval3_def)
  next
    case (Some v)
    obtain l where "list_split NUL (Some v) = Some l" "list_items l = words v" by (rule list_split_Some)
    then show ?thesis using Some unfolding fw_lines_def step by (simp add: getval3_def)
  qed
qed

lemma foldM_cong:
  "(\<And>x s. x \<in> set xs \<Longrightarrow> f x s = g x s) \<Longrightarrow> foldM f xs s = foldM g xs s"
proof (induction xs arbitrary: s)
  case (Cons x xs)
  then have "foldM f xs = foldM g xs" by (intro ext) simp
  then show ?case using Cons.prems by simp
qed simp

lemma fw_rule_words:
  assumes "list_all (\<lambda>k. word_ok (str_of k w)) fw_keys"
  shows "words (fw_rule w) = dec (getval_int ''x_fw_id'' w) # map (\<lambda>k. str_of k w) fw_keys"
  unfolding fw_rule_def using assms by (intro idl.decode_enc) (simp add: list_all_iff)

text \<open>
  From the form to the packet filter: the first rule, when its eight fields are single words,
  gives the filter exactly its own line.
\<close>

theorem fw_rule_adds_line:
  assumes "holds w ''x_fw__'' []" "can_write w RC_CONF_TMP"
    "list_all (\<lambda>k. word_ok (str_of k w)) fw_keys"
    "iptables_line (dec (getval_int ''x_fw_id'' w) # map (\<lambda>k. str_of k w) fw_keys) = Some line"
  shows "\<exists>w'. ok_fw ''2'' w = Some (Inr (CONT, w')) \<and> fw_lines w' = Some line"
proof -
  let ?n = "dec (getval_int ''x_fw_id'' w)"
  let ?w1 = "putval ''x_fw__'' ?n 1 w"
  let ?w2 = "putval (''x_fw__'' @ ?n) (fw_rule w) 1 ?w1"
  have k: "world_ok w" using assms(1) by (simp add: holds_def)
  have d: "\<not> date_key (''x_fw__'' @ i)" "\<not> date_key ''x_fw__''" for i by (simp_all add: date_key_def)
  have "can_write ?w2 RC_CONF_TMP" using assms(2) by (simp add: putval_def putval_withdesc_def)
  then obtain f where r: "ok_fw ''2'' w = Some (Inr (CONT, ?w2\<lparr>files := f\<rparr>))"
    using ok_fw_eq [OF assms(1), of "''2''"] by (simp add: finish_def write_conf_text)
  let ?w' = "?w2\<lparr>files := f\<rparr>"
  have g: "getval3 (''x_fw__'' @ i) ?w' =
      (if i = ?n then fw_rule w else if i = [] then ?n else getval3 (''x_fw__'' @ i) w)" for i
    using k d by (simp add: getval3_def getval_map cs.lookup_put)
  have "?n \<noteq> []" using word_ok_dec [of "getval_int ''x_fw_id'' w"] by (simp add: word_ok_def)
  then have ids: "words (getval3 ''x_fw__'' ?w') = [?n]"
    using g [of "[]"] words_word [OF word_ok_dec] by simp
  have "fw_lines ?w' = fw_step ?w' ?n []"
    unfolding fw_lines_eq ids by (cases "fw_step ?w' ?n []") simp_all
  also have "\<dots> = Some line"
    unfolding fw_step_def g using fw_rule_words [OF assms(3)] assms(4) by simp
  finally show ?thesis using r by blast
qed

definition rule_request :: cgi where
  "rule_request = fold (\<lambda>(k, v). putval k v 1)
     [(''x_fw_id'', ''7''), (''x_fw_proto___T'', ''tcp''), (''x_fw_src_ip___T'', ''ANY''),
      (''x_fw_src_subnet_mask___T'', ''0.0.0.0''), (''x_fw_src_port___T'', ''ANY''),
      (''x_fw_dst_ip___T'', ''any''), (''x_fw_dst_subnet_mask___T'', ''0.0.0.0''),
      (''x_fw_dst_port___T'', ''25''), (''x_fw_action___T'', ''DROP'')] empty_cgi"

theorem fw_rule_adds_line_witness:
  "\<exists>w'. ok_fw ''2'' rule_request = Some (Inr (CONT, w'))
     \<and> fw_lines w' = Some (''/sbin/iptables -A INPUT --proto tcp --destination-port 25 -j DROP'' @ [NL])"
proof -
  let ?kvs = "[(''x_fw_id'', ''7''), (''x_fw_proto___T'', ''tcp''), (''x_fw_src_ip___T'', ''ANY''),
      (''x_fw_src_subnet_mask___T'', ''0.0.0.0''), (''x_fw_src_port___T'', ''ANY''),
      (''x_fw_dst_ip___T'', ''any''), (''x_fw_dst_subnet_mask___T'', ''0.0.0.0''),
      (''x_fw_dst_port___T'', ''25''), (''x_fw_action___T'', ''DROP'')]"
  have "list_all ((\<lambda>k. k \<noteq> []) \<circ> fst) ?kvs" by simp
  note p = cs.put_all [OF empty_cgi_ok(1) this, where sw = 1]
  have g: "getval k rule_request = map_of (rev ?kvs) k" if "\<not> date_key k" for k
    using p that by (simp add: getval_map rule_request_def map_add_def fun_eq_iff split: option.split)
  have h: "holds rule_request ''x_fw__'' []"
    using p g [of "''x_fw__''"] by (simp add: holds_def rule_request_def date_key_def getval3_def)
  have f: "map (\<lambda>k. str_of k rule_request) fw_keys =
      [''tcp'', ''ANY'', ''0.0.0.0'', ''ANY'', ''any'', ''0.0.0.0'', ''25'', ''DROP'']"
    by (simp add: fw_keys_def str_of_def g date_key_def)
  have "list_all word_ok (map (\<lambda>k. str_of k rule_request) fw_keys)"
    unfolding f by (simp add: word_ok_def isspace_def byte_def)
  then have wk: "list_all (\<lambda>k. word_ok (str_of k rule_request)) fw_keys" by (simp add: list_all_iff)
  have "strcaseeq ''ANY'' ''ANY''" "strcaseeq ''any'' ''ANY''" "\<not> strcaseeq ''25'' ''ANY''" by code_simp+
  then have l: "iptables_line (n # map (\<lambda>k. str_of k rule_request) fw_keys) =
      Some (''/sbin/iptables -A INPUT --proto tcp --destination-port 25 -j DROP'' @ [NL])" for n
    unfolding f by (simp add: iptables_line_def fw_net_def any_or_def nth_opt_def)
  have "can_write rule_request RC_CONF_TMP"
    by (simp add: rule_request_def putval_def putval_withdesc_def empty_cgi_def)
  from fw_rule_adds_line [OF h this wk l] show ?thesis by simp
qed

subsection \<open>Zones, subnets and relays\<close>

text \<open>
  A zone number without a zone of two words, such as one listed by a form that lacks the
  name, ends the generation of the name server configuration: no zone behind it is written,
  and \<^verbatim>\<open>rc2named\<close> answers failure.
\<close>

theorem broken_zone_hides_later_zones:
  assumes "length (words (getval3 (''x_named_zone__'' @ no) w)) \<noteq> 2" "length no < 100"
  shows "named_zones (no # nos) serial out w = Some (0, out, w)"
proof -
  obtain l where l: "list_split NUL (Some (getval3 (''x_named_zone__'' @ no) w)) = Some l"
    "list_items l = words (getval3 (''x_named_zone__'' @ no) w)" by (rule list_split_Some)
  then have "rc2named_zone no serial w = Some (0, [], w)"
    using assms by (auto simp: rc2named_zone_def split: list.split)
  then show ?thesis by simp
qed

theorem broken_zone_hides_later_zones_witness:
  "named_zones [''3'', ''4''] 17 ''out'' (putval ''x_named_zone__4'' ''master example.org'' 1 empty_cgi)
     = Some (0, ''out'', putval ''x_named_zone__4'' ''master example.org'' 1 empty_cgi)"
proof -
  have "getval3 (''x_named_zone__'' @ ''3'') (putval ''x_named_zone__4'' ''master example.org'' 1 empty_cgi) = []"
    by (simp add: getval3_def getval_map date_key_def cs.lookup_put)
  then show ?thesis
    using broken_zone_hides_later_zones [of "''3''" "putval ''x_named_zone__4'' ''master example.org'' 1 empty_cgi"
        "[''4'']" 17 "''out''"] by simp
qed

text \<open>
  The name of a zone is put into the path of its database as it was sent: a name with
  \<^verbatim>\<open>..\<close> leads out of the directory of the databases, to any file that can be opened.
\<close>

theorem zone_name_leaves_directory:
  assumes "words (getval3 (''x_named_zone__'' @ no) w) = [''master'', name]" "length no < 100"
    "can_write w (''/etc/namedb/db/'' @ name)" "rc2named_zonedb no w = Some recs"
  shows "\<exists>conf v mname rname. rc2named_zone no serial w = Some (1, conf, v) \<and>
     files v (real_path (''/etc/namedb/db/'' @ name)) = Some (named_zone_db_head name mname rname serial @ recs)"
proof -
  obtain l where l: "list_split NUL (Some (getval3 (''x_named_zone__'' @ no) w)) = Some l" "list_items l = [''master'', name]"
    using list_split_Some [of "getval3 (''x_named_zone__'' @ no) w"] assms(1) by metis
  have "fits 128 (''x_named_zone__'' @ no) = Some (''x_named_zone__'' @ no)"
    using assms(2) by (simp add: fits_def)
  then have "\<exists>conf. rc2named_zone no serial w = Some (1, conf, out_file (real_path (''/etc/namedb/db/'' @ name))
      (named_zone_db_head name (str_of (''x_named_zone_soa_mname__'' @ no) w)
         (str_of (''x_named_zone_soa_rname__'' @ no) w) serial @ recs) w)"
    using assms(3,4) l by (simp add: rc2named_zone_def Let_def del: append_Cons append_Nil)
  then show ?thesis by (fastforce simp: out_file_def simp del: append_Cons append_Nil)
qed

definition climbing_zone :: cgi where
  "climbing_zone = putval ''x_named_zone__3'' ''master ../../../usr/contrib/etc/openblocks.conf'' 1 empty_cgi"

theorem zone_name_leaves_directory_witness:
  "\<exists>conf v t. rc2named_zone ''3'' 17 climbing_zone = Some (1, conf, v) \<and> files v RC_CONF = Some t"
proof -
  have w: "words (getval3 (''x_named_zone__'' @ ''3'') climbing_zone) = [''master'', ''../../../usr/contrib/etc/openblocks.conf'']"
    by code_simp
  have r: "rc2named_zonedb ''3'' climbing_zone = Some []" by code_simp
  have p: "real_path (''/etc/namedb/db/'' @ ''../../../usr/contrib/etc/openblocks.conf'') = RC_CONF" by code_simp
  have "can_write climbing_zone p" for p
    by (simp add: climbing_zone_def putval_def putval_withdesc_def empty_cgi_def)
  from zone_name_leaves_directory [OF w _ this r, of 17] show ?thesis unfolding p by auto
qed

lemma subnet_octets_dotted:
  assumes "octet a0" "octet a1" "octet a2" "octet a3" "octet m0" "octet m1" "octet m2" "octet m3"
  shows "subnet_octets 4 (Some (dotted a0 a1 a2 a3)) (Some (dotted m0 m1 m2 m3)) =
     Some [word_of_int a0 AND word_of_int m0, word_of_int a1 AND word_of_int m1,
           word_of_int a2 AND word_of_int m2, word_of_int a3 AND word_of_int m3]"
  using assms by (simp add: four dotted_def get_ipnum_dec)

lemma sint_and_octets:
  assumes "octet a"
  shows "sint (word_of_int a AND word_of_int m :: u32) = a AND m"
proof -
  have "0 \<le> a AND m" "a AND m \<le> a" using assms by (simp_all add: octet_def AND_upper1)
  then have r: "0 \<le> a AND m" "a AND m < 256" using assms by (simp_all add: octet_def)
  have "word_of_int a AND word_of_int m = (word_of_int (a AND m) :: u32)"
    by (simp only: of_int_and_eq)
  moreover have "0 \<le> x \<Longrightarrow> x < 256 \<Longrightarrow> signed_take_bit 31 x = x" for x :: int
    by (simp add: signed_take_bit_int_eq_self)
  from this [OF r] have "signed_take_bit 31 (a AND m) = a AND m" .
  ultimately show ?thesis by (simp only: signed_of_int) simp
qed

text \<open>
  The subnet declared to \<^verbatim>\<open>dhcpd\<close> is the first address of the range masked with
  the netmask, octet by octet, when both are dotted addresses; an interface that is not
  switched on with \<^verbatim>\<open>YES\<close>, or a number above 3, gives no text.
\<close>

theorem dhcp_subnet:
  assumes "no \<le> 3" "getval3 (dhcp_key ''enable'' no) w = ''YES''"
    "getval3 (dhcp_key ''range1'' no) w = dotted a0 a1 a2 a3"
    "getval3 (dhcp_key ''subnet_mask'' no) w = dotted m0 m1 m2 m3"
    "list_all octet [a0, a1, a2, a3, m0, m1, m2, m3]"
  shows "\<exists>rest. rc2dhcpd_sub no w = Some (1,
     ''subnet '' @ dotted (a0 AND m0) (a1 AND m1) (a2 AND m2) (a3 AND m3) @ '' netmask '' @ dotted m0 m1 m2 m3 @ '' {'' @ [NL] @
     ''    range '' @ dotted a0 a1 a2 a3 @ '' '' @ getval3 (dhcp_key ''range2'' no) w @ '';'' @ [NL] @ rest @ ''}'' @ [NL])"
  using assms subnet_octets_dotted [of a0 a1 a2 a3 m0 m1 m2 m3]
  by (simp add: rc2dhcpd_sub_def Let_def dotted_u32_def sint_and_octets)

theorem dhcp_subnet_witness:
  "let w = putval ''x_dhcpd_enable__eth1'' ''YES'' 1 (putval ''x_dhcpd_range1__eth1'' (dotted 10 0 7 20) 1
        (putval ''x_dhcpd_subnet_mask__eth1'' (dotted 255 255 0 0) 1 empty_cgi)) in
   \<exists>rest. rc2dhcpd_sub 1 w = Some (1,
     ''subnet '' @ dotted 10 0 0 0 @ '' netmask '' @ dotted 255 255 0 0 @ '' {'' @ [NL] @
     ''    range '' @ dotted 10 0 7 20 @ '' ;'' @ [NL] @ rest @ ''}'' @ [NL])"
proof -
  let ?w = "putval ''x_dhcpd_enable__eth1'' ''YES'' 1 (putval ''x_dhcpd_range1__eth1'' (dotted 10 0 7 20) 1
        (putval ''x_dhcpd_subnet_mask__eth1'' (dotted 255 255 0 0) 1 empty_cgi))"
  have k: "dhcp_key ''enable'' 1 = ''x_dhcpd_enable__eth1''" "dhcp_key ''range1'' 1 = ''x_dhcpd_range1__eth1''"
    "dhcp_key ''subnet_mask'' 1 = ''x_dhcpd_subnet_mask__eth1''" "dhcp_key ''range2'' 1 = ''x_dhcpd_range2__eth1''"
    by code_simp+
  have g: "getval3 ''x_dhcpd_enable__eth1'' ?w = ''YES''" "getval3 ''x_dhcpd_range1__eth1'' ?w = dotted 10 0 7 20"
    "getval3 ''x_dhcpd_subnet_mask__eth1'' ?w = dotted 255 255 0 0" "getval3 ''x_dhcpd_range2__eth1'' ?w = []"
    by (simp_all add: getval3_def getval_map date_key_def cs.lookup_put)
  have "list_all octet [10, 0, 7, 20, 255, 255, 0, 0]" by (simp add: octet_def)
  from dhcp_subnet [of 1 ?w, unfolded k g, OF _ refl refl refl this] show ?thesis
    by (simp add: Let_def)
qed

lemma env_find_poke:
  "env_find k (env_poke key v es) =
     (if k = key then map_option (\<lambda>e. e\<lparr>env_val := v\<rparr>) (env_find k es) else env_find k es)"
  by (induction es) auto

lemma strtok_left_word:
  assumes "list_all (\<lambda>c. c \<noteq> CHR '' '') i" "i \<noteq> []"
  shows "strtok_left (i @ CHR '' '' # s) = i" "strtok_left i = i"
  using assms by (cases i; simp add: strtok_left_def)+

lemma strtok_word:
  assumes "list_all (\<lambda>c. c \<noteq> CHR '' '') i" "i \<noteq> []"
  shows "strtok (i @ CHR '' '' # s) = i # strtok (CHR '' '' # s)" "strtok i = [i]"
proof -
  obtain c r where i: "i = c # r" "c \<noteq> CHR '' ''" "list_all (\<lambda>c. c \<noteq> CHR '' '') r"
    using assms by (cases i) auto
  then have t: "takeWhile (\<lambda>c. c \<noteq> CHR '' '') r = r" "dropWhile (\<lambda>c. c \<noteq> CHR '' '') r = []"
    "takeWhile (\<lambda>c. c \<noteq> CHR '' '') (r @ CHR '' '' # s) = r"
    "dropWhile (\<lambda>c. c \<noteq> CHR '' '') (r @ CHR '' '' # s) = CHR '' '' # s"
    by simp_all
  then show "strtok (i @ CHR '' '' # s) = i # strtok (CHR '' '' # s)" "strtok i = [i]"
    using i(1,2) t strtok.simps [of "i @ CHR '' '' # s"] strtok.simps [of i] strtok.simps [of "[]"]
    by (simp_all del: takeWhile_eq_all_conv dropWhile_eq_Nil_conv)
qed

lemma strtok_blank [simp]: "strtok (CHR '' '' # s) = strtok s"
  using strtok.simps [of "CHR '' '' # s"] strtok.simps [of s] by simp

lemma word_ok_no_blank: "word_ok i \<Longrightarrow> list_all (\<lambda>c. c \<noteq> CHR '' '') i \<and> i \<noteq> []"
  by (auto simp: word_ok_def list_all_iff)

lemma strtok_join: "list_all word_ok ids \<Longrightarrow> strtok (join_items ids) = ids"
proof (induction ids rule: join_items.induct)
  case 1
  then show ?case by (simp add: strtok.simps)
next
  case (2 s)
  then show ?case using strtok_word(2) word_ok_no_blank by simp
next
  case (3 s t ss)
  then show ?case using strtok_word(1) [of s] word_ok_no_blank [of s] by simp
qed

text \<open>
  The relay list does not survive the generation of the mail configuration: every listed
  relay that has a name gets its line, but \<^verbatim>\<open>strtok\<close> cuts the stored list itself, and
  afterwards it holds the first number only.
\<close>

theorem relay_list_is_cut:
  assumes "holds w ''x_sendmail_relay__'' (i # ids)" "can_write w RC_LOCAL_HOST_NAMES" "can_write w RC_RELAY_DOMAINS"
  shows "\<exists>w'. rc2sendmail w = Some (1, w') \<and> holds w' ''x_sendmail_relay__'' [i]
    \<and> (\<exists>dom. files w' RC_RELAY_DOMAINS = Some (dom @
          concat (map (\<lambda>j. line_if (getval3 (take 31 (''x_sendmail_relay__'' @ j)) w')) (i # ids))))"
proof -
  let ?k = "''x_sendmail_relay__''"
  have h: "world_ok w" "list_all word_ok (i # ids)" "getval3 ?k w = join_items (i # ids)"
    using assms(1) by (simp_all add: holds_def)
  note i = word_ok_no_blank [of i]
  have left: "strtok_left (join_items (i # ids)) = i"
    using h(2) i by (cases ids) (simp_all add: strtok_left_word)
  have ne: "join_items (i # ids) \<noteq> []" using i h(2) by (cases ids) simp_all
  define w1 where "w1 = out_file RC_LOCAL_HOST_NAMES
      (line_if (getval3 ''x_sendmail_my_official_smtp_hostname'' w) @ line_if (getval3 ''x_sendmail_domain_alias1'' w)) w"
  define w2 where "w2 = w1\<lparr>envtop := env_poke ?k i (envtop w1)\<rparr>"
  let ?txt = "line_if (getval3 ''x_sendmail_client_dom'' w1) @
      concat (map (\<lambda>j. line_if (getval3 (take 31 (?k @ j)) w2)) (i # ids))"
  have g1: "getval3 k w1 = getval3 k w" for k
    by (simp add: w1_def out_file_def getval3_def getval_def getval2_def getvalp_def Let_def)
  have cw: "can_write w1 RC_RELAY_DOMAINS" using assms(3) by (simp add: w1_def out_file_def)
  have buf: "getval3 ?k w1 = join_items (i # ids)" using g1 h(3) by simp
  have "relay_ids (join_items (i # ids)) = i # ids"
    unfolding relay_ids_def strtok_join [OF h(2)] by simp
  then have r: "rc2sendmail w = Some (1, out_file RC_RELAY_DOMAINS ?txt w2)"
    using assms(2) cw ne unfolding rc2sendmail_def Let_def w1_def [symmetric] buf left w2_def [symmetric]
    by (simp only: if_False if_True simp_thms not_True_eq_False)
  let ?w' = "out_file RC_RELAY_DOMAINS ?txt w2"
  have m: "world_map ?w' k = (if k = ?k then Some i else world_map w k)" for k
  proof -
    have "getval ?k w = Some (join_items (i # ids))"
      using h(3) ne by (cases "getval ?k w") (simp_all add: getval3_def)
    then have "world_map w ?k \<noteq> None" by (simp add: getval_map date_key_def)
    then obtain e where "env_find ?k (envtop w) = Some e" by (auto simp: world_map_def env_map_def)
    then show ?thesis
      by (simp add: world_map_def env_map_def out_file_def w2_def w1_def env_find_poke)
  qed
  have keys: "map env_key (env_poke a v es) = map env_key es" for a v es
    by (induction es) simp_all
  have ok: "world_ok ?w'"
    using h(1) unfolding world_ok_def env_ok_def out_file_def w2_def w1_def
    by (simp add: keys) (metis keys list.set_map)
  have "holds ?w' ?k [i]"
    using ok h(2) m [of ?k] by (simp add: holds_def date_key_def getval3_def getval_map)
  moreover have "getval3 k ?w' = getval3 k w2" for k
    by (simp add: out_file_def getval3_def getval_def getval2_def getvalp_def Let_def)
  ultimately show ?thesis using r by (intro exI [of _ ?w'] conjI exI) (simp_all add: out_file_def)
qed

theorem relay_list_is_cut_witness:
  "\<exists>w'. rc2sendmail (putval ''x_sendmail_relay__'' ''1 2'' 1 empty_cgi) = Some (1, w')
     \<and> getval ''x_sendmail_relay__'' w' = Some ''1''"
proof -
  let ?w = "putval ''x_sendmail_relay__'' ''1 2'' 1 empty_cgi"
  have "holds ?w ''x_sendmail_relay__'' [''1'', ''2'']"
    using holds_putval [of empty_cgi "''x_sendmail_relay__''" "[''1'', ''2'']" 1]
    by (simp add: date_key_def word_ok_def isspace_def byte_def)
  moreover have "can_write ?w f" for f by (simp add: putval_def putval_withdesc_def empty_cgi_def)
  ultimately obtain w' where w': "rc2sendmail ?w = Some (1, w')" "holds w' ''x_sendmail_relay__'' [''1'']"
    using relay_list_is_cut by blast
  then have "getval3 ''x_sendmail_relay__'' w' = ''1''" by (simp add: holds_def)
  then have "getval ''x_sendmail_relay__'' w' = Some ''1''"
    by (cases "getval ''x_sendmail_relay__'' w'") (simp_all add: getval3_def)
  then show ?thesis using w'(1) by blast
qed

end
