(* ===== verification/Page.thy ===== *)
theory Page
  imports Generators
begin

text \<open>
  The pages of \<^verbatim>\<open>contrib/setup/setup.c\<close>: the menus with their handlers, the frame of
  a page, and the template files, whose macros between \<^verbatim>\<open><?\<close> and
  \<^verbatim>\<open>?>\<close> are evaluated and printed in their place.
\<close>

definition put_out :: "cstring \<Rightarrow> cgi \<Rightarrow> cgi" where
  "put_out t w = w\<lparr>html_out := html_out w @ t\<rparr>"

lemma put_out_frame [simp]:
  "files (put_out t w) = files w" "sys_log (put_out t w) = sys_log w" "envtop (put_out t w) = envtop w"
  "clock_set (put_out t w) = clock_set w" "shutdown_arg (put_out t w) = shutdown_arg w"
  "html_out (put_out t w) = html_out w @ t" "getval k (put_out t w) = getval k w"
  "d_flg (put_out t w) = d_flg w"
  by (simp_all add: put_out_def getval_def getval2_def getvalp_def Let_def)

subsection \<open>Menus\<close>

datatype menu =
  Menu (menu_active: int) (menu_child: "menu list option") (menu_idx: category) (menu_tmpl: cstring)
    (menu_str: cstring) (menu_ok: "handler option") (menu_del: "handler option")

definition vc_num :: "category \<Rightarrow> int" where
  "vc_num c = (case c of VC_SAVE \<Rightarrow> 1 | VC_SYSTEM \<Rightarrow> 2 | VC_USER \<Rightarrow> 3 | VC_NETWORK \<Rightarrow> 4 | VC_MASQ \<Rightarrow> 5
     | VC_FW \<Rightarrow> 6 | VC_MISC \<Rightarrow> 7 | VC_HELP \<Rightarrow> 8 | VC_DHCPD \<Rightarrow> 9 | VC_SENDMAIL \<Rightarrow> 10 | VC_NAMED \<Rightarrow> 11
     | VC_HTTPD \<Rightarrow> 12 | VC_LOGIN \<Rightarrow> 13 | VC_IPV6 \<Rightarrow> 14 | VC_SAMBA \<Rightarrow> 15)"

definition sub_menu :: "menu list" where
  "sub_menu =
     [Menu 1 None VC_DHCPD ''dhcpd'' ''dhcpd'' (Some ok_dhcp) None,
      Menu 1 None VC_SENDMAIL ''sendmail'' ''sendmail'' (Some ok_sendmail) (Some del),
      Menu 1 None VC_NAMED ''named'' ''named'' (Some ok_named) (Some del),
      Menu 1 None VC_HTTPD ''httpd'' ''httpd'' (Some ok_httpd) (Some del)]"

text \<open>
  The top menu of the standard program, with the IPv6 page when it is built with it; the
  entry for saving is active when there is something to save.
\<close>

definition top_menu :: "bool \<Rightarrow> bool \<Rightarrow> menu list" where
  "top_menu ipv6 save_active =
     [Menu (if save_active then 1 else 0) None VC_SAVE ''save'' ([CHR 0xC0, CHR 0xDF, CHR 0xC4, CHR 0xEA, CHR 0xCA, CHR 0xDD, CHR 0xC2, CHR 0xB8]) (Some ok_save) None,
      Menu 1 None VC_SYSTEM ''system'' ([CHR 0xA5, CHR 0xB7, CHR 0xA5, CHR 0xB9, CHR 0xA5, CHR 0xC6, CHR 0xA5, CHR 0xE0]) (Some ok_system) None,
      Menu 1 None VC_USER ''user'' ([CHR 0xA5, CHR 0xE6, CHR 0xA1, CHR 0xBC, CHR 0xA5, CHR 0xB6, CHR 0xB4, CHR 0xC9, CHR 0xCD, CHR 0xFD]) (Some ok_user) (Some del),
      Menu 1 None VC_NETWORK ''network'' ([CHR 0xA5, CHR 0xCD, CHR 0xA5, CHR 0xC3, CHR 0xA5, CHR 0xC8, CHR 0xA5, CHR 0xEF, CHR 0xA1, CHR 0xBC, CHR 0xA5, CHR 0xAF]) (Some ok_network) None] @
     (if ipv6 then [Menu 1 None VC_IPV6 ''ipv6'' ''IPv6'' (Some ok_ipv6) None] else []) @
     [Menu 1 None VC_MASQ ''masq'' ([CHR 0xA5, CHR 0xA2, CHR 0xA5, CHR 0xC9, CHR 0xA5, CHR 0xEC, CHR 0xA5, CHR 0xB9, CHR 0xCA, CHR 0xD1, CHR 0xB4, CHR 0xB9]) (Some ok_masq) None,
      Menu 1 None VC_FW ''fw'' ([CHR 0xB4, CHR 0xCA, CHR 0xB0, CHR 0xD7, CHR 0xA5, CHR 0xD5, CHR 0xA5, CHR 0xA1, CHR 0xA5, CHR 0xA4, CHR 0xA5, CHR 0xE4, CHR 0xA5, CHR 0xA6, CHR 0xA5, CHR 0xA9, CHR 0xA1, CHR 0xBC, CHR 0xA5, CHR 0xEB]) (Some ok_fw) (Some del),
      Menu 1 (Some sub_menu) VC_MISC ''misc'' ([CHR 0xA4, CHR 0xBD, CHR 0xA4, CHR 0xCE, CHR 0xC2, CHR 0xBE]) None None]"

text \<open>The menu of the variant built with \<^verbatim>\<open>CUSTOM0\<close>.\<close>

definition top_menu_custom0 :: "bool \<Rightarrow> menu list" where
  "top_menu_custom0 save_active =
     [Menu (if save_active then 1 else 0) None VC_SAVE ''save'' ([CHR 0xC0, CHR 0xDF, CHR 0xC4, CHR 0xEA, CHR 0xCA, CHR 0xDD, CHR 0xC2, CHR 0xB8]) (Some ok_save) None,
      Menu 1 None VC_SYSTEM ''system'' ([CHR 0xA5, CHR 0xB7, CHR 0xA5, CHR 0xB9, CHR 0xA5, CHR 0xC6, CHR 0xA5, CHR 0xE0]) (Some ok_system) None,
      Menu 1 None VC_NETWORK ''network'' ([CHR 0xA5, CHR 0xCD, CHR 0xA5, CHR 0xC3, CHR 0xA5, CHR 0xC8, CHR 0xA5, CHR 0xEF, CHR 0xA1, CHR 0xBC, CHR 0xA5, CHR 0xAF]) (Some ok_network) None,
      Menu 1 None VC_SAMBA ''samba'' ''samba'' (Some ok_samba) None]"

fun op2menu_op :: "menu list \<Rightarrow> cstring \<Rightarrow> menu option" where
  "op2menu_op [] op = None"
| "op2menu_op (Menu a child i tmpl str ok dl # ms) op =
     (if tmpl = op then Some (Menu a child i tmpl str ok dl)
      else case child of
             None \<Rightarrow> op2menu_op ms op
           | Some c \<Rightarrow> (case op2menu_op c op of Some r \<Rightarrow> Some r | None \<Rightarrow> op2menu_op ms op))"

definition op2menu :: "menu list option \<Rightarrow> cstring option \<Rightarrow> menu option" where
  "op2menu m op = (case (m, op) of (Some ms, Some s) \<Rightarrow> op2menu_op ms s | _ \<Rightarrow> None)"

subsection \<open>The frame of a page\<close>

definition update_timer :: cstring where
  \<open>update_timer =
     ''<script>'' @ ''<!--'' @ ''var sec = 0;'' @ ''function timeform() {'' @
     ''  hour = document.i_timer.i_hour.value - 0;'' @ ''  min  = document.i_timer.i_min.value - 0;'' @
     ''  /* ++sec; */'' @ ''  if(sec >= 60){'' @ ''    sec = 0;'' @ ''    ++min;'' @ ''  }'' @
     ''  if(min >= 60){'' @ ''    min = 0;'' @ ''    ++hour;'' @ ''  }'' @
     ''  if ( hour < 10 ) { hour = "0" + hour; }'' @ ''  if ( min  < 10 ) { min  = "0" + min; }'' @
     ''  document.i_timer.i_hour.value = hour;'' @ ''  document.i_timer.i_min.value  = min;'' @
     ''  window.setTimeout( "timeform()", 1000 );'' @ ''}'' @ ''// -->'' @ ''</script>''\<close>

definition output_header :: "cstring \<Rightarrow> cstring \<Rightarrow> cgi \<Rightarrow> cgi" where
  \<open>output_header opt javascript w =
     put_out (''Content-Type: text/html; charset=euc-jp'' @ [NL, NL] @
       ''<!DOCTYPE HTML PUBLIC "-//W3C//DTD HTML 4.01 Transitional//EN">'' @ [NL] @
       ''<html>'' @ ''  <head>'' @ ''  <meta HTTP-EQUIV="Content-Type" CONTENT="text/html; charset=euc-jp">'' @
       ''  <title>OpenBlockS'' @ [CHR 0xC0, CHR 0xDF, CHR 0xC4, CHR 0xEA, CHR 0xA5, CHR 0xE1, CHR 0xA5, CHR 0xCB, CHR 0xA5, CHR 0xE5, CHR 0xA1, CHR 0xBC] @ ''</title>'' @ ''  '' @ javascript @ ''  </head>'' @
       ''  <body BGCOLOR="#ffffff" '' @ opt @ ''>'' @ ''  <CENTER><IMG SRC="/ob_title.gif"></CENTER>'') w\<close>

definition output_footer :: "cgi \<Rightarrow> cgi" where
  \<open>output_footer w =
     put_out (''<hr>'' @ ''<B>&copy; 2001-2005 Plat'' @ [CHR 0x27] @ ''Home CO., LTD., Heart Internet Service</B><BR>'' @
       ''<FONT SIZE="-1">OpenBlockS Auto Configuration, Version: '' @ ''3.00'' @ '', Last Build: '' @ build_date w @
       ''</FONT><BR>'' @ ''  </body>'' @ ''</html>'') w\<close>

definition COLOR_WHITE :: cstring where "COLOR_WHITE = ''#ffffff''"
definition COLOR_C0 :: cstring where "COLOR_C0 = ''#eeeeee''"
definition COLOR_C1 :: cstring where "COLOR_C1 = ''#0cb0e0''"
definition COLOR_C3 :: cstring where "COLOR_C3 = ''#ffff00''"
definition COLOR_GRAY0 :: cstring where "COLOR_GRAY0 = ''#eeeeee''"

definition tab_open :: cstring where
  \<open>tab_open = ''<TABLE WIDTH="100%" border=0 cellpadding=4 cellspacing=0>'' @ [NL] @ ''<TR>'' @ [NL]\<close>

definition tab_close :: "nat \<Rightarrow> cstring" where
  \<open>tab_close n =
     ''<TD NOWRAP width="100%" align="left" bgcolor='' @ COLOR_WHITE @ '' valign="top"><FONT><B>&nbsp;</B></FONT></TD>'' @ [NL] @
     ''</TR>'' @ [NL] @ ''<TR HEIGHT=1>'' @ [NL] @
     ''<TD WIDTH="100%" HEIGHT=1 COLSPAN='' @ dec (int n * 2 + 1) @ '' bgcolor='' @ COLOR_C1 @ ''>&nbsp;</TD>'' @ [NL] @
     ''</TR>'' @ [NL] @ ''</TABLE>'' @ [NL]\<close>

definition tab_cell :: "cstring \<Rightarrow> bool \<Rightarrow> bool \<Rightarrow> cstring \<Rightarrow> cstring \<Rightarrow> cstring" where
  \<open>tab_cell color chosen active href str =
     ''<TD NOWRAP width="1%" align="left" bgcolor='' @ color @ '' valign="top"><FONT><B>'' @
     (if chosen \<or> active then ''<A HREF="'' @ href @ ''">'' @ str @ ''</A>'' else str) @ ''</B></FONT></TD>'' @ [NL] @
     ''<TD WIDTH="1%"></TD>'' @ [NL]\<close>

definition output_subtab :: "menu list option \<Rightarrow> cstring \<Rightarrow> cstring option \<Rightarrow> cgi \<Rightarrow> cgi" where
  "output_subtab m0 op subop w =
     (case m0 of None \<Rightarrow> w
      | Some ms \<Rightarrow>
          let sub = (case subop of None \<Rightarrow> '''' | Some s \<Rightarrow> s);
              cell = (\<lambda>m. tab_cell (if sub = menu_tmpl m then COLOR_C1 else COLOR_C0) (sub = menu_tmpl m)
                (menu_active m \<noteq> 0) (HTML_script w @ ''&op='' @ op @ ''&subop='' @ menu_tmpl m) (menu_str m))
          in put_out (tab_open @ concat (map cell ms) @ tab_close (length ms)) w)"

definition output_tab :: "menu list option \<Rightarrow> cstring option \<Rightarrow> cstring option \<Rightarrow> cgi \<Rightarrow> cgi" where
  "output_tab m0 op subop w =
     (case m0 of None \<Rightarrow> w
      | Some ms \<Rightarrow>
          let op' = (case op of None \<Rightarrow> '''' | Some s \<Rightarrow> s);
              cell = (\<lambda>m. tab_cell (if op' = menu_tmpl m then COLOR_C1 else COLOR_C0) (op' = menu_tmpl m)
                (menu_active m \<noteq> 0) (HTML_script w @ ''&op='' @ menu_tmpl m) (menu_str m));
              w = put_out (tab_open @ concat (map cell ms) @ tab_close (length ms)) w;
              child = fold (\<lambda>m c. if op' = menu_tmpl m \<and> \<not> Option.is_none (menu_child m) then menu_child m else c) ms None
          in output_subtab child op' subop w)"

subsection \<open>Template files\<close>

definition eval_macro :: "cstring \<Rightarrow> cgi \<Rightarrow> cgi option" where
  "eval_macro zbuf w = do { (t, _) \<leftarrow> eval w zbuf; Some (put_out t w) }"

text \<open>
  One line of a template: \<open>inflg\<close> says whether it is inside a macro, \<open>zbuf\<close> holds what
  was collected of it. The buffer has 128 bytes; a byte or the terminator behind it has no
  place. The look at the next byte does not go beyond the line.
\<close>

function body_scan :: "cstring \<Rightarrow> bool \<Rightarrow> cstring \<Rightarrow> cgi \<Rightarrow> (bool \<times> cstring \<times> cgi) option" where
  "body_scan [] inflg zbuf w = Some (inflg, zbuf, w)"
| "body_scan (c # p) inflg zbuf w =
     (if \<not> inflg \<and> c = CHR ''<'' \<and> deref p = CHR ''?'' then body_scan (tl p) True [] w
      else if ((inflg \<and> c = CHR ''?'') \<or> length zbuf > 127) \<and> deref p = CHR ''>''
      then if length zbuf > 127 then None
           else (case eval_macro zbuf w of None \<Rightarrow> None | Some w \<Rightarrow> body_scan (tl p) False zbuf w)
      else if \<not> inflg then body_scan p inflg zbuf (put_out [c] w)
      else if length zbuf > 127 then None else body_scan p inflg (zbuf @ [c]) w)"
  by pat_completeness auto
termination
  by (relation "measure (\<lambda>(p, f, z, w). length p)") auto

definition output_body :: "cstring \<Rightarrow> cgi \<Rightarrow> cgi option" where
  "output_body file w =
     (let w = put_out (''<!--'' @ file @ ''-->'' @ [NL]) w;
          fp = (case files w (file @ ''-'' @ HTML_script_arg1 w @ ''.t'') of
                  None \<Rightarrow> files w (file @ ''.t'') | Some t \<Rightarrow> Some t) in
      case fp of
        None \<Rightarrow> Some w
      | Some txt \<Rightarrow>
          map_option (\<lambda>(_, _, w). w)
            (foldM (\<lambda>l (f, z, w). body_scan (c_str l) f z w) (fgets_all 1022 txt) (False, [], w)))"

definition page_bar :: cstring where
  \<open>page_bar =
     ''<TABLE WIDTH="100%" border=0 cellpadding=4 cellspacing=0>'' @ [NL] @
     ''<TR><TD BGCOLOR="'' @ COLOR_C1 @ ''">&nbsp;</TD></TR>'' @ [NL] @ ''</TABLE>'' @ [NL]\<close>

definition HTTPD_PORT :: int where "HTTPD_PORT = 880"

definition page_cannot_access :: "cstring \<Rightarrow> cgi \<Rightarrow> cgi" where
  "page_cannot_access op w =
     output_footer (put_out (page_bar @ ''<H1>'' @ [CHR 0xA5, CHR 0xA2, CHR 0xA5, CHR 0xAF, CHR 0xA5, CHR 0xBB, CHR 0xA5, CHR 0xB9, CHR 0xA5, CHR 0xA8, CHR 0xA5, CHR 0xE9, CHR 0xA1, CHR 0xBC] @ ''</H1>'' @ [NL] @ ''<P>'' @ [NL] @
       [CHR 0xC0, CHR 0xDF, CHR 0xC4, CHR 0xEA, CHR 0xA5, CHR 0xE1, CHR 0xA5, CHR 0xCB, CHR 0xA5, CHR 0xE5, CHR 0xA1, CHR 0xBC, CHR 0xA4, CHR 0xCF, CHR 0xA5, CHR 0xA4, CHR 0xA1, CHR 0xBC, CHR 0xA5, CHR 0xB5, CHR 0xA5, CHR 0xCD, CHR 0xA5, CHR 0xC3, CHR 0xA5, CHR 0xC8] @ op @ '' '' @ [CHR 0xA5, CHR 0xDD, CHR 0xA1, CHR 0xBC, CHR 0xA5, CHR 0xC8] @ dec HTTPD_PORT @ '' '' @
       [CHR 0xA4, CHR 0xAB, CHR 0xA4, CHR 0xE9, CHR 0xA4, CHR 0xB7, CHR 0xA4, CHR 0xAB, CHR 0xBB, CHR 0xC8, CHR 0xCD, CHR 0xD1, CHR 0xA4, CHR 0xC7, CHR 0xA4, CHR 0xAD, CHR 0xA4, CHR 0xDE, CHR 0xA4, CHR 0xBB, CHR 0xA4, CHR 0xF3] @ ''<P>'' @ [NL]) (output_header '''' '''' w))"

definition page_login :: "cstring \<Rightarrow> cgi \<Rightarrow> cgi option" where
  "page_login op w =
     map_option output_footer (output_body ''login'' (put_out page_bar (output_header '''' '''' w)))"

definition page_badpasswd :: "cstring \<Rightarrow> cgi \<Rightarrow> cgi option" where
  "page_badpasswd op w =
     map_option output_footer (output_body ''badpasswd'' (put_out page_bar (output_header '''' '''' w)))"

subsection \<open>Macros\<close>

lemma scan_text:
  assumes "\<not> sublist ''<?'' t" "length z \<le> 127"
  shows "body_scan (t @ ''<?'' @ r) False z w = body_scan (''<?'' @ r) False z (put_out t w)"
    and "body_scan t False z w = Some (False, z, put_out t w)"
proof -
  have z: "\<not> 127 < length z" using assms(2) by simp
  have put: "put_out [] w = w" "put_out u (put_out s w) = put_out (s @ u) w" for u s w
    by (simp_all add: put_out_def)
  have step: "\<not> (c = CHR ''<'' \<and> deref (t @ ''<?'' @ r) = CHR ''?'') \<and> \<not> (c = CHR ''<'' \<and> deref t = CHR ''?'')
      \<and> \<not> sublist ''<?'' t" if "\<not> sublist ''<?'' (c # t)" for c t
    using that by (cases t) (auto simp: sublist_Cons_right)
  show "body_scan (t @ ''<?'' @ r) False z w = body_scan (''<?'' @ r) False z (put_out t w)"
    using assms(1)
  proof (induction t arbitrary: w)
    case (Cons c t)
    then show ?case using step [OF Cons.prems] z by (auto simp: put)
  qed (simp add: put)
  show "body_scan t False z w = Some (False, z, put_out t w)"
    using assms(1)
  proof (induction t arbitrary: w)
    case (Cons c t)
    then show ?case using step [OF Cons.prems] z by (auto simp: put)
  qed (simp add: put)
qed

lemma scan_macro:
  assumes "\<not> sublist ''?>'' m" "length z + length m \<le> 127"
  shows "body_scan (m @ ''?>'' @ r) True z w =
     (case eval_macro (z @ m) w of None \<Rightarrow> None | Some v \<Rightarrow> body_scan r False (z @ m) v)"
  using assms
proof (induction m arbitrary: z)
  case Nil
  then show ?case by (simp split: option.split)
next
  case (Cons c m)
  have "\<not> (c = CHR ''?'' \<and> deref (m @ ''?>'' @ r) = CHR ''>'')" "\<not> sublist ''?>'' m"
    using Cons.prems(1) by (cases m; auto simp: sublist_Cons_right)+
  then show ?case using Cons.IH [of "z @ [c]"] Cons.prems(2) by (auto split: option.split)
qed

lemma scan_macro_long:
  assumes "\<not> sublist ''?>'' m" "length z + length m > 127"
  shows "body_scan (m @ ''?>'' @ r) True z w = None"
  using assms
proof (induction m arbitrary: z)
  case (Cons c m)
  have "\<not> (c = CHR ''?'' \<and> deref (m @ ''?>'' @ r) = CHR ''>'')" "\<not> sublist ''?>'' m"
    using Cons.prems(1) by (cases m; auto simp: sublist_Cons_right)+
  then show ?case using Cons.IH [of "z @ [c]"] Cons.prems(2) by auto
qed simp

text \<open>
  C32. A line of a template: the text before the first macro is printed as it is, the macro is
  evaluated where it stands and its value printed, and the scan goes on behind it outside
  macros; but a macro of more than 127 bytes overruns the buffer.
\<close>

theorem macro_in_line:
  assumes "\<not> sublist ''<?'' t" "\<not> sublist ''?>'' m" "length z \<le> 127"
  shows "body_scan (t @ ''<?'' @ m @ ''?>'' @ r) False z w =
     (if length m \<le> 127
      then (case eval (put_out t w) m of None \<Rightarrow> None
            | Some (v, _) \<Rightarrow> body_scan r False m (put_out v (put_out t w)))
      else None)"
proof -
  have "body_scan (t @ ''<?'' @ m @ ''?>'' @ r) False z w = body_scan (m @ ''?>'' @ r) True [] (put_out t w)"
    using scan_text(1) [OF assms(1,3), of "m @ ''?>'' @ r" w] by simp
  then show ?thesis
    using scan_macro [OF assms(2), of "[]"] scan_macro_long [OF assms(2), of "[]"]
    by (auto simp: eval_macro_def split: option.split prod.split)
qed

theorem macro_in_line_witness:
  "body_scan (''<b>'' @ ''<?'' @ replicate 128 CHR ''a'' @ ''?>'' @ ''</b>'') False [] empty_cgi = None"
proof -
  have m: "\<not> sublist ''?>'' (replicate 128 CHR ''a'')"
    by (auto dest!: set_mono_sublist)
  have "\<not> sublist ''<?'' ''<b>''" by (simp add: sublist_Cons_right)
  from macro_in_line [OF this m, of "[]"] show ?thesis by (simp only: length_replicate) simp
qed

end
