(* ===== verification/Cgi.thy ===== *)
theory Cgi
  imports Page
begin

unbundle bit_operations_syntax

text \<open>
  The program of \<^verbatim>\<open>contrib/setup/setup.c\<close>: decoding the request, the session key, the
  login gate of \<^verbatim>\<open>main\<close>, and \<^verbatim>\<open>page_setup\<close>, which runs a handler and prints
  the page. The last part follows the configuration files over a sequence of requests.
\<close>

subsection \<open>The request\<close>

text \<open>
  The encoded arguments: from the query string, or else the announced number of bytes of the
  standard input. What the input does not fill of the buffer is indeterminate, and the length
  -1 puts the terminator before the buffer (\<open>None\<close>).
\<close>

definition nonempty :: "cstring option \<Rightarrow> cstring option" where
  "nonempty v = (case v of None \<Rightarrow> None | Some s \<Rightarrow> if s = [] then None else Some s)"

definition read_stdin :: "cstring \<Rightarrow> cgi \<Rightarrow> (cgi + cstring) option" where
  "read_stdin env w =
     (let len = atoi env in
      if len > 1024 then Some (die ''getarg'' w)
      else if len < - 1 then Some (die ''malloc'' w)
      else if len = - 1 \<or> int (length (stdin_data w)) < len then None
      else Some (Inr (c_str (take (nat len) (stdin_data w)))))"

definition get_envbuf :: "cgi \<Rightarrow> (cgi + cstring) option" where
  "get_envbuf w =
     (case nonempty (penv w ''QUERY_STRING'') of
        Some env \<Rightarrow> Some (if length env > 1024 then die ''getarg'' w else Inr env)
      | None \<Rightarrow>
          (case nonempty (penv w ''REDIRECT_CONTENT_LENGTH'') of
             Some env \<Rightarrow> read_stdin env w
           | None \<Rightarrow>
               (case nonempty (penv w ''CONTENT_LENGTH'') of
                  Some env \<Rightarrow> read_stdin env w
                | None \<Rightarrow> Some (Inr [])))) "

text \<open>What one argument does, by the letter before the underscore of its key.\<close>

definition put_arg :: "cstring \<Rightarrow> cstring \<Rightarrow> cgi \<Rightarrow> cgi" where
  "put_arg key val w =
     (case key of
        a # b # r \<Rightarrow>
          if b = CHR ''_''
          then if a = CHR ''j''
               then (if getval (CHR ''i'' # b # r) w = None
                     then putval (CHR ''x'' # b # r) val 1 (putval (CHR ''i'' # b # r) val 1 w) else w)
               else if a = CHR ''i''
               then putval (CHR ''x'' # b # r) val 1 (putval key val 1 w)
               else if a = CHR ''d''
               then putval key val 1 (w\<lparr>d_flg := True\<rparr>)
               else putval key val 1 w
          else putval key val 0 w
      | _ \<Rightarrow> putval key val 0 w)"

text \<open>
  One argument: its value is what stands behind the equals sign, or the decoded value of the
  argument before it when there is none. An empty last argument has its second byte behind
  the buffer.
\<close>

definition arg_step :: "bool \<Rightarrow> cstring \<Rightarrow> cstring \<times> cgi \<Rightarrow> (cstring \<times> cgi) option" where
  "arg_step islast seg s =
     (case s of (val, w) \<Rightarrow>
        let key = takeWhile (\<lambda>c. c \<noteq> CHR ''='') seg in
        do { val \<leftarrow> ring_htdecode (case dropWhile (\<lambda>c. c \<noteq> CHR ''='') seg of [] \<Rightarrow> val | _ # v \<Rightarrow> v);
             if islast \<and> seg = [] then None
             else Some (val, put_arg key val w) })"

fun arg_loop :: "cstring list \<Rightarrow> cstring \<times> cgi \<Rightarrow> (cstring \<times> cgi) option" where
  "arg_loop [] s = Some s"
| "arg_loop (seg # segs) s = arg_step (segs = []) seg s \<bind> arg_loop segs"

text \<open>The arguments between the ampersands, empty ones included.\<close>

fun split_amp :: "cstring \<Rightarrow> cstring list" where
  "split_amp [] = [[]]"
| "split_amp (c # s) =
     (if c = CHR ''&'' then [] # split_amp s
      else case split_amp s of [] \<Rightarrow> [[c]] | seg # segs \<Rightarrow> (c # seg) # segs)"

definition get_args :: "cstring \<Rightarrow> cgi \<Rightarrow> cgi option" where
  "get_args envbuf w =
     map_option snd (arg_loop (if envbuf = [] then [] else split_amp envbuf) ([], w))"

definition ht_getarg :: "cgi \<Rightarrow> (cgi + cgi) option" where
  "ht_getarg w =
     do { r \<leftarrow> get_envbuf w;
          case r of Inl w' \<Rightarrow> Some (Inl w') | Inr envbuf \<Rightarrow> map_option Inr (get_args envbuf w) }"

subsection \<open>The session key\<close>

definition create_key :: "cstring \<Rightarrow> cgi \<Rightarrow> cstring" where
  "create_key login w =
     crypt w (login @ dec (time_now w) @ ''SECRET'') (''$1$'' @ dec (pid_now w)) @ '':'' @ dec (time_now w)"

definition check_key :: "cstring \<Rightarrow> cstring \<Rightarrow> cgi \<Rightarrow> bool option" where
  "check_key login str w =
     do { lst \<leftarrow> list_split CHR '':'' (Some str);
          key \<leftarrow> nth_opt (list_items lst) 0;
          stamp \<leftarrow> nth_opt (list_items lst) 1;
          Some (crypt w (login @ stamp @ ''SECRET'') key = key) }"

subsection \<open>Running a handler and printing the page\<close>

definition ETC_FLASHCFG :: cstring where "ETC_FLASHCFG = ''/etc/flashcfg''"

definition save_cmd :: cstring where
  "save_cmd = ''/usr/sbin/flashcfg -s '' @ ETC_FLASHCFG @ '' > /dev/null 2>&1''"

text \<open>The rest of the first key that begins with \<^verbatim>\<open>s_ok\<close>, up to an equals sign.\<close>

definition find_okarg :: "cgi \<Rightarrow> cstring option" where
  "find_okarg w =
     map_option (\<lambda>e. takeWhile (\<lambda>c. c \<noteq> CHR ''='') (drop 4 (env_key e)))
       (List.find (\<lambda>e. strncmp_eq (env_key e) ''s_ok'' 4) (envtop w))"

definition run_hook :: "menu \<Rightarrow> cgi \<Rightarrow> reply" where
  "run_hook m w =
     (case find_okarg w of
        Some okarg \<Rightarrow>
          (case err_chk w of
             None \<Rightarrow> None
           | Some (err, w) \<Rightarrow>
               if err then stay NG w
               else (case menu_ok m of None \<Rightarrow> stay CONT w | Some h \<Rightarrow> h okarg w))
      | None \<Rightarrow>
          if d_flg w
          then (case menu_del m of
                  None \<Rightarrow> stay CONT w
                | Some h \<Rightarrow> map_option (map_sum id (\<lambda>(_, w). (CONT, w))) (h '''' w))
          else stay CONT w)"

definition generate :: "cstring option \<Rightarrow> cgi \<Rightarrow> (cgi + cgi) option" where
  "generate flashcfg w =
     do { r \<leftarrow> yazaki_main w;
          case r of
            Inl w \<Rightarrow> Some (Inl w)
          | Inr w \<Rightarrow> do {
              w \<leftarrow> sysupdate w;
              Some (Inr (case flashcfg of
                           None \<Rightarrow> w
                         | Some t \<Rightarrow> system_cmd (if t = [] then [] else save_cmd) w)) } }"

text \<open>
  The page of the saving handler. What is saved to the flash memory is decided by the file
  as it was before the generators ran.
\<close>

definition copy_defaults :: "cgi \<Rightarrow> cgi option" where
  "copy_defaults w =
     (case files w RC_CONF_DEFAULT of
        None \<Rightarrow> None
      | Some t \<Rightarrow> if can_write w RC_CONF then Some (out_file RC_CONF t w) else None)"

definition save_page :: "menu list \<Rightarrow> cstring option \<Rightarrow> cstring option \<Rightarrow> cgi \<Rightarrow> (cgi + cgi) option" where
  "save_page tm op subop w =
     (let fl = files w ETC_FLASHCFG;
          w = put_out (''<h1>'' @ [CHR 0xB4, CHR 0xB0, CHR 0xCE, CHR 0xBB] @ ''</h1>'' @ [NL])
                (output_tab (Some tm) op subop (output_header '''' '''' w)) in
      do { w \<leftarrow> output_body ''ok3.t'' w;
           save_mode \<leftarrow> getval ''x_save_mode'' w;
           r \<leftarrow> (if deref save_mode = CHR ''2''
                then map_option (map_sum id (\<lambda>w. w\<lparr>shutdown_arg := ''-r''\<rparr>)) (generate fl w)
                else if deref save_mode = CHR ''3''
                then map_option (map_sum id (\<lambda>w. w\<lparr>shutdown_arg := ''-h''\<rparr>)) (generate fl w)
                else if deref save_mode = CHR ''4''
                then Some (Inr (w\<lparr>shutdown_arg := ''-h''\<rparr>))
                else if deref save_mode = CHR ''5''
                then map_option Inr (copy_defaults w)
                else generate fl w);
           Some (map_sum id output_footer r) })"

definition change_page :: "menu list \<Rightarrow> cstring option \<Rightarrow> cstring option \<Rightarrow> cgi \<Rightarrow> cgi option" where
  "change_page tm op subop w =
     (let w = output_tab (Some tm) op subop (output_header '''' '''' w) in
      map_option output_footer
        (if is_updateval w = 3
         then output_change (put_out (''<h1>'' @ [CHR 0xB0, CHR 0xCA, CHR 0xB2, CHR 0xBC, CHR 0xA4, CHR 0xCE, CHR 0xA4, CHR 0xE8, CHR 0xA4, CHR 0xA6, CHR 0xA4, CHR 0xCB, CHR 0xC0, CHR 0xDF, CHR 0xC4, CHR 0xEA, CHR 0xA4, CHR 0xB7, CHR 0xA4, CHR 0xDE, CHR 0xA4, CHR 0xB7, CHR 0xA4, CHR 0xBF] @ ''</h1>'' @ [NL]) w)
         else Some (put_out (''<h1>'' @ [CHR 0xCA, CHR 0xD1, CHR 0xB9, CHR 0xB9, CHR 0xC5, CHR 0xC0, CHR 0xA4, CHR 0xCF, CHR 0xA4, CHR 0xA2, CHR 0xA4, CHR 0xEA, CHR 0xA4, CHR 0xDE, CHR 0xA4, CHR 0xBB, CHR 0xA4, CHR 0xF3] @ ''</h1>'' @ [NL]) w)))"

definition error_page :: "menu list \<Rightarrow> cstring option \<Rightarrow> cstring option \<Rightarrow> cgi \<Rightarrow> cgi" where
  "error_page tm op subop w =
     output_footer (put_out (''<P>'' @ HTML_error w @ ''<P>'' @ [NL])
       (output_tab (Some tm) op subop (output_header '''' '''' w)))"

definition menu_page :: "menu list \<Rightarrow> menu \<Rightarrow> cstring \<Rightarrow> cstring option \<Rightarrow> cgi \<Rightarrow> cgi option" where
  "menu_page tm m op subop w =
     (let hd = (if op = ''system'' then output_header (''onLoad='' @ [DQ] @ ''timeform()'' @ [DQ]) update_timer
                else output_header '''' '''') in
      do { q \<leftarrow> quote (menu_str m);
           w \<leftarrow> output_body (menu_tmpl m)
                 (put_out (''<h1>'' @ q @ ''</h1>'' @ [NL]) (output_tab (Some tm) (Some op) subop (hd w)));
           Some (output_footer w) })"

definition page_setup :: "menu list \<Rightarrow> cstring \<Rightarrow> cstring option \<Rightarrow> cgi \<Rightarrow> (cgi + cgi) option" where
  "page_setup tm op subop w =
     do { menu \<leftarrow> (case op2menu (Some tm) subop of Some m \<Rightarrow> Some m | None \<Rightarrow> op2menu (Some tm) (Some op));
          if vc_num (menu_idx menu) \<ge> 0
          then do {
            r \<leftarrow> run_hook menu w;
            case r of
              Inl w \<Rightarrow> Some (Inl w)
            | Inr (st, w) \<Rightarrow>
                if st = OK_SAVE then save_page tm (Some op) subop w
                else if st = OK \<or> st = OK_NOSAVE then map_option Inr (change_page tm (Some op) subop w)
                else if st = NG then Some (Inr (error_page tm (Some op) subop w))
                else map_option Inr (menu_page tm menu op subop w) }
          else Some (Inr w) }"

subsection \<open>The main program\<close>

datatype login_stat = NO_LOGIN | BAD_LOGIN | BAD_PASSWD | OK_LOGIN

definition get_interface_adr :: "cstring option \<Rightarrow> cgi \<Rightarrow> cstring option option" where
  "get_interface_adr ifc w =
     (case ifc of
        None \<Rightarrow> Some None
      | Some i \<Rightarrow>
          if length i \<ge> 16 then None
          else (case if_addr w i of
                  Some [a, b, c, d] \<Rightarrow> Some (Some (dotted (int a) (int b) (int c) (int d)))
                | _ \<Rightarrow> None))"

text \<open>
  The address the request came in on and its port; a host that cannot be resolved is copied
  to a NULL pointer.
\<close>

definition server_address :: "cgi \<Rightarrow> (cstring \<times> int) option" where
  "server_address w =
     do { host \<leftarrow> penv w ''HTTP_HOST'';
          adr \<leftarrow> host_ip w host;
          port \<leftarrow> penv w ''SERVER_PORT'';
          Some (adr, case scan_d port of None \<Rightarrow> 0 | Some (p, _) \<Rightarrow> p) }"

text \<open>The port number of the interface in \<^verbatim>\<open>sscanf(s, "eth%d", ...)\<close>.\<close>

definition eth_port :: "cstring \<Rightarrow> int option" where
  "eth_port s = (if prefix ''eth'' s then map_option fst (scan_d (drop 3 s)) else None)"

definition access_denied :: "cgi \<Rightarrow> bool option" where
  "access_denied w =
     do { (srv, port) \<leftarrow> server_address w;
          adr \<leftarrow> get_interface_adr (getval ''x_openblocks_access_limit'' w) w;
          Some (adr \<noteq> Some srv \<or> HTTPD_PORT \<noteq> port) }"

definition set_colors :: "cgi \<Rightarrow> cgi" where
  "set_colors w =
     fold (\<lambda>(k, v). putval k v RC_bNULL)
       [(''c0'', COLOR_C0), (''c1'', COLOR_C1), (''c2'', COLOR_C2), (''c3'', COLOR_C3), (''gray0'', COLOR_GRAY0)] w"

definition check_login :: "cgi \<Rightarrow> (login_stat \<times> cgi) option" where
  "check_login w =
     (let login = getval ''x_login'' w; passwd = getval ''x_passwd'' w; key = getval ''x_key'' w;
          w = snd (setvalflag ''x_key'' RC_bNULL w) in
      case nonempty login of
        None \<Rightarrow> Some (NO_LOGIN, w)
      | Some l \<Rightarrow>
          (case nonempty passwd of
             Some p \<Rightarrow>
               (case root_passwd w of
                  None \<Rightarrow> Some (BAD_LOGIN, w)
                | Some pw \<Rightarrow>
                    if crypt w p pw \<noteq> pw then Some (BAD_PASSWD, w)
                    else Some (OK_LOGIN, putval ''x_key'' (create_key l w) (RC_bWRITE OR RC_bNULL) w))
           | None \<Rightarrow>
               (case nonempty key of
                  None \<Rightarrow> Some (NO_LOGIN, w)
                | Some k \<Rightarrow> do { ok \<leftarrow> check_key l k w; Some (if ok then OK_LOGIN else NO_LOGIN, w) })))"

definition append_opt :: "cstring \<Rightarrow> cstring option \<Rightarrow> cstring" where
  "append_opt s p = (case p of None \<Rightarrow> s | Some t \<Rightarrow> s @ t)"

text \<open>From the decoded request to the page; \<open>ipv6\<close> says how the program was built.\<close>

definition serve :: "bool \<Rightarrow> cgi \<Rightarrow> (cgi + cgi) option" where
  "serve ipv6 w0 =
     (let w = set_colors w0;
          tm = top_menu ipv6 (is_updateval w = 3);
          op = (case nonempty (getval ''op'' w) of None \<Rightarrow> ''system'' | Some s \<Rightarrow> s);
          subop = getval ''subop'' w;
          w = w\<lparr>HTML_script_op := op, HTML_script_subop := append_opt [] subop,
                HTML_script_arg1 := append_opt [] (getval ''a'' w),
                HTML_script_arg2 := append_opt [] (getval ''a2'' w)\<rparr>
      in do {
        denied \<leftarrow> access_denied w;
        if denied
        then do { lim \<leftarrow> getval ''x_openblocks_access_limit'' w;
                  n \<leftarrow> eth_port lim;
                  Some (Inr (page_cannot_access (dec n) w)) }
        else do {
          (stat, w) \<leftarrow> check_login w;
          if stat = BAD_PASSWD \<or> stat = BAD_LOGIN then map_option Inr (page_badpasswd ''badpasswd'' w)
          else if stat \<noteq> OK_LOGIN then map_option Inr (page_login ''login'' w)
          else let w = snd (setvalflag ''x_passwd'' RC_bNULL (snd (setvalflag ''x_login'' RC_bNULL w))) in
            do { k \<leftarrow> getval ''x_key'' w;
                 q \<leftarrow> quote k;
                 let script = HTML_script w @ ''setup.cgi?i_login='' @ str_of ''x_login'' w @ ''&i_key='' @ q;
                 page_setup tm op subop (putval ''script'' script RC_bWRITE (w\<lparr>HTML_script := script\<rparr>)) } } })"

text \<open>The program: every way out prints the page and ends the process.\<close>

definition main :: "bool \<Rightarrow> cgi \<Rightarrow> cgi option" where
  "main ipv6 w =
     do { r \<leftarrow> read_conf w;
          r \<leftarrow> (case r of Inl w \<Rightarrow> Some (Inl w) | Inr w \<Rightarrow> ht_getarg w);
          r \<leftarrow> (case r of Inl w \<Rightarrow> Some (Inl w)
               | Inr w \<Rightarrow> serve ipv6 (w\<lparr>HTML_script_name := penv w ''SCRIPT_NAME''\<rparr>));
          Some (case r of Inl w \<Rightarrow> w | Inr w \<Rightarrow> w) }"

end
