(* ===== verification/Request.thy ===== *)
theory Request
  imports Cgi
begin

text \<open>
  What the decoded request and the session key of \<^verbatim>\<open>setup.cgi\<close> are worth: which
  keys check, what a form becomes, and the arguments that have no defined result.
\<close>

subsection \<open>The login\<close>

text \<open>
  What \<^verbatim>\<open>main\<close> asks before it runs a page, on the decoded request: the request
  came in over the limited interface on the server's port, and it names a login with either
  the right password or a session key that checks.
\<close>

definition request :: "cgi \<Rightarrow> cgi option" where
  "request w =
     (case read_conf w of
        Some (Inr v) \<Rightarrow> (case ht_getarg v of Some (Inr u) \<Rightarrow> Some u | _ \<Rightarrow> None)
      | _ \<Rightarrow> None)"

definition credentials :: "cgi \<Rightarrow> bool" where
  "credentials w =
     (case nonempty (getval ''x_login'' w) of
        None \<Rightarrow> False
      | Some l \<Rightarrow>
          (case nonempty (getval ''x_passwd'' w) of
             Some p \<Rightarrow> (case root_passwd w of None \<Rightarrow> False | Some pw \<Rightarrow> crypt w p pw = pw)
           | None \<Rightarrow> (case nonempty (getval ''x_key'' w) of
                        None \<Rightarrow> False | Some k \<Rightarrow> check_key l k w = Some True)))"

lemma getval_putval_other: "k \<noteq> key \<Longrightarrow> getval k (putval key v sw w) = getval k w"
  by (simp add: getval_def getval2_def getvalp_def putval_def putval_withdesc_def env_find_put Let_def)

lemma flag_frame [simp]:
  "root_passwd (snd (setvalflag k f w)) = root_passwd w" "crypt (snd (setvalflag k f w)) = crypt w"
  "if_addr (snd (setvalflag k f w)) = if_addr w"
  by (simp_all add: setvalflag_def split: option.split)

subsection \<open>The session key\<close>

lemma fields_two:
  assumes "sep \<notin> set k" "sep \<notin> set t" "t \<noteq> []"
  shows "ItemList.fields sep (k @ sep # t) = [k, t]"
proof -
  have k: "list_all (\<lambda>c. c \<noteq> sep) k" "list_all (\<lambda>c. c \<noteq> sep) t" using assms by (auto simp: list_all_iff)
  then have "ItemList.fields sep t = [t]" using assms(3) by (simp add: ItemList.fields.simps [of sep t])
  then show ?thesis using k by (simp add: ItemList.fields.simps [of sep "k @ sep # t"])
qed

lemma check_key_eq:
  assumes "CHR '':'' \<notin> set k" "CHR '':'' \<notin> set t" "t \<noteq> []"
  shows "check_key l (k @ CHR '':'' # t) w = Some (crypt w (l @ t @ ''SECRET'') k = k)"
proof -
  obtain lst where lst: "list_split CHR '':'' (Some (k @ CHR '':'' # t)) = Some lst"
    "list_items lst = split_items CHR '':'' (Some (k @ CHR '':'' # t))" using list_split_ok by blast
  then have "list_items lst = [k, t]" using fields_two [OF assms] by (simp add: split_items_def)
  then show ?thesis using lst(1) by (simp add: check_key_def nth_opt_def)
qed

lemma dec_no_colon: "CHR '':'' \<notin> set (dec n)" "dec n \<noteq> []"
proof -
  have "CHR '':'' \<notin> set (dec_nat k)" for k
    using dec_nat_digits [of k] by (auto simp: list_all_iff isdigit_def byte_def)
  then show "CHR '':'' \<notin> set (dec n)" "dec n \<noteq> []" by (simp_all add: dec_def)
qed

text \<open>
  The session key: what \<^verbatim>\<open>create_key\<close> hands out at one time
  \<^verbatim>\<open>check_key\<close> accepts at any other, because the stamp it holds is not compared with
  the clock: a key never expires. As hypotheses, \<^verbatim>\<open>crypt\<close> takes its own result as
  the salt that gave it, and its results hold no colon.
\<close>

theorem session_key_never_expires:
  assumes "\<forall>p s. crypt w p (crypt w p s) = crypt w p s" "\<forall>p s. CHR '':'' \<notin> set (crypt w p s)"
    and "crypt v = crypt w"
  shows "check_key login (create_key login w) v = Some True"
  using assms check_key_eq [OF _ dec_no_colon, of _ login "time_now w" v]
  by (simp add: create_key_def)

text \<open>A stand-in for \<^verbatim>\<open>crypt\<close> that uses no salt.\<close>

definition toy_crypt :: "cstring \<Rightarrow> cstring \<Rightarrow> cstring" where
  "toy_crypt p s = ''$'' @ List.filter (\<lambda>c. c \<noteq> CHR '':'') p"

theorem session_key_never_expires_witness:
  "check_key ''root'' (create_key ''root'' (empty_cgi\<lparr>crypt := toy_crypt, time_now := 5\<rparr>))
     (empty_cgi\<lparr>crypt := toy_crypt, time_now := 999999999\<rparr>) = Some True"
  by (intro session_key_never_expires) (simp_all add: toy_crypt_def)

text \<open>
  C38. The key is no secret: for any login name and any stamp, the crypt result of the two and
  the constant of the source, under any salt, is a key that lets a request without a password
  in. The root password plays no part.
\<close>

theorem forged_key_logs_in:
  assumes "crypt w (l @ t @ ''SECRET'') (crypt w (l @ t @ ''SECRET'') salt) = crypt w (l @ t @ ''SECRET'') salt"
    "CHR '':'' \<notin> set (crypt w (l @ t @ ''SECRET'') salt)" "CHR '':'' \<notin> set t" "t \<noteq> []" "l \<noteq> []"
    "getval ''x_login'' w = Some l" "getval3 ''x_passwd'' w = []"
    "getval ''x_key'' w = Some (crypt w (l @ t @ ''SECRET'') salt @ '':'' @ t)"
  shows "credentials w \<and> (\<exists>v. check_login w = Some (OK_LOGIN, v))"
proof
  have p: "nonempty (getval ''x_passwd'' w) = None"
    using assms(7) by (cases "getval ''x_passwd'' w") (simp_all add: nonempty_def getval3_def)
  have k: "check_key l (crypt w (l @ t @ ''SECRET'') salt @ '':'' @ t) u = Some True" if "crypt u = crypt w" for u
    using check_key_eq [OF assms(2-4), of l u] assms(1) that by simp
  show "credentials w"
    using assms(5,6,8) p k [of w] by (simp add: credentials_def nonempty_def)
  show "\<exists>v. check_login w = Some (OK_LOGIN, v)"
    using assms(5,6,8) p k by (simp add: check_login_def Let_def nonempty_def)
qed

definition forged :: cgi where
  "forged = fold (\<lambda>(k, v). putval k v 1)
     [(''x_login'', ''root''), (''x_key'', toy_crypt (''root'' @ ''0'' @ ''SECRET'') ''s'' @ '':'' @ ''0'')]
     (empty_cgi\<lparr>crypt := toy_crypt, root_passwd := None\<rparr>)"

theorem forged_key_logs_in_witness:
  "root_passwd forged = None \<and> credentials forged"
proof -
  have g: "getval ''x_login'' forged = Some ''root''" "getval3 ''x_passwd'' forged = []"
    "getval ''x_key'' forged = Some (toy_crypt (''root'' @ ''0'' @ ''SECRET'') ''s'' @ '':'' @ ''0'')"
    by (simp_all add: forged_def getval_putval_other getval3_def)
      (simp_all add: getval_def getval2_def getvalp_def putval_def putval_withdesc_def env_find_put empty_cgi_def Let_def)
  have c: "crypt forged = toy_crypt" "root_passwd forged = None"
    by (simp_all add: forged_def putval_def putval_withdesc_def)
  show ?thesis
    using forged_key_logs_in [of forged "''root''" "''0''" "''s''", unfolded c] g c(2) by (simp add: toy_crypt_def)
qed

subsection \<open>The form\<close>

definition field_ok :: "cstring \<times> cstring \<Rightarrow> bool" where
  "field_ok f \<longleftrightarrow> list_all (\<lambda>c. c \<noteq> CHR ''='' \<and> c \<noteq> CHR ''&'') (fst f) \<and> is_cstr (snd f)"

text \<open>What a browser sends for a list of fields.\<close>

fun form_text :: "(cstring \<times> cstring) list \<Rightarrow> cstring" where
  "form_text [] = []"
| "form_text [(k, v)] = k @ ''='' @ urlencode v"
| "form_text ((k, v) # f # fs) = k @ ''='' @ urlencode v @ ''&'' @ form_text (f # fs)"

lemma urlencode_no_amp: "list_all (\<lambda>c. c \<noteq> CHR ''&'') (urlencode v)"
proof -
  have "c \<noteq> CHR ''&''" if "c \<in> set (urlencode_char x)" for c x
  proof -
    have "\<not> isalnum CHR ''&''" by (simp add: ctype_defs byte_def)
    moreover
    have "hex_char d \<noteq> CHR ''&''" if "d < 16" for d
      using hex_val_hex_char [OF that] by (auto simp: hex_val_def isdigit_def byte_def)
    from this [of "byte x div 16"] this [of "byte x mod 16"]
    have "hex_char (byte x div 16) \<noteq> CHR ''&''" "hex_char (byte x mod 16) \<noteq> CHR ''&''"
      using byte_less [of x] by (simp_all add: less_mult_imp_div_less)
    ultimately show ?thesis using that by (auto simp: urlencode_char_def split: if_split_asm)
  qed
  then show ?thesis by (auto simp: urlencode_def list_all_iff)
qed

lemma split_amp_plain: "list_all (\<lambda>c. c \<noteq> CHR ''&'') s \<Longrightarrow> split_amp s = [s]"
  by (induction s) auto

lemma split_amp_app: "list_all (\<lambda>c. c \<noteq> CHR ''&'') s \<Longrightarrow> split_amp (s @ CHR ''&'' # r) = s # split_amp r"
  by (induction s) auto

lemma split_amp_form:
  assumes "list_all field_ok fs" "fs \<noteq> []"
  shows "split_amp (form_text fs) = map (\<lambda>(k, v). k @ ''='' @ urlencode v) fs"
  using assms
proof (induction fs rule: form_text.induct)
  case (2 k v)
  then have "list_all (\<lambda>c. c \<noteq> CHR ''&'') (k @ ''='' @ urlencode v)"
    using urlencode_no_amp by (auto simp: field_ok_def list_all_iff)
  then show ?case by (simp add: split_amp_plain)
next
  case (3 k v f fs)
  then have "list_all (\<lambda>c. c \<noteq> CHR ''&'') (k @ ''='' @ urlencode v)"
    using urlencode_no_amp by (auto simp: field_ok_def list_all_iff)
  then show ?case using 3 split_amp_app [of "k @ ''='' @ urlencode v"] by simp
qed simp

lemma arg_step_field:
  assumes "field_ok (k, v)"
  shows "arg_step l (k @ ''='' @ urlencode v) (u, w) = Some (v, put_arg k v w)"
proof -
  have k: "list_all (\<lambda>c. c \<noteq> CHR ''='') k" and v: "is_cstr v" using assms by (auto simp: field_ok_def list_all_iff)
  have t: "takeWhile (\<lambda>c. c \<noteq> CHR ''='') (k @ ''='' @ urlencode v) = k"
    "dropWhile (\<lambda>c. c \<noteq> CHR ''='') (k @ ''='' @ urlencode v) = CHR ''='' # urlencode v"
    using k by simp_all
  show ?thesis
    unfolding arg_step_def t using v by (simp add: ring_htdecode_def htdecode_urlencode_eq)
qed

fun_cases arg_loop_ConsE: "arg_loop (seg # segs) s = Some r"

lemma arg_loop_fields:
  "list_all field_ok fs \<Longrightarrow>
   \<exists>u'. arg_loop (map (\<lambda>(k, v). k @ ''='' @ urlencode v) fs) (u, w) = Some (u', fold (\<lambda>(k, v). put_arg k v) fs w)"
proof (induction fs arbitrary: u w)
  case (Cons f fs)
  then obtain k v where f: "f = (k, v)" "field_ok (k, v)" by (cases f) simp
  then show ?case using Cons arg_step_field [OF f(2)] by simp
qed simp

text \<open>
  C6. A request carries a form: the encoded fields, names without equals signs and
  ampersands, are decoded to the same fields and put into the table in their order, whatever
  bytes but NUL their values hold.
\<close>

theorem form_roundtrip:
  assumes "list_all field_ok fs" "fs \<noteq> []"
  shows "get_args (form_text fs) w = Some (fold (\<lambda>(k, v). put_arg k v) fs w)"
proof -
  have "form_text fs \<noteq> []" using assms(2) by (cases fs rule: form_text.cases) auto
  then show ?thesis
    using split_amp_form [OF assms] arg_loop_fields [OF assms(1), of "[]" w] by (auto simp: get_args_def)
qed

theorem form_roundtrip_witness:
  "get_args ''i_a=b%26c&typ=fw'' empty_cgi = Some (put_arg ''typ'' ''fw'' (put_arg ''i_a'' ''b&c'' empty_cgi))"
proof -
  have "form_text [(''i_a'', ''b&c''), (''typ'', ''fw'')] = ''i_a=b%26c&typ=fw''" by code_simp
  then show ?thesis using form_roundtrip [of "[(''i_a'', ''b&c''), (''typ'', ''fw'')]" empty_cgi]
    by (simp add: field_ok_def)
qed

text \<open>
  A field without an equals sign is not empty: it takes the decoded value of the field
  before it, decoded once more. Whenever that decoding goes beyond the end of the value, the
  request has no defined result.
\<close>

theorem valueless_field_inherits:
  assumes "field_ok (k, v)" "list_all (\<lambda>c. c \<noteq> CHR ''='' \<and> c \<noteq> CHR ''&'') k2" "k2 \<noteq> []"
  shows "get_args (k @ ''='' @ urlencode v @ ''&'' @ k2) w =
     map_option (\<lambda>v2. put_arg k2 v2 (put_arg k v w)) (ring_htdecode v)"
proof -
  have s: "list_all (\<lambda>c. c \<noteq> CHR ''&'') (k @ ''='' @ urlencode v)" "list_all (\<lambda>c. c \<noteq> CHR ''&'') k2"
    "list_all (\<lambda>c. c \<noteq> CHR ''='') k2"
    using assms urlencode_no_amp by (auto simp: field_ok_def list_all_iff)
  have sp: "split_amp (k @ ''='' @ urlencode v @ ''&'' @ k2) = [k @ ''='' @ urlencode v, k2]"
    using split_amp_app [OF s(1), of k2] split_amp_plain [OF s(2)] by simp
  have t: "takeWhile (\<lambda>c. c \<noteq> CHR ''='') k2 = k2" "dropWhile (\<lambda>c. c \<noteq> CHR ''='') k2 = []"
    using s(3) by simp_all
  have st: "arg_step True k2 (v, u) = map_option (\<lambda>v2. (v2, put_arg k2 v2 u)) (ring_htdecode v)" for u
    unfolding arg_step_def t using assms(3) by (cases "ring_htdecode v") simp_all
  show ?thesis
    unfolding get_args_def sp
    by (simp add: arg_step_field [OF assms(1), simplified] st) (cases "ring_htdecode v"; simp)
qed

theorem valueless_field_inherits_witness:
  "get_args ''i_a=%2541&i_b'' empty_cgi = Some (put_arg ''i_b'' ''A'' (put_arg ''i_a'' ''%41'' empty_cgi))"
proof -
  have "urlencode ''%41'' = ''%2541''" "ring_htdecode ''%41'' = Some ''A''" by code_simp+
  then show ?thesis using valueless_field_inherits [of "''i_a''" "''%41''" "''i_b''" empty_cgi]
    by (simp add: field_ok_def)
qed

text \<open>
  Arguments that end in an ampersand have no defined result: the empty last argument is
  looked at behind the end of the buffer.
\<close>

lemma arg_loop_last_empty: "arg_loop (segs @ [[]]) s = None"
proof (induction segs arbitrary: s)
  case Nil
  then show ?case by (cases s) (simp add: arg_step_def bind_eq_None_conv)
next
  case (Cons seg segs)
  then show ?case by (auto simp: bind_eq_None_conv)
qed

lemma split_amp_last: "\<exists>seg segs. split_amp (t @ ''&'') = seg # segs @ [[]]"
  by (induction t) (auto split: list.split)

theorem trailing_ampersand_faults: "get_args (t @ ''&'') w = None"
  proof -
  obtain seg segs where "split_amp (t @ ''&'') = (seg # segs) @ [[]]" using split_amp_last [of t] by auto
  then show ?thesis unfolding get_args_def using arg_loop_last_empty [of "seg # segs"] by simp
qed

end
