(* ===== verification/Session.thy ===== *)
theory Session
  imports Request
begin

unbundle bit_operations_syntax

text \<open>
  What \<^verbatim>\<open>setup.cgi\<close> does over a request and over a session: which parts of the
  program leave the machine alone, that nothing happens without a login, what the decoded
  request is, what the session key is worth, and how the configuration files move from one
  request to the next.
\<close>

subsection \<open>What leaves the machine alone\<close>

text \<open>
  The part of the state a request leaves behind when its page has been printed: the files,
  the commands run, the clock and the order to shut down; with what commands do, which no
  request changes.
\<close>

definition effects :: "cgi \<Rightarrow> ((cstring \<Rightarrow> cstring option) \<times> cstring list \<times>
    (cstring \<Rightarrow> (cstring \<Rightarrow> cstring option) \<Rightarrow> cstring \<Rightarrow> cstring option)) \<times> tm_t option \<times> cstring" where
  "effects w = (outside w, clock_set w, shutdown_arg w)"

lemmas effects_unfold = effects_def outside_def

definition quiet :: "cgi \<Rightarrow> (cgi + cgi) option \<Rightarrow> bool" where
  "quiet w r \<longleftrightarrow> (\<forall>v. r = Some (Inl v) \<or> r = Some (Inr v) \<longrightarrow> effects v = effects w)"

lemma effects_putval [simp]: "effects (putval k v sw w) = effects w" "effects (putval_withdesc k v d sw w) = effects w"
  by (simp_all add: effects_unfold putval_def putval_withdesc_def)

lemma effects_upd [simp]:
  "effects (w\<lparr>envtop := es\<rparr>) = effects w" "effects (w\<lparr>html_out := t\<rparr>) = effects w"
  "effects (w\<lparr>d_flg := b\<rparr>) = effects w" "effects (w\<lparr>HTML_script := t\<rparr>) = effects w"
  "effects (w\<lparr>HTML_script_name := n\<rparr>) = effects w"
  "effects (w\<lparr>HTML_script_op := a1, HTML_script_subop := a2, HTML_script_arg1 := a3, HTML_script_arg2 := a4\<rparr>) = effects w"
  by (simp_all add: effects_unfold)

lemma effects_flag [simp]: "effects (snd (setvalflag k f w)) = effects w"
  by (simp add: setvalflag_def split: option.split)

lemma effects_die: "die msg w = Inl v \<Longrightarrow> effects v = effects w" "die msg w = Inr y \<Longrightarrow> P"
  by (auto simp: die_eq)

lemma effects_read_line: "read_conf_line sw c l w = Some v \<Longrightarrow> effects v = effects w"
  by (auto simp: read_conf_line_def bind_eq_Some_conv search_array_def Let_def
      split: if_splits option.splits prod.splits)

lemma effects_read_sub: "read_conf_sub t sw c w = Some v \<Longrightarrow> effects v = effects w"
  unfolding read_conf_sub_def
  by (rule foldM_preserves [where I = "\<lambda>v. effects v = effects w"]) (auto dest: effects_read_line)

lemma quiet_read_conf: "quiet w (read_conf w)"
  unfolding quiet_def read_conf_def Let_def
  by (auto simp: bind_eq_Some_conv die_eq split: option.splits dest!: effects_read_sub)

lemma effects_put_arg: "effects (put_arg key val w) = effects w"
  by (auto simp: put_arg_def split: list.split)

lemma effects_arg_loop: "arg_loop segs (val, w) = Some (val', w') \<Longrightarrow> effects w' = effects w"
proof (induction segs arbitrary: val w)
  case (Cons seg segs)
  then obtain s where s: "arg_step (segs = []) seg (val, w) = Some s" "arg_loop segs s = Some (val', w')"
    by (auto simp: bind_eq_Some_conv)
  then have "effects (snd s) = effects w"
    by (auto simp: arg_step_def Let_def bind_eq_Some_conv effects_put_arg split: if_splits)
  then show ?case using Cons.IH [of "fst s" "snd s"] s(2) by simp
qed simp

lemma effects_get_args: "get_args t w = Some v \<Longrightarrow> effects v = effects w"
  by (auto simp: get_args_def dest: effects_arg_loop split: if_splits)

lemma effects_get_envbuf: "get_envbuf w = Some (Inl v) \<Longrightarrow> effects v = effects w"
  by (auto simp: get_envbuf_def read_stdin_def Let_def die_eq split: option.splits if_splits)

lemma quiet_ht_getarg: "quiet w (ht_getarg w)"
  unfolding quiet_def ht_getarg_def
  by (auto simp: bind_eq_Some_conv dest: effects_get_envbuf effects_get_args split: sum.split_asm)

subsection \<open>Printing\<close>

lemma effects_put_out [simp]: "effects (put_out t w) = effects w"
  by (simp add: put_out_def)

lemma effects_frame [simp]:
  "effects (output_header opt j w) = effects w" "effects (output_footer w) = effects w"
  "effects (output_subtab m op s w) = effects w" "effects (output_tab m op' s w) = effects w"
  by (auto simp: output_header_def output_footer_def output_subtab_def output_tab_def Let_def split: option.split)

lemma effects_macro: "eval_macro z w = Some v \<Longrightarrow> effects v = effects w"
  by (auto simp: eval_macro_def bind_eq_Some_conv)

lemma effects_body_scan: "body_scan p f z w = Some (f', z', v) \<Longrightarrow> effects v = effects w"
  by (induction p f z w rule: body_scan.induct)
    (auto split: if_splits option.splits dest: effects_macro)

lemma effects_output_body: "output_body file w = Some v \<Longrightarrow> effects v = effects w"
proof -
  assume h: "output_body file w = Some v"
  have "effects u = effects s"
    if "foldM (\<lambda>l (f, z, w). body_scan (c_str l) f z w) ls (False, [], s) = Some (a, b, u)" for ls s a b u
  proof -
    have "case (a, b, u) of (_, _, u) \<Rightarrow> effects u = effects s"
      by (rule foldM_preserves [OF _ _ that]) (auto dest: effects_body_scan)
    then show ?thesis by simp
  qed
  then show ?thesis using h by (auto simp: output_body_def Let_def split: option.splits)
qed

lemma effects_set_colors [simp]: "effects (set_colors w) = effects w"
  by (simp add: set_colors_def)

lemma effects_pages:
  "effects (page_cannot_access op w) = effects w"
  "page_login op w = Some v \<Longrightarrow> effects v = effects w"
  "page_badpasswd op w = Some v \<Longrightarrow> effects v = effects w"
  by (auto simp: page_cannot_access_def page_login_def page_badpasswd_def dest: effects_output_body)

lemma effects_check_login: "check_login w = Some (s, v) \<Longrightarrow> effects v = effects w"
  by (auto simp: check_login_def Let_def bind_eq_Some_conv split: option.splits if_splits)

subsection \<open>The login gate\<close>

lemma getval_scripts [simp]:
  "getval k (w\<lparr>HTML_script_op := a1, HTML_script_subop := a2, HTML_script_arg1 := a3, HTML_script_arg2 := a4\<rparr>) = getval k w"
  "getval k (w\<lparr>HTML_script_name := n\<rparr>) = getval k w"
  by (simp_all add: getval_def getval2_def getvalp_def Let_def)

lemma getval_set_colors: "k \<notin> {''c0'', ''c1'', ''c2'', ''c3'', ''gray0''} \<Longrightarrow> getval k (set_colors w) = getval k w"
  by (simp add: set_colors_def getval_putval_other)

lemma set_colors_frame [simp]:
  "root_passwd (set_colors w) = root_passwd w" "crypt (set_colors w) = crypt w"
  by (simp_all add: set_colors_def putval_def putval_withdesc_def)

lemma check_key_cong: "crypt v = crypt w \<Longrightarrow> check_key l k v = check_key l k w"
  by (simp add: check_key_def)

lemma check_login_ok:
  "check_login w = Some (OK_LOGIN, v) \<Longrightarrow> credentials w"
  by (auto simp: check_login_def credentials_def Let_def bind_eq_Some_conv check_key_def
      split: option.splits if_splits)

lemma credentials_cong:
  assumes "getval ''x_login'' v = getval ''x_login'' w" "getval ''x_passwd'' v = getval ''x_passwd'' w"
    "getval ''x_key'' v = getval ''x_key'' w" "root_passwd v = root_passwd w" "crypt v = crypt w"
  shows "credentials v = credentials w"
  unfolding credentials_def assms check_key_cong [OF assms(5)] ..

text \<open>The state \<^verbatim>\<open>main\<close> takes to the login: the colours and the script's arguments are set.\<close>

definition prepared :: "cgi \<Rightarrow> cgi" where
  "prepared w =
     (let v = set_colors w in
      v\<lparr>HTML_script_op := (case nonempty (getval ''op'' v) of None \<Rightarrow> ''system'' | Some s \<Rightarrow> s),
        HTML_script_subop := append_opt [] (getval ''subop'' v),
        HTML_script_arg1 := append_opt [] (getval ''a'' v), HTML_script_arg2 := append_opt [] (getval ''a2'' v)\<rparr>)"

lemma prepared_frame [simp]: "effects (prepared w) = effects w" "credentials (prepared w) = credentials w"
proof -
  show "effects (prepared w) = effects w" by (simp add: prepared_def Let_def)
  show "credentials (prepared w) = credentials w"
    by (rule credentials_cong) (simp_all add: prepared_def Let_def getval_set_colors)
qed

lemma serve_quiet:
  assumes "\<not> credentials w"
  shows "quiet w (serve ipv6 w)"
proof -
  have c: "check_login (prepared w) = Some (s, v) \<Longrightarrow> s \<noteq> OK_LOGIN \<and> effects v = effects w" for s v
    using assms check_login_ok [of "prepared w" v] effects_check_login [of "prepared w" s v] by auto
  show ?thesis
    unfolding quiet_def serve_def Let_def prepared_def [unfolded Let_def, symmetric]
    by (auto simp: bind_eq_Some_conv effects_pages(1) dest!: c effects_pages(2,3) split: if_splits prod.splits)
qed

text \<open>
  C1. Nothing without a login: when the decoded request carries neither a root password nor a
  session key that checks, or cannot be decoded, no file is changed, no command run, the clock
  not set and no order to shut down left: the program only prints a page.
\<close>

theorem no_effect_without_login:
  assumes "main ipv6 w = Some w'" "\<forall>v. request w = Some v \<longrightarrow> \<not> credentials v"
  shows "files w' = files w \<and> sys_log w' = sys_log w \<and> clock_set w' = clock_set w \<and> shutdown_arg w' = shutdown_arg w"
proof -
  note no = assms(2)
  have "effects w' = effects w"
  proof -
    obtain r where r: "read_conf w = Some r" using assms(1) by (auto simp: main_def bind_eq_Some_conv)
    show ?thesis
    proof (cases r)
      case (Inl a)
      then show ?thesis using assms(1) r quiet_read_conf [of w] by (auto simp: main_def quiet_def)
    next
      case (Inr a)
      then have a: "effects a = effects w" using r quiet_read_conf [of w] by (auto simp: quiet_def)
      obtain q where q: "ht_getarg a = Some q" using assms(1) r Inr by (auto simp: main_def bind_eq_Some_conv)
      show ?thesis
      proof (cases q)
        case (Inl b)
        then show ?thesis using assms(1) r Inr q a quiet_ht_getarg [of a] by (auto simp: main_def quiet_def)
      next
        case b: (Inr b)
        then have e: "effects b = effects w" using q a quiet_ht_getarg [of a] by (auto simp: quiet_def)
        let ?b = "b\<lparr>HTML_script_name := penv b ''SCRIPT_NAME''\<rparr>"
        have "\<not> credentials b" using no r Inr q b by (simp add: request_def)
        then have "\<not> credentials ?b" by (subst credentials_cong [where w = b]) simp_all
        then have s: "quiet ?b (serve ipv6 ?b)" by (rule serve_quiet)
        obtain t where "serve ipv6 ?b = Some t" "w' = (case t of Inl w \<Rightarrow> w | Inr w \<Rightarrow> w)"
          using assms(1) r Inr q b by (auto simp: main_def bind_eq_Some_conv)
        then show ?thesis using s e by (cases t) (auto simp: quiet_def)
      qed
    qed
  qed
  then show ?thesis by (simp add: effects_unfold)
qed

text \<open>A visitor of a box in its factory state.\<close>

definition visitor :: "cstring \<Rightarrow> (cstring \<Rightarrow> cstring option) \<Rightarrow> cgi" where
  "visitor q f = empty_cgi\<lparr>files := f, penv :=
     [''QUERY_STRING'' \<mapsto> q, ''HTTP_HOST'' \<mapsto> ''192.168.253.254'', ''SERVER_PORT'' \<mapsto> ''880'']\<rparr>"

definition factory :: "cstring \<Rightarrow> cstring option" where
  "factory = [RC_CONF_DEFAULT \<mapsto> ''x_openblocks_access_limit=eth0'' @ [NL], RC_CONF \<mapsto> []]"

lemma login_page_shown:
  "map_option credentials (request (visitor ''op=save&s_ok=1&x_login=root'' factory)) = Some False"
  "map_option sys_log (main False (visitor ''op=save&s_ok=1&x_login=root'' factory)) = Some []"
  by code_simp+

theorem no_effect_without_login_witness:
  "\<exists>w'. main False (visitor ''op=save&s_ok=1&x_login=root'' factory) = Some w'
     \<and> files w' = factory \<and> sys_log w' = []"
proof -
  let ?w = "visitor ''op=save&s_ok=1&x_login=root'' factory"
  obtain w' where w': "main False ?w = Some w'" using login_page_shown(2) by auto
  have "\<forall>v. request ?w = Some v \<longrightarrow> \<not> credentials v" using login_page_shown(1) by auto
  from no_effect_without_login [OF w' this] show ?thesis
    using w' by (simp add: visitor_def empty_cgi_def)
qed

subsection \<open>The configuration files\<close>

text \<open>
  The generators write many files, but none of the three configuration files by its name. The
  name of a zone may lead to one of them; it then holds the database of that zone.
\<close>

definition conf_files :: "cstring set" where
  "conf_files = {RC_CONF, RC_CONF_DEFAULT, RC_CONF_TMP}"

definition zone_db :: "cstring \<Rightarrow> cstring \<Rightarrow> bool" where
  "zone_db p t \<longleftrightarrow> (\<exists>name mname rname serial recs. p = real_path (''/etc/namedb/db/'' @ name) \<and>
     t = named_zone_db_head name mname rname serial @ recs)"

definition same_conf :: "cgi \<Rightarrow> cgi \<Rightarrow> bool" where
  "same_conf w v \<longleftrightarrow> sys_effect v = sys_effect w \<and>
     (\<forall>p \<in> conf_files. files v p = files w p \<or> (\<exists>t. files v p = Some t \<and> zone_db p t))"

text \<open>What commands do that spare the three files.\<close>

definition tame :: "(cstring \<Rightarrow> (cstring \<Rightarrow> cstring option) \<Rightarrow> cstring \<Rightarrow> cstring option) \<Rightarrow> bool" where
  "tame e \<longleftrightarrow> (\<forall>c f p. (handler_cmd c \<or> c = [] \<or> c = save_cmd) \<longrightarrow> p \<in> conf_files \<longrightarrow> e c f p = f p)"

lemma same_conf_refl [simp]: "same_conf w w"
  by (simp add: same_conf_def)

lemma same_conf_trans: "same_conf u v \<Longrightarrow> same_conf v w \<Longrightarrow> same_conf u w"
  unfolding same_conf_def by metis

lemma same_conf_files: "files v = files w \<Longrightarrow> sys_effect v = sys_effect w \<Longrightarrow> same_conf w v"
  by (simp add: same_conf_def)

lemma same_conf_effects: "effects v = effects w \<Longrightarrow> same_conf w v"
  by (simp add: same_conf_def effects_unfold)

lemma same_conf_out: "file \<notin> conf_files \<Longrightarrow> same_conf w (out_file file t w)"
  by (auto simp: same_conf_def out_file_def)

lemma same_conf_db:
  "same_conf w (out_file (real_path (''/etc/namedb/db/'' @ nm)) (named_zone_db_head nm mn rn serial @ recs) w)"
  unfolding same_conf_def out_file_def zone_db_def by (simp del: append_Cons append_Nil) blast

lemma same_conf_zone:
  assumes "rc2named_zone no serial w = Some (r, conf, v)"
  shows "same_conf w v"
proof -
  obtain zone l where "fits 128 (''x_named_zone__'' @ no) = Some zone"
    "list_split NUL (Some (getval3 zone w)) = Some l"
    using assms unfolding rc2named_zone_def by (cases "fits 128 (''x_named_zone__'' @ no)") (auto simp: bind_eq_Some_conv)
  note h = assms [unfolded rc2named_zone_def this bind.bind_lunit Let_def]
  show ?thesis
    using h by (auto simp: bind_eq_Some_conv simp del: append_Cons append_Nil intro: same_conf_db
        split: list.split_asm if_split_asm)
qed

lemma same_conf_zones: "named_zones nos serial out w = Some (r, conf, v) \<Longrightarrow> same_conf w v"
proof (induction nos serial out w rule: named_zones.induct)
  case (2 no nos serial out w)
  obtain a c u where z: "rc2named_zone no serial w = Some (a, c, u)"
    using "2.prems" by (auto simp: bind_eq_Some_conv)
  have u: "same_conf w u" by (rule same_conf_zone [OF z])
  show ?case
  proof (cases "a = 1")
    case True
    then have "same_conf u v" using "2.IH" [OF z] "2.prems" z by (simp add: prod.split)
    then show ?thesis using u same_conf_trans by blast
  next
    case False
    then show ?thesis using "2.prems" z u by simp
  qed
qed simp

lemma same_conf_gens:
  "rc2dhcpd w = Some (r, v) \<Longrightarrow> same_conf w v" "rc2sendmail w = Some (r, v) \<Longrightarrow> same_conf w v"
  "rc2resolv w = Some (r, v) \<Longrightarrow> same_conf w v" "rc2httpd w = Some (r, v) \<Longrightarrow> same_conf w v"
  "rc2named_local w = Some (r, v) \<Longrightarrow> same_conf w v" "sysupdate w = Some v \<Longrightarrow> same_conf w v"
proof -
  show "rc2dhcpd w = Some (r, v) \<Longrightarrow> same_conf w v"
    by (auto simp: rc2dhcpd_def bind_eq_Some_conv same_conf_def conf_files_def out_file_def conf_paths RC_DHCPD_CF_def split: if_splits)
  show "rc2sendmail w = Some (r, v) \<Longrightarrow> same_conf w v"
    by (auto simp: rc2sendmail_def Let_def same_conf_def conf_files_def out_file_def conf_paths RC_LOCAL_HOST_NAMES_def RC_RELAY_DOMAINS_def
        split: if_splits)
  show "rc2resolv w = Some (r, v) \<Longrightarrow> same_conf w v"
    by (auto simp: rc2resolv_def Let_def same_conf_def conf_files_def out_file_def conf_paths RC_RESOLVE_CF_def split: if_splits)
  show "rc2httpd w = Some (r, v) \<Longrightarrow> same_conf w v"
    by (auto simp: rc2httpd_def bind_eq_Some_conv same_conf_def conf_files_def out_file_def conf_paths RC_HTTPD_CF_def
        split: if_splits option.splits)
  show "rc2named_local w = Some (r, v) \<Longrightarrow> same_conf w v"
    by (auto simp: rc2named_local_def same_conf_def conf_files_def out_file_def conf_paths split: if_splits)
  show "sysupdate w = Some v \<Longrightarrow> same_conf w v"
    by (auto simp: sysupdate_def bind_eq_Some_conv same_conf_def conf_files_def out_file_def conf_paths UPSETCONF_def RADVDCONF_def
        split: if_splits)
qed

lemma same_conf_named: "rc2named w = Some (r, v) \<Longrightarrow> same_conf w v"
proof -
  assume h: "rc2named w = Some (r, v)"
  have "same_conf u (out_file RC_NAMED_CF t u)" for t u
    by (simp add: same_conf_def conf_files_def out_file_def conf_paths RC_NAMED_CF_def)
  then show ?thesis
    using h by (auto simp: rc2named_def bind_eq_Some_conv split: option.splits if_splits
        dest!: same_conf_zones intro: same_conf_trans)
qed

lemma same_conf_yazaki: "yazaki_main w = Some r \<Longrightarrow> same_conf w (case r of Inl v \<Rightarrow> v | Inr v \<Rightarrow> v)"
proof -
  assume h: "yazaki_main w = Some r"
  obtain q where q: "read_conf w = Some q" using h by (auto simp: yazaki_main_def bind_eq_Some_conv)
  show ?thesis
  proof (cases q)
    case (Inl m)
    then show ?thesis using h q quiet_read_conf [of w] by (auto simp: yazaki_main_def quiet_def same_conf_effects)
  next
    case (Inr u)
    then have "same_conf w u" using q quiet_read_conf [of w] by (auto simp: quiet_def intro: same_conf_effects)
    moreover have "\<exists>v. r = Inr v \<and> same_conf u v"
      using h q Inr by (auto simp: yazaki_main_def bind_eq_Some_conv dest!: same_conf_gens same_conf_named
          elim!: same_conf_trans)
    ultimately show ?thesis using same_conf_trans by auto
  qed
qed

lemma same_conf_generate:
  assumes "tame (sys_effect w)"
  shows "generate fl w = Some (Inl v) \<Longrightarrow> same_conf w v" "generate fl w = Some (Inr v) \<Longrightarrow> same_conf w v"
proof -
  have c: "same_conf u (system_cmd (if f = [] then [] else save_cmd) u)" if "sys_effect u = sys_effect w" for f u
    using assms that by (simp add: system_cmd_def same_conf_def tame_def)
  have g: "same_conf w (case q of Inl v \<Rightarrow> v | Inr v \<Rightarrow> v)" if g: "generate fl w = Some q" for q
  proof -
    obtain r where r: "yazaki_main w = Some r" using g by (auto simp: generate_def bind_eq_Some_conv)
    note y = same_conf_yazaki [OF r]
    show ?thesis
    proof (cases r)
      case (Inl m)
      then show ?thesis using g r y by (auto simp: generate_def)
    next
      case (Inr u)
      then obtain t where t: "sysupdate u = Some t"
        "q = Inr (case fl of None \<Rightarrow> t | Some f \<Rightarrow> system_cmd (if f = [] then [] else save_cmd) t)"
        using g r by (auto simp: generate_def bind_eq_Some_conv)
      have st: "same_conf w t" using y Inr same_conf_gens(6) [OF t(1)] same_conf_trans by auto
      then have "sys_effect t = sys_effect w" by (simp add: same_conf_def)
      then have "same_conf w (system_cmd [] t)" "same_conf w (system_cmd save_cmd t)"
        using same_conf_trans [OF st] c [of t "[]"] c [of t "''s''"] by simp_all
      then show ?thesis using t(2) st by (auto split: option.split)
    qed
  qed
  from g show "generate fl w = Some (Inl v) \<Longrightarrow> same_conf w v" by force
  from g show "generate fl w = Some (Inr v) \<Longrightarrow> same_conf w v" by force
qed

lemma map_sum_eq:
  "map_sum id g z = Inl a \<longleftrightarrow> z = Inl a" "map_sum id g z = Inr b \<longleftrightarrow> (\<exists>x. z = Inr x \<and> b = g x)"
  by (cases z; auto)+

text \<open>
  What the saving page does to the saved configuration: it leaves it, or copies the defaults
  over it.
\<close>

lemma save_page_conf:
  assumes "save_page tm op subop w = Some r" "r = Inl v \<or> r = Inr v" "tame (sys_effect w)"
  shows "same_conf w v \<or>
     (files w RC_CONF_DEFAULT \<noteq> None \<and> files v RC_CONF = files w RC_CONF_DEFAULT
       \<and> files v RC_CONF_DEFAULT = files w RC_CONF_DEFAULT
       \<and> files v RC_CONF_TMP = files w RC_CONF_TMP)"
proof -
  let ?w1 = "put_out (''<h1>'' @ [CHR 0xB4, CHR 0xB0, CHR 0xCE, CHR 0xBB] @ ''</h1>'' @ [NL])
                (output_tab (Some tm) op subop (output_header '''' '''' w))"
  obtain u mode q where u: "output_body ''ok3.t'' ?w1 = Some u"
    and q: "(if deref mode = CHR ''2'' then map_option (map_sum id (\<lambda>w. w\<lparr>shutdown_arg := ''-r''\<rparr>)) (generate (files w ETC_FLASHCFG) u)
        else if deref mode = CHR ''3'' then map_option (map_sum id (\<lambda>w. w\<lparr>shutdown_arg := ''-h''\<rparr>)) (generate (files w ETC_FLASHCFG) u)
        else if deref mode = CHR ''4'' then Some (Inr (u\<lparr>shutdown_arg := ''-h''\<rparr>))
        else if deref mode = CHR ''5'' then map_option Inr (copy_defaults u)
        else generate (files w ETC_FLASHCFG) u) = Some q" and r: "r = map_sum id output_footer q"
    using assms(1) by (auto simp: save_page_def Let_def bind_eq_Some_conv)
  have e: "effects u = effects w" using effects_output_body [OF u] by simp
  have wu: "same_conf w u" "files u = files w"
    using same_conf_effects [OF e] e by (simp_all add: effects_unfold)
  have sh: "same_conf x (y\<lparr>shutdown_arg := t\<rparr>) = same_conf x y" "same_conf x (output_footer y) = same_conf x y" for x y t
    by (simp_all add: same_conf_def output_footer_def put_out_def)
  have gen: "generate f u = Some (Inl x) \<Longrightarrow> same_conf w x" "generate f u = Some (Inr x) \<Longrightarrow> same_conf w x" for f x
  proof -
    have "tame (sys_effect u)" using wu(1) assms(3) by (simp add: same_conf_def)
    from same_conf_generate [OF this] show "generate f u = Some (Inl x) \<Longrightarrow> same_conf w x"
      "generate f u = Some (Inr x) \<Longrightarrow> same_conf w x"
      using wu(1) same_conf_trans by blast+
  qed
  show ?thesis
  proof (cases "deref mode = CHR ''5''")
    case False
    have "same_conf w x" if "q = Inl x \<or> q = Inr x" for x
      using q that False wu(1) by (auto simp: sh map_sum_eq intro: gen(1) split: if_split_asm) (rule gen(2), assumption)+
    then have "same_conf w v" using r assms(2) by (cases q) (auto simp: sh)
    then show ?thesis ..
  next
    case True
    then obtain d where d: "files u RC_CONF_DEFAULT = Some d" "q = Inr (out_file RC_CONF d u)"
      using q by (auto simp: copy_defaults_def split: option.split_asm if_split_asm)
    have "v = output_footer (out_file RC_CONF d u)" using d(2) r assms(2) by auto
    moreover have "files (output_footer x) = files x" for x by (simp add: output_footer_def)
    ultimately show ?thesis
      using wu(2) d(1) by (simp add: out_file_def conf_paths)
  qed
qed

text \<open>What the menus hand out: every handler but that of the saving page is \<open>tmp_only\<close>.\<close>

definition menu_fits :: "menu \<Rightarrow> bool" where
  "menu_fits m \<longleftrightarrow> (menu_del m = None \<or> menu_del m = Some del) \<and>
     (if menu_tmpl m = ''save'' then menu_ok m = Some ok_save
      else \<forall>h arg w. menu_ok m = Some h \<longrightarrow> tmp_only w (h arg w))"

text \<open>The menu entries in the order of the search, a submenu behind its entry.\<close>

fun flat :: "menu list \<Rightarrow> menu list" where
  "flat [] = []"
| "flat (Menu a child i tmpl str ok dl # ms) =
     Menu a child i tmpl str ok dl # (case child of None \<Rightarrow> [] | Some c \<Rightarrow> flat c) @ flat ms"

lemma op2menu_op_find: "op2menu_op ms s = List.find (\<lambda>m. menu_tmpl m = s) (flat ms)"
proof (induction ms rule: flat.induct)
  case (2 a child i tmpl str ok dl ms)
  have app: "List.find P (xs @ ys) = (case List.find P xs of Some r \<Rightarrow> Some r | None \<Rightarrow> List.find P ys)"
    for P :: "menu \<Rightarrow> bool" and xs ys by (induction xs) auto
  show ?case using 2 by (auto simp: app split: option.split)
qed simp

lemma top_menu_fits: "list_all (\<lambda>m. menu_fits m \<and> vc_num (menu_idx m) > 0) (flat (top_menu ipv6 a))"
proof -
  have s: "list_all (\<lambda>m. menu_fits m \<and> vc_num (menu_idx m) > 0) (flat sub_menu)"
    unfolding sub_menu_def by (simp add: menu_fits_def tmp_only_handlers vc_num_def)
  have app: "flat (xs @ ys) = flat xs @ flat ys" for xs ys by (induction xs rule: flat.induct) simp_all
  have i: "list_all (\<lambda>m. menu_fits m \<and> vc_num (menu_idx m) > 0)
      (flat (if ipv6 then [Menu 1 None VC_IPV6 ''ipv6'' ''IPv6'' (Some ok_ipv6) None] else []))"
    by (simp add: menu_fits_def tmp_only_handlers vc_num_def)
  show ?thesis
    unfolding top_menu_def app list_all_append using s i
    by (simp add: menu_fits_def tmp_only_handlers vc_num_def)
qed

lemma top_menu_entry:
  assumes "op2menu (Some (top_menu ipv6 a)) s = Some m"
  shows "s = Some (menu_tmpl m)" "menu_fits m" "vc_num (menu_idx m) > 0"
proof -
  obtain t where t: "s = Some t" "List.find (\<lambda>m. menu_tmpl m = t) (flat (top_menu ipv6 a)) = Some m"
    using assms by (cases s) (auto simp: op2menu_def op2menu_op_find)
  then show "s = Some (menu_tmpl m)" "menu_fits m" "vc_num (menu_idx m) > 0"
    using top_menu_fits [of ipv6 a] by (auto simp: find_Some_iff list_all_length)
qed

definition chosen :: "menu list \<Rightarrow> cstring \<Rightarrow> cstring option \<Rightarrow> menu option" where
  "chosen tm op subop = (case op2menu (Some tm) subop of Some m \<Rightarrow> Some m | None \<Rightarrow> op2menu (Some tm) (Some op))"

lemma err_chk_outside: "err_chk w = Some (flg, u) \<Longrightarrow> outside u = outside w"
  by (auto simp: outside_def dest: err_chk_result)

lemma tmp_step_hook:
  assumes "run_hook m w = Some r" "menu_fits m" "menu_tmpl m = ''save'' \<Longrightarrow> find_okarg w = None"
    and "r = Inl v \<and> st = CONT \<or> r = Inr (st, v)"
  shows "st \<noteq> OK_SAVE \<and> tmp_step w v"
proof (cases "find_okarg w")
  case None
  show ?thesis
  proof (cases "menu_del m = None \<or> \<not> d_flg w")
    case True
    then show ?thesis using assms None by (auto simp: run_hook_def stay_def split: if_split_asm option.split_asm)
  next
    case False
    then have "menu_del m = Some del" "d_flg w" using assms(2) by (auto simp: menu_fits_def)
    then have d: "map_option (map_sum id (\<lambda>(_, w). (CONT, w))) (del '''' w) = Some r"
      using assms(1) None by (simp add: run_hook_def)
    then obtain q where q: "del '''' w = Some q" "r = map_sum id (\<lambda>(_, w). (CONT, w)) q" by auto
    then show ?thesis
      using tmp_only_del [of w "''''"] assms(4) by (cases q) (auto simp: tmp_only_def)
  qed
next
  case (Some okarg)
  then obtain flg u where u: "err_chk w = Some (flg, u)"
    using assms(1) by (auto simp: run_hook_def split: option.split_asm)
  then have f: "outside u = outside w" by (rule err_chk_outside)
  show ?thesis
  proof (cases "flg \<or> menu_ok m = None")
    case True
    then have "st \<noteq> OK_SAVE" "v = u" using assms(1,4) Some u
      by (auto simp: run_hook_def stay_def split: if_split_asm option.split_asm)
    then show ?thesis using f by (simp add: tmp_step_run run_step_outside)
  next
    case False
    then obtain h where h: "menu_ok m = Some h" by auto
    have "menu_tmpl m \<noteq> ''save''" using assms(3) Some by auto
    then have "tmp_only u (h okarg u)" using assms(2) h by (simp add: menu_fits_def)
    moreover have "h okarg u = Some r" using assms(1) Some u False h by (simp add: run_hook_def)
    ultimately have "st \<noteq> OK_SAVE \<and> tmp_step u v" using assms(4) by (auto simp: tmp_only_def)
    then show ?thesis using tmp_step_cong [OF refl f, of v] by simp
  qed
qed

lemma effects_output_change: "output_change w = Some v \<Longrightarrow> effects v = effects w"
proof -
  assume h: "output_change w = Some v"
  show ?thesis
    using h unfolding output_change_def
    by (auto elim!: foldM_preserves [where I = "\<lambda>v. effects v = effects w", rotated 2]
        simp: bind_eq_Some_conv split: if_split_asm option.split_asm)
qed

lemma page_setup_tmp:
  assumes "page_setup tm op subop w = Some r" "chosen tm op subop = Some m" "menu_fits m"
    "menu_tmpl m = ''save'' \<Longrightarrow> find_okarg w = None" "r = Inl v \<or> r = Inr v"
  shows "tmp_step w v"
proof (cases "vc_num (menu_idx m) \<ge> 0")
  case False
  then show ?thesis using assms by (auto simp: page_setup_def chosen_def)
next
  case True
  then obtain q where q: "run_hook m w = Some q"
    "(case q of Inl w \<Rightarrow> Some (Inl w)
      | Inr (st, w) \<Rightarrow>
                if st = OK_SAVE then save_page tm (Some op) subop w
                else if st = OK \<or> st = OK_NOSAVE then map_option Inr (change_page tm (Some op) subop w)
                else if st = NG then Some (Inr (error_page tm (Some op) subop w))
                else map_option Inr (menu_page tm m op subop w)) = Some r"
    using assms(1,2) by (auto simp: page_setup_def chosen_def bind_eq_Some_conv)
  show ?thesis
  proof (cases q)
    case (Inl u)
    then show ?thesis using tmp_step_hook [OF q(1) assms(3,4), of u CONT] q(2) assms(5) by auto
  next
    case (Inr su)
    obtain st u where su: "su = (st, u)" by (cases su)
    then have t: "st \<noteq> OK_SAVE" "tmp_step w u"
      using tmp_step_hook [OF q(1) assms(3,4), of u st] Inr by auto
    have "effects v = effects u"
    proof -
      have "change_page tm (Some op) subop u = Some y \<Longrightarrow> effects y = effects u" for y
        by (auto simp: change_page_def Let_def dest!: effects_output_change split: if_split_asm)
      moreover have "menu_page tm m op subop u = Some y \<Longrightarrow> effects y = effects u" for y
        by (auto simp: menu_page_def Let_def bind_eq_Some_conv dest!: effects_output_body split: if_split_asm)
      moreover have "effects (error_page tm (Some op) subop u) = effects u" by (simp add: error_page_def)
      ultimately show ?thesis
        using q(2) Inr su t(1) assms(5) by (auto split: if_split_asm)
    qed
    then have "outside v = outside u" by (simp add: effects_def)
    then show ?thesis using t(2) tmp_step_cong [of v u w w] by simp
  qed
qed

text \<open>
  C3. Only the saving page touches more than the temporary configuration: when the menu entry
  that the two page arguments choose is not that of the saving page, or no button that sends a
  form was pressed, a request runs no commands but \<^verbatim>\<open>useradd\<close>, \<^verbatim>\<open>userdel\<close>,
  \<^verbatim>\<open>groupdel\<close> and \<^verbatim>\<open>ntpdate\<close> (behind whose names may stand what was sent), and
  every file is as these commands leave it, except that the temporary configuration may
  then be replaced by a text that \<^verbatim>\<open>write_conf\<close> prints.
\<close>

theorem only_save_page_saves:
  assumes "page_setup (top_menu ipv6 a) op subop w = Some r" "r = Inl v \<or> r = Inr v"
    and "chosen (top_menu ipv6 a) op subop = Some m" "menu_tmpl m \<noteq> ''save'' \<or> find_okarg w = None"
  shows "\<exists>cs. sys_log v = sys_log w @ cs \<and> list_all handler_cmd cs \<and>
     (files v = fold (sys_effect w) cs (files w) \<or>
      (\<exists>t. printed t \<and> files v = (fold (sys_effect w) cs (files w))(RC_CONF_TMP \<mapsto> t)))"
proof -
  have "menu_fits m" using assms(3) top_menu_entry by (fastforce simp: chosen_def split: option.split_asm)
  then have "tmp_step w v"
    using assms(4) by (intro page_setup_tmp [OF assms(1,3) _ _ assms(2)]) auto
  then show ?thesis by (auto simp: tmp_step_def outside_def)
qed

text \<open>The delete button of the second rule of the firewall page.\<close>

definition del_button :: cgi where
  "del_button = fold (\<lambda>(k, v). putval k v 1) [(''x_fw__'', ''1 2''), (''typ'', ''fw''), (''d__2'', ''x'')]
     (empty_cgi\<lparr>d_flg := True\<rparr>)"

lemma del_button_page:
  "map_option (map_sum (\<lambda>_. ()) (\<lambda>w. files w RC_CONF_TMP)) (page_setup (top_menu False False) ''fw'' None del_button)
   = Some (Inr (Some (''# OpenBlockS Auto config'' @ [NL] @ ''x_fw__='' @ [DQ] @ ''1'' @ [DQ, NL] @ ''# Key number = 1 (3)'' @ [NL])))"
  by code_simp

theorem only_save_page_saves_witness:
  "\<exists>v. page_setup (top_menu False False) ''fw'' None del_button = Some (Inr v) \<and> files v RC_CONF = None
     \<and> files v RC_CONF_TMP = Some (''# OpenBlockS Auto config'' @ [NL] @ ''x_fw__='' @ [DQ] @ ''1'' @ [DQ, NL] @ ''# Key number = 1 (3)'' @ [NL])"
proof -
  obtain r where r: "page_setup (top_menu False False) ''fw'' None del_button = Some r"
    "map_sum (\<lambda>_. ()) (\<lambda>w. files w RC_CONF_TMP) r = Inr (Some (''# OpenBlockS Auto config'' @ [NL] @ ''x_fw__='' @ [DQ] @ ''1'' @ [DQ, NL] @ ''# Key number = 1 (3)'' @ [NL]))"
    using del_button_page by auto
  then obtain v where v: "r = Inr v" by (cases r) simp_all
  have b: "files del_button RC_CONF = None" "sys_effect del_button = (\<lambda>_ f. f)"
    by (simp_all add: del_button_def empty_cgi_def)
  then have e: "fold (sys_effect del_button) cs f = f" for cs f by (induction cs) simp_all
  obtain m where m: "chosen (top_menu False False) ''fw'' None = Some m" "menu_tmpl m = ''fw''"
    by (simp add: chosen_def op2menu_def top_menu_def)
  then show ?thesis
    using only_save_page_saves [OF r(1) _ m(1), of v] r v b(1) by (auto simp: map_sum_eq conf_paths e)
qed

text \<open>What one request may make of the three files.\<close>

definition zoned :: "(cstring \<Rightarrow> cstring option) \<Rightarrow> cstring \<Rightarrow> bool" where
  "zoned f p \<longleftrightarrow> (\<exists>t. f p = Some t \<and> zone_db p t)"

definition conf_next :: "(cstring \<Rightarrow> cstring option) \<Rightarrow> (cstring \<Rightarrow> cstring option) \<Rightarrow> bool" where
  "conf_next f g \<longleftrightarrow> (g RC_CONF_DEFAULT = f RC_CONF_DEFAULT \<or> zoned g RC_CONF_DEFAULT) \<and>
     (g RC_CONF_TMP = f RC_CONF_TMP \<or> g RC_CONF_TMP = None \<or> (\<exists>t. g RC_CONF_TMP = Some t \<and> printed t) \<or>
      zoned g RC_CONF_TMP) \<and>
     (g RC_CONF = f RC_CONF \<or> (f RC_CONF_TMP \<noteq> None \<and> g RC_CONF = f RC_CONF_TMP) \<or>
      (f RC_CONF_DEFAULT \<noteq> None \<and> g RC_CONF = f RC_CONF_DEFAULT) \<or> zoned g RC_CONF)"

lemma tame_fold:
  assumes "tame e" "list_all handler_cmd cs" "p \<in> conf_files"
  shows "fold e cs f p = f p"
  using assms(2) by (induction cs arbitrary: f) (use assms(1,3) in \<open>auto simp: tame_def\<close>)

lemma conf_next_tmp:
  assumes "tmp_step w v" "tame (sys_effect w)"
  shows "conf_next (files w) (files v)"
proof -
  obtain cs where cs: "list_all handler_cmd cs" "files v = fold (sys_effect w) cs (files w) \<or>
      (\<exists>t. printed t \<and> files v = (fold (sys_effect w) cs (files w))(RC_CONF_TMP \<mapsto> t))"
    using assms(1) by (auto simp: tmp_step_def outside_def)
  define f where "f = fold (sys_effect w) cs (files w)"
  have same: "f RC_CONF = files w RC_CONF" "f RC_CONF_DEFAULT = files w RC_CONF_DEFAULT" "f RC_CONF_TMP = files w RC_CONF_TMP"
    unfolding f_def by (rule tame_fold [OF assms(2) cs(1)], simp add: conf_files_def)+
  have ne: "RC_CONF \<noteq> RC_CONF_TMP" "RC_CONF_DEFAULT \<noteq> RC_CONF_TMP" by (simp_all add: conf_paths)
  from cs(2) [folded f_def] show ?thesis
  proof
    assume "files v = f"
    then show ?thesis by (simp add: conf_next_def same)
  next
    assume "\<exists>t. printed t \<and> files v = f(RC_CONF_TMP \<mapsto> t)"
    then obtain t where "printed t" "files v = f(RC_CONF_TMP \<mapsto> t)" by blast
    then show ?thesis by (simp add: conf_next_def same ne)
  qed
qed

lemma conf_next_refl [simp]: "conf_next f f"
  by (simp add: conf_next_def)

lemma ok_save_conf:
  "ok_save arg w = Some r \<Longrightarrow> \<exists>v. r = Inr (OK_SAVE, v) \<and> sys_effect v = sys_effect w \<and>
     files v RC_CONF_DEFAULT = files w RC_CONF_DEFAULT \<and>
     (files v RC_CONF_TMP = files w RC_CONF_TMP \<and> files v RC_CONF = files w RC_CONF \<or>
      files v RC_CONF_TMP = None \<and> files w RC_CONF_TMP \<noteq> None \<and> files v RC_CONF = files w RC_CONF_TMP)"
  by (auto simp: ok_save_def stay_def Let_def conf_paths split: option.split)

lemma page_setup_conf:
  assumes "page_setup (top_menu ipv6 a) op subop w = Some r" "r = Inl v \<or> r = Inr v" "tame (sys_effect w)"
  shows "conf_next (files w) (files v)"
proof -
  obtain m where m: "chosen (top_menu ipv6 a) op subop = Some m"
    using assms(1) by (auto simp: page_setup_def chosen_def bind_eq_Some_conv)
  then have f: "menu_fits m" "vc_num (menu_idx m) \<ge> 0"
    using top_menu_entry by (fastforce simp: chosen_def split: option.split_asm)+
  show ?thesis
  proof (cases "menu_tmpl m = ''save'' \<and> find_okarg w \<noteq> None")
    case False
    then show ?thesis using page_setup_tmp [OF assms(1) m f(1) _ assms(2)] conf_next_tmp [OF _ assms(3)] by auto
  next
    case True
    then obtain arg where arg: "find_okarg w = Some arg" by auto
    have ok: "menu_ok m = Some ok_save" using f(1) True by (simp add: menu_fits_def)
    obtain flg u where u: "err_chk w = Some (flg, u)"
      using assms(1) m f(2) arg by (cases "err_chk w") (auto simp: page_setup_def chosen_def run_hook_def)
    then have uf: "files u = files w" "sys_effect u = sys_effect w"
      using err_chk_outside [OF u] by (auto simp: outside_def)
    show ?thesis
    proof (cases flg)
      case True
      then have "r = Inr (error_page (top_menu ipv6 a) (Some op) subop u)"
        using assms(1) m f(2) arg u by (simp add: page_setup_def chosen_def run_hook_def stay_def)
      then have "effects v = effects u" using assms(2) by (auto simp: error_page_def)
      then show ?thesis using uf by (simp add: effects_unfold)
    next
      case False
      obtain q where q: "ok_save arg u = Some q" by (simp add: ok_save_def stay_def Let_def)
      then obtain x where x: "q = Inr (OK_SAVE, x)" "sys_effect x = sys_effect u"
        "files x RC_CONF_DEFAULT = files u RC_CONF_DEFAULT"
        "files x RC_CONF_TMP = files u RC_CONF_TMP \<and> files x RC_CONF = files u RC_CONF \<or>
         files x RC_CONF_TMP = None \<and> files u RC_CONF_TMP \<noteq> None \<and> files x RC_CONF = files u RC_CONF_TMP"
        using ok_save_conf by blast
      have s: "save_page (top_menu ipv6 a) (Some op) subop x = Some r"
        using assms(1) m f(2) arg u False ok q x(1) by (simp add: page_setup_def chosen_def run_hook_def)
      have "same_conf x v \<or> (files x RC_CONF_DEFAULT \<noteq> None \<and> files v RC_CONF = files x RC_CONF_DEFAULT
        \<and> files v RC_CONF_DEFAULT = files x RC_CONF_DEFAULT \<and> files v RC_CONF_TMP = files x RC_CONF_TMP)"
        using save_page_conf [OF s assms(2)] x(2) uf(2) assms(3) by auto
      then show ?thesis using x(3,4) uf(1)
        unfolding conf_next_def same_conf_def conf_files_def zoned_def [symmetric] by (elim disjE) auto
    qed
  qed
qed

lemma files_of_effects: "effects v = effects w \<Longrightarrow> files v = files w \<and> sys_effect v = sys_effect w"
  by (simp add: effects_unfold)

lemma serve_conf:
  assumes "serve ipv6 w = Some r" "r = Inl v \<or> r = Inr v" "tame (sys_effect w)"
  shows "conf_next (files w) (files v)"
proof -
  have p: "page_setup (top_menu ipv6 a) op subop u = Some t \<Longrightarrow> t = Inl x \<or> t = Inr x \<Longrightarrow>
      effects u = effects w \<Longrightarrow> conf_next (files w) (files x)"
    for a op subop u t x using page_setup_conf [of ipv6 a op subop u t x] files_of_effects [of u w] assms(3) by metis
  have e: "effects x = effects w \<Longrightarrow> conf_next (files w) (files x)" for x by (simp add: effects_unfold)
  show ?thesis
    using assms(1,2)
    unfolding serve_def Let_def prepared_def [unfolded Let_def, symmetric]
    by (auto simp: bind_eq_Some_conv effects_pages(1) split: if_split_asm prod.split_asm
        intro: e dest!: effects_check_login effects_pages(2,3) elim!: p)
qed

lemma main_conf:
  assumes "main ipv6 w = Some w'" "tame (sys_effect w)"
  shows "conf_next (files w) (files w')"
proof -
  obtain q where q: "read_conf w = Some q" using assms(1) by (auto simp: main_def bind_eq_Some_conv)
  then have fq: "effects (case q of Inl v \<Rightarrow> v | Inr v \<Rightarrow> v) = effects w"
    using quiet_read_conf [of w] by (auto simp: quiet_def split: sum.split)
  show ?thesis
  proof (cases q)
    case (Inl a)
    then show ?thesis using assms(1) q files_of_effects [OF fq] by (simp add: main_def)
  next
    case (Inr a)
    then obtain p where p: "ht_getarg a = Some p" using assms(1) q by (auto simp: main_def bind_eq_Some_conv)
    then have fp: "effects (case p of Inl v \<Rightarrow> v | Inr v \<Rightarrow> v) = effects w"
      using quiet_ht_getarg [of a] fq Inr by (auto simp: quiet_def split: sum.split)
    show ?thesis
    proof (cases p)
      case (Inl b)
      then show ?thesis using assms(1) q p Inr files_of_effects [OF fp] by (simp add: main_def)
    next
      case b: (Inr b)
      let ?b = "b\<lparr>HTML_script_name := penv b ''SCRIPT_NAME''\<rparr>"
      obtain t where t: "serve ipv6 ?b = Some t" "w' = (case t of Inl w \<Rightarrow> w | Inr w \<Rightarrow> w)"
        using assms(1) q p Inr b by (auto simp: main_def bind_eq_Some_conv)
      have "files ?b = files w" "tame (sys_effect ?b)"
        using files_of_effects [OF fp] b assms(2) by simp_all
      then show ?thesis using serve_conf [OF t(1), of w'] t(2) by (cases t) auto
    qed
  qed
qed

text \<open>
  A session: requests one after the other, each started on the files the one before left; the
  rest of the state, like the arguments and the clock, is any. The commands spare the three files.
\<close>

inductive session :: "bool \<Rightarrow> (cstring \<Rightarrow> cstring option) \<Rightarrow> (cstring \<Rightarrow> cstring option) \<Rightarrow> bool"
  for ipv6 and f0 where
  session_start: "session ipv6 f0 f0"
| session_request: "session ipv6 f0 (files w) \<Longrightarrow> tame (sys_effect w) \<Longrightarrow> main ipv6 w = Some w' \<Longrightarrow>
    session ipv6 f0 (files w')"

text \<open>The database of a zone whose name leads to one of the three files.\<close>

definition stray_zone :: "cstring option \<Rightarrow> bool" where
  "stray_zone x \<longleftrightarrow> (\<exists>p \<in> conf_files. \<exists>t. x = Some t \<and> zone_db p t)"

definition origin :: "(cstring \<Rightarrow> cstring option) \<Rightarrow> (cstring \<Rightarrow> cstring option) \<Rightarrow> bool" where
  "origin f0 f \<longleftrightarrow> (f RC_CONF_DEFAULT = f0 RC_CONF_DEFAULT \<or> stray_zone (f RC_CONF_DEFAULT)) \<and>
     (f RC_CONF_TMP = None \<or> f RC_CONF_TMP = f0 RC_CONF_TMP \<or> (\<exists>t. f RC_CONF_TMP = Some t \<and> printed t)
      \<or> stray_zone (f RC_CONF_TMP)) \<and>
     (f RC_CONF = f0 RC_CONF \<or> f RC_CONF = f0 RC_CONF_TMP \<or> f RC_CONF = f0 RC_CONF_DEFAULT \<or>
      (\<exists>t. f RC_CONF = Some t \<and> printed t) \<or> stray_zone (f RC_CONF))"

lemma zoned_stray: "zoned f p \<Longrightarrow> p \<in> conf_files \<Longrightarrow> stray_zone (f p)"
  by (auto simp: zoned_def stray_zone_def)

text \<open>
  C2. Over any sequence of requests, when the shell commands that are run leave the three
  configuration files alone, the saved configuration is never lost, and it and the temporary
  one only ever hold a text that was there at the start, the defaults, one that
  \<^verbatim>\<open>write_conf\<close> printed, or, when the name of a zone of the name server leads from the
  directory of the zones to one of the three files, the database of that zone; the defaults stay as they are but for such a zone.
\<close>

theorem session_keeps_config:
  assumes "session ipv6 f0 f"
  shows "origin f0 f \<and> (f0 RC_CONF \<noteq> None \<longrightarrow> f RC_CONF \<noteq> None)"
  using assms
proof (induction rule: session.induct)
  case session_start
  then show ?case by (simp add: origin_def)
next
  case (session_request w w')
  have n: "conf_next (files w) (files w')" using session_request.hyps(3,2) by (rule main_conf)
  have o: "origin f0 (files w)" using session_request.IH by simp
  have z: "zoned (files w') p \<Longrightarrow> p \<in> {RC_CONF, RC_CONF_DEFAULT, RC_CONF_TMP} \<Longrightarrow> stray_zone (files w' p)" for p
    using zoned_stray by (simp add: conf_files_def)
  note n1 = n [unfolded conf_next_def] note o1 = o [unfolded origin_def]
  have "origin f0 (files w')" unfolding origin_def
  proof (intro conjI)
    show "files w' RC_CONF_DEFAULT = f0 RC_CONF_DEFAULT \<or> stray_zone (files w' RC_CONF_DEFAULT)"
      using n1 [THEN conjunct1] o1 [THEN conjunct1] z [of RC_CONF_DEFAULT] by auto
    show "files w' RC_CONF_TMP = None \<or> files w' RC_CONF_TMP = f0 RC_CONF_TMP \<or>
        (\<exists>t. files w' RC_CONF_TMP = Some t \<and> printed t) \<or> stray_zone (files w' RC_CONF_TMP)"
      using n1 [THEN conjunct2, THEN conjunct1] o1 [THEN conjunct2, THEN conjunct1] z [of RC_CONF_TMP] by auto
    show "files w' RC_CONF = f0 RC_CONF \<or> files w' RC_CONF = f0 RC_CONF_TMP \<or>
        files w' RC_CONF = f0 RC_CONF_DEFAULT \<or> (\<exists>t. files w' RC_CONF = Some t \<and> printed t) \<or>
        stray_zone (files w' RC_CONF)"
      using n1 [THEN conjunct2, THEN conjunct2] o1 z [of RC_CONF] by (elim conjE disjE) auto
  qed
  moreover have "f0 RC_CONF \<noteq> None \<longrightarrow> files w' RC_CONF \<noteq> None"
    using n1 [THEN conjunct2, THEN conjunct2] session_request.IH by (auto simp: zoned_def)
  ultimately show ?case ..
qed

text \<open>A machine whose commands write the account database.\<close>

definition busy_effect :: "cstring \<Rightarrow> (cstring \<Rightarrow> cstring option) \<Rightarrow> cstring \<Rightarrow> cstring option" where
  "busy_effect c f = f(''/etc/passwd'' \<mapsto> c)"

lemma tame_busy: "tame busy_effect"
  by (simp add: tame_def busy_effect_def conf_files_def conf_paths)

definition new_user :: cgi where
  "new_user = (visitor ''op=save&s_ok=1&x_login=root'' factory)\<lparr>sys_effect := busy_effect\<rparr>"

lemma new_user_shown: "main False new_user \<noteq> None"
  by code_simp

theorem session_keeps_config_witness:
  "\<exists>w'. session False factory (files w') \<and> main False new_user = Some w' \<and> files w' RC_CONF \<noteq> None"
proof -
  obtain w' where w': "main False new_user = Some w'" using new_user_shown by auto
  have "session False factory (files new_user)" by (simp add: new_user_def visitor_def session_start)
  moreover have "tame (sys_effect new_user)" by (simp add: new_user_def tame_busy)
  ultimately have s: "session False factory (files w')" using w' by (rule session_request)
  have "factory RC_CONF \<noteq> None" by (simp add: factory_def conf_paths)
  then show ?thesis using session_keeps_config [OF s] s w' by auto
qed

subsection \<open>Pages\<close>


definition bad_form :: cgi where
  "bad_form = putval ''s_ok'' ''1'' 1 (send_uid empty_cgi)"

lemma bad_form_rejects:
  "find_okarg bad_form = Some []" "\<exists>v. err_chk bad_form = Some (True, v)"
proof -
  have e: "envtop bad_form = [\<lparr>env_key = ''i_user_id'', env_val = ''0'', env_flag = 3\<rparr>,
     \<lparr>env_key = ''x_user_id'', env_val = ''0'', env_flag = 3\<rparr>, \<lparr>env_key = ''s_ok'', env_val = ''1'', env_flag = 3\<rparr>]"
    unfolding bad_form_def putval_def putval_withdesc_def by (simp add: send_uid_envtop put_flag_def rc_flags)
  show "find_okarg bad_form = Some []" by (simp add: find_okarg_def e strncmp_eq_def)
  have "getval ''x_user_id'' bad_form = Some ''0''"
    by (simp add: getval_def getval2_def getvalp_def e Let_def)
  then have "\<exists>m. err_chk_sub ''x_user_id'' bad_form = Some (Some m)"
    using find_user_id by (auto simp: err_chk_sub_def getval3_def is_uid_def getval_int_def atoi_def scan_d_def isspace_def
        isdigit_def byte_def clamp32_def int_min_def int_max_def Let_def)
  then show "\<exists>v. err_chk bad_form = Some (True, v)"
    by (auto simp: err_chk_def e form_key_def x_key_def)
qed


definition pages :: "bool \<Rightarrow> cstring set" where
  "pages ipv6 = {''save'', ''system'', ''user'', ''network'', ''masq'', ''fw'', ''misc'', ''dhcpd'',
     ''sendmail'', ''named'', ''httpd''} \<union> (if ipv6 then {''ipv6''} else {})"

lemma top_menu_names: "menu_tmpl ` set (flat (top_menu ipv6 a)) = pages ipv6"
  by (cases ipv6) (auto simp: top_menu_def sub_menu_def pages_def)

text \<open>
  The pages are found by name: the search over the menus answers the first entry, with a
  submenu's entries behind its own, whose name is asked for. A request that names no page of
  the menus, in either argument, goes through a NULL pointer.
\<close>

theorem page_found_by_name:
  "(op2menu (Some (top_menu ipv6 a)) (Some s) = None \<longleftrightarrow> s \<notin> pages ipv6)
   \<and> (s \<notin> pages ipv6 \<and> subop \<notin> Some ` pages ipv6 \<longrightarrow> page_setup (top_menu ipv6 a) s subop w = None)"
proof -
  have n: "op2menu (Some (top_menu ipv6 a)) (Some t) = None \<longleftrightarrow> t \<notin> pages ipv6" for t
    unfolding top_menu_names [of ipv6 a, symmetric] by (auto simp: op2menu_def op2menu_op_find find_None_iff)
  moreover have "page_setup (top_menu ipv6 a) s subop w = None" if "s \<notin> pages ipv6" "subop \<notin> Some ` pages ipv6"
  proof -
    have "op2menu (Some (top_menu ipv6 a)) subop = None" using that n by (cases subop) (auto simp: op2menu_def)
    then show ?thesis using n [of s] that by (simp add: page_setup_def)
  qed
  ultimately show ?thesis by blast
qed

theorem page_found_by_name_witness: "page_setup (top_menu False True) ''setup'' None empty_cgi = None"
proof -
  have "''setup'' \<notin> pages False" by (simp add: pages_def)
  then show ?thesis using page_found_by_name [of False True "''setup''" None empty_cgi] by blast
qed

end
