(* ===== verification/Runled.thy ===== *)
theory Runled
  imports Libc
begin

text \<open>
  \<^verbatim>\<open>usr.sbin/runled\<close>: the daemons that play a pattern on the display of the boards.
  The programs for the boards obs50 and obs200 share the options, the pattern and the display
  loop and differ in \<^verbatim>\<open>main\<close>; the one for obs266 plays a fixed dance.

  The display loop never ends; \<open>led_run\<close> gives the values of its first rounds. The messages to
  the terminal and closing descriptors are not part of the model. A signed
  overflow wraps.
\<close>

subsection \<open>Numbers, patterns, options\<close>

fun str2num_loop :: "cstring \<Rightarrow> int \<Rightarrow> int" where
  "str2num_loop [] v = v"
| "str2num_loop (c # s) v =
     (if \<not> isdigit c then v
      else let n = wrap32 (v * 10 + int (byte c - 48)) in
           if n \<le> v then wrap32 4294967295 else str2num_loop s n)"

text \<open>The result is unsigned; its only caller stores it in an \<^verbatim>\<open>int\<close> again.\<close>

definition str2num :: "cstring \<Rightarrow> u32" where
  "str2num s = word_of_int (str2num_loop s 0)"

definition isxdigit :: "char \<Rightarrow> bool" where
  "isxdigit c = (isdigit c \<or> (65 \<le> byte c \<and> byte c \<le> 70) \<or> (97 \<le> byte c \<and> byte c \<le> 102))"

definition xdigit :: "char \<Rightarrow> u32" where
  "xdigit c =
     (if isdigit c then of_nat (byte c - 48)
      else if isxdigit c then of_nat (byte c - (if isupper c then 65 - 10 else 97 - 10))
      else 0)"

unbundle bit_operations_syntax

fun string2pattern :: "cstring \<Rightarrow> nat \<Rightarrow> u32 list option" where
  "string2pattern s 0 = Some []"
| "string2pattern s (Suc n) =
     do { s1 \<leftarrow> adv s; s2 \<leftarrow> adv s1; d \<leftarrow> string2pattern s2 n;
          Some ((push_bit 4 (xdigit (deref s)) OR xdigit (deref s1)) # d) }"

definition trans_word :: "u32 \<Rightarrow> u32" where
  "trans_word old =
     (if old AND 0x01 \<noteq> 0 then 0x00020000 else 0) OR
     (if old AND 0x02 \<noteq> 0 then 0x00010000 else 0) OR
     (if old AND 0x04 \<noteq> 0 then 0x00008000 else 0) OR
     (if old AND 0x08 \<noteq> 0 then 0x00004000 else 0) OR
     (if old AND 0x10 \<noteq> 0 then 0x00000001 else 0) OR
     (if old AND 0x20 \<noteq> 0 then 0x00000002 else 0) OR
     (if old AND 0x40 \<noteq> 0 then 0x00000004 else 0) OR
     (if old AND 0x80 \<noteq> 0 then 0x00000008 else 0)"

definition transpattern_obss2obs :: "u32 list \<Rightarrow> u32 list" where
  "transpattern_obss2obs = map trans_word"

record led_opts =
  led_pattern :: cstring
  led_interval :: int
  led_nofork :: bool
  led_obs :: bool

definition default_opts :: led_opts where
  "default_opts =
     \<lparr>led_pattern = ''0808889010109088'', led_interval = 150, led_nofork = False, led_obs = False\<rparr>"

text \<open>One option; \<open>None\<close> is the exit with status 1.\<close>

definition led_option :: "cstring \<Rightarrow> led_opts \<Rightarrow> led_opts option" where
  "led_option a opts =
     (let c = deref (drop 1 a) in
      if c = CHR ''f'' then Some (opts\<lparr>led_nofork := True\<rparr>)
      else if c = CHR ''i'' then
        (let tmp = sint (str2num (drop 2 a)) in
         Some (if tmp > 0 \<and> tmp < 3600000 then opts\<lparr>led_interval := tmp\<rparr> else opts))
      else if c = CHR ''o'' then Some (opts\<lparr>led_obs := True\<rparr>)
      else if c = CHR ''p'' then
        Some (if deref (drop 2 a) \<noteq> NUL then opts\<lparr>led_pattern := drop 2 a\<rparr> else opts)
      else None)"

text \<open>
  The loop over the arguments. One that does not begin with a minus sign is passed over with
  \<^verbatim>\<open>continue\<close>, which leaves out the step to the next argument.
\<close>

partial_function (option) led_args :: "cstring list \<Rightarrow> led_opts \<Rightarrow> (unit + led_opts) option" where
  "led_args argv opts =
     (case argv of
        [] \<Rightarrow> Some (Inr opts)
      | a # rest \<Rightarrow>
          if deref a \<noteq> CHR ''-'' then led_args argv opts
          else (case led_option a opts of
                  None \<Rightarrow> Some (Inl ())
                | Some opts \<Rightarrow> led_args rest opts))"

subsection \<open>The display loop\<close>

definition pause_us :: "int \<Rightarrow> int" where
  "pause_us interval = wrap32 (interval * 1000) mod 2 ^ 32"

fun led_run :: "u32 list \<Rightarrow> nat \<Rightarrow> int \<Rightarrow> u32 list option" where
  "led_run pattern 0 i = Some []"
| "led_run pattern (Suc n) i =
     do { v \<leftarrow> nth_opt pattern i;
          vs \<leftarrow> led_run pattern n (if i + 1 = int (length pattern) then 0 else i + 1);
          Some (v # vs) }"

subsection \<open>The programs\<close>

text \<open>What the system answers: whether the pattern buffer, the paths and the write of the
  process number succeed (when it fails nothing is written), and what \<^verbatim>\<open>fork\<close> returns to the parent.\<close>

record led_env =
  can_alloc :: bool
  can_open :: "cstring \<Rightarrow> bool"
  can_write_pid :: bool
  fork_result :: int

text \<open>What is left: the pattern and the pause of the process that plays, the text of the process
  number file, and the status of the process that was started, if it ends.\<close>

record led_end =
  plays :: "(u32 list \<times> int) option"
  pid_text :: "cstring option"
  status :: "int option"

definition PID_FILE :: cstring where
  "PID_FILE = ''/var/run/segled.pid''"

definition SEGLED :: cstring where
  "SEGLED = ''/dev/segled''"

definition led_exit :: "int \<Rightarrow> led_end" where
  "led_exit n = \<lparr>plays = None, pid_text = None, status = Some n\<rparr>"

definition led_setup :: "led_env \<Rightarrow> cstring list \<Rightarrow> (led_end + led_opts \<times> u32 list) option" where
  "led_setup e argv =
     do { r \<leftarrow> led_args argv default_opts;
          case r of
            Inl _ \<Rightarrow> Some (Inl (led_exit 1))
          | Inr opts \<Rightarrow>
              if \<not> can_alloc e then Some (Inl (led_exit 1))
              else do {
                let size = length (led_pattern opts) div 2;
                p \<leftarrow> string2pattern (led_pattern opts) size;
                let p = (if led_obs opts then transpattern_obss2obs p else p);
                Some (if \<not> can_open e SEGLED then Inl (led_exit 1) else Inr (opts, p)) } }"

definition led_main50 :: "led_env \<Rightarrow> cstring list \<Rightarrow> led_end option" where
  "led_main50 e argv =
     do { r \<leftarrow> led_setup e argv;
          Some (case r of
            Inl x \<Rightarrow> x
          | Inr (opts, p) \<Rightarrow>
              let play = Some (p, pause_us (led_interval opts)) in
              if led_nofork opts then \<lparr>plays = play, pid_text = None, status = None\<rparr>
              else if fork_result e > 0 then \<lparr>plays = play, pid_text = None, status = Some 0\<rparr>
              else led_exit 1) }"

text \<open>The process number is written after the fork; without a fork the number is an
  uninitialised variable.\<close>

definition led_main200 :: "led_env \<Rightarrow> cstring list \<Rightarrow> led_end option" where
  "led_main200 e argv =
     do { r \<leftarrow> led_setup e argv;
          case r of
            Inl x \<Rightarrow> Some x
          | Inr (opts, p) \<Rightarrow>
              let play = Some (p, pause_us (led_interval opts)) in
              if led_nofork opts then (if can_open e PID_FILE then None else Some (led_exit (- 1)))
              else if fork_result e > 0 then
                Some (if \<not> can_open e PID_FILE then \<lparr>plays = play, pid_text = None, status = Some (- 1)\<rparr>
                      else if \<not> can_write_pid e then \<lparr>plays = play, pid_text = Some [], status = Some (- 2)\<rparr>
                      else \<lparr>plays = play, pid_text = Some (dec (fork_result e) @ [NL]), status = Some 0\<rparr>)
              else Some (led_exit 1) }"

text \<open>
  The signals the playing process of obs200 and obs266 catches: a hangup is passed over, the
  others of the list end it with status 0, but for \<^verbatim>\<open>SIGSTOP\<close>, which no process can
  catch and which only stops it, and \<^verbatim>\<open>SIGKILL\<close>, which ends it anyway. (obs50 catches none.)
\<close>

definition led_die_on :: "cstring list" where
  "led_die_on =
     [''SIGINT'', ''SIGQUIT'', ''SIGILL'', ''SIGTRAP'', ''SIGABRT'', ''SIGIOT'', ''SIGBUS'', ''SIGFPE'', ''SIGKILL'',
      ''SIGUSR1'', ''SIGSEGV'', ''SIGUSR2'', ''SIGPIPE'', ''SIGALRM'', ''SIGTERM'', ''SIGSTKFLT'', ''SIGCHLD'',
      ''SIGCONT'', ''SIGSTOP'', ''SIGTSTP'', ''SIGTTIN'', ''SIGTTOU'', ''SIGURG'', ''SIGXCPU'', ''SIGXFSZ'',
      ''SIGVTALRM'', ''SIGPROF'', ''SIGWINCH'', ''SIGIO'', ''SIGPWR'', ''SIGSYS'']"

definition led_signal :: "cstring \<Rightarrow> led_end \<Rightarrow> led_end" where
  "led_signal sig r = (if sig \<in> set led_die_on \<and> sig \<noteq> ''SIGSTOP'' then r\<lparr>plays := None\<rparr> else r)"

text \<open>
  obs266: each write opens the device anew, and the dance ends when that fails. \<open>dancer n\<close>
  is what is written until the device was opened \<open>n\<close> times, \<open>opens k\<close> whether the
  \<open>k\<close>-th opening succeeds.
\<close>

definition dance :: "u32 list" where
  "dance = [1, 2, 4, 2]"

definition dance_step :: "nat \<Rightarrow> cstring" where
  "dance_step k = dec (uint (dance ! (k mod 4)))"

primrec dancer :: "(nat \<Rightarrow> bool) \<Rightarrow> nat \<Rightarrow> cstring list \<times> bool" where
  "dancer opens 0 = ([], True)"
| "dancer opens (Suc k) =
     (case dancer opens k of
        (out, False) \<Rightarrow> (out, False)
      | (out, True) \<Rightarrow> if opens k then (out @ [dance_step k], True) else (out, False))"

text \<open>The number \<^verbatim>\<open>fork\<close> returns is only tested for 0, so a fork that fails goes the way
  of the parent.\<close>

definition led_main266 :: "led_env \<Rightarrow> int \<Rightarrow> led_end" where
  "led_main266 e uid =
     (if uid \<noteq> 0 then led_exit 1
      else let play = (if fork_result e > 0 then Some (dance, 500 * 1000) else None) in
        if \<not> can_open e PID_FILE then \<lparr>plays = play, pid_text = None, status = Some (- 1)\<rparr>
        else if \<not> can_write_pid e then \<lparr>plays = play, pid_text = Some [], status = Some (- 2)\<rparr>
        else \<lparr>plays = play, pid_text = Some (dec (fork_result e) @ [NL]), status = Some 0\<rparr>)"

subsection \<open>Options: which command lines are read to the end\<close>

text \<open>An argument the loop gets past: an option it knows.\<close>

definition led_known :: "cstring \<Rightarrow> bool" where
  "led_known a = (deref a = CHR ''-'' \<and> deref (drop 1 a) \<in> {CHR ''f'', CHR ''i'', CHR ''o'', CHR ''p''})"

lemma led_option_known: "deref a = CHR ''-'' \<Longrightarrow> led_option a opts = None \<longleftrightarrow> \<not> led_known a"
  by (auto simp: led_option_def led_known_def Let_def)

lemma led_args_Nil [simp]: "led_args [] opts = Some (Inr opts)"
  by (simp add: led_args.simps)

lemma led_args_Cons:
  "deref a = CHR ''-'' \<Longrightarrow> led_args (a # rest) opts =
     (case led_option a opts of None \<Rightarrow> Some (Inl ()) | Some opts \<Rightarrow> led_args rest opts)"
  by (simp add: led_args.simps)

lemma led_args_stuck:
  assumes "led_args argv opts = Some r"
  shows "argv = [] \<or> deref (hd argv) = CHR ''-''"
proof (rule led_args.raw_induct [of "\<lambda>argv opts r. argv = [] \<or> deref (hd argv) = CHR ''-''", OF _ assms])
  fix f :: "cstring list \<Rightarrow> led_opts \<Rightarrow> (unit + led_opts) option" and argv opts r
  assume IH: "\<And>argv opts r. f argv opts = Some r \<Longrightarrow> argv = [] \<or> deref (hd argv) = CHR ''-''"
    and body: "(case argv of [] \<Rightarrow> Some (Inr opts)
      | a # rest \<Rightarrow> if deref a \<noteq> CHR ''-'' then f argv opts
          else case led_option a opts of None \<Rightarrow> Some (Inl ()) | Some opts \<Rightarrow> f rest opts) = Some r"
  show "argv = [] \<or> deref (hd argv) = CHR ''-''"
  proof (cases argv)
    case (Cons a rest)
    with IH [of argv opts r] body show ?thesis by (auto split: if_splits)
  qed simp
qed

text \<open>
  C36. The command line is read to its end, or to an unknown option, unless an argument that does
  not begin with a minus sign comes first: there the program loops forever.
\<close>

theorem led_args_returns:
  "led_args argv opts \<noteq> None \<longleftrightarrow>
     dropWhile led_known argv = [] \<or> deref (hd (dropWhile led_known argv)) = CHR ''-''"
proof (induction argv arbitrary: opts)
  case (Cons a rest)
  show ?case
  proof (cases "deref a = CHR ''-''")
    case True
    then show ?thesis
      using Cons.IH led_option_known [OF True, of opts]
      by (cases "led_option a opts") (auto simp: led_args_Cons)
  next
    case False
    then have "\<not> led_known a" by (simp add: led_known_def)
    moreover have "led_args (a # rest) opts = None"
      using led_args_stuck [of "a # rest" opts] False by (cases "led_args (a # rest) opts") auto
    ultimately show ?thesis using False by simp
  qed
qed simp

subsection \<open>Numbers\<close>

lemma str2num_loop_digits:
  assumes "list_all isdigit s" "\<not> isdigit (deref r)" "0 < v" "int (fst (scan_digits v s)) \<le> int_max"
  shows "str2num_loop (s @ r) (int v) = int (fst (scan_digits v s))"
  using assms
proof (induction s arbitrary: v)
  case Nil
  then show ?case by (cases r) auto
next
  case (Cons c s)
  let ?n = "10 * v + (byte c - 48)"
  have mono: "m \<le> fst (scan_digits m s)" for m
    by (induction m s rule: scan_digits.induct) auto
  have le: "int ?n \<le> int_max" using mono [of ?n] Cons.prems by simp
  then have w: "wrap32 (int v * 10 + int (byte c - 48)) = int ?n"
    by (subst wrap32_id) (auto simp: int_min_def)
  have "str2num_loop (s @ r) (int ?n) = int (fst (scan_digits ?n s))"
    using Cons.prems by (intro Cons.IH) auto
  then show ?case using Cons.prems w by (simp add: Let_def)
qed

lemma dec_nat_lead: "0 < n \<Longrightarrow> \<exists>c s. dec_nat n = c # s \<and> isdigit c \<and> list_all isdigit s \<and> 0 < byte c - 48"
proof (induction n rule: dec_nat.induct)
  case (1 n)
  show ?case
  proof (cases "n < 10")
    case True
    then show ?thesis using 1 by (subst dec_nat.simps) simp
  next
    case False
    then obtain c s where "dec_nat (n div 10) = c # s" "isdigit c" "list_all isdigit s" "0 < byte c - 48"
      using 1 by (auto simp: div_greater_zero_iff)
    then show ?thesis using False by (subst dec_nat.simps) simp
  qed
qed

lemma str2num_dec:
  assumes "0 < n" "int n \<le> int_max" "\<not> isdigit (deref r)"
  shows "str2num (dec_nat n @ r) = of_nat n"
proof -
  obtain c s where d: "dec_nat n = c # s" "isdigit c" "list_all isdigit s" "0 < byte c - 48"
    using dec_nat_lead assms(1) by blast
  have b: "byte c - 48 < 10" using d(2) by (auto simp: isdigit_def)
  then have w: "wrap32 (int (byte c - 48)) = int (byte c - 48)"
    by (intro wrap32_id) (auto simp: int_min_def int_max_def)
  have s: "scan_digits (byte c - 48) s = (n, [])"
    using scan_digits_dec_nat [of n] d by simp
  then have "str2num_loop (s @ r) (int (byte c - 48)) = int n"
    using assms str2num_loop_digits [OF d(3) assms(3) d(4)] by simp
  then have "str2num_loop (dec_nat n @ r) 0 = int n"
    using d(1,2,4) w by (simp add: Let_def)
  then show ?thesis by (simp add: str2num_def)
qed

lemma str2num_zero: "str2num (CHR ''0'' # s) = 2 ^ 32 - 1"
proof -
  have "isdigit CHR ''0''" "byte CHR ''0'' = 48" by (simp_all add: isdigit_def byte_def)
  then show ?thesis by (simp add: str2num_def wrap32_def)
qed

subsection \<open>The pattern and the display\<close>

lemma bit_if_num: "bit (if b then x else (0 :: u32)) j \<longleftrightarrow> b \<and> bit x j"
  by simp

lemma and_mask_bits:
  "(v :: u32) AND 0x01 \<noteq> 0 \<longleftrightarrow> bit v 0" "v AND 0x02 \<noteq> 0 \<longleftrightarrow> bit v 1" "v AND 0x04 \<noteq> 0 \<longleftrightarrow> bit v 2"
  "v AND 0x08 \<noteq> 0 \<longleftrightarrow> bit v 3" "v AND 0x10 \<noteq> 0 \<longleftrightarrow> bit v 4" "v AND 0x20 \<noteq> 0 \<longleftrightarrow> bit v 5"
  "v AND 0x40 \<noteq> 0 \<longleftrightarrow> bit v 6" "v AND 0x80 \<noteq> 0 \<longleftrightarrow> bit v 7"
  using and_exp_eq_0_iff_not_bit [of v 0] and_exp_eq_0_iff_not_bit [of v 1] and_exp_eq_0_iff_not_bit [of v 2]
    and_exp_eq_0_iff_not_bit [of v 3] and_exp_eq_0_iff_not_bit [of v 4] and_exp_eq_0_iff_not_bit [of v 5]
    and_exp_eq_0_iff_not_bit [of v 6] and_exp_eq_0_iff_not_bit [of v 7] by simp_all

text \<open>Where each segment of the older board sits on the newer one.\<close>

definition segments :: "(nat \<times> nat) list" where
  "segments = [(0, 17), (1, 16), (2, 15), (3, 14), (4, 0), (5, 1), (6, 2), (7, 3)]"

lemma trans_word_segments: "list_all (\<lambda>(i, j). bit (trans_word v) j \<longleftrightarrow> bit v i) segments"
  unfolding segments_def trans_word_def and_mask_bits
  by (simp add: bit_or_iff bit_if_num)

lemma trans_word_inject: "trans_word v = trans_word w \<longleftrightarrow> v AND 0xFF = w AND 0xFF"
proof
  assume eq: "trans_word v = trans_word w"
  show "v AND 0xFF = w AND 0xFF"
  proof (rule bit_word_eqI)
    fix i
    have m: "bit (0xFF :: u32) i \<longleftrightarrow> i < 8"
      using bit_mask_iff [of 8 i, where 'a = u32] by (auto simp: mask_numeral)
    have "i < 8 \<Longrightarrow> bit v i = bit w i"
      using trans_word_segments [of v] trans_word_segments [of w] eq
      by (simp add: segments_def less_Suc_eq numeral_eq_Suc) auto
    then show "bit (v AND 0xFF) i = bit (w AND 0xFF) i" using m by (auto simp: bit_and_iff)
  qed
next
  have a: "(x AND 0xFF) AND m = x AND m" if "0xFF AND m = m" for x m :: u32
    by (simp only: and.assoc that)
  assume eq: "v AND 0xFF = w AND 0xFF"
  have b: "v AND m = w AND m" if h: "0xFF AND m = m" for m :: u32
  proof -
    have "v AND m = (v AND 0xFF) AND m" by (rule a [OF h, symmetric])
    also have "\<dots> = w AND m" unfolding eq by (rule a [OF h])
    finally show ?thesis .
  qed
  have "v AND 1 = w AND 1" "v AND 2 = w AND 2" "v AND 4 = w AND 4" "v AND 8 = w AND 8"
    "v AND 0x10 = w AND 0x10" "v AND 0x20 = w AND 0x20" "v AND 0x40 = w AND 0x40" "v AND 0x80 = w AND 0x80"
    by (rule b, simp)+
  then show "trans_word v = trans_word w" unfolding trans_word_def by simp
qed

lemma led_run_cycles:
  "i < length p \<Longrightarrow> led_run p n (int i) = Some (map (\<lambda>k. p ! ((i + k) mod length p)) [0..<n])"
proof (induction n arbitrary: i)
  case (Suc n)
  let ?j = "if i + 1 = length p then 0 else i + 1"
  have j: "?j < length p" using Suc.prems by auto
  have e: "(?j + k) mod length p = (i + Suc k) mod length p" for k
  proof (cases "i + 1 = length p")
    case True
    then have "i + Suc k = length p + k" by simp
    then show ?thesis by (simp only: True if_True simp_thms mod_add_self1 add_0)
  qed simp
  have "led_run p n (int ?j) = Some (map (\<lambda>k. p ! ((i + Suc k) mod length p)) [0..<n])"
    using Suc.IH [OF j] by (simp only: e)
  then have "led_run p n (if int i + 1 = int (length p) then 0 else int i + 1) =
      Some (map (\<lambda>k. p ! ((i + Suc k) mod length p)) [0..<n])"
    by (simp add: add.commute split: if_splits)
  then show ?case
    using Suc.prems by (simp del: upt_Suc add: map_upt_Suc)
qed simp

lemma string2pattern_pairs:
  "2 * n \<le> length s \<Longrightarrow> string2pattern s n =
     Some (map (\<lambda>k. push_bit 4 (xdigit (s ! (2 * k))) OR xdigit (s ! (2 * k + 1))) [0..<n])"
proof (induction n arbitrary: s)
  case (Suc n)
  then obtain c d r where s: "s = c # d # r"
    by (metis Suc_le_length_iff mult_Suc_right numeral_2_eq_2 add_Suc)
  then show ?case using Suc.IH [of r] Suc.prems by (simp del: upt_Suc add: map_upt_Suc)
qed simp

lemma led_args_interval:
  "led_args argv opts = Some (Inr o') \<Longrightarrow> 0 < led_interval opts \<and> led_interval opts < 3600000 \<Longrightarrow>
   0 < led_interval o' \<and> led_interval o' < 3600000"
proof (induction argv arbitrary: opts)
  case (Cons a rest)
  then have "deref a = CHR ''-''" using led_args_stuck by force
  moreover have "0 < led_interval p \<and> led_interval p < 3600000" if "led_option a opts = Some p" for p
    using that Cons.prems(2) by (auto simp: led_option_def Let_def split: if_splits)
  ultimately show ?case using Cons by (simp add: led_args_Cons split: option.splits)
qed simp

lemma pause_us_exact: "0 < i \<Longrightarrow> i < 3600000 \<Longrightarrow> pause_us i = 1000 * i"
  by (simp add: pause_us_def wrap32_def mod_simps)

subsection \<open>The running daemon\<close>

declare led_args.simps [code]

definition led_pair :: "cstring \<Rightarrow> nat \<Rightarrow> u32" where
  "led_pair s k = push_bit 4 (xdigit (s ! (2 * k))) OR xdigit (s ! (2 * k + 1))"

text \<open>
  C37. The display never stops: started with options it knows, a pattern of at least two digits
  and without the option that keeps it in front, the daemon of obs200 writes its number and
  plays. The \<open>k\<close>-th value shown, for every \<open>k\<close>, is the pair of digits with the number
  \<open>k\<close> modulo the length of the pattern, translated for the older board if asked, and
  the pause is the interval in microseconds although the product can exceed an \<^verbatim>\<open>int\<close>.
\<close>

theorem led_plays_forever:
  assumes "led_args argv default_opts = Some (Inr opts)" "2 \<le> length (led_pattern opts)" "\<not> led_nofork opts"
    and "can_alloc e" "\<forall>p. can_open e p" "can_write_pid e" "0 < fork_result e"
  shows "\<exists>p. led_main200 e argv = Some \<lparr>plays = Some (p, 1000 * led_interval opts),
         pid_text = Some (dec (fork_result e) @ [NL]), status = Some 0\<rparr>
    \<and> length p = length (led_pattern opts) div 2
    \<and> (\<forall>k < length p. p ! k = (if led_obs opts then trans_word else id) (led_pair (led_pattern opts) k))
    \<and> (\<forall>n. led_run p n 0 = Some (map (\<lambda>k. p ! (k mod length p)) [0..<n]))"
proof -
  let ?s = "led_pattern opts"
  let ?n = "length ?s div 2"
  let ?p = "map ((if led_obs opts then trans_word else id) \<circ> led_pair ?s) [0..<?n]"
  have n: "0 < ?n" "2 * ?n \<le> length ?s" using assms(2) by auto
  have "string2pattern ?s ?n = Some (map (led_pair ?s) [0..<?n])"
    using string2pattern_pairs [OF n(2)] unfolding led_pair_def .
  moreover have "pause_us (led_interval opts) = 1000 * led_interval opts"
    using led_args_interval [OF assms(1)] by (simp add: pause_us_exact default_opts_def)
  ultimately have "led_main200 e argv = Some \<lparr>plays = Some (?p, 1000 * led_interval opts),
      pid_text = Some (dec (fork_result e) @ [NL]), status = Some 0\<rparr>"
    using assms by (simp add: led_main200_def led_setup_def transpattern_obss2obs_def Let_def)
  moreover have "led_run ?p n 0 = Some (map (\<lambda>k. ?p ! (k mod length ?p)) [0..<n])" for n
    using led_run_cycles [of 0 ?p n] n(1) by simp
  ultimately show ?thesis by (intro exI [of _ ?p]) auto
qed

definition led_host :: led_env where
  "led_host = \<lparr>can_alloc = True, can_open = (\<lambda>_. True), can_write_pid = True, fork_result = 7\<rparr>"

theorem led_plays_forever_witness:
  "\<exists>p. led_main200 led_host [''-o'', ''-i90''] = Some \<lparr>plays = Some (p, 90000), pid_text = Some (''7'' @ [NL]), status = Some 0\<rparr>
    \<and> length p = 8 \<and> led_run p 9 0 = Some (map (\<lambda>k. p ! (k mod 8)) [0..<9])"
proof -
  have o: "led_args [''-o'', ''-i90''] default_opts =
      Some (Inr \<lparr>led_pattern = ''0808889010109088'', led_interval = 90, led_nofork = False, led_obs = True\<rparr>)"
    by code_simp
  have "dec 7 = ''7''" by code_simp
  then show ?thesis
    using led_plays_forever [OF o, of led_host] by (auto simp: led_host_def)
qed

text \<open>
  The number of an option: a decimal number without leading zeros that fits an
  \<^verbatim>\<open>int\<close> is read as it is; with a leading zero the test for overflow takes the first
  digit for one and the result is the largest unsigned number, which the caller ignores as
  negative; a number far too large can pass the test and is read as a small one.
\<close>

theorem str2num_numbers:
  assumes "0 < n" "int n \<le> int_max" "\<not> isdigit (deref r)"
  shows "str2num (dec_nat n @ r) = of_nat n \<and> str2num (''0'' @ dec_nat n @ r) = 2 ^ 32 - 1
    \<and> str2num ''5000000000'' = 705032704"
proof -
  have "str2num ''5000000000'' = 705032704" by code_simp
  then show ?thesis using str2num_dec [OF assms] str2num_zero by simp
qed

theorem str2num_numbers_witness: "str2num ''90 '' = 90 \<and> str2num ''090 '' = 2 ^ 32 - 1"
proof -
  have "dec_nat 90 = ''90''" by code_simp
  then show ?thesis using str2num_numbers [of 90 "'' ''"] by (simp add: isdigit_def byte_def int_max_def)
qed

end
