(* ===== verification/Srec.thy ===== *)
theory Srec
  imports Libc
begin

text \<open>
  The preparation of a flash image in \<^verbatim>\<open>usr.sbin/tcpdwl/tcpdwl.c\<close>: the conversion of
  S-records (\<^verbatim>\<open>jfgets\<close>, \<^verbatim>\<open>jhtoi\<close>, \<^verbatim>\<open>mprocess\<close>,
  \<^verbatim>\<open>ConvertFile\<close>), the patch of ELF images and the choice between them
  (\<^verbatim>\<open>ChooseDLFile\<close>). The messages to the terminal are left out. A signed overflow
  wraps.
\<close>

unbundle bit_operations_syntax

subsection \<open>S-records\<close>

definition BUFF_SIZE :: nat where
  "BUFF_SIZE = 0x400"

definition FLASH_SIZE :: nat where
  "FLASH_SIZE = 0x10000 * 31"

text \<open>
  One line into the buffer; the count of the stored bytes, the buffer and what is left of the
  file. The end of the file and the byte 255 are passed over.
\<close>

fun jfgets_loop :: "nat \<Rightarrow> nat \<Rightarrow> string \<Rightarrow> string \<Rightarrow> nat \<times> string \<times> string" where
  "jfgets_loop 0 i buf f = (i, buf, f)"
| "jfgets_loop (Suc j) i buf [] = jfgets_loop j i buf []"
| "jfgets_loop (Suc j) i buf (temp # f) =
     (if temp = CHR 0xFF then jfgets_loop j i buf f
      else if temp = NL \<or> temp = CHR 0x09 \<or> temp = CHR 0x0D then (i + 1, buf[i := NUL], f)
      else jfgets_loop j (i + 1) (buf[i := temp]) f)"

definition jfgets :: "string \<Rightarrow> string \<Rightarrow> nat \<times> string \<times> string" where
  "jfgets buf f = jfgets_loop (BUFF_SIZE - 1) 0 buf f"

fun jhtoi_loop :: "string \<Rightarrow> int \<Rightarrow> int" where
  "jhtoi_loop [] n = n"
| "jhtoi_loop (c # s) n =
     (if 48 \<le> byte c \<and> byte c \<le> 57 then jhtoi_loop s (wrap32 (16 * n + (int (byte c) - 48)))
      else if 97 \<le> byte c \<and> byte c \<le> 102 then jhtoi_loop s (wrap32 (16 * n + (int (byte c) - 87)))
      else if 65 \<le> byte c \<and> byte c \<le> 70 then jhtoi_loop s (wrap32 (16 * n + (int (byte c) - 55)))
      else n)"

definition jhtoi :: "string \<Rightarrow> int" where
  "jhtoi s = jhtoi_loop s 0"

text \<open>What the conversion keeps between lines: the line buffer, the image and the two addresses.\<close>

record conv =
  buffer :: string
  fary :: "nat \<Rightarrow> char"
  highest_address :: u32
  base_address :: u32

fun data_loop :: "nat \<Rightarrow> string \<Rightarrow> nat \<Rightarrow> (nat \<Rightarrow> char) \<Rightarrow> nat \<Rightarrow> char" where
  "data_loop 0 fpnt address m = m"
| "data_loop (Suc byte_count) fpnt address m =
     data_loop byte_count (drop 2 fpnt) (address + 1)
       (m(address := char_of (jhtoi (take 2 fpnt) mod 256)))"

text \<open>One record: a code and the new state.\<close>

definition mprocess :: "conv \<Rightarrow> int \<times> conv" where
  "mprocess c =
     (let pnt = buffer c; kind = deref (drop 1 pnt) in
      if deref pnt \<noteq> CHR ''S'' then (- 1, c)
      else if kind \<in> {CHR ''0'', CHR ''7'', CHR ''8'', CHR ''9''} then (0, c)
      else if kind \<in> {CHR ''4'', CHR ''5'', CHR ''6''} then (- 2, c)
      else if kind \<notin> {CHR ''1'', CHR ''2'', CHR ''3''} then (- 3, c)
      else
        let byte_count = jhtoi (take 2 (drop 2 pnt));
            digits = (if kind = CHR ''1'' then 4 else if kind = CHR ''2'' then 6 else 8);
            fpnt = drop (4 + digits) pnt;
            byte_count = byte_count - (if kind = CHR ''1'' then 3 else if kind = CHR ''2'' then 4 else 5);
            address = word_of_int (jhtoi (take digits (drop 4 pnt)));
            c = c\<lparr>highest_address := address + word_of_int byte_count, base_address := address\<rparr>;
            address = address - base_address c
        in if address > of_nat FLASH_SIZE then (- 4, c)
           else (0, c\<lparr>fary := data_loop (nat byte_count) fpnt (unat address) (fary c)\<rparr>))"

lemma jfgets_loop_shorter:
  "jfgets_loop j i buf f = (n, buf', f') \<Longrightarrow> length f' \<le> length f \<and> (n \<noteq> i \<longrightarrow> length f' < length f)"
  by (induction j i buf f rule: jfgets_loop.induct) (force split: if_splits)+

lemma jfgets_shorter: "jfgets buf f = (n, buf', f') \<Longrightarrow> n \<noteq> 0 \<Longrightarrow> length f' < length f"
  using jfgets_loop_shorter unfolding jfgets_def by blast

text \<open>The loop of \<^verbatim>\<open>ConvertFile\<close>: a left result is the code of a bad record.\<close>

function convert_loop :: "string \<Rightarrow> conv \<Rightarrow> int + conv" where
  "convert_loop f c =
     (case jfgets (buffer c) f of (n, buf, f') \<Rightarrow>
        let c = c\<lparr>buffer := buf\<rparr> in
        if n \<noteq> 0
        then (case mprocess c of (r_code, c) \<Rightarrow> if r_code = 0 then convert_loop f' c else Inl r_code)
        else Inr c)"
  by pat_completeness auto
termination
  by (relation "measure (\<lambda>(f, c). length f)") (auto dest: jfgets_shorter [OF sym])

declare convert_loop.simps [simp del]

text \<open>
  \<^verbatim>\<open>sizeof(fary)\<close> is the size of a pointer, so four bytes are cleared. The text that is
  written is as long as the difference of the addresses; more than the array is out of bounds.
\<close>

definition convert :: "string \<Rightarrow> conv \<Rightarrow> (int + string) option" where
  "convert f c =
     (case convert_loop f (c\<lparr>fary := (\<lambda>i. if i < 4 then NUL else fary c i)\<rparr>) of
        Inl r_code \<Rightarrow> Some (Inl r_code)
      | Inr c \<Rightarrow>
          let n = unat (highest_address c - base_address c) in
          if n > FLASH_SIZE then None else Some (Inr (map (fary c) [0..<n])))"

subsection \<open>Preparing the file\<close>

type_synonym files = "cstring \<Rightarrow> string option"

record dl_host =
  host_files :: files
  can_write :: "cstring \<Rightarrow> bool"
  host_conv :: conv

definition ConvertFile :: "cstring \<Rightarrow> cstring \<Rightarrow> dl_host \<Rightarrow> (int \<times> dl_host) option" where
  "ConvertFile old new h =
     (case host_files h old of
        None \<Rightarrow> Some (- 1, h)
      | Some f \<Rightarrow>
          if \<not> can_write h new then Some (- 1, h)
          else do {
            r \<leftarrow> convert f (host_conv h);
            Some (case r of
              Inl r_code \<Rightarrow> (- 1, h\<lparr>host_files := (host_files h)(new := Some [])\<rparr>)
            | Inr img \<Rightarrow> (0, h\<lparr>host_files := (host_files h)(new := Some img)\<rparr>)) })"

definition jumpaddr :: string where
  "jumpaddr = [CHR 0x3c, CHR 0x00, CHR 0x00, CHR 0x21, CHR 0x60, CHR 0x00, CHR 0x00, CHR 0x00,
     CHR 0x7c, CHR 0x08, CHR 0x03, CHR 0xa6, CHR 0x4e, CHR 0x80, CHR 0x00, CHR 0x20]"

text \<open>\<^verbatim>\<open>lseek\<close> and \<^verbatim>\<open>write\<close>; a gap behind the end of the file is filled with 0.\<close>

definition overwrite :: "nat \<Rightarrow> string \<Rightarrow> string \<Rightarrow> string" where
  "overwrite k d s = take k (s @ replicate (k - length s) NUL) @ d @ drop (k + length d) s"

definition stat_file :: "cstring \<Rightarrow> dl_host \<Rightarrow> (unit + cstring \<times> nat) \<times> dl_host" where
  "stat_file name h =
     (case host_files h name of None \<Rightarrow> (Inl (), h) | Some s \<Rightarrow> (Inr (name, length s), h))"

text \<open>A file that is not converted: an ELF image gets a jump to its code at 0x100.\<close>

definition choose_image :: "cstring \<Rightarrow> string \<Rightarrow> dl_host \<Rightarrow> (unit + cstring \<times> nat) \<times> dl_host" where
  "choose_image pFile content h =
     (if length content < 4 then (Inl (), h)
      else if take 4 content = [CHR 0x7F, CHR 0x45, CHR 0x4C, CHR 0x46]
      then if \<not> can_write h pFile then (Inl (), h)
           else stat_file pFile
                  (h\<lparr>host_files := (host_files h)(pFile := Some (overwrite 0x100 jumpaddr content))\<rparr>)
      else stat_file pFile h)"

text \<open>
  The name and the length of the file to send, or \<open>Inl\<close>. \<open>dlfile\<close> is the global buffer for the
  name before the call. \<^verbatim>\<open>strcmp\<close> compares it with an array without terminator, which
  has a result only when they differ within the array; the names are copied into arrays of
  128 bytes.
\<close>

definition ChooseDLFile :: "cstring \<Rightarrow> cstring \<Rightarrow> dl_host \<Rightarrow> ((unit + cstring \<times> nat) \<times> dl_host) option" where
  "ChooseDLFile pFile dlfile h =
     (case host_files h pFile of
        None \<Rightarrow> Some (Inl (), h)
      | Some content \<Rightarrow>
          if length pFile \<ge> 128 then None
          else let other = (if prefix ''inter.img'' dlfile then None else Some (choose_image pFile content h)) in
            case strstr pFile ''.mot'' of
              None \<Rightarrow> other
            | Some (a, ext) \<Rightarrow>
                if length ext \<noteq> 4 then other
                else do { (ret, h) \<leftarrow> ConvertFile pFile (a @ ''.img'') h;
                          Some (if ret < 0 then (Inl (), h) else stat_file (a @ ''.img'') h) })"

lemma unat_small: "n < 2 ^ 32 \<Longrightarrow> unat (of_nat n :: u32) = n"
  by (simp add: unsigned_of_nat take_bit_nat_eq_self)

subsection \<open>Converting good records\<close>

definition hexd :: "nat \<Rightarrow> char" where
  "hexd d = (if d < 10 then char_of (48 + d) else char_of (55 + d))"

definition hex2 :: "nat \<Rightarrow> string" where
  "hex2 n = [hexd (n div 16), hexd (n mod 16)]"

text \<open>
  A file of S-records: a record that is passed over (its text), or a record of 4-byte
  addresses with the digits of its address, its data and the digits of its checksum.
\<close>

datatype srecord = Skip string | Rec string string string

fun srec_text :: "srecord \<Rightarrow> string" where
  "srec_text (Skip s) = s"
| "srec_text (Rec a d k) = ''S3'' @ hex2 (length d + 5) @ a @ concat (map (\<lambda>c. hex2 (byte c)) d) @ k"

definition plain :: "char \<Rightarrow> bool" where
  "plain c = (c \<notin> {CHR 0xFF, NL, CHR 0x09, CHR 0x0D})"

fun srec_ok :: "srecord \<Rightarrow> bool" where
  "srec_ok (Skip s) = (list_all plain s \<and> length s \<le> 1022 \<and> deref s = CHR ''S''
     \<and> deref (drop 1 s) \<in> {CHR ''0'', CHR ''7'', CHR ''8'', CHR ''9''})"
| "srec_ok (Rec a d k) = (list_all plain a \<and> length a = 8 \<and> length d \<le> 250 \<and> list_all plain k \<and> length k = 2)"

fun last_data :: "srecord list \<Rightarrow> string \<Rightarrow> string" where
  "last_data [] cur = cur"
| "last_data (Skip s # rs) cur = last_data rs cur"
| "last_data (Rec a d k # rs) cur = last_data rs d"

lemma byte_hexd: "d < 16 \<Longrightarrow> byte (hexd d) = (if d < 10 then 48 + d else 55 + d)"
  by (simp add: hexd_def)

lemma char_eq_byte: "c = CHR 0xFF \<longleftrightarrow> byte c = 255" "c = NL \<longleftrightarrow> byte c = 10"
  "c = CHR 0x09 \<longleftrightarrow> byte c = 9" "c = CHR 0x0D \<longleftrightarrow> byte c = 13"
proof -
  have "byte (CHR 0xFF) = 255" "byte NL = 10" "byte (CHR 0x09) = 9" "byte (CHR 0x0D) = 13"
    by (simp_all add: byte_def)
  then show "c = CHR 0xFF \<longleftrightarrow> byte c = 255" "c = NL \<longleftrightarrow> byte c = 10"
    "c = CHR 0x09 \<longleftrightarrow> byte c = 9" "c = CHR 0x0D \<longleftrightarrow> byte c = 13"
    by (metis byte_inject)+
qed

lemma plain_byte: "plain c \<longleftrightarrow> byte c \<notin> {255, 10, 9, 13}"
  by (simp add: plain_def char_eq_byte)

lemma plain_hex2 [simp]: "n < 256 \<Longrightarrow> list_all plain (hex2 n)" "length (hex2 n) = 2"
  by (auto simp: hex2_def plain_byte byte_hexd)

lemma jhtoi_hexd: "d < 16 \<Longrightarrow> 0 \<le> n \<Longrightarrow> n < 2 ^ 24 \<Longrightarrow> jhtoi_loop (hexd d # s) n = jhtoi_loop s (16 * n + int d)"
  by (auto simp: byte_hexd wrap32_id int_min_def int_max_def)

lemma jhtoi_hex2 [simp]: "n < 256 \<Longrightarrow> jhtoi (hex2 n) = int n"
  by (simp add: jhtoi_def hex2_def jhtoi_hexd del: jhtoi_loop.simps(2)) presburger

lemma data_loop_hex:
  "data_loop (length d) (concat (map (\<lambda>c. hex2 (byte c)) d) @ r) k m =
     (\<lambda>i. if k \<le> i \<and> i < k + length d then d ! (i - k) else m i)"
proof (induction d arbitrary: k m)
  case (Cons c d)
  have "take 2 (hex2 (byte c) @ t) = hex2 (byte c)" "drop 2 (hex2 (byte c) @ t) = t" for t
    by (simp_all add: hex2_def)
  moreover have "char_of (int (byte c) mod 256) = c"
    by (simp add: byte_def of_char_mod_256)
  ultimately show ?case using Cons.IH [of "Suc k"]
    by (auto simp: fun_eq_iff nth_Cons' not_less_eq_eq)
qed (auto simp: fun_eq_iff)

lemma hex_data [simp]: "list_all plain (concat (map (\<lambda>c. hex2 (byte c)) d))"
  "length (concat (map (\<lambda>c. hex2 (byte c)) d)) = 2 * length d"
  by (induction d) simp_all

lemma jfgets_loop_line:
  "list_all plain s \<Longrightarrow> length s < j \<Longrightarrow> i + length s < length buf \<Longrightarrow> t \<in> {NL, CHR 0x09, CHR 0x0D} \<Longrightarrow>
   jfgets_loop j i buf (s @ t # f) = (i + length s + 1, take i buf @ s @ NUL # drop (i + length s + 1) buf, f)"
proof (induction s arbitrary: j i buf)
  case Nil
  then obtain j' where "j = Suc j'" by (cases j) auto
  then show ?case using Nil by (auto simp: upd_conv_take_nth_drop)
next
  case (Cons c s)
  then obtain j' where j: "j = Suc j'" by (cases j) auto
  have "jfgets_loop j' (i + 1) (buf[i := c]) (s @ t # f) =
      (i + 1 + length s + 1, take (i + 1) (buf[i := c]) @ s @ NUL # drop (i + 1 + length s + 1) (buf[i := c]), f)"
    using Cons j by (intro Cons.IH) auto
  moreover have "take (i + 1) (buf[i := c]) = take i buf @ [c]"
    using Cons.prems by (simp add: upd_conv_take_nth_drop)
  ultimately show ?case using Cons.prems j by (auto simp: plain_def)
qed

lemma jfgets_line:
  assumes "list_all plain s" "length s \<le> 1022" "length buf = 1024" "t \<in> {NL, CHR 0x09, CHR 0x0D}"
  shows "jfgets buf (s @ t # f) = (length s + 1, s @ NUL # drop (length s + 1) buf, f)"
  using jfgets_loop_line [OF assms(1) _ _ assms(4), of 1023 0 buf f] assms(2,3)
  by (simp add: jfgets_def BUFF_SIZE_def)

text \<open>What the image holds while records are read: the data of the last one, from the start.\<close>

definition holds_data :: "string \<Rightarrow> conv \<Rightarrow> bool" where
  "holds_data cur c = (length (buffer c) = 1024 \<and> length cur \<le> 250
     \<and> highest_address c - base_address c = of_nat (length cur) \<and> (\<forall>i < length cur. fary c i = cur ! i))"

lemma mprocess_Rec:
  assumes "srec_ok (Rec a d k)" "buffer c = srec_text (Rec a d k) @ r" "length (buffer c) = 1024"
  shows "\<exists>c'. mprocess c = (0, c') \<and> holds_data d c'"
proof -
  let ?hd = "concat (map (\<lambda>c. hex2 (byte c)) d)"
  have b: "deref (buffer c) = CHR ''S''" "deref (drop (Suc 0) (buffer c)) = CHR ''3''"
    "take 2 (drop 2 (buffer c)) = hex2 (length d + 5)" "drop 12 (buffer c) = ?hd @ k @ r"
    using assms by (simp_all add: hex2_def)
  have n: "jhtoi (hex2 (length d + 5)) = int (length d) + 5"
    using assms(1) by (subst jhtoi_hex2) auto
  show ?thesis
    using assms(1,3) unfolding mprocess_def b n
    by (simp add: Let_def b data_loop_hex holds_data_def)
qed

lemma srec_line:
  assumes "srec_ok r" "holds_data cur c" "t \<in> {NL, CHR 0x09, CHR 0x0D}"
  shows "\<exists>c'. convert_loop (srec_text r @ t # f) c = convert_loop f c' \<and> holds_data (last_data [r] cur) c'"
proof -
  let ?s = "srec_text r"
  have l: "list_all plain ?s" "length ?s \<le> 1022"
    using assms(1) by (cases r; simp add: plain_def)+
  let ?c = "c\<lparr>buffer := ?s @ NUL # drop (length ?s + 1) (buffer c)\<rparr>"
  have len: "length (buffer ?c) = 1024" using assms(2) l(2) by (simp add: holds_data_def)
  have j: "jfgets (buffer c) (?s @ t # f) = (length ?s + 1, buffer ?c, f)"
    using jfgets_line [OF l _ assms(3)] assms(2) by (simp add: holds_data_def)
  have "\<exists>c'. mprocess ?c = (0, c') \<and> holds_data (last_data [r] cur) c'"
  proof (cases r)
    case (Skip s)
    then have "s \<noteq> []" "length s \<noteq> 1" using assms(1) by auto
    then obtain x y z where "s = x # y # z" by (cases s; cases "tl s") auto
    then show ?thesis using assms(1,2) Skip len by (auto simp: mprocess_def Let_def holds_data_def)
  next
    case (Rec a d k)
    have "buffer ?c = srec_text (Rec a d k) @ NUL # drop (length ?s + 1) (buffer c)" using Rec by simp
    from mprocess_Rec [OF _ this len] show ?thesis using assms(1) Rec by simp
  qed
  then obtain c' where "mprocess ?c = (0, c')" "holds_data (last_data [r] cur) c'" by blast
  then show ?thesis using j by (subst convert_loop.simps) (auto simp: Let_def)
qed

lemma convert_lines:
  assumes "list_all srec_ok rs" "holds_data cur c"
  shows "\<exists>c'. convert_loop (concat (map (\<lambda>r. srec_text r @ [NL]) rs)) c = Inr c' \<and> holds_data (last_data rs cur) c'"
  using assms
proof (induction rs arbitrary: cur c)
  case Nil
  have "jfgets_loop j i buf [] = (i, buf, [])" for j i buf by (induction j) auto
  then show ?case using Nil by (subst convert_loop.simps) (auto simp: jfgets_def holds_data_def)
next
  case (Cons r rs)
  let ?f = "concat (map (\<lambda>r. srec_text r @ [NL]) rs)"
  obtain c' where c': "convert_loop (srec_text r @ NL # ?f) c = convert_loop ?f c'" "holds_data (last_data [r] cur) c'"
    using srec_line [of r cur c NL ?f] Cons.prems by auto
  have "last_data (r # rs) cur = last_data rs (last_data [r] cur)" by (cases r) auto
  then show ?case using Cons.IH [OF _ c'(2)] Cons.prems(1) c'(1) by simp
qed

lemma length_last_data: "list_all srec_ok rs \<Longrightarrow> length cur \<le> 250 \<Longrightarrow> length (last_data rs cur) \<le> 250"
  by (induction rs cur rule: last_data.induct) auto

definition fresh_conv :: "conv \<Rightarrow> bool" where
  "fresh_conv c = (length (buffer c) = 1024 \<and> highest_address c = 0 \<and> base_address c = 0)"

text \<open>
  The converter keeps the last record only. Each record is stored from the start of the
  image, because its own address is taken for the base, and the image is as long as the last
  record: a file of any number of good records is converted to the data of the last one. (A
  file of a single data record is converted rightly.)
\<close>

theorem last_record_wins:
  assumes "list_all srec_ok rs" "fresh_conv (host_conv h)" "can_write h new"
    "host_files h old = Some (concat (map (\<lambda>r. srec_text r @ [NL]) rs))"
  shows "ConvertFile old new h = Some (0, h\<lparr>host_files := (host_files h)(new := Some (last_data rs []))\<rparr>)"
proof -
  let ?c = "(host_conv h)\<lparr>fary := (\<lambda>i. if i < 4 then NUL else fary (host_conv h) i)\<rparr>"
  have "holds_data [] ?c" using assms(2) by (simp add: holds_data_def fresh_conv_def)
  from convert_lines [OF assms(1) this] obtain c' where
    c': "convert_loop (concat (map (\<lambda>r. srec_text r @ [NL]) rs)) ?c = Inr c'" "holds_data (last_data rs []) c'"
    by blast
  let ?d = "last_data rs []"
  have l: "length ?d \<le> 250" using length_last_data [OF assms(1), of "[]"] by simp
  then have n: "unat (highest_address c' - base_address c') = length ?d"
    using c'(2) unat_small [of "length ?d"] by (simp only: holds_data_def) simp
  have "map (fary c') [0..<length ?d] = ?d"
    using c'(2) by (intro nth_equalityI) (simp_all add: holds_data_def)
  then have "convert (concat (map (\<lambda>r. srec_text r @ [NL]) rs)) (host_conv h) = Some (Inr (last_data rs []))"
    using c'(1) n l by (simp add: convert_def Let_def FLASH_SIZE_def)
  then show ?thesis using assms(3,4) by (simp add: ConvertFile_def)
qed

text \<open>
  Lines that end in a carriage return and a newline are refused: the first ends the line,
  the second is read as a line of its own, which is no record. The new file is left empty.
\<close>

theorem dos_lines_refused:
  assumes "srec_ok r" "fresh_conv (host_conv h)" "can_write h new"
    "host_files h old = Some (srec_text r @ [CHR 0x0D, NL] @ f)"
  shows "ConvertFile old new h = Some (- 1, h\<lparr>host_files := (host_files h)(new := Some [])\<rparr>)"
proof -
  let ?c = "(host_conv h)\<lparr>fary := (\<lambda>i. if i < 4 then NUL else fary (host_conv h) i)\<rparr>"
  have "holds_data [] ?c" using assms(2) by (simp add: holds_data_def fresh_conv_def)
  from srec_line [OF assms(1) this, of "CHR 0x0D" "NL # f"] obtain c' where
    c': "convert_loop (srec_text r @ CHR 0x0D # NL # f) ?c = convert_loop (NL # f) c'" "length (buffer c') = 1024"
    by (auto simp: holds_data_def)
  have "jfgets (buffer c') (NL # f) = (1, NUL # drop 1 (buffer c'), f)"
    using jfgets_line [of "[]" "buffer c'" NL f] c'(2) by simp
  then have "convert_loop (NL # f) c' = Inl (- 1)"
    by (subst convert_loop.simps) (simp add: mprocess_def Let_def)
  then show ?thesis using c'(1) assms(3,4) by (simp add: convert_def ConvertFile_def)
qed

definition prom :: dl_host where
  "prom = \<lparr>host_files = [''a.mot'' \<mapsto> ''S00600004844521B'' @ [NL] @ ''S30700001000414262'' @ [NL] @
       ''S30600001002435F'' @ [NL] @ ''S70500000000FA'' @ [NL]],
     can_write = (\<lambda>_. True),
     host_conv = \<lparr>buffer = replicate 1024 NUL, fary = (\<lambda>_. NUL), highest_address = 0, base_address = 0\<rparr>\<rparr>"

lemma prom_digits: "hex2 7 = ''07''" "hex2 6 = ''06''" "hex2 (byte CHR ''A'') = ''41''"
  "hex2 (byte CHR ''B'') = ''42''" "hex2 (byte CHR ''C'') = ''43''"
  by code_simp+

theorem last_record_wins_witness:
  "ConvertFile ''a.mot'' ''a.img'' prom = Some (0, prom\<lparr>host_files := (host_files prom)(''a.img'' := Some ''C'')\<rparr>)"
proof -
  let ?rs = "[Skip ''S00600004844521B'', Rec ''00001000'' ''AB'' ''62'', Rec ''00001002'' ''C'' ''5F'', Skip ''S70500000000FA'']"
  have "host_files prom ''a.mot'' = Some (concat (map (\<lambda>r. srec_text r @ [NL]) ?rs))"
    by (simp add: prom_def prom_digits)
  moreover have "list_all srec_ok ?rs" "fresh_conv (host_conv prom)" "can_write prom ''a.img''"
    by (simp_all add: plain_def fresh_conv_def prom_def)
  ultimately show ?thesis using last_record_wins [of ?rs prom "''a.img''" "''a.mot''"] by simp
qed

theorem dos_lines_refused_witness:
  "ConvertFile ''a.mot'' ''a.img''
     (prom\<lparr>host_files := [''a.mot'' \<mapsto> ''S30600001002435F'' @ [CHR 0x0D, NL] @ ''S70500000000FA'' @ [CHR 0x0D, NL]]\<rparr>)
   = Some (- 1, prom\<lparr>host_files := [''a.mot'' \<mapsto> ''S30600001002435F'' @ [CHR 0x0D, NL] @ ''S70500000000FA'' @ [CHR 0x0D, NL],
       ''a.img'' \<mapsto> []]\<rparr>)"
proof -
  let ?t = "''S30600001002435F'' @ [CHR 0x0D, NL] @ ''S70500000000FA'' @ [CHR 0x0D, NL]"
  let ?h = "prom\<lparr>host_files := [''a.mot'' \<mapsto> ?t]\<rparr>"
  let ?r = "Rec ''00001002'' ''C'' ''5F''"
  have "host_files ?h ''a.mot'' = Some (srec_text ?r @ [CHR 0x0D, NL] @ ''S70500000000FA'' @ [CHR 0x0D, NL])"
    by (simp add: prom_digits)
  moreover have "srec_ok ?r" "fresh_conv (host_conv ?h)" "can_write ?h ''a.img''"
    by (simp_all add: plain_def fresh_conv_def prom_def)
  ultimately show ?thesis
    using dos_lines_refused [of ?r ?h "''a.img''" "''a.mot''" "''S70500000000FA'' @ [CHR 0x0D, NL]"]
    by (simp add: prom_digits)
qed

end
