(* ===== verification/Tcpdwl.thy ===== *)
theory Tcpdwl
  imports Srec
begin

text \<open>
  \<^verbatim>\<open>usr.sbin/tcpdwl/tcpdwl.c\<close>: the program that sends a flash image to an OpenBlockS 50
  and its protocol, \<^verbatim>\<open>Dl_tcp\<close>.

  The board is the list of what the successive reads of the socket deliver; \<open>[]\<close> is the end
  of the connection. What is sent is the list \<open>out\<close>. The file that is sent is a regular one,
  of which \<^verbatim>\<open>read\<close> delivers as many bytes as are asked for or are left. Of the messages
  to the terminal the model keeps the one the code builds in a variable and the reason why
  the loop is left.
\<close>

unbundle bit_operations_syntax

subsection \<open>The protocol\<close>

datatype dl_state = IDLE | SWITCH | SPECIFY | STARTDOWN | DOWNLOAD | FINISHED

datatype wire = Cmd string | Data string | Reconnect

text \<open>
  The globals the protocol uses, with \<open>dl_rest\<close> what is left to read of the file and
  \<open>end_bytes\<close> the text of \<^verbatim>\<open>display_end_bytes\<close>, an array of 20 bytes; what the
  system answers: whether the \<open>k\<close>-th write, opening the file and the second connection succeed.
\<close>

record dl =
  State :: dl_state
  FileSize :: u32
  SentFlag :: bool
  position :: u32
  dl_file :: string
  dl_rest :: string
  end_bytes :: cstring
  out :: "wire list"
  sends :: nat
  send_ok :: "nat \<Rightarrow> bool"
  open_ok :: bool
  socket_ok :: bool
  connect_ok :: bool

definition send :: "wire \<Rightarrow> dl \<Rightarrow> bool \<times> dl" where
  "send m s =
     (send_ok s (sends s),
      s\<lparr>out := (if send_ok s (sends s) then out s @ [m] else out s), sends := sends s + 1\<rparr>)"

definition TestMode :: "dl \<Rightarrow> dl" where
  "TestMode s = snd (send (Cmd [CHR 0x51, CHR 0x21, NUL, NUL, NUL, NUL, NUL, NUL]) s)"

definition SwitchMode :: "dl \<Rightarrow> dl" where
  "SwitchMode s = snd (send (Cmd ([CHR 0x51, CHR 0x20] @ ''SWITCH'')) (s\<lparr>State := SWITCH\<rparr>))"

definition octet_of :: "u32 \<Rightarrow> char" where
  "octet_of w = char_of (unat (w AND 0xFF))"

definition start_cmd :: "u32 \<Rightarrow> string" where
  "start_cmd sz =
     [CHR 0x51, CHR 0x22, octet_of (drop_bit 24 (sz AND 0xFF000000)), octet_of (drop_bit 16 (sz AND 0x00FF0000)),
      octet_of (drop_bit 8 (sz AND 0x0000FF00)), octet_of (sz AND 0x000000FF), NUL, NUL]"

definition StartDownLoad :: "dl \<Rightarrow> dl" where
  "StartDownLoad s =
     snd (send (Cmd (start_cmd (FileSize s))) (s\<lparr>State := STARTDOWN, SentFlag := False\<rparr>))"

text \<open>
  \<open>n\<close> is the number of rounds that are left, so \<^verbatim>\<open>Inc\<close> is \<open>64 - n\<close> at the start of one.
  The report of the last block is printed into \<^verbatim>\<open>display_end_bytes\<close>; a text that does not
  fit with its terminator has no defined result (\<open>None\<close>).
\<close>

definition end_text :: "int \<Rightarrow> int \<Rightarrow> cstring" where
  "end_text inc n = ''Now sending '' @ dec inc @ ''K + '' @ dec n @ '' bytes''"

fun dl_blocks :: "nat \<Rightarrow> dl \<Rightarrow> dl option" where
  "dl_blocks 0 s = Some s"
| "dl_blocks (Suc n) s =
     (let sFileBuf = take 1024 (dl_rest s) in
      case send (Data sFileBuf) (s\<lparr>dl_rest := drop 1024 (dl_rest s)\<rparr>) of
        (False, s) \<Rightarrow> Some s
      | (True, s) \<Rightarrow>
          let s = s\<lparr>position := position s + of_nat (length sFileBuf)\<rparr> in
          if FileSize s \<le> position s
          then (let t = end_text (63 - int n) (int (length sFileBuf)) in
                if length t < 20 then Some (s\<lparr>end_bytes := t, SentFlag := True\<rparr>) else None)
          else dl_blocks n s)"

definition DownLoad :: "dl \<Rightarrow> dl option" where
  "DownLoad s = dl_blocks 64 s"

text \<open>A round of the loop goes on, leaves the loop with the reason it prints, or returns.\<close>

datatype dl_result = Go dl | Break cstring dl | Return dl

definition rec_code :: "string \<Rightarrow> nat" where
  "rec_code r = byte (r ! 0) * 256 + byte (r ! 1)"

definition error_text :: "16 word \<Rightarrow> cstring" where
  "error_text e =
     (if e AND 0x8000 \<noteq> 0 then ''Error in command state''
      else if e AND 0x0020 \<noteq> 0 then ''Error in download bytes''
      else if e AND 0x0010 \<noteq> 0 then ''Dial-in dial-out error''
      else if e AND 0x0008 \<noteq> 0 then ''Telnet error''
      else if e AND 0x0004 \<noteq> 0 then ''Flash ROM erase error''
      else if e AND 0x0002 \<noteq> 0 then ''Download in progress''
      else if e AND 0x0001 \<noteq> 0 then ''Flash ROM write error''
      else ''Other errors'')"

definition RInq :: "char \<Rightarrow> char \<Rightarrow> string" where
  "RInq a b = [CHR 0x52, CHR 0x05, a, b, NUL, NUL, NUL, NUL]"

definition ack_step :: "dl \<Rightarrow> dl_result option" where
  "ack_step s =
     (case State s of
        SWITCH \<Rightarrow>
          if \<not> socket_ok s then Some (Return s)
          else let s = s\<lparr>out := out s @ [Reconnect]\<rparr> in
            if \<not> connect_ok s then Some (Return s) else Some (Go (TestMode s))
      | STARTDOWN \<Rightarrow>
          let s = s\<lparr>State := DOWNLOAD\<rparr> in
          if \<not> open_ok s then Some (Break ''Can't open file'' s)
          else map_option Go (DownLoad (s\<lparr>dl_rest := dl_file s\<rparr>))
      | DOWNLOAD \<Rightarrow> if SentFlag s then Some (Break [] s) else map_option Go (DownLoad s)
      | _ \<Rightarrow> Some (Break ''Error state'' s))"

definition dl_step :: "string \<Rightarrow> dl \<Rightarrow> dl_result option" where
  "dl_step r s =
     (if length r \<noteq> 8 then Some (Break ''Error record from server'' s)
      else if rec_code r = 0x5203 then ack_step s
      else if rec_code r = 0x5206 then Some (Break (error_text (of_nat (rec_code (drop 2 r)))) s)
      else if rec_code r = 0x5205 then
        (if r \<in> {RInq (CHR 0x01) NUL, RInq NUL (CHR 0x01)} then Some (Go (SwitchMode s))
         else if r \<in> {RInq (CHR 0x02) NUL, RInq NUL (CHR 0x02), RInq (CHR 0x03) NUL} then Some (Go (StartDownLoad s))
         else Some (Break ''Error state'' s))
      else Some (Break ''Error state'' s))"

fun dl_loop :: "string list \<Rightarrow> dl \<Rightarrow> dl_result option" where
  "dl_loop [] s = dl_step [] s"
| "dl_loop (r # rs) s = (case dl_step r s of Some (Go s') \<Rightarrow> dl_loop rs s' | x \<Rightarrow> x)"

definition Dl_tcp :: "string list \<Rightarrow> dl \<Rightarrow> dl_result option" where
  "Dl_tcp rs s = dl_loop rs (TestMode s)"

subsection \<open>The program\<close>

text \<open>What the network answers before the protocol starts.\<close>

record dl_net =
  inet_addr :: "cstring \<Rightarrow> u32"
  first_socket :: bool
  first_connect :: bool

datatype dl_main = Exit int | Ended dl_result

definition dl_run :: "bool \<Rightarrow> cstring \<Rightarrow> cstring \<Rightarrow> cstring \<Rightarrow> dl_net \<Rightarrow> dl_host \<Rightarrow> dl \<Rightarrow> string list
    \<Rightarrow> (dl_main \<times> dl_host) option" where
  "dl_run display ip file stdin net h s rs =
     (if display \<and> (deref stdin = CHR ''n'' \<or> deref (drop 1 stdin) = CHR ''N'') then Some (Exit 0, h)
      else do {
        (r, h) \<leftarrow> ChooseDLFile file [] h;
        case r of
          Inl _ \<Rightarrow> Some (Exit (- 1), h)
        | Inr (name, n) \<Rightarrow>
            if \<not> first_socket net \<or> inet_addr net ip = 0xFFFFFFFF \<or> \<not> first_connect net then Some (Exit (- 1), h)
            else do {
              e \<leftarrow> Dl_tcp rs (s\<lparr>State := IDLE, FileSize := of_nat n,
                     dl_file := (case host_files h name of None \<Rightarrow> [] | Some f \<Rightarrow> f)\<rparr>);
              Some (Ended e, h) } })"

definition dl_main :: "cstring list \<Rightarrow> cstring \<Rightarrow> dl_net \<Rightarrow> dl_host \<Rightarrow> dl \<Rightarrow> string list
    \<Rightarrow> (dl_main \<times> dl_host) option" where
  "dl_main argv stdin net h s rs =
     (case argv of
        [_, ip, file] \<Rightarrow> dl_run False ip file stdin net h s rs
      | [_, mode, ip, file] \<Rightarrow>
          do { m \<leftarrow> adv mode;
               if deref m = CHR ''v'' \<or> deref m = CHR ''V'' then dl_run True ip file stdin net h s rs
               else Some (Exit (- 1), h) }
      | _ \<Rightarrow> Some (Exit (- 1), h))"

subsection \<open>What is sent\<close>

primrec wire_data :: "wire \<Rightarrow> string" where
  "wire_data (Cmd c) = []"
| "wire_data (Data d) = d"
| "wire_data Reconnect = []"

definition payload :: "wire list \<Rightarrow> string" where
  "payload ms = concat (map wire_data ms)"

definition is_start :: "wire \<Rightarrow> bool" where
  "is_start m = (case m of Cmd c \<Rightarrow> take 2 c = [CHR 0x51, CHR 0x22] | _ \<Rightarrow> False)"

text \<open>What was sent after the last command that announces a download.\<close>

definition since_start :: "wire list \<Rightarrow> wire list" where
  "since_start ms = rev (takeWhile (\<lambda>m. \<not> is_start m) (rev ms))"

definition is_ack :: "string \<Rightarrow> bool" where
  "is_ack r = (length r = 8 \<and> rec_code r = 0x5203)"

lemma payload_simps [simp]:
  "payload [] = []" "payload (m # ms) = wire_data m @ payload ms" "payload (ms @ ns) = payload ms @ payload ns"
  "payload (map Data ds) = concat ds"
  by (simp_all add: payload_def comp_def)

lemma take_start_cmd [simp]: "take 2 (start_cmd n) = [CHR 0x51, CHR 0x22]"
  by (simp add: start_cmd_def)

lemma is_start_simps [simp]:
  "\<not> is_start (Data d)" "\<not> is_start Reconnect" "is_start (Cmd (start_cmd n))"
  "is_start (Cmd c) \<longleftrightarrow> take 2 c = [CHR 0x51, CHR 0x22]"
  by (simp_all add: is_start_def start_cmd_def)

lemma since_start_snoc: "since_start (ms @ [m]) = (if is_start m then [] else since_start ms @ [m])"
  by (simp add: since_start_def)

lemma since_start_Data: "since_start (ms @ map Data ds) = since_start ms @ map Data ds"
  by (induction ds rule: rev_induct) (simp_all add: since_start_snoc flip: append_assoc)

text \<open>Before the first announcement there is no data.\<close>

definition announced :: "wire list \<Rightarrow> bool" where
  "announced ms = (payload (takeWhile (\<lambda>m. \<not> is_start m) ms) = [])"

lemma announced_snoc: "announced ms \<Longrightarrow> wire_data m = [] \<or> (\<exists>x \<in> set ms. is_start x) \<Longrightarrow> announced (ms @ [m])"
proof (cases "\<exists>x \<in> set ms. is_start x")
  case True
  then have "takeWhile (\<lambda>m. \<not> is_start m) (ms @ [m]) = takeWhile (\<lambda>m. \<not> is_start m) ms"
    by (induction ms) auto
  moreover assume "announced ms"
  ultimately show ?thesis by (simp add: announced_def)
next
  case False
  assume "announced ms" "wire_data m = [] \<or> (\<exists>x \<in> set ms. is_start x)"
  moreover have "takeWhile (\<lambda>m. \<not> is_start m) ms = ms" using False by (simp add: takeWhile_eq_all_conv)
  moreover have "takeWhile (\<lambda>m. \<not> is_start m) (ms @ [m]) = ms @ takeWhile (\<lambda>m. \<not> is_start m) [m]"
    using False by (simp add: takeWhile_append)
  ultimately show ?thesis using False by (auto simp: announced_def)
qed

lemma announced_Data:
  "announced ms \<Longrightarrow> \<exists>x \<in> set ms. is_start x \<Longrightarrow> announced (ms @ map Data ds)"
proof (induction ds rule: rev_induct)
  case (snoc d ds)
  then show ?case using announced_snoc [of "ms @ map Data ds" "Data d"] by auto
qed simp

subsection \<open>One block of 64K\<close>

text \<open>The parts of the state no send touches.\<close>

definition dl_frame :: "dl \<Rightarrow> dl_state \<times> u32 \<times> string \<times> (nat \<Rightarrow> bool) \<times> bool \<times> bool \<times> bool" where
  "dl_frame s = (State s, FileSize s, dl_file s, send_ok s, open_ok s, socket_ok s, connect_ok s)"

lemma end_text_long: "24 \<le> length (end_text i n)"
proof -
  have "1 \<le> length (dec i)" for i by (cases "dec i") auto
  from this [of i] this [of n] show ?thesis by (simp add: end_text_def)
qed

text \<open>The report of the last block never fits.\<close>

lemma dl_blocks_Suc:
  "dl_blocks (Suc n) s =
     (let b = take 1024 (dl_rest s) in
      case send (Data b) (s\<lparr>dl_rest := drop 1024 (dl_rest s)\<rparr>) of
        (False, s) \<Rightarrow> Some s
      | (True, s) \<Rightarrow>
          let s = s\<lparr>position := position s + of_nat (length b)\<rparr> in
          if FileSize s \<le> position s then None else dl_blocks n s)"
proof -
  have f: "(length (end_text i n) < 20) = False" for i n using end_text_long [of i n] by simp
  show ?thesis by (simp only: dl_blocks.simps(2) Let_def f if_False)
qed

declare dl_blocks.simps(2) [simp del]

lemma dl_blocks_frame: "dl_blocks n s = Some t \<Longrightarrow> dl_frame t = dl_frame s \<and> SentFlag t = SentFlag s"
  by (induction n arbitrary: s)
    (auto simp: dl_blocks_Suc dl_frame_def send_def Let_def split: bool.splits prod.splits if_splits)

lemma dl_blocks_sent:
  "\<forall>k. send_ok s k \<Longrightarrow> dl_blocks n s = Some t \<Longrightarrow>
   \<exists>ds. out t = out s @ map Data ds \<and> dl_rest s = concat ds @ dl_rest t"
proof (induction n arbitrary: s)
  case 0
  then show ?case by (intro exI [of _ "[]"]) simp
next
  case (Suc n)
  let ?b = "take 1024 (dl_rest s)"
  let ?s = "s\<lparr>dl_rest := drop 1024 (dl_rest s), out := out s @ [Data ?b], sends := sends s + 1,
      position := position s + of_nat (length ?b)\<rparr>"
  have "dl_blocks n ?s = Some t"
    using Suc.prems by (simp add: dl_blocks_Suc send_def Let_def split: if_split_asm)
  moreover have "\<forall>k. send_ok ?s k" using Suc.prems by simp
  ultimately obtain ds where "out t = out ?s @ map Data ds" "dl_rest ?s = concat ds @ dl_rest t"
    using Suc.IH by blast
  moreover have "dl_rest s = ?b @ dl_rest ?s" by simp
  ultimately show ?case by (intro exI [of _ "?b # ds"]) (simp del: append_take_drop_id)
qed

text \<open>The position agrees with what is left of the file.\<close>

definition in_step :: "dl \<Rightarrow> bool" where
  "in_step s = (FileSize s = of_nat (length (dl_file s)) \<and> length (dl_file s) < 2 ^ 32
     \<and> length (dl_rest s) \<le> length (dl_file s)
     \<and> position s = of_nat (length (dl_file s) - length (dl_rest s)))"

lemma dl_blocks_in_step:
  assumes "\<forall>k. send_ok s k" "in_step s" "0 < n"
  shows "if length (dl_rest s) \<le> 1024 * n then dl_blocks n s = None
    else \<exists>t. dl_blocks n s = Some t \<and> in_step t \<and> dl_rest t = drop (1024 * n) (dl_rest s)"
  using assms
proof (induction n arbitrary: s)
  case (Suc n)
  let ?b = "take 1024 (dl_rest s)"
  let ?s = "s\<lparr>dl_rest := drop 1024 (dl_rest s), out := out s @ [Data ?b], sends := sends s + 1,
      position := position s + of_nat (length ?b)\<rparr>"
  let ?L = "length (dl_file s)"
  let ?r = "length (dl_rest s)"
  have L: "?L < 2 ^ 32" "?r \<le> ?L" using Suc.prems by (simp_all add: in_step_def)
  have pos: "position ?s = of_nat (?L - (?r - 1024))"
    using Suc.prems L by (auto simp: in_step_def min_def simp flip: of_nat_add)
  moreover have "?r - 1024 \<le> ?L" using L by linarith
  ultimately have step: "in_step ?s" using Suc.prems by (simp add: in_step_def)
  have le: "FileSize ?s \<le> position ?s \<longleftrightarrow> ?r \<le> 1024"
  proof -
    have fs: "FileSize ?s = of_nat ?L" using Suc.prems by (simp add: in_step_def)
    have "?L - (?r - 1024) < 2 ^ 32" using L by linarith
    then have "FileSize ?s \<le> position ?s \<longleftrightarrow> ?L \<le> ?L - (?r - 1024)"
      unfolding fs pos word_le_nat_alt using L(1) by (simp only: unat_small)
    then show ?thesis using L by auto
  qed
  have e: "dl_blocks (Suc n) s = (if ?r \<le> 1024 then None else dl_blocks n ?s)"
    using le Suc.prems(1) by (simp add: dl_blocks_Suc send_def Let_def)
  show ?case
  proof (cases "n = 0 \<or> ?r \<le> 1024")
    case True
    then show ?thesis using e step by auto
  next
    case False
    have "\<forall>k. send_ok ?s k" using Suc.prems(1) by simp
    moreover have "0 < n" using False by simp
    ultimately show ?thesis using Suc.IH [OF _ step] e False
      by (auto simp: add.commute split: if_splits)
  qed
qed simp

subsection \<open>Whole downloads\<close>

lemma rec_code_RInq [simp]: "rec_code (RInq a b) = 0x5205" "length (RInq a b) = 8"
  by (simp_all add: rec_code_def RInq_def byte_def)

lemma RInq_eq: "RInq a b = RInq c d \<longleftrightarrow> a = c \<and> b = d"
  by (simp add: RInq_def)

definition download_mode :: "string \<Rightarrow> bool" where
  "download_mode r = (r \<in> {RInq (CHR 0x02) NUL, RInq NUL (CHR 0x02), RInq (CHR 0x03) NUL})"

lemma step_mode: "download_mode r \<Longrightarrow> dl_step r s = Some (Go (StartDownLoad s))"
  by (auto simp: download_mode_def dl_step_def RInq_eq)

lemma step_normal: "dl_step (RInq (CHR 0x01) NUL) s = Some (Go (SwitchMode s))"
  by (simp add: dl_step_def)

lemma step_ack: "is_ack r \<Longrightarrow> dl_step r s = ack_step s"
  by (simp add: is_ack_def dl_step_def)

lemma send_always: "\<forall>k. send_ok s k \<Longrightarrow> send m s = (True, s\<lparr>out := out s @ [m], sends := sends s + 1\<rparr>)"
  by (simp add: send_def)

lemma ack_start:
  assumes "State s = STARTDOWN" "open_ok s"
  shows "ack_step s = map_option Go (DownLoad (s\<lparr>State := DOWNLOAD, dl_rest := dl_file s\<rparr>))"
  using assms by (simp add: ack_step_def)

lemma DownLoad_keeps:
  assumes "DownLoad s = Some t"
  shows "State t = State s" "send_ok t = send_ok s" "dl_file t = dl_file s" "FileSize t = FileSize s"
    "open_ok t = open_ok s" "SentFlag t = SentFlag s"
  using dl_blocks_frame [OF assms [unfolded DownLoad_def]] by (simp_all add: dl_frame_def)

lemma DownLoad_step:
  assumes "\<forall>k. send_ok s k" "in_step s"
  shows "if length (dl_rest s) \<le> 65536 then DownLoad s = None
    else \<exists>t. DownLoad s = Some t \<and> in_step t \<and> dl_rest t = drop 65536 (dl_rest s)
      \<and> payload (out t) = payload (out s) @ take 65536 (dl_rest s) \<and> set (out s) \<subseteq> set (out t)"
proof (cases "length (dl_rest s) \<le> 65536")
  case True
  then show ?thesis using dl_blocks_in_step [OF assms, of 64] by (simp add: DownLoad_def)
next
  case False
  then obtain t where t: "DownLoad s = Some t" "in_step t" "dl_rest t = drop 65536 (dl_rest s)"
    using dl_blocks_in_step [OF assms, of 64] by (auto simp: DownLoad_def)
  obtain ds where ds: "out t = out s @ map Data ds" "dl_rest s = concat ds @ dl_rest t"
    using dl_blocks_sent [OF assms(1)] t(1) by (auto simp: DownLoad_def)
  have "take 65536 (dl_rest s) @ drop 65536 (dl_rest s) = concat ds @ drop 65536 (dl_rest s)"
    using ds(2) t(3) by simp
  then have "payload (out t) = payload (out s) @ take 65536 (dl_rest s)"
    using ds(1) by (simp del: append_take_drop_id)
  then show ?thesis using False t ds(1) by auto
qed

text \<open>The acknowledged rounds.\<close>

lemma ack_rounds:
  assumes "list_all is_ack acks" "State s = DOWNLOAD" "\<forall>k. send_ok s k" "in_step s" "\<not> SentFlag s"
  shows "if acks = [] \<or> 65536 * length acks < length (dl_rest s)
    then \<exists>t. dl_loop (acks @ rest) s = dl_loop rest t
      \<and> payload (out t) = payload (out s) @ take (65536 * length acks) (dl_rest s) \<and> set (out s) \<subseteq> set (out t)
    else dl_loop (acks @ rest) s = None"
  using assms
proof (induction acks arbitrary: s)
  case (Cons a acks)
  have a: "dl_step a s = map_option Go (DownLoad s)"
    using Cons.prems by (simp add: step_ack ack_step_def)
  note d = DownLoad_step [OF Cons.prems(3,4)]
  show ?case
  proof (cases "length (dl_rest s) \<le> 65536")
    case True
    then have "DownLoad s = None" using d by simp
    moreover have "\<not> 65536 * length (a # acks) < length (dl_rest s)" using True by simp
    ultimately show ?thesis using a by simp
  next
    case False
    then obtain u where u: "DownLoad s = Some u" "in_step u" "dl_rest u = drop 65536 (dl_rest s)"
        "payload (out u) = payload (out s) @ take 65536 (dl_rest s)" "set (out s) \<subseteq> set (out u)"
      using d by auto
    have "list_all is_ack acks" using Cons.prems(1) by simp
    moreover have "State u = DOWNLOAD" "\<forall>k. send_ok u k" "\<not> SentFlag u"
      using DownLoad_keeps [OF u(1)] Cons.prems by simp_all
    ultimately have ih: "if acks = [] \<or> 65536 * length acks < length (dl_rest u)
        then \<exists>t. dl_loop (acks @ rest) u = dl_loop rest t
          \<and> payload (out t) = payload (out u) @ take (65536 * length acks) (dl_rest u) \<and> set (out u) \<subseteq> set (out t)
        else dl_loop (acks @ rest) u = None"
      using Cons.IH u(2) by blast
    have l: "dl_loop ((a # acks) @ rest) s = dl_loop (acks @ rest) u" using a u(1) by simp
    have c: "(acks = [] \<or> 65536 * length acks < length (dl_rest u)) \<longleftrightarrow> 65536 * length (a # acks) < length (dl_rest s)"
      using u(3) False by (cases acks) auto
    have tk: "take (65536 * length (a # acks)) (dl_rest s) = take 65536 (dl_rest s) @ take (65536 * length acks) (dl_rest u)"
      using u(3) by (simp add: take_add)
    show ?thesis using ih u(4,5) unfolding l c tk by (auto split: if_splits)
  qed
qed auto

definition ready :: "dl \<Rightarrow> bool" where
  "ready s = (State s = IDLE \<and> position s = 0 \<and> out s = [] \<and> (\<forall>k. send_ok s k) \<and> open_ok s \<and> socket_ok s
     \<and> connect_ok s \<and> FileSize s = of_nat (length (dl_file s)) \<and> length (dl_file s) < 2 ^ 32)"

text \<open>
  C33. A download up to its last block. The file can be opened, every write to the socket and the
  second connection succeed, the file has the announced size, below \<open>2 ^ 32\<close>, and
  the board is in normal mode and acknowledges the change, or already in download mode, and then acknowledges: after the
  announcement and \<open>k > 0\<close> acknowledgements the board has been told the size of the file and
  sent its first \<open>k\<close> times 64K bytes and nothing else, when the file is longer than that. When
  it is not, the last block has been sent, and the program has written its report of it behind
  the 20 bytes of \<^verbatim>\<open>display_end_bytes\<close>: no download ends with a defined result.
\<close>

theorem download_until_last_block:
  assumes "ready s" "pre = [] \<or> pre = [RInq (CHR 0x01) NUL, a]" "is_ack a" "download_mode m" "list_all is_ack acks"
    "acks \<noteq> []"
  shows "if 65536 * length acks < length (dl_file s)
    then \<exists>s'. Dl_tcp (pre @ m # acks @ rest) s = dl_loop rest s'
      \<and> payload (out s') = take (65536 * length acks) (dl_file s) \<and> Cmd (start_cmd (FileSize s)) \<in> set (out s')
    else Dl_tcp (pre @ m # acks @ rest) s = None"
proof -
  note r = assms(1) [unfolded ready_def]
  define i :: "dl \<Rightarrow> bool" where "i s = (State s \<in> {IDLE, SWITCH} \<and> position s = 0 \<and> payload (out s) = [] \<and> (\<forall>k. send_ok s k) \<and> open_ok s
     \<and> FileSize s = of_nat (length (dl_file s)))" for s
  have "\<exists>s1. dl_loop (pre @ m # acks @ rest) (TestMode s) = dl_loop (m # acks @ rest) s1 \<and> i s1
      \<and> dl_file s1 = dl_file s \<and> FileSize s1 = FileSize s"
    using assms(2)
  proof
    assume "pre = []"
    then show ?thesis using r by (intro exI [of _ "TestMode s"]) (auto simp: i_def TestMode_def send_always)
  next
    assume pre: "pre = [RInq (CHR 0x01) NUL, a]"
    have "\<exists>s1. dl_step a (SwitchMode (TestMode s)) = Some (Go s1) \<and> i s1 \<and> dl_file s1 = dl_file s \<and> FileSize s1 = FileSize s"
      using r assms(3) by (auto simp: step_ack ack_step_def i_def SwitchMode_def TestMode_def send_always)
    then show ?thesis using pre step_normal [of "TestMode s"] by auto
  qed
  then obtain s1 where s1: "Dl_tcp (pre @ m # acks @ rest) s = dl_loop (m # acks @ rest) s1" "i s1"
      "dl_file s1 = dl_file s" "FileSize s1 = FileSize s"
    by (auto simp: Dl_tcp_def)
  obtain b bs where acks: "acks = b # bs" using assms(6) by (cases acks) auto
  let ?s2 = "StartDownLoad s1"
  have s2: "State ?s2 = STARTDOWN" "open_ok ?s2" "dl_file ?s2 = dl_file s" "payload (out ?s2) = []"
      "\<forall>k. send_ok ?s2 k" "\<not> SentFlag ?s2" "position ?s2 = 0" "FileSize ?s2 = FileSize s"
      "Cmd (start_cmd (FileSize s)) \<in> set (out ?s2)"
    using s1(2,3,4) by (simp_all add: i_def StartDownLoad_def send_always)
  let ?s3 = "?s2\<lparr>State := DOWNLOAD, dl_rest := dl_file ?s2\<rparr>"
  have s3: "State ?s3 = DOWNLOAD" "\<forall>k. send_ok ?s3 k" "in_step ?s3" "\<not> SentFlag ?s3"
    using s2 r by (simp_all add: in_step_def)
  have "ack_step ?s2 = ack_step ?s3"
    using ack_start [OF s2(1,2)] s3(1,4) by (simp add: ack_step_def)
  then have run: "Dl_tcp (pre @ m # acks @ rest) s = dl_loop (acks @ rest) ?s3"
    using s1(1) step_mode [OF assms(4), of s1] assms(5) acks by (simp add: step_ack)
  have o: "payload (out ?s3) = []" "dl_rest ?s3 = dl_file s" "Cmd (start_cmd (FileSize s)) \<in> set (out ?s3)"
    using s2(3,4,9) by simp_all
  note k = ack_rounds [OF assms(5) s3, of rest, unfolded o(1,2)]
  show ?thesis unfolding run using k assms(6) o(3) by (auto split: if_splits)
qed

subsection \<open>Any board\<close>

text \<open>The states at the head of the loop, whatever the board answers.\<close>

inductive dl_reach :: "dl \<Rightarrow> dl \<Rightarrow> bool" for s0 where
  begin_loop: "dl_reach s0 (TestMode s0)"
| round: "dl_reach s0 s \<Longrightarrow> dl_step r s = Some (Go s') \<Longrightarrow> dl_reach s0 s'"

lemma dl_step_cases:
  assumes "dl_step r s = Some (Go s')"
  obtains "State s = SWITCH" "s' = TestMode (s\<lparr>out := out s @ [Reconnect]\<rparr>)"
  | "State s = STARTDOWN" "DownLoad (s\<lparr>State := DOWNLOAD, dl_rest := dl_file s\<rparr>) = Some s'"
  | "State s = DOWNLOAD" "DownLoad s = Some s'"
  | "s' = SwitchMode s" | "s' = StartDownLoad s"
  using assms
  by (auto simp: dl_step_def ack_step_def Let_def split: if_splits dl_state.splits)

definition told :: "dl \<Rightarrow> dl \<Rightarrow> bool" where
  "told s0 s = (dl_file s = dl_file s0 \<and> FileSize s = FileSize s0 \<and> (\<forall>k. send_ok s k) \<and> announced (out s)
     \<and> (State s \<in> {STARTDOWN, DOWNLOAD} \<longrightarrow> (\<exists>x \<in> set (out s). is_start x))
     \<and> (\<forall>c. Cmd c \<in> set (out s) \<and> is_start (Cmd c) \<longrightarrow> c = start_cmd (FileSize s0))
     \<and> (State s = STARTDOWN \<longrightarrow> payload (since_start (out s)) = [])
     \<and> (State s = DOWNLOAD \<longrightarrow> dl_file s0 = payload (since_start (out s)) @ dl_rest s)
     \<and> prefix (payload (since_start (out s))) (dl_file s0))"

lemma told_DownLoad:
  assumes "told s0 s" "State s = DOWNLOAD" "DownLoad s = Some t"
  shows "told s0 t"
proof -
  have ok: "\<forall>k. send_ok s k" using assms by (simp add: told_def)
  from dl_blocks_sent [OF ok] assms(3) obtain ds where ds:
    "out t = out s @ map Data ds" "dl_rest s = concat ds @ dl_rest t"
    by (auto simp: DownLoad_def)
  have e: "dl_file s0 = payload (since_start (out t)) @ dl_rest t"
    using assms(1,2) ds by (simp add: told_def since_start_Data)
  then have "prefix (payload (since_start (out t))) (dl_file s0)" by (rule prefixI)
  moreover have "announced (out t)" using assms(1,2) ds(1) by (simp add: told_def announced_Data)
  moreover have "Cmd c \<in> set (out t) \<longleftrightarrow> Cmd c \<in> set (out s)" for c using ds(1) by auto
  moreover have "\<exists>x \<in> set (out t). is_start x" using assms(1,2) ds(1) by (auto simp: told_def)
  ultimately show ?thesis using assms(1,2) DownLoad_keeps [OF assms(3)] e [symmetric] by (simp add: told_def)
qed

lemma told_step:
  assumes "told s0 s" "dl_step r s = Some (Go s')"
  shows "told s0 s'"
proof -
  have quiet: "told s0 (snd (send m u))"
    if "told s0 u" "wire_data m = []" "\<not> is_start m" for u m
    using that by (auto simp: told_def send_def since_start_snoc announced_snoc)
  from assms(2) show ?thesis
  proof (cases rule: dl_step_cases)
    case 1
    have "told s0 (s\<lparr>out := out s @ [Reconnect]\<rparr>)"
      using assms(1) by (auto simp: told_def since_start_snoc announced_snoc)
    then show ?thesis using 1 by (simp add: TestMode_def quiet)
  next
    case 2
    have "told s0 (s\<lparr>State := DOWNLOAD, dl_rest := dl_file s\<rparr>)" using assms(1) 2 by (simp add: told_def)
    then show ?thesis using 2(2) told_DownLoad by simp
  next
    case 3
    then show ?thesis using assms(1) told_DownLoad by simp
  next
    case 4
    have "told s0 (s\<lparr>State := SWITCH\<rparr>)" using assms(1) by (simp add: told_def)
    then show ?thesis using 4 by (simp add: SwitchMode_def quiet)
  next
    case 5
    let ?m = "Cmd (start_cmd (FileSize s))"
    have s': "s' = s\<lparr>State := STARTDOWN, SentFlag := False, out := out s @ [?m], sends := sends s + 1\<rparr>"
      using 5 assms(1) by (simp add: StartDownLoad_def told_def send_always)
    have "announced (out s @ [?m])" using assms(1) by (simp add: told_def announced_snoc)
    moreover have "is_start ?m" by simp
    ultimately show ?thesis
      using assms(1) unfolding s' told_def by (auto simp: since_start_snoc simp del: is_start_simps)
  qed
qed

text \<open>
  C34. No data without its announcement: whatever the board answers, whenever the program comes
  back to the head of its loop (which it does until it reports the last block, see the property
  before), the data sent since the last announcement is a beginning of the file, every
  announcement names the size of the file, and before the first one there is no data. It needs
  that no write to the socket fails.
\<close>

theorem only_announced_data:
  assumes "dl_reach s0 s" "State s0 = IDLE" "out s0 = []" "\<forall>k. send_ok s0 k"
  shows "prefix (payload (since_start (out s))) (dl_file s0) \<and> announced (out s)
    \<and> (\<forall>c. Cmd c \<in> set (out s) \<and> is_start (Cmd c) \<longrightarrow> c = start_cmd (FileSize s0))"
proof -
  have "told s0 s" using assms(1)
  proof (induction rule: dl_reach.induct)
    case begin_loop
    show ?case using assms(2,3,4)
      by (auto simp: told_def TestMode_def send_always announced_def since_start_def)
  next
    case (round s r s')
    then show ?case using told_step by blast
  qed
  then show ?thesis by (simp add: told_def)
qed

subsection \<open>Where it goes wrong\<close>

text \<open>
  The last block is reported in an array that is too small: a call of \<^verbatim>\<open>DownLoad\<close> that
  comes to the end of the file has no defined result, because its text has at least 24 bytes and
  a terminator, which \<^verbatim>\<open>display_end_bytes\<close> does not hold.
\<close>

theorem end_bytes_overrun:
  assumes "\<forall>k. send_ok s k" "in_step s" "length (dl_rest s) \<le> 65536"
  shows "DownLoad s = None \<and> 20 + 5 \<le> length (end_text inc n) + 1"
  using assms DownLoad_step [OF assms(1,2)] end_text_long [of inc n] by simp

text \<open>
  A download that starts again does not send the file: the count of the sent bytes is a
  static variable that is never reset. When the board, after the first 64K of a file with at
  most one more block, reports download mode once more, the first block of the file is taken for
  the last one.
\<close>

theorem second_start_sends_1K:
  assumes "ready s" "65536 < length (dl_file s)" "length (dl_file s) \<le> 66560" "download_mode m" "is_ack a"
  shows "(\<exists>s'. Dl_tcp (m # a # rest) s = dl_loop rest s') \<and> Dl_tcp (m # a # m # a # rest) s = None"
proof -
  note r = assms(1) [unfolded ready_def]
  let ?L = "length (dl_file s)"
  let ?s1 = "StartDownLoad (TestMode s)"
  have s1: "State ?s1 = STARTDOWN" "open_ok ?s1" "dl_file ?s1 = dl_file s" "\<forall>k. send_ok ?s1 k"
      "position ?s1 = 0" "FileSize ?s1 = FileSize s" "\<not> SentFlag ?s1"
    using r by (auto simp: StartDownLoad_def TestMode_def send_always)
  let ?s2 = "?s1\<lparr>State := DOWNLOAD, dl_rest := dl_file ?s1\<rparr>"
  have ok2: "\<forall>k. send_ok ?s2 k" "in_step ?s2" using s1 r by (auto simp: in_step_def)
  obtain s3 where d: "DownLoad ?s2 = Some s3" "in_step s3" "dl_rest s3 = drop 65536 (dl_file s)"
    using DownLoad_step [OF ok2] s1(3) assms(2) by auto
  note k = DownLoad_keeps [OF d(1)]
  have pos3: "position s3 = 65536"
  proof -
    have "length (dl_file s3) - length (dl_rest s3) = 65536" using d(3) s1(3) assms(2) k(3) by simp
    then show ?thesis using d(2) by (simp add: in_step_def)
  qed
  let ?s4 = "StartDownLoad s3"
  have s4: "State ?s4 = STARTDOWN" "open_ok ?s4" "dl_file ?s4 = dl_file s" "\<forall>k. send_ok ?s4 k"
      "position ?s4 = 65536" "FileSize ?s4 = FileSize s"
    using s1 k pos3 by (simp_all add: StartDownLoad_def send_always)
  let ?s5 = "?s4\<lparr>State := DOWNLOAD, dl_rest := dl_file ?s4\<rparr>"
  have b: "length (take 1024 (dl_rest ?s5)) = 1024" using assms(2) s4(3) by simp
  have "FileSize s \<le> 66560"
    using r assms(3) by (simp add: word_le_nat_alt unat_small)
  then have none: "DownLoad ?s5 = None"
    unfolding DownLoad_def using dl_blocks_Suc [of 63 ?s5] s4 b by (simp add: send_def Let_def)
  have "Dl_tcp (m # a # rs) s = dl_loop rs s3" for rs
    using ack_start [OF s1(1,2)] d(1) by (simp add: Dl_tcp_def step_mode [OF assms(4)] step_ack [OF assms(5)])
  moreover have "dl_loop (m # a # rest) s3 = None"
    using ack_start [OF s4(1,2)] none by (simp add: step_mode [OF assms(4)] step_ack [OF assms(5)])
  ultimately show ?thesis by auto
qed

definition board_link :: "cstring \<Rightarrow> dl" where
  "board_link f = \<lparr>State = IDLE, FileSize = of_nat (length f), SentFlag = False, position = 0, dl_file = f,
     dl_rest = [], end_bytes = [], out = [], sends = 0, send_ok = (\<lambda>_. True), open_ok = True, socket_ok = True,
     connect_ok = True\<rparr>"

definition ack :: string where
  "ack = [CHR 0x52, CHR 0x03, NUL, NUL, NUL, NUL, NUL, NUL]"

lemma is_ack_ack [simp]: "is_ack ack"
  by (simp add: is_ack_def ack_def rec_code_def byte_def)

lemma ready_link: "length f < 2 ^ 32 \<Longrightarrow> ready (board_link f)"
  by (simp add: ready_def board_link_def)

lemma download_mode_2: "download_mode (RInq (CHR 0x02) NUL)"
  by (simp add: download_mode_def)


theorem download_until_last_block_witness:
  "(\<exists>s'. Dl_tcp ([RInq (CHR 0x01) NUL, ack, RInq (CHR 0x02) NUL] @ replicate 2 ack) (board_link (replicate 131073 CHR ''x''))
       = dl_loop [] s' \<and> payload (out s') = replicate 131072 CHR ''x'')
   \<and> Dl_tcp ([RInq (CHR 0x02) NUL] @ replicate 3 ack) (board_link (replicate 131073 CHR ''x'')) = None"
proof -
  let ?s = "board_link (replicate 131073 CHR ''x'')"
  have f: "dl_file ?s = replicate 131073 CHR ''x''" by (simp add: board_link_def)
  show ?thesis
    using download_until_last_block [of ?s "[RInq (CHR 0x01) NUL, ack]" ack "RInq (CHR 0x02) NUL" "replicate 2 ack" "[]"]
      download_until_last_block [of ?s "[]" ack "RInq (CHR 0x02) NUL" "replicate 3 ack" "[]"]
    by (auto simp: list_all_iff ready_link download_mode_2 f min_def)
qed

theorem second_start_sends_1K_witness:
  "Dl_tcp [RInq (CHR 0x02) NUL, ack, RInq (CHR 0x02) NUL, ack] (board_link (replicate 66000 CHR ''x'')) = None"
proof -
  let ?s = "board_link (replicate 66000 CHR ''x'')"
  have f: "dl_file ?s = replicate 66000 CHR ''x''" by (simp add: board_link_def)
  show ?thesis
    using second_start_sends_1K [of ?s "RInq (CHR 0x02) NUL" ack "[]"] by (simp add: ready_link download_mode_2 f)
qed

theorem end_bytes_overrun_witness: "DownLoad (board_link []) = None"
  using end_bytes_overrun [of "board_link []"] by (simp add: board_link_def in_step_def)

theorem only_announced_data_witness:
  "prefix (payload (since_start (out (StartDownLoad (TestMode (board_link ''abc'')))))) ''abc''"
proof -
  have "dl_reach (board_link ''abc'') (StartDownLoad (TestMode (board_link ''abc'')))"
    using dl_reach.round [OF dl_reach.begin_loop step_mode [OF download_mode_2]] .
  from only_announced_data [OF this] show ?thesis by (simp add: board_link_def)
qed

end
