(* ===== verification/Flashcfg.thy ===== *)
theory Flashcfg
  imports Libc
begin

text \<open>
  \<^verbatim>\<open>usr.sbin/flashcfg/obs266/flashcfg.c\<close>: writes boot images, saved files and the
  boot device of an OpenBlockS 266.

  What the program does to a flash device is the list of its operations, of which those before
  the first that fails are done. A regular file is read in full blocks up to its end. The
  processor is big-endian. \<^verbatim>\<open>tar\<close> is a parameter: \<open>tar_out\<close> is the archive it leaves
  for a list of files. Of the messages the model keeps those that report success.
\<close>

unbundle bit_operations_syntax

definition SECT1_SIZE :: nat where "SECT1_SIZE = 8 * 1024"

definition SECT2_SIZE :: nat where "SECT2_SIZE = 64 * 1024"

definition FLASH_SIZE :: nat where "FLASH_SIZE = 8 * (1024 * 1024)"

definition MAGIC :: string where
  "MAGIC = [CHR 0x00, CHR 0x52, CHR 0x50, CHR 0x4F]"

definition NVRAM_BOOT_OFF :: nat where "NVRAM_BOOT_OFF = 256"

datatype dev_op = Erase nat nat | Write string

record fl_env =
  uid :: int
  fl_files :: "cstring \<Rightarrow> string option"
  dev_open :: "cstring \<Rightarrow> bool"
  dev_ok :: "nat \<Rightarrow> bool"
  mem_ok :: bool
  tmp_ok :: bool
  tar_out :: "cstring \<Rightarrow> string"
  nv_ok :: bool

text \<open>The operations on the two parts of the flash, the NVRAM, the commands that ran, whether a
  temporary file is left, and the reports.\<close>

record fl =
  mtd0 :: "dev_op list"
  mtd1 :: "dev_op list"
  nvram :: string
  ran :: "cstring list"
  tmp_left :: bool
  said :: "cstring list"

subsection \<open>Writing sectors\<close>

text \<open>The loop of both writers: read a sector, erase its place, write it.\<close>

function write_loop :: "(nat \<Rightarrow> bool) \<Rightarrow> nat \<Rightarrow> string \<Rightarrow> nat \<Rightarrow> dev_op list \<Rightarrow> dev_op list \<times> bool" where
  "write_loop ok sect rest start ops =
     (let membase = take sect rest in
      if membase = [] then (ops, True)
      else if \<not> ok (length ops) then (ops, False)
      else let ops = ops @ [Erase start sect] in
      if \<not> ok (length ops) then (ops, False)
      else write_loop ok sect (drop sect rest) (start + length membase) (ops @ [Write membase]))"
  by pat_completeness auto
termination
  by (relation "measure (\<lambda>(ok, sect, rest, start, ops). length rest)") auto

declare write_loop.simps [simp del]

definition flash_prog_kern :: "fl_env \<Rightarrow> cstring \<Rightarrow> fl \<Rightarrow> fl" where
  "flash_prog_kern e kern s =
     (case fl_files e kern of
        None \<Rightarrow> s
      | Some img \<Rightarrow>
          if length img > FLASH_SIZE - 8 * SECT1_SIZE - 256 * 1024 then s
          else if \<not> mem_ok e then s
          else if length (take SECT2_SIZE img) < SECT2_SIZE then s
          else if take 4 img \<noteq> MAGIC then s
          else if \<not> dev_open e ''/dev/mtd/1'' then s
          else s\<lparr>mtd1 := fst (write_loop (dev_ok e) SECT2_SIZE img 0 [])\<rparr>)"

definition flash_save_param :: "fl_env \<Rightarrow> cstring \<Rightarrow> fl \<Rightarrow> fl" where
  "flash_save_param e list s =
     (if \<not> tmp_ok e then s
      else let s = s\<lparr>tmp_left := True, ran := ran s @ [''tar cvpTzf '' @ list]\<rparr>; a = tar_out e list in
        if length a > 8 * SECT1_SIZE then s
        else if \<not> mem_ok e then s
        else if \<not> dev_open e ''/dev/mtd/0'' then s
        else case write_loop (dev_ok e) SECT1_SIZE a 0 [] of
               (ops, done) \<Rightarrow> s\<lparr>mtd0 := ops, tmp_left := \<not> done\<rparr>)"

definition flash_extract_param :: "fl \<Rightarrow> fl" where
  "flash_extract_param s = s\<lparr>ran := ran s @ [''tar --no-time-check -xvpzf /dev/mtd/0 -C /'']\<rparr>"

text \<open>\<open>n\<close> sectors are left; the loop stops at the first that cannot be erased.\<close>

fun erase_loop :: "(nat \<Rightarrow> bool) \<Rightarrow> nat \<Rightarrow> nat \<Rightarrow> dev_op list \<Rightarrow> dev_op list" where
  "erase_loop ok 0 start ops = ops"
| "erase_loop ok (Suc n) start ops =
     (if \<not> ok (length ops) then ops
      else erase_loop ok n (start + SECT1_SIZE) (ops @ [Erase start SECT1_SIZE]))"

definition flash_delete_param :: "fl_env \<Rightarrow> fl \<Rightarrow> fl" where
  "flash_delete_param e s =
     (if \<not> dev_open e ''/dev/mtd/0'' then s else s\<lparr>mtd0 := erase_loop (dev_ok e) 8 0 []\<rparr>)"

subsection \<open>The boot device\<close>

text \<open>
  The 16 bytes at \<^verbatim>\<open>NVRAM_BOOT_OFF\<close>: two bytes of magic and \<^verbatim>\<open>boot_dev\<close> of 14
  bytes, which \<^verbatim>\<open>strcpy\<close> fills up to the terminator.
\<close>

definition flash_set_bootdev :: "fl_env \<Rightarrow> cstring \<Rightarrow> fl \<Rightarrow> fl option" where
  "flash_set_bootdev e arg s =
     (if \<not> dev_open e ''/dev/nvram0'' then Some s
      else let boot = take 16 (drop NVRAM_BOOT_OFF (nvram s)) in
        if length boot \<noteq> 16 then Some s
        else if length arg + 1 > 14 then None
        else let boot = ''NV'' @ arg @ NUL # drop (2 + length arg + 1) boot in
          Some (if nv_ok e
                then s\<lparr>nvram := take NVRAM_BOOT_OFF (nvram s) @ boot @ drop (NVRAM_BOOT_OFF + 16) (nvram s)\<rparr>
                else s))"

definition boot_dev :: "cstring \<Rightarrow> cstring option" where
  "boot_dev optarg =
     (if optarg = ''harddisk'' then Some ([CHR 0x01, CHR 0x07] @ ''hda1'')
      else if optarg = ''initrd'' then Some ([CHR 0x02, CHR 0x07] @ ''ram'')
      else if optarg = ''hda1'' then Some ([CHR 0x01, CHR 0x07] @ ''hda1'')
      else if optarg = ''hda2'' then Some ([CHR 0x01, CHR 0x07] @ ''hda2'')
      else if optarg = ''hda3'' then Some ([CHR 0x01, CHR 0x07] @ ''hda3'')
      else if optarg = ''hda4'' then Some ([CHR 0x01, CHR 0x07] @ ''hda4'')
      else None)"

subsection \<open>The program\<close>

text \<open>
  \<^verbatim>\<open>getopt\<close> of glibc with \<^verbatim>\<open>"c:f:s:xdh"\<close>, as far as \<^verbatim>\<open>main\<close> uses it: the first
  option among the arguments with its value; \<open>?\<close> when it is unknown or lacks its value.
\<close>

fun getopt1 :: "cstring list \<Rightarrow> (char \<times> cstring) option" where
  "getopt1 [] = None"
| "getopt1 (a # rest) =
     (if a = ''--'' then None
      else if deref a \<noteq> CHR ''-'' \<or> a = ''-'' then getopt1 rest
      else let c = deref (drop 1 a) in
        if c \<in> {CHR ''c'', CHR ''f'', CHR ''s''}
        then (if drop 2 a \<noteq> [] then Some (c, drop 2 a)
              else case rest of [] \<Rightarrow> Some (CHR ''?'', []) | v # _ \<Rightarrow> Some (c, v))
        else Some (if c \<in> {CHR ''x'', CHR ''d'', CHR ''h''} then c else CHR ''?'', []))"

definition flashcfg_main :: "fl_env \<Rightarrow> cstring list \<Rightarrow> fl \<Rightarrow> (int \<times> fl) option" where
  "flashcfg_main e args s =
     (let report = (\<lambda>m s. (0, s\<lparr>said := said s @ [m]\<rparr>)) in
      if uid e \<noteq> 0 then Some (0, s)
      else case getopt1 args of
        None \<Rightarrow> Some (0, s)
      | Some (c, optarg) \<Rightarrow>
          if c = CHR ''c'' then
            (case boot_dev optarg of
               None \<Rightarrow> Some (1, s)
             | Some dev \<Rightarrow> map_option (report (''Boot device change to '' @ optarg)) (flash_set_bootdev e dev s))
          else if c = CHR ''f'' then Some (report ''done'' (flash_prog_kern e optarg s))
          else if c = CHR ''s'' then Some (report ''done'' (flash_save_param e optarg s))
          else if c = CHR ''x'' then Some (0, flash_extract_param s)
          else if c = CHR ''d'' then Some (report ''done'' (flash_delete_param e s))
          else Some (0, s))"

subsection \<open>What the operations leave on a flash\<close>

text \<open>
  A NOR flash as its data sheets and the MTD interface describe it: erasing sets all bits of a
  range, writing goes on at the file offset and can only clear bits.
\<close>

type_synonym flash = "nat \<Rightarrow> char"

definition clear_bits :: "char \<Rightarrow> char \<Rightarrow> char" where
  "clear_bits old new = char_of (byte old AND byte new)"

fun dev_run :: "dev_op list \<Rightarrow> nat \<times> flash \<Rightarrow> nat \<times> flash" where
  "dev_run [] d = d"
| "dev_run (Erase start n # ops) (pos, m) =
     dev_run ops (pos, (\<lambda>i. if start \<le> i \<and> i < start + n then CHR 0xFF else m i))"
| "dev_run (Write d # ops) (pos, m) =
     dev_run ops (pos + length d,
       (\<lambda>i. if pos \<le> i \<and> i < pos + length d then clear_bits (m i) (d ! (i - pos)) else m i))"

definition content :: "dev_op list \<Rightarrow> flash \<Rightarrow> flash" where
  "content ops m = snd (dev_run ops (0, m))"

lemma dev_run_append: "dev_run (xs @ ys) d = dev_run ys (dev_run xs d)"
  by (induction xs d rule: dev_run.induct) simp_all

lemma clear_erased [simp]: "clear_bits (CHR 0xFF) c = c"
proof -
  have "byte (CHR 0xFF) AND byte c = byte c AND mask 8"
    by (simp add: byte_def mask_numeral and.commute)
  also have "\<dots> = byte c"
    by (simp add: take_bit_nat_eq_self flip: take_bit_eq_mask)
  finally show ?thesis by (simp add: clear_bits_def byte_def)
qed

text \<open>The image at the start, the rest of its last sector erased, all else as before.\<close>

definition rounded :: "nat \<Rightarrow> nat \<Rightarrow> nat" where
  "rounded sect n = sect * ((n + (sect - 1)) div sect)"

definition programmed :: "nat \<Rightarrow> nat \<Rightarrow> string \<Rightarrow> flash \<Rightarrow> flash" where
  "programmed sect start d m =
     (\<lambda>i. if i < start then m i else if i < start + length d then d ! (i - start)
          else if i < start + rounded sect (length d) then CHR 0xFF else m i)"

lemma rounded_simps:
  "0 < sect \<Longrightarrow> rounded sect 0 = 0"
  "0 < n \<Longrightarrow> n \<le> sect \<Longrightarrow> rounded sect n = sect"
  "0 < sect \<Longrightarrow> sect < n \<Longrightarrow> rounded sect n = sect + rounded sect (n - sect)"
proof -
  show "0 < sect \<Longrightarrow> rounded sect 0 = 0" by (simp add: rounded_def)
  show "rounded sect n = sect" if "0 < n" "n \<le> sect"
  proof -
    have "(n + (sect - 1)) div sect = 1" using that by (intro div_nat_eqI) auto
    then show ?thesis by (simp add: rounded_def)
  qed
  assume a: "0 < sect" "sect < n"
  show "rounded sect n = sect + rounded sect (n - sect)"
  proof -
    have "n + (sect - 1) = (n - sect + (sect - 1)) + sect" using a by simp
    then have "(n + (sect - 1)) div sect = (n - sect + (sect - 1) + sect) div sect" by (rule arg_cong)
    also have "\<dots> = (n - sect + (sect - 1)) div sect + 1" by (rule div_add_self2) (use a in simp)
    finally have "(n + (sect - 1)) div sect = (n - sect + (sect - 1)) div sect + 1" .
    then show ?thesis unfolding rounded_def by (simp only: distrib_left mult_1_right add.commute)
  qed
qed

lemma write_loop_done:
  assumes "\<forall>k. ok k" "0 < sect" "dev_run ops (0, m0) = (start, m)"
  shows "\<exists>ops'. write_loop ok sect rest start ops = (ops', True)
    \<and> dev_run ops' (0, m0) = (start + length rest, programmed sect start rest m)"
  using assms
proof (induction ok sect rest start ops arbitrary: m rule: write_loop.induct)
  case (1 ok sect rest start ops)
  show ?case
  proof (cases "rest = []")
    case True
    then show ?thesis using 1(2,3,4)
      by (subst write_loop.simps) (auto simp: programmed_def rounded_simps fun_eq_iff)
  next
    case False
    let ?b = "take sect rest"
    let ?ops = "ops @ [Erase start sect, Write ?b]"
    let ?m = "\<lambda>i. if start \<le> i \<and> i < start + length ?b then rest ! (i - start)
        else if start \<le> i \<and> i < start + sect then CHR 0xFF else m i"
    have run: "dev_run ?ops (0, m0) = (start + length ?b, ?m)"
      using 1(4) by (auto simp: dev_run_append fun_eq_iff)
    have ok: "\<not> \<not> ok n" for n using 1(2) by simp
    have ne: "?b \<noteq> []" using False 1(3) by simp
    have "write_loop ok sect rest start ops = write_loop ok sect (drop sect rest) (start + length ?b) ?ops"
      using ne 1(2) by (subst write_loop.simps) (simp add: Let_def)
    moreover obtain ops' where "write_loop ok sect (drop sect rest) (start + length ?b) ?ops = (ops', True)"
      "dev_run ops' (0, m0) = (start + length ?b + length (drop sect rest),
         programmed sect (start + length ?b) (drop sect rest) ?m)"
      using 1(1) [OF refl ne ok refl ok 1(2,3)] run by (simp only: append_assoc append_Cons append_Nil) blast
    moreover have "programmed sect (start + length ?b) (drop sect rest) ?m = programmed sect start rest m"
    proof (cases "length rest \<le> sect")
      case True
      then show ?thesis using False 1(3) by (auto simp: programmed_def rounded_simps fun_eq_iff)
    next
      case False
      then have b: "length ?b = sect" "length (drop sect rest) = length rest - sect" by simp_all
      show ?thesis
      proof
        fix i
        consider "i < start" | "start \<le> i" "i < start + sect" | j where "i = start + sect + j"
          by (metis le_Suc_ex not_le)
        then show "programmed sect (start + length ?b) (drop sect rest) ?m i = programmed sect start rest m i"
          unfolding programmed_def b
          using False by cases (simp_all add: rounded_simps(3) [OF 1(3)])
      qed
    qed
    ultimately show ?thesis by auto
  qed
qed

subsection \<open>Images, saved files, the boot device\<close>

lemma content_written:
  "\<forall>k. ok k \<Longrightarrow> 0 < sect \<Longrightarrow>
   \<exists>ops. write_loop ok sect d 0 [] = (ops, True) \<and> content ops m = programmed sect 0 d m"
  using write_loop_done [of ok sect "[]" m 0 m d] by (auto simp: content_def)

text \<open>
  C35. A boot image is programmed: with a device that does not fail, an image that is large
  enough, has its magic and fits is afterwards what the flash starts with, whatever was there
  before; the rest of the last sector is erased and nothing behind it changes, in particular
  not the last 256K and the area of saved files.
\<close>

theorem kernel_programmed:
  assumes "fl_files e kern = Some img" "take 4 img = MAGIC" "SECT2_SIZE \<le> length img"
    "length img \<le> FLASH_SIZE - 8 * SECT1_SIZE - 256 * 1024" "mem_ok e" "dev_open e ''/dev/mtd/1''" "\<forall>k. dev_ok e k"
  shows "content (mtd1 (flash_prog_kern e kern s)) m = programmed SECT2_SIZE 0 img m
    \<and> (\<forall>i \<ge> FLASH_SIZE - 8 * SECT1_SIZE - 256 * 1024. content (mtd1 (flash_prog_kern e kern s)) m i = m i)
    \<and> mtd0 (flash_prog_kern e kern s) = mtd0 s"
proof -
  have s: "0 < SECT2_SIZE" by (simp add: SECT2_SIZE_def)
  obtain ops where ops: "write_loop (dev_ok e) SECT2_SIZE img 0 [] = (ops, True)"
    "content ops m = programmed SECT2_SIZE 0 img m"
    using content_written [OF assms(7) s] by blast
  have run: "flash_prog_kern e kern s = s\<lparr>mtd1 := ops\<rparr>"
    using assms ops(1) by (simp add: flash_prog_kern_def)
  have "rounded SECT2_SIZE (length img) \<le> FLASH_SIZE - 8 * SECT1_SIZE - 256 * 1024"
  proof -
    have "(length img + 65535) div 65536 \<le> 123"
      using assms(4) by (intro less_Suc_eq_le [THEN iffD1] less_mult_imp_div_less)
        (simp add: FLASH_SIZE_def SECT1_SIZE_def)
    then show ?thesis by (simp add: rounded_def SECT2_SIZE_def FLASH_SIZE_def SECT1_SIZE_def)
  qed
  then show ?thesis using run ops(2) assms(4) by (auto simp: programmed_def)
qed

text \<open>
  Saved files: an archive of at most 64K replaces the start of the area, the sectors behind
  it keep what they held, so an older and longer archive is cut, not removed; a larger one
  changes nothing on the flash, but its temporary file stays.
\<close>

theorem save_param_programs:
  assumes "tmp_ok e" "mem_ok e" "dev_open e ''/dev/mtd/0''" "\<forall>k. dev_ok e k"
  shows "if length (tar_out e list) \<le> 64 * 1024
    then content (mtd0 (flash_save_param e list s)) m = programmed SECT1_SIZE 0 (tar_out e list) m
      \<and> (\<forall>i \<ge> 64 * 1024. content (mtd0 (flash_save_param e list s)) m i = m i) \<and> \<not> tmp_left (flash_save_param e list s)
    else mtd0 (flash_save_param e list s) = mtd0 s \<and> tmp_left (flash_save_param e list s)"
proof -
  let ?a = "tar_out e list"
  have s: "0 < SECT1_SIZE" by (simp add: SECT1_SIZE_def)
  obtain ops where ops: "write_loop (dev_ok e) SECT1_SIZE ?a 0 [] = (ops, True)"
    "content ops m = programmed SECT1_SIZE 0 ?a m"
    using content_written [OF assms(4) s] by blast
  show ?thesis
  proof (cases "length ?a \<le> 64 * 1024")
    case True
    have "(length ?a + 8191) div 8192 \<le> 8"
      using True by (intro less_Suc_eq_le [THEN iffD1] less_mult_imp_div_less) simp
    then have "rounded SECT1_SIZE (length ?a) \<le> 64 * 1024" by (simp add: rounded_def SECT1_SIZE_def)
    then show ?thesis using True assms ops by (auto simp: flash_save_param_def SECT1_SIZE_def programmed_def)
  next
    case False
    then show ?thesis using assms by (simp add: flash_save_param_def SECT1_SIZE_def Let_def)
  qed
qed

lemma erase_loop_run:
  assumes "\<forall>k. ok k" "dev_run ops (0, m0) = (0, \<lambda>i. if i < start then CHR 0xFF else m0 i)"
  shows "dev_run (erase_loop ok n start ops) (0, m0) =
    (0, \<lambda>i. if i < start + n * SECT1_SIZE then CHR 0xFF else m0 i)"
  using assms
proof (induction n arbitrary: start ops)
  case (Suc n)
  have "dev_run (ops @ [Erase start SECT1_SIZE]) (0, m0) =
      (0, \<lambda>i. if i < start + SECT1_SIZE then CHR 0xFF else m0 i)"
    using Suc.prems(2) by (auto simp: dev_run_append fun_eq_iff)
  from Suc.IH [OF Suc.prems(1) this] Suc.prems(1) show ?case by (simp add: algebra_simps)
qed simp

text \<open>
  Deleting before saving leaves the archive alone: after \<^verbatim>\<open>-d\<close> and \<^verbatim>\<open>-s\<close> the area
  holds the archive and erased bytes, nothing of what was saved before, and the rest of the
  flash is as it was.
\<close>

theorem delete_then_save:
  assumes "tmp_ok e" "mem_ok e" "dev_open e ''/dev/mtd/0''" "\<forall>k. dev_ok e k" "length (tar_out e list) \<le> 64 * 1024"
  shows "content (mtd0 (flash_save_param e list s)) (content (mtd0 (flash_delete_param e s)) m) =
    (\<lambda>i. if i < length (tar_out e list) then tar_out e list ! i else if i < 64 * 1024 then CHR 0xFF else m i)"
proof -
  let ?a = "tar_out e list"
  have del: "content (mtd0 (flash_delete_param e s)) m = (\<lambda>i. if i < 64 * 1024 then CHR 0xFF else m i)"
    using erase_loop_run [OF assms(4), of "[]" m 0 8] assms(3)
    by (simp add: flash_delete_param_def content_def SECT1_SIZE_def)
  have s: "0 < SECT1_SIZE" by (simp add: SECT1_SIZE_def)
  have sv: "content (mtd0 (flash_save_param e list s)) m' = programmed SECT1_SIZE 0 ?a m'" for m'
  proof -
    obtain ops where "write_loop (dev_ok e) SECT1_SIZE ?a 0 [] = (ops, True)"
      "content ops m' = programmed SECT1_SIZE 0 ?a m'"
      using content_written [OF assms(4) s] by blast
    then show ?thesis using assms(1,2,3,5) by (simp add: flash_save_param_def SECT1_SIZE_def)
  qed
  have "(length ?a + 8191) div 8192 \<le> 8"
    using assms(5) by (intro less_Suc_eq_le [THEN iffD1] less_mult_imp_div_less) simp
  then have "rounded SECT1_SIZE (length ?a) \<le> 64 * 1024" by (simp add: rounded_def SECT1_SIZE_def)
  then show ?thesis unfolding sv del programmed_def using assms(5) by (auto simp: fun_eq_iff)
qed

text \<open>
  A failure looks like success: \<^verbatim>\<open>-f\<close> with a file that does not exist, or that is no
  boot image, prints \<open>done\<close> and ends with status 0, the flash untouched; so does a device
  whose first sector cannot be erased.
\<close>

theorem failure_says_done:
  assumes "uid e = 0"
    "fl_files e kern = None \<or> (\<exists>img. fl_files e kern = Some img \<and> take 4 img \<noteq> MAGIC)" "kern \<noteq> []"
  shows "flashcfg_main e [''-f'', kern] s = Some (0, s\<lparr>said := said s @ [''done'']\<rparr>)"
  using assms by (auto simp: flashcfg_main_def Let_def flash_prog_kern_def)

lemma set_bootdev_parts:
  assumes "nvram s = a @ x @ c" "length a = 256" "length x = 16" "length dev \<le> 13"
    "dev_open e ''/dev/nvram0''" "nv_ok e"
  shows "flash_set_bootdev e dev s = Some (s\<lparr>nvram := a @ (''NV'' @ dev @ NUL # drop (3 + length dev) x) @ c\<rparr>)"
proof -
  have p: "take 256 (nvram s) = a" "take 16 (drop 256 (nvram s)) = x" "drop (256 + 16) (nvram s) = c"
    using assms(1,2,3) by simp_all
  show ?thesis
    unfolding flash_set_bootdev_def NVRAM_BOOT_OFF_def Let_def p using assms(3,4,5,6) by (simp add: numeral_3_eq_3)
qed

text \<open>
  The boot device: with the name of a device the program knows, its option writes the
  magic, the device and a terminator at their place in the NVRAM and leaves every other byte, and doing
  it again changes nothing; no name overruns the field.
\<close>

theorem bootdev_set:
  assumes "uid e = 0" "boot_dev name = Some dev" "dev_open e ''/dev/nvram0''" "nv_ok e" "272 \<le> length (nvram s)"
  shows "\<exists>s'. flashcfg_main e [''-c'', name] s = Some (0, s')
    \<and> length (nvram s') = length (nvram s) \<and> take (3 + length dev) (drop 256 (nvram s')) = ''NV'' @ dev @ [NUL]
    \<and> (\<forall>i. i < 256 \<or> 256 + 3 + length dev \<le> i \<longrightarrow> nvram s' ! i = nvram s ! i)
    \<and> map_option nvram (flash_set_bootdev e dev s') = Some (nvram s')"
proof -
  have n: "length dev \<le> 6" "name \<noteq> []" using assms(2) by (auto simp: boot_dev_def split: if_splits)
  obtain a x c where v: "nvram s = a @ x @ c" "length a = 256" "length x = 16"
  proof
    show "nvram s = take 256 (nvram s) @ take 16 (drop 256 (nvram s)) @ drop 16 (drop 256 (nvram s))"
      by (simp only: append_take_drop_id)
  qed (use assms(5) in simp_all)
  let ?r = "drop (3 + length dev) x"
  let ?x = "''NV'' @ dev @ NUL # ?r"
  let ?s = "s\<lparr>nvram := a @ ?x @ c, said := said s @ [''Boot device change to '' @ name]\<rparr>"
  have x: "length ?x = 16" "drop (3 + length dev) ?x = ?r" using v(3) n by (simp_all add: numeral_3_eq_3)
  have "flash_set_bootdev e dev s = Some (s\<lparr>nvram := a @ ?x @ c\<rparr>)"
    using set_bootdev_parts [OF v _ assms(3,4)] n by simp
  then have "flashcfg_main e [''-c'', name] s = Some (0, ?s)"
    using assms(1,2) n by (simp add: flashcfg_main_def Let_def)
  moreover have "flash_set_bootdev e dev ?s = Some (?s\<lparr>nvram := a @ (''NV'' @ dev @ NUL # drop (3 + length dev) ?x) @ c\<rparr>)"
    by (rule set_bootdev_parts [OF _ v(2) x(1) _ assms(3,4)]) (use n in simp_all)
  then have "map_option nvram (flash_set_bootdev e dev ?s) = Some (nvram ?s)" unfolding x(2) by simp
  moreover have "(a @ ?x @ c) ! i = (a @ x @ c) ! i" if "i < 256 \<or> 256 + 3 + length dev \<le> i" for i
  proof (cases "i < 256")
    case False
    define j where "j = i - (256 + 3 + length dev)"
    have "i = 256 + 3 + length dev + j" using that False by (simp add: j_def)
    then have i: "i = length (a @ ''NV'' @ dev @ [NUL]) + j" "i = length (a @ take (3 + length dev) x) + j"
      using v(2,3) n by simp_all
    have "(a @ ?x @ c) ! i = ((a @ ''NV'' @ dev @ [NUL]) @ ?r @ c) ! i" by simp
    also have "\<dots> = (?r @ c) ! j" unfolding i(1) by (rule nth_append_length_plus)
    also have "\<dots> = ((a @ take (3 + length dev) x) @ ?r @ c) ! i" unfolding i(2) by (rule nth_append_length_plus [symmetric])
    also have "\<dots> = (a @ x @ c) ! i" by (metis append_assoc append_take_drop_id)
    finally show ?thesis .
  qed (use v(2) in \<open>simp add: nth_append\<close>)
  moreover have "length (a @ ?x @ c) = length (a @ x @ c)" using x(1) v(3) by (simp only: length_append)
  moreover have "take (3 + length dev) (drop 256 (a @ ?x @ c)) = ''NV'' @ dev @ [NUL]"
    using v(2) by (simp add: numeral_3_eq_3)
  ultimately show ?thesis using v(1) by (intro exI [of _ ?s]) simp
qed

definition board :: "fl_env" where
  "board = \<lparr>uid = 0, fl_files = [''k'' \<mapsto> MAGIC @ replicate 70000 CHR ''x'', ''t'' \<mapsto> ''text''], dev_open = (\<lambda>_. True),
     dev_ok = (\<lambda>_. True), mem_ok = True, tmp_ok = True, tar_out = (\<lambda>_. ''archive''), nv_ok = True\<rparr>"

definition flash_state :: fl where
  "flash_state = \<lparr>mtd0 = [], mtd1 = [], nvram = replicate 512 NUL, ran = [], tmp_left = False, said = []\<rparr>"

theorem kernel_programmed_witness:
  "content (mtd1 (flash_prog_kern board ''k'' flash_state)) (\<lambda>_. NUL) 70000 = CHR ''x''
   \<and> content (mtd1 (flash_prog_kern board ''k'' flash_state)) (\<lambda>_. NUL) 8060928 = NUL"
proof -
  let ?img = "MAGIC @ replicate 70000 CHR ''x''"
  have l: "length ?img = 70004" by (simp add: MAGIC_def)
  have x: "?img ! 70000 = CHR ''x''" by (simp add: MAGIC_def nth_append)
  have k: "fl_files board ''k'' = Some ?img" "mem_ok board" "dev_open board ''/dev/mtd/1''" "\<forall>k. dev_ok board k"
    by (simp_all add: board_def)
  have i: "take 4 ?img = MAGIC" "SECT2_SIZE \<le> length ?img"
    "length ?img \<le> FLASH_SIZE - 8 * SECT1_SIZE - 256 * 1024"
    unfolding l by (simp_all add: MAGIC_def SECT2_SIZE_def SECT1_SIZE_def FLASH_SIZE_def)
  have "FLASH_SIZE - 8 * SECT1_SIZE - 256 * 1024 = 8060928" by (simp add: SECT1_SIZE_def FLASH_SIZE_def)
  moreover note p = kernel_programmed [OF k(1) i k(2,3,4), of flash_state "\<lambda>_. NUL"]
  moreover have "programmed SECT2_SIZE 0 ?img (\<lambda>_. NUL) 70000 = CHR ''x''"
    unfolding programmed_def using x l by (simp only: diff_zero add_0) simp
  ultimately show ?thesis by (metis order_refl)
qed

theorem save_param_programs_witness:
  "content (mtd0 (flash_save_param board ''list'' flash_state)) (\<lambda>_. NUL) 6 = CHR ''e''
   \<and> \<not> tmp_left (flash_save_param board ''list'' flash_state)"
  using save_param_programs [of board "''list''" flash_state "\<lambda>_. NUL"]
  by (simp add: board_def programmed_def)

theorem delete_then_save_witness:
  "content (mtd0 (flash_save_param board ''list'' flash_state))
     (content (mtd0 (flash_delete_param board flash_state)) (\<lambda>_. NUL)) 7 = CHR 0xFF"
  using delete_then_save [of board "''list''" flash_state "\<lambda>_. NUL"] by (simp add: board_def)

theorem failure_says_done_witness:
  "flashcfg_main board [''-f'', ''none''] flash_state = Some (0, flash_state\<lparr>said := [''done'']\<rparr>)"
  using failure_says_done [of board "''none''" flash_state] by (simp add: board_def flash_state_def)

theorem bootdev_set_witness:
  "\<exists>s'. flashcfg_main board [''-c'', ''initrd''] flash_state = Some (0, s')
     \<and> take 8 (drop 256 (nvram s')) = [CHR ''N'', CHR ''V'', CHR 0x02, CHR 0x07, CHR ''r'', CHR ''a'', CHR ''m'', NUL]"
  using bootdev_set [of board "''initrd''" "[CHR 0x02, CHR 0x07] @ ''ram''" flash_state]
  by (force simp: board_def flash_state_def boot_dev_def)

end
