(* ===== verification/Pshd.thy ===== *)
theory Pshd
  imports Libc
begin

text \<open>
  \<^verbatim>\<open>usr.sbin/pshd/pshd.c\<close>, built for the OpenBlockS 266: the daemon that waits for the
  push button and shuts the machine down, after it armed the UPS driver on a serial port.
  What it does is the list of its calls that succeed; messages are left out.
\<close>

subsection \<open>Options\<close>

text \<open>
  The loop over \<^verbatim>\<open>getopt_long\<close>, from the flag and the time before: an option that is
  spelt out is found before the end of the table; for any other the search runs on behind the
  table, which has no terminating entry. \<^verbatim>\<open>sscanf\<close> leaves the time when there is no number.
\<close>

definition ups_time :: "cstring \<Rightarrow> int \<Rightarrow> int" where
  "ups_time optarg t =
     (let t = (case scan_d optarg of None \<Rightarrow> t | Some (n, _) \<Rightarrow> n) in if t < 1 \<or> t > 10 then 5 else t)"

fun psh_opts :: "cstring list \<Rightarrow> bool \<times> int \<Rightarrow> (bool \<times> int) option" where
  "psh_opts [] (upscheck, t) = Some (upscheck, t)"
| "psh_opts (a # rest) (upscheck, t) =
     (if a = ''--'' then Some (upscheck, t)
      else if \<not> prefix ''--'' a then psh_opts rest (upscheck, t)
      else
        let name = takeWhile (\<lambda>c. c \<noteq> CHR ''='') (drop 2 a);
            val = dropWhile (\<lambda>c. c \<noteq> CHR ''='') (drop 2 a) in
        if name = ''noupswatch'' then psh_opts rest (if val = [] then False else upscheck, t)
        else if name = ''upswaittime'' then
          (if val \<noteq> [] then psh_opts rest (upscheck, ups_time (tl val) t)
           else case rest of
                  [] \<Rightarrow> Some (upscheck, t)
                | v # rest \<Rightarrow> psh_opts rest (upscheck, ups_time v t))
        else None)"

subsection \<open>The daemon\<close>

datatype psh_op = UpsStart cstring | UpsTime cstring int | UpsStop cstring | Pushed | Shutdown

text \<open>What the system answers; \<open>wait_ok\<close> is a wait for the button that returns because it was
  pushed.\<close>

record psh_env =
  psh_uid :: int
  psh_fork :: int
  open_psw :: bool
  open_port :: "cstring \<Rightarrow> bool"
  start_ok :: "cstring \<Rightarrow> bool"
  wait_ok :: bool

text \<open>When the first port does not take the start, the second is opened; the time is set on the
  port that is open last, whether or not it took the start.\<close>

definition arm_ups :: "psh_env \<Rightarrow> int \<Rightarrow> psh_op list" where
  "arm_ups e t =
     (if \<not> open_port e ''/dev/ttyS1'' then []
      else if start_ok e ''/dev/ttyS1'' then [UpsStart ''/dev/ttyS1'', UpsTime ''/dev/ttyS1'' t]
      else if \<not> open_port e ''/dev/ttyS0'' then []
      else (if start_ok e ''/dev/ttyS0'' then [UpsStart ''/dev/ttyS0''] else []) @ [UpsTime ''/dev/ttyS0'' t])"

text \<open>The status of the process that was started, and what the daemon did.\<close>

definition pshd_main :: "psh_env \<Rightarrow> cstring list \<Rightarrow> (int \<times> psh_op list) option" where
  "pshd_main e args =
     do { (upscheck, t) \<leftarrow> psh_opts args (True, 5);
          Some (if psh_uid e \<noteq> 0 then (1, [])
                else if psh_fork e < 0 then (0, [])
                else if \<not> open_psw e then (0, [])
                else (0, (if upscheck then arm_ups e t else []) @
                         (if wait_ok e then [Pushed, Shutdown] else []))) }"

text \<open>The handler of all signals but the hangup; the daemon ends after it.\<close>

definition psh_die :: "psh_env \<Rightarrow> psh_op list" where
  "psh_die e = (if open_port e ''/dev/ttyS1'' then [UpsStop ''/dev/ttyS1''] else [])"

subsection \<open>Properties\<close>

text \<open>The ports on which the driver watches after some calls.\<close>

fun armed :: "psh_op list \<Rightarrow> cstring set" where
  "armed [] = {}"
| "armed (op # ops) =
     (case op of UpsStart p \<Rightarrow> (if UpsStop p \<in> set ops then {} else {p}) | _ \<Rightarrow> {}) \<union> armed ops"

lemma ups_time_range: "1 \<le> ups_time v t \<and> ups_time v t \<le> 10"
  by (auto simp: ups_time_def Let_def)

lemma psh_opts_range: "psh_opts args s = Some s' \<Longrightarrow> 1 \<le> snd s \<and> snd s \<le> 10 \<Longrightarrow> 1 \<le> snd s' \<and> snd s' \<le> 10"
proof (induction args arbitrary: s rule: length_induct)
  case (1 args)
  obtain u t where s: "s = (u, t)" by (cases s)
  have IH: "1 \<le> snd s' \<and> snd s' \<le> 10"
    if "psh_opts ys (v, n) = Some s'" "length ys < length args" "1 \<le> n \<and> n \<le> 10" for ys v n
    using 1(1) that by auto
  show ?case
  proof (cases args)
    case (Cons a rest)
    define stop where "stop \<longleftrightarrow> a = ''--''"
    define long where "long \<longleftrightarrow> prefix ''--'' a"
    define name where "name = takeWhile (\<lambda>c. c \<noteq> CHR ''='') (drop 2 a)"
    define val where "val = dropWhile (\<lambda>c. c \<noteq> CHR ''='') (drop 2 a)"
    have len: "length rest < length args" using Cons by simp
    note body = 1(2) [unfolded Cons s psh_opts.simps Let_def, folded stop_def long_def name_def val_def]
    show ?thesis
    proof (cases "val = [] \<and> name = ''upswaittime''")
      case True
      then show ?thesis
        using body 1(3) s len IH ups_time_range
        by (cases rest) (auto simp del: psh_opts.simps(2) split: if_split_asm)
    next
      case False
      then show ?thesis
        using body 1(3) s IH [OF _ len] ups_time_range by (auto simp del: psh_opts.simps(2) split: if_split_asm)
    qed
  qed (use 1 s in auto)
qed

text \<open>
  The daemon: whatever the options, the time given to the driver lies between 1 and 10, the
  machine is shut down only after the button was pushed, and at most one port is armed.
\<close>

theorem pshd_orderly:
  assumes "pshd_main e args = Some (st, ops)"
  shows "(\<forall>p t. UpsTime p t \<in> set ops \<longrightarrow> 1 \<le> t \<and> t \<le> 10)
    \<and> (Shutdown \<in> set ops \<longrightarrow> wait_ok e \<and> (\<exists>pre. ops = pre @ [Pushed, Shutdown] \<and> Shutdown \<notin> set pre))
    \<and> card (armed ops) \<le> 1"
proof -
  obtain u t where o: "psh_opts args (True, 5) = Some (u, t)"
    using assms by (auto simp: pshd_main_def bind_eq_Some_conv)
  have t: "1 \<le> t \<and> t \<le> 10" using psh_opts_range [OF o] by simp
  let ?pre = "if u then arm_ups e t else []"
  have pre: "Shutdown \<notin> set ?pre" "\<forall>p n. UpsTime p n \<in> set ?pre \<longrightarrow> n = t" "card (armed (?pre @ xs)) \<le> 1"
    if "xs = [] \<or> xs = [Pushed, Shutdown]" for xs
    using that by (auto simp: arm_ups_def)
  consider "ops = []" | "ops = ?pre @ (if wait_ok e then [Pushed, Shutdown] else [])"
    using assms o by (auto simp: pshd_main_def split: if_splits)
  then show ?thesis
  proof cases
    case 2
    then show ?thesis using pre [of "[]"] pre [of "[Pushed, Shutdown]"] t
      by (cases "wait_ok e") (auto simp del: append_Nil2 simp add: append_Nil2 [of ?pre])
  qed simp
qed

text \<open>
  The handler stops the wrong port: when the first serial port does not take the start of the
  UPS driver and the second does, the driver still watches the second one after the daemon
  was told to end.
\<close>

theorem die_leaves_ups:
  assumes "psh_uid e = 0" "0 \<le> psh_fork e" "open_psw e" "\<not> wait_ok e"
    "open_port e ''/dev/ttyS1''" "\<not> start_ok e ''/dev/ttyS1''" "open_port e ''/dev/ttyS0''" "start_ok e ''/dev/ttyS0''"
  shows "\<exists>ops. pshd_main e [] = Some (0, ops) \<and> armed (ops @ psh_die e) = {''/dev/ttyS0''}"
  using assms by (simp add: pshd_main_def arm_ups_def psh_die_def)

definition psh_host :: psh_env where
  "psh_host = \<lparr>psh_uid = 0, psh_fork = 0, open_psw = True, open_port = (\<lambda>_. True),
     start_ok = (\<lambda>p. p = ''/dev/ttyS0''), wait_ok = False\<rparr>"

theorem pshd_orderly_witness:
  "pshd_main psh_host [''--upswaittime'', ''77''] = Some (0, [UpsStart ''/dev/ttyS0'', UpsTime ''/dev/ttyS0'' 5])
   \<and> card (armed [UpsStart ''/dev/ttyS0'', UpsTime ''/dev/ttyS0'' 5]) \<le> 1"
proof -
  have "ups_time ''77'' 5 = 5" by code_simp
  then have "pshd_main psh_host [''--upswaittime'', ''77''] = Some (0, [UpsStart ''/dev/ttyS0'', UpsTime ''/dev/ttyS0'' 5])"
    by (simp add: pshd_main_def psh_host_def arm_ups_def Let_def)
  with pshd_orderly [OF this] show ?thesis by simp
qed

theorem die_leaves_ups_witness:
  "\<exists>ops. pshd_main psh_host [] = Some (0, ops) \<and> armed (ops @ psh_die psh_host) = {''/dev/ttyS0''}"
  by (rule die_leaves_ups) (simp_all add: psh_host_def)

end
