(* ===== verification/Instwords.thy ===== *)
theory Instwords
  imports Libc
begin

text \<open>
  The text helpers of the installer, \<^verbatim>\<open>distrib/utils/sysinst/sysinst.c\<close>: lines, words,
  addresses. \<open>None\<close> is a result the code does not define: a write behind a buffer, a read
  behind a text or of a variable that was never set.
\<close>

unbundle bit_operations_syntax

subsection \<open>Lines and words\<close>

definition NAMELEN :: nat where "NAMELEN = 16"

definition MAXARG :: nat where "MAXARG = 20"

definition WORDBUFSIZ :: nat where "WORDBUFSIZ = 256"

definition chop :: "cstring \<Rightarrow> cstring" where
  "chop source = takeWhile (\<lambda>c. c \<noteq> NL) source"

text \<open>\<^verbatim>\<open>chop\<close> into an array of \<open>n\<close> bytes.\<close>

definition chop_into :: "nat \<Rightarrow> cstring \<Rightarrow> cstring option" where
  "chop_into n source = (if length (chop source) < n then Some (chop source) else None)"

definition tab2sp :: "cstring \<Rightarrow> cstring" where
  "tab2sp source =
     map (\<lambda>c. if c = CHR 0x09 then CHR '' '' else c)
       (dropWhile (\<lambda>c. c = CHR '' '' \<or> c = CHR 0x09) source)"

definition in_word :: "char \<Rightarrow> bool" where
  "in_word c = (c \<noteq> CHR '' '' \<and> c \<noteq> NL)"

text \<open>
  The words of a line; \<open>n\<close> places are left. A word that does not fit its block of
  \<^verbatim>\<open>WORDBUFSIZ\<close> bytes is written behind it, because the length is compared with
  \<^verbatim>\<open>BUFSIZ\<close>.
\<close>

function getarg_words :: "nat \<Rightarrow> cstring \<Rightarrow> cstring list option" where
  "getarg_words n source =
     (case source of
        [] \<Rightarrow> Some []
      | c # r \<Rightarrow>
          if c = CHR ''#'' \<or> c = NL then Some []
          else if c = CHR '' '' then getarg_words n r
          else let w = takeWhile in_word source in
            if length w \<ge> WORDBUFSIZ then None
            else if n \<le> 1 then Some [w]
            else do { ws \<leftarrow> getarg_words (n - 1) (dropWhile in_word source); Some (w # ws) })"
  by pat_completeness auto
termination
  by (relation "measure (\<lambda>(n, s). length s)")
    (auto simp: in_word_def intro: le_less_trans [OF length_dropWhile_le])

declare getarg_words.simps [simp del]

text \<open>
  The array of the words: those of the line, behind them what was there before, \<open>None\<close> where
  nothing was.
\<close>

type_synonym warray = "cstring option list"

definition getarg :: "warray \<Rightarrow> cstring \<Rightarrow> (nat \<times> warray) option" where
  "getarg result source =
     do { ws \<leftarrow> getarg_words MAXARG source;
          Some (length ws, map Some ws @ drop (length ws) result) }"

definition fresh_words :: warray where
  "fresh_words = replicate MAXARG None"

definition word_at :: "warray \<Rightarrow> nat \<Rightarrow> cstring option" where
  "word_at ws i = (if i < length ws then ws ! i else None)"

definition getlu :: "cstring \<Rightarrow> nat \<Rightarrow> int option" where
  "getlu source n =
     (if n > length source then None
      else let str = chop (drop n source) in if length str \<ge> NAMELEN then None else Some (atoi str))"

text \<open>The letter of the disk; the byte is a signed \<^verbatim>\<open>char\<close>.\<close>

definition getdevnum :: "cstring \<Rightarrow> nat \<Rightarrow> int option" where
  "getdevnum source n = (if n > length source then None
      else let b = int (byte (deref (drop n source))) in Some ((if b < 128 then b else b - 256) - 97))"

definition at2per :: "cstring \<Rightarrow> cstring" where
  "at2per = map (\<lambda>c. if c = CHR ''@'' then CHR ''%'' else c)"

subsection \<open>Addresses\<close>

text \<open>\<^verbatim>\<open>%u\<close> of \<^verbatim>\<open>sscanf\<close>, on 32 bits.\<close>

definition scan_u :: "cstring \<Rightarrow> (u32 \<times> cstring) option" where
  "scan_u s =
     (let s1 = dropWhile isspace s;
          s2 = (if deref s1 = CHR ''-'' \<or> deref s1 = CHR ''+'' then tl s1 else s1)
      in if isdigit (deref s2)
         then (case scan_digits 0 s2 of
                 (n, r) \<Rightarrow> Some (if n \<ge> 2 ^ 32 then - 1
                               else if deref s1 = CHR ''-'' then - of_nat n else of_nat n, r))
         else None)"

definition scan_dot :: "cstring \<Rightarrow> cstring option" where
  "scan_dot s = (case s of [] \<Rightarrow> None | c # r \<Rightarrow> if c = CHR ''.'' then Some r else None)"

definition ip2int :: "cstring \<Rightarrow> u32 option" where
  "ip2int cip =
     do { (p3, r) \<leftarrow> scan_u cip; r \<leftarrow> scan_dot r; (p2, r) \<leftarrow> scan_u r; r \<leftarrow> scan_dot r;
          (p1, r) \<leftarrow> scan_u r; r \<leftarrow> scan_dot r; (p0, r) \<leftarrow> scan_u r;
          Some (push_bit 24 p3 OR push_bit 16 p2 OR push_bit 8 p1 OR p0) }"

definition ip2char :: "u32 \<Rightarrow> cstring" where
  "ip2char ip =
     (let oct = (\<lambda>n. dec_nat (unat (drop_bit n ip AND 0xff))) in
      oct 24 @ ''.'' @ oct 16 @ ''.'' @ oct 8 @ ''.'' @ oct 0)"

subsection \<open>Properties\<close>

lemma scan_u_dec_nat:
  assumes "n < 2 ^ 32" "\<not> isdigit (deref r)"
  shows "scan_u (dec_nat n @ r) = Some (of_nat n, r)"
proof -
  let ?s = "dec_nat n @ r"
  have d: "isdigit (deref ?s)" by (rule deref_dec_nat)
  have "dropWhile isspace ?s = ?s" by (rule dropWhile_deref) (rule isdigit_not_isspace [OF d])
  then show ?thesis
    using assms d isdigit_bytes [OF d]
    by (simp add: scan_u_def Let_def scan_digits_append scan_digits_dec_nat)
qed

lemma and_ff: "(x :: u32) AND 0xff = take_bit 8 x"
  by (simp add: take_bit_eq_mask mask_numeral)

lemma unat_u32: "unat (x :: u32) < 2 ^ 32"
  using unsigned_less [of x] by simp

lemma octets_join:
  "push_bit 24 (take_bit 8 (drop_bit 24 ip)) OR push_bit 16 (take_bit 8 (drop_bit 16 ip))
     OR push_bit 8 (take_bit 8 (drop_bit 8 ip)) OR take_bit 8 (drop_bit 0 ip) = (ip :: u32)"
proof (rule bit_word_eqI)
  fix i assume i: "i < LENGTH(32)"
  consider "i < 8" | "8 \<le> i" "i < 16" | "16 \<le> i" "i < 24" | "24 \<le> i" "i < 32" using i by fastforce
  then show "bit (push_bit 24 (take_bit 8 (drop_bit 24 ip)) OR push_bit 16 (take_bit 8 (drop_bit 16 ip))
     OR push_bit 8 (take_bit 8 (drop_bit 8 ip)) OR take_bit 8 (drop_bit 0 ip)) i = bit ip i"
    by cases (simp_all only: bit_or_iff bit_push_bit_iff bit_take_bit_iff bit_drop_bit_eq, auto)
qed

text \<open>An address that is printed is read back.\<close>

theorem ip_roundtrip: "ip2int (ip2char ip) = Some ip"
proof -
  have d: "scan_u (dec_nat (unat x) @ CHR ''.'' # r) = Some (x, CHR ''.'' # r)"
    and e: "scan_u (dec_nat (unat x)) = Some (x, [])" for x :: u32 and r
    using scan_u_dec_nat [OF unat_u32, of _ x] scan_u_dec_nat [OF unat_u32, of "[]" x] by simp_all
  show ?thesis
    unfolding ip2int_def ip2char_def Let_def and_ff
    by (simp only: d e append_Cons append_Nil scan_dot_def Option.bind.bind_lunit prod.case list.case refl if_True octets_join)
qed

text \<open>A text as the sources of the installer have it: words with blanks between.\<close>

fun blanks :: "(nat \<times> cstring) list \<Rightarrow> cstring" where
  "blanks [] = []"
| "blanks ((n, w) # ws) = replicate (Suc n) CHR '' '' @ w @ blanks ws"

definition inst_word :: "cstring \<Rightarrow> bool" where
  "inst_word w = (list_all in_word w \<and> w \<noteq> [] \<and> deref w \<noteq> CHR ''#'' \<and> length w < 256)"

lemma getarg_blank: "getarg_words n (CHR '' '' # s) = getarg_words n s"
  by (subst getarg_words.simps) simp

lemma getarg_blanks: "getarg_words n (replicate k CHR '' '' @ s) = getarg_words n s"
  by (induction k) (simp_all add: getarg_blank)

lemma getarg_word:
  assumes "inst_word w" "s = [] \<or> \<not> in_word (deref s)" "1 < n"
  shows "getarg_words n (w @ s) = map_option (Cons w) (getarg_words (n - 1) s)"
proof -
  obtain c r where w: "w = c # r" using assms(1) by (cases w) (auto simp: inst_word_def)
  have t: "takeWhile in_word (w @ s) = w" "dropWhile in_word (w @ s) = s"
    using assms(1,2) by (cases s; simp add: inst_word_def takeWhile_append dropWhile_append list_all_iff)+
  then have "takeWhile in_word (c # r @ s) = w" "dropWhile in_word (c # r @ s) = s" using w by simp_all
  moreover have "c \<noteq> CHR ''#'' \<and> c \<noteq> NL \<and> c \<noteq> CHR '' ''"
    using assms(1) w by (auto simp: inst_word_def in_word_def)
  moreover have "length w < WORDBUFSIZ" using assms(1) by (simp add: inst_word_def WORDBUFSIZ_def)
  ultimately show ?thesis
    using assms(3) unfolding w append_Cons
    by (subst getarg_words.simps) (simp add: Let_def map_option_case option.case_eq_if split: Option.bind_split)
qed

lemma getarg_line:
  "list_all (\<lambda>(n, w). inst_word w) ws \<Longrightarrow> length ws < n \<Longrightarrow>
   getarg_words n (blanks ws @ NL # t) = Some (map snd ws)"
proof (induction ws arbitrary: n)
  case Nil
  then show ?case by (subst getarg_words.simps) simp
next
  case (Cons kw ws)
  obtain k w where kw: "kw = (k, w)" by (cases kw)
  have "blanks ws @ NL # t = [] \<or> \<not> in_word (deref (blanks ws @ NL # t))"
    by (cases ws) (auto simp: in_word_def)
  then have "getarg_words n (w @ blanks ws @ NL # t) = Some (w # map snd ws)"
    using Cons.prems Cons.IH [of "n - 1"] kw by (subst getarg_word) auto
  then show ?case unfolding kw by (simp add: getarg_blanks getarg_blank)
qed

text \<open>
  The words of a line: separated by any number of blanks or tabs, up to 19 of fewer than 256
  bytes that do not begin with a number sign, they come out as they are, and the other places of
  the array keep what they held.
\<close>

theorem getarg_reads_words:
  assumes "list_all (\<lambda>(n, w). inst_word w) ws" "length ws < MAXARG" "ws \<noteq> []" "length old = MAXARG"
  shows "getarg old (tl (blanks ws) @ [NL]) = Some (length ws, map (Some \<circ> snd) ws @ drop (length ws) old)"
proof -
  obtain s where "blanks ws = CHR '' '' # s" using assms(3) by (cases ws) auto
  then show ?thesis
    using getarg_line [OF assms(1,2), of "[]"] by (simp add: getarg_def getarg_blank)
qed

theorem getarg_reads_words_witness:
  "getarg fresh_words (''hda  sdb'' @ [NL]) = Some (2, Some ''hda'' # Some ''sdb'' # drop 2 fresh_words)"
  using getarg_reads_words [of "[(0, ''hda''), (1, ''sdb'')]" fresh_words]
  by (simp add: inst_word_def in_word_def MAXARG_def fresh_words_def)

end
