(* ===== verification/Instdisk.thy ===== *)
theory Instdisk
  imports Instwords
begin

text \<open>
  What the installer finds out about the machine (\<^verbatim>\<open>distrib/utils/sysinst/sysinst.c\<close>, as
  built for i386): disks, install media, partitions, and the table of the partitions the
  menus work on.

  The files under \<^verbatim>\<open>/proc\<close> and the output of \<^verbatim>\<open>fdisk\<close> are lists of lines. The
  tables come from \<^verbatim>\<open>malloc\<close>: what they hold before they are set is an argument.
\<close>

record hd_t =
  hd_name :: cstring
  flag_cd :: bool
  flag_bootable :: bool
  hd_type :: "int list"
  hd_size :: "int list"
  hd_bootable :: "bool list"

record pa_t =
  pa_name :: cstring
  mntp :: cstring
  fstype :: cstring
  opt :: cstring
  pa_size :: int
  bsize :: int
  pa_bootable :: bool
  fck1 :: int
  fck2 :: int
  flag_act :: bool
  flag_ck :: bool
  flag_swap :: bool

record bp_t =
  bp_name :: cstring
  bp_type :: nat

record md_t =
  md_name :: string
  md_type :: nat

record inst_env =
  proc :: "cstring \<Rightarrow> cstring list option"
  popen :: "cstring \<Rightarrow> cstring list"

definition MAXMD :: nat where "MAXMD = 16"

definition MAXHDDEV :: nat where "MAXHDDEV = 16"

definition MAXHDPAT :: nat where "MAXHDPAT = 64"

definition MAXPAT :: nat where "MAXPAT = 256"

definition MAXBOOTDEV :: nat where "MAXBOOTDEV = 16"

definition EXT2_FS :: cstring where "EXT2_FS = ''ext2''"

definition EXT3_FS :: cstring where "EXT3_FS = ''ext3''"

text \<open>\<^verbatim>\<open>snprintf\<close> into an array of \<open>n\<close> bytes.\<close>

definition snprintf :: "nat \<Rightarrow> cstring \<Rightarrow> cstring" where
  "snprintf n s = take (n - 1) s"

subsection \<open>Disks and media\<close>

fun pccard_lines :: "cstring list \<Rightarrow> warray \<Rightarrow> bool option" where
  "pccard_lines [] ws = Some False"
| "pccard_lines (buf # ls) ws =
     (if length buf = 1 \<or> deref (tab2sp buf) = CHR ''#'' then pccard_lines ls ws
      else do { (i, ws) \<leftarrow> getarg ws (tab2sp buf);
                if i = 2 \<and> word_at ws 0 = Some ''254'' \<and> word_at ws 1 = Some ''pcmcia''
                then Some True else pccard_lines ls ws })"

text \<open>Whether a card driver was found, for which the card manager is started.\<close>

definition probe_pccard :: "inst_env \<Rightarrow> bool option" where
  "probe_pccard e = do { ls \<leftarrow> proc e ''/proc/devices''; pccard_lines ls fresh_words }"

text \<open>The types are cleared from the first on, not from 0.\<close>

definition clear_hd :: "hd_t \<Rightarrow> hd_t" where
  "clear_hd h = h\<lparr>hd_name := [], flag_cd := False, flag_bootable := False,
     hd_type := take 1 (hd_type h) @ replicate (MAXHDPAT - 1) 0,
     hd_size := take 1 (hd_size h) @ replicate (MAXHDPAT - 1) 0,
     hd_bootable := take 1 (hd_bootable h) @ replicate (MAXHDPAT - 1) False\<rparr>"

fun hd_lines :: "cstring list \<Rightarrow> warray \<Rightarrow> nat \<Rightarrow> hd_t list \<Rightarrow> (nat \<times> hd_t list) option" where
  "hd_lines [] ws j hds = Some (j, hds)"
| "hd_lines (buf # ls) ws j hds =
     (if length buf = 1 then hd_lines ls ws j hds
      else do { (i, ws) \<leftarrow> getarg ws (tab2sp buf);
                if i \<noteq> 4 then hd_lines ls ws j hds
                else do { w \<leftarrow> word_at ws 3;
                          if length w \<noteq> 3 then hd_lines ls ws j hds
                          else let hds = hds[j := (hds ! j)\<lparr>hd_name := w\<rparr>] in
                            if j + 1 \<ge> MAXHDDEV then Some (j + 1, hds)
                            else hd_lines ls ws (j + 1) hds } })"

definition probe_hd :: "inst_env \<Rightarrow> hd_t list \<Rightarrow> (nat \<times> hd_t list) option" where
  "probe_hd e hds = do { ls \<leftarrow> proc e ''/proc/partitions''; hd_lines ls fresh_words 0 (map clear_hd hds) }"

text \<open>\<^verbatim>\<open>strncpy\<close> of four bytes, which leaves out the terminator.\<close>

definition strncpy4 :: "cstring \<Rightarrow> string \<Rightarrow> string" where
  "strncpy4 w old = take 4 (w @ replicate 4 NUL) @ drop 4 old"

text \<open>The network devices: the words, the number of media and the media when the loop is left.\<close>

fun net_lines :: "cstring list \<Rightarrow> warray \<Rightarrow> nat \<Rightarrow> md_t list \<Rightarrow> (warray \<times> nat \<times> md_t list) option" where
  "net_lines [] ws m md = Some (ws, m, md)"
| "net_lines (buf # ls) ws m md =
     (if length buf = 1 then net_lines ls ws m md
      else do { (i, ws) \<leftarrow> getarg ws (tab2sp buf);
                if i \<noteq> 17 \<and> i \<noteq> 16 then net_lines ls ws m md
                else do { w \<leftarrow> word_at ws 0;
                          if strncmp_eq w ''eth'' 3
                          then Some (ws, m + 1, md[m := \<lparr>md_name = strncpy4 w (md_name (md ! m)), md_type = 0\<rparr>])
                          else net_lines ls ws m md } })"

definition mark_cd :: "cstring \<Rightarrow> nat \<Rightarrow> hd_t list \<Rightarrow> hd_t list" where
  "mark_cd w num_hd hds =
     (case List.find (\<lambda>k. strncmp_eq w (hd_name (hds ! k)) 3) [0..<num_hd] of
        None \<Rightarrow> hds
      | Some k \<Rightarrow> hds[k := (hds ! k)\<lparr>flag_cd := True\<rparr>])"

text \<open>One word of the list of drives; a name fills an array with its terminator.\<close>

definition drive_word :: "nat \<Rightarrow> cstring \<Rightarrow> nat \<times> md_t list \<times> hd_t list \<Rightarrow> (nat \<times> md_t list \<times> hd_t list) option" where
  "drive_word num_hd w s =
     (case s of (m, md, hds) \<Rightarrow>
        let medium = (\<lambda>name. md[m := \<lparr>md_name = snprintf NAMELEN name @ [NUL], md_type = 1\<rparr>]) in
        if strncmp_eq w ''sr'' 2 then
          (if m \<ge> MAXMD then Some s
           else do { n \<leftarrow> getlu w 2; Some (m + 1, medium (''/dev/scd'' @ dec n), hds) })
        else if strncmp_eq w ''hd'' 2 then
          (if m \<ge> MAXMD then Some s else Some (m + 1, medium (''/dev/'' @ w), mark_cd w num_hd hds))
        else Some s)"

fun cdrom_lines :: "nat \<Rightarrow> cstring list \<Rightarrow> warray \<Rightarrow> nat \<times> md_t list \<times> hd_t list \<Rightarrow> (nat \<times> md_t list \<times> hd_t list) option" where
  "cdrom_lines num_hd [] ws s = Some s"
| "cdrom_lines num_hd (buf # ls) ws s =
     (if length buf = 1 \<or> deref (tab2sp buf) = CHR ''#'' then cdrom_lines num_hd ls ws s
      else do { (i, ws) \<leftarrow> getarg ws (tab2sp buf);
                s \<leftarrow> (if i > 2 \<and> word_at ws 0 = Some ''drive'' \<and> word_at ws 1 = Some ''name:''
                      then foldM (drive_word num_hd) (map the (take (i - 2) (drop 2 ws))) s
                      else Some s);
                cdrom_lines num_hd ls ws s })"

definition probe_md :: "inst_env \<Rightarrow> md_t list \<Rightarrow> hd_t list \<Rightarrow> nat \<Rightarrow> (nat \<times> md_t list \<times> hd_t list) option" where
  "probe_md e md hds num_hd =
     do { (ws, m, md) \<leftarrow> (case proc e ''/proc/net/dev'' of
                            None \<Rightarrow> Some (fresh_words, 0, md)
                          | Some ls \<Rightarrow> net_lines ls fresh_words 0 md);
          case proc e ''/proc/sys/dev/cdrom/info'' of
            None \<Rightarrow> Some (m, md, hds)
          | Some ls \<Rightarrow> cdrom_lines num_hd ls ws (m, md, hds) }"

subsection \<open>Partitions\<close>

text \<open>Division of an \<^verbatim>\<open>int\<close>, towards 0.\<close>

definition cdiv :: "int \<Rightarrow> int \<Rightarrow> int" where
  "cdiv a b = (if a < 0 then - ((- a) div b) else a div b)"

definition xval :: "char \<Rightarrow> int option" where
  "xval c =
     (if 48 \<le> byte c \<and> byte c \<le> 57 then Some (int (byte c) - 48)
      else if 97 \<le> byte c \<and> byte c \<le> 102 then Some (int (byte c) - 87)
      else if 65 \<le> byte c \<and> byte c \<le> 70 then Some (int (byte c) - 55)
      else None)"

text \<open>\<^verbatim>\<open>%2x\<close> on a word of digits: the new value, or the old one when there is no digit.\<close>

definition scan_2x :: "cstring \<Rightarrow> int \<Rightarrow> int" where
  "scan_2x s old =
     (case xval (deref s) of
        None \<Rightarrow> old
      | Some a \<Rightarrow> (case xval (deref (drop 1 s)) of None \<Rightarrow> a | Some b \<Rightarrow> 16 * a + b))"

text \<open>One line of \<^verbatim>\<open>fdisk -l\<close> for disk \<open>i\<close>: the words, the units when they are known, whether
  no bootable partition was seen so far, and the disks.\<close>

type_synonym rd_state = "warray \<times> int option \<times> bool \<times> hd_t list"

definition rd_line :: "nat \<Rightarrow> cstring \<Rightarrow> rd_state \<Rightarrow> rd_state option" where
  "rd_line i buf s =
     (case s of (ws, units, none_yet, hds) \<Rightarrow>
        if length buf = 1 \<or> deref (tab2sp buf) = CHR ''#'' then Some s
        else do {
          (n, ws) \<leftarrow> getarg ws (tab2sp buf);
          w0 \<leftarrow> word_at ws 0;
          if n = 10 \<and> w0 = ''Units'' then do { w4 \<leftarrow> word_at ws 4; Some (ws, Some (atoi w4), none_yet, hds) }
          else if \<not> strncmp_eq w0 (snprintf NAMELEN (''/dev/'' @ hd_name (hds ! i))) 8 then Some (ws, units, none_yet, hds)
          else do {
            lu \<leftarrow> getlu w0 8;
            if lu < 0 \<or> lu \<ge> int MAXHDPAT then None
            else do {
              w1 \<leftarrow> word_at ws 1;
              let star = (w1 = ''*'');
              let k = (if star then 1 else 0);
              t \<leftarrow> word_at ws (4 + k);
              fr \<leftarrow> word_at ws (1 + k);
              ul \<leftarrow> word_at ws (2 + k);
              u \<leftarrow> units;
              let j = nat lu;
              let h = hds ! i;
              let h = h\<lparr>flag_bootable := flag_bootable h \<or> star,
                        hd_bootable := (hd_bootable h)[j := star],
                        hd_type := (hd_type h)[j := scan_2x t (hd_type h ! j)],
                        hd_size := (hd_size h)[j := cdiv (wrap32 (wrap32 (atoi ul - atoi fr) * u)) 2048]\<rparr>;
              Some (ws, units, none_yet \<and> \<not> star, hds[i := h]) } } })"

definition rd_disk :: "inst_env \<Rightarrow> nat \<Rightarrow> rd_state \<Rightarrow> rd_state option" where
  "rd_disk e i s =
     (case s of (ws, units, none_yet, hds) \<Rightarrow>
        if flag_cd (hds ! i) then Some s
        else foldM (rd_line i) (popen e (''/sbin/fdisk -l /dev/'' @ hd_name (hds ! i))) s)"

text \<open>The result is true when there is no bootable partition.\<close>

definition rd_partition :: "inst_env \<Rightarrow> hd_t list \<Rightarrow> nat \<Rightarrow> (bool \<times> hd_t list) option" where
  "rd_partition e hds num_hd =
     do { (_, _, none_yet, hds) \<leftarrow> foldM (rd_disk e) [0..<num_hd] (fresh_words, None, True, hds);
          Some (none_yet, hds) }"

subsection \<open>The table of partitions\<close>

definition swap_entry :: "cstring \<Rightarrow> int \<Rightarrow> pa_t" where
  "swap_entry name sz =
     \<lparr>pa_name = name, mntp = ''swap'', fstype = ''swap'', opt = ''defaults'', pa_size = sz, bsize = 0,
      pa_bootable = False, fck1 = 0, fck2 = 0, flag_act = True, flag_ck = False, flag_swap = True\<rparr>"

definition linux_entry :: "cstring \<Rightarrow> int \<Rightarrow> bool \<Rightarrow> pa_t" where
  "linux_entry name sz boot =
     \<lparr>pa_name = name, mntp = [], fstype = EXT2_FS, opt = ''defaults'', pa_size = sz, bsize = 4096,
      pa_bootable = boot, fck1 = 1, fck2 = 1, flag_act = False, flag_ck = False, flag_swap = False\<rparr>"

definition proc_entry :: pa_t where
  "proc_entry =
     \<lparr>pa_name = ''none'', mntp = ''/proc'', fstype = ''proc'', opt = ''defaults'', pa_size = 0, bsize = 0,
      pa_bootable = False, fck1 = 0, fck2 = 0, flag_act = True, flag_ck = False, flag_swap = False\<rparr>"

definition devpts_entry :: pa_t where
  "devpts_entry = proc_entry\<lparr>mntp := ''/dev/pts'', fstype := ''devpts'', opt := ''gid=4,mode=620''\<rparr>"

text \<open>One entry of the partition table of a disk; the tables have room for \<^verbatim>\<open>MAXPAT\<close> and
  \<^verbatim>\<open>MAXBOOTDEV\<close> entries.\<close>

type_synonym tables = "pa_t list \<times> bp_t list"

definition pat_entry :: "hd_t \<Rightarrow> nat \<Rightarrow> tables \<Rightarrow> tables option" where
  "pat_entry h k s =
     (case s of (pa, bp) \<Rightarrow>
        let t = hd_type h ! k; name = snprintf NAMELEN (''/dev/'' @ hd_name h @ dec (int k)) in
        if t = 0x82 then (if length pa \<ge> MAXPAT then None else Some (pa @ [swap_entry name (hd_size h ! k)], bp))
        else if t = 0x83 \<or> t = 0x85 then
          (if length pa \<ge> MAXPAT \<or> hd_bootable h ! k \<and> length bp \<ge> MAXBOOTDEV then None
           else Some (pa @ [linux_entry name (hd_size h ! k) (hd_bootable h ! k)],
                      bp @ (if hd_bootable h ! k then [\<lparr>bp_name = name, bp_type = 1\<rparr>] else [])))
        else Some s)"

text \<open>
  The entry for the boot record of a disk is named by the disk with the number of the
  partitions so far.
\<close>

definition pat_disk :: "hd_t list \<Rightarrow> nat \<Rightarrow> tables \<Rightarrow> tables option" where
  "pat_disk hds j s =
     (case s of (pa, bp) \<Rightarrow>
        do { bp \<leftarrow> (if \<not> flag_bootable (hds ! j) then Some bp
                   else if length bp \<ge> MAXBOOTDEV \<or> length pa \<ge> length hds then None
                   else Some (bp @ [\<lparr>bp_name = snprintf NAMELEN (''/dev/'' @ hd_name (hds ! length pa)), bp_type = 0\<rparr>]));
             foldM (pat_entry (hds ! j)) [0..<MAXHDPAT] (pa, bp) })"

text \<open>The number of partitions and the tables: the partitions, the first as root, and the two
  file systems of the kernel behind them.\<close>

definition pat_array :: "hd_t list \<Rightarrow> nat \<Rightarrow> (nat \<times> tables) option" where
  "pat_array hds num_hd =
     do { (pa, bp) \<leftarrow> foldM (pat_disk hds) [0..<num_hd] ([], []);
          let num_pat = length pa;
          if num_pat + 2 > MAXPAT then None
          else let pa = (if num_pat = 0 then pa else pa[0 := (pa ! 0)\<lparr>mntp := ''/'', flag_act := True\<rparr>]) in
            Some (num_pat, pa @ [proc_entry, devpts_entry], bp) }"

text \<open>The number of the root partition; without one the code tests a variable it never set.\<close>

definition set_root_partition :: "pa_t list \<Rightarrow> nat \<Rightarrow> (nat \<times> pa_t list) option" where
  "set_root_partition pa num_pat =
     (case List.find (\<lambda>i. mntp (pa ! i) = ''/'' \<and> flag_act (pa ! i)) [0..<num_pat] of
        None \<Rightarrow> None
      | Some i \<Rightarrow> Some (i, pa[i := (pa ! i)\<lparr>fck1 := 0, fck2 := 0\<rparr>]))"

subsection \<open>Properties\<close>

text \<open>The partitions of the disks that Linux can use, in the order of disks and numbers.\<close>

definition part_of :: "hd_t \<Rightarrow> nat \<Rightarrow> pa_t list" where
  "part_of h k =
     (let t = hd_type h ! k; name = snprintf NAMELEN (''/dev/'' @ hd_name h @ dec (int k)) in
      if t = 0x82 then [swap_entry name (hd_size h ! k)]
      else if t \<in> {0x83, 0x85} then [linux_entry name (hd_size h ! k) (hd_bootable h ! k)]
      else [])"

definition linux_parts :: "hd_t list \<Rightarrow> nat \<Rightarrow> pa_t list" where
  "linux_parts hds n = [p. j \<leftarrow> [0..<n], k \<leftarrow> [0..<MAXHDPAT], p \<leftarrow> part_of (hds ! j) k]"

fun as_root :: "pa_t list \<Rightarrow> pa_t list" where
  "as_root [] = []"
| "as_root (p # ps) = p\<lparr>mntp := ''/'', flag_act := True\<rparr> # ps"

lemma length_as_root [simp]: "length (as_root ps) = length ps"
  by (cases ps) simp_all

text \<open>A fold that only appends.\<close>

lemma foldM_appends:
  assumes "\<And>x s t. f x s = Some t \<Longrightarrow> fst t = fst s @ g x"
  shows "foldM f xs s = Some t \<Longrightarrow> fst t = fst s @ concat (map g xs)"
proof (induction xs arbitrary: s)
  case Nil
  then show ?case by simp
next
  case (Cons x xs)
  then obtain u where u: "f x s = Some u" "foldM f xs u = Some t" by (auto simp: bind_eq_Some_conv)
  show ?case using Cons.IH [OF u(2)] assms [OF u(1)] by simp
qed

lemma pat_entry_appends: "pat_entry h k s = Some t \<Longrightarrow> fst t = fst s @ part_of h k"
  by (auto simp: pat_entry_def part_of_def Let_def split: prod.splits if_splits)

lemma pat_disk_appends:
  assumes "pat_disk hds j s = Some t"
  shows "fst t = fst s @ concat (map (part_of (hds ! j)) [0..<MAXHDPAT])"
proof -
  obtain pa bp where s: "s = (pa, bp)" by (cases s)
  obtain bp' where "foldM (pat_entry (hds ! j)) [0..<MAXHDPAT] (pa, bp') = Some t"
    using assms unfolding pat_disk_def s by (auto simp: bind_eq_Some_conv)
  then show ?thesis using foldM_appends [of "pat_entry (hds ! j)", OF pat_entry_appends] s by fastforce
qed

lemma pat_array_table:
  assumes "pat_array hds num_hd = Some (n, pa, bp)"
  shows "n = length (linux_parts hds num_hd) \<and>
         pa = as_root (linux_parts hds num_hd) @ [proc_entry, devpts_entry]"
proof -
  obtain qs where f: "foldM (pat_disk hds) [0..<num_hd] ([], []) = Some (qs, bp)"
    and n: "n = length qs"
    and pa: "pa = (if qs = [] then qs else qs[0 := (qs ! 0)\<lparr>mntp := ''/'', flag_act := True\<rparr>]) @ [proc_entry, devpts_entry]"
    using assms by (auto simp: pat_array_def bind_eq_Some_conv Let_def split: if_splits)
  have "qs = concat (map (\<lambda>j. concat (map (part_of (hds ! j)) [0..<MAXHDPAT])) [0..<num_hd])"
    using foldM_appends [of "pat_disk hds", OF pat_disk_appends f] by simp
  then have qs: "qs = linux_parts hds num_hd" by (simp add: linux_parts_def)
  show ?thesis using n unfolding pa qs by (cases "linux_parts hds num_hd") simp_all
qed

text \<open>
  C30. The table of the partitions holds exactly the partitions of types 0x82, 0x83 and 0x85 of the
  disks, in the order of disks and numbers, the first of them as root, and behind them the two
  file systems of the kernel.
\<close>

theorem pat_array_entries:
  assumes "pat_array hds num_hd = Some (n, pa, bp)"
  shows "n = length (linux_parts hds num_hd) \<and>
         pa = as_root (linux_parts hds num_hd) @ [proc_entry, devpts_entry]"
  using assms by (rule pat_array_table)

text \<open>
  Every entry fits the arrays of its record and has a block size of the menu; none (0) have
  only the swap partitions and the file systems of the kernel, which have no device.
\<close>

definition pa_ok :: "pa_t \<Rightarrow> bool" where
  "pa_ok p =
     (length (pa_name p) < NAMELEN \<and> length (mntp p) < 4096 \<and> length (fstype p) < NAMELEN \<and>
      length (opt p) < NAMELEN \<and> (bsize p \<in> {512, 1024, 2048, 4096, 8192} \<or> bsize p = 0 \<and> (flag_swap p \<or> pa_name p = ''none'')))"

text \<open>What no menu changes.\<close>

definition device :: "pa_t \<Rightarrow> cstring \<times> int \<times> bool \<times> bool" where
  "device p = (pa_name p, pa_size p, pa_bootable p, flag_swap p)"

lemma part_of_ok: "p \<in> set (part_of h k) \<Longrightarrow> pa_ok p"
  by (auto simp: part_of_def Let_def pa_ok_def swap_entry_def linux_entry_def snprintf_def NAMELEN_def EXT2_FS_def
      min_def split: if_splits)

lemma pat_array_ok:
  assumes "pat_array hds num_hd = Some (n, pa, bp)"
  shows "list_all pa_ok pa"
proof -
  have "list_all pa_ok (linux_parts hds num_hd)"
    by (auto simp: list_all_iff linux_parts_def intro: part_of_ok)
  then have "list_all pa_ok (as_root (linux_parts hds num_hd))"
    by (cases "linux_parts hds num_hd") (simp_all add: pa_ok_def)
  then show ?thesis
    using pat_array_table [OF assms]
    by (simp add: pa_ok_def proc_entry_def devpts_entry_def NAMELEN_def)
qed

lemma set_root_keeps:
  assumes "set_root_partition pa n = Some (i, pa')" "n \<le> length pa"
  shows "list_all pa_ok pa \<longrightarrow> list_all pa_ok pa'" "map device pa' = map device pa"
    "i < n" "mntp (pa' ! i) = ''/''" "flag_act (pa' ! i)" "length pa' = length pa"
proof -
  have i: "i < n" "mntp (pa ! i) = ''/''" "flag_act (pa ! i)"
    and pa': "pa' = pa[i := (pa ! i)\<lparr>fck1 := 0, fck2 := 0\<rparr>]"
    using assms by (auto simp: set_root_partition_def find_Some_iff split: option.splits)
  then show "i < n" "mntp (pa' ! i) = ''/''" "flag_act (pa' ! i)" "length pa' = length pa"
    using assms(2) by simp_all
  show "list_all pa_ok pa \<longrightarrow> list_all pa_ok pa'" "map device pa' = map device pa"
    using i(1) assms(2) unfolding pa'
    by (auto simp: list_all_length pa_ok_def nth_list_update map_update device_def intro!: list_update_same_conv [THEN iffD2])
qed

subsection \<open>A small machine\<close>

text \<open>One disk with a bootable partition and one for swapping, and a drive for CDs.\<close>

definition demo_line :: "cstring \<Rightarrow> cstring" where "demo_line l = l @ [NL]"

definition demo_machine :: inst_env where
  "demo_machine =
     \<lparr>proc = (\<lambda>f. if f = ''/proc/devices'' then Some []
                  else if f = ''/proc/partitions'' then Some [demo_line ''   3     0    4000000 hda'']
                  else if f = ''/proc/sys/dev/cdrom/info'' then Some [demo_line ''drive name: hdc'']
                  else None),
      popen = (\<lambda>c. [demo_line ''Units = cylinders of 16065 * 512 = 8225280 bytes'',
                    demo_line ''/dev/hda1   *       1     400   3212968   83  Linux'',
                    demo_line ''/dev/hda2         401     450    401625   82  Linux swap''])\<rparr>"

definition demo_hd :: hd_t where
  "demo_hd =
     \<lparr>hd_name = [], flag_cd = False, flag_bootable = False, hd_type = replicate 64 0, hd_size = replicate 64 0,
      hd_bootable = replicate 64 False\<rparr>"

definition demo_md :: md_t where "demo_md = \<lparr>md_name = replicate 16 NUL, md_type = 0\<rparr>"

definition demo_disk :: hd_t where
  "demo_disk =
     \<lparr>hd_name = ''hda'', flag_cd = False, flag_bootable = True,
      hd_type = (replicate 64 0)[1 := 0x83, 2 := 0x82], hd_size = (replicate 64 0)[1 := 3129, 2 := 384],
      hd_bootable = (replicate 64 False)[1 := True]\<rparr>"

definition demo_disks :: "hd_t list" where
  "demo_disks = demo_disk # replicate 15 demo_hd"

definition demo_pas :: "pa_t list" where
  "demo_pas =
     [(linux_entry ''/dev/hda1'' 3129 True)\<lparr>mntp := ''/'', flag_act := True\<rparr>, swap_entry ''/dev/hda2'' 384,
      proc_entry, devpts_entry]"

definition demo_bps :: "bp_t list" where
  "demo_bps = [\<lparr>bp_name = ''/dev/hda'', bp_type = 0\<rparr>, \<lparr>bp_name = ''/dev/hda1'', bp_type = 1\<rparr>]"

lemma demo_pat: "pat_array demo_disks 1 = Some (2, demo_pas, demo_bps)"
  by code_simp

theorem pat_array_entries_witness:
  "length (linux_parts demo_disks 1) = 2 \<and> demo_pas = as_root (linux_parts demo_disks 1) @ [proc_entry, devpts_entry]"
  using pat_array_entries [OF demo_pat] by simp

end
