(* ===== verification/Instmenu.thy ===== *)
theory Instmenu
  imports Instdisk
begin

text \<open>
  The menus of the installer (\<^verbatim>\<open>distrib/utils/sysinst/sysinst.c\<close>, as built for i386).
  The terminal is the text the user types; at its end \<^verbatim>\<open>fgets\<close> leaves a buffer that was never
  set, so a menu that is not left before has no result. What the menus print is left out.
\<close>

definition BUFSIZ :: nat where "BUFSIZ = 8192"

definition MAXPATHLEN :: nat where "MAXPATHLEN = 4096"

definition MAXHOSTNAMELEN :: nat where "MAXHOSTNAMELEN = 64"

definition IPADDRESSLEN :: nat where "IPADDRESSLEN = 16"

subsection \<open>Reading answers\<close>

text \<open>One line with its newline, or what fits; the rest of the input.\<close>

definition fgets :: "nat \<Rightarrow> string \<Rightarrow> (cstring \<times> string) option" where
  "fgets n inp =
     (if inp = [] then None
      else let ln = takeWhile (\<lambda>c. c \<noteq> NL) inp;
               line = take (n - 1) (ln @ take 1 (drop (length ln) inp))
           in Some (line, drop (length line) inp))"

text \<open>The answer is a signed \<^verbatim>\<open>char\<close>.\<close>

definition getanswer :: "string \<Rightarrow> (char \<times> string) option" where
  "getanswer inp =
     do { (buf, inp) \<leftarrow> fgets BUFSIZ inp; Some (if length buf = 1 then CHR ''z'' else deref buf, inp) }"

definition answer_number :: "char \<Rightarrow> int" where
  "answer_number c = (if byte c < 128 then int (byte c) else int (byte c) - 256) - 48"

lemma fgets_shorter: "fgets n inp = Some (l, r) \<Longrightarrow> 1 < n \<Longrightarrow> length r < length inp"
  by (cases inp) (auto simp: fgets_def Let_def min_def)

lemma getanswer_shorter: "getanswer inp = Some (c, r) \<Longrightarrow> length r < length inp"
  by (auto simp: getanswer_def bind_eq_Some_conv BUFSIZ_def dest!: fgets_shorter split: if_splits)

text \<open>Whether the question is answered with yes; all other answers leave the program.\<close>

definition isexit :: "char \<Rightarrow> string \<Rightarrow> (bool \<times> string) option" where
  "isexit n inp = do { (c, inp) \<leftarrow> getanswer inp; Some (c \<noteq> n, inp) }"

definition isskip :: "string \<Rightarrow> (bool \<times> string) option" where
  "isskip inp = do { (c, inp) \<leftarrow> getanswer inp; Some (c = CHR ''y'', inp) }"

definition start_msg :: "string \<Rightarrow> (bool \<times> string) option" where
  "start_msg inp =
     do { (out, inp) \<leftarrow> isexit CHR ''y'' inp;
          if out then Some (True, inp) else isexit CHR ''y'' inp }"

subsection \<open>Partitions\<close>

text \<open>\<open>m\<close> is the number read last, \<open>None\<close> before the first.\<close>

definition set_bsize :: "cstring \<Rightarrow> int option \<Rightarrow> pa_t \<Rightarrow> (int option \<times> pa_t) option" where
  "set_bsize buf m p =
     do { m \<leftarrow> (case scan_d buf of None \<Rightarrow> m | Some (i, _) \<Rightarrow> Some i);
          Some (Some m, if m \<in> {512, 1024, 2048, 4096, 8192} then p\<lparr>bsize := m\<rparr> else p) }"

definition partition_cmd :: "char \<Rightarrow> string \<Rightarrow> int option \<Rightarrow> pa_t \<Rightarrow> (string \<times> int option \<times> pa_t) option" where
  "partition_cmd j inp m p =
     (if j = CHR ''a'' then Some (inp, m, p\<lparr>flag_act := \<not> flag_act p\<rparr>)
      else if j = CHR ''c'' then Some (inp, m, p\<lparr>flag_ck := \<not> flag_ck p\<rparr>)
      else if j = CHR ''f'' then
        Some (inp, m, p\<lparr>fstype := (if fstype p = EXT2_FS then EXT3_FS else EXT2_FS)\<rparr>)
      else if j = CHR ''m'' then
        do { (buf, inp) \<leftarrow> fgets MAXPATHLEN inp;
             let p = p\<lparr>mntp := chop buf\<rparr>;
             Some (inp, m, if chop buf \<noteq> [] then p\<lparr>flag_act := True\<rparr> else p) }
      else if j = CHR ''b'' then
        do { (buf, inp) \<leftarrow> fgets BUFSIZ inp;
             (m, p) \<leftarrow> set_bsize buf m p;
             Some (inp, m, p) }
      else Some (inp, m, p))"

lemma partition_cmd_shorter: "partition_cmd j inp m p = Some (r, m', p') \<Longrightarrow> length r \<le> length inp"
  by (auto simp: partition_cmd_def bind_eq_Some_conv Let_def MAXPATHLEN_def BUFSIZ_def
      dest!: fgets_shorter split: if_splits)

text \<open>The menu of one partition.\<close>

function partition_menu :: "string \<Rightarrow> int option \<Rightarrow> pa_t \<Rightarrow> (string \<times> int option \<times> pa_t) option" where
  "partition_menu inp m p =
     (case getanswer inp of
        None \<Rightarrow> None
      | Some (j, inp) \<Rightarrow>
          if j = CHR ''x'' then Some (inp, m, p)
          else case partition_cmd j inp m p of
                 None \<Rightarrow> None
               | Some (inp, m, p) \<Rightarrow> partition_menu inp m p)"
  by pat_completeness auto
termination
  by (relation "measure (\<lambda>(inp, m, p). length inp)")
    (auto dest!: getanswer_shorter partition_cmd_shorter)

declare partition_menu.simps [simp del]

lemma partition_menu_shorter: "partition_menu inp m p = Some (r, m', p') \<Longrightarrow> length r < length inp"
proof (induction inp m p rule: partition_menu.induct)
  case (1 inp m p)
  then show ?case
    by (subst (asm) (2) partition_menu.simps)
      (fastforce dest: getanswer_shorter partition_cmd_shorter split: option.splits if_splits prod.splits)
qed

text \<open>The menu of all partitions.\<close>

function set_partition_loop :: "string \<Rightarrow> int option \<Rightarrow> nat \<Rightarrow> pa_t list \<Rightarrow> (string \<times> pa_t list) option" where
  "set_partition_loop inp m num_pat pa =
     (case getanswer inp of
        None \<Rightarrow> None
      | Some (c, inp) \<Rightarrow>
          if c = CHR ''x'' then Some (inp, pa)
          else let i = answer_number c in
            if i < 0 \<or> i > int num_pat - 1 then set_partition_loop inp m num_pat pa
            else case partition_menu inp m (pa ! nat i) of
                   None \<Rightarrow> None
                 | Some (inp, m, p) \<Rightarrow> set_partition_loop inp m num_pat (pa[nat i := p]))"
  by pat_completeness auto
termination
  by (relation "measure (\<lambda>(inp, m, n, pa). length inp)")
    (auto dest!: getanswer_shorter partition_menu_shorter)

declare set_partition_loop.simps [simp del]

definition set_partition :: "string \<Rightarrow> nat \<Rightarrow> pa_t list \<Rightarrow> (string \<times> pa_t list) option" where
  "set_partition inp num_pat pa = set_partition_loop inp None num_pat pa"

subsection \<open>Boot block, media, distributions\<close>

text \<open>The menus that go round a list with one command: the input left and the choice.\<close>

function toggle_menu :: "nat \<Rightarrow> string \<Rightarrow> nat \<Rightarrow> (string \<times> nat) option" where
  "toggle_menu n inp j =
     (case getanswer inp of
        None \<Rightarrow> None
      | Some (i, inp) \<Rightarrow>
          if i = CHR ''x'' then Some (inp, j)
          else if i = CHR ''t'' then toggle_menu n inp (if j + 1 = n then j + 1 - n else j + 1)
          else toggle_menu n inp j)"
  by pat_completeness auto
termination
  by (relation "measure (\<lambda>(n, inp, j). length inp)") (auto dest!: getanswer_shorter)

declare toggle_menu.simps [simp del]

definition set_boot_partition :: "nat \<Rightarrow> string \<Rightarrow> (string \<times> nat) option" where
  "set_boot_partition num_bp inp = toggle_menu num_bp inp 0"

definition set_install_media :: "nat \<Rightarrow> string \<Rightarrow> (string \<times> nat) option" where
  "set_install_media num_md inp = toggle_menu num_md inp 0"

record dist_t =
  dist_name :: cstring
  flag_inst :: bool
  flag_result :: int

definition dist_list :: "dist_t list" where
  "dist_list =
     map (\<lambda>(n, b). \<lparr>dist_name = n, flag_inst = b, flag_result = 0\<rparr>)
       [(''kern'', True), (''base'', True), (''etc'', True), (''comp'', True), (''cross'', True), (''man'', True),
        (''src'', False)]"

definition NUM_DIST :: nat where "NUM_DIST = 7"

function set_distributions :: "string \<Rightarrow> dist_t list \<Rightarrow> (string \<times> dist_t list) option" where
  "set_distributions inp ds =
     (case getanswer inp of
        None \<Rightarrow> None
      | Some (c, inp) \<Rightarrow>
          if c = CHR ''x'' then Some (inp, ds)
          else let i = answer_number c in
            if i < 0 \<or> i > int NUM_DIST - 1 then set_distributions inp ds
            else set_distributions inp (ds[nat i := (ds ! nat i)\<lparr>flag_inst := \<not> flag_inst (ds ! nat i)\<rparr>]))"
  by pat_completeness auto
termination
  by (relation "measure (\<lambda>(inp, ds). length inp)") (auto dest!: getanswer_shorter)

declare set_distributions.simps [simp del]

subsection \<open>Network\<close>

record net_t =
  hostname :: cstring
  domain :: cstring
  ip :: cstring
  mask :: cstring
  cast :: cstring
  route :: cstring
  dns :: cstring

text \<open>
  One command: the lines go into arrays, of which those for addresses have 16 bytes although
  a whole line is read.
\<close>

definition network_cmd :: "char \<Rightarrow> string \<Rightarrow> net_t \<Rightarrow> (string \<times> net_t) option" where
  "network_cmd c inp net =
     (if c = CHR ''0'' then do { (b, inp) \<leftarrow> fgets MAXHOSTNAMELEN inp; Some (inp, net\<lparr>hostname := chop b\<rparr>) }
      else if c = CHR ''1'' then do { (b, inp) \<leftarrow> fgets MAXHOSTNAMELEN inp; Some (inp, net\<lparr>domain := chop b\<rparr>) }
      else if c = CHR ''2'' then
        do { (b, inp) \<leftarrow> fgets BUFSIZ inp; v \<leftarrow> chop_into IPADDRESSLEN b; Some (inp, net\<lparr>ip := v\<rparr>) }
      else if c = CHR ''3'' then
        do { (b, inp) \<leftarrow> fgets BUFSIZ inp; v \<leftarrow> chop_into IPADDRESSLEN b; Some (inp, net\<lparr>mask := v\<rparr>) }
      else if c = CHR ''4'' then
        do { (b, inp) \<leftarrow> fgets BUFSIZ inp; v \<leftarrow> chop_into IPADDRESSLEN b; Some (inp, net\<lparr>cast := v\<rparr>) }
      else if c = CHR ''5'' then
        do { (b, inp) \<leftarrow> fgets BUFSIZ inp; v \<leftarrow> chop_into IPADDRESSLEN b; Some (inp, net\<lparr>route := v\<rparr>) }
      else if c = CHR ''6'' then
        do { (b, inp) \<leftarrow> fgets BUFSIZ inp; v \<leftarrow> chop_into IPADDRESSLEN b; Some (inp, net\<lparr>dns := v\<rparr>) }
      else Some (inp, net))"

definition class_mask :: "u32 \<Rightarrow> u32" where
  "class_mask p =
     (let q = drop_bit 30 p AND 3 in
      if drop_bit 1 q AND 1 = 0 then 0xff000000 else if q = 2 then 0xffff0000 else 0xffffff00)"

text \<open>What is filled in once there is an address.\<close>

definition fill_network :: "net_t \<Rightarrow> net_t option" where
  "fill_network net =
     (if ip net = [] then Some net
      else do { p \<leftarrow> ip2int (ip net);
                let m = class_mask p;
                let net = (if route net = [] then net\<lparr>route := ip net\<rparr> else net);
                let net = (if mask net = [] then net\<lparr>mask := ip2char m\<rparr> else net);
                Some (if cast net = [] then net\<lparr>cast := ip2char (p OR NOT m)\<rparr> else net) })"

lemma network_cmd_shorter: "network_cmd c inp net = Some (r, net') \<Longrightarrow> length r \<le> length inp"
  by (auto simp: network_cmd_def bind_eq_Some_conv MAXHOSTNAMELEN_def BUFSIZ_def
      dest!: fgets_shorter split: if_splits)

function network_menu :: "string \<Rightarrow> net_t \<Rightarrow> (string \<times> net_t) option" where
  "network_menu inp net =
     (case getanswer inp of
        None \<Rightarrow> None
      | Some (c, inp) \<Rightarrow>
          if c = CHR ''x'' then Some (inp, net)
          else case network_cmd c inp net of
                 None \<Rightarrow> None
               | Some (inp, net) \<Rightarrow>
                   (case fill_network net of None \<Rightarrow> None | Some net \<Rightarrow> network_menu inp net))"
  by pat_completeness auto
termination
  by (relation "measure (\<lambda>(inp, net). length inp)")
    (auto dest!: getanswer_shorter network_cmd_shorter)

declare network_menu.simps [simp del]

text \<open>The mask and the broadcast address are not cleared before.\<close>

definition set_network :: "string \<Rightarrow> net_t \<Rightarrow> (string \<times> net_t) option" where
  "set_network inp net =
     network_menu inp (net\<lparr>hostname := [], domain := [], ip := [], route := [], dns := []\<rparr>)"

subsection \<open>FTP\<close>

record ftp_t =
  server :: cstring
  remote_dir :: cstring
  local_dir :: cstring
  proxy :: cstring
  login :: cstring
  passwd :: cstring

definition ftp_cmd :: "char \<Rightarrow> string \<Rightarrow> ftp_t \<Rightarrow> (string \<times> ftp_t) option" where
  "ftp_cmd c inp ftp =
     (if c = CHR ''0'' then do { (b, inp) \<leftarrow> fgets MAXHOSTNAMELEN inp; Some (inp, ftp\<lparr>server := chop b\<rparr>) }
      else if c = CHR ''1'' then do { (b, inp) \<leftarrow> fgets MAXPATHLEN inp; Some (inp, ftp\<lparr>remote_dir := chop b\<rparr>) }
      else if c = CHR ''2'' then do { (b, inp) \<leftarrow> fgets MAXPATHLEN inp; Some (inp, ftp\<lparr>local_dir := chop b\<rparr>) }
      else if c = CHR ''3'' then do { (b, inp) \<leftarrow> fgets MAXHOSTNAMELEN inp; Some (inp, ftp\<lparr>proxy := chop b\<rparr>) }
      else if c = CHR ''4'' then
        do { (b, inp) \<leftarrow> fgets BUFSIZ inp; v \<leftarrow> chop_into NAMELEN b; Some (inp, ftp\<lparr>login := v\<rparr>) }
      else if c = CHR ''5'' then
        do { (b, inp) \<leftarrow> fgets BUFSIZ inp; v \<leftarrow> chop_into (NAMELEN * 3) b; Some (inp, ftp\<lparr>passwd := v\<rparr>) }
      else Some (inp, ftp))"

lemma ftp_cmd_shorter: "ftp_cmd c inp ftp = Some (r, ftp') \<Longrightarrow> length r \<le> length inp"
  by (auto simp: ftp_cmd_def bind_eq_Some_conv MAXHOSTNAMELEN_def MAXPATHLEN_def BUFSIZ_def
      dest!: fgets_shorter split: if_splits)

function ftp_menu :: "string \<Rightarrow> ftp_t \<Rightarrow> (string \<times> ftp_t) option" where
  "ftp_menu inp ftp =
     (case getanswer inp of
        None \<Rightarrow> None
      | Some (c, inp) \<Rightarrow>
          if c = CHR ''x'' then Some (inp, ftp)
          else case ftp_cmd c inp ftp of None \<Rightarrow> None | Some (inp, ftp) \<Rightarrow> ftp_menu inp ftp)"
  by pat_completeness auto
termination
  by (relation "measure (\<lambda>(inp, ftp). length inp)") (auto dest!: getanswer_shorter ftp_cmd_shorter)

declare ftp_menu.simps [simp del]

text \<open>The names of the release and of the architecture are set when the program is built.\<close>

definition default_ftp :: "cstring \<Rightarrow> cstring \<Rightarrow> net_t \<Rightarrow> ftp_t" where
  "default_ftp release arch net =
     \<lparr>server = ''ftp.plathome.co.jp'',
      remote_dir = snprintf MAXPATHLEN (''/pub/ssdlinux/'' @ release @ ''/'' @ arch @ ''/binary''),
      local_dir = ''/usr/INST'', proxy = [], login = ''ftp'',
      passwd = (if domain net \<noteq> [] then snprintf (NAMELEN * 3) (''root@'' @ domain net) else ''Your_Mail_Address'')\<rparr>"

definition set_ftp :: "cstring \<Rightarrow> cstring \<Rightarrow> string \<Rightarrow> net_t \<Rightarrow> (string \<times> ftp_t) option" where
  "set_ftp release arch inp net = ftp_menu inp (default_ftp release arch net)"

subsection \<open>Properties\<close>

text \<open>What the menu of a partition leaves as it is.\<close>

definition menu_kept :: "pa_t \<Rightarrow> pa_t \<Rightarrow> bool" where
  "menu_kept p q =
     ((pa_ok p \<longrightarrow> pa_ok q) \<and> device q = device p \<and> opt q = opt p \<and> fck1 q = fck1 p \<and> fck2 q = fck2 p)"

lemma menu_kept_trans: "menu_kept p q \<Longrightarrow> menu_kept q r \<Longrightarrow> menu_kept p r"
  by (auto simp: menu_kept_def)

lemma menu_kept_refl: "menu_kept p p"
  by (simp add: menu_kept_def)

lemma menu_kept_bsize: "b \<in> {512, 1024, 2048, 4096, 8192} \<Longrightarrow> menu_kept p (p\<lparr>bsize := b\<rparr>)"
  by (simp add: menu_kept_def device_def pa_ok_def)

lemma length_chop: "length (chop s) \<le> length s"
  by (simp add: chop_def length_takeWhile_le)

lemma length_fgets: "fgets n inp = Some (l, r) \<Longrightarrow> length l \<le> n - 1"
  by (auto simp: fgets_def Let_def split: if_splits)

lemma set_bsize_kept: "set_bsize buf m p = Some (m', q) \<Longrightarrow> menu_kept p q"
  using menu_kept_bsize menu_kept_refl
  by (auto simp: set_bsize_def bind_eq_Some_conv simp del: insert_iff split: if_splits)

lemma partition_cmd_kept:
  assumes "partition_cmd j inp m p = Some (r, m', q)"
  shows "menu_kept p q"
proof -
  have mntp: "length (chop b) < 4096" if "fgets MAXPATHLEN inp = Some (b, r)" for b r
    using length_fgets [OF that] length_chop [of b] by (simp add: MAXPATHLEN_def)
  show ?thesis
    using assms unfolding partition_cmd_def
    by (auto simp: bind_eq_Some_conv Let_def menu_kept_def pa_ok_def device_def EXT2_FS_def EXT3_FS_def NAMELEN_def
        mntp split: if_splits dest!: set_bsize_kept)
qed

lemma partition_menu_kept: "partition_menu inp m p = Some (r, m', q) \<Longrightarrow> menu_kept p q"
proof (induction inp m p rule: partition_menu.induct)
  case (1 inp m p)
  obtain j i where g: "getanswer inp = Some (j, i)"
    using 1(2) by (subst (asm) partition_menu.simps) (auto split: option.splits)
  show ?case
  proof (cases "j = CHR ''x''")
    case True
    then show ?thesis using 1(2) g by (subst (asm) partition_menu.simps) (simp add: menu_kept_def)
  next
    case False
    then obtain i' m1 p1 where c: "partition_cmd j i m p = Some (i', m1, p1)"
      and n: "partition_menu i' m1 p1 = Some (r, m', q)"
      using 1(2) g by (subst (asm) partition_menu.simps) (auto split: option.splits)
    show ?thesis
      using 1(1) [OF g refl False c refl refl n] partition_cmd_kept [OF c] menu_kept_trans by blast
  qed
qed

lemma set_partition_loop_kept:
  "set_partition_loop inp m n pa = Some (r, pa') \<Longrightarrow> n \<le> length pa \<Longrightarrow> list_all2 menu_kept pa pa'"
proof (induction inp m n pa rule: set_partition_loop.induct)
  case (1 inp m n pa)
  obtain c i where g: "getanswer inp = Some (c, i)"
    using 1(3) by (subst (asm) set_partition_loop.simps) (auto split: option.splits)
  have same: "list_all2 menu_kept pa pa" by (rule list_all2_refl) (simp add: menu_kept_def)
  let ?k = "answer_number c"
  consider (x) "c = CHR ''x''" | (bad) "c \<noteq> CHR ''x''" "?k < 0 \<or> ?k > int n - 1"
    | (ok) "c \<noteq> CHR ''x''" "\<not> (?k < 0 \<or> ?k > int n - 1)" by blast
  then show ?case
  proof cases
    case x
    then show ?thesis using 1(3) g same by (subst (asm) set_partition_loop.simps) simp
  next
    case bad
    then have "set_partition_loop i m n pa = Some (r, pa')"
      using 1(3) g by (subst (asm) set_partition_loop.simps) (simp add: Let_def)
    then show ?thesis using 1(1) [OF g refl bad(1) refl bad(2)] 1(4) by blast
  next
    case ok
    then obtain i' m' p where p: "partition_menu i m (pa ! nat ?k) = Some (i', m', p)"
      and n: "set_partition_loop i' m' n (pa[nat ?k := p]) = Some (r, pa')"
      using 1(3) g by (subst (asm) set_partition_loop.simps) (auto simp: Let_def split: option.splits)
    have "list_all2 menu_kept pa (pa[nat ?k := p])"
      using same partition_menu_kept [OF p] ok(2) 1(4) by (auto simp: list_all2_conv_all_nth nth_list_update)
    moreover have "list_all2 menu_kept (pa[nat ?k := p]) pa'"
      using 1(2) [OF g refl ok(1) refl ok(2) p refl refl n] 1(4) by simp
    ultimately show ?thesis using list_all2_trans menu_kept_trans by blast
  qed
qed

lemma set_partition_kept:
  assumes "set_partition inp n pa = Some (r, pa')" "n \<le> length pa"
  shows "list_all2 menu_kept pa pa'" "length pa' = length pa" "map device pa' = map device pa"
    "list_all pa_ok pa \<longrightarrow> list_all pa_ok pa'"
proof -
  show k: "list_all2 menu_kept pa pa'" using assms set_partition_loop_kept by (simp add: set_partition_def)
  then show "length pa' = length pa" "map device pa' = map device pa" "list_all pa_ok pa \<longrightarrow> list_all pa_ok pa'"
    by (auto simp: list_all2_conv_all_nth list_all_length menu_kept_def intro: nth_equalityI)
qed

text \<open>
  C31. The table of the partitions stays well formed through the menus of the partitions and of the
  root: every name, mount point, type and option fits its array; every block size is one of 512,
  1024, 2048, 4096 and 8192, except that a swap partition and the two file systems of the kernel
  may have none (0); which devices the table names, how large they are, which can be booted and which are for swapping
  does not change, and the root is one of them and mounted at \<^verbatim>\<open>/\<close>.
\<close>

theorem table_stays_ok:
  assumes "pat_array hds num_hd = Some (n, pa, bp)" "set_partition inp n pa = Some (r, pa1)"
    "set_root_partition pa1 n = Some (i, pa2)"
  shows "list_all pa_ok pa2 \<and> map device pa2 = map device pa \<and> i < n \<and> mntp (pa2 ! i) = ''/''"
proof -
  have n: "n \<le> length pa" using pat_array_table [OF assms(1)] by simp
  have n1: "n \<le> length pa1" using set_partition_kept(2) [OF assms(2) n] n by simp
  show ?thesis
    using set_root_keeps [OF assms(3) n1] set_partition_kept [OF assms(2) n] pat_array_ok [OF assms(1)] by simp
qed

lemma fgets_line:
  assumes "NL \<notin> set l" "length l + 1 < n"
  shows "fgets n (l @ NL # r) = Some (l @ [NL], r)"
proof -
  have "takeWhile (\<lambda>c. c \<noteq> NL) (l @ NL # r) = l"
    using assms(1) by (induction l) auto
  then show ?thesis using assms(2) by (simp add: fgets_def Let_def)
qed

lemma getanswer_char: "c \<noteq> NL \<Longrightarrow> getanswer (c # NL # r) = Some (c, r)"
  using fgets_line [of "[c]" BUFSIZ r] by (simp add: getanswer_def BUFSIZ_def)

lemma isskip_char: "c \<noteq> NL \<Longrightarrow> isskip (c # NL # r) = Some (c = CHR ''y'', r)"
  by (simp add: isskip_def getanswer_char)

lemma start_msg_yes: "start_msg (CHR ''y'' # NL # CHR ''y'' # NL # r) = Some (False, r)"
  by (simp add: start_msg_def isexit_def getanswer_char)

lemma toggle_menu_x: "toggle_menu n (CHR ''x'' # NL # r) j = Some (r, j)"
  by (subst toggle_menu.simps) (simp add: getanswer_char)

lemma set_partition_x: "set_partition (CHR ''x'' # NL # r) n pa = Some (r, pa)"
  unfolding set_partition_def by (subst set_partition_loop.simps) (simp add: getanswer_char)

lemma set_distributions_x: "set_distributions (CHR ''x'' # NL # r) ds = Some (r, ds)"
  by (subst set_distributions.simps) (simp add: getanswer_char)

lemma toggle_menu_steps:
  assumes "NL \<notin> set cs" "CHR ''x'' \<notin> set cs" "j < n"
  shows "toggle_menu n (concat (map (\<lambda>c. [c, NL]) cs) @ [CHR ''x'', NL] @ r) j =
     Some (r, (j + count_list cs CHR ''t'') mod n)"
  using assms
proof (induction cs arbitrary: j)
  case Nil
  then show ?case by (simp add: toggle_menu_x)
next
  case (Cons c cs)
  let ?inp = "concat (map (\<lambda>c. [c, NL]) cs) @ [CHR ''x'', NL] @ r"
  let ?j = "if c = CHR ''t'' then (if j + 1 = n then j + 1 - n else j + 1) else j"
  have "toggle_menu n (concat (map (\<lambda>c. [c, NL]) (c # cs)) @ [CHR ''x'', NL] @ r) j = toggle_menu n ?inp ?j"
    using Cons.prems getanswer_char [of c ?inp] by (subst toggle_menu.simps) auto
  also have "\<dots> = Some (r, (?j + count_list cs CHR ''t'') mod n)"
    using Cons.prems by (intro Cons.IH) auto
  also have "(?j + count_list cs CHR ''t'') mod n = (j + count_list (c # cs) CHR ''t'') mod n"
  proof (cases "c = CHR ''t'' \<and> j + 1 = n")
    case True
    then have "j + count_list (c # cs) CHR ''t'' = n + count_list cs CHR ''t''" by simp
    then show ?thesis using True by (simp only: mod_add_self1 if_True simp_thms) simp
  qed auto
  finally show ?case .
qed

text \<open>
  The menus for the boot block and the medium: \<^verbatim>\<open>t\<close> goes on to the next entry and round
  at the end, other answers change nothing, and \<^verbatim>\<open>x\<close> takes the entry.
\<close>

theorem toggle_menu_counts:
  assumes "NL \<notin> set cs" "CHR ''x'' \<notin> set cs" "0 < num_md"
  shows "set_install_media num_md (concat (map (\<lambda>c. [c, NL]) cs) @ [CHR ''x'', NL] @ r) =
     Some (r, count_list cs CHR ''t'' mod num_md)"
  using toggle_menu_steps [OF assms] by (simp add: set_install_media_def)

theorem toggle_menu_counts_witness:
  "set_install_media 2 (concat (map (\<lambda>c. [c, NL]) ''tqtt'') @ [CHR ''x'', NL] @ ''rest'') = Some (''rest'', 1)"
  using toggle_menu_counts [of "''tqtt''" 2 "''rest''"] by simp

text \<open>
  The mask that is filled in is the one of the class of the address, by its first octet.
\<close>

theorem class_mask_octet:
  "class_mask p =
     (let a = unat p div 2 ^ 24 in if a < 128 then 0xff000000 else if a < 192 then 0xffff0000 else 0xffffff00)"
proof -
  define w where "w = drop_bit 30 p"
  have u: "unat w = unat p div 2 ^ 30"
    unfolding w_def unat_drop_bit_eq by (simp add: drop_bit_eq_div)
  then have l: "unat w < 4" using unat_u32 [of p] by simp
  have c: "unat p div 2 ^ 24 < 128 \<longleftrightarrow> unat w < 2" "unat p div 2 ^ 24 < 192 \<longleftrightarrow> unat w < 3"
    unfolding u by (simp; linarith)+
  consider "w = 0" | "w = 1" | "w = 2" | "w = 3"
    using l word_unat_eq_iff [of w 0] word_unat_eq_iff [of w 1] word_unat_eq_iff [of w 2] word_unat_eq_iff [of w 3]
    by fastforce
  then show ?thesis
    unfolding class_mask_def Let_def c w_def [symmetric] by cases simp_all
qed

text \<open>The broadcast address that is filled in does not depend on the mask that was entered.\<close>

theorem cast_ignores_mask:
  assumes "ip net \<noteq> []" "ip2int (ip net) = Some p" "cast net = []"
  shows "map_option cast (fill_network (net\<lparr>mask := m\<rparr>)) = Some (ip2char (p OR NOT (class_mask p)))"
  using assms by (simp add: fill_network_def Let_def)


text \<open>The table of the small machine, with the root on an ext3 file system.\<close>

definition demo_ext3 :: "pa_t list" where
  "demo_ext3 = demo_pas[0 := (demo_pas ! 0)\<lparr>fstype := EXT3_FS\<rparr>]"

lemma demo_menu: "set_partition (concat (map (\<lambda>c. [c, NL]) ''0fxx'')) 2 demo_pas = Some ([], demo_ext3)"
proof -
  have "partition_menu [CHR ''f'', NL, CHR ''x'', NL, CHR ''x'', NL] None (demo_pas ! 0) =
      Some ([CHR ''x'', NL], None, (demo_pas ! 0)\<lparr>fstype := EXT3_FS\<rparr>)"
    by (subst partition_menu.simps, simp add: getanswer_char partition_cmd_def demo_pas_def linux_entry_def)
      (subst partition_menu.simps, simp add: getanswer_char)
  then show ?thesis
    unfolding set_partition_def
    by (subst set_partition_loop.simps)
      (simp add: getanswer_char answer_number_def byte_def demo_ext3_def, subst set_partition_loop.simps, simp add: getanswer_char)
qed

theorem table_stays_ok_witness:
  "list_all pa_ok (demo_ext3[0 := (demo_ext3 ! 0)\<lparr>fck1 := 0, fck2 := 0\<rparr>]) \<and>
   map device (demo_ext3[0 := (demo_ext3 ! 0)\<lparr>fck1 := 0, fck2 := 0\<rparr>]) = map device demo_pas"
proof -
  have "set_root_partition demo_ext3 2 = Some (0, demo_ext3[0 := (demo_ext3 ! 0)\<lparr>fck1 := 0, fck2 := 0\<rparr>])"
    by code_simp
  from table_stays_ok [OF demo_pat demo_menu this] show ?thesis by simp
qed

end
