(* ===== verification/Sysinst.thy ===== *)
theory Sysinst
  imports Instmenu
begin

text \<open>
  The installer (\<^verbatim>\<open>distrib/utils/sysinst/sysinst.c\<close>, as built for i386): what it does to
  the machine, and its main program.

  The program acts on the machine through shell commands and files; a step appends what it does
  to the log \<open>acts\<close>. How the machine answers depends on what was done before, so the answers
  are functions of the log: whether a process can be started, whether a file can be opened and
  whether one exists.
\<close>

subsection \<open>Steps\<close>

datatype act =
    System cstring
  | Popen cstring
  | Write cstring cstring
  | Append cstring cstring

record inst_os =
  machine :: inst_env
  can_start :: "act list \<Rightarrow> bool"
  can_open :: "act list \<Rightarrow> cstring \<Rightarrow> bool"
  there :: "act list \<Rightarrow> cstring \<Rightarrow> bool"
  dist_arch :: cstring
  release_name :: cstring
  kernel_version :: cstring

text \<open>The variable \<open>dhcp\<close> has no value (\<open>None\<close>) until it is assigned one.\<close>

record inst_st =
  inp :: string
  acts :: "act list"
  dists :: "dist_t list"
  hds :: "hd_t list"
  mds :: "md_t list"
  pas :: "pa_t list"
  bps :: "bp_t list"
  num_hd :: nat
  num_md :: nat
  num_pat :: nat
  root_pat :: nat
  act_bp :: nat
  act_md :: nat
  pccard :: bool
  dhcp :: "bool option"
  net :: net_t
  ftp :: ftp_t

text \<open>A step has no defined result, has left the program with an exit code (\<open>Inl\<close>), or goes on (\<open>Inr\<close>).\<close>

type_synonym inst = "inst_st \<Rightarrow> (int \<times> inst_st + inst_st) option"

fun seq :: "inst list \<Rightarrow> inst" where
  "seq [] s = Some (Inr s)"
| "seq (f # fs) s =
     (case f s of
        None \<Rightarrow> None
      | Some (Inl t) \<Rightarrow> Some (Inl t)
      | Some (Inr t) \<Rightarrow> seq fs t)"

definition skip :: inst where "skip s = Some (Inr s)"

definition exit_prog :: "int \<Rightarrow> inst" where "exit_prog c s = Some (Inl (c, s))"

definition log_act :: "act \<Rightarrow> inst_st \<Rightarrow> inst_st" where
  "log_act a s = s\<lparr>acts := acts s @ [a]\<rparr>"

definition s_system :: "inst_os \<Rightarrow> cstring \<Rightarrow> inst" where
  "s_system os command s =
     (if can_start os (acts s) then Some (Inr (log_act (System command) s)) else exit_prog 1 s)"

definition s_popen :: "inst_os \<Rightarrow> cstring \<Rightarrow> inst" where
  "s_popen os command s =
     (if can_start os (acts s) then Some (Inr (log_act (Popen command) s)) else exit_prog 1 s)"

text \<open>A file that cannot be opened is written through NULL.\<close>

definition wr_file :: "inst_os \<Rightarrow> cstring \<Rightarrow> cstring \<Rightarrow> inst" where
  "wr_file os name text s =
     (if can_open os (acts s) name then Some (Inr (log_act (Write name text) s)) else None)"

definition app_file :: "inst_os \<Rightarrow> cstring \<Rightarrow> cstring \<Rightarrow> inst" where
  "app_file os name text s =
     (if can_open os (acts s) name then Some (Inr (log_act (Append name text) s)) else None)"

text \<open>A menu: what it reads is gone from the input.\<close>

definition menu :: "(string \<Rightarrow> (string \<times> 'a) option) \<Rightarrow> ('a \<Rightarrow> inst_st \<Rightarrow> inst_st) \<Rightarrow> inst" where
  "menu f k s = (case f (inp s) of None \<Rightarrow> None | Some (r, x) \<Rightarrow> Some (Inr (k x (s\<lparr>inp := r\<rparr>))))"

definition if_yes :: "inst \<Rightarrow> inst" where
  "if_yes f s =
     (case isskip (inp s) of
        None \<Rightarrow> None
      | Some (q, r) \<Rightarrow> if q then f (s\<lparr>inp := r\<rparr>) else Some (Inr (s\<lparr>inp := r\<rparr>)))"

text \<open>A test of \<open>dhcp\<close>; before an assignment it has no defined result.\<close>

definition if_dhcp :: "inst \<Rightarrow> inst \<Rightarrow> inst" where
  "if_dhcp f g s = (case dhcp s of None \<Rightarrow> None | Some d \<Rightarrow> if d then f s else g s)"

abbreviation TARGET_MOUNT_POINT :: cstring where "TARGET_MOUNT_POINT \<equiv> ''/mnt''"

abbreviation CDROM_MOUNT_POINT :: cstring where "CDROM_MOUNT_POINT \<equiv> ''/cdrom''"

abbreviation DIST_PATH :: cstring where "DIST_PATH \<equiv> ''binary''"

abbreviation fmt :: "cstring \<Rightarrow> cstring" where "fmt \<equiv> snprintf BUFSIZ"

subsection \<open>File systems\<close>

definition FSCKOPT :: "bool \<Rightarrow> cstring" where
  "FSCKOPT b = (if b then ''-c'' else [])"

definition mkswap_step :: "inst_os \<Rightarrow> pa_t \<Rightarrow> inst" where
  "mkswap_step os p =
     (if flag_act p \<and> flag_swap p
      then seq [s_system os (fmt (''/sbin/mkswap '' @ FSCKOPT (flag_ck p) @ '' '' @ pa_name p)),
                app_file os ''/etc/fstab'' (pa_name p @ '' swap swap defaults 0 0'' @ [NL])]
      else skip)"

definition run_mkswap :: "inst_os \<Rightarrow> pa_t list \<Rightarrow> nat \<Rightarrow> inst" where
  "run_mkswap os pa n =
     seq (map (mkswap_step os) (take n pa) @ [s_system os ''/sbin/swapon -a''])"

definition mke2fs_step :: "inst_os \<Rightarrow> pa_t \<Rightarrow> inst" where
  "mke2fs_step os p =
     (if flag_act p \<and> \<not> flag_swap p
      then s_system os (fmt (''/sbin/mke2fs '' @ (if fstype p = EXT2_FS then [] else ''-j '') @
                             FSCKOPT (flag_ck p) @ '' -b '' @ dec (bsize p) @ '' '' @ pa_name p))
      else skip)"

definition run_mke2fs :: "inst_os \<Rightarrow> pa_t list \<Rightarrow> nat \<Rightarrow> inst" where
  "run_mke2fs os pa n = seq (map (mke2fs_step os) (take n pa))"

text \<open>The partitions that are mounted besides the root.\<close>

definition others :: "pa_t list \<Rightarrow> nat \<Rightarrow> nat \<Rightarrow> pa_t list" where
  "others pa n root =
     map (nth pa) (filter (\<lambda>i. i \<noteq> root \<and> flag_act (pa ! i) \<and> \<not> flag_swap (pa ! i)) [0..<n])"

definition do_mount :: "inst_os \<Rightarrow> pa_t list \<Rightarrow> nat \<Rightarrow> nat \<Rightarrow> inst" where
  "do_mount os pa n root =
     seq ([s_system os (fmt (''/sbin/mount -t '' @ fstype (pa ! root) @ '' '' @ pa_name (pa ! root) @ '' '' @
                             TARGET_MOUNT_POINT)),
           s_system os (fmt (''/bin/mkdir '' @ TARGET_MOUNT_POINT @ ''/tmp'')),
           s_system os (fmt (''/bin/chmod 1777 '' @ TARGET_MOUNT_POINT @ ''/tmp'')),
           s_system os (fmt (''TMPDIR='' @ TARGET_MOUNT_POINT @ ''/tmp && export TMPDIR''))] @
          map (\<lambda>p. seq
             [s_system os (fmt (''/bin/mkdir -p '' @ TARGET_MOUNT_POINT @ mntp p)),
              s_system os (fmt (''/sbin/mount -t '' @ fstype p @ '' '' @ pa_name p @ '' '' @
                                TARGET_MOUNT_POINT @ ''/'' @ mntp p))])
            (others pa n root))"

definition do_umount :: "inst_os \<Rightarrow> pa_t list \<Rightarrow> nat \<Rightarrow> nat \<Rightarrow> inst" where
  "do_umount os pa n root =
     seq (map (\<lambda>p. s_system os (fmt (''/sbin/umount '' @ TARGET_MOUNT_POINT @ ''/'' @ mntp p)))
            (others pa n root) @
          [s_system os (fmt ''TMPDIR=/tmp && export TMPDIR''),
           s_system os (fmt (''/sbin/umount '' @ TARGET_MOUNT_POINT))])"

subsection \<open>Distributions\<close>

definition set_result :: "nat \<Rightarrow> int \<Rightarrow> inst" where
  "set_result i r s = Some (Inr (s\<lparr>dists := (dists s)[i := (dists s ! i)\<lparr>flag_result := r\<rparr>]\<rparr>))"

definition extract_step :: "inst_os \<Rightarrow> (cstring \<Rightarrow> cstring) \<Rightarrow> nat \<Rightarrow> inst" where
  "extract_step os file i s =
     (if flag_inst (dists s ! i)
      then let buf = fmt (file (dist_name (dists s ! i)));
               str = fmt (''cd '' @ TARGET_MOUNT_POINT @ '' && /usr/bin/tar xvpzf '' @ buf)
           in if there os (acts s) buf then seq [s_popen os str, set_result i 1] s else set_result i (- 1) s
      else skip s)"

definition do_extract_from_cdrom :: "inst_os \<Rightarrow> cstring \<Rightarrow> inst" where
  "do_extract_from_cdrom os name =
     seq ([s_system os (fmt (''/sbin/mount -rt iso9660 '' @ name @ '' '' @ CDROM_MOUNT_POINT))] @
          map (extract_step os
                 (\<lambda>d. CDROM_MOUNT_POINT @ ''/'' @ dist_arch os @ ''/'' @ DIST_PATH @ ''/'' @ d @ ''.tgz''))
            [0..<NUM_DIST] @
          [s_system os (fmt (''/sbin/umount '' @ CDROM_MOUNT_POINT))])"

definition fetch_step :: "inst_os \<Rightarrow> ftp_t \<Rightarrow> nat \<Rightarrow> inst" where
  "fetch_step os f i s =
     (if flag_inst (dists s ! i)
      then s_popen os (fmt (''cd '' @ TARGET_MOUNT_POINT @ local_dir f @ '' && /usr/bin/ftp ftp://'' @
             login f @ '':'' @ at2per (passwd f) @ ''@'' @ server f @ remote_dir f @ ''/'' @
             dist_name (dists s ! i) @ ''.tgz'')) s
      else skip s)"

definition do_ftp :: "inst_os \<Rightarrow> ftp_t \<Rightarrow> inst" where
  "do_ftp os f =
     seq ([s_system os (fmt (''/bin/mkdir -p '' @ TARGET_MOUNT_POINT @ local_dir f))] @
          map (fetch_step os f) [0..<NUM_DIST])"

definition do_extract_from_ftp :: "inst_os \<Rightarrow> ftp_t \<Rightarrow> inst" where
  "do_extract_from_ftp os f =
     seq (map (extract_step os (\<lambda>d. TARGET_MOUNT_POINT @ local_dir f @ ''/'' @ d @ ''.tgz'')) [0..<NUM_DIST])"

definition set_proxy :: "inst_os \<Rightarrow> ftp_t \<Rightarrow> inst" where
  "set_proxy os f =
     (if proxy f \<noteq> [] then s_system os (fmt (''set ftp_proxy='' @ proxy f @ '' && export ftp_proxy'')) else skip)"

subsection \<open>Network\<close>

text \<open>The name of a medium as a text: its array may have no terminator.\<close>

definition md_text :: "md_t \<Rightarrow> cstring option" where
  "md_text m = (if NUL \<in> set (md_name m) then Some (c_str (md_name m)) else None)"

definition with_name :: "md_t \<Rightarrow> (cstring \<Rightarrow> inst) \<Rightarrow> inst" where
  "with_name m f s = (case md_text m of None \<Rightarrow> None | Some n \<Rightarrow> f n s)"

definition run_dhclient :: "inst_os \<Rightarrow> cstring \<Rightarrow> inst" where
  "run_dhclient os name = s_popen os (fmt (''/sbin/dhclient -q '' @ name))"

definition set_dhcp :: "inst_os \<Rightarrow> cstring \<Rightarrow> inst" where
  "set_dhcp os name s =
     (case getanswer (inp s) of
        None \<Rightarrow> None
      | Some (c, r) \<Rightarrow>
          let s = s\<lparr>inp := r, dhcp := Some (c = CHR ''y'')\<rparr> in
          if c = CHR ''y'' then run_dhclient os name s else Some (Inr s))"

definition do_network :: "inst_os \<Rightarrow> cstring \<Rightarrow> net_t \<Rightarrow> inst" where
  "do_network os name n =
     seq [s_system os (fmt (''/sbin/ifconfig '' @ name @ '' inet '' @ ip n @ '' broadcast '' @ cast n @
                            '' netmask '' @ mask n)),
          s_system os (fmt (''/sbin/route add defualt gw '' @ route n @ '' 0.0.0.0 metric 1''))]"

subsection \<open>Files of the new system\<close>

definition do_installboot :: "inst_os \<Rightarrow> cstring \<Rightarrow> inst" where
  "do_installboot os name =
     seq [s_system os (fmt (''ln -sf '' @ TARGET_MOUNT_POINT @ ''/boot /boot'')),
          s_popen os (fmt (''/usr/mdec/installboot --root-directory='' @ TARGET_MOUNT_POINT @ '' '' @ name))]"

abbreviation TAB :: char where "TAB \<equiv> CHR 0x09"

definition menulst_text :: "inst_os \<Rightarrow> int \<Rightarrow> int \<Rightarrow> cstring \<Rightarrow> cstring" where
  "menulst_text os dev lu bp =
     (let ver = release_name os @ ''/'' @ kernel_version os in
      ''# Boot automatically after 30 secs.'' @ [NL] @ ''timeout'' @ [TAB] @ ''30'' @ [NL, NL] @
      ''# By default, boot the first entry.'' @ [NL] @ ''default'' @ [TAB] @ ''0'' @ [NL, NL] @
      ''# Fallback to the second entry.'' @ [NL] @ ''fallback'' @ [TAB] @ ''1'' @ [NL, NL] @
      ''# For booting SSD/Linux '' @ ver @ [NL] @
      ''title'' @ [TAB] @ ''SSD/Linux '' @ ver @ [NL] @
      ''root'' @ [TAB] @ ''(hd'' @ dec dev @ '','' @ dec lu @ '')'' @ [NL] @
      ''kernel'' @ [TAB] @ ''/vmlinuz root='' @ bp @ [NL, NL] @
      ''# For booting SSD/Linux '' @ ver @ '' from FD'' @ [NL] @
      ''title'' @ [TAB] @ ''SSD/Linux '' @ ver @ '' from FD'' @ [NL] @
      ''root'' @ [TAB] @ ''(fd0)'' @ [NL] @
      ''kernel'' @ [TAB] @ ''/bzImage root=/dev/ram'' @ [NL] @
      ''pause'' @ [TAB] @ ''Insert instfs floppy disk and type any key.'' @ [NL] @
      ''initrd'' @ [TAB] @ ''/initrd.fs.gz'' @ [NL])"

definition wr_menulst :: "inst_os \<Rightarrow> cstring \<Rightarrow> inst" where
  "wr_menulst os bp s =
     (case (getdevnum bp 7, getlu bp 8) of
        (Some dev, Some lu) \<Rightarrow>
          wr_file os (fmt (TARGET_MOUNT_POINT @ ''/boot/grub/menu.lst'')) (menulst_text os dev (lu - 1) bp) s
      | _ \<Rightarrow> None)"

definition run_makedev :: "inst_os \<Rightarrow> inst" where
  "run_makedev os =
     s_popen os (fmt (''cd '' @ TARGET_MOUNT_POINT @ ''/dev && '' @ TARGET_MOUNT_POINT @ ''/dev/MAKEDEV generic''))"

definition fstab_line :: "pa_t \<Rightarrow> cstring" where
  "fstab_line p =
     (if flag_act p
      then pa_name p @ [TAB] @ mntp p @ [TAB] @ fstype p @ [TAB] @ opt p @ [TAB] @ dec (fck1 p) @ '' '' @
           dec (fck2 p) @ [NL]
      else [])"

definition wr_fstab :: "inst_os \<Rightarrow> pa_t list \<Rightarrow> nat \<Rightarrow> inst" where
  "wr_fstab os pa n =
     wr_file os (fmt (TARGET_MOUNT_POINT @ ''/etc/fstab'')) (concat (map fstab_line (take (n + 2) pa)))"

text \<open>
  The variable \<open>dhcp\<close> is tested here on every run; the name of the medium is read only when the
  network is set up by the server.
\<close>

definition wr_rcconf :: "inst_os \<Rightarrow> bool \<Rightarrow> md_t \<Rightarrow> inst" where
  "wr_rcconf os pcm md =
     (let wr = (\<lambda>t. app_file os (fmt (TARGET_MOUNT_POINT @ ''/etc/rc.conf''))
                      ((if pcm then ''pcmcia=YES'' @ [NL] else []) @ t))
      in if_dhcp
           (with_name md
             (\<lambda>name. wr (''dhclient=YES'' @ [TAB] @ ''dhclient_flags='' @ [DQ] @ ''-q '' @ name @ [DQ, NL])))
           (wr []))"

definition wr_network :: "inst_os \<Rightarrow> cstring \<Rightarrow> net_t \<Rightarrow> inst" where
  "wr_network os name n =
     (let etc = (\<lambda>f. fmt (TARGET_MOUNT_POINT @ ''/etc/'' @ f)); dom = '' .'' @ domain n @ [NL] in
      seq [wr_file os (etc ''myname'') (hostname n @ [NL]),
           wr_file os (etc ''mygate'') (route n @ [NL]),
           wr_file os (etc (''ifconfig.'' @ name))
             (''inet '' @ ip n @ '' broadcast '' @ cast n @ '' netmask '' @ mask n @ [NL]),
           wr_file os (etc ''resolv.conf'')
             (''domain '' @ domain n @ [NL] @ ''nameserver '' @ dns n @ [NL] @ ''search '' @ domain n @ [NL]),
           app_file os (etc ''hosts'')
             (ip n @ [TAB] @ hostname n @ ''.'' @ domain n @ [TAB] @ hostname n @ [NL]),
           wr_file os (etc ''hosts.allow'')
             (''#ftpd:'' @ dom @ ''#telnetd:'' @ dom @ ''#rshd:'' @ dom @ ''#rlogind:'' @ dom @
              ''#rexecd:'' @ dom @ ''#fingerd:'' @ dom @ ''#identd: ALL'' @ [NL] @ ''#tftpd:'' @ dom @
              ''#rsync:'' @ dom)])"

definition do_rminst :: "inst_os \<Rightarrow> ftp_t \<Rightarrow> inst" where
  "do_rminst os f = if_yes (s_system os (fmt (''/bin/rm -rf '' @ TARGET_MOUNT_POINT @ local_dir f)))"

definition do_passwd :: "inst_os \<Rightarrow> inst" where
  "do_passwd os =
     if_yes (seq
       [s_system os ''/usr/bin/passwd'',
        s_system os (fmt (''/bin/cp /etc/passwd '' @ TARGET_MOUNT_POINT @ ''/etc/passwd'')),
        s_system os (fmt (''/bin/cp /etc/shadow '' @ TARGET_MOUNT_POINT @ ''/etc/shadow'')),
        s_system os (fmt (''/bin/chmod 600 '' @ TARGET_MOUNT_POINT @ ''/etc/passwd'')),
        s_system os (fmt (''/bin/chmod 600 '' @ TARGET_MOUNT_POINT @ ''/etc/shadow''))])"

subsection \<open>The main program\<close>

text \<open>The probes; without a medium to install from the program leaves.\<close>

definition probe :: "inst_os \<Rightarrow> inst" where
  "probe os s =
     (case probe_pccard (machine os) of
        None \<Rightarrow> None
      | Some pcm \<Rightarrow>
          seq [if pcm then s_system os ''/sbin/cardmgr'' else skip,
               \<lambda>s. (case probe_hd (machine os) (hds s) of
                      None \<Rightarrow> None
                    | Some (n, h) \<Rightarrow>
                        (case probe_md (machine os) (mds s) h n of
                           None \<Rightarrow> None
                         | Some (m, md, h) \<Rightarrow>
                             Some (Inr (s\<lparr>pccard := pcm, num_hd := n, num_md := m, mds := md, hds := h\<rparr>)))),
               \<lambda>s. if num_md s = 0 then exit_prog 1 s else skip s] s)"

definition greet :: inst where
  "greet s =
     (case start_msg (inp s) of
        None \<Rightarrow> None
      | Some (out, r) \<Rightarrow> (if out then exit_prog 0 else skip) (s\<lparr>inp := r\<rparr>))"

definition read_partitions :: "inst_os \<Rightarrow> inst" where
  "read_partitions os s =
     (case rd_partition (machine os) (hds s) (num_hd s) of
        None \<Rightarrow> None
      | Some (none, h) \<Rightarrow>
          if none then exit_prog 1 s
          else (case pat_array h (num_hd s) of
                  None \<Rightarrow> None
                | Some (n, pa, bp) \<Rightarrow>
                    (if n = 0 then exit_prog 1 else skip) (s\<lparr>hds := h, num_pat := n, pas := pa, bps := bp\<rparr>)))"

definition choose_root :: inst where
  "choose_root s =
     (case set_root_partition (pas s) (num_pat s) of
        None \<Rightarrow> None
      | Some (i, pa) \<Rightarrow> Some (Inr (s\<lparr>root_pat := i, pas := pa\<rparr>)))"

definition from_network :: "inst_os \<Rightarrow> cstring \<Rightarrow> inst" where
  "from_network os name =
     seq [set_dhcp os name,
          if_dhcp skip
            (\<lambda>s. seq [menu (\<lambda>r. set_network r (net s)) (\<lambda>n s. s\<lparr>net := n\<rparr>),
                      \<lambda>s. do_network os name (net s) s] s),
          \<lambda>s. menu (\<lambda>r. set_ftp (release_name os) (dist_arch os) r (net s)) (\<lambda>f s. s\<lparr>ftp := f\<rparr>) s,
          \<lambda>s. set_proxy os (ftp s) s,
          if_yes (seq [\<lambda>s. do_ftp os (ftp s) s, \<lambda>s. do_extract_from_ftp os (ftp s) s])]"

definition fetch_binaries :: "inst_os \<Rightarrow> inst" where
  "fetch_binaries os s =
     (let md = mds s ! act_md s in
      if md_type md \<noteq> 0 then if_yes (with_name md (do_extract_from_cdrom os)) s
      else with_name md (from_network os) s)"

definition boot_block :: "inst_os \<Rightarrow> inst" where
  "boot_block os =
     if_yes (\<lambda>s. if act_bp s < length (bps s) then do_installboot os (bp_name (bps s ! act_bp s)) s else None)"

definition finish_network :: "inst_os \<Rightarrow> inst" where
  "finish_network os s =
     (if md_type (mds s ! act_md s) = 0
      then seq [if_dhcp skip
                  (if_yes (\<lambda>s. with_name (mds s ! act_md s) (\<lambda>name. wr_network os name (net s)) s)),
                \<lambda>s. do_rminst os (ftp s) s] s
      else skip s)"

definition make_fs :: "inst_os \<Rightarrow> inst" where
  "make_fs os =
     if_yes (\<lambda>s. seq [run_mkswap os (pas s) (num_pat s), run_mke2fs os (pas s) (num_pat s)] s)"

definition sysinst :: "inst_os \<Rightarrow> inst" where
  "sysinst os =
     seq [probe os,
          greet,
          read_partitions os,
          \<lambda>s. menu (\<lambda>r. set_partition r (num_pat s) (pas s)) (\<lambda>pa s. s\<lparr>pas := pa\<rparr>) s,
          choose_root,
          \<lambda>s. menu (set_boot_partition (length (bps s))) (\<lambda>j s. s\<lparr>act_bp := j\<rparr>) s,
          make_fs os,
          \<lambda>s. do_mount os (pas s) (num_pat s) (root_pat s) s,
          \<lambda>s. menu (\<lambda>r. set_distributions r (dists s)) (\<lambda>d s. s\<lparr>dists := d\<rparr>) s,
          \<lambda>s. menu (set_install_media (num_md s)) (\<lambda>j s. s\<lparr>act_md := j\<rparr>) s,
          fetch_binaries os,
          boot_block os,
          run_makedev os,
          \<lambda>s. wr_menulst os (pa_name (pas s ! root_pat s)) s,
          \<lambda>s. wr_fstab os (pas s) (num_pat s) s,
          \<lambda>s. wr_rcconf os (pccard s) (mds s ! act_md s) s,
          finish_network os,
          do_passwd os,
          \<lambda>s. do_umount os (pas s) (num_pat s) (root_pat s) s,
          exit_prog 0]"

text \<open>
  The program as it is started: the memory it gets from \<^verbatim>\<open>malloc\<close> holds what it holds, the
  variable \<open>dhcp\<close> has no value (the other variables are assigned before they are read); the log is
  empty and the distributions are those of the table.
\<close>

definition inst_start :: "string \<Rightarrow> inst_st \<Rightarrow> inst_st" where
  "inst_start input junk = junk\<lparr>inp := input, acts := [], dists := dist_list, dhcp := None\<rparr>"

end
