(* ===== verification/Instlog.thy ===== *)
theory Instlog
  imports Sysinst
begin

text \<open>
  The plan of the installer: for every operation without questions the list of the things it
  does, and the proof that the operation works through that list and stops at the first thing
  that cannot be done.
\<close>

subsection \<open>Working through a list\<close>

definition do_act :: "inst_os \<Rightarrow> act \<Rightarrow> inst" where
  "do_act os a =
     (case a of
        System c \<Rightarrow> s_system os c
      | Popen c \<Rightarrow> s_popen os c
      | Write f t \<Rightarrow> wr_file os f t
      | Append f t \<Rightarrow> app_file os f t)"

definition do_acts :: "inst_os \<Rightarrow> act list \<Rightarrow> inst" where
  "do_acts os as = seq (map (do_act os) as)"

lemma seq_append: "seq (fs @ gs) = seq [seq fs, seq gs]"
proof
  fix s show "seq (fs @ gs) s = seq [seq fs, seq gs] s"
    by (induction fs arbitrary: s) (auto split: option.split sum.split)
qed

lemma seq_single [simp]: "seq [f] = f"
  by (rule ext) (simp split: option.split sum.split)

lemma seq_seq: "seq (seq fs # gs) = seq (fs @ gs)"
proof
  fix s show "seq (seq fs # gs) s = seq (fs @ gs) s"
    unfolding seq_append by (auto split: option.split sum.split)
qed

lemma seq_skip: "seq (skip # fs) = seq fs"
  by (rule ext) (simp add: skip_def)

lemma skip_seq: "skip = seq []"
  by (rule ext) (simp add: skip_def)

lemma do_acts_append: "do_acts os (as @ bs) = seq [do_acts os as, do_acts os bs]"
  by (simp add: do_acts_def seq_append)

lemma do_acts_singles:
  "s_system os c = do_acts os [System c]" "s_popen os c = do_acts os [Popen c]"
  "wr_file os f t = do_acts os [Write f t]" "app_file os f t = do_acts os [Append f t]"
  "skip = do_acts os []"
  by (simp_all add: do_acts_def do_act_def skip_seq)

lemma seq_do_acts: "seq (map (\<lambda>x. do_acts os (g x)) xs) = do_acts os (concat (map g xs))"
proof (induction xs)
  case Nil
  then show ?case by (simp add: do_acts_def)
next
  case (Cons x xs)
  have "seq (map (\<lambda>x. do_acts os (g x)) (x # xs)) = seq [do_acts os (g x), seq (map (\<lambda>x. do_acts os (g x)) xs)]"
    using seq_append [of "[do_acts os (g x)]"] by simp
  then show ?case using Cons.IH by (simp add: do_acts_append)
qed

lemma seq_do_acts_Cons: "seq [do_acts os as, do_acts os bs] = do_acts os (as @ bs)"
  by (simp add: do_acts_append)

lemma seq_Cons: "seq (f # fs) = seq [f, seq fs]"
  using seq_append [of "[f]"] by simp

text \<open>What a list that is worked through leaves, and what one that stops.\<close>

lemma do_acts_Inr: "do_acts os as s = Some (Inr t) \<Longrightarrow> t = s\<lparr>acts := acts s @ as\<rparr>"
proof (induction as arbitrary: s)
  case Nil
  then show ?case by (simp add: do_acts_def)
next
  case (Cons a as)
  then show ?case
    by (fastforce simp: do_acts_def do_act_def s_system_def s_popen_def wr_file_def app_file_def log_act_def
        exit_prog_def split: act.splits if_splits)
qed

lemma do_acts_Inl:
  "do_acts os as s = Some (Inl (c, t)) \<Longrightarrow>
   c = 1 \<and> (\<exists>n < length as. t = s\<lparr>acts := acts s @ take n as\<rparr> \<and> \<not> can_start os (acts t))"
proof (induction as arbitrary: s)
  case Nil
  then show ?case by (simp add: do_acts_def)
next
  case (Cons a as)
  consider (stop) "do_act os a s = Some (Inl (c, t))"
    | (go) s' where "do_act os a s = Some (Inr s')" "do_acts os as s' = Some (Inl (c, t))"
    using Cons.prems by (auto simp: do_acts_def split: option.splits sum.splits)
  then show ?case
  proof cases
    case stop
    then have "c = 1 \<and> t = s \<and> \<not> can_start os (acts s)"
      by (auto simp: do_act_def s_system_def s_popen_def wr_file_def app_file_def exit_prog_def
          split: act.splits if_splits)
    then show ?thesis by (intro conjI exI [of _ 0]) simp_all
  next
    case go
    then have s': "s' = s\<lparr>acts := acts s @ [a]\<rparr>"
      using do_acts_Inr [of os "[a]" s s'] by (simp add: do_acts_def)
    obtain n where "c = 1" "n < length as" "t = s'\<lparr>acts := acts s' @ take n as\<rparr>" "\<not> can_start os (acts t)"
      using Cons.IH [OF go(2)] by blast
    then show ?thesis using s' by (intro conjI exI [of _ "Suc n"]) simp_all
  qed
qed

definition willing :: "inst_os \<Rightarrow> bool" where
  "willing os = (can_start os = (\<lambda>_. True) \<and> can_open os = (\<lambda>_ _. True))"

lemma do_acts_willing: "willing os \<Longrightarrow> do_acts os as s = Some (Inr (s\<lparr>acts := acts s @ as\<rparr>))"
  by (induction as arbitrary: s)
    (auto simp: do_acts_def do_act_def s_system_def s_popen_def wr_file_def app_file_def log_act_def willing_def
      split: act.splits)

subsection \<open>The lists of the operations\<close>

definition swap_acts :: "pa_t \<Rightarrow> act list" where
  "swap_acts p =
     [System (fmt (''/sbin/mkswap '' @ FSCKOPT (flag_ck p) @ '' '' @ pa_name p)),
      Append ''/etc/fstab'' (pa_name p @ '' swap swap defaults 0 0'' @ [NL])]"

definition format_acts :: "pa_t \<Rightarrow> act list" where
  "format_acts p =
     [System (fmt (''/sbin/mke2fs '' @ (if fstype p = EXT2_FS then [] else ''-j '') @
                   FSCKOPT (flag_ck p) @ '' -b '' @ dec (bsize p) @ '' '' @ pa_name p))]"

definition swaps :: "pa_t list \<Rightarrow> pa_t list" where
  "swaps = filter (\<lambda>p. flag_act p \<and> flag_swap p)"

definition volumes :: "pa_t list \<Rightarrow> pa_t list" where
  "volumes = filter (\<lambda>p. flag_act p \<and> \<not> flag_swap p)"

definition mkfs_acts :: "pa_t list \<Rightarrow> act list" where
  "mkfs_acts pa =
     concat (map swap_acts (swaps pa)) @ [System ''/sbin/swapon -a''] @ concat (map format_acts (volumes pa))"

definition mount_acts :: "pa_t \<Rightarrow> act list" where
  "mount_acts p =
     [System (fmt (''/bin/mkdir -p '' @ TARGET_MOUNT_POINT @ mntp p)),
      System (fmt (''/sbin/mount -t '' @ fstype p @ '' '' @ pa_name p @ '' '' @ TARGET_MOUNT_POINT @ ''/'' @ mntp p))]"

definition root_acts :: "pa_t \<Rightarrow> act list" where
  "root_acts p =
     [System (fmt (''/sbin/mount -t '' @ fstype p @ '' '' @ pa_name p @ '' '' @ TARGET_MOUNT_POINT)),
      System (fmt (''/bin/mkdir '' @ TARGET_MOUNT_POINT @ ''/tmp'')),
      System (fmt (''/bin/chmod 1777 '' @ TARGET_MOUNT_POINT @ ''/tmp'')),
      System (fmt (''TMPDIR='' @ TARGET_MOUNT_POINT @ ''/tmp && export TMPDIR''))]"

definition umount_acts :: "pa_t list \<Rightarrow> act list" where
  "umount_acts ps =
     map (\<lambda>p. System (fmt (''/sbin/umount '' @ TARGET_MOUNT_POINT @ ''/'' @ mntp p))) ps @
     [System (fmt ''TMPDIR=/tmp && export TMPDIR''), System (fmt (''/sbin/umount '' @ TARGET_MOUNT_POINT))]"

lemma concat_map_filter: "concat (map (\<lambda>x. if P x then g x else []) xs) = concat (map g (filter P xs))"
  by (induction xs) auto

lemma mkswap_step_acts: "mkswap_step os p = do_acts os (if flag_act p \<and> flag_swap p then swap_acts p else [])"
  by (simp add: mkswap_step_def do_acts_singles(1,4,5) [of os] seq_do_acts_Cons swap_acts_def)

lemma mke2fs_step_acts: "mke2fs_step os p = do_acts os (if flag_act p \<and> \<not> flag_swap p then format_acts p else [])"
  by (simp add: mke2fs_step_def do_acts_singles(1,5) [of os] format_acts_def)

lemma run_mkswap_acts:
  "run_mkswap os pa n = do_acts os (concat (map swap_acts (swaps (take n pa))) @ [System ''/sbin/swapon -a''])"
  unfolding run_mkswap_def seq_append swaps_def mkswap_step_acts [abs_def] seq_do_acts seq_single do_acts_singles
    seq_do_acts_Cons concat_map_filter ..

lemma run_mke2fs_acts: "run_mke2fs os pa n = do_acts os (concat (map format_acts (volumes (take n pa))))"
  unfolding run_mke2fs_def volumes_def mke2fs_step_acts [abs_def] seq_do_acts concat_map_filter ..

lemma do_mount_acts:
  "do_mount os pa n r = do_acts os (root_acts (pa ! r) @ concat (map mount_acts (others pa n r)))"
proof -
  have "(\<lambda>p. seq [s_system os (fmt (''/bin/mkdir -p '' @ TARGET_MOUNT_POINT @ mntp p)),
              s_system os (fmt (''/sbin/mount -t '' @ fstype p @ '' '' @ pa_name p @ '' '' @
                                TARGET_MOUNT_POINT @ ''/'' @ mntp p))]) = (\<lambda>p. do_acts os (mount_acts p))"
    by (simp add: do_acts_singles(1) [of os] seq_do_acts_Cons mount_acts_def)
  moreover have "seq [s_system os a, s_system os b, s_system os c, s_system os d] =
      do_acts os [System a, System b, System c, System d]" for a b c d
    by (simp add: do_acts_def do_act_def)
  ultimately show ?thesis
    unfolding do_mount_def seq_append root_acts_def by (simp only: seq_do_acts seq_do_acts_Cons)
qed

lemma do_umount_acts: "do_umount os pa n r = do_acts os (umount_acts (others pa n r))"
proof -
  have "seq (map (\<lambda>p. s_system os (f p)) ps) = do_acts os (map (\<lambda>p. System (f p)) ps)" for f :: "pa_t \<Rightarrow> cstring" and ps
    by (simp add: do_acts_def do_act_def comp_def)
  moreover have "seq [s_system os a, s_system os b] = do_acts os [System a, System b]" for a b
    by (simp add: do_acts_def do_act_def)
  ultimately show ?thesis
    unfolding do_umount_def seq_append umount_acts_def by (simp only: seq_do_acts_Cons)
qed

text \<open>
  Extraction: where a file is either there all the time or never, each chosen distribution that is
  there is unpacked and gets the result 1, a missing one gets -1.
\<close>

definition tar_acts :: "(cstring \<Rightarrow> cstring) \<Rightarrow> (cstring \<Rightarrow> bool) \<Rightarrow> dist_t \<Rightarrow> act list" where
  "tar_acts file here d =
     (let buf = fmt (file (dist_name d)) in
      if flag_inst d \<and> here buf
      then [Popen (fmt (''cd '' @ TARGET_MOUNT_POINT @ '' && /usr/bin/tar xvpzf '' @ buf))] else [])"

definition tar_result :: "(cstring \<Rightarrow> cstring) \<Rightarrow> (cstring \<Rightarrow> bool) \<Rightarrow> dist_t \<Rightarrow> dist_t" where
  "tar_result file here d =
     (if flag_inst d then d\<lparr>flag_result := (if here (fmt (file (dist_name d))) then 1 else - 1)\<rparr> else d)"

lemma extract_step_willing:
  assumes "willing os" "\<And>l f. there os l f = here f"
  shows "extract_step os file i s =
     Some (Inr (s\<lparr>acts := acts s @ tar_acts file here (dists s ! i),
                  dists := (dists s)[i := tar_result file here (dists s ! i)]\<rparr>))"
  using assms(1)
  by (auto simp: extract_step_def Let_def assms(2) tar_acts_def tar_result_def do_acts_singles(2)
      do_acts_willing set_result_def skip_def)

lemma extract_willing:
  assumes "willing os" "\<And>l f. there os l f = here f"
  shows "n \<le> length (dists s) \<Longrightarrow> seq (map (extract_step os file) [0..<n]) s =
     Some (Inr (s\<lparr>acts := acts s @ concat (map (tar_acts file here) (take n (dists s))),
                  dists := map (tar_result file here) (take n (dists s)) @ drop n (dists s)\<rparr>))"
proof (induction n)
  case 0
  then show ?case by simp
next
  case (Suc n)
  have u: "(map f (take n ds) @ drop n ds)[n := f (ds ! n)] = map f (take (Suc n) ds) @ drop (Suc n) ds"
    if "n < length ds" for f and ds :: "dist_t list"
    using that by (simp add: list_update_append take_Suc_conv_app_nth Cons_nth_drop_Suc [symmetric])
  have "(map f (take n ds) @ drop n ds) ! n = ds ! n" if "n < length ds" for f and ds :: "dist_t list"
    using that by (simp add: nth_append)
  then show ?case
    using Suc u [of "dists s" "tar_result file here"]
    by (simp add: seq_append extract_step_willing [OF assms] take_Suc_conv_app_nth)
qed

lemma do_network_acts:
  "do_network os name n = do_acts os
     [System (fmt (''/sbin/ifconfig '' @ name @ '' inet '' @ ip n @ '' broadcast '' @ cast n @ '' netmask '' @ mask n)),
      System (fmt (''/sbin/route add defualt gw '' @ route n @ '' 0.0.0.0 metric 1''))]"
  by (simp add: do_network_def do_acts_def do_act_def)

lemma do_installboot_acts:
  "do_installboot os name = do_acts os
     [System (fmt (''ln -sf '' @ TARGET_MOUNT_POINT @ ''/boot /boot'')),
      Popen (fmt (''/usr/mdec/installboot --root-directory='' @ TARGET_MOUNT_POINT @ '' '' @ name))]"
  by (simp add: do_installboot_def do_acts_def do_act_def)

definition passwd_acts :: "act list" where
  "passwd_acts =
     [System ''/usr/bin/passwd'', System ''/bin/cp /etc/passwd /mnt/etc/passwd'',
      System ''/bin/cp /etc/shadow /mnt/etc/shadow'', System ''/bin/chmod 600 /mnt/etc/passwd'',
      System ''/bin/chmod 600 /mnt/etc/shadow'']"

lemma do_passwd_acts: "do_passwd os = if_yes (do_acts os passwd_acts)"
  by (simp add: do_passwd_def do_acts_def do_act_def passwd_acts_def snprintf_def BUFSIZ_def)

end
