(* ===== verification/Install.thy ===== *)
theory Install
  imports Instlog
begin

text \<open>
  A whole run of the installer (\<^verbatim>\<open>main\<close> of \<^verbatim>\<open>distrib/utils/sysinst/sysinst.c\<close>):
  what it may do without consent, the order of what it does, and the run that accepts
  the defaults.
\<close>

subsection \<open>What a step keeps\<close>

text \<open>A step keeps a relation when its result stands in it to where it began; it may leave only
  with code 1.\<close>

definition lands :: "(inst_st \<Rightarrow> inst_st \<Rightarrow> bool) \<Rightarrow> inst_st \<Rightarrow> (int \<times> inst_st + inst_st) option \<Rightarrow> bool" where
  "lands R s r =
     (case r of
        None \<Rightarrow> True
      | Some (Inl (c, t)) \<Rightarrow> c = 1 \<and> R s t
      | Some (Inr t) \<Rightarrow> R s t)"

definition keeps :: "(inst_st \<Rightarrow> inst_st \<Rightarrow> bool) \<Rightarrow> inst \<Rightarrow> bool" where
  "keeps R f = (\<forall>s. lands R s (f s))"

lemma lands_simps [simp]:
  "lands R s None" "lands R s (Some (Inl (c, t))) \<longleftrightarrow> c = 1 \<and> R s t" "lands R s (Some (Inr t)) \<longleftrightarrow> R s t"
  by (simp_all add: lands_def)

lemma keepsD: "keeps R f \<Longrightarrow> lands R s (f s)"
  by (simp add: keeps_def)

lemma keeps_lands: "(\<And>s. lands R s (f s)) \<Longrightarrow> keeps R f"
  by (simp add: keeps_def)

locale step_order =
  fixes R :: "inst_st \<Rightarrow> inst_st \<Rightarrow> bool"
  assumes refl: "R s s"
    and trans: "R s t \<Longrightarrow> R t u \<Longrightarrow> R s u"
    and grows: "R s (s\<lparr>acts := acts s @ l\<rparr>)"
    and reads: "R s (s\<lparr>inp := i\<rparr>)"
begin

lemma keeps_Inr: "keeps R f \<Longrightarrow> f s = Some (Inr t) \<Longrightarrow> R s t"
  by (metis keepsD lands_simps(3))

lemma keeps_Inl: "keeps R f \<Longrightarrow> f s = Some (Inl (c, t)) \<Longrightarrow> c = 1 \<and> R s t"
  by (metis keepsD lands_simps(2))

lemma keepsI:
  assumes "\<And>s t. f s = Some (Inr t) \<Longrightarrow> R s t"
    and "\<And>s c t. f s = Some (Inl (c, t)) \<Longrightarrow> c = 1 \<and> R s t"
  shows "keeps R f"
  unfolding keeps_def lands_def using assms by (auto split: option.split sum.split)

lemma keeps_seq: "list_all (keeps R) fs \<Longrightarrow> keeps R (seq fs)"
proof (induction fs)
  case Nil
  then show ?case by (simp add: keeps_def refl)
next
  case (Cons f fs)
  show ?case
  proof (rule keepsI)
    fix s t assume "seq (f # fs) s = Some (Inr t)"
    then obtain u where "f s = Some (Inr u)" "seq fs u = Some (Inr t)"
      by (auto split: option.splits sum.splits)
    then show "R s t" using Cons keeps_Inr trans by (metis list.pred_inject(2))
  next
    fix s c t assume "seq (f # fs) s = Some (Inl (c, t))"
    then consider "f s = Some (Inl (c, t))"
      | u where "f s = Some (Inr u)" "seq fs u = Some (Inl (c, t))"
      by (auto split: option.splits sum.splits)
    then show "c = 1 \<and> R s t"
      using Cons keeps_Inr keeps_Inl trans by cases (metis list.pred_inject(2))+
  qed
qed

lemma keeps_do_acts: "keeps R (do_acts os as)"
proof (rule keepsI)
  fix s t assume "do_acts os as s = Some (Inr t)"
  then show "R s t" using grows do_acts_Inr by metis
next
  fix s c t assume "do_acts os as s = Some (Inl (c, t))"
  then show "c = 1 \<and> R s t" using grows do_acts_Inl by metis
qed

lemma keeps_singles:
  "keeps R (s_system os c)" "keeps R (s_popen os c)" "keeps R (wr_file os a b)" "keeps R (app_file os a b)"
  "keeps R skip"
  unfolding do_acts_singles [of os] by (rule keeps_do_acts)+

lemma keeps_exit: "keeps R (exit_prog 1)"
  by (simp add: keeps_def exit_prog_def refl)

lemma keeps_if_yes: "keeps R f \<Longrightarrow> keeps R (if_yes f)"
  by (intro keepsI)
    (auto simp: if_yes_def intro: trans [OF reads] reads dest: keeps_Inr [of f] keeps_Inl [of f]
      split: option.splits if_splits prod.splits)

lemma keeps_menu: "(\<And>x s. R s (k x s)) \<Longrightarrow> keeps R (menu f k)"
  by (intro keepsI) (auto simp: menu_def intro: trans [OF reads] split: option.splits)

lemma keeps_with_name: "(\<And>n. keeps R (f n)) \<Longrightarrow> keeps R (with_name m f)"
  by (intro keepsI) (auto simp: with_name_def split: option.splits dest: keeps_Inr keeps_Inl)

lemma keeps_if_dhcp: "keeps R f \<Longrightarrow> keeps R g \<Longrightarrow> keeps R (if_dhcp f g)"
  by (intro keepsI) (auto simp: if_dhcp_def split: option.splits if_splits dest: keeps_Inr keeps_Inl)

lemmas keeps_intros = keeps_seq keeps_do_acts keeps_singles keeps_exit keeps_if_yes keeps_with_name keeps_if_dhcp

end

definition onward :: "inst_st \<Rightarrow> inst_st \<Rightarrow> bool" where
  "onward s t =
     (prefix (acts s) (acts t) \<and> pas t = pas s \<and> num_pat t = num_pat s \<and> root_pat t = root_pat s)"

interpretation onward: step_order onward
  by unfold_locales (auto simp: onward_def)

lemma onward_upd [simp]:
  "onward s (s\<lparr>dists := d\<rparr>)" "onward s (s\<lparr>act_md := j\<rparr>)" "onward s (s\<lparr>net := n\<rparr>)" "onward s (s\<lparr>ftp := f\<rparr>)"
  "onward s (s\<lparr>inp := i, dhcp := b\<rparr>)" "onward s (s\<lparr>act_bp := j\<rparr>)"
  by (simp_all add: onward_def)

lemma set_result_onward: "keeps onward (set_result i r)"
  by (simp add: keeps_def set_result_def)

lemma extract_onward: "keeps onward (extract_step os file i)"
proof (rule keeps_lands)
  fix s :: inst_st
  have "keeps onward (seq [s_popen os c, set_result i 1])" for c
    by (simp add: onward.keeps_seq onward.keeps_singles set_result_onward del: seq.simps)
  then show "lands onward s (extract_step os file i s)"
    unfolding extract_step_def Let_def
    by (auto simp del: seq.simps intro: keepsD set_result_onward onward.keeps_singles)
qed

lemma fetch_onward: "keeps onward (fetch_step os f i)"
  by (rule keeps_lands) (auto simp: fetch_step_def intro: keepsD onward.keeps_singles)

lemma cdrom_onward: "keeps onward (do_extract_from_cdrom os name)"
  unfolding do_extract_from_cdrom_def
  by (intro onward.keeps_seq) (simp add: onward.keeps_singles extract_onward list_all_iff)

lemma ftp_onward: "keeps onward (do_ftp os f)" "keeps onward (do_extract_from_ftp os f)"
  unfolding do_ftp_def do_extract_from_ftp_def
  by (intro onward.keeps_seq; simp add: onward.keeps_singles extract_onward fetch_onward list_all_iff)+

lemma set_dhcp_onward: "keeps onward (set_dhcp os name)"
  unfolding set_dhcp_def run_dhclient_def
  by (rule keeps_lands)
    (auto simp: Let_def lands_def split: option.split sum.split
      dest: onward.keeps_Inr [OF onward.keeps_singles(2)] onward.keeps_Inl [OF onward.keeps_singles(2)]
      intro: onward.trans [OF onward_upd(5)])

lemma from_network_onward: "keeps onward (from_network os name)"
proof -
  have n: "keeps onward (do_network os name m)" for m
    unfolding do_network_acts by (rule onward.keeps_do_acts)
  have a: "keeps onward (if_dhcp skip
      (\<lambda>s. seq [menu (\<lambda>r. set_network r (net s)) (\<lambda>n s. s\<lparr>net := n\<rparr>), \<lambda>s. do_network os name (net s) s] s))"
  proof (rule onward.keeps_if_dhcp [OF onward.keeps_singles(5)], rule keeps_lands)
    fix s :: inst_st
    have "keeps onward (seq [menu (\<lambda>r. set_network r (net s)) (\<lambda>n s. s\<lparr>net := n\<rparr>), \<lambda>s. do_network os name (net s) s])"
      by (intro onward.keeps_seq) (simp add: onward.keeps_menu keeps_lands [of onward "\<lambda>s. do_network os name (net s) s"] keepsD [OF n])
    then show "lands onward s (seq [menu (\<lambda>r. set_network r (net s)) (\<lambda>n s. s\<lparr>net := n\<rparr>), \<lambda>s. do_network os name (net s) s] s)"
      by (rule keepsD)
  qed
  have p: "keeps onward (set_proxy os f)" for f
    by (simp add: set_proxy_def onward.keeps_singles)
  have m: "keeps onward (\<lambda>s. menu (\<lambda>r. set_ftp a b r (net s)) (\<lambda>f s. s\<lparr>ftp := f\<rparr>) s)" for a b
    by (rule keeps_lands) (rule keepsD [OF onward.keeps_menu], simp)
  have f: "keeps onward (if_yes (seq [\<lambda>s. do_ftp os (ftp s) s, \<lambda>s. do_extract_from_ftp os (ftp s) s]))"
    by (intro onward.keeps_if_yes onward.keeps_seq)
      (simp add: keeps_def keepsD [OF ftp_onward(1)] keepsD [OF ftp_onward(2)])
  show ?thesis
    unfolding from_network_def
    by (intro onward.keeps_seq) (simp add: set_dhcp_onward a m f keeps_def [of _ "\<lambda>s. set_proxy os (ftp s) s"] keepsD [OF p] del: seq.simps)
qed

lemma fetch_binaries_onward: "keeps onward (fetch_binaries os)"
proof (rule keeps_lands)
  fix s :: inst_st
  have "keeps onward (if_yes (with_name m (do_extract_from_cdrom os)))"
    "keeps onward (with_name m (from_network os))" for m
    by (intro onward.keeps_if_yes onward.keeps_with_name cdrom_onward from_network_onward)+
  then show "lands onward s (fetch_binaries os s)" by (simp add: fetch_binaries_def Let_def keepsD)
qed

lemma boot_block_onward: "keeps onward (boot_block os)"
proof -
  have "keeps onward (do_installboot os name)" for name
    unfolding do_installboot_acts by (rule onward.keeps_do_acts)
  then show ?thesis
    unfolding boot_block_def by (intro onward.keeps_if_yes keeps_lands) (simp add: keepsD)
qed

lemma wr_menulst_onward: "keeps onward (wr_menulst os bp)"
  by (rule keeps_lands) (auto simp: wr_menulst_def split: option.split intro!: keepsD onward.keeps_singles)

lemma wr_rcconf_onward: "keeps onward (wr_rcconf os a md)"
  unfolding wr_rcconf_def Let_def
  by (intro onward.keeps_if_dhcp onward.keeps_with_name onward.keeps_singles)

lemma wr_network_onward: "keeps onward (wr_network os name n)"
  unfolding wr_network_def Let_def by (intro onward.keeps_seq) (simp add: onward.keeps_singles)

lemma do_passwd_onward: "keeps onward (do_passwd os)"
  unfolding do_passwd_acts by (intro onward.keeps_if_yes onward.keeps_do_acts)

lemma finish_network_onward: "keeps onward (finish_network os)"
proof -
  have w: "keeps onward (if_yes (\<lambda>s. with_name (mds s ! act_md s) (\<lambda>name. wr_network os name (net s)) s))"
    by (intro onward.keeps_if_yes keeps_lands)
      (rule keepsD [OF onward.keeps_with_name], rule wr_network_onward)
  have r: "keeps onward (do_rminst os f)" for f
    unfolding do_rminst_def by (intro onward.keeps_if_yes onward.keeps_singles)
  have "keeps onward (seq [if_dhcp skip
       (if_yes (\<lambda>s. with_name (mds s ! act_md s) (\<lambda>name. wr_network os name (net s)) s)),
     \<lambda>s. do_rminst os (ftp s) s])"
    by (intro onward.keeps_seq)
      (simp add: onward.keeps_if_dhcp w onward.keeps_singles keeps_lands [OF keepsD [OF r]])
  then show ?thesis
    by (intro keeps_lands)
      (simp add: finish_network_def keepsD [of onward "seq _"] keepsD [OF onward.keeps_singles(5)] del: seq.simps)
qed

subsection \<open>The order of a run\<close>

text \<open>What a run did that went to its end: the card manager or nothing, the file systems or nothing,
  the mounts, the other steps with the table of the file systems among them, the unmounts.\<close>

definition in_order :: "act list \<Rightarrow> pa_t list \<Rightarrow> nat \<Rightarrow> nat \<Rightarrow> bool" where
  "in_order l pa n r =
     (\<exists>pcm mk mid1 mid2.
        l = pcm @ mk @ root_acts (pa ! r) @ concat (map mount_acts (others pa n r)) @ mid1 @
            [Write (fmt ''/mnt/etc/fstab'') (concat (map fstab_line (take (n + 2) pa)))] @ mid2 @
            umount_acts (others pa n r) \<and>
        pcm \<in> {[], [System ''/sbin/cardmgr'']} \<and> mk \<in> {[], mkfs_acts (take n pa)})"

text \<open>Both questions of the greeting are answered with yes.\<close>

definition two_yes :: "string \<Rightarrow> bool" where
  "two_yes input =
     (case getanswer input of
        None \<Rightarrow> False
      | Some (a, r) \<Rightarrow> a = CHR ''y'' \<and> map_option fst (getanswer r) = Some CHR ''y'')"

lemma seq_done:
  assumes "seq (f # fs) s = Some (Inl (0, t))" "\<And>t. f s \<noteq> Some (Inl (0, t))"
  obtains u where "f s = Some (Inr u)" "seq fs u = Some (Inl (0, t))"
  using assms by (auto split: option.splits sum.splits)

lemma keeps_no_done: "keeps onward f \<Longrightarrow> f s \<noteq> Some (Inl (0, t))"
  using onward.keeps_Inl by fastforce

lemma seq_part:
  assumes "seq (fs @ gs) s = Some (Inl (0, t))" "keeps onward (seq fs)"
  obtains u where "onward s u" "seq gs u = Some (Inl (0, t))"
proof -
  have "seq (seq fs # [seq gs]) s = Some (Inl (0, t))" using assms(1) by (simp only: seq_append)
  then obtain u where u: "seq fs s = Some (Inr u)" "seq [seq gs] u = Some (Inl (0, t))"
    by (rule seq_done) (use keeps_no_done [OF assms(2)] in blast)
  show thesis using that [OF onward.keeps_Inr [OF assms(2) u(1)]] u(2) by simp
qed

lemma probe_done:
  "probe os s = Some (Inr u) \<Longrightarrow>
   inp u = inp s \<and> (\<exists>pcm \<in> {[], [System ''/sbin/cardmgr'']}. acts u = acts s @ pcm)"
  "probe os s \<noteq> Some (Inl (0, t))"
  by (auto simp: probe_def s_system_def log_act_def skip_def exit_prog_def
      split: option.splits sum.splits if_splits prod.splits)

lemma greet_done:
  "greet s = Some (Inr u) \<Longrightarrow> two_yes (inp s) \<and> acts u = acts s"
  "greet s = Some (Inl (c, u)) \<Longrightarrow> \<not> two_yes (inp s) \<and> acts u = acts s"
  by (auto simp: greet_def start_msg_def isexit_def two_yes_def skip_def exit_prog_def bind_eq_Some_conv
      split: option.splits if_splits prod.splits)

lemma read_partitions_done:
  "read_partitions os s = Some (Inr u) \<Longrightarrow> acts u = acts s \<and> num_pat u + 2 = length (pas u)"
  "read_partitions os s \<noteq> Some (Inl (0, t))"
  by (auto simp: read_partitions_def skip_def exit_prog_def dest!: pat_array_table
      split: option.splits if_splits prod.splits)

lemma choose_root_done:
  "choose_root s = Some (Inr u) \<Longrightarrow> num_pat s \<le> length (pas s) \<Longrightarrow>
   acts u = acts s \<and> num_pat u = num_pat s \<and> root_pat u < num_pat u \<and>
   mntp (pas u ! root_pat u) = ''/'' \<and> flag_act (pas u ! root_pat u)"
  "choose_root s \<noteq> Some (Inl (0, t))"
  using set_root_keeps(3-6) by (fastforce simp: choose_root_def split: option.splits prod.splits)+

lemma make_fs_acts:
  "make_fs os = if_yes (\<lambda>s. do_acts os (mkfs_acts (take (num_pat s) (pas s))) s)"
  by (simp add: make_fs_def run_mkswap_acts run_mke2fs_acts seq_do_acts_Cons mkfs_acts_def del: seq.simps)

lemma make_fs_done:
  "make_fs os s = Some (Inr u) \<Longrightarrow>
   pas u = pas s \<and> num_pat u = num_pat s \<and> root_pat u = root_pat s \<and>
   (\<exists>mk \<in> {[], mkfs_acts (take (num_pat s) (pas s))}. acts u = acts s @ mk)"
  "make_fs os s \<noteq> Some (Inl (0, t))"
  by (auto simp: make_fs_acts if_yes_def split: option.splits prod.splits if_splits
      dest!: do_acts_Inr do_acts_Inl)

lemma menu_done:
  "menu f k s = Some (Inr u) \<Longrightarrow> \<exists>r x. f (inp s) = Some (r, x) \<and> u = k x (s\<lparr>inp := r\<rparr>)"
  "menu f k s \<noteq> Some (Inl (0, t))"
  by (auto simp: menu_def split: option.splits)

lemma seq_do:
  assumes "seq (f # fs) s = Some (Inl (0, t))" "f s = do_acts os as s"
  shows "seq fs (s\<lparr>acts := acts s @ as\<rparr>) = Some (Inl (0, t))"
  using assms by (auto split: option.splits sum.splits dest!: do_acts_Inl do_acts_Inr)

text \<open>The last part of a run, from the mounts on.\<close>

lemma rest_done:
  assumes "seq ([\<lambda>s. do_mount os (pas s) (num_pat s) (root_pat s) s] @ m1 @
       [\<lambda>s. wr_fstab os (pas s) (num_pat s) s] @ m2 @
       [\<lambda>s. do_umount os (pas s) (num_pat s) (root_pat s) s, exit_prog 0]) s = Some (Inl (0, t))"
    "keeps onward (seq m1)" "keeps onward (seq m2)"
  shows "\<exists>mid1 mid2. acts t = acts s @ root_acts (pas s ! root_pat s) @
       concat (map mount_acts (others (pas s) (num_pat s) (root_pat s))) @ mid1 @
       [Write (fmt ''/mnt/etc/fstab'') (concat (map fstab_line (take (num_pat s + 2) (pas s))))] @ mid2 @
       umount_acts (others (pas s) (num_pat s) (root_pat s)) \<and>
     pas t = pas s \<and> num_pat t = num_pat s \<and> root_pat t = root_pat s"
proof -
  define pa n r where d: "pa = pas s" "n = num_pat s" "r = root_pat s"
  let ?last = "[\<lambda>s. do_umount os (pas s) (num_pat s) (root_pat s) s, exit_prog 0]"
  let ?fs = "\<lambda>s. wr_fstab os (pas s) (num_pat s) s"
  let ?mounts = "root_acts (pa ! r) @ concat (map mount_acts (others pa n r))"
  have a: "seq (m1 @ ?fs # m2 @ ?last) (s\<lparr>acts := acts s @ ?mounts\<rparr>) = Some (Inl (0, t))"
    using assms(1) unfolding d
    by (intro seq_do [where f = "\<lambda>s. do_mount os (pas s) (num_pat s) (root_pat s) s"]) (simp_all only: do_mount_acts append_Cons append_Nil)
  obtain b where b: "onward (s\<lparr>acts := acts s @ ?mounts\<rparr>) b" "seq (?fs # m2 @ ?last) b = Some (Inl (0, t))"
    using seq_part [OF a assms(2)] by blast
  let ?tab = "[Write (fmt ''/mnt/etc/fstab'') (concat (map fstab_line (take (num_pat b + 2) (pas b))))]"
  have c: "seq (m2 @ ?last) (b\<lparr>acts := acts b @ ?tab\<rparr>) = Some (Inl (0, t))"
    using b(2) by (rule seq_do) (simp add: wr_fstab_def do_acts_singles(3))
  obtain e where e: "onward (b\<lparr>acts := acts b @ ?tab\<rparr>) e" "seq ?last e = Some (Inl (0, t))"
    using seq_part [OF c assms(3)] by blast
  have "seq [exit_prog 0] (e\<lparr>acts := acts e @ umount_acts (others (pas e) (num_pat e) (root_pat e))\<rparr>) = Some (Inl (0, t))"
    using e(2) by (rule seq_do) (simp add: do_umount_acts)
  then have t: "t = e\<lparr>acts := acts e @ umount_acts (others (pas e) (num_pat e) (root_pat e))\<rparr>"
    by (simp add: exit_prog_def)
  obtain mid1 mid2 where "acts b = acts s @ ?mounts @ mid1" "acts e = acts b @ ?tab @ mid2"
    using b(1) e(1) by (auto simp: onward_def prefix_def)
  moreover have "pas b = pa" "num_pat b = n" "root_pat b = r" "pas e = pa" "num_pat e = n" "root_pat e = r"
    using b(1) e(1) by (simp_all add: onward_def d)
  ultimately show ?thesis
    unfolding t d [symmetric] by (intro exI [of _ mid1] exI [of _ mid2]) simp
qed

lemma before_mount:
  assumes "seq ([probe os, greet, read_partitions os,
       \<lambda>s. menu (\<lambda>r. set_partition r (num_pat s) (pas s)) (\<lambda>pa s. s\<lparr>pas := pa\<rparr>) s, choose_root,
       \<lambda>s. menu (set_boot_partition (length (bps s))) (\<lambda>j s. s\<lparr>act_bp := j\<rparr>) s, make_fs os] @ rest) s =
     Some (Inl (0, t))"
  obtains (refused) pcm where "\<not> two_yes (inp s)" "acts t = acts s @ pcm" "pcm \<in> {[], [System ''/sbin/cardmgr'']}"
  | (consent) u pcm mk where "two_yes (inp s)" "seq rest u = Some (Inl (0, t))" "acts u = acts s @ pcm @ mk"
      "pcm \<in> {[], [System ''/sbin/cardmgr'']}" "mk \<in> {[], mkfs_acts (take (num_pat u) (pas u))}"
      "root_pat u < num_pat u" "mntp (pas u ! root_pat u) = ''/''" "flag_act (pas u ! root_pat u)"
proof -
  obtain a where a: "probe os s = Some (Inr a)" using assms probe_done(2)
    by (simp only: append_Cons) (erule seq_done, blast, blast)
  obtain pcm where pcm: "inp a = inp s" "acts a = acts s @ pcm" "pcm \<in> {[], [System ''/sbin/cardmgr'']}"
    using probe_done(1) [OF a] by blast
  let ?part = "\<lambda>s. menu (\<lambda>r. set_partition r (num_pat s) (pas s)) (\<lambda>pa s. s\<lparr>pas := pa\<rparr>) s"
  let ?boot = "\<lambda>s. menu (set_boot_partition (length (bps s))) (\<lambda>j s. s\<lparr>act_bp := j\<rparr>) s"
  have sa: "seq (greet # read_partitions os # ?part # choose_root # ?boot # make_fs os # rest) a = Some (Inl (0, t))"
    using assms a by simp
  show thesis
  proof (cases "\<exists>c u. greet a = Some (Inl (c, u))")
    case True
    then obtain c u where g: "greet a = Some (Inl (c, u))" by blast
    then have "u = t" using sa by simp
    then show thesis using greet_done(2) [OF g] pcm by (intro refused) simp_all
  next
    case False
    obtain b where b: "greet a = Some (Inr b)"
      and sb: "seq (read_partitions os # ?part # choose_root # ?boot # make_fs os # rest) b = Some (Inl (0, t))"
      using sa by (rule seq_done) (use False in blast)
    obtain c where c: "read_partitions os b = Some (Inr c)"
      and sc: "seq (?part # choose_root # ?boot # make_fs os # rest) c = Some (Inl (0, t))"
      using sb by (rule seq_done) (use read_partitions_done(2) in blast)
    obtain e where e: "?part c = Some (Inr e)"
      and se: "seq (choose_root # ?boot # make_fs os # rest) e = Some (Inl (0, t))"
      using sc by (rule seq_done) (use menu_done(2) in blast)
    obtain f where f: "choose_root e = Some (Inr f)"
      and sf: "seq (?boot # make_fs os # rest) f = Some (Inl (0, t))"
      using se by (rule seq_done) (use choose_root_done(2) in blast)
    obtain g where g: "?boot f = Some (Inr g)" and sg: "seq (make_fs os # rest) g = Some (Inl (0, t))"
      using sf by (rule seq_done) (use menu_done(2) in blast)
    obtain u where u: "make_fs os g = Some (Inr u)" and su: "seq rest u = Some (Inl (0, t))"
      using sg by (rule seq_done) (use make_fs_done(2) in blast)
    have n: "num_pat c \<le> length (pas c)" using read_partitions_done(1) [OF c] by simp
    have e': "acts e = acts c \<and> num_pat e = num_pat c \<and> num_pat e \<le> length (pas e)"
      using menu_done(1) [OF e] set_partition_kept(2) n by fastforce
    have g': "acts g = acts f \<and> num_pat g = num_pat f \<and> pas g = pas f \<and> root_pat g = root_pat f"
      using menu_done(1) [OF g] by fastforce
    note f' = choose_root_done(1) [OF f conjunct2 [OF conjunct2 [OF e']]]
    obtain mk where mk: "mk \<in> {[], mkfs_acts (take (num_pat g) (pas g))}" "acts u = acts g @ mk"
      "pas u = pas g" "num_pat u = num_pat g" "root_pat u = root_pat g"
      using make_fs_done(1) [OF u] by blast
    have "acts u = acts s @ pcm @ mk"
      using mk g' f' e' read_partitions_done(1) [OF c] greet_done(1) [OF b] pcm by simp
    then show thesis
      using greet_done(1) [OF b] pcm su mk f' g' by (intro consent [of u pcm mk]) simp_all
  qed
qed

text \<open>
  C7. The order of an installation. A run that ends with code 0 either was refused and did
  nothing but start the card manager, or both questions were answered with yes and then:
  nothing but making the file systems comes before the mounts, the root is mounted first and
  is an active partition with mount point \<^verbatim>\<open>/\<close>, the table \<^verbatim>\<open>/etc/fstab\<close> lists exactly
  the active partitions, and the run ends by unmounting what it has mounted.
\<close>

theorem installation_order:
  assumes "sysinst os s = Some (Inl (0, t))" "acts s = []"
  shows "(\<not> two_yes (inp s) \<and> acts t \<in> {[], [System ''/sbin/cardmgr'']}) \<or>
     (two_yes (inp s) \<and> in_order (acts t) (pas t) (num_pat t) (root_pat t) \<and> root_pat t < num_pat t \<and>
      mntp (pas t ! root_pat t) = ''/'' \<and> flag_act (pas t ! root_pat t))"
proof -
  let ?mnt = "\<lambda>s. do_mount os (pas s) (num_pat s) (root_pat s) s"
  let ?m1 = "[\<lambda>s. menu (\<lambda>r. set_distributions r (dists s)) (\<lambda>d s. s\<lparr>dists := d\<rparr>) s,
          \<lambda>s. menu (set_install_media (num_md s)) (\<lambda>j s. s\<lparr>act_md := j\<rparr>) s,
          fetch_binaries os, boot_block os, run_makedev os,
          \<lambda>s. wr_menulst os (pa_name (pas s ! root_pat s)) s]"
  let ?m2 = "[\<lambda>s. wr_rcconf os (pccard s) (mds s ! act_md s) s, finish_network os, do_passwd os]"
  let ?rest = "[?mnt] @ ?m1 @ [\<lambda>s. wr_fstab os (pas s) (num_pat s) s] @ ?m2 @
       [\<lambda>s. do_umount os (pas s) (num_pat s) (root_pat s) s, exit_prog 0]"
  have m: "keeps onward (\<lambda>s. menu (f s) k s)" if "\<And>x s. onward s (k x s)" for f :: "inst_st \<Rightarrow> string \<Rightarrow> (string \<times> 'a) option" and k
    by (rule keeps_lands) (rule keepsD [OF onward.keeps_menu], rule that)
  have "keeps onward (\<lambda>s. wr_menulst os (pa_name (pas s ! root_pat s)) s)"
    by (intro keeps_lands keepsD [OF wr_menulst_onward])
  then have k1: "keeps onward (seq ?m1)"
    unfolding run_makedev_def
    by (intro onward.keeps_seq, unfold list.pred_inject(2))
      (intro conjI list.pred_inject(1) m fetch_binaries_onward boot_block_onward onward.keeps_singles onward_upd)
  have k2: "keeps onward (seq ?m2)"
    by (intro onward.keeps_seq)
      (simp add: finish_network_onward do_passwd_onward keeps_lands [OF keepsD [OF wr_rcconf_onward]])
  show ?thesis
  proof -
    have "seq ([probe os, greet, read_partitions os,
       \<lambda>s. menu (\<lambda>r. set_partition r (num_pat s) (pas s)) (\<lambda>pa s. s\<lparr>pas := pa\<rparr>) s, choose_root,
       \<lambda>s. menu (set_boot_partition (length (bps s))) (\<lambda>j s. s\<lparr>act_bp := j\<rparr>) s, make_fs os] @ ?rest) s =
       Some (Inl (0, t))"
      using assms(1) unfolding sysinst_def by (simp only: append_Cons append_Nil)
    then show ?thesis
    proof (cases rule: before_mount)
      case (refused pcm)
      then show ?thesis using assms(2) by auto
    next
      case (consent u pcm mk)
      obtain mid1 mid2 where r: "acts t = acts u @ root_acts (pas u ! root_pat u) @
          concat (map mount_acts (others (pas u) (num_pat u) (root_pat u))) @ mid1 @
          [Write (fmt ''/mnt/etc/fstab'') (concat (map fstab_line (take (num_pat u + 2) (pas u))))] @ mid2 @
          umount_acts (others (pas u) (num_pat u) (root_pat u))"
        "pas t = pas u" "num_pat t = num_pat u" "root_pat t = root_pat u"
        using rest_done [OF consent(2) k1 k2] by blast
      have "in_order (acts t) (pas t) (num_pat t) (root_pat t)"
        unfolding in_order_def r consent(3) assms(2)
        by (rule exI [of _ pcm], rule exI [of _ mk], rule exI [of _ mid1], rule exI [of _ mid2])
          (use consent(4,5) in simp)
      then show ?thesis using consent(1,6-8) r(2-4) by simp
    qed
  qed
qed

subsection \<open>The run that takes the defaults\<close>

definition answers :: "string \<Rightarrow> string" where
  "answers cs = concat (map (\<lambda>c. [c, NL]) cs)"

definition cdrom_file :: "inst_os \<Rightarrow> cstring \<Rightarrow> cstring" where
  "cdrom_file os d = CDROM_MOUNT_POINT @ ''/'' @ dist_arch os @ ''/'' @ DIST_PATH @ ''/'' @ d @ ''.tgz''"

definition cdrom_acts :: "inst_os \<Rightarrow> cstring \<Rightarrow> (cstring \<Rightarrow> bool) \<Rightarrow> dist_t list \<Rightarrow> act list" where
  "cdrom_acts os name here ds =
     [System (fmt (''/sbin/mount -rt iso9660 '' @ name @ '' '' @ CDROM_MOUNT_POINT))] @
     concat (map (tar_acts (cdrom_file os) here) ds) @
     [System (fmt (''/sbin/umount '' @ CDROM_MOUNT_POINT))]"

lemma cdrom_willing:
  assumes "willing os" "\<And>l f. there os l f = here f" "length (dists s) = NUM_DIST"
  shows "do_extract_from_cdrom os name s =
     Some (Inr (s\<lparr>acts := acts s @ cdrom_acts os name here (dists s),
                  dists := map (tar_result (cdrom_file os) here) (dists s)\<rparr>))"
proof -
  note e = extract_willing [OF assms(1,2), of NUM_DIST _ "cdrom_file os"]
  show ?thesis
    unfolding do_extract_from_cdrom_def cdrom_file_def [symmetric]
    using assms(3)
    by (simp add: seq_append [of "map _ _"] do_acts_singles(1) do_acts_willing [OF assms(1)] e cdrom_acts_def)
qed

definition boot_acts :: "cstring \<Rightarrow> act list" where
  "boot_acts name =
     [System (fmt (''ln -sf '' @ TARGET_MOUNT_POINT @ ''/boot /boot'')),
      Popen (fmt (''/usr/mdec/installboot --root-directory='' @ TARGET_MOUNT_POINT @ '' '' @ name))]"

lemma pat_array_root:
  assumes "pat_array h nh = Some (n, pa, bp)" "0 < n"
  shows "set_root_partition pa n = Some (0, pa[0 := (pa ! 0)\<lparr>fck1 := 0, fck2 := 0\<rparr>])"
    "others (pa[0 := (pa ! 0)\<lparr>fck1 := 0, fck2 := 0\<rparr>]) n 0 = []"
    "volumes (take n (pa[0 := (pa ! 0)\<lparr>fck1 := 0, fck2 := 0\<rparr>])) =
       (if flag_swap (pa ! 0) then [] else [(pa ! 0)\<lparr>fck1 := 0, fck2 := 0\<rparr>])"
proof -
  obtain p ps where ps: "linux_parts h nh = p # ps"
    using pat_array_table [OF assms(1)] assms(2) by (cases "linux_parts h nh") auto
  then have pa: "pa = p\<lparr>mntp := ''/'', flag_act := True\<rparr> # ps @ [proc_entry, devpts_entry]" and n: "n = Suc (length ps)"
    using pat_array_table [OF assms(1)] by simp_all
  have "\<forall>q \<in> set (linux_parts h nh). flag_act q \<longrightarrow> flag_swap q"
    by (auto simp: linux_parts_def part_of_def Let_def swap_entry_def linux_entry_def split: if_splits)
  then have q: "\<forall>q \<in> set ps. flag_act q \<longrightarrow> flag_swap q" using ps by simp
  show "set_root_partition pa n = Some (0, pa[0 := (pa ! 0)\<lparr>fck1 := 0, fck2 := 0\<rparr>])"
    unfolding set_root_partition_def n upt_conv_Cons [OF zero_less_Suc] by (simp add: pa)
  have "flag_act (ps ! i) \<longrightarrow> flag_swap (ps ! i)" if "i < length ps" for i using q that by auto
  then show "others (pa[0 := (pa ! 0)\<lparr>fck1 := 0, fck2 := 0\<rparr>]) n 0 = []"
    by (auto simp: others_def filter_empty_conv pa n nth_Cons nth_append less_Suc_eq_0_disj split: nat.splits)
  have "filter (\<lambda>p. flag_act p \<and> \<not> flag_swap p) ps = []" using q by (auto simp: filter_empty_conv)
  then show "volumes (take n (pa[0 := (pa ! 0)\<lparr>fck1 := 0, fck2 := 0\<rparr>])) =
       (if flag_swap (pa ! 0) then [] else [(pa ! 0)\<lparr>fck1 := 0, fck2 := 0\<rparr>])"
    by (simp add: volumes_def pa n)
qed

definition fetch_acts :: "ftp_t \<Rightarrow> dist_t \<Rightarrow> act list" where
  "fetch_acts f d =
     (if flag_inst d
      then [Popen (fmt (''cd '' @ TARGET_MOUNT_POINT @ local_dir f @ '' && /usr/bin/ftp ftp://'' @
             login f @ '':'' @ at2per (passwd f) @ ''@'' @ server f @ remote_dir f @ ''/'' @ dist_name d @ ''.tgz''))]
      else [])"

lemma fetch_willing:
  assumes "willing os"
  shows "n \<le> length (dists s) \<Longrightarrow>
    seq (map (fetch_step os f) [0..<n]) s = Some (Inr (s\<lparr>acts := acts s @ concat (map (fetch_acts f) (take n (dists s)))\<rparr>))"
proof (induction n)
  case (Suc n)
  have "fetch_step os f n u = Some (Inr (u\<lparr>acts := acts u @ fetch_acts f (dists u ! n)\<rparr>))" for u
    by (simp add: fetch_step_def fetch_acts_def do_acts_singles(2) do_acts_willing [OF assms] skip_def)
  then show ?case using Suc by (simp add: seq_append take_Suc_conv_app_nth)
qed simp

definition ftp_file :: "ftp_t \<Rightarrow> cstring \<Rightarrow> cstring" where
  "ftp_file f d = TARGET_MOUNT_POINT @ local_dir f @ ''/'' @ d @ ''.tgz''"

definition ftp_acts :: "ftp_t \<Rightarrow> (cstring \<Rightarrow> bool) \<Rightarrow> dist_t list \<Rightarrow> act list" where
  "ftp_acts f here ds =
     [System (fmt (''/bin/mkdir -p '' @ TARGET_MOUNT_POINT @ local_dir f))] @
     concat (map (fetch_acts f) ds) @ concat (map (tar_acts (ftp_file f) here) ds)"

lemma ftp_willing:
  assumes "willing os" "length (dists s) = NUM_DIST"
  shows "do_ftp os f s = Some (Inr (s\<lparr>acts := acts s @
      System (fmt (''/bin/mkdir -p '' @ TARGET_MOUNT_POINT @ local_dir f)) # concat (map (fetch_acts f) (dists s))\<rparr>))"
  using assms(2) unfolding do_ftp_def
  by (simp add: do_acts_singles(1) do_acts_willing [OF assms(1)] fetch_willing [OF assms(1)])

lemma ftp_extract_willing:
  assumes "willing os" "\<And>l f. there os l f = here f" "length (dists s) = NUM_DIST"
  shows "do_extract_from_ftp os f s =
     Some (Inr (s\<lparr>acts := acts s @ concat (map (tar_acts (ftp_file f) here) (dists s)),
                  dists := map (tar_result (ftp_file f) here) (dists s)\<rparr>))"
  unfolding do_extract_from_ftp_def ftp_file_def [symmetric]
  using assms(3) extract_willing [OF assms(1,2), of NUM_DIST s "ftp_file f"] by simp

lemma ftp_menu_x: "ftp_menu (CHR ''x'' # NL # r) f = Some (r, f)"
  by (subst ftp_menu.simps) (simp add: getanswer_char)

text \<open>
  What the runs do: \<open>pa\<close> is the table when the root is chosen, \<open>from\<close> what is done to get the distributions.
\<close>

definition default_acts :: "inst_os \<Rightarrow> bp_t \<Rightarrow> int \<Rightarrow> int \<Rightarrow> pa_t list \<Rightarrow> nat \<Rightarrow> act list \<Rightarrow> cstring \<Rightarrow> act list \<Rightarrow> act list" where
  "default_acts os boot dev lu pa n get rc clean =
     concat (map swap_acts (swaps (take n pa))) @ [System ''/sbin/swapon -a''] @ format_acts (pa ! 0) @
     root_acts (pa ! 0) @ get @ boot_acts (bp_name boot) @
     [Popen (fmt (''cd '' @ TARGET_MOUNT_POINT @ ''/dev && '' @ TARGET_MOUNT_POINT @ ''/dev/MAKEDEV generic'')),
      Write (fmt (TARGET_MOUNT_POINT @ ''/boot/grub/menu.lst'')) (menulst_text os dev (lu - 1) (pa_name (pa ! 0))),
      Write (fmt (TARGET_MOUNT_POINT @ ''/etc/fstab'')) (concat (map fstab_line (take (n + 2) pa))),
      Append (fmt (TARGET_MOUNT_POINT @ ''/etc/rc.conf'')) rc] @ clean @ umount_acts []"

text \<open>A machine that lets every process start and every file be opened, and what its probes find.\<close>

definition found :: "inst_os \<Rightarrow> inst_st \<Rightarrow> md_t \<Rightarrow> pa_t list \<Rightarrow> nat \<Rightarrow> bp_t list \<Rightarrow> bool" where
  "found os junk md pa n bp \<longleftrightarrow> willing os \<and> probe_pccard (machine os) = Some False \<and>
     (\<exists>nh h0 nm mds' h1 h2.
        probe_hd (machine os) (hds junk) = Some (nh, h0) \<and>
        probe_md (machine os) (mds junk) h0 nh = Some (nm, mds', h1) \<and> 0 < nm \<and> mds' ! 0 = md \<and>
        rd_partition (machine os) h1 nh = Some (False, h2) \<and> pat_array h2 nh = Some (n, pa, bp)) \<and>
     0 < n \<and> bp \<noteq> [] \<and> \<not> flag_swap (pa ! 0)"

lemma foundI:
  assumes "willing os" "probe_pccard (machine os) = Some False" "probe_hd (machine os) (hds junk) = Some (nh, h0)"
    "probe_md (machine os) (mds junk) h0 nh = Some (nm, ms, h1)" "0 < nm" "ms ! 0 = md"
    "rd_partition (machine os) h1 nh = Some (False, h2)" "pat_array h2 nh = Some (n, pa, bp)" "0 < n" "bp \<noteq> []"
    "\<not> flag_swap (pa ! 0)"
  shows "found os junk md pa n bp"
  unfolding found_def using assms by blast

lemmas run_simps = probe_def skip_def greet_def start_msg_yes read_partitions_def menu_def set_partition_x
  choose_root_def set_boot_partition_def toggle_menu_x make_fs_acts if_yes_def isskip_char
  do_mount_acts set_distributions_x set_install_media_def
  fetch_binaries_def with_name_def boot_block_def do_installboot_acts
  do_acts_singles(1,2,3,4) run_makedev_def wr_menulst_def wr_fstab_def wr_rcconf_def finish_network_def if_dhcp_def
  do_passwd_acts do_umount_acts exit_prog_def default_acts_def boot_acts_def mkfs_acts_def

lemma default_run:
  assumes f: "found os junk md pa n bp" "\<And>l f. there os l f = here f"
    and medium: "md_type md = 0" "md_text md = Some name"
    and root: "getdevnum (pa_name (pa ! 0)) 7 = Some dev" "getlu (pa_name (pa ! 0)) 8 = Some lu"
  defines "ftp0 \<equiv> default_ftp (release_name os) (dist_arch os) (net junk)"
  shows "\<exists>t. sysinst os (inst_start (answers ''yyxxyxxyxyyyn'') junk) = Some (Inl (0, t)) \<and>
     acts t = default_acts os (bp ! 0) dev lu (pa[0 := (pa ! 0)\<lparr>fck1 := 0, fck2 := 0\<rparr>]) n
       (Popen (fmt (''/sbin/dhclient -q '' @ name)) # ftp_acts ftp0 here dist_list)
       (''dhclient=YES'' @ [TAB] @ ''dhclient_flags='' @ [DQ] @ ''-q '' @ name @ [DQ, NL])
       [System (fmt (''/bin/rm -rf '' @ TARGET_MOUNT_POINT @ ''/usr/INST''))]"
proof -
  have w: "willing os" using f(1) by (simp add: found_def)
  obtain nh h0 nm ms h1 h2 where probes: "probe_pccard (machine os) = Some False" "probe_hd (machine os) (hds junk) = Some (nh, h0)"
      "probe_md (machine os) (mds junk) h0 nh = Some (nm, ms, h1)" "0 < nm" "ms ! 0 = md"
      "rd_partition (machine os) h1 nh = Some (False, h2)" "pat_array h2 nh = Some (n, pa, bp)" "0 < n" "bp \<noteq> []"
      "\<not> flag_swap (pa ! 0)"
    using f(1) unfolding found_def by blast
  note r = pat_array_root [OF probes(7,8)]
  have len: "pa \<noteq> []" using pat_array_table [OF probes(7)] by simp
  have nz: "nm \<noteq> 0" "n \<noteq> 0" using probes(4,8) by simp_all
  have d: "length dist_list = NUM_DIST" by (simp add: dist_list_def NUM_DIST_def)
  have local: "local_dir ftp0 = ''/usr/INST''" "proxy ftp0 = []" by (simp_all add: ftp0_def default_ftp_def)
  show ?thesis
    unfolding sysinst_def inst_start_def answers_def
    by (simp add: run_simps probes r nz len d root medium do_acts_willing [OF w] from_network_def set_dhcp_def run_dhclient_def
        getanswer_char set_ftp_def ftp_menu_x ftp0_def [symmetric] set_proxy_def local
        ftp_willing [OF w] ftp_extract_willing [OF w f(2)] ftp_acts_def do_rminst_def)
qed

text \<open>
  C8. The run that takes the defaults, over the network, on a machine where every process can be started,
  every file opened, and a file is there all the time or never; the probes find no PC card, a boot
  device, a network device with a name as first medium, and a partition for Linux; the first partition is
  not for swapping and GRUB has a number for it. With yes to the greeting, to making the file
  systems, to the address from the server, to fetching and unpacking, to the boot block and to
  removing what was fetched, no to the password, and no change in any menu, the installer ends with 0.
  It makes a file system on the first partition and swap space on the partitions for it, and on no
  other, mounts the first partition, asks for an address, fetches the chosen distributions and
  unpacks those that are there, installs the boot block, writes the tables, with the client of the
  device in \<^verbatim>\<open>rc.conf\<close>, removes what was fetched and unmounts. (The mail address of the
  fetch has a domain that was never set.)
\<close>

theorem default_install:
  assumes "found os junk md pa n bp" "\<And>l f. there os l f = here f" "md_type md = 0" "md_text md = Some name"
    "getdevnum (pa_name (pa ! 0)) 7 = Some dev" "getlu (pa_name (pa ! 0)) 8 = Some lu"
  shows "\<exists>t. sysinst os (inst_start (answers ''yyxxyxxyxyyyn'') junk) = Some (Inl (0, t)) \<and>
     acts t = default_acts os (bp ! 0) dev lu (pa[0 := (pa ! 0)\<lparr>fck1 := 0, fck2 := 0\<rparr>]) n
       (Popen (fmt (''/sbin/dhclient -q '' @ name)) #
        ftp_acts (default_ftp (release_name os) (dist_arch os) (net junk)) here dist_list)
       (''dhclient=YES'' @ [TAB] @ ''dhclient_flags='' @ [DQ] @ ''-q '' @ name @ [DQ, NL])
       [System (fmt (''/bin/rm -rf '' @ TARGET_MOUNT_POINT @ ''/usr/INST''))]"
  by (rule default_run [OF assms])

text \<open>
  From a CD no run that accepts the rest of the defaults has a defined result: the program tests
  whether the address comes from the server, which is never assigned when the medium is a CD.
\<close>

theorem cd_install_undefined:
  assumes "found os junk md pa n bp" "\<And>l f. there os l f = here f" "md_type md = 1" "md_text md = Some cd"
    "getdevnum (pa_name (pa ! 0)) 7 = Some dev" "getlu (pa_name (pa ! 0)) 8 = Some lu"
  shows "sysinst os (inst_start (answers ''yyxxyxxyyn'') junk) = None"
proof -
  have w: "willing os" using assms(1) by (simp add: found_def)
  obtain nh h0 nm ms h1 h2 where probes: "probe_pccard (machine os) = Some False" "probe_hd (machine os) (hds junk) = Some (nh, h0)"
      "probe_md (machine os) (mds junk) h0 nh = Some (nm, ms, h1)" "0 < nm" "ms ! 0 = md"
      "rd_partition (machine os) h1 nh = Some (False, h2)" "pat_array h2 nh = Some (n, pa, bp)" "0 < n" "bp \<noteq> []"
      "\<not> flag_swap (pa ! 0)"
    using assms(1) unfolding found_def by blast
  note r = pat_array_root [OF probes(7,8)]
  have len: "pa \<noteq> []" using pat_array_table [OF probes(7)] by simp
  have nz: "nm \<noteq> 0" "n \<noteq> 0" using probes(4,8) by simp_all
  have d: "length dist_list = NUM_DIST" by (simp add: dist_list_def NUM_DIST_def)
  show ?thesis
    unfolding sysinst_def inst_start_def answers_def
    by (simp add: run_simps probes r nz len d assms(3-6) do_acts_willing [OF w] cdrom_willing [OF w assms(2)])
qed

definition demo_os :: inst_os where
  "demo_os =
     \<lparr>machine = demo_machine\<lparr>proc := (proc demo_machine)
        (''/proc/net/dev'' \<mapsto> [demo_line ''  eth0: 1 2 0 0 0 0 0 0 3 4 0 0 0 0 0 0''])\<rparr>,
      can_start = (\<lambda>_. True), can_open = (\<lambda>_ _. True),
      there = (\<lambda>l f. f = ''/mnt/usr/INST/base.tgz''), dist_arch = ''i386'', release_name = ''0.3'',
      kernel_version = ''2.4''\<rparr>"

definition cd_os :: inst_os where
  "cd_os = demo_os\<lparr>machine := demo_machine\<rparr>"

definition demo_junk :: inst_st where
  "demo_junk =
     \<lparr>inp = [], acts = [], dists = [], hds = replicate 16 demo_hd, mds = replicate 16 demo_md, pas = [], bps = [],
      num_hd = 0, num_md = 0, num_pat = 0, root_pat = 0, act_bp = 0, act_md = 0, pccard = False, dhcp = None,
      net = \<lparr>hostname = [], domain = [], ip = [], mask = [], cast = [], route = [], dns = []\<rparr>,
      ftp = \<lparr>server = [], remote_dir = [], local_dir = [], proxy = [], login = [], passwd = []\<rparr>\<rparr>"

definition demo_probed :: "hd_t list" where
  "demo_probed = demo_hd\<lparr>hd_name := ''hda''\<rparr> # replicate 15 demo_hd"

definition demo_net :: md_t where
  "demo_net = \<lparr>md_name = ''eth0'' @ replicate 12 NUL, md_type = 0\<rparr>"

definition demo_cd :: md_t where
  "demo_cd = \<lparr>md_name = ''/dev/hdc'' @ [NUL], md_type = 1\<rparr>"

lemma demo_found: "found demo_os demo_junk demo_net demo_pas 2 demo_bps"
proof -
  have "probe_hd (machine demo_os) (hds demo_junk) = Some (1, demo_probed)"
    "probe_md (machine demo_os) (mds demo_junk) demo_probed 1 =
       Some (2, demo_net # demo_cd # replicate 14 demo_md, demo_probed)"
    "rd_partition (machine demo_os) demo_probed 1 = Some (False, demo_disks)"
    "probe_pccard (machine demo_os) = Some False" "demo_bps \<noteq> []" "\<not> flag_swap (demo_pas ! 0)"
    by code_simp+
  moreover have "willing demo_os" by (simp add: willing_def demo_os_def)
  ultimately show ?thesis
    using foundI [of demo_os demo_junk 1 demo_probed 2 "demo_net # demo_cd # replicate 14 demo_md" demo_probed] demo_pat
    by simp
qed

lemma cd_found: "found cd_os demo_junk demo_cd demo_pas 2 demo_bps"
proof -
  have "probe_hd (machine cd_os) (hds demo_junk) = Some (1, demo_probed)"
    "probe_md (machine cd_os) (mds demo_junk) demo_probed 1 = Some (1, demo_cd # replicate 15 demo_md, demo_probed)"
    "rd_partition (machine cd_os) demo_probed 1 = Some (False, demo_disks)"
    "probe_pccard (machine cd_os) = Some False" "demo_bps \<noteq> []" "\<not> flag_swap (demo_pas ! 0)"
    by code_simp+
  moreover have "willing cd_os" by (simp add: willing_def demo_os_def cd_os_def)
  ultimately show ?thesis
    using foundI [of cd_os demo_junk 1 demo_probed 1 "demo_cd # replicate 15 demo_md" demo_probed] demo_pat
    by simp
qed

lemma demo_facts:
  "there demo_os l f = (f = ''/mnt/usr/INST/base.tgz'')" "there cd_os l f = (f = ''/mnt/usr/INST/base.tgz'')"
  "md_type demo_net = 0" "md_text demo_net = Some ''eth0''" "md_type demo_cd = 1" "md_text demo_cd = Some ''/dev/hdc''"
  "getdevnum (pa_name (demo_pas ! 0)) 7 = Some 0" "getlu (pa_name (demo_pas ! 0)) 8 = Some 1"
  by (simp add: demo_os_def, simp add: demo_os_def cd_os_def, code_simp+)

theorem default_install_witness:
  "\<exists>t. sysinst demo_os (inst_start (answers ''yyxxyxxyxyyyn'') demo_junk) = Some (Inl (0, t)) \<and>
     acts t = default_acts demo_os (demo_bps ! 0) 0 1 (demo_pas[0 := (demo_pas ! 0)\<lparr>fck1 := 0, fck2 := 0\<rparr>]) 2
       (Popen (fmt (''/sbin/dhclient -q '' @ ''eth0'')) #
        ftp_acts (default_ftp (release_name demo_os) (dist_arch demo_os) (net demo_junk))
          (\<lambda>f. f = ''/mnt/usr/INST/base.tgz'') dist_list)
       (''dhclient=YES'' @ [TAB] @ ''dhclient_flags='' @ [DQ] @ ''-q '' @ ''eth0'' @ [DQ, NL])
       [System (fmt (''/bin/rm -rf '' @ TARGET_MOUNT_POINT @ ''/usr/INST''))]"
  by (rule default_install [OF demo_found demo_facts(1,3,4,7,8)])

theorem cd_install_undefined_witness:
  "sysinst cd_os (inst_start (answers ''yyxxyxxyyn'') demo_junk) = None"
  by (rule cd_install_undefined [OF cd_found demo_facts(2,5,6,7,8)])

theorem installation_order_witness:
  "\<exists>t. sysinst demo_os (inst_start (answers ''yyxxyxxyxyyyn'') demo_junk) = Some (Inl (0, t)) \<and>
     in_order (acts t) (pas t) (num_pat t) (root_pat t)"
proof -
  obtain t where t: "sysinst demo_os (inst_start (answers ''yyxxyxxyxyyyn'') demo_junk) = Some (Inl (0, t))"
    using default_run [OF demo_found demo_facts(1,3,4,7,8)] by blast
  have "two_yes (inp (inst_start (answers ''yyxxyxxyxyyyn'') demo_junk))"
    by (simp add: inst_start_def answers_def two_yes_def getanswer_char)
  then show ?thesis using installation_order [OF t] t by (auto simp: inst_start_def)
qed

end
