(* ===== verification/Lst.thy ===== *)
theory Lst
  imports Libc
begin

text \<open>
  The list library of the build tool, \<^verbatim>\<open>usr.bin/bmake/lst.lib\<close>: doubly linked lists,
  circular or not, with nodes that are in use while a function is applied to them.

  The heap holds the nodes and the list headers under their addresses; \<open>None\<close> of
  \<open>ptr\<close> is the nil pointer (-1). Freed objects are gone from the heap, and every access to
  an object that is not there makes the result \<open>None\<close>. Memory is never exhausted
  (\<^verbatim>\<open>emalloc\<close> ends the program then).
\<close>

subsection \<open>Nodes, headers, heap\<close>

type_synonym addr = nat

type_synonym ptr = "addr option"

record 'd lnode =
  prevPtr :: ptr
  nextPtr :: ptr
  useCount :: "8 word"
  ln_deleted :: bool
  datum :: 'd

datatype where_t = Head | Middle | Tail | Unknown

record lst_t =
  firstPtr :: ptr
  lastPtr :: ptr
  isCirc :: bool
  atEnd :: where_t
  isOpen :: bool
  curPtr :: ptr
  lprevPtr :: ptr

record 'd lheap =
  nodes :: "addr \<Rightarrow> 'd lnode option"
  lsts :: "addr \<Rightarrow> lst_t option"
  brk :: addr

definition getn :: "'d lheap \<Rightarrow> ptr \<Rightarrow> 'd lnode option" where
  "getn h p = do { a \<leftarrow> p; nodes h a }"

definition updn :: "ptr \<Rightarrow> ('d lnode \<Rightarrow> 'd lnode) \<Rightarrow> 'd lheap \<Rightarrow> 'd lheap option" where
  "updn p f h = do { a \<leftarrow> p; n \<leftarrow> nodes h a; Some (h\<lparr>nodes := (nodes h)(a \<mapsto> f n)\<rparr>) }"

definition getl :: "'d lheap \<Rightarrow> ptr \<Rightarrow> lst_t option" where
  "getl h p = do { a \<leftarrow> p; lsts h a }"

definition updl :: "ptr \<Rightarrow> (lst_t \<Rightarrow> lst_t) \<Rightarrow> 'd lheap \<Rightarrow> 'd lheap option" where
  "updl p f h = do { a \<leftarrow> p; l \<leftarrow> lsts h a; Some (h\<lparr>lsts := (lsts h)(a \<mapsto> f l)\<rparr>) }"

definition free_node :: "ptr \<Rightarrow> 'd lheap \<Rightarrow> 'd lheap option" where
  "free_node p h = do { a \<leftarrow> p; n \<leftarrow> nodes h a; Some (h\<lparr>nodes := (nodes h)(a := None)\<rparr>) }"

definition free_list :: "ptr \<Rightarrow> 'd lheap \<Rightarrow> 'd lheap option" where
  "free_list p h = do { a \<leftarrow> p; l \<leftarrow> lsts h a; Some (h\<lparr>lsts := (lsts h)(a := None)\<rparr>) }"

text \<open>\<^verbatim>\<open>PAlloc\<close> of a node, filled with its datum.\<close>

definition new_node :: "'d \<Rightarrow> 'd lheap \<Rightarrow> addr \<times> 'd lheap" where
  "new_node d h =
     (brk h, h\<lparr>nodes := (nodes h)(brk h \<mapsto> \<lparr>prevPtr = None, nextPtr = None, useCount = 0, ln_deleted = False, datum = d\<rparr>),
               brk := brk h + 1\<rparr>)"

subsection \<open>Operations\<close>

text \<open>The current node of a new list is not set until it is opened, and not read before.\<close>

definition Lst_Init :: "bool \<Rightarrow> 'd lheap \<Rightarrow> ptr \<times> 'd lheap" where
  "Lst_Init circ h =
     (Some (brk h),
      h\<lparr>lsts := (lsts h)(brk h \<mapsto>
           \<lparr>firstPtr = None, lastPtr = None, isCirc = circ, atEnd = Unknown, isOpen = False, curPtr = None,
            lprevPtr = None\<rparr>),
        brk := brk h + 1\<rparr>)"

definition Lst_IsEmpty :: "ptr \<Rightarrow> 'd lheap \<Rightarrow> bool option" where
  "Lst_IsEmpty l h = (if l = None then Some True else do { L \<leftarrow> getl h l; Some (firstPtr L = None) })"

definition Lst_First :: "ptr \<Rightarrow> 'd lheap \<Rightarrow> ptr option" where
  "Lst_First l h =
     (if l = None then Some None else do { L \<leftarrow> getl h l; Some (if firstPtr L = None then None else firstPtr L) })"

definition Lst_Last :: "ptr \<Rightarrow> 'd lheap \<Rightarrow> ptr option" where
  "Lst_Last l h =
     (if l = None then Some None else do { L \<leftarrow> getl h l; Some (if firstPtr L = None then None else lastPtr L) })"

definition Lst_Succ :: "ptr \<Rightarrow> 'd lheap \<Rightarrow> ptr option" where
  "Lst_Succ ln h = (if ln = None then Some None else do { n \<leftarrow> getn h ln; Some (nextPtr n) })"

text \<open>The datum of the nil node is a value of its own.\<close>

definition Lst_Datum :: "ptr \<Rightarrow> 'd lheap \<Rightarrow> 'd option option" where
  "Lst_Datum ln h = (if ln = None then Some None else do { n \<leftarrow> getn h ln; Some (Some (datum n)) })"

definition Lst_Replace :: "ptr \<Rightarrow> 'd \<Rightarrow> 'd lheap \<Rightarrow> (bool \<times> 'd lheap) option" where
  "Lst_Replace ln d h =
     (if ln = None then Some (False, h) else do { h \<leftarrow> updn ln (datum_update (\<lambda>_. d)) h; Some (True, h) })"

text \<open>Whether the arguments of \<^verbatim>\<open>Lst_Append\<close> and \<^verbatim>\<open>Lst_Insert\<close> are valid.\<close>

definition place_ok :: "ptr \<Rightarrow> ptr \<Rightarrow> 'd lheap \<Rightarrow> bool option" where
  "place_ok l ln h =
     (if l = None then Some False else do { L \<leftarrow> getl h l; Some ((ln = None) = (firstPtr L = None)) })"

text \<open>The only node of a list.\<close>

definition only_node :: "ptr \<Rightarrow> addr \<Rightarrow> 'd lheap \<Rightarrow> 'd lheap option" where
  "only_node l a h =
     do { L \<leftarrow> getl h l;
          let p = (if isCirc L then Some a else None);
          h \<leftarrow> updn (Some a) (\<lambda>n. n\<lparr>nextPtr := p, prevPtr := p\<rparr>) h;
          updl l (\<lambda>L. L\<lparr>firstPtr := Some a, lastPtr := Some a\<rparr>) h }"

definition Lst_Append :: "ptr \<Rightarrow> ptr \<Rightarrow> 'd \<Rightarrow> 'd lheap \<Rightarrow> (bool \<times> 'd lheap) option" where
  "Lst_Append l ln d h =
     do { valid \<leftarrow> place_ok l ln h;
          if \<not> valid then Some (False, h)
          else let (a, h) = new_node d h in
            if ln = None then do { h \<leftarrow> only_node l a h; Some (True, h) }
            else do {
              n \<leftarrow> getn h ln;
              h \<leftarrow> updn (Some a) (\<lambda>m. m\<lparr>prevPtr := ln, nextPtr := nextPtr n\<rparr>) h;
              h \<leftarrow> updn ln (\<lambda>n. n\<lparr>nextPtr := Some a\<rparr>) h;
              m \<leftarrow> getn h (Some a);
              h \<leftarrow> (if nextPtr m \<noteq> None then updn (nextPtr m) (\<lambda>n. n\<lparr>prevPtr := Some a\<rparr>) h else Some h);
              L \<leftarrow> getl h l;
              h \<leftarrow> (if ln = lastPtr L then updl l (\<lambda>L. L\<lparr>lastPtr := Some a\<rparr>) h else Some h);
              Some (True, h) } }"

definition Lst_Insert :: "ptr \<Rightarrow> ptr \<Rightarrow> 'd \<Rightarrow> 'd lheap \<Rightarrow> (bool \<times> 'd lheap) option" where
  "Lst_Insert l ln d h =
     do { valid \<leftarrow> place_ok l ln h;
          if \<not> valid then Some (False, h)
          else let (a, h) = new_node d h in
            if ln = None then do { h \<leftarrow> only_node l a h; Some (True, h) }
            else do {
              n \<leftarrow> getn h ln;
              h \<leftarrow> updn (Some a) (\<lambda>m. m\<lparr>prevPtr := prevPtr n, nextPtr := ln\<rparr>) h;
              m \<leftarrow> getn h (Some a);
              h \<leftarrow> (if prevPtr m \<noteq> None then updn (prevPtr m) (\<lambda>n. n\<lparr>nextPtr := Some a\<rparr>) h else Some h);
              h \<leftarrow> updn ln (\<lambda>n. n\<lparr>prevPtr := Some a\<rparr>) h;
              L \<leftarrow> getl h l;
              h \<leftarrow> (if ln = firstPtr L then updl l (\<lambda>L. L\<lparr>firstPtr := Some a\<rparr>) h else Some h);
              Some (True, h) } }"

definition Lst_AtEnd :: "ptr \<Rightarrow> 'd \<Rightarrow> 'd lheap \<Rightarrow> (bool \<times> 'd lheap) option" where
  "Lst_AtEnd l d h = do { ln \<leftarrow> Lst_Last l h; Lst_Append l ln d h }"

definition Lst_AtFront :: "ptr \<Rightarrow> 'd \<Rightarrow> 'd lheap \<Rightarrow> (bool \<times> 'd lheap) option" where
  "Lst_AtFront l d h = do { ln \<leftarrow> Lst_First l h; Lst_Insert l ln d h }"

text \<open>The header after the node at \<open>ln\<close> with the contents \<open>n\<close> is taken out.\<close>

definition unlink_header :: "ptr \<Rightarrow> 'd lnode \<Rightarrow> lst_t \<Rightarrow> lst_t" where
  "unlink_header ln n L =
     (let L = (if firstPtr L = ln then L\<lparr>firstPtr := nextPtr n\<rparr> else L);
          L = (if lastPtr L = ln then L\<lparr>lastPtr := prevPtr n\<rparr> else L);
          L = (if isOpen L \<and> curPtr L = ln
               then (if lprevPtr L = None then L\<lparr>curPtr := None, atEnd := Unknown\<rparr> else L\<lparr>curPtr := lprevPtr L\<rparr>)
               else L)
      in if firstPtr L = ln then L\<lparr>firstPtr := None\<rparr> else L)"

definition Lst_Remove :: "ptr \<Rightarrow> ptr \<Rightarrow> 'd lheap \<Rightarrow> (bool \<times> 'd lheap) option" where
  "Lst_Remove l ln h =
     (if l = None \<or> ln = None then Some (False, h)
      else do {
        n \<leftarrow> getn h ln;
        h \<leftarrow> (if nextPtr n \<noteq> None then updn (nextPtr n) (\<lambda>m. m\<lparr>prevPtr := prevPtr n\<rparr>) h else Some h);
        n \<leftarrow> getn h ln;
        h \<leftarrow> (if prevPtr n \<noteq> None then updn (prevPtr n) (\<lambda>m. m\<lparr>nextPtr := nextPtr n\<rparr>) h else Some h);
        n \<leftarrow> getn h ln;
        h \<leftarrow> updl l (unlink_header ln n) h;
        h \<leftarrow> (if useCount n = 0 then free_node ln h else updn ln (\<lambda>n. n\<lparr>ln_deleted := True\<rparr>) h);
        Some (True, h) })"

definition Lst_EnQueue :: "ptr \<Rightarrow> 'd \<Rightarrow> 'd lheap \<Rightarrow> (bool \<times> 'd lheap) option" where
  "Lst_EnQueue l d h =
     (if l = None then Some (False, h) else do { ln \<leftarrow> Lst_Last l h; Lst_Append l ln d h })"

definition Lst_DeQueue :: "ptr \<Rightarrow> 'd lheap \<Rightarrow> ('d option \<times> 'd lheap) option" where
  "Lst_DeQueue l h =
     do { ln \<leftarrow> Lst_First l h;
          if ln = None then Some (None, h)
          else do { n \<leftarrow> getn h ln;
                    (good, h) \<leftarrow> Lst_Remove l ln h;
                    Some (if good then Some (datum n) else None, h) } }"

subsection \<open>Loops over a list\<close>

text \<open>
  A list may be circular and the functions that are applied may change it, so the loops may go
  on for ever.
\<close>

partial_function (option) find_loop :: "ptr \<Rightarrow> ('d \<Rightarrow> bool) \<Rightarrow> 'd lheap \<Rightarrow> ptr \<Rightarrow> ptr option" where
  "find_loop ln p h t =
     do { n \<leftarrow> getn h t;
          if p (datum n) then Some t
          else if nextPtr n \<noteq> ln \<and> nextPtr n \<noteq> None then find_loop ln p h (nextPtr n)
          else Some None }"

declare find_loop.simps [code]

definition Lst_FindFrom :: "ptr \<Rightarrow> ptr \<Rightarrow> 'e \<Rightarrow> ('d \<Rightarrow> 'e \<Rightarrow> bool) \<Rightarrow> 'd lheap \<Rightarrow> ptr option" where
  "Lst_FindFrom l ln d cProc h =
     do { e \<leftarrow> Lst_IsEmpty l h;
          if e \<or> ln = None then Some None else find_loop ln (\<lambda>x. cProc x d) h ln }"

definition Lst_Find :: "ptr \<Rightarrow> 'e \<Rightarrow> ('d \<Rightarrow> 'e \<Rightarrow> bool) \<Rightarrow> 'd lheap \<Rightarrow> ptr option" where
  "Lst_Find l d cProc h = do { ln \<leftarrow> Lst_First l h; Lst_FindFrom l ln d cProc h }"

text \<open>There is no test for the nil list here.\<close>

definition Lst_Member :: "ptr \<Rightarrow> 'd \<Rightarrow> 'd lheap \<Rightarrow> ptr option" where
  "Lst_Member l d h =
     do { L \<leftarrow> getl h l;
          if firstPtr L = None then Some None else find_loop (firstPtr L) (\<lambda>x. x = d) h (firstPtr L) }"

text \<open>A function that is applied may change the heap; its result ends the loop when it is not 0.\<close>

type_synonym ('d, 's) lproc = "'d \<Rightarrow> 'd lheap \<times> 's \<Rightarrow> (bool \<times> 'd lheap \<times> 's) option"

text \<open>One round: the node to go on with, and whether to go on.\<close>

definition foreach_step :: "ptr \<Rightarrow> ('d, 's) lproc \<Rightarrow> ptr \<Rightarrow> 'd lheap \<Rightarrow> 's \<Rightarrow> (ptr \<times> bool \<times> 'd lheap \<times> 's) option" where
  "foreach_step l proc t h s =
     do { n \<leftarrow> getn h t;
          let succ = nextPtr n;
          h \<leftarrow> updn t (\<lambda>n. n\<lparr>useCount := useCount n + 1\<rparr>) h;
          (result, h, s) \<leftarrow> proc (datum n) (h, s);
          h \<leftarrow> updn t (\<lambda>n. n\<lparr>useCount := useCount n - 1\<rparr>) h;
          n \<leftarrow> getn h t;
          finished \<leftarrow> (if succ \<noteq> nextPtr n then Some False
                      else if succ = None then Some True
                      else do { L \<leftarrow> getl h l; Some (succ = firstPtr L) });
          h \<leftarrow> (if ln_deleted n then free_node t h else Some h);
          if result then Some (nextPtr n, False, h, s)
          else do { L \<leftarrow> getl h l; Some (nextPtr n, firstPtr L \<noteq> None \<and> \<not> finished, h, s) } }"

partial_function (option) foreach_loop ::
    "ptr \<Rightarrow> ('d, 's) lproc \<Rightarrow> ptr \<Rightarrow> 'd lheap \<Rightarrow> 's \<Rightarrow> ('d lheap \<times> 's) option" where
  "foreach_loop l proc t h s =
     do { (t, more, h, s) \<leftarrow> foreach_step l proc t h s;
          if more then foreach_loop l proc t h s else Some (h, s) }"

declare foreach_loop.simps [code]

definition Lst_ForEachFrom :: "ptr \<Rightarrow> ptr \<Rightarrow> ('d, 's) lproc \<Rightarrow> 'd lheap \<Rightarrow> 's \<Rightarrow> ('d lheap \<times> 's) option" where
  "Lst_ForEachFrom l ln proc h s =
     do { e \<leftarrow> Lst_IsEmpty l h; if e then Some (h, s) else foreach_loop l proc ln h s }"

definition Lst_ForEach :: "ptr \<Rightarrow> ('d, 's) lproc \<Rightarrow> 'd lheap \<Rightarrow> 's \<Rightarrow> ('d lheap \<times> 's) option" where
  "Lst_ForEach l proc h s = do { ln \<leftarrow> Lst_First l h; Lst_ForEachFrom l ln proc h s }"

text \<open>Copies of the data go to the end of the new list.\<close>

partial_function (option) dupl_loop :: "lst_t \<Rightarrow> ('d \<Rightarrow> 'd) \<Rightarrow> ptr \<Rightarrow> ptr \<Rightarrow> 'd lheap \<Rightarrow> (ptr \<times> 'd lheap) option" where
  "dupl_loop L copy nl ln h =
     (if ln = None then Some (nl, h)
      else do {
        n \<leftarrow> getn h ln;
        (good, h) \<leftarrow> Lst_AtEnd nl (copy (datum n)) h;
        if \<not> good then Some (None, h)
        else do { n \<leftarrow> getn h ln;
                  dupl_loop L copy nl (if isCirc L \<and> ln = lastPtr L then None else nextPtr n) h } })"

declare dupl_loop.simps [code]

definition Lst_Duplicate :: "ptr \<Rightarrow> ('d \<Rightarrow> 'd) \<Rightarrow> 'd lheap \<Rightarrow> (ptr \<times> 'd lheap) option" where
  "Lst_Duplicate l copy h =
     (if l = None then Some (None, h)
      else do { L \<leftarrow> getl h l;
                let (nl, h) = Lst_Init (isCirc L) h;
                dupl_loop L copy nl (firstPtr L) h })"

text \<open>The nodes are freed from the first on; the effect of \<^verbatim>\<open>freeProc\<close> is that on \<open>s\<close>.\<close>

partial_function (option) destroy_loop :: "('d \<Rightarrow> 's \<Rightarrow> 's) \<Rightarrow> ptr \<Rightarrow> 'd lheap \<Rightarrow> 's \<Rightarrow> ('d lheap \<times> 's) option" where
  "destroy_loop freeProc ln h s =
     (if ln = None then Some (h, s)
      else do { n \<leftarrow> getn h ln;
                h \<leftarrow> free_node ln h;
                destroy_loop freeProc (nextPtr n) h (freeProc (datum n) s) })"

declare destroy_loop.simps [code]

definition Lst_Destroy :: "ptr \<Rightarrow> ('d \<Rightarrow> 's \<Rightarrow> 's) \<Rightarrow> 'd lheap \<Rightarrow> 's \<Rightarrow> ('d lheap \<times> 's) option" where
  "Lst_Destroy l freeProc h s =
     (if l = None then Some (h, s)
      else do {
        L \<leftarrow> getl h l;
        if lastPtr L = None then do { h \<leftarrow> free_list l h; Some (h, s) }
        else do {
          h \<leftarrow> updn (lastPtr L) (\<lambda>n. n\<lparr>nextPtr := None\<rparr>) h;
          (h, s) \<leftarrow> destroy_loop freeProc (firstPtr L) h s;
          h \<leftarrow> free_list l h;
          Some (h, s) } })"

subsection \<open>Concatenation\<close>

text \<open>The last node and the first node of a circular list point to each other.\<close>

definition close_ring :: "ptr \<Rightarrow> 'd lheap \<Rightarrow> 'd lheap option" where
  "close_ring l h =
     do { L \<leftarrow> getl h l;
          h \<leftarrow> updn (firstPtr L) (\<lambda>n. n\<lparr>prevPtr := lastPtr L\<rparr>) h;
          updn (lastPtr L) (\<lambda>n. n\<lparr>nextPtr := firstPtr L\<rparr>) h }"

definition concat_link :: "ptr \<Rightarrow> ptr \<Rightarrow> 'd lheap \<Rightarrow> 'd lheap option" where
  "concat_link l1 l2 h =
     do { L2 \<leftarrow> getl h l2;
          h \<leftarrow> (if firstPtr L2 = None then Some h
               else do {
                 h \<leftarrow> updn (lastPtr L2) (\<lambda>n. n\<lparr>nextPtr := None\<rparr>) h;
                 L1 \<leftarrow> getl h l1;
                 h \<leftarrow> updn (firstPtr L2) (\<lambda>n. n\<lparr>prevPtr := lastPtr L1\<rparr>) h;
                 h \<leftarrow> (if lastPtr L1 \<noteq> None then updn (lastPtr L1) (\<lambda>n. n\<lparr>nextPtr := firstPtr L2\<rparr>) h
                      else updl l1 (\<lambda>L. L\<lparr>firstPtr := firstPtr L2\<rparr>) h);
                 updl l1 (\<lambda>L. L\<lparr>lastPtr := lastPtr L2\<rparr>) h });
          L1 \<leftarrow> getl h l1;
          h \<leftarrow> (if isCirc L1 \<and> firstPtr L1 \<noteq> None then close_ring l1 h else Some h);
          free_list l2 h }"

text \<open>The loop that copies the nodes, and the last node then; it does not end on a list that is
  appended to itself.\<close>

partial_function (option) concat_loop :: "ptr \<Rightarrow> ptr \<Rightarrow> ptr \<Rightarrow> 'd lheap \<Rightarrow> (ptr \<times> 'd lheap) option" where
  "concat_loop l1 end ln h =
     (if ln = None then Some (end, h)
      else do {
        n \<leftarrow> getn h ln;
        let (a, h) = new_node (datum n) h;
        h \<leftarrow> (if end \<noteq> None then updn end (\<lambda>n. n\<lparr>nextPtr := Some a\<rparr>) h
             else updl l1 (\<lambda>L. L\<lparr>firstPtr := Some a\<rparr>) h);
        h \<leftarrow> updn (Some a) (\<lambda>n. n\<lparr>prevPtr := end\<rparr>) h;
        n \<leftarrow> getn h ln;
        concat_loop l1 (Some a) (nextPtr n) h })"

declare concat_loop.simps [code]

definition concat_new :: "ptr \<Rightarrow> ptr \<Rightarrow> 'd lheap \<Rightarrow> 'd lheap option" where
  "concat_new l1 l2 h =
     do { L2 \<leftarrow> getl h l2;
          if firstPtr L2 = None then Some h
          else do {
            h \<leftarrow> updn (lastPtr L2) (\<lambda>n. n\<lparr>nextPtr := None\<rparr>) h;
            L1 \<leftarrow> getl h l1;
            (end, h) \<leftarrow> concat_loop l1 (lastPtr L1) (firstPtr L2) h;
            h \<leftarrow> updl l1 (\<lambda>L. L\<lparr>lastPtr := end\<rparr>) h;
            L1 \<leftarrow> getl h l1;
            h \<leftarrow> (if isCirc L1
                 then do { h \<leftarrow> updn (lastPtr L1) (\<lambda>n. n\<lparr>nextPtr := firstPtr L1\<rparr>) h;
                           updn (firstPtr L1) (\<lambda>n. n\<lparr>prevPtr := lastPtr L1\<rparr>) h }
                 else updn end (\<lambda>n. n\<lparr>nextPtr := None\<rparr>) h);
            L2 \<leftarrow> getl h l2;
            if isCirc L2 then updn (lastPtr L2) (\<lambda>n. n\<lparr>nextPtr := firstPtr L2\<rparr>) h else Some h } }"

definition Lst_Concat :: "ptr \<Rightarrow> ptr \<Rightarrow> bool \<Rightarrow> 'd lheap \<Rightarrow> (bool \<times> 'd lheap) option" where
  "Lst_Concat l1 l2 link h =
     (if l1 = None \<or> l2 = None then Some (False, h)
      else do { h \<leftarrow> (if link then concat_link l1 l2 h else concat_new l1 l2 h); Some (True, h) })"

subsection \<open>Sequential access\<close>

definition Lst_Open :: "ptr \<Rightarrow> 'd lheap \<Rightarrow> (bool \<times> 'd lheap) option" where
  "Lst_Open l h =
     (if l = None then Some (False, h)
      else do { h \<leftarrow> updl l (\<lambda>L. L\<lparr>isOpen := True, atEnd := (if firstPtr L = None then Head else Unknown),
                                    curPtr := None\<rparr>) h;
                Some (True, h) })"

definition Lst_Next :: "ptr \<Rightarrow> 'd lheap \<Rightarrow> (ptr \<times> 'd lheap) option" where
  "Lst_Next l h =
     (if l = None then Some (None, h)
      else do {
        L \<leftarrow> getl h l;
        if \<not> isOpen L then Some (None, h)
        else if curPtr L = None then
          (if atEnd L = Unknown
           then do { h \<leftarrow> updl l (\<lambda>L. L\<lparr>lprevPtr := curPtr L, curPtr := firstPtr L, atEnd := Middle\<rparr>) h;
                     Some (firstPtr L, h) }
           else do { h \<leftarrow> updl l (\<lambda>L. L\<lparr>lprevPtr := curPtr L, atEnd := Tail\<rparr>) h; Some (None, h) })
        else do {
          n \<leftarrow> getn h (curPtr L);
          let t = nextPtr n;
          h \<leftarrow> updl l (\<lambda>L. L\<lparr>lprevPtr := curPtr L, curPtr := t,
                             atEnd := (if t = firstPtr L \<or> t = None then Tail else Middle)\<rparr>) h;
          Some (t, h) } })"

definition Lst_IsAtEnd :: "ptr \<Rightarrow> 'd lheap \<Rightarrow> bool option" where
  "Lst_IsAtEnd l h =
     (if l = None then Some True
      else do { L \<leftarrow> getl h l; Some (\<not> isOpen L \<or> atEnd L = Head \<or> atEnd L = Tail) })"

definition Lst_Close :: "ptr \<Rightarrow> 'd lheap \<Rightarrow> 'd lheap option" where
  "Lst_Close l h = (if l = None then Some h else updl l (\<lambda>L. L\<lparr>isOpen := False, atEnd := Unknown\<rparr>) h)"

end
