(* ===== verification/Lstrep.thy ===== *)
theory Lstrep
  imports Lst
begin

text \<open>
  What the lists of \<^verbatim>\<open>usr.bin/bmake/lst.lib\<close> stand for: the sequence of their nodes and of
  the data in them; every operation against the operation on sequences.
\<close>

subsection \<open>Segments\<close>

definition fst_or :: "addr list \<Rightarrow> ptr \<Rightarrow> ptr" where
  "fst_or as q = (case as of [] \<Rightarrow> q | a # _ \<Rightarrow> Some a)"

definition lst_or :: "addr list \<Rightarrow> ptr \<Rightarrow> ptr" where
  "lst_or as p = (if as = [] then p else Some (last as))"

lemma fst_or_simps [simp]: "fst_or [] q = q" "fst_or (a # as) q = Some a" "fst_or (as @ bs) q = fst_or as (fst_or bs q)"
  by (auto simp: fst_or_def split: list.split)

lemma lst_or_simps [simp]: "lst_or [] p = p" "lst_or (a # as) p = lst_or as (Some a)" "lst_or (as @ bs) p = lst_or bs (lst_or as p)"
  by (auto simp: lst_or_def)

lemma fst_or_None [simp]: "fst_or as None = None \<longleftrightarrow> as = []"
  by (cases as) auto

lemma lst_or_None [simp]: "lst_or as None = None \<longleftrightarrow> as = []"
  by (simp add: lst_or_def)

lemma fst_or_Some [simp]: "\<exists>y. fst_or as (Some a) = Some y" "fst_or as (Some a) \<noteq> None"
  by (cases as; simp)+

lemma lst_or_Some [simp]: "\<exists>y. lst_or as (Some a) = Some y" "lst_or as (Some a) \<noteq> None"
  by (simp_all add: lst_or_def)

text \<open>The nodes of a segment are linked both ways, from \<open>p\<close> before to \<open>q\<close> behind it.\<close>

fun seg :: "(addr \<Rightarrow> 'd lnode option) \<Rightarrow> ptr \<Rightarrow> addr list \<Rightarrow> ptr \<Rightarrow> bool" where
  "seg m p [] q = True"
| "seg m p (a # as) q =
     (\<exists>n. m a = Some n \<and> prevPtr n = p \<and> nextPtr n = fst_or as q \<and> seg m (Some a) as q)"

lemma seg_append [simp]: "seg m p (as @ bs) q \<longleftrightarrow> seg m p as (fst_or bs q) \<and> seg m (lst_or as p) bs q"
  by (induction as arbitrary: p) auto

lemma seg_upd [simp]: "a \<notin> set as \<Longrightarrow> seg (m(a := v)) p as q = seg m p as q"
  by (induction as arbitrary: p) auto

lemma seg_dom: "seg m p as q \<Longrightarrow> a \<in> set as \<Longrightarrow> \<exists>n. m a = Some n"
  by (induction as arbitrary: p) auto

lemma seg_cong: "(\<And>a. a \<in> set as \<Longrightarrow> m' a = m a) \<Longrightarrow> seg m' p as q = seg m p as q"
  by (induction as arbitrary: p) auto

subsection \<open>Lists\<close>

text \<open>
  The header \<open>l\<close> and the nodes \<open>ns\<close>. The last node of an empty circular list is not
  determined: \<^verbatim>\<open>Lst_Remove\<close> leaves the node it has freed there.
\<close>

definition rep :: "'d lheap \<Rightarrow> addr \<Rightarrow> bool \<Rightarrow> addr list \<Rightarrow> bool" where
  "rep h l circ ns =
     (\<exists>L. lsts h l = Some L \<and> isCirc L = circ \<and> distinct ns \<and> firstPtr L = fst_or ns None \<and>
          (if ns = [] then circ \<or> lastPtr L = None else lastPtr L = Some (last ns)) \<and>
          seg (nodes h) (if circ then lst_or ns None else None) ns (if circ then fst_or ns None else None))"

definition vals :: "'d lheap \<Rightarrow> addr list \<Rightarrow> 'd list" where
  "vals h ns = map (\<lambda>a. datum (the (nodes h a))) ns"

definition heap_ok :: "'d lheap \<Rightarrow> bool" where
  "heap_ok h = (\<forall>a \<ge> brk h. nodes h a = None \<and> lsts h a = None)"

text \<open>What an operation on the list \<open>l\<close> with the nodes \<open>S\<close> leaves as it is: other nodes, other
  headers, and in every node that stays all but the links.\<close>

definition frame :: "'d lheap \<Rightarrow> addr \<Rightarrow> addr set \<Rightarrow> 'd lheap \<Rightarrow> bool" where
  "frame h l S h' =
     (brk h \<le> brk h' \<and> heap_ok h' \<and> (\<forall>k. k \<noteq> l \<longrightarrow> lsts h' k = lsts h k) \<and>
      (\<forall>a. a \<notin> S \<and> a < brk h \<longrightarrow> nodes h' a = nodes h a) \<and>
      (\<forall>a \<in> S. \<forall>n n'. nodes h a = Some n \<longrightarrow> nodes h' a = Some n' \<longrightarrow>
         datum n' = datum n \<and> useCount n' = useCount n \<and> ln_deleted n' = ln_deleted n))"

definition fresh_node :: "'d lheap \<Rightarrow> addr \<Rightarrow> 'd \<Rightarrow> bool" where
  "fresh_node h a d = (\<exists>n. nodes h a = Some n \<and> datum n = d \<and> useCount n = 0 \<and> \<not> ln_deleted n)"

lemma heap_ok_nodes: "heap_ok h \<Longrightarrow> nodes h a = Some n \<Longrightarrow> a < brk h"
  by (metis heap_ok_def not_le option.distinct(1))

lemma heap_ok_lsts: "heap_ok h \<Longrightarrow> lsts h a = Some n \<Longrightarrow> a < brk h"
  by (metis heap_ok_def not_le option.distinct(1))

lemma rep_fresh: "heap_ok h \<Longrightarrow> rep h l circ ns \<Longrightarrow> a \<in> set ns \<Longrightarrow> a < brk h"
  by (metis heap_ok_nodes rep_def seg_dom)

lemmas heap_defs = getn_def updn_def getl_def updl_def new_node_def only_node_def place_ok_def Let_def

theorem Lst_Init_empty:
  assumes "heap_ok h" "Lst_Init circ h = (p, h')"
  shows "\<exists>l. p = Some l \<and> rep h' l circ [] \<and> frame h l {} h'"
  using assms by (auto simp: Lst_Init_def rep_def frame_def heap_ok_def)

lemma append_empty:
  assumes ok: "heap_ok h" and r: "rep h l circ []"
  shows "\<exists>h'. Lst_Append (Some l) None d h = Some (True, h') \<and> Lst_Insert (Some l) None d h = Some (True, h') \<and>
    rep h' l circ [brk h] \<and> fresh_node h' (brk h) d \<and> frame h l {} h'"
proof -
  have "brk h \<noteq> l" using ok r heap_ok_lsts by (fastforce simp: rep_def)
  then show ?thesis
    using ok r
    by (auto simp: Lst_Append_def Lst_Insert_def heap_defs rep_def fresh_node_def frame_def heap_ok_def)
qed

text \<open>The header and the nodes of a list around one node.\<close>

lemma rep_at:
  assumes "heap_ok h" "rep h l circ (xs @ a # ys)"
  obtains L where "lsts h l = Some L" "isCirc L = circ" "distinct (xs @ a # ys)" "firstPtr L = fst_or xs (Some a)"
      "lastPtr L = Some (last (xs @ a # ys))"
      "seg (nodes h) (if circ then lst_or ys (Some a) else None) (xs @ a # ys) (if circ then fst_or xs (Some a) else None)"
      "brk h \<notin> set (xs @ a # ys)" "nodes h (brk h) = None" "l \<noteq> brk h" "\<forall>a\<ge>brk h. nodes h a = None"
      "\<forall>a\<ge>brk h. lsts h a = None"
proof -
  obtain L where L: "lsts h l = Some L" "isCirc L = circ" "distinct (xs @ a # ys)" "firstPtr L = fst_or xs (Some a)"
      "lastPtr L = Some (last (xs @ a # ys))"
      "seg (nodes h) (if circ then lst_or ys (Some a) else None) (xs @ a # ys) (if circ then fst_or xs (Some a) else None)"
    using assms(2) by (auto simp: rep_def)
  have fresh: "brk h \<notin> set (xs @ a # ys)" "nodes h (brk h) = None" "l \<noteq> brk h" "\<forall>a\<ge>brk h. nodes h a = None"
      "\<forall>a\<ge>brk h. lsts h a = None"
    using assms(1) rep_fresh [OF assms] heap_ok_lsts [OF assms(1) L(1)] by (auto simp: heap_ok_def)
  show thesis using that [OF L fresh] .
qed

lemma append_after:
  assumes ok: "heap_ok h" and r: "rep h l circ (xs @ a # ys)"
  shows "\<exists>h'. Lst_Append (Some l) (Some a) d h = Some (True, h') \<and>
    rep h' l circ (xs @ a # brk h # ys) \<and> fresh_node h' (brk h) d \<and> frame h l (set (xs @ a # ys)) h'"
proof -
  from ok r obtain L where L: "lsts h l = Some L" "isCirc L = circ" "distinct (xs @ a # ys)" "firstPtr L = fst_or xs (Some a)"
      "lastPtr L = Some (last (xs @ a # ys))"
      "seg (nodes h) (if circ then lst_or ys (Some a) else None) (xs @ a # ys) (if circ then fst_or xs (Some a) else None)"
    and fresh: "brk h \<notin> set (xs @ a # ys)" "nodes h (brk h) = None" "l \<noteq> brk h" "\<forall>a\<ge>brk h. nodes h a = None"
      "\<forall>a\<ge>brk h. lsts h a = None"
    by (rule rep_at)
  show ?thesis
  proof (cases ys)
    case (Cons y ys')
    then show ?thesis using L fresh
      by (auto simp: Lst_Append_def heap_defs rep_def fresh_node_def frame_def heap_ok_def split: if_splits)
  next
    case Nil
    show ?thesis
    proof (cases circ)
      case False
      then show ?thesis using Nil L fresh
        by (auto simp: Lst_Append_def heap_defs rep_def fresh_node_def frame_def heap_ok_def)
    next
      case True
      show ?thesis
      proof (cases xs)
        case Nil
        then show ?thesis using \<open>ys = []\<close> True L fresh
          by (auto simp: Lst_Append_def heap_defs rep_def fresh_node_def frame_def heap_ok_def)
      next
        case (Cons x xs')
        then show ?thesis using \<open>ys = []\<close> True L fresh
          by (auto simp: Lst_Append_def heap_defs rep_def fresh_node_def frame_def heap_ok_def)
      qed
    qed
  qed
qed

lemma fst_or_SomeD: "fst_or as q = Some b \<Longrightarrow> b \<in> set as \<or> as = [] \<and> q = Some b"
  by (cases as) auto

lemma lst_or_SomeD: "lst_or as p = Some b \<Longrightarrow> b \<in> set as \<or> as = [] \<and> p = Some b"
  by (auto simp: lst_or_def split: if_splits)

text \<open>Putting in the node \<open>b\<close> before the node \<open>a\<close>.\<close>

definition linked :: "(addr \<Rightarrow> 'd lnode option) \<Rightarrow> addr \<Rightarrow> 'd \<Rightarrow> ptr \<Rightarrow> addr \<Rightarrow> (addr \<Rightarrow> 'd lnode option)" where
  "linked m b d p a =
     (let m = m(b \<mapsto> \<lparr>prevPtr = p, nextPtr = Some a, useCount = 0, ln_deleted = False, datum = d\<rparr>);
          m = (case p of None \<Rightarrow> m | Some c \<Rightarrow> m(c := map_option (\<lambda>n. n\<lparr>nextPtr := Some b\<rparr>) (m c)))
      in m(a := map_option (\<lambda>n. n\<lparr>prevPtr := Some b\<rparr>) (m a)))"

lemma insert_eq:
  assumes n: "nodes h a = Some n" and L: "lsts h l = Some L" "firstPtr L \<noteq> None" and b: "nodes h (brk h) = None"
    and p: "\<And>c. prevPtr n = Some c \<Longrightarrow> nodes h c \<noteq> None"
  shows "Lst_Insert (Some l) (Some a) d h =
     Some (True, h\<lparr>nodes := linked (nodes h) (brk h) d (prevPtr n) a, brk := brk h + 1,
                   lsts := (lsts h)(l \<mapsto> if firstPtr L = Some a then L\<lparr>firstPtr := Some (brk h)\<rparr> else L)\<rparr>)"
proof -
  have "brk h \<noteq> a" using n b by auto
  moreover have "lsts h = (lsts h)(l \<mapsto> L)" using L(1) by auto
  moreover have "c \<noteq> brk h" if "prevPtr n = Some c" for c using p that b by auto
  ultimately show ?thesis
    using assms by (cases "prevPtr n") (fastforce simp: Lst_Insert_def heap_defs linked_def)+
qed

lemma frame_linked:
  assumes "heap_ok h" "nodes h a = Some n" "set_option p \<subseteq> S" "a \<in> S" "lsts h l = Some L" "nodes h (brk h) = None"
    "S \<subseteq> dom (nodes h)"
  shows "frame h l S (h\<lparr>nodes := linked (nodes h) (brk h) d p a, brk := brk h + 1, lsts := (lsts h)(l \<mapsto> L')\<rparr>)"
proof -
  have l: "l < brk h" using assms(1,5) by (rule heap_ok_lsts)
  have S: "c < brk h" if "c \<in> S" for c using assms(1,7) that heap_ok_nodes by blast
  show ?thesis
    unfolding frame_def heap_ok_def
  proof (intro conjI allI impI ballI)
    fix c assume "c \<notin> S \<and> c < brk h"
    then show "nodes (h\<lparr>nodes := linked (nodes h) (brk h) d p a, brk := brk h + 1, lsts := (lsts h)(l \<mapsto> L')\<rparr>) c = nodes h c"
      using assms(3,4) by (cases p) (auto simp: linked_def Let_def)
  next
    fix c assume "brk (h\<lparr>nodes := linked (nodes h) (brk h) d p a, brk := brk h + 1, lsts := (lsts h)(l \<mapsto> L')\<rparr>) \<le> c"
    then show "nodes (h\<lparr>nodes := linked (nodes h) (brk h) d p a, brk := brk h + 1, lsts := (lsts h)(l \<mapsto> L')\<rparr>) c = None"
      "lsts (h\<lparr>nodes := linked (nodes h) (brk h) d p a, brk := brk h + 1, lsts := (lsts h)(l \<mapsto> L')\<rparr>) c = None"
      using assms(1,3,4) l S by (cases p; fastforce simp: linked_def Let_def heap_ok_def)+
  next
    fix c n n' assume c: "c \<in> S" "nodes h c = Some n"
      "nodes (h\<lparr>nodes := linked (nodes h) (brk h) d p a, brk := brk h + 1, lsts := (lsts h)(l \<mapsto> L')\<rparr>) c = Some n'"
    then have "c \<noteq> brk h" using S by blast
    then show "datum n' = datum n" "useCount n' = useCount n" "ln_deleted n' = ln_deleted n"
      using c by (cases p; auto simp: linked_def Let_def split: if_splits)+
  qed (use assms in simp_all)
qed

lemma insert_before:
  assumes ok: "heap_ok h" and r: "rep h l circ (xs @ a # ys)"
  shows "\<exists>h'. Lst_Insert (Some l) (Some a) d h = Some (True, h') \<and>
    rep h' l circ (xs @ brk h # a # ys) \<and> fresh_node h' (brk h) d \<and> frame h l (set (xs @ a # ys)) h'"
proof -
  from ok r obtain L where L: "lsts h l = Some L" "isCirc L = circ" "distinct (xs @ a # ys)" "firstPtr L = fst_or xs (Some a)"
      "lastPtr L = Some (last (xs @ a # ys))"
      "seg (nodes h) (if circ then lst_or ys (Some a) else None) (xs @ a # ys) (if circ then fst_or xs (Some a) else None)"
    and fresh: "brk h \<notin> set (xs @ a # ys)" "nodes h (brk h) = None" "l \<noteq> brk h" "\<forall>a\<ge>brk h. nodes h a = None"
      "\<forall>a\<ge>brk h. lsts h a = None"
    by (rule rep_at)
  let ?P = "if circ then lst_or ys (Some a) else None" and ?Q = "if circ then fst_or xs (Some a) else None"
  obtain n where n: "nodes h a = Some n" "prevPtr n = lst_or xs ?P" and s: "seg (nodes h) ?P xs (Some a)" "seg (nodes h) (Some a) ys ?Q"
      "nextPtr n = fst_or ys ?Q"
    using L(6) by auto
  have p: "c \<in> set (xs @ a # ys)" if "prevPtr n = Some c" for c
    using that n(2) lst_or_SomeD [of xs ?P c] lst_or_SomeD [of ys "Some a" c] by (auto split: if_splits)
  have dom: "set (xs @ a # ys) \<subseteq> dom (nodes h)" using seg_dom [OF L(6)] by blast
  let ?m = "linked (nodes h) (brk h) d (prevPtr n) a"
  let ?L = "if firstPtr L = Some a then L\<lparr>firstPtr := Some (brk h)\<rparr> else L"
  let ?h = "h\<lparr>nodes := ?m, brk := brk h + 1, lsts := (lsts h)(l \<mapsto> ?L)\<rparr>"
  have "Lst_Insert (Some l) (Some a) d h = Some (True, ?h)"
    using p dom fresh(2) L(4) by (intro insert_eq n L(1)) auto
  moreover have "frame h l (set (xs @ a # ys)) ?h"
    using p dom fresh(2) by (intro frame_linked [OF ok n(1) _ _ L(1)]) (auto simp: elem_set)
  moreover have "fresh_node ?h (brk h) d" using fresh p by (cases "prevPtr n") (auto simp: fresh_node_def linked_def Let_def)
  moreover have "rep ?h l circ (xs @ brk h # a # ys)"
  proof -
    have a: "a \<notin> set (xs @ ys)" "distinct (xs @ ys)" "brk h \<notin> set (xs @ ys)" "brk h \<noteq> a" using L(3) fresh(1) by auto
    have "seg ?m (if circ then lst_or ys (Some a) else None) (xs @ brk h # a # ys) (if circ then fst_or xs (Some (brk h)) else None)"
    proof (cases xs rule: rev_cases)
      case (snoc xs' x)
      note xs = this
      then show ?thesis using n s a by (cases xs') (auto simp: linked_def Let_def)
    next
      case Nil
      then show ?thesis using n s a by (cases ys rule: rev_cases; cases "butlast ys") (auto simp: linked_def Let_def)
    qed
    moreover have "firstPtr ?L = fst_or xs (Some (brk h))" using L(4) a by (cases xs) auto
    ultimately show ?thesis
      unfolding rep_def using L(1-3,5) a by (intro exI [of _ ?L]) (cases circ; simp)
  qed
  ultimately show ?thesis by simp
qed

text \<open>Taking out a node in terms of the nodes beside it.\<close>

definition unlinked :: "(addr \<Rightarrow> 'd lnode option) \<Rightarrow> ptr \<Rightarrow> ptr \<Rightarrow> (addr \<Rightarrow> 'd lnode option)" where
  "unlinked m p q =
     (let m = (case q of None \<Rightarrow> m | Some b \<Rightarrow> m(b := map_option (\<lambda>n. n\<lparr>prevPtr := p\<rparr>) (m b)))
      in (case p of None \<Rightarrow> m | Some b \<Rightarrow> m(b := map_option (\<lambda>n. n\<lparr>nextPtr := q\<rparr>) (m b))))"

lemma remove_eq:
  assumes n: "nodes h a = Some n" and L: "lsts h l = Some L"
    and p: "\<And>b. prevPtr n = Some b \<Longrightarrow> b \<noteq> a \<and> nodes h b \<noteq> None"
    and q: "\<And>b. nextPtr n = Some b \<Longrightarrow> b \<noteq> a \<and> nodes h b \<noteq> None"
  shows "Lst_Remove (Some l) (Some a) h =
     Some (True, h\<lparr>nodes := (unlinked (nodes h) (prevPtr n) (nextPtr n))
                     (a := if useCount n = 0 then None else Some (n\<lparr>ln_deleted := True\<rparr>)),
                   lsts := (lsts h)(l \<mapsto> unlink_header (Some a) n L)\<rparr>)"
  using assms
  by (cases "prevPtr n"; cases "nextPtr n"; fastforce simp: Lst_Remove_def heap_defs free_node_def unlinked_def)

lemma seg_set_next:
  "seg m p (as @ [x]) q \<Longrightarrow> x \<notin> set as \<Longrightarrow> seg (m(x := map_option (\<lambda>n. n\<lparr>nextPtr := q'\<rparr>) (m x))) p (as @ [x]) q'"
  by auto

lemma seg_set_prev:
  "seg m p (x # as) q \<Longrightarrow> x \<notin> set as \<Longrightarrow> seg (m(x := map_option (\<lambda>n. n\<lparr>prevPtr := p'\<rparr>) (m x))) p' (x # as) q"
  by auto

lemma rep_upd:
  assumes "lsts h l = Some L" "distinct ns" "firstPtr L' = fst_or ns None" "if ns = [] then isCirc L' \<or> lastPtr L' = None else lastPtr L' = Some (last ns)"
    "seg m (if isCirc L' then lst_or ns None else None) ns (if isCirc L' then fst_or ns None else None)"
  shows "rep (h\<lparr>nodes := m, lsts := (lsts h)(l \<mapsto> L')\<rparr>) l (isCirc L') ns"
  using assms by (simp add: rep_def)

lemma frame_unlinked:
  assumes "heap_ok h" "nodes h a = Some n" "set_option p \<union> set_option q \<subseteq> S" "a \<in> S" "lsts h l = Some L"
  shows "frame h l S (h\<lparr>nodes := (unlinked (nodes h) p q)(a := None), lsts := (lsts h)(l \<mapsto> L')\<rparr>)"
proof -
  have "l < brk h" using assms(1,5) by (rule heap_ok_lsts)
  then show ?thesis
    using assms by (cases p; cases q) (auto simp: frame_def heap_ok_def unlinked_def Let_def)
qed

lemma unlink_header_simps [simp]:
  "isCirc (unlink_header ln n L) = isCirc L"
  "lastPtr (unlink_header ln n L) = (if lastPtr L = ln then prevPtr n else lastPtr L)"
  "firstPtr (unlink_header ln n L) =
     (if firstPtr L = ln then (if nextPtr n = ln then None else nextPtr n) else firstPtr L)"
  by (simp_all add: unlink_header_def Let_def)

lemma remove_node:
  assumes ok: "heap_ok h" and r: "rep h l circ (xs @ a # ys)" and use: "nodes h a = Some n" "useCount n = 0"
  shows "\<exists>h'. Lst_Remove (Some l) (Some a) h = Some (True, h') \<and>
    rep h' l circ (xs @ ys) \<and> nodes h' a = None \<and> frame h l (set (xs @ a # ys)) h'"
proof -
  from ok r obtain L where L: "lsts h l = Some L" "isCirc L = circ" "distinct (xs @ a # ys)" "firstPtr L = fst_or xs (Some a)"
      "lastPtr L = Some (last (xs @ a # ys))"
      "seg (nodes h) (if circ then lst_or ys (Some a) else None) (xs @ a # ys) (if circ then fst_or xs (Some a) else None)"
    by (rule rep_at)
  let ?P = "if circ then lst_or ys (Some a) else None" and ?Q = "if circ then fst_or xs (Some a) else None"
  let ?m = "(unlinked (nodes h) (prevPtr n) (nextPtr n))(a := None)"
  let ?h = "h\<lparr>nodes := ?m, lsts := (lsts h)(l \<mapsto> unlink_header (Some a) n L)\<rparr>"
  have s: "seg (nodes h) ?P xs (Some a)" "prevPtr n = lst_or xs ?P" "nextPtr n = fst_or ys ?Q" "seg (nodes h) (Some a) ys ?Q"
    using L(6) use(1) by auto
  show ?thesis
  proof (cases "xs @ ys = [] \<and> circ")
    case True
    then show ?thesis using ok L use s heap_ok_lsts [OF ok L(1)]
      by (auto simp: Lst_Remove_def heap_defs free_node_def rep_def frame_def heap_ok_def)
  next
    case False
    have ne: "b \<noteq> a \<and> nodes h b \<noteq> None \<and> b \<in> set (xs @ ys)" if "prevPtr n = Some b \<or> nextPtr n = Some b" for b
    proof -
      have "b \<in> set (xs @ ys)"
        using that False s(2,3) fst_or_SomeD [of ys ?Q b] fst_or_SomeD [of xs "Some a" b]
          lst_or_SomeD [of xs ?P b] lst_or_SomeD [of ys "Some a" b]
        by (auto split: if_splits)
      moreover have "a \<notin> set (xs @ ys)" using L(3) by auto
      ultimately show ?thesis using s(1,4) seg_dom by fastforce
    qed
    have "Lst_Remove (Some l) (Some a) h = Some (True, ?h)"
      using ne use(2) remove_eq [OF use(1) L(1)] by (simp add: fun_upd_def)
    moreover have "frame h l (set (xs @ a # ys)) ?h"
      using ne by (intro frame_unlinked [OF ok use(1) _ _ L(1)]) (auto simp: elem_set)
    moreover have "rep ?h l circ (xs @ ys)"
    proof -
      have a: "a \<notin> set (xs @ ys)" "distinct (xs @ ys)" using L(3) by auto
      have "seg ?m (if circ then lst_or (xs @ ys) None else None) (xs @ ys) (if circ then fst_or (xs @ ys) None else None)"
      proof (cases xs rule: rev_cases)
        case (snoc xs' x)
        note xs = this
        show ?thesis
        proof (cases ys)
          case Nil
          then show ?thesis using s a xs by (cases xs') (auto simp: unlinked_def)
        next
          case (Cons y ys')
          then show ?thesis using s a xs by (auto simp: unlinked_def)
        qed
      next
        case Nil
        then show ?thesis using s a False
          by (cases ys rule: rev_cases; cases "butlast ys") (auto simp: unlinked_def)
      qed
      moreover have "firstPtr (unlink_header (Some a) n L) = fst_or (xs @ ys) None"
        using L(4) False s(3) a by (cases xs; cases ys; auto)
      moreover have "if xs @ ys = [] then isCirc (unlink_header (Some a) n L) \<or> lastPtr (unlink_header (Some a) n L) = None
          else lastPtr (unlink_header (Some a) n L) = Some (last (xs @ ys))"
        using L(5) s(2) a False by (cases xs rule: rev_cases; cases ys rule: rev_cases) auto
      ultimately show ?thesis
        using rep_upd [OF L(1) a(2), of "unlink_header (Some a) n L" ?m] L(2) by simp
    qed
    ultimately show ?thesis by simp
  qed
qed

end
