(* ===== verification/Lstops.thy ===== *)
theory Lstops
  imports Lstrep
begin

text \<open>
  The operations of \<^verbatim>\<open>usr.bin/bmake/lst.lib\<close> on a heap with any number of lists, against
  a map from the headers to sequences of data.
\<close>

subsection \<open>The heap as a map of sequences\<close>

definition idle_at :: "'d lheap \<Rightarrow> addr \<Rightarrow> bool" where
  "idle_at h a = (\<exists>n. nodes h a = Some n \<and> useCount n = 0 \<and> \<not> ln_deleted n)"

definition idle :: "'d lheap \<Rightarrow> addr list \<Rightarrow> bool" where
  "idle h ns = (\<forall>a \<in> set ns. idle_at h a)"

text \<open>\<open>N\<close> gives the nodes of every list; no node is in two.\<close>

definition layout :: "'d lheap \<Rightarrow> (addr \<Rightarrow> (bool \<times> addr list) option) \<Rightarrow> bool" where
  "layout h N =
     (heap_ok h \<and>
      (\<forall>l c ns. N l = Some (c, ns) \<longrightarrow> rep h l c ns \<and> idle h ns) \<and>
      (\<forall>l c ns l' c' ns'. N l = Some (c, ns) \<longrightarrow> N l' = Some (c', ns') \<longrightarrow> l \<noteq> l' \<longrightarrow> set ns \<inter> set ns' = {}))"

definition contents :: "'d lheap \<Rightarrow> (addr \<Rightarrow> (bool \<times> addr list) option) \<Rightarrow> addr \<Rightarrow> (bool \<times> 'd list) option" where
  "contents h N l = map_option (\<lambda>(c, ns). (c, vals h ns)) (N l)"

definition store :: "'d lheap \<Rightarrow> (addr \<Rightarrow> (bool \<times> 'd list) option) \<Rightarrow> bool" where
  "store h M = (\<exists>N. layout h N \<and> M = contents h N)"

lemma vals_simps [simp]: "vals h [] = []" "vals h (a # as) = datum (the (nodes h a)) # vals h as"
  "vals h (as @ bs) = vals h as @ vals h bs"
  by (simp_all add: vals_def)

lemma vals_eq_Nil [simp]: "vals h ns = [] \<longleftrightarrow> ns = []"
  by (simp add: vals_def)

lemma storeE:
  assumes "store h M" "M l = Some (c, ds)"
  obtains N ns where "layout h N" "M = contents h N" "N l = Some (c, ns)" "vals h ns = ds" "heap_ok h" "rep h l c ns" "idle h ns"
  using assms by (fastforce simp: store_def layout_def contents_def)

lemma frame_same:
  assumes "frame h l S h'" "set ns \<inter> S = {}" "\<And>a. a \<in> set ns \<Longrightarrow> a < brk h" "k \<noteq> l"
  shows "rep h k c ns \<Longrightarrow> rep h' k c ns" "vals h' ns = vals h ns" "idle h ns \<Longrightarrow> idle h' ns"
proof -
  have n: "nodes h' a = nodes h a" if "a \<in> set ns" for a using assms that by (auto simp: frame_def)
  have "lsts h' k = lsts h k" using assms(1,4) by (simp add: frame_def)
  then show "rep h k c ns \<Longrightarrow> rep h' k c ns" using seg_cong [of ns "nodes h'", OF n] by (simp add: rep_def)
  show "vals h' ns = vals h ns" "idle h ns \<Longrightarrow> idle h' ns" using n by (simp_all add: vals_def idle_def idle_at_def)
qed

text \<open>An operation on one list, which may be a new one, changes that list only.\<close>

definition node_set :: "(addr \<Rightarrow> (bool \<times> addr list) option) \<Rightarrow> addr \<Rightarrow> addr set" where
  "node_set N l = (case N l of None \<Rightarrow> {} | Some (c, ns) \<Rightarrow> set ns)"

lemma layoutD:
  assumes "layout h N" "N l = Some (c, ns)"
  shows "heap_ok h" "rep h l c ns" "idle h ns"
  using assms unfolding layout_def by blast+

lemma layout_old: "layout h N \<Longrightarrow> N k = Some (d, ms) \<Longrightarrow> a \<in> set ms \<Longrightarrow> a < brk h"
  unfolding layout_def using rep_fresh by blast

lemma layout_away: "layout h N \<Longrightarrow> N k = Some (d, ms) \<Longrightarrow> k \<noteq> l \<Longrightarrow> set ms \<inter> node_set N l = {}"
  unfolding layout_def node_set_def by (elim conjE) (cases "N l"; simp; fast?)

lemma store_step:
  assumes N: "layout h N" and f: "frame h l (node_set N l) h'"
    and r: "rep h' l c ns'" "idle h' ns'" "set ns' \<subseteq> node_set N l \<union> {a. brk h \<le> a}"
  shows "layout h' (N(l \<mapsto> (c, ns')))" "contents h' (N(l \<mapsto> (c, ns'))) = (contents h N)(l \<mapsto> (c, vals h' ns'))"
proof -
  have keep: "rep h' k d ms" "vals h' ms = vals h ms" "idle h' ms" if k: "N k = Some (d, ms)" "k \<noteq> l" for k d ms
    using frame_same [OF f layout_away [OF N k] layout_old [OF N k(1)] k(2)] N k(1) unfolding layout_def by blast+
  show "contents h' (N(l \<mapsto> (c, ns'))) = (contents h N)(l \<mapsto> (c, vals h' ns'))"
    using keep(2) by (auto simp: contents_def fun_eq_iff map_option_case split: option.split)
  have "set ms \<inter> set ns' = {}" if k: "N k = Some (d, ms)" "k \<noteq> l" for k d ms
    using layout_away [OF N k] layout_old [OF N k(1)] r(3) by (fastforce simp: subset_eq)
  then show "layout h' (N(l \<mapsto> (c, ns')))"
    using keep r(1,2) f N unfolding layout_def by (auto simp: frame_def)
qed

text \<open>The list \<open>l\<close> gets the contents \<open>ds\<close>, all others stay.\<close>

definition goes :: "'d lheap \<Rightarrow> (addr \<Rightarrow> (bool \<times> addr list) option) \<Rightarrow> addr \<Rightarrow> bool \<Rightarrow> 'd list \<Rightarrow> 'd lheap \<Rightarrow> bool" where
  "goes h N l c ds h' =
     (\<exists>ns. layout h' (N(l \<mapsto> (c, ns))) \<and> contents h' (N(l \<mapsto> (c, ns))) = (contents h N)(l \<mapsto> (c, ds)))"

lemma goes_store: "goes h N l c ds h' \<Longrightarrow> store h' ((contents h N)(l \<mapsto> (c, ds)))"
  unfolding goes_def store_def by metis

lemma goesI:
  assumes "layout h N" "frame h l (node_set N l) h'"
    "rep h' l c ns'" "idle h' ns'" "set ns' \<subseteq> node_set N l \<union> {a. brk h \<le> a}" "vals h' ns' = ds'"
  shows "goes h N l c ds' h'"
  using store_step [OF assms(1-5)] assms(6) unfolding goes_def by blast

lemma frame_vals:
  assumes "frame h l (set ns) h'" "set ms \<subseteq> set ns" "set ms \<subseteq> dom (nodes h)" "set ms \<subseteq> dom (nodes h')"
  shows "vals h' ms = vals h ms" "idle h ms \<Longrightarrow> idle h' ms"
proof -
  have n: "\<exists>n n'. nodes h a = Some n \<and> nodes h' a = Some n' \<and> datum n' = datum n \<and> useCount n' = useCount n \<and>
      ln_deleted n' = ln_deleted n" if a: "a \<in> set ms" for a
  proof -
    obtain n n' where "nodes h a = Some n" "nodes h' a = Some n'" using a assms(3,4) by blast
    moreover have "a \<in> set ns" using a assms(2) by blast
    ultimately show ?thesis using assms(1) unfolding frame_def by blast
  qed
  then show "vals h' ms = vals h ms" by (auto simp: vals_def dest: n)
  show "idle h' ms" if "idle h ms" using that n by (fastforce simp: idle_def idle_at_def)
qed

lemma rep_dom: "rep h l c ns \<Longrightarrow> set ns \<subseteq> dom (nodes h)"
  using seg_dom by (fastforce simp: rep_def)

lemma rep_frame:
  assumes "frame h l (set ns) h'" "rep h l c ns" "rep h' l c ns'" "set ms \<subseteq> set ns" "set ms \<subseteq> set ns'"
  shows "vals h' ms = vals h ms" "idle h ns \<Longrightarrow> idle h' ms"
proof -
  have d: "set ms \<subseteq> dom (nodes h)" "set ms \<subseteq> dom (nodes h')"
    using rep_dom [OF assms(2)] rep_dom [OF assms(3)] assms(4,5) by blast+
  show "vals h' ms = vals h ms" by (rule frame_vals [OF assms(1,4) d])
  show "idle h' ms" if "idle h ns"
    using that assms(4) frame_vals(2) [OF assms(1,4) d] by (auto simp: idle_def)
qed

lemma fresh_node_simps: "fresh_node h a d \<Longrightarrow> vals h [a] = [d]" "fresh_node h a d \<Longrightarrow> idle_at h a"
  by (auto simp: fresh_node_def idle_at_def)

lemma idle_append [simp]: "idle h (as @ bs) \<longleftrightarrow> idle h as \<and> idle h bs" "idle h (a # as) \<longleftrightarrow> idle_at h a \<and> idle h as"
  by (auto simp: idle_def)

lemma idle_Nil [simp]: "idle h []"
  by (simp add: idle_def)

subsection \<open>Building lists\<close>

theorem Lst_Init_store:
  assumes "store h M" "Lst_Init circ h = (p, h')"
  shows "\<exists>l. p = Some l \<and> M l = None \<and> store h' (M(l \<mapsto> (circ, [])))"
proof -
  obtain N where N: "layout h N" "M = contents h N" using assms(1) by (auto simp: store_def)
  then have ok: "heap_ok h" by (simp add: layout_def)
  obtain l where l: "p = Some l" "rep h' l circ []" "frame h l {} h'" "l = brk h"
    using Lst_Init_empty [OF ok assms(2)] assms(2) by (auto simp: Lst_Init_def)
  have fresh: "N l = None"
    using N(1) l(4) heap_ok_lsts [OF ok] unfolding layout_def rep_def by (metis less_irrefl not_None_eq surj_pair)
  then have "store h' (M(l \<mapsto> (circ, [])))"
    using l by (intro goes_store [OF goesI [OF N(1)], folded N(2)]) (simp_all add: node_set_def)
  then show ?thesis using l(1) fresh N(2) by (simp add: contents_def)
qed

text \<open>Putting a datum before or behind a node, by its place in the list.\<close>

lemma append_store:
  assumes N: "layout h N" "N l = Some (c, xs @ a # ys)"
  shows "\<exists>h'. Lst_Append (Some l) (Some a) d h = Some (True, h') \<and>
    goes h N l c (vals h (xs @ [a]) @ d # vals h ys) h'"
proof -
  have ok: "heap_ok h" "rep h l c (xs @ a # ys)" "idle h (xs @ a # ys)" by (rule layoutD [OF N])+
  obtain h' where h': "Lst_Append (Some l) (Some a) d h = Some (True, h')" "rep h' l c (xs @ a # brk h # ys)"
      "fresh_node h' (brk h) d" "frame h l (set (xs @ a # ys)) h'"
    using append_after [OF ok(1,2)] by blast
  have "vals h' (xs @ [a]) = vals h (xs @ [a])" "vals h' ys = vals h ys" "idle h' (xs @ [a])" "idle h' ys"
    using rep_frame [OF h'(4) ok(2) h'(2), of "xs @ [a]"] rep_frame [OF h'(4) ok(2) h'(2), of ys] ok(3) by auto
  then have "goes h N l c (vals h (xs @ [a]) @ d # vals h ys) h'"
    using fresh_node_simps [OF h'(3)] N(2) h'(4)
    by (intro goesI [OF N(1) _ h'(2)]) (auto simp: node_set_def)
  then show ?thesis using h'(1) by blast
qed

lemma insert_store:
  assumes N: "layout h N" "N l = Some (c, xs @ a # ys)"
  shows "\<exists>h'. Lst_Insert (Some l) (Some a) d h = Some (True, h') \<and>
    goes h N l c (vals h xs @ d # vals h (a # ys)) h'"
proof -
  have ok: "heap_ok h" "rep h l c (xs @ a # ys)" "idle h (xs @ a # ys)" by (rule layoutD [OF N])+
  obtain h' where h': "Lst_Insert (Some l) (Some a) d h = Some (True, h')" "rep h' l c (xs @ brk h # a # ys)"
      "fresh_node h' (brk h) d" "frame h l (set (xs @ a # ys)) h'"
    using insert_before [OF ok(1,2)] by blast
  have "vals h' xs = vals h xs" "vals h' (a # ys) = vals h (a # ys)" "idle h' xs" "idle h' (a # ys)"
    using rep_frame [OF h'(4) ok(2) h'(2), of xs] rep_frame [OF h'(4) ok(2) h'(2), of "a # ys"] ok(3) by auto
  then have "goes h N l c (vals h xs @ d # vals h (a # ys)) h'"
    using fresh_node_simps [OF h'(3)] N(2) h'(4)
    by (intro goesI [OF N(1) _ h'(2)]) (auto simp: node_set_def)
  then show ?thesis using h'(1) by blast
qed

lemma first_store:
  assumes N: "layout h N" "N l = Some (c, [])"
  shows "\<exists>h'. Lst_Append (Some l) None d h = Some (True, h') \<and> Lst_Insert (Some l) None d h = Some (True, h') \<and>
    goes h N l c [d] h'"
proof -
  have ok: "heap_ok h" "rep h l c []" by (rule layoutD [OF N])+
  obtain h' where h': "Lst_Append (Some l) None d h = Some (True, h')" "Lst_Insert (Some l) None d h = Some (True, h')"
      "rep h' l c [brk h]" "fresh_node h' (brk h) d" "frame h l {} h'"
    using append_empty [OF ok] by blast
  have "goes h N l c [d] h'"
    using fresh_node_simps [OF h'(4)] N(2) h'(5)
    by (intro goesI [OF N(1) _ h'(3)]) (auto simp: node_set_def)
  then show ?thesis using h'(1,2) by blast
qed

lemma remove_store:
  assumes N: "layout h N" "N l = Some (c, xs @ a # ys)"
  shows "\<exists>h'. Lst_Remove (Some l) (Some a) h = Some (True, h') \<and> goes h N l c (vals h xs @ vals h ys) h'"
proof -
  have ok: "heap_ok h" "rep h l c (xs @ a # ys)" "idle h (xs @ a # ys)" by (rule layoutD [OF N])+
  then obtain n where "nodes h a = Some n" "useCount n = 0" by (auto simp: idle_at_def)
  then obtain h' where h': "Lst_Remove (Some l) (Some a) h = Some (True, h')" "rep h' l c (xs @ ys)"
      "frame h l (set (xs @ a # ys)) h'"
    using remove_node [OF ok(1,2)] by blast
  have "vals h' (xs @ ys) = vals h (xs @ ys)" "idle h' (xs @ ys)"
    using rep_frame [OF h'(3) ok(2) h'(2), of "xs @ ys"] ok(3) by auto
  then have "goes h N l c (vals h xs @ vals h ys) h'"
    using N(2) h'(3) by (intro goesI [OF N(1) _ h'(2)]) (auto simp: node_set_def)
  then show ?thesis using h'(1) by blast
qed

text \<open>Where the pointers of a list are.\<close>

lemma Lst_First_rep: "rep h l c ns \<Longrightarrow> Lst_First (Some l) h = Some (fst_or ns None)"
  unfolding rep_def Lst_First_def getl_def by (elim exE conjE) (cases ns; simp)

lemma Lst_Last_rep: "rep h l c ns \<Longrightarrow> Lst_Last (Some l) h = Some (lst_or ns None)"
  unfolding rep_def Lst_Last_def getl_def lst_or_def by (elim exE conjE) (cases ns; simp)

lemma AtEnd_goes:
  assumes N: "layout h N" "N l = Some (c, ns)"
  shows "\<exists>h'. Lst_AtEnd (Some l) d h = Some (True, h') \<and> goes h N l c (vals h ns @ [d]) h'"
proof (cases ns rule: rev_cases)
  case Nil
  then show ?thesis
    using first_store [OF N(1), of l c d] N Lst_Last_rep [OF layoutD(2) [OF N]] by (auto simp: Lst_AtEnd_def)
next
  case (snoc xs a)
  then show ?thesis
    using append_store [OF N(1), of l c xs a "[]" d] N Lst_Last_rep [OF layoutD(2) [OF N]] by (auto simp: Lst_AtEnd_def)
qed

theorem Lst_AtEnd_store:
  assumes "store h M" "M l = Some (c, ds)"
  shows "\<exists>h'. Lst_AtEnd (Some l) d h = Some (True, h') \<and> store h' (M(l \<mapsto> (c, ds @ [d])))"
  using assms by (rule storeE) (use AtEnd_goes goes_store in metis)

theorem Lst_AtFront_store:
  assumes "store h M" "M l = Some (c, ds)"
  shows "\<exists>h'. Lst_AtFront (Some l) d h = Some (True, h') \<and> store h' (M(l \<mapsto> (c, d # ds)))"
proof -
  from assms obtain N ns where N: "layout h N" "M = contents h N" "N l = Some (c, ns)" "vals h ns = ds" "rep h l c ns"
    by (rule storeE)
  show ?thesis
  proof (cases ns)
    case Nil
    then show ?thesis
      using first_store [OF N(1), of l c d] goes_store N Lst_First_rep [OF N(5)] by (fastforce simp: Lst_AtFront_def)
  next
    case (Cons a ys)
    then show ?thesis
      using insert_store [OF N(1), of l c "[]" a ys d] goes_store N Lst_First_rep [OF N(5)] by (fastforce simp: Lst_AtFront_def)
  qed
qed

theorem Lst_DeQueue_store:
  assumes "store h M" "M l = Some (c, ds)"
  shows "\<exists>h'. Lst_DeQueue (Some l) h = Some (case ds of [] \<Rightarrow> None | d # _ \<Rightarrow> Some d, h') \<and> store h' (M(l \<mapsto> (c, tl ds)))"
proof -
  from assms obtain N ns where N: "layout h N" "M = contents h N" "N l = Some (c, ns)" "vals h ns = ds" "rep h l c ns"
      "idle h ns"
    by (rule storeE)
  show ?thesis
  proof (cases ns)
    case Nil
    then have "M(l \<mapsto> (c, tl ds)) = M" using assms(2) N(4) by auto
    then show ?thesis using Nil N(4) assms(1) Lst_First_rep [OF N(5)] by (auto simp: Lst_DeQueue_def)
  next
    case (Cons a ys)
    obtain n where n: "nodes h a = Some n" using N(6) Cons by (auto simp: idle_at_def)
    obtain h' where "Lst_Remove (Some l) (Some a) h = Some (True, h')" "goes h N l c (vals h ys) h'"
      using remove_store [OF N(1), of l c "[]" a ys] N(3) Cons by auto
    then show ?thesis
      using Cons N(2,4) n Lst_First_rep [OF N(5)] goes_store by (fastforce simp: Lst_DeQueue_def getn_def)
  qed
qed

subsection \<open>An example\<close>

definition heap0 :: "nat lheap" where
  "heap0 = \<lparr>nodes = Map.empty, lsts = Map.empty, brk = 0\<rparr>"

text \<open>A circular list and one that is not.\<close>

definition demo :: "nat lheap option" where
  "demo =
     do { let (l, h) = Lst_Init True heap0;
          let (k, h) = Lst_Init False h;
          (good, h) \<leftarrow> Lst_AtEnd l 5 h;
          (good, h) \<leftarrow> Lst_AtEnd l 6 h;
          (good, h) \<leftarrow> Lst_AtEnd k 7 h;
          Some h }"

lemma demo_store: "\<exists>h. demo = Some h \<and> store h [0 \<mapsto> (True, [5, 6]), 1 \<mapsto> (False, [7])]"
proof -
  have "store heap0 Map.empty"
    unfolding store_def by (rule exI [of _ Map.empty]) (simp add: layout_def contents_def heap_ok_def heap0_def fun_eq_iff)
  then obtain h1 where h1: "Lst_Init True heap0 = (Some 0, h1)" "store h1 [0 \<mapsto> (True, [])]" "brk h1 = 1"
    using Lst_Init_store [of heap0 Map.empty True] by (auto simp: Lst_Init_def heap0_def)
  then obtain h2 where h2: "Lst_Init False h1 = (Some 1, h2)" "store h2 [0 \<mapsto> (True, []), 1 \<mapsto> (False, [])]"
    using Lst_Init_store [of h1 _ False] by (fastforce simp: Lst_Init_def)
  obtain h3 where h3: "Lst_AtEnd (Some 0) 5 h2 = Some (True, h3)" "store h3 [0 \<mapsto> (True, [5]), 1 \<mapsto> (False, [])]"
    using Lst_AtEnd_store [OF h2(2), of 0 True "[]" 5] by (auto simp: fun_upd_twist)
  obtain h4 where h4: "Lst_AtEnd (Some 0) 6 h3 = Some (True, h4)" "store h4 [0 \<mapsto> (True, [5, 6]), 1 \<mapsto> (False, [])]"
    using Lst_AtEnd_store [OF h3(2), of 0 True "[5]" 6] by (auto simp: fun_upd_twist)
  obtain h5 where "Lst_AtEnd (Some 1) 7 h4 = Some (True, h5)" "store h5 [0 \<mapsto> (True, [5, 6]), 1 \<mapsto> (False, [7])]"
    using Lst_AtEnd_store [OF h4(2), of 1 False "[]" 7] by auto
  then show ?thesis using h1(1) h2(1) h3(1) h4(1) by (simp add: demo_def)
qed

subsection \<open>Queues\<close>

text \<open>The contract of a queue.\<close>

locale fifo =
  fixes inv :: "'s \<Rightarrow> 'a list \<Rightarrow> bool"
    and enq :: "'a \<Rightarrow> 's \<Rightarrow> (bool \<times> 's) option"
    and deq :: "'s \<Rightarrow> ('a option \<times> 's) option"
  assumes enq: "inv s xs \<Longrightarrow> \<exists>t. enq x s = Some (True, t) \<and> inv t (xs @ [x])"
    and deq: "inv s xs \<Longrightarrow> \<exists>t. deq s = Some (case xs of [] \<Rightarrow> None | x # _ \<Rightarrow> Some x, t) \<and> inv t (tl xs)"

fun enq_all :: "('a \<Rightarrow> 's \<Rightarrow> (bool \<times> 's) option) \<Rightarrow> 'a list \<Rightarrow> 's \<Rightarrow> 's option" where
  "enq_all enq [] s = Some s"
| "enq_all enq (x # xs) s = do { (good, s) \<leftarrow> enq x s; enq_all enq xs s }"

fun deq_all :: "('s \<Rightarrow> ('a option \<times> 's) option) \<Rightarrow> nat \<Rightarrow> 's \<Rightarrow> ('a option list \<times> 's) option" where
  "deq_all deq 0 s = Some ([], s)"
| "deq_all deq (Suc n) s = do { (x, s) \<leftarrow> deq s; (xs, s) \<leftarrow> deq_all deq n s; Some (x # xs, s) }"

context fifo
begin

lemma enq_all: "inv s ys \<Longrightarrow> \<exists>t. enq_all enq xs s = Some t \<and> inv t (ys @ xs)"
proof (induction xs arbitrary: s ys)
  case (Cons x xs)
  obtain t where "enq x s = Some (True, t)" "inv t (ys @ [x])" using enq [OF Cons.prems] by blast
  then show ?case using Cons.IH [of t "ys @ [x]"] by simp
qed simp

lemma deq_all: "inv s (xs @ ys) \<Longrightarrow> \<exists>t. deq_all deq (length xs) s = Some (map Some xs, t) \<and> inv t ys"
proof (induction xs arbitrary: s)
  case (Cons x xs)
  obtain t where t: "deq s = Some (Some x, t)" "inv t (xs @ ys)" using deq [OF Cons.prems] by auto
  then show ?case using Cons.IH [OF t(2)] by auto
qed simp

lemma first_in_first_out:
  "inv s ys \<Longrightarrow> \<exists>t. (enq_all enq xs s \<bind> deq_all deq (length (ys @ xs))) = Some (map Some (ys @ xs), t) \<and> inv t []"
  using enq_all [of s ys xs] deq_all [of _ "ys @ xs" "[]"] by (metis append_Nil2 bind.bind_lunit)

end

definition holds :: "addr \<Rightarrow> 'd lheap \<Rightarrow> 'd list \<Rightarrow> bool" where
  "holds l h ds = (\<exists>M c. store h M \<and> M l = Some (c, ds))"

lemma EnQueue_AtEnd: "Lst_EnQueue (Some l) = Lst_AtEnd (Some l)"
  by (simp add: Lst_EnQueue_def Lst_AtEnd_def fun_eq_iff)

interpretation lq: fifo "holds l" "Lst_EnQueue (Some l)" "Lst_DeQueue (Some l)" for l
proof
  fix h ds d assume "holds l h ds"
  then obtain M c where M: "store h M" "M l = Some (c, ds)" by (auto simp: holds_def)
  show "\<exists>t. Lst_EnQueue (Some l) d h = Some (True, t) \<and> holds l t (ds @ [d])"
    using Lst_AtEnd_store [OF M, of d] by (fastforce simp: EnQueue_AtEnd holds_def)
  show "\<exists>t. Lst_DeQueue (Some l) h = Some (case ds of [] \<Rightarrow> None | x # _ \<Rightarrow> Some x, t) \<and> holds l t (tl ds)"
    using Lst_DeQueue_store [OF M] by (fastforce simp: holds_def)
qed

text \<open>
  C12. What is put into a list with \<^verbatim>\<open>Lst_EnQueue\<close> comes out of \<^verbatim>\<open>Lst_DeQueue\<close> in the same
  order, behind what was there, whether the list is circular or not and whatever other
  lists there are.
\<close>

theorem list_queue_order:
  assumes "store h M" "M l = Some (c, ds)"
  shows "\<exists>h'. (enq_all (Lst_EnQueue (Some l)) xs h \<bind> deq_all (Lst_DeQueue (Some l)) (length (ds @ xs))) =
     Some (map Some (ds @ xs), h')"
  using lq.first_in_first_out [of l h ds xs] assms by (auto simp: holds_def)

theorem list_queue_order_witness:
  "\<exists>h h'. demo = Some h \<and>
     (enq_all (Lst_EnQueue (Some 0)) [8, 9] h \<bind> deq_all (Lst_DeQueue (Some 0)) 4) = Some ([Some 5, Some 6, Some 8, Some 9], h')"
  using demo_store list_queue_order [of _ "[0 \<mapsto> (True, [5, 6]), 1 \<mapsto> (False, [7])]" 0 True "[5, 6]" "[8, 9]"]
  by (fastforce simp: numeral_eq_Suc)

end
