(* ===== verification/Lstloops.thy ===== *)
theory Lstloops
  imports Lstops
begin

text \<open>
  The loops over the lists of \<^verbatim>\<open>usr.bin/bmake/lst.lib\<close>: searching, applying a function,
  copying, destroying, joining, stepping through. That a loop ends is part of each statement,
  since a loop that does not end has the result \<open>None\<close>.
\<close>

lemma rep_nth_link:
  assumes "rep h l c (xs @ a # ys)"
  obtains n L where "nodes h a = Some n" "nextPtr n = fst_or ys (if c then fst_or xs (Some a) else None)"
    "lsts h l = Some L" "isCirc L = c" "firstPtr L = fst_or xs (Some a)" "a \<notin> set xs" "a \<notin> set ys" "distinct ys"
    "set xs \<inter> set ys = {}"
  using assms by (auto simp: rep_def)

lemma IsEmpty_rep: "rep h l c ns \<Longrightarrow> Lst_IsEmpty (Some l) h = Some (ns = [])"
  unfolding rep_def Lst_IsEmpty_def getl_def by (elim exE conjE) simp

subsection \<open>Searching\<close>

lemma find_loop_rep:
  assumes "rep h l c (xs @ ys)" "ys \<noteq> []"
  shows "find_loop (fst_or (xs @ ys) None) p h (fst_or ys None) =
     Some (List.find (\<lambda>a. p (datum (the (nodes h a)))) ys)"
  using assms
proof (induction ys arbitrary: xs)
  case (Cons a ys)
  obtain n where n: "nodes h a = Some n" "nextPtr n = fst_or ys (if c then fst_or xs (Some a) else None)"
      "a \<notin> set xs" "a \<notin> set ys" "set xs \<inter> set ys = {}"
    using rep_nth_link [OF Cons.prems(1)] by metis
  show ?case
  proof (cases "p (datum n) \<or> ys = []")
    case True
    then show ?thesis using n by (subst find_loop.simps) (auto simp: getn_def)
  next
    case False
    have "find_loop (fst_or (xs @ a # ys) None) p h (fst_or ys None) =
        Some (List.find (\<lambda>a. p (datum (the (nodes h a)))) ys)"
      using Cons.IH [of "xs @ [a]"] Cons.prems(1) False by simp
    moreover have "fst_or ys None \<noteq> fst_or (xs @ a # ys) None" "fst_or ys None \<noteq> None"
      using n False by (cases ys; cases xs; auto)+
    ultimately show ?thesis
      using n False by (subst find_loop.simps) (cases ys; simp add: getn_def)
  qed
qed simp

lemma find_vals:
  "map_option (\<lambda>a. datum (the (nodes h a))) (List.find (\<lambda>a. p (datum (the (nodes h a)))) ns) = List.find p (vals h ns)"
  by (induction ns) auto

text \<open>
  A search always ends, on a circular list too, and finds the first datum that fits, or nothing if
  there is none.
\<close>

theorem Lst_Find_first:
  assumes "store h M" "M l = Some (c, ds)"
  shows "\<exists>ln. Lst_Find (Some l) d cProc h = Some ln \<and> Lst_Datum ln h = Some (List.find (\<lambda>x. cProc x d) ds)"
proof -
  from assms obtain N ns where N: "layout h N" "N l = Some (c, ns)" "vals h ns = ds" "rep h l c ns"
    by (rule storeE)
  have f: "Lst_Find (Some l) d cProc h = Some (List.find (\<lambda>a. cProc (datum (the (nodes h a))) d) ns)"
    using find_loop_rep [of h l c "[]" ns "\<lambda>x. cProc x d"] N(4)
    by (cases ns) (simp_all add: Lst_Find_def Lst_FindFrom_def Lst_First_rep [OF N(4)] IsEmpty_rep [OF N(4)])
  have "Lst_Datum (List.find (\<lambda>a. cProc (datum (the (nodes h a))) d) ns) h = Some (List.find (\<lambda>x. cProc x d) ds)"
  proof (cases "List.find (\<lambda>a. cProc (datum (the (nodes h a))) d) ns")
    case None
    then show ?thesis using find_vals [of h "\<lambda>x. cProc x d" ns] N(3) by (simp add: Lst_Datum_def)
  next
    case (Some a)
    then have "a \<in> set ns" by (auto simp: find_Some_iff)
    then obtain n where "nodes h a = Some n" using rep_dom [OF N(4)] by blast
    then show ?thesis using find_vals [of h "\<lambda>x. cProc x d" ns] N(3) Some by (simp add: Lst_Datum_def getn_def)
  qed
  then show ?thesis using f by blast
qed

theorem Lst_Find_first_witness:
  "\<exists>h ln. demo = Some h \<and> Lst_Find (Some 0) 6 (\<lambda>x y. x = y) h = Some ln \<and> Lst_Datum ln h = Some (Some 6)"
  using demo_store Lst_Find_first [of _ "[0 \<mapsto> (True, [5, 6]), 1 \<mapsto> (False, [7])]" 0 True "[5, 6]" 6 "\<lambda>x y. x = y"]
  by fastforce

theorem Lst_Member_first:
  assumes "store h M" "M l = Some (c, ds)"
  shows "\<exists>ln. Lst_Member (Some l) d h = Some ln \<and> (ln \<noteq> None \<longleftrightarrow> d \<in> set ds)"
proof -
  from assms obtain N ns where N: "layout h N" "N l = Some (c, ns)" "vals h ns = ds" "rep h l c ns"
    by (rule storeE)
  obtain L where L: "lsts h l = Some L" "firstPtr L = fst_or ns None" using N(4) by (auto simp: rep_def)
  have "Lst_Member (Some l) d h = Some (List.find (\<lambda>a. datum (the (nodes h a)) = d) ns)"
    using find_loop_rep [of h l c "[]" ns "\<lambda>x. x = d"] N(4) L
    by (cases ns) (simp_all add: Lst_Member_def getl_def)
  moreover have "List.find (\<lambda>a. datum (the (nodes h a)) = d) ns \<noteq> None \<longleftrightarrow> d \<in> set ds"
    unfolding N(3) [symmetric] vals_def by (auto simp: find_None_iff)
  ultimately show ?thesis by blast
qed

subsection \<open>Applying a function\<close>

text \<open>A function that leaves the lists alone.\<close>

definition pure_proc :: "('d \<Rightarrow> 's \<Rightarrow> bool \<times> 's) \<Rightarrow> ('d, 's) lproc" where
  "pure_proc g d hs = (case hs of (h, s) \<Rightarrow> case g d s of (r, t) \<Rightarrow> Some (r, h, t))"

fun visit :: "('d \<Rightarrow> 's \<Rightarrow> bool \<times> 's) \<Rightarrow> 'd list \<Rightarrow> 's \<Rightarrow> 's" where
  "visit g [] s = s"
| "visit g (d # ds) s = (case g d s of (r, t) \<Rightarrow> if r then t else visit g ds t)"

lemma foreach_step_pure:
  assumes "rep h l c (xs @ a # ys)" "idle h [a]" "g (datum (the (nodes h a))) s = (r, t)"
  shows "foreach_step (Some l) (pure_proc g) (Some a) h s =
     Some (fst_or ys (if c then fst_or xs (Some a) else None), \<not> r \<and> ys \<noteq> [], h, t)"
proof -
  obtain n L where n: "nodes h a = Some n" "nextPtr n = fst_or ys (if c then fst_or xs (Some a) else None)"
    "lsts h l = Some L" "isCirc L = c" "firstPtr L = fst_or xs (Some a)" "a \<notin> set xs" "a \<notin> set ys"  "set xs \<inter> set ys = {}"
    using rep_nth_link [OF assms(1)] by metis
  have d: "\<not> ln_deleted n" "useCount n = 0" using assms(2) n(1) by (auto simp: idle_at_def)
  have same: "h\<lparr>nodes := (nodes h)(a \<mapsto> n\<lparr>useCount := 0\<rparr>)\<rparr> = h" using n(1) d(2) by (simp add: fun_upd_idem)
  show ?thesis
  proof (cases ys)
    case Nil
    then show ?thesis using n d assms(3) same
      by (cases xs; cases c) (simp_all add: foreach_step_def heap_defs pure_proc_def)
  next
    case (Cons y ys')
    then have "fst_or xs (Some a) \<noteq> Some y" using n by (cases xs) auto
    then show ?thesis using n d assms(3) same Cons
      by (auto simp: foreach_step_def heap_defs pure_proc_def)
  qed
qed

lemma foreach_loop_pure:
  "rep h l c (xs @ ys) \<Longrightarrow> idle h ys \<Longrightarrow> ys \<noteq> [] \<Longrightarrow>
   foreach_loop (Some l) (pure_proc g) (fst_or ys None) h s = Some (h, visit g (vals h ys) s)"
proof (induction ys arbitrary: xs s)
  case (Cons a ys)
  obtain r t where g: "g (datum (the (nodes h a))) s = (r, t)" by fastforce
  note st = foreach_step_pure [of h l c xs a ys g s r t, OF Cons.prems(1) _ g]
  have step: "foreach_step (Some l) (pure_proc g) (Some a) h s =
     Some (fst_or ys (if c then fst_or xs (Some a) else None), \<not> r \<and> ys \<noteq> [], h, t)"
    using st Cons.prems(2) by simp
  show ?case
  proof (cases "r \<or> ys = []")
    case True
    then show ?thesis using step g by (subst foreach_loop.simps) auto
  next
    case False
    have "foreach_loop (Some l) (pure_proc g) (fst_or ys None) h t = Some (h, visit g (vals h ys) t)"
      using Cons.IH [of "xs @ [a]" t] Cons.prems False by simp
    then show ?thesis using step g False by (subst foreach_loop.simps) (cases ys; simp)
  qed
qed simp

text \<open>
  A function that leaves the lists alone is applied to every datum in order, once, until its
  result is not 0; the heap is as before.
\<close>

theorem Lst_ForEach_visits:
  assumes "store h M" "M l = Some (c, ds)"
  shows "Lst_ForEach (Some l) (pure_proc g) h s = Some (h, visit g ds s)"
proof -
  from assms obtain N ns where N: "layout h N" "N l = Some (c, ns)" "vals h ns = ds" "rep h l c ns" "idle h ns"
    by (rule storeE)
  then show ?thesis
    using foreach_loop_pure [of h l c "[]" ns g s]
    by (cases ns) (auto simp: Lst_ForEach_def Lst_ForEachFrom_def Lst_First_rep [OF N(4)] IsEmpty_rep [OF N(4)])
qed

text \<open>A function that takes the first node with its datum out of the list.\<close>

definition removing :: "addr \<Rightarrow> ('d, 'd list) lproc" where
  "removing l d hs =
     (case hs of (h, s) \<Rightarrow>
        do { ln \<leftarrow> Lst_Member (Some l) d h;
             (good, h) \<leftarrow> Lst_Remove (Some l) ln h;
             Some (False, h, s @ [d]) })"

lemma member_head:
  assumes "lsts h l = Some L" "firstPtr L = Some a" "nodes h a = Some n"
  shows "Lst_Member (Some l) (datum n) h = Some (Some a)"
  using assms by (subst Lst_Member_def, subst find_loop.simps) (simp add: getl_def getn_def)

lemma unlinked_upd:
  "(\<And>b. p = Some b \<or> q = Some b \<Longrightarrow> b \<noteq> a) \<Longrightarrow> unlinked (m(a := x)) p q = (unlinked m p q)(a := x)"
  by (cases p; cases q) (auto simp: unlinked_def Let_def fun_eq_iff)

text \<open>One round that takes out the node it is at: the node is freed when the round ends.\<close>

lemma foreach_step_removing:
  assumes n: "nodes h a = Some n" "useCount n = 0" "\<not> ln_deleted n" and L: "lsts h l = Some L" "firstPtr L = Some a"
    and p: "\<And>b. prevPtr n = Some b \<or> nextPtr n = Some b \<Longrightarrow> b \<noteq> a \<and> nodes h b \<noteq> None"
  shows "\<exists>h'. Lst_Remove (Some l) (Some a) h = Some (True, h') \<and>
    foreach_step (Some l) (removing l) (Some a) h s = Some (nextPtr n, False, h', s @ [datum n])"
proof -
  let ?n1 = "n\<lparr>useCount := 1\<rparr>"
  let ?h1 = "h\<lparr>nodes := (nodes h)(a \<mapsto> ?n1)\<rparr>"
  let ?u = "unlinked (nodes h) (prevPtr n) (nextPtr n)"
  let ?L = "(lsts h)(l \<mapsto> unlink_header (Some a) n L)"
  have r: "Lst_Remove (Some l) (Some a) h = Some (True, h\<lparr>nodes := ?u(a := None), lsts := ?L\<rparr>)"
    using remove_eq [OF n(1) L(1)] p n(2) by simp
  have m: "Lst_Member (Some l) (datum n) ?h1 = Some (Some a)"
    using member_head [of ?h1 l L a ?n1] L by simp
  have "unlink_header (Some a) ?n1 L = unlink_header (Some a) n L" by (simp add: unlink_header_def)
  moreover have "unlinked ((nodes h)(a \<mapsto> ?n1)) (prevPtr n) (nextPtr n) = ?u(a \<mapsto> ?n1)"
    using p by (intro unlinked_upd) blast
  ultimately have r1: "Lst_Remove (Some l) (Some a) ?h1 =
      Some (True, h\<lparr>nodes := ?u(a \<mapsto> ?n1\<lparr>ln_deleted := True\<rparr>), lsts := ?L\<rparr>)"
    using remove_eq [of ?h1 a ?n1 l L] L(1) p by simp
  have "nextPtr n = None \<or> nextPtr n = firstPtr (unlink_header (Some a) n L)"
    using L(2) p by auto
  then have "foreach_step (Some l) (removing l) (Some a) h s =
      Some (nextPtr n, False, h\<lparr>nodes := ?u(a := None), lsts := ?L\<rparr>, s @ [datum n])"
    using n m r1 L(1)
    by (auto simp: foreach_step_def heap_defs removing_def free_node_def)
  then show ?thesis using r by blast
qed

text \<open>
  A function that takes the first node out ends the loop, whatever is behind it: the next
  node is the first node of the list then, and the loop takes this for the end of a
  round. The others are not visited.
\<close>

theorem removing_head_stops:
  assumes "store h M" "M l = Some (c, d # e # ds)"
  shows "\<exists>h'. Lst_ForEach (Some l) (removing l) h [] = Some (h', [d]) \<and> store h' (M(l \<mapsto> (c, e # ds)))"
proof -
  from assms obtain N ns where N: "layout h N" "M = contents h N" "N l = Some (c, ns)" "vals h ns = d # e # ds"
      "rep h l c ns" "idle h ns"
    by (rule storeE)
  then obtain a b ys where ns: "ns = a # b # ys" by (cases ns; cases "tl ns") auto
  obtain n L where n: "nodes h a = Some n" "useCount n = 0" "\<not> ln_deleted n" "datum n = d"
      and L: "lsts h l = Some L" "firstPtr L = Some a"
      and p: "prevPtr n = (if c then lst_or ys (Some b) else None)" "nextPtr n = Some b"
      and s: "seg (nodes h) (Some a) (b # ys) (if c then Some a else None)" "a \<notin> set (b # ys)"
    using N(4-6) ns by (auto simp: rep_def idle_at_def)
  have beside: "x \<noteq> a \<and> nodes h x \<noteq> None" if "prevPtr n = Some x \<or> nextPtr n = Some x" for x
  proof -
    have "x \<in> set (b # ys)" using that p lst_or_SomeD [of ys "Some b" x] by (auto split: if_splits)
    then show ?thesis using s seg_dom [OF s(1)] by fastforce
  qed
  obtain h' where h': "Lst_Remove (Some l) (Some a) h = Some (True, h')"
      "foreach_step (Some l) (removing l) (Some a) h [] = Some (nextPtr n, False, h', [d])"
    using foreach_step_removing [OF n(1-3) L, of "[]"] beside n(4) by auto
  have "goes h N l c (e # ds) h'"
    using remove_store [OF N(1), of l c "[]" a "b # ys"] N(3,4) h'(1) ns by auto
  moreover have "Lst_ForEach (Some l) (removing l) h [] = Some (h', [d])"
    using h'(2) ns by (simp add: Lst_ForEach_def Lst_ForEachFrom_def Lst_First_rep [OF N(5)] IsEmpty_rep [OF N(5)])
      (subst foreach_loop.simps, simp)
  ultimately show ?thesis using goes_store N(2) by blast
qed

theorem removing_head_stops_witness:
  "\<exists>h h'. demo = Some h \<and> Lst_ForEach (Some 0) (removing 0) h [] = Some (h', [5]) \<and>
     store h' [0 \<mapsto> (True, [6]), 1 \<mapsto> (False, [7])]"
  using demo_store removing_head_stops [of _ "[0 \<mapsto> (True, [5, 6]), 1 \<mapsto> (False, [7])]" 0 True 5 6 "[]"]
  by (fastforce simp: fun_upd_twist)

subsection \<open>Stepping through a list\<close>

fun next_n :: "nat \<Rightarrow> ptr \<Rightarrow> 'd lheap \<Rightarrow> ('d option list \<times> 'd lheap) option" where
  "next_n 0 l h = Some ([], h)"
| "next_n (Suc k) l h =
     do { (ln, h) \<leftarrow> Lst_Next l h; d \<leftarrow> Lst_Datum ln h; (ds, h) \<leftarrow> next_n k l h; Some (d # ds, h) }"

text \<open>The list \<open>l\<close> is open and the nodes \<open>xs\<close> of it have been given.\<close>

definition at_node :: "'d lheap \<Rightarrow> addr \<Rightarrow> bool \<Rightarrow> addr list \<Rightarrow> addr list \<Rightarrow> bool" where
  "at_node h l c xs ys =
     (rep h l c (xs @ ys) \<and>
      (\<exists>L. lsts h l = Some L \<and> isOpen L \<and> curPtr L = lst_or xs None \<and>
           (xs = [] \<longrightarrow> atEnd L = (if ys = [] then Head else Unknown)) \<and> (xs \<noteq> [] \<longrightarrow> atEnd L = Middle)))"

lemma next_node:
  assumes "at_node h l c xs (y # ys)"
  shows "\<exists>h'. Lst_Next (Some l) h = Some (Some y, h') \<and> at_node h' l c (xs @ [y]) ys \<and> nodes h' = nodes h"
proof -
  obtain L where L: "lsts h l = Some L" "isOpen L" "curPtr L = lst_or xs None" "xs = [] \<longrightarrow> atEnd L = Unknown"
      "firstPtr L = fst_or xs (Some y)" and r: "rep h l c (xs @ y # ys)"
    using assms by (auto simp: at_node_def rep_def)
  show ?thesis
  proof (cases xs rule: rev_cases)
    case Nil
    then show ?thesis using L r by (auto simp: Lst_Next_def getl_def updl_def at_node_def rep_def)
  next
    case (snoc zs x)
    obtain n where n: "nodes h x = Some n" "nextPtr n = Some y" "y \<notin> set xs"
      using r snoc by (auto simp: rep_def)
    have "fst_or xs (Some y) \<noteq> Some y" using n(3) snoc by (cases zs) auto
    then show ?thesis
      using L r n snoc by (auto simp: Lst_Next_def getl_def getn_def updl_def at_node_def rep_def Let_def)
  qed
qed

lemma next_nodes:
  "at_node h l c xs ys \<Longrightarrow> \<exists>h'. next_n (length ys) (Some l) h = Some (map Some (vals h ys), h') \<and>
     at_node h' l c (xs @ ys) [] \<and> nodes h' = nodes h"
proof (induction ys arbitrary: xs h)
  case (Cons y ys)
  obtain h1 where h1: "Lst_Next (Some l) h = Some (Some y, h1)" "at_node h1 l c (xs @ [y]) ys" "nodes h1 = nodes h"
    using next_node [OF Cons.prems] by blast
  obtain n where n: "nodes h y = Some n" using Cons.prems by (auto simp: at_node_def rep_def)
  obtain h2 where h2: "next_n (length ys) (Some l) h1 = Some (map Some (vals h1 ys), h2)" "at_node h2 l c (xs @ y # ys) []"
      "nodes h2 = nodes h1"
    using Cons.IH [OF h1(2)] by auto
  moreover have "vals h1 ys = vals h ys" using h1(3) by (simp add: vals_def)
  ultimately show ?case using h1 n by (auto simp: Lst_Datum_def getn_def)
qed (simp add: at_node_def)

text \<open>
  An opened list gives its data in order; then it gives the nil node, or goes round if it is
  circular, and is at its end.
\<close>

theorem Lst_Next_all:
  assumes "store h M" "M l = Some (c, ds)" "ds \<noteq> []"
  shows "\<exists>h'. (do { (good, h) \<leftarrow> Lst_Open (Some l) h; (xs, h) \<leftarrow> next_n (length ds) (Some l) h;
                   (ln, h) \<leftarrow> Lst_Next (Some l) h; x \<leftarrow> Lst_Datum ln h; e \<leftarrow> Lst_IsAtEnd (Some l) h; Some (xs, x, e, h) }) =
     Some (map Some ds, if c then Some (hd ds) else None, True, h')"
proof -
  from assms(1,2) obtain N ns where N: "vals h ns = ds" "rep h l c ns"
    by (rule storeE)
  have ns: "ns \<noteq> []" using N(1) assms(3) by auto
  obtain h1 where h1: "Lst_Open (Some l) h = Some (True, h1)" "at_node h1 l c [] ns" "nodes h1 = nodes h"
    using N(2) ns by (auto simp: Lst_Open_def updl_def at_node_def rep_def)
  obtain h2 where h2: "next_n (length ns) (Some l) h1 = Some (map Some (vals h1 ns), h2)" "at_node h2 l c ns []"
      "nodes h2 = nodes h1"
    using next_nodes [OF h1(2)] by auto
  have v: "vals h1 ns = ds" "length ns = length ds" using h1(3) N(1) by (auto simp: vals_def)
  obtain L xs a where L: "lsts h2 l = Some L" "isOpen L" "curPtr L = Some a" "ns = xs @ [a]"
      "firstPtr L = fst_or ns None" "rep h2 l c ns"
    using h2(2) ns by (cases ns rule: rev_cases) (auto simp: at_node_def rep_def)
  obtain n where n: "nodes h2 a = Some n" "nextPtr n = (if c then fst_or ns None else None)"
    using L(4,6) by (auto simp: rep_def)
  obtain b bs where b: "ns = b # bs" using ns by (cases ns) auto
  obtain m where m: "nodes h2 b = Some m" "datum m = hd ds"
    using L(6) b N(1) h1(3) h2(3) by (auto simp: rep_def vals_def)
  have last: "\<exists>h'. Lst_Next (Some l) h2 = Some (if c then Some b else None, h') \<and> nodes h' = nodes h2 \<and>
      Lst_IsAtEnd (Some l) h' = Some True"
    using L(1-3,5) n b by (auto simp: Lst_Next_def getl_def getn_def updl_def Lst_IsAtEnd_def Let_def)
  obtain h3 where "Lst_Next (Some l) h2 = Some (if c then Some b else None, h3)" "nodes h3 = nodes h2"
      "Lst_IsAtEnd (Some l) h3 = Some True"
    using last by blast
  moreover from this have "Lst_Datum (if c then Some b else None) h3 = Some (if c then Some (hd ds) else None)"
    using m by (simp add: Lst_Datum_def getn_def)
  moreover have "next_n (length ds) (Some l) h1 = Some (map Some ds, h2)" using h2(1) v by simp
  ultimately show ?thesis using h1(1) by simp
qed

end
