(* ===== verification/Lstbulk.thy ===== *)
theory Lstbulk
  imports Lstloops
begin

text \<open>
  Copying and destroying the lists of \<^verbatim>\<open>usr.bin/bmake/lst.lib\<close>.
\<close>

subsection \<open>Copying\<close>

lemma goes_trans:
  assumes "layout h1 (N(l \<mapsto> (c, ns)))" "contents h1 (N(l \<mapsto> (c, ns))) = (contents h N)(l \<mapsto> (c, ds))"
    "goes h1 (N(l \<mapsto> (c, ns))) l c ds' h2"
  shows "goes h N l c ds' h2"
  using assms unfolding goes_def by auto

lemma contents_vals:
  assumes "contents h' N' l = contents h N l" "N l = Some (c, ns)" "N' l = Some (c, ns)"
  shows "vals h' ns = vals h ns"
  using assms by (simp add: contents_def)

lemma contents_at: "contents h N l = Some (c, ds) \<Longrightarrow> N l = Some (c, ns) \<Longrightarrow> vals h ns = ds"
  by (simp add: contents_def)

lemma dupl_loop_rep:
  assumes "layout h N" "N l = Some (c, xs @ ys)" "N k = Some (c, ms)" "l \<noteq> k" "isCirc L = c" "lastPtr L = lst_or (xs @ ys) None"
  shows "\<exists>h'. dupl_loop L f (Some k) (fst_or ys None) h = Some (Some k, h') \<and> goes h N k c (vals h ms @ map f (vals h ys)) h'"
  using assms
proof (induction ys arbitrary: xs h N ms)
  case Nil
  have "N(k \<mapsto> (c, ms)) = N" using Nil.prems(3) by auto
  moreover have "(contents h N)(k \<mapsto> (c, vals h ms)) = contents h N" using Nil.prems(3) by (auto simp: contents_def)
  ultimately have "goes h N k c (vals h ms) h" using Nil.prems(1) unfolding goes_def by metis
  then show ?case by (subst dupl_loop.simps) simp
next
  case (Cons a ys)
  obtain n where n: "nodes h a = Some n" "nextPtr n = fst_or ys (if c then fst_or xs (Some a) else None)"
      "a \<notin> set ys"
    using rep_nth_link [OF layoutD(2) [OF Cons.prems(1,2)]] by metis
  obtain h1 where h1: "Lst_AtEnd (Some k) (f (datum n)) h = Some (True, h1)" "goes h N k c (vals h ms @ [f (datum n)]) h1"
    using AtEnd_goes [OF Cons.prems(1,3)] by blast
  then obtain ns where ns: "layout h1 (N(k \<mapsto> (c, ns)))"
      "contents h1 (N(k \<mapsto> (c, ns))) = (contents h N)(k \<mapsto> (c, vals h ms @ [f (datum n)]))"
    unfolding goes_def by blast
  let ?N = "N(k \<mapsto> (c, ns))"
  have N1: "?N l = Some (c, xs @ a # ys)" "?N k = Some (c, ns)" using Cons.prems(2,4) by simp_all
  have "contents h1 ?N l = contents h N l" using ns(2) Cons.prems(4) by simp
  then have "vals h1 (xs @ a # ys) = vals h (xs @ a # ys)" using contents_vals Cons.prems(2) N1(1) by metis
  then have v: "vals h1 ys = vals h ys" unfolding vals_def map_eq_conv by simp
  have vk: "vals h1 ns = vals h ms @ [f (datum n)]"
    using contents_at [of h1 ?N k c "vals h ms @ [f (datum n)]" ns] ns(2) N1(2) by simp
  obtain n1 where n1: "nodes h1 a = Some n1" "nextPtr n1 = fst_or ys (if c then fst_or xs (Some a) else None)"
    using rep_nth_link [OF layoutD(2) [OF ns(1) N1(1)]] by metis
  obtain h2 where h2: "dupl_loop L f (Some k) (fst_or ys None) h1 = Some (Some k, h2)"
      "goes h1 ?N k c (vals h1 ns @ map f (vals h1 ys)) h2"
    using Cons.IH [of h1 ?N "xs @ [a]" ns, OF ns(1) _ N1(2) Cons.prems(4,5)] N1(1) Cons.prems(6)
    by (auto simp del: fun_upd_apply)
  have "goes h N k c (vals h ms @ map f (vals h (a # ys))) h2"
    using goes_trans [OF ns h2(2)] v vk n(1) by simp
  moreover have "(if isCirc L \<and> Some a = lastPtr L then None else nextPtr n1) = fst_or ys None"
    using n1(2) n(3) Cons.prems(5,6) lst_or_SomeD [of ys "Some a" a] by (cases ys) (auto simp: eq_commute)
  ultimately show ?case
    using n(1) n1(1) h1(1) h2(1) by (subst dupl_loop.simps) (auto simp: getn_def)
qed

text \<open>
  A copy of a list is a new list of the same kind with the copies of the data; all other lists,
  the one that is copied among them, stay as they are.
\<close>

theorem Lst_Duplicate_store:
  assumes "store h M" "M l = Some (c, ds)"
  shows "\<exists>k h'. Lst_Duplicate (Some l) f h = Some (Some k, h') \<and> M k = None \<and> store h' (M(k \<mapsto> (c, map f ds)))"
proof -
  from assms obtain N ns where N: "layout h N" "M = contents h N" "N l = Some (c, ns)" "vals h ns = ds" "rep h l c ns"
    by (rule storeE)
  obtain k h1 where h1: "Lst_Init c h = (Some k, h1)" "k = brk h" by (simp add: Lst_Init_def)
  obtain k h1 where h1: "Lst_Init c h = (Some k, h1)" "rep h1 k c []" "frame h k {} h1" "k = brk h"
    using Lst_Init_empty [OF layoutD(1) [OF N(1,3)] h1(1)] h1 by auto
  have fresh: "N k = None"
    using N(1) h1(4) heap_ok_lsts [OF layoutD(1) [OF N(1,3)]] unfolding layout_def rep_def
    by (metis less_irrefl not_None_eq surj_pair)
  have st: "layout h1 (N(k \<mapsto> (c, [])))" "contents h1 (N(k \<mapsto> (c, []))) = (contents h N)(k \<mapsto> (c, []))"
    using store_step [OF N(1), of k h1 c "[]"] h1(2,3) fresh by (simp_all add: node_set_def)
  have lk: "l \<noteq> k" using fresh N(3) by auto
  obtain L where L: "lsts h l = Some L" "isCirc L = c" "firstPtr L = fst_or ns None" "ns \<noteq> [] \<Longrightarrow> lastPtr L = lst_or ns None"
    using N(5) by (auto simp: rep_def lst_or_def)
  have v: "vals h1 ns = ds"
    using contents_vals [of h1 "N(k \<mapsto> (c, []))" l h N c ns] st(2) lk N(3,4) by simp
  have "\<exists>h'. dupl_loop L f (Some k) (fst_or ns None) h1 = Some (Some k, h') \<and> goes h1 (N(k \<mapsto> (c, []))) k c (map f ds) h'"
  proof (cases "ns = []")
    case True
    have "goes h1 (N(k \<mapsto> (c, []))) k c [] h1"
      using st(1) unfolding goes_def by (intro exI [of _ "[]"]) (simp add: contents_def fun_eq_iff)
    moreover have "ds = []" using True N(4) by simp
    ultimately show ?thesis using True by (subst dupl_loop.simps) simp
  next
    case False
    then show ?thesis
      using dupl_loop_rep [of h1 "N(k \<mapsto> (c, []))" l c "[]" ns k "[]" L f] st(1) lk N(3) L v by simp
  qed
  then obtain h' where h': "dupl_loop L f (Some k) (fst_or ns None) h1 = Some (Some k, h')"
      "goes h N k c (map f ds) h'"
    using goes_trans [OF st] by blast
  then show ?thesis
    using L(1-3) h1(1) fresh goes_store [OF h'(2)] N(2) by (auto simp: Lst_Duplicate_def getl_def contents_def)
qed

subsection \<open>Destroying\<close>

lemma store_drop:
  assumes N: "layout h N" and f: "frame h l (node_set N l) h'"
  shows "layout h' (N(l := None))" "contents h' (N(l := None)) = (contents h N)(l := None)"
proof -
  have keep: "rep h' k d ms" "vals h' ms = vals h ms" "idle h' ms" if k: "N k = Some (d, ms)" "k \<noteq> l" for k d ms
    using frame_same [OF f layout_away [OF N k] layout_old [OF N k(1)] k(2)] N k(1) unfolding layout_def by blast+
  show "contents h' (N(l := None)) = (contents h N)(l := None)"
    using keep(2) by (auto simp: contents_def fun_eq_iff map_option_case split: option.split)
  show "layout h' (N(l := None))"
    using keep f N unfolding layout_def by (auto simp: frame_def)
qed

definition without :: "addr list \<Rightarrow> 'd lheap \<Rightarrow> 'd lheap" where
  "without as h = h\<lparr>nodes := (\<lambda>a. if a \<in> set as then None else nodes h a)\<rparr>"

lemma destroy_loop_seg:
  "seg (nodes h) p as None \<Longrightarrow> distinct as \<Longrightarrow>
   destroy_loop f (fst_or as None) h s = Some (without as h, fold f (vals h as) s)"
proof (induction as arbitrary: p h s)
  case Nil
  then show ?case by (subst destroy_loop.simps) (simp add: without_def)
next
  case (Cons a as)
  then obtain n where n: "nodes h a = Some n" "nextPtr n = fst_or as None" by auto
  let ?h = "h\<lparr>nodes := (nodes h)(a := None)\<rparr>"
  have "destroy_loop f (fst_or as None) ?h (f (datum n) s) = Some (without as ?h, fold f (vals ?h as) (f (datum n) s))"
    using Cons.prems by (intro Cons.IH [of ?h "Some a"]) ((subst seg_cong [of as _ "nodes h"]; auto), simp)
  moreover have "vals ?h as = vals h as" using Cons.prems(2) by (auto simp: vals_def)
  moreover have "without as ?h = without (a # as) h"
    by (intro lheap.equality) (auto simp: without_def)
  ultimately show ?case using n by (subst destroy_loop.simps) (simp add: getn_def free_node_def)
qed

text \<open>The function that frees the data gets every datum once, in order; the other lists stay.\<close>

theorem Lst_Destroy_store:
  assumes "store h M" "M l = Some (c, ds)" "c \<longrightarrow> ds \<noteq> []"
  shows "\<exists>h'. Lst_Destroy (Some l) f h s = Some (h', fold f ds s) \<and> store h' (M(l := None))"
proof -
  from assms(1,2) obtain N ns where N: "layout h N" "M = contents h N" "N l = Some (c, ns)" "vals h ns = ds"
      "heap_ok h" "rep h l c ns"
    by (rule storeE)
  have drop: "store h' (M(l := None))" if "frame h l (set ns) h'" for h'
    using store_drop [OF N(1), of l h'] that N(2,3) unfolding store_def by (auto simp: node_set_def)
  obtain L where L: "lsts h l = Some L" "l < brk h" using N(5,6) heap_ok_lsts by (auto simp: rep_def)
  show ?thesis
  proof (cases ns rule: rev_cases)
    case Nil
    let ?h = "h\<lparr>lsts := (lsts h)(l := None)\<rparr>"
    have "frame h l (set ns) ?h" using N(5) by (auto simp: frame_def heap_ok_def)
    then show ?thesis
      using Nil N(4,6) L assms(3) drop [of ?h]
      by (auto simp: Lst_Destroy_def getl_def free_list_def rep_def)
  next
    case (snoc xs a)
    let ?h1 = "h\<lparr>nodes := (nodes h)(a := map_option (\<lambda>n. n\<lparr>nextPtr := None\<rparr>) (nodes h a))\<rparr>"
    let ?h = "(without ns ?h1)\<lparr>lsts := (lsts h)(l := None)\<rparr>"
    have s: "seg (nodes h) (if c then lst_or ns None else None) (xs @ [a]) (if c then fst_or ns None else None)" "a \<notin> set xs"
        "distinct ns" "lastPtr L = Some a" "firstPtr L = fst_or ns None"
      using N(6) L(1) snoc by (auto simp: rep_def)
    then obtain n where n: "nodes h a = Some n" by auto
    have "seg (nodes ?h1) (if c then lst_or ns None else None) ns None"
      using seg_set_next [OF s(1,2), of None] snoc by simp
    from destroy_loop_seg [OF this s(3)] have
      "destroy_loop f (fst_or ns None) ?h1 s = Some (without ns ?h1, fold f (vals ?h1 ns) s)" .
    moreover have "vals ?h1 ns = ds" unfolding N(4) [symmetric] using n by (auto simp: vals_def)
    ultimately have "Lst_Destroy (Some l) f h s = Some (?h, fold f ds s)"
      using L(1) s(4,5) n by (simp add: Lst_Destroy_def heap_defs free_list_def) (simp add: without_def)
    moreover have "frame h l (set ns) ?h"
      using N(5) snoc by (auto simp: frame_def heap_ok_def without_def)
    ultimately show ?thesis using drop by blast
  qed
qed

text \<open>
  When the last node of a circular list is taken out, the list keeps the freed node as its last
  one; destroying the list then writes to it.
\<close>

theorem dequeue_last_circular:
  assumes "store h M" "M l = Some (True, [d])"
  shows "\<exists>h'. Lst_DeQueue (Some l) h = Some (Some d, h') \<and> Lst_Destroy (Some l) f h' s = None"
proof -
  from assms obtain N ns where N: "vals h ns = [d]" "rep h l True ns" "idle h ns"
    by (rule storeE)
  then obtain a where ns: "ns = [a]" by (cases ns) auto
  then obtain n L where n: "nodes h a = Some n" "useCount n = 0" "datum n = d" "nextPtr n = Some a" "prevPtr n = Some a"
      "lsts h l = Some L" "firstPtr L = Some a" "lastPtr L = Some a"
    using N by (auto simp: rep_def idle_at_def)
  then show ?thesis
    by (simp add: Lst_DeQueue_def Lst_First_def Lst_Remove_def heap_defs free_node_def Lst_Destroy_def)
qed

theorem dequeue_last_circular_witness:
  "\<exists>h h'. store h [0 \<mapsto> (True, [6]), 1 \<mapsto> (False, [7 :: nat])] \<and> Lst_DeQueue (Some 0) h = Some (Some 6, h') \<and>
     Lst_Destroy (Some 0) (\<lambda>d s. s) h' () = None"
proof -
  obtain h where h: "store h [0 \<mapsto> (True, [5, 6]), 1 \<mapsto> (False, [7 :: nat])]" using demo_store by blast
  obtain h' where "store h' [0 \<mapsto> (True, [6]), 1 \<mapsto> (False, [7 :: nat])]"
    using Lst_DeQueue_store [OF h, of 0 True "[5, 6]"] by (auto simp: fun_upd_twist)
  then show ?thesis
    using dequeue_last_circular [of h' "[0 \<mapsto> (True, [6]), 1 \<mapsto> (False, [7])]" 0 6 "\<lambda>d s. s" "()"] by fastforce
qed

end
