(* ===== verification/Lstconcat.thy ===== *)
theory Lstconcat
  imports Lstbulk
begin

text \<open>
  Joining two lists of \<^verbatim>\<open>usr.bin/bmake/lst.lib\<close>: by their links, and with copies of the nodes.
\<close>

subsection \<open>Changing links only\<close>

definition relink :: "addr set \<Rightarrow> (addr \<Rightarrow> 'd lnode option) \<Rightarrow> (addr \<Rightarrow> 'd lnode option) \<Rightarrow> bool" where
  "relink S m m' =
     ((\<forall>a. map_option (\<lambda>n. (datum n, useCount n, ln_deleted n)) (m' a) =
           map_option (\<lambda>n. (datum n, useCount n, ln_deleted n)) (m a)) \<and>
      (\<forall>a. a \<notin> S \<longrightarrow> m' a = m a))"

lemma relink_trans: "relink S m m' \<Longrightarrow> relink T m' m'' \<Longrightarrow> relink (S \<union> T) m m''"
  by (simp add: relink_def)

lemma relink_mono: "relink S m m' \<Longrightarrow> S \<subseteq> T \<Longrightarrow> relink T m m'"
  by (auto simp: relink_def)

lemma relink_seg: "relink S m m' \<Longrightarrow> set as \<inter> S = {} \<Longrightarrow> seg m' p as q = seg m p as q"
  by (rule seg_cong) (auto simp: relink_def)

lemma relink_vals: "relink S (nodes h) (nodes h') \<Longrightarrow> vals h' as = vals h as"
proof -
  assume r: "relink S (nodes h) (nodes h')"
  have "datum (the (nodes h' a)) = datum (the (nodes h a))" for a
    using r unfolding relink_def by (elim conjE allE [of _ a]) (cases "nodes h a"; cases "nodes h' a"; auto)
  then show ?thesis by (simp add: vals_def)
qed

lemma relink_idle: "relink S (nodes h) (nodes h') \<Longrightarrow> idle h as \<Longrightarrow> idle h' as"
proof -
  assume r: "relink S (nodes h) (nodes h')" and i: "idle h as"
  have "idle_at h a \<Longrightarrow> idle_at h' a" for a
    using r unfolding relink_def idle_at_def
    by (elim conjE allE [of _ a] exE) (cases "nodes h' a"; auto)
  then show ?thesis using i by (simp add: idle_def)
qed

lemma relink_None: "relink S m m' \<Longrightarrow> m' a = None \<longleftrightarrow> m a = None"
proof -
  assume "relink S m m'"
  then show ?thesis unfolding relink_def by (elim conjE allE [of _ a]) (cases "m a"; cases "m' a"; simp)
qed

lemma updn_last:
  assumes "seg (nodes h) p as q" "as \<noteq> []" "distinct as"
  obtains m where "updn (lst_or as r) (\<lambda>n. n\<lparr>nextPtr := q'\<rparr>) h = Some (h\<lparr>nodes := m\<rparr>)" "seg m p as q'"
    "relink (set as) (nodes h) m"
proof -
  obtain xs a where as: "as = xs @ [a]" using assms(2) by (cases as rule: rev_cases) auto
  then obtain n where n: "nodes h a = Some n" "a \<notin> set xs" using assms by auto
  let ?m = "(nodes h)(a := map_option (\<lambda>n. n\<lparr>nextPtr := q'\<rparr>) (nodes h a))"
  have "seg ?m p as q'" using seg_set_next [of "nodes h" p xs a q q'] assms(1) n(2) as by blast
  moreover have "relink (set as) (nodes h) ?m" using as n(1) by (auto simp: relink_def)
  ultimately show thesis using that [of ?m] as n(1) by (auto simp: updn_def lst_or_def)
qed

lemma updn_first:
  assumes "seg (nodes h) p as q" "as \<noteq> []" "distinct as"
  obtains m where "updn (fst_or as r) (\<lambda>n. n\<lparr>prevPtr := p'\<rparr>) h = Some (h\<lparr>nodes := m\<rparr>)" "seg m p' as q"
    "relink (set as) (nodes h) m"
proof -
  obtain a xs where as: "as = a # xs" using assms(2) by (cases as) auto
  then obtain n where n: "nodes h a = Some n" "a \<notin> set xs" using assms by auto
  let ?m = "(nodes h)(a := map_option (\<lambda>n. n\<lparr>prevPtr := p'\<rparr>) (nodes h a))"
  have "seg ?m p' as q" using seg_set_prev [of "nodes h" p a xs q p'] assms(1) n(2) as by blast
  moreover have "relink (set as) (nodes h) ?m" using as n(1) by (auto simp: relink_def)
  ultimately show thesis using that [of ?m] as n(1) by (auto simp: updn_def)
qed

lemma close_ring_seg:
  assumes "seg (nodes h) p as q" "as \<noteq> []" "distinct as" "lsts h l = Some L" "firstPtr L = fst_or as None"
    "lastPtr L = lst_or as None"
  obtains m where "close_ring (Some l) h = Some (h\<lparr>nodes := m\<rparr>)" "seg m (lst_or as None) as (fst_or as None)"
    "relink (set as) (nodes h) m"
proof -
  obtain m where m: "updn (fst_or as None) (\<lambda>n. n\<lparr>prevPtr := lst_or as None\<rparr>) h = Some (h\<lparr>nodes := m\<rparr>)"
      "seg m (lst_or as None) as q" "relink (set as) (nodes h) m"
    using updn_first [OF assms(1-3)] .
  obtain m' where m': "updn (lst_or as None) (\<lambda>n. n\<lparr>nextPtr := fst_or as None\<rparr>) (h\<lparr>nodes := m\<rparr>) = Some (h\<lparr>nodes := m'\<rparr>)"
      "seg m' (lst_or as None) as (fst_or as None)" "relink (set as) m m'"
    using updn_last [of "h\<lparr>nodes := m\<rparr>" "lst_or as None" as q None "fst_or as None"] m(2) assms(2,3) by auto
  show thesis
    using that [of m'] m(1) m' relink_trans [OF m(3) m'(3)] assms(4-6) by (simp add: close_ring_def getl_def)
qed

lemma layout_two:
  assumes N: "layout h N" "N l1 = Some (c1, ns1)" "N l2 = Some (c2, ns2)" "l1 \<noteq> l2"
    and h': "heap_ok h'" "brk h \<le> brk h'" "\<And>k. k \<noteq> l1 \<Longrightarrow> k \<noteq> l2 \<Longrightarrow> lsts h' k = lsts h k"
      "\<And>a. a \<notin> set ns1 \<Longrightarrow> a \<notin> set ns2 \<Longrightarrow> a < brk h \<Longrightarrow> nodes h' a = nodes h a"
    and one: "rep h' l1 c1 ms1" "idle h' ms1" "set ms1 \<subseteq> set ns1 \<union> set ns2 \<union> {a. brk h \<le> a}"
    and two: "\<And>c ms. X = Some (c, ms) \<Longrightarrow> rep h' l2 c ms \<and> idle h' ms \<and> set ms \<subseteq> set ns2 \<and> set ms1 \<inter> set ms = {}"
  shows "layout h' (N(l1 \<mapsto> (c1, ms1), l2 := X))"
    "contents h' (N(l1 \<mapsto> (c1, ms1), l2 := X)) =
     (contents h N)(l1 \<mapsto> (c1, vals h' ms1), l2 := map_option (\<lambda>(c, ms). (c, vals h' ms)) X)"
proof -
  have away: "set ms \<inter> set ns1 = {}" "set ms \<inter> set ns2 = {}" "\<And>a. a \<in> set ms \<Longrightarrow> a < brk h"
    if k: "N k = Some (d, ms)" "k \<noteq> l1" "k \<noteq> l2" for k d ms
    using layout_away [OF N(1) k(1,2)] layout_away [OF N(1) k(1,3)] layout_old [OF N(1) k(1)] N(2,3)
    by (auto simp: node_set_def)
  have keep: "rep h' k d ms" "vals h' ms = vals h ms" "idle h' ms"
    if k: "N k = Some (d, ms)" "k \<noteq> l1" "k \<noteq> l2" for k d ms
  proof -
    have n: "nodes h' a = nodes h a" if "a \<in> set ms" for a
      using away [OF k] that by (intro h'(4)) auto
    show "rep h' k d ms"
      using layoutD(2) [OF N(1) k(1)] seg_cong [of ms "nodes h'", OF n] h'(3) [OF k(2,3)] by (simp add: rep_def)
    show "vals h' ms = vals h ms" "idle h' ms"
      using n layoutD(3) [OF N(1) k(1)] by (simp_all add: vals_def idle_def idle_at_def)
  qed
  have m1: "set ms \<inter> set ms1 = {}" if k: "N k = Some (d, ms)" "k \<noteq> l1" "k \<noteq> l2" for k d ms
    using away [OF k] one(3) by (fastforce simp: subset_eq)
  have m2: "set ms \<inter> set ms2 = {}" if k: "N k = Some (d, ms)" "k \<noteq> l1" "k \<noteq> l2" and X: "X = Some (c, ms2)" for k d ms c ms2
    using away [OF k] two [OF X] by blast
  show "contents h' (N(l1 \<mapsto> (c1, ms1), l2 := X)) =
     (contents h N)(l1 \<mapsto> (c1, vals h' ms1), l2 := map_option (\<lambda>(c, ms). (c, vals h' ms)) X)"
    using keep(2) by (auto simp: contents_def fun_eq_iff map_option_case split: option.split)
  have dis: "set ms \<inter> set ms' = {}" if "(N(l1 \<mapsto> (c1, ms1), l2 := X)) k = Some (d, ms)"
      "(N(l1 \<mapsto> (c1, ms1), l2 := X)) k' = Some (d', ms')" "k \<noteq> k'" for k d ms k' d' ms'
  proof -
    have old: "set ms \<inter> set ms' = {}" if "N k = Some (d, ms)" "N k' = Some (d', ms')"
      using layout_away [OF N(1) that(1) \<open>k \<noteq> k'\<close>] that(2) by (simp add: node_set_def)
    show ?thesis
      using that m1 m2 two N(4) old by (auto split: if_splits) (blast+)?
  qed
  have "rep h' k d ms \<and> idle h' ms" if "(N(l1 \<mapsto> (c1, ms1), l2 := X)) k = Some (d, ms)" for k d ms
    using that keep(1,3) one(1,2) two by (auto split: if_splits)
  then show "layout h' (N(l1 \<mapsto> (c1, ms1), l2 := X))"
    unfolding layout_def using h'(1) dis by blast
qed

subsection \<open>Joining\<close>

lemma seg_open: "seg m (if c then lst_or as None else None) as (if c then fst_or as None else None) \<Longrightarrow>
    firstPtr L = fst_or as None \<Longrightarrow> lsts h l = Some L \<Longrightarrow> isCirc L = c \<Longrightarrow> distinct as \<Longrightarrow>
    (if as = [] then c \<or> lastPtr L = None else lastPtr L = Some (last as)) \<Longrightarrow> nodes h = m \<Longrightarrow> rep h l c as"
  by (simp add: rep_def)

lemma fst_or_ex [simp]: "(\<exists>y. fst_or as None = Some y) \<longleftrightarrow> as \<noteq> []" "(\<exists>y. lst_or as None = Some y) \<longleftrightarrow> as \<noteq> []"
  by (cases as; simp)+

lemma concat_link_rep:
  assumes N: "layout h N" "N l1 = Some (c1, ns1)" "N l2 = Some (c2, ns2)" "l1 \<noteq> l2" and ne: "c1 \<longrightarrow> ns1 \<noteq> []"
  shows "\<exists>h'. concat_link (Some l1) (Some l2) h = Some h' \<and> rep h' l1 c1 (ns1 @ ns2) \<and>
    relink (set ns1 \<union> set ns2) (nodes h) (nodes h') \<and> brk h' = brk h \<and>
    (\<forall>k. k \<noteq> l1 \<longrightarrow> lsts h' k = (if k = l2 then None else lsts h k))"
proof -
  let ?P = "\<lambda>c ns. if c then lst_or ns None else None" and ?Q = "\<lambda>c ns. if c then fst_or ns None else None"
  obtain L1 where L1: "lsts h l1 = Some L1" "isCirc L1 = c1" "distinct ns1" "firstPtr L1 = fst_or ns1 None"
      "lastPtr L1 = lst_or ns1 None" "seg (nodes h) (?P c1 ns1) ns1 (?Q c1 ns1)"
    using layoutD(2) [OF N(1,2)] ne by (cases "ns1 = []") (auto simp: rep_def lst_or_def)
  obtain L2 where L2: "lsts h l2 = Some L2" "distinct ns2" "firstPtr L2 = fst_or ns2 None"
      "ns2 \<noteq> [] \<Longrightarrow> lastPtr L2 = lst_or ns2 None" "seg (nodes h) (?P c2 ns2) ns2 (?Q c2 ns2)"
    using layoutD(2) [OF N(1,3)] by (auto simp: rep_def lst_or_def)
  have d: "set ns1 \<inter> set ns2 = {}" "set ns2 \<inter> set ns1 = {}" "distinct (ns1 @ ns2)"
    using layout_away [OF N(1,2,4)] N(3) L1(3) L2(2) by (auto simp: node_set_def)
  define L where "L = L1\<lparr>firstPtr := fst_or (ns1 @ ns2) None, lastPtr := lst_or (ns1 @ ns2) None\<rparr>"
  have "\<exists>m P. concat_link (Some l1) (Some l2) h =
      do { h \<leftarrow> (if c1 \<and> ns1 @ ns2 \<noteq> [] then close_ring (Some l1) (h\<lparr>nodes := m, lsts := (lsts h)(l1 \<mapsto> L)\<rparr>)
                else Some (h\<lparr>nodes := m, lsts := (lsts h)(l1 \<mapsto> L)\<rparr>));
           free_list (Some l2) h } \<and>
      seg m P (ns1 @ ns2) (if ns2 = [] then ?Q c1 ns1 else None) \<and> (\<not> c1 \<longrightarrow> P = None) \<and>
      relink (set ns1 \<union> set ns2) (nodes h) m"
  proof (cases "ns2 = []")
    case True
    have "L = L1" using L1(4,5) True by (simp add: L_def)
    then have "h\<lparr>nodes := nodes h, lsts := (lsts h)(l1 \<mapsto> L)\<rparr> = h" using L1(1) by (simp add: fun_upd_idem)
    then show ?thesis
      using True L1 L2(1,3)
      by (intro exI [of _ "nodes h"] exI [of _ "?P c1 ns1"]) (simp add: concat_link_def getl_def relink_def)
  next
    case False
    obtain m1 where m1: "updn (lst_or ns2 None) (\<lambda>n. n\<lparr>nextPtr := None\<rparr>) h = Some (h\<lparr>nodes := m1\<rparr>)"
        "seg m1 (?P c2 ns2) ns2 None" "relink (set ns2) (nodes h) m1"
      using updn_last [OF L2(5) False L2(2)] .
    obtain m2 where m2: "updn (fst_or ns2 None) (\<lambda>n. n\<lparr>prevPtr := lst_or ns1 None\<rparr>) (h\<lparr>nodes := m1\<rparr>) = Some (h\<lparr>nodes := m2\<rparr>)"
        "seg m2 (lst_or ns1 None) ns2 None" "relink (set ns2) m1 m2"
      using updn_first [of "h\<lparr>nodes := m1\<rparr>" "?P c2 ns2" ns2 None None "lst_or ns1 None"] m1(2) False L2(2) by auto
    have r2: "relink (set ns2) (nodes h) m2" using relink_trans [OF m1(3) m2(3)] by simp
    have s1: "seg m2 (?P c1 ns1) ns1 (?Q c1 ns1)" using relink_seg [OF r2 d(1)] L1(6) by simp
    show ?thesis
    proof (cases "ns1 = []")
      case True
      then have "\<not> c1" using ne by simp
      then show ?thesis
        using True False L1(1,2,5) L2(1,3,4) m1(1) m2(1,2) r2 N(4)
        by (intro exI [of _ m2] exI [of _ None]) (simp add: concat_link_def getl_def updl_def L_def)
    next
      case ne1: False
      obtain m3 where m3: "updn (lst_or ns1 None) (\<lambda>n. n\<lparr>nextPtr := fst_or ns2 None\<rparr>) (h\<lparr>nodes := m2\<rparr>) = Some (h\<lparr>nodes := m3\<rparr>)"
          "seg m3 (?P c1 ns1) ns1 (fst_or ns2 None)" "relink (set ns1) m2 m3"
        using updn_last [of "h\<lparr>nodes := m2\<rparr>" "?P c1 ns1" ns1 "?Q c1 ns1" None "fst_or ns2 None"] s1 ne1 L1(3) by auto
      have "seg m3 (lst_or ns1 None) ns2 None" using relink_seg [OF m3(3) d(2)] m2(2) by simp
      then have "seg m3 (?P c1 ns1) (ns1 @ ns2) None" using m3(2) ne1 by (auto simp: lst_or_def)
      moreover have "relink (set ns1 \<union> set ns2) (nodes h) m3" using relink_trans [OF r2 m3(3)] by (simp add: Un_commute)
      moreover have "L1\<lparr>lastPtr := lst_or ns2 None\<rparr> = L"
        using False ne1 L1(4) by (cases ns1) (auto simp: L_def lst_or_def)
      ultimately show ?thesis
        using ne1 False L1(1,2,4,5) L2(1,3,4) m1(1) m2(1) m3(1) N(4)
        by (intro exI [of _ m3] exI [of _ "?P c1 ns1"]) (auto simp add: concat_link_def getl_def updl_def)
    qed
  qed
  then obtain m P where m: "concat_link (Some l1) (Some l2) h =
      do { h \<leftarrow> (if c1 \<and> ns1 @ ns2 \<noteq> [] then close_ring (Some l1) (h\<lparr>nodes := m, lsts := (lsts h)(l1 \<mapsto> L)\<rparr>)
                else Some (h\<lparr>nodes := m, lsts := (lsts h)(l1 \<mapsto> L)\<rparr>));
           free_list (Some l2) h }"
      "seg m P (ns1 @ ns2) (if ns2 = [] then ?Q c1 ns1 else None)" "\<not> c1 \<longrightarrow> P = None"
      "relink (set ns1 \<union> set ns2) (nodes h) m"
    by blast
  show ?thesis
  proof (cases "c1 \<and> ns1 @ ns2 \<noteq> []")
    case True
    let ?h = "h\<lparr>nodes := m, lsts := (lsts h)(l1 \<mapsto> L)\<rparr>"
    obtain m' where m': "close_ring (Some l1) ?h = Some (?h\<lparr>nodes := m'\<rparr>)"
        "seg m' (lst_or (ns1 @ ns2) None) (ns1 @ ns2) (fst_or (ns1 @ ns2) None)" "relink (set (ns1 @ ns2)) m m'"
      using close_ring_seg [of ?h P "ns1 @ ns2" _ l1 L] m(2) True d(3)
      by (auto simp: L_def simp del: lst_or_simps fst_or_simps seg_append)
    have "relink (set ns1 \<union> set ns2) (nodes h) m'" using relink_trans [OF m(4) m'(3)] by simp
    then show ?thesis
      using True m(1) m'(1,2) d(3) N(4) L2(1) L1(2)
      by (auto simp: free_list_def rep_def L_def lst_or_def simp del: lst_or_simps fst_or_simps seg_append)
  next
    case False
    then have "seg m (?P c1 (ns1 @ ns2)) (ns1 @ ns2) (?Q c1 (ns1 @ ns2))"
      using m(2,3) by (auto split: if_splits)
    then show ?thesis
      using False m(1,4) d(3) N(4) L2(1) L1(2)
      by (auto simp: free_list_def rep_def L_def lst_or_def simp del: lst_or_simps fst_or_simps seg_append)
  qed
qed

lemma store_two:
  assumes "layout h N" "N l1 = Some (c1, ns1)" "N l2 = Some (c2, ns2)" "l1 \<noteq> l2"
    "contents h' (N(l1 \<mapsto> (c1, ms1), l2 := X)) =
     (contents h N)(l1 \<mapsto> (c1, ds), l2 := Y)"
    "layout h' (N(l1 \<mapsto> (c1, ms1), l2 := X))"
  shows "store h' ((contents h N)(l1 \<mapsto> (c1, ds), l2 := Y))"
  using assms(5,6) unfolding store_def by metis

text \<open>With \<^verbatim>\<open>LST_CONCLINK\<close> the second list is gone and its data are behind those of the first.\<close>

theorem Lst_Concat_link_store:
  assumes "store h M" "M l1 = Some (c1, ds1)" "M l2 = Some (c2, ds2)" "l1 \<noteq> l2" "c1 \<longrightarrow> ds1 \<noteq> []"
  shows "\<exists>h'. Lst_Concat (Some l1) (Some l2) True h = Some (True, h') \<and>
    store h' (M(l1 \<mapsto> (c1, ds1 @ ds2), l2 := None))"
proof -
  from assms(1,2) obtain N ns1 where N: "layout h N" "M = contents h N" "N l1 = Some (c1, ns1)" "vals h ns1 = ds1" "heap_ok h"
      "rep h l1 c1 ns1" "idle h ns1"
    by (rule storeE)
  obtain ns2 where ns2: "N l2 = Some (c2, ns2)" "vals h ns2 = ds2"
    using assms(3) N(2) by (auto simp: contents_def)
  have i2: "idle h ns2" by (rule layoutD(3) [OF N(1) ns2(1)])
  obtain h' where h': "concat_link (Some l1) (Some l2) h = Some h'" "rep h' l1 c1 (ns1 @ ns2)"
      "relink (set ns1 \<union> set ns2) (nodes h) (nodes h')" "brk h' = brk h"
      "\<forall>k. k \<noteq> l1 \<longrightarrow> lsts h' k = (if k = l2 then None else lsts h k)"
    using concat_link_rep [OF N(1,3) ns2(1) assms(4)] assms(5) N(4) by auto
  have ok: "heap_ok h'"
    unfolding heap_ok_def
  proof (intro allI impI conjI)
    fix a assume a: "brk h' \<le> a"
    then show "nodes h' a = None" using relink_None [OF h'(3), of a] N(5) h'(4) by (simp add: heap_ok_def)
    have "l1 < brk h" using N(5,6) heap_ok_lsts by (auto simp: rep_def)
    then show "lsts h' a = None" using a h'(4,5) N(5) by (auto simp: heap_ok_def)
  qed
  have "idle h' (ns1 @ ns2)" using relink_idle [OF h'(3), of "ns1 @ ns2"] N(7) i2 by simp
  moreover have "nodes h' a = nodes h a" if "a \<notin> set ns1" "a \<notin> set ns2" for a
    using h'(3) that by (auto simp: relink_def)
  ultimately have l: "layout h' (N(l1 \<mapsto> (c1, ns1 @ ns2), l2 := None))"
      "contents h' (N(l1 \<mapsto> (c1, ns1 @ ns2), l2 := None)) =
       (contents h N)(l1 \<mapsto> (c1, vals h' (ns1 @ ns2)), l2 := None)"
    using layout_two [OF N(1,3) ns2(1) assms(4) ok, of "ns1 @ ns2" None] h' by auto
  have "vals h' (ns1 @ ns2) = ds1 @ ds2" using relink_vals [OF h'(3), of "ns1 @ ns2"] N(4) ns2(2) by simp
  then have "store h' (M(l1 \<mapsto> (c1, ds1 @ ds2), l2 := None))"
    using store_two [OF N(1,3) ns2(1) assms(4) _ l(1), of "ds1 @ ds2" None] l(2) N(2) by simp
  then show ?thesis using h'(1) by (simp add: Lst_Concat_def)
qed

subsection \<open>Appending copies\<close>

definition keeps :: "addr set \<Rightarrow> 'd lheap \<Rightarrow> 'd lheap \<Rightarrow> bool" where
  "keeps S h h' =
     (brk h \<le> brk h' \<and>
      (\<forall>a < brk h. map_option (\<lambda>n. (datum n, useCount n, ln_deleted n)) (nodes h' a) =
           map_option (\<lambda>n. (datum n, useCount n, ln_deleted n)) (nodes h a) \<and>
         (a \<notin> S \<longrightarrow> nodes h' a = nodes h a)))"

lemma keeps_refl: "keeps S h h"
  by (simp add: keeps_def)

lemma keeps_trans: "keeps S h h1 \<Longrightarrow> keeps (S \<union> {a. brk h \<le> a}) h1 h2 \<Longrightarrow> keeps S h h2"
  unfolding keeps_def by (metis (no_types, lifting) UnE mem_Collect_eq le_trans not_le order_less_le_trans)

lemma keeps_mono: "keeps S h h' \<Longrightarrow> S \<subseteq> T \<Longrightarrow> keeps T h h'"
  unfolding keeps_def by (meson subsetD)

lemma keeps_relink: "relink S (nodes h) (nodes h') \<Longrightarrow> brk h' = brk h \<Longrightarrow> keeps S h h'"
  by (simp add: keeps_def relink_def)

lemma keeps_seg: "keeps S h h' \<Longrightarrow> set as \<inter> S = {} \<Longrightarrow> (\<And>a. a \<in> set as \<Longrightarrow> a < brk h) \<Longrightarrow>
    seg (nodes h') p as q = seg (nodes h) p as q"
  by (rule seg_cong) (auto simp: keeps_def)

lemma keeps_at: "keeps S h h' \<Longrightarrow> a < brk h \<Longrightarrow> datum (the (nodes h' a)) = datum (the (nodes h a)) \<and>
    (idle_at h a \<longrightarrow> idle_at h' a)"
proof -
  assume "keeps S h h'" "a < brk h"
  then have "map_option (\<lambda>n. (datum n, useCount n, ln_deleted n)) (nodes h' a) =
      map_option (\<lambda>n. (datum n, useCount n, ln_deleted n)) (nodes h a)"
    by (simp add: keeps_def)
  then show ?thesis by (cases "nodes h a"; cases "nodes h' a"; auto simp: idle_at_def)
qed

lemma keeps_vals: "keeps S h h' \<Longrightarrow> (\<And>a. a \<in> set as \<Longrightarrow> a < brk h) \<Longrightarrow>
    vals h' as = vals h as \<and> (idle h as \<longrightarrow> idle h' as)"
  using keeps_at by (fastforce simp: vals_def idle_def)

definition concat_one :: "addr \<Rightarrow> ptr \<Rightarrow> 'd \<Rightarrow> 'd lheap \<Rightarrow> (addr \<times> 'd lheap) option" where
  "concat_one l end d h =
     do { let (a, h) = new_node d h;
          h \<leftarrow> (if end \<noteq> None then updn end (\<lambda>n. n\<lparr>nextPtr := Some a\<rparr>) h
               else updl (Some l) (\<lambda>L. L\<lparr>firstPtr := Some a\<rparr>) h);
          h \<leftarrow> updn (Some a) (\<lambda>n. n\<lparr>prevPtr := end\<rparr>) h;
          Some (a, h) }"

lemma concat_loop_one:
  "concat_loop (Some l) end (Some x) h =
     do { n \<leftarrow> getn h (Some x);
          (a, h) \<leftarrow> concat_one l end (datum n) h;
          n \<leftarrow> getn h (Some x);
          concat_loop (Some l) (Some a) (nextPtr n) h }"
  by (subst concat_loop.simps) (simp add: concat_one_def case_prod_beta)

lemma concat_step:
  assumes ok: "heap_ok h" and s: "seg (nodes h) P as Q" "as = [] \<longrightarrow> P = None" "distinct as" "\<And>x. x \<in> set as \<Longrightarrow> x < brk h"
    and L: "lsts h l = Some L" "firstPtr L = fst_or as None"
  shows "\<exists>h'. concat_one l (lst_or as None) d h = Some (brk h, h') \<and>
     seg (nodes h') P (as @ [brk h]) None \<and> keeps (set as) h h' \<and> heap_ok h' \<and> fresh_node h' (brk h) d \<and>
     brk h' = brk h + 1 \<and> lsts h' = (lsts h)(l \<mapsto> L\<lparr>firstPtr := fst_or (as @ [brk h]) None\<rparr>)"
proof -
  define b where "b = brk h"
  define n where "n = \<lparr>prevPtr = None, nextPtr = None, useCount = 0 :: 8 word, ln_deleted = False, datum = d\<rparr>"
  let ?h1 = "h\<lparr>nodes := (nodes h)(b \<mapsto> n), brk := b + 1\<rparr>"
  have b: "b \<notin> set as" "nodes h b = None" "l < b" using s(4) ok L(1) heap_ok_lsts by (auto simp: b_def heap_ok_def)
  show ?thesis
  proof (cases "as = []")
    case True
    then show ?thesis
      using ok s(2) L b(3)
      by (auto simp: concat_one_def new_node_def updl_def updn_def keeps_def fresh_node_def heap_ok_def b_def fun_upd_def)
  next
    case False
    have "seg (nodes ?h1) P as Q" using s(1) b(1) seg_cong [of as "nodes ?h1" "nodes h" P Q] by force
    then obtain m where m: "updn (lst_or as None) (\<lambda>n. n\<lparr>nextPtr := Some b\<rparr>) ?h1 = Some (?h1\<lparr>nodes := m\<rparr>)"
        "seg m P as (Some b)" "relink (set as) (nodes ?h1) m"
      using updn_last [of ?h1 P as Q None "Some b"] False s(3) by blast
    have mb: "m b = Some n" using m(3) b(1) by (auto simp: relink_def)
    let ?h = "?h1\<lparr>nodes := m(b \<mapsto> n\<lparr>prevPtr := lst_or as None\<rparr>)\<rparr>"
    have old: "map_option (\<lambda>n. (datum n, useCount n, ln_deleted n)) (m a) =
           map_option (\<lambda>n. (datum n, useCount n, ln_deleted n)) (nodes h a)" "a \<notin> set as \<Longrightarrow> m a = nodes h a" if "a \<noteq> b" for a
      using m(3) that by (simp_all add: relink_def)
    have "seg (nodes ?h) P (as @ [b]) None"
      using m(2) b(1) False seg_cong [of as "nodes ?h" m P "Some b"] by (auto simp: n_def lst_or_def)
    moreover have "keeps (set as) h ?h" using old by (auto simp: keeps_def b_def)
    moreover have "heap_ok ?h"
      unfolding heap_ok_def
    proof (intro allI impI conjI)
      fix a assume a: "brk ?h \<le> a"
      then have "a \<noteq> b" "a \<notin> set as" "brk h \<le> a" using s(4) by (fastforce simp: b_def)+
      then show "nodes ?h a = None" "lsts ?h a = None" using old(2) [of a] ok by (auto simp: heap_ok_def)
    qed
    moreover have "fresh_node ?h b d" by (simp add: fresh_node_def n_def)
    moreover have "lsts ?h = (lsts h)(l \<mapsto> L\<lparr>firstPtr := fst_or (as @ [b]) None\<rparr>)"
      using L False by (cases as) (simp_all add: fun_upd_idem)
    moreover have "brk ?h = b + 1" by simp
    moreover have "concat_one l (lst_or as None) d h = Some (b, ?h)"
    proof -
      have new: "new_node d h = (b, ?h1)" by (simp add: new_node_def b_def n_def)
      have upd: "updn (Some b) (\<lambda>n. n\<lparr>prevPtr := lst_or as None\<rparr>) (?h1\<lparr>nodes := m\<rparr>) = Some ?h"
        using mb by (simp add: updn_def)
      have "lst_or as None \<noteq> None" using False by simp
      then show ?thesis
        by (simp only: concat_one_def new upd m(1) Let_def prod.case not_False_eq_True if_True bind.bind_lunit)
    qed
    ultimately show ?thesis
      unfolding b_def [symmetric] by blast
  qed
qed

lemma concat_loop_rep:
  assumes "heap_ok h" "seg (nodes h) P as Q" "as = [] \<longrightarrow> P = None" "distinct as" "\<And>x. x \<in> set as \<Longrightarrow> x < brk h"
    "lsts h l = Some L" "firstPtr L = fst_or as None" "seg (nodes h) R ys None" "distinct ys" "set as \<inter> set ys = {}"
  shows "\<exists>h' zs. concat_loop (Some l) (lst_or as None) (fst_or ys None) h = Some (lst_or (as @ zs) None, h') \<and>
     seg (nodes h') P (as @ zs) (if ys = [] then Q else None) \<and> keeps (set as) h h' \<and> heap_ok h' \<and> distinct (as @ zs) \<and>
     set zs \<subseteq> {brk h..<brk h'} \<and> vals h' zs = vals h ys \<and> idle h' zs \<and> (zs = [] \<longleftrightarrow> ys = []) \<and>
     lsts h' = (lsts h)(l \<mapsto> L\<lparr>firstPtr := fst_or (as @ zs) None\<rparr>)"
  using assms
proof (induction ys arbitrary: as Q R h L)
  case Nil
  have "L\<lparr>firstPtr := fst_or as None\<rparr> = L" using Nil.prems(7) by simp
  then have "lsts h = (lsts h)(l \<mapsto> L\<lparr>firstPtr := fst_or as None\<rparr>)" using Nil.prems(6) by (simp add: fun_upd_idem)
  then show ?case
    using Nil.prems by (subst concat_loop.simps) (intro exI [of _ h] exI [of _ "[]"], simp add: keeps_refl)
next
  case (Cons y ys)
  obtain n where n: "nodes h y = Some n" "nextPtr n = fst_or ys None" "seg (nodes h) (Some y) ys None" using Cons.prems(8) by auto
  have old: "x < brk h" if "x \<in> set (y # ys)" for x
    using seg_dom [OF Cons.prems(8) that] heap_ok_nodes [OF Cons.prems(1)] by blast
  define b where "b = brk h"
  obtain h1 where h1: "concat_one l (lst_or as None) (datum n) h = Some (b, h1)" "seg (nodes h1) P (as @ [b]) None"
      "keeps (set as) h h1" "heap_ok h1" "fresh_node h1 b (datum n)" "brk h1 = b + 1"
      "lsts h1 = (lsts h)(l \<mapsto> L\<lparr>firstPtr := fst_or (as @ [b]) None\<rparr>)"
    using concat_step [OF Cons.prems(1-7), of "datum n"] unfolding b_def by blast
  have b: "b \<notin> set as" "b \<notin> set (y # ys)" using old Cons.prems(5) by (auto simp: b_def)
  have n1: "nodes h1 y = Some n" using h1(3) n(1) old [of y] Cons.prems(10) by (auto simp: keeps_def)
  have s1: "seg (nodes h1) (Some y) ys None"
    using keeps_seg [OF h1(3), of ys] n(3) old Cons.prems(10) by auto
  have IH: "\<exists>h' zs. concat_loop (Some l) (lst_or (as @ [b]) None) (fst_or ys None) h1 = Some (lst_or ((as @ [b]) @ zs) None, h') \<and>
     seg (nodes h') P ((as @ [b]) @ zs) (if ys = [] then None else None) \<and> keeps (set (as @ [b])) h1 h' \<and> heap_ok h' \<and>
     distinct ((as @ [b]) @ zs) \<and> set zs \<subseteq> {brk h1..<brk h'} \<and> vals h' zs = vals h1 ys \<and> idle h' zs \<and> (zs = [] \<longleftrightarrow> ys = []) \<and>
     lsts h' = (lsts h1)(l \<mapsto> L\<lparr>firstPtr := fst_or (as @ [b]) None\<rparr>\<lparr>firstPtr := fst_or ((as @ [b]) @ zs) None\<rparr>)"
  proof (rule Cons.IH [OF h1(4,2) _ _ _ _ _ s1])
    show "x < brk h1" if "x \<in> set (as @ [b])" for x using that Cons.prems(5) [of x] h1(6) by (auto simp: b_def)
    show "lsts h1 l = Some (L\<lparr>firstPtr := fst_or (as @ [b]) None\<rparr>)" using h1(7) by simp
  qed (use b Cons.prems(4,9,10) in auto)
  then obtain h2 zs where h2: "concat_loop (Some l) (Some b) (fst_or ys None) h1 = Some (lst_or (as @ b # zs) None, h2)"
     "seg (nodes h2) P (as @ b # zs) None" "keeps (set (as @ [b])) h1 h2" "heap_ok h2"
     "distinct (as @ b # zs)" "set zs \<subseteq> {brk h1..<brk h2}" "vals h2 zs = vals h1 ys" "idle h2 zs"
     "lsts h2 = (lsts h)(l \<mapsto> L\<lparr>firstPtr := fst_or (as @ b # zs) None\<rparr>)"
    using h1(7) by (auto simp: lst_or_def simp del: seg_append)
  have "keeps (set as) h h2"
    by (rule keeps_trans [OF h1(3) keeps_mono [OF h2(3)]]) (simp add: b_def)
  moreover have vb: "vals h2 [b] = [datum n] \<and> idle h2 [b]"
    using keeps_vals [OF h2(3), of "[b]"] fresh_node_simps [OF h1(5)] h1(6) by auto
  moreover have "vals h1 ys = vals h ys" using keeps_vals [OF h1(3), of ys] old by auto
  then have "vals h2 (b # zs) = vals h (y # ys)" "idle h2 (b # zs)" using vb h2(7,8) n(1) by simp_all
  moreover have "brk h1 \<le> brk h2" using h2(3) by (simp add: keeps_def)
  then have "set (b # zs) \<subseteq> {brk h..<brk h2}" using h2(6) h1(6) by (auto simp: b_def)
  moreover have "concat_loop (Some l) (lst_or as None) (fst_or (y # ys) None) h = Some (lst_or (as @ b # zs) None, h2)"
    using h1(1) h2(1) n(1,2) n1 by (simp add: concat_loop_one getn_def)
  moreover have "seg (nodes h2) P (as @ b # zs) (if y # ys = [] then Q else None)" "b # zs = [] \<longleftrightarrow> y # ys = []"
    using h2(2) by simp_all
  ultimately show ?case using h2(4,5,9) by blast
qed

lemma close_ends:
  assumes "seg (nodes h) P as Q" "as \<noteq> []" "distinct as"
  obtains m where
    "(if c then do { h \<leftarrow> updn (lst_or as None) (\<lambda>n. n\<lparr>nextPtr := fst_or as None\<rparr>) h;
                     updn (fst_or as None) (\<lambda>n. n\<lparr>prevPtr := lst_or as None\<rparr>) h }
      else updn (lst_or as None) (\<lambda>n. n\<lparr>nextPtr := None\<rparr>) h) = Some (h\<lparr>nodes := m\<rparr>)"
    "seg m (if c then lst_or as None else P) as (if c then fst_or as None else None)" "relink (set as) (nodes h) m"
proof (cases c)
  case True
  obtain m where m: "updn (lst_or as None) (\<lambda>n. n\<lparr>nextPtr := fst_or as None\<rparr>) h = Some (h\<lparr>nodes := m\<rparr>)"
      "seg m P as (fst_or as None)" "relink (set as) (nodes h) m"
    using updn_last [OF assms] .
  obtain m' where m': "updn (fst_or as None) (\<lambda>n. n\<lparr>prevPtr := lst_or as None\<rparr>) (h\<lparr>nodes := m\<rparr>) = Some (h\<lparr>nodes := m'\<rparr>)"
      "seg m' (lst_or as None) as (fst_or as None)" "relink (set as) m m'"
    using updn_first [of "h\<lparr>nodes := m\<rparr>" P as "fst_or as None" None "lst_or as None"] m(2) assms(2,3) by auto
  show thesis using that [of m'] True m(1) m' relink_trans [OF m(3) m'(3)] by simp
next
  case False
  obtain m where "updn (lst_or as None) (\<lambda>n. n\<lparr>nextPtr := None\<rparr>) h = Some (h\<lparr>nodes := m\<rparr>)"
      "seg m P as None" "relink (set as) (nodes h) m"
    using updn_last [OF assms] .
  then show thesis using that [of m] False by simp
qed

lemma keeps_heap_ok: "heap_ok h \<Longrightarrow> relink S (nodes h) m \<Longrightarrow> heap_ok (h\<lparr>nodes := m\<rparr>)"
  unfolding heap_ok_def using relink_None by fastforce

lemma concat_new_rep:
  assumes N: "layout h N" "N l1 = Some (c1, ns1)" "N l2 = Some (c2, ns2)" "l1 \<noteq> l2" and ne: "c1 \<longrightarrow> ns1 \<noteq> []" "ns2 \<noteq> []"
  shows "\<exists>h' zs. concat_new (Some l1) (Some l2) h = Some h' \<and> rep h' l1 c1 (ns1 @ zs) \<and> rep h' l2 c2 ns2 \<and>
    keeps (set ns1 \<union> set ns2) h h' \<and> set zs \<subseteq> {brk h..<brk h'} \<and> vals h' zs = vals h ns2 \<and> idle h' zs \<and> heap_ok h' \<and>
    (\<forall>k. k \<noteq> l1 \<longrightarrow> lsts h' k = lsts h k)"
proof -
  let ?P = "\<lambda>c ns. if c then lst_or ns None else None" and ?Q = "\<lambda>c ns. if c then fst_or ns None else None"
  have ok: "heap_ok h" by (rule layoutD(1) [OF N(1,2)])
  obtain L1 where L1: "lsts h l1 = Some L1" "isCirc L1 = c1" "distinct ns1" "firstPtr L1 = fst_or ns1 None"
      "lastPtr L1 = lst_or ns1 None" "seg (nodes h) (?P c1 ns1) ns1 (?Q c1 ns1)"
    using layoutD(2) [OF N(1,2)] ne by (cases "ns1 = []") (auto simp: rep_def lst_or_def)
  obtain L2 where L2: "lsts h l2 = Some L2" "isCirc L2 = c2" "distinct ns2" "firstPtr L2 = fst_or ns2 None"
      "lastPtr L2 = lst_or ns2 None" "seg (nodes h) (?P c2 ns2) ns2 (?Q c2 ns2)"
    using layoutD(2) [OF N(1,3)] ne(2) by (auto simp: rep_def lst_or_def)
  have d: "set ns1 \<inter> set ns2 = {}" using layout_away [OF N(1,2,4)] N(3) by (simp add: node_set_def)
  have old: "x < brk h" if "x \<in> set ns1 \<union> set ns2" for x
    using that layout_old [OF N(1,2)] layout_old [OF N(1,3)] by blast
  obtain m1 where m1: "updn (lst_or ns2 None) (\<lambda>n. n\<lparr>nextPtr := None\<rparr>) h = Some (h\<lparr>nodes := m1\<rparr>)"
      "seg m1 (?P c2 ns2) ns2 None" "relink (set ns2) (nodes h) m1"
    using updn_last [OF L2(6) ne(2) L2(3)] .
  let ?h1 = "h\<lparr>nodes := m1\<rparr>"
  have k1: "keeps (set ns2) h ?h1" using m1(3) by (intro keeps_relink) simp_all
  have s1: "seg (nodes ?h1) (?P c1 ns1) ns1 (?Q c1 ns1)" using relink_seg [OF m1(3) d] L1(6) by simp
  have "\<exists>h' zs. concat_loop (Some l1) (lst_or ns1 None) (fst_or ns2 None) ?h1 = Some (lst_or (ns1 @ zs) None, h') \<and>
     seg (nodes h') (?P c1 ns1) (ns1 @ zs) (if ns2 = [] then ?Q c1 ns1 else None) \<and> keeps (set ns1) ?h1 h' \<and> heap_ok h' \<and>
     distinct (ns1 @ zs) \<and> set zs \<subseteq> {brk ?h1..<brk h'} \<and> vals h' zs = vals ?h1 ns2 \<and> idle h' zs \<and> (zs = [] \<longleftrightarrow> ns2 = []) \<and>
     lsts h' = (lsts ?h1)(l1 \<mapsto> L1\<lparr>firstPtr := fst_or (ns1 @ zs) None\<rparr>)"
    using old L1(1,3,4) L2(3) d m1(2)
    by (intro concat_loop_rep [OF keeps_heap_ok [OF ok m1(3)] s1]) simp_all
  then obtain h2 zs where h2: "concat_loop (Some l1) (lst_or ns1 None) (fst_or ns2 None) ?h1 = Some (lst_or (ns1 @ zs) None, h2)"
     "seg (nodes h2) (?P c1 ns1) (ns1 @ zs) None" "keeps (set ns1) ?h1 h2" "heap_ok h2"
     "distinct (ns1 @ zs)" "set zs \<subseteq> {brk h..<brk h2}" "vals h2 zs = vals ?h1 ns2" "idle h2 zs" "zs \<noteq> []"
     "lsts h2 = (lsts h)(l1 \<mapsto> L1\<lparr>firstPtr := fst_or (ns1 @ zs) None\<rparr>)"
    using ne(2) by (auto simp del: seg_append)
  define as where "as = ns1 @ zs"
  define L where "L = L1\<lparr>firstPtr := fst_or as None, lastPtr := lst_or as None\<rparr>"
  let ?h3 = "h2\<lparr>lsts := (lsts h)(l1 \<mapsto> L)\<rparr>"
  have as: "as \<noteq> []" "distinct as" "set as \<inter> set ns2 = {}"
    using h2(5,6,9) d old by (fastforce simp: as_def)+
  have s2: "seg (nodes ?h3) (?P c1 ns1) as None" using h2(2) by (simp add: as_def)
  obtain m4 where m4: "(if c1 then do { h \<leftarrow> updn (lst_or as None) (\<lambda>n. n\<lparr>nextPtr := fst_or as None\<rparr>) ?h3;
                     updn (fst_or as None) (\<lambda>n. n\<lparr>prevPtr := lst_or as None\<rparr>) h }
      else updn (lst_or as None) (\<lambda>n. n\<lparr>nextPtr := None\<rparr>) ?h3) = Some (?h3\<lparr>nodes := m4\<rparr>)"
    "seg m4 (if c1 then lst_or as None else ?P c1 ns1) as (if c1 then fst_or as None else None)" "relink (set as) (nodes h2) m4"
    using close_ends [OF s2 as(1,2), of c1] by auto
  have "seg (nodes h2) (?P c2 ns2) ns2 None" using keeps_seg [OF h2(3), of ns2] d m1(2) old
    by (simp add: Int_commute)
  then have s4: "seg m4 (?P c2 ns2) ns2 None" using relink_seg [OF m4(3)] as(3) by blast
  have "\<exists>m5. (if c2 then updn (lst_or ns2 None) (\<lambda>n. n\<lparr>nextPtr := fst_or ns2 None\<rparr>) (?h3\<lparr>nodes := m4\<rparr>)
              else Some (?h3\<lparr>nodes := m4\<rparr>)) = Some (?h3\<lparr>nodes := m5\<rparr>) \<and>
            seg m5 (?P c2 ns2) ns2 (?Q c2 ns2) \<and> relink (set ns2) m4 m5"
  proof (cases c2)
    case True
    then show ?thesis
      using updn_last [of "?h3\<lparr>nodes := m4\<rparr>" "?P c2 ns2" ns2 None None "fst_or ns2 None"] s4 ne(2) L2(3) by auto
  next
    case False
    then show ?thesis using s4 by (auto simp: relink_def)
  qed
  then obtain m5 where m5: "(if c2 then updn (lst_or ns2 None) (\<lambda>n. n\<lparr>nextPtr := fst_or ns2 None\<rparr>) (?h3\<lparr>nodes := m4\<rparr>)
              else Some (?h3\<lparr>nodes := m4\<rparr>)) = Some (?h3\<lparr>nodes := m5\<rparr>)"
            "seg m5 (?P c2 ns2) ns2 (?Q c2 ns2)" "relink (set ns2) m4 m5"
    by blast
  let ?h = "?h3\<lparr>nodes := m5\<rparr>"
  have run: "concat_new (Some l1) (Some l2) h = Some ?h"
  proof -
    have "updl (Some l1) (\<lambda>L. L\<lparr>lastPtr := lst_or as None\<rparr>) h2 = Some ?h3"
      by (simp add: updl_def h2(10) L_def as_def)
    moreover have "concat_loop (Some l1) (lst_or ns1 None) (fst_or ns2 None) ?h1 = Some (lst_or as None, h2)"
      using h2(1) by (simp add: as_def)
    moreover have "getl ?h1 (Some l1) = Some L1" "getl ?h3 (Some l1) = Some L" "getl h (Some l2) = Some L2"
      "getl (?h3\<lparr>nodes := m4\<rparr>) (Some l2) = Some L2" "isCirc L = c1" "lastPtr L = lst_or as None" "firstPtr L = fst_or as None"
      using L1(1,2) L2(1) N(4) by (simp_all add: L_def getl_def)
    ultimately show ?thesis
      by (simp only: concat_new_def bind.bind_lunit L1(5) L2(2,4,5) ne(2) m1(1) m4(1) m5(1) fst_or_None if_False prod.case)
  qed
  have r: "relink (set as \<union> set ns2) (nodes h2) (nodes ?h)" using relink_trans [OF m4(3) m5(3)] by simp
  have s5: "seg m5 (if c1 then lst_or as None else ?P c1 ns1) as (if c1 then fst_or as None else None)"
    using relink_seg [OF m5(3)] as(3) m4(2) by blast
  have "rep ?h l1 c1 as" using s5 as(1,2) L1(2) by (auto simp: rep_def L_def lst_or_def)
  moreover have "rep ?h l2 c2 ns2" using m5(2) N(4) L2 ne(2) by (auto simp: rep_def lst_or_def)
  moreover have "keeps (set ns1 \<union> set ns2) h ?h"
  proof -
    have "keeps (set ns1 \<union> set ns2 \<union> {a. brk h \<le> a}) h2 ?h"
    proof (rule keeps_mono [OF keeps_relink [OF r]])
      show "set as \<union> set ns2 \<subseteq> set ns1 \<union> set ns2 \<union> {a. brk h \<le> a}" using h2(6) by (auto simp: as_def)
    qed simp
    moreover have "keeps (set ns1 \<union> set ns2) h h2"
    proof (rule keeps_trans)
      show "keeps (set ns1 \<union> set ns2) h ?h1" by (rule keeps_mono [OF k1]) simp
      show "keeps (set ns1 \<union> set ns2 \<union> {a. brk h \<le> a}) ?h1 h2" by (rule keeps_mono [OF h2(3)]) blast
    qed
    ultimately show ?thesis by (rule keeps_trans [rotated])
  qed
  moreover have "vals ?h zs = vals h ns2" "idle ?h zs"
    using relink_vals [OF r] relink_idle [OF r h2(8)] h2(7) keeps_vals [OF k1, of ns2] old by auto
  moreover have "heap_ok ?h"
  proof -
    have "l1 < brk h2" using heap_ok_lsts [OF ok L1(1)] h2(3) by (auto simp: keeps_def)
    then have "heap_ok ?h3" using h2(4,10) unfolding heap_ok_def by auto
    then show ?thesis using keeps_heap_ok [of ?h3 _ m5] r by simp
  qed
  ultimately show ?thesis
    using run h2(6) by (intro exI [of _ ?h] exI [of _ zs]) (simp add: as_def)
qed

text \<open>
  C27. \<^verbatim>\<open>Lst_Concat\<close> with \<^verbatim>\<open>LST_CONCNEW\<close>, for two different lists of a store of lists that share
  no node; the first is not an empty circular list (a list appended to itself would be copied for ever, and the last
  pointer of a circular list that was emptied is invalid): it succeeds, the data of the second list are behind those
  of the first, and the second list and every other list of the store are as they were.
\<close>

theorem Lst_Concat_new_store:
  assumes "store h M" "M l1 = Some (c1, ds1)" "M l2 = Some (c2, ds2)" "l1 \<noteq> l2" "c1 \<longrightarrow> ds1 \<noteq> []"
  shows "\<exists>h'. Lst_Concat (Some l1) (Some l2) False h = Some (True, h') \<and>
    store h' (M(l1 \<mapsto> (c1, ds1 @ ds2)))"
proof -
  from assms(1,2) obtain N ns1 where N: "layout h N" "M = contents h N" "N l1 = Some (c1, ns1)" "vals h ns1 = ds1" "heap_ok h"
      "rep h l1 c1 ns1" "idle h ns1"
    by (rule storeE)
  obtain ns2 where ns2: "N l2 = Some (c2, ns2)" "vals h ns2 = ds2"
    using assms(3) N(2) by (auto simp: contents_def)
  note two = layoutD [OF N(1) ns2(1)]
  show ?thesis
  proof (cases "ns2 = []")
    case True
    have "M(l1 \<mapsto> (c1, ds1 @ ds2)) = M" using True ns2(2) assms(2) by auto
    moreover have "concat_new (Some l1) (Some l2) h = Some h"
      using two(2) True by (auto simp: concat_new_def getl_def rep_def)
    ultimately show ?thesis using assms(1) by (simp add: Lst_Concat_def)
  next
    case False
    have "c1 \<longrightarrow> ns1 \<noteq> []" using assms(5) N(4) by auto
    then obtain h' zs where h': "concat_new (Some l1) (Some l2) h = Some h'" "rep h' l1 c1 (ns1 @ zs)" "rep h' l2 c2 ns2"
        "keeps (set ns1 \<union> set ns2) h h'" "set zs \<subseteq> {brk h..<brk h'}" "vals h' zs = vals h ns2" "idle h' zs" "heap_ok h'"
        "\<forall>k. k \<noteq> l1 \<longrightarrow> lsts h' k = lsts h k"
      using concat_new_rep [OF N(1,3) ns2(1) assms(4) _ False] by blast
    have old: "x < brk h" if "x \<in> set ns1 \<union> set ns2" for x
      using that layout_old [OF N(1,3)] layout_old [OF N(1) ns2(1)] by blast
    have v: "vals h' ns1 = ds1" "idle h' ns1" "vals h' ns2 = ds2" "idle h' ns2"
      using keeps_vals [OF h'(4), of ns1] keeps_vals [OF h'(4), of ns2] old N(4,7) ns2(2) two(3) by auto
    have d: "set (ns1 @ zs) \<inter> set ns2 = {}"
      using layout_away [OF N(1,3) assms(4)] ns2(1) h'(5) old by (fastforce simp: node_set_def)
    have "set (ns1 @ zs) \<subseteq> set ns1 \<union> set ns2 \<union> {a. brk h \<le> a}" using h'(5) by auto
    moreover have "nodes h' a = nodes h a" if "a \<notin> set ns1" "a \<notin> set ns2" "a < brk h" for a
      using h'(4) that by (simp add: keeps_def)
    moreover have "brk h \<le> brk h'" using h'(4) by (simp add: keeps_def)
    moreover have "idle h' (ns1 @ zs)" using v(2) h'(7) by simp
    ultimately have l: "layout h' (N(l1 \<mapsto> (c1, ns1 @ zs), l2 := Some (c2, ns2)))"
        "contents h' (N(l1 \<mapsto> (c1, ns1 @ zs), l2 := Some (c2, ns2))) =
         (contents h N)(l1 \<mapsto> (c1, vals h' (ns1 @ zs)), l2 := map_option (\<lambda>(c, ms). (c, vals h' ms)) (Some (c2, ns2)))"
      using layout_two [OF N(1,3) ns2(1) assms(4) h'(8), of "ns1 @ zs" "Some (c2, ns2)"] h'(2,3,9) v(4) d by auto
    have "store h' (M(l1 \<mapsto> (c1, ds1 @ ds2), l2 := Some (c2, ds2)))"
      using store_two [OF N(1,3) ns2(1) assms(4) _ l(1), of "ds1 @ ds2" "Some (c2, ds2)"] l(2) N(2) h'(6) v(1,3) ns2(2)
      by simp
    moreover have "M(l1 \<mapsto> (c1, ds1 @ ds2), l2 := Some (c2, ds2)) = M(l1 \<mapsto> (c1, ds1 @ ds2))"
      using assms(3,4) by auto
    ultimately show ?thesis using h'(1) by (simp add: Lst_Concat_def)
  qed
qed

theorem Lst_Concat_new_store_witness:
  "\<exists>h h'. demo = Some h \<and> Lst_Concat (Some 0) (Some 1) False h = Some (True, h') \<and>
     store h' [0 \<mapsto> (True, [5, 6, 7]), 1 \<mapsto> (False, [7])]"
  using demo_store Lst_Concat_new_store [of _ "[0 \<mapsto> (True, [5, 6]), 1 \<mapsto> (False, [7])]" 0 True "[5, 6]" 1 False "[7]"]
  by (fastforce simp: fun_upd_twist)

end
