(* ===== verification/Hash.thy ===== *)
theory Hash
  imports Libc
begin

text \<open>
  The hash tables of the build tool, \<^verbatim>\<open>usr.bin/bmake/hash.c\<close>.

  A table is the list of its buckets and a bucket the list of its entries. An entry of a table is
  known by its name, since no two entries of a table have the same one; a pointer to an entry
  is that entry, or \<open>None\<close> when it is NULL. The sizes are \<open>nat\<close>: memory is
  full long before a table has \<open>2 ^ 30\<close> buckets.
\<close>

subsection \<open>Tables\<close>

record 'd hash_entry =
  clientData :: "'d option"
  namehash :: u32
  name :: cstring

record 'd hash_table =
  bucketPtr :: "'d hash_entry list list"
  tsize :: nat
  numEntries :: nat
  hmask :: u32

text \<open>The characters are signed, as on i386.\<close>

definition hash_char :: "u32 \<Rightarrow> char \<Rightarrow> u32" where
  "hash_char h c = push_bit 5 h - h + scast (of_nat (byte c) :: 8 word)"

definition hash_of :: "cstring \<Rightarrow> u32" where
  "hash_of key = fold (\<lambda>c h. hash_char h c) key 0"

definition bucket_of :: "'d hash_table \<Rightarrow> u32 \<Rightarrow> nat" where
  "bucket_of t h = unat (and h (hmask t))"

partial_function (option) round_up :: "nat \<Rightarrow> nat \<Rightarrow> nat option" where
  "round_up i n = (if i < n then (if 2 * i < 2 ^ 31 then round_up (2 * i) n else None) else Some i)"

declare round_up.simps [code]

definition Hash_InitTable :: "int \<Rightarrow> 'd hash_table option" where
  "Hash_InitTable numBuckets =
     do { i \<leftarrow> (if numBuckets \<le> 0 then Some 16 else round_up 2 (nat numBuckets));
          Some \<lparr>bucketPtr = replicate i [], tsize = i, numEntries = 0, hmask = of_nat (i - 1)\<rparr> }"

text \<open>All entries are freed; the table must not be used until it is initialised again.\<close>

definition Hash_DeleteTable :: "'d hash_table \<Rightarrow> 'd hash_table" where
  "Hash_DeleteTable t = t\<lparr>bucketPtr := []\<rparr>"

definition find_in :: "u32 \<Rightarrow> cstring \<Rightarrow> 'd hash_entry list \<Rightarrow> 'd hash_entry option" where
  "find_in h key es = List.find (\<lambda>e. namehash e = h \<and> name e = key) es"

definition Hash_FindEntry :: "'d hash_table \<Rightarrow> cstring \<Rightarrow> 'd hash_entry option" where
  "Hash_FindEntry t key =
     (let h = hash_of key in find_in h key (bucketPtr t ! bucket_of t h))"

text \<open>Entries go to the front of their buckets, in a new table and in one that is made larger.\<close>

definition link_entry :: "'d hash_entry \<Rightarrow> 'd hash_table \<Rightarrow> 'd hash_table" where
  "link_entry e t =
     (let b = bucket_of t (namehash e) in t\<lparr>bucketPtr := (bucketPtr t)[b := e # bucketPtr t ! b]\<rparr>)"

definition RebuildTable :: "'d hash_table \<Rightarrow> 'd hash_table" where
  "RebuildTable t =
     (let i = 2 * tsize t;
          t' = t\<lparr>tsize := i, hmask := of_nat (i - 1), bucketPtr := replicate i []\<rparr>
      in fold (fold link_entry) (bucketPtr t) t')"

definition rebuildLimit :: nat where
  "rebuildLimit = 3"

text \<open>The entry, whether it is new, and the table then.\<close>

definition Hash_CreateEntry :: "'d hash_table \<Rightarrow> cstring \<Rightarrow> 'd hash_entry \<times> bool \<times> 'd hash_table" where
  "Hash_CreateEntry t key =
     (let h = hash_of key in
      case find_in h key (bucketPtr t ! bucket_of t h) of
        Some e \<Rightarrow> (e, False, t)
      | None \<Rightarrow>
          let t = (if numEntries t \<ge> rebuildLimit * tsize t then RebuildTable t else t);
              e = \<lparr>clientData = None, namehash = h, name = key\<rparr>;
              t = link_entry e t
          in (e, True, t\<lparr>numEntries := numEntries t + 1\<rparr>))"

definition Hash_GetValue :: "'d hash_entry \<Rightarrow> 'd option" where
  "Hash_GetValue e = clientData e"

definition Hash_SetValue :: "'d hash_entry \<Rightarrow> 'd \<Rightarrow> 'd hash_table \<Rightarrow> 'd hash_table" where
  "Hash_SetValue e d t =
     (let b = bucket_of t (namehash e)
      in t\<lparr>bucketPtr := (bucketPtr t)[b := map (\<lambda>x. if name x = name e then x\<lparr>clientData := Some d\<rparr> else x)
                                          (bucketPtr t ! b)]\<rparr>)"

text \<open>The program is aborted when the entry is not there.\<close>

datatype 'd hash_deleted = Deleted "'d hash_table" | Aborted

fun unlink_name :: "cstring \<Rightarrow> 'd hash_entry list \<Rightarrow> 'd hash_entry list option" where
  "unlink_name key [] = None"
| "unlink_name key (e # es) =
     (if name e = key then Some es else do { es \<leftarrow> unlink_name key es; Some (e # es) })"

definition Hash_DeleteEntry :: "'d hash_table \<Rightarrow> 'd hash_entry option \<Rightarrow> 'd hash_deleted" where
  "Hash_DeleteEntry t p =
     (case p of
        None \<Rightarrow> Deleted t
      | Some e \<Rightarrow>
          let b = bucket_of t (namehash e) in
          case unlink_name (name e) (bucketPtr t ! b) of
            None \<Rightarrow> Aborted
          | Some es \<Rightarrow> Deleted (t\<lparr>bucketPtr := (bucketPtr t)[b := es], numEntries := numEntries t - 1\<rparr>))"

subsection \<open>Enumeration\<close>

record 'd hash_search =
  tablePtr :: "'d hash_table"
  nextIndex :: nat
  hashEntryPtr :: "'d hash_entry option"

text \<open>What is behind an entry in its bucket.\<close>

definition entries_from :: "'d hash_table \<Rightarrow> 'd hash_entry \<Rightarrow> 'd hash_entry list" where
  "entries_from t e = tl (dropWhile (\<lambda>x. name x \<noteq> name e) (bucketPtr t ! bucket_of t (namehash e)))"

function next_bucket :: "'d hash_table \<Rightarrow> nat \<Rightarrow> ('d hash_entry option \<times> nat)" where
  "next_bucket t i =
     (if i \<ge> tsize t then (None, i)
      else case bucketPtr t ! i of [] \<Rightarrow> next_bucket t (i + 1) | e # _ \<Rightarrow> (Some e, i + 1))"
  by auto
termination by (relation "measure (\<lambda>(t, i). tsize t - i)") auto

text \<open>At the end the search keeps the entry it gave last.\<close>

definition Hash_EnumNext :: "'d hash_search \<Rightarrow> 'd hash_entry option \<times> 'd hash_search" where
  "Hash_EnumNext s =
     (let t = tablePtr s;
          rest = (case hashEntryPtr s of None \<Rightarrow> [] | Some e \<Rightarrow> entries_from t e)
      in case rest of
           e # _ \<Rightarrow> (Some e, s\<lparr>hashEntryPtr := Some e\<rparr>)
         | [] \<Rightarrow> (case next_bucket t (nextIndex s) of
                    (None, i) \<Rightarrow> (None, s\<lparr>nextIndex := i\<rparr>)
                  | (Some e, i) \<Rightarrow> (Some e, s\<lparr>nextIndex := i, hashEntryPtr := Some e\<rparr>)))"

definition Hash_EnumFirst :: "'d hash_table \<Rightarrow> 'd hash_entry option \<times> 'd hash_search" where
  "Hash_EnumFirst t = Hash_EnumNext \<lparr>tablePtr = t, nextIndex = 0, hashEntryPtr = None\<rparr>"

end
