(* ===== verification/Hashmap.thy ===== *)
theory Hashmap
  imports Hash "HOL-Library.Multiset"
begin

text \<open>
  A hash table of \<^verbatim>\<open>usr.bin/bmake/hash.c\<close> is a map from names to values: every operation
  against the one on maps, and the walk over all entries.
\<close>

subsection \<open>The invariant\<close>

definition entries :: "'d hash_table \<Rightarrow> 'd hash_entry list" where
  "entries t = concat (bucketPtr t)"

definition hmap :: "'d hash_table \<Rightarrow> cstring \<Rightarrow> 'd option option" where
  "hmap t = map_of (map (\<lambda>e. (name e, clientData e)) (entries t))"

definition shape :: "'d hash_table \<Rightarrow> bool" where
  "shape t =
     ((\<exists>k. tsize t = 2 ^ k) \<and> length (bucketPtr t) = tsize t \<and> hmask t = of_nat (tsize t - 1) \<and>
      (\<forall>b < tsize t. \<forall>e \<in> set (bucketPtr t ! b). namehash e = hash_of (name e) \<and> bucket_of t (hash_of (name e)) = b))"

definition table_ok :: "'d hash_table \<Rightarrow> bool" where
  "table_ok t =
     (shape t \<and> distinct (map name (entries t)) \<and> numEntries t = length (entries t) \<and>
      numEntries t \<le> rebuildLimit * tsize t)"

lemma and_size_minus_1: "unat (and h (of_nat (2 ^ k - 1)) :: u32) = unat h mod 2 ^ k"
proof -
  have "(of_nat (2 ^ k - 1) :: u32) = Bit_Operations.mask k"
    by (simp add: mask_eq_exp_minus_1 of_nat_diff)
  then have "and h (of_nat (2 ^ k - 1)) = take_bit k h" by (simp only: take_bit_eq_mask)
  then have "unat (and h (of_nat (2 ^ k - 1)) :: u32) = take_bit k (unat h)" by (simp only: unsigned_take_bit_eq)
  then show ?thesis by (simp only: take_bit_eq_mod)
qed

lemma bucket_less: "shape t \<Longrightarrow> bucket_of t h < tsize t"
proof -
  assume "shape t"
  then obtain k where "tsize t = 2 ^ k" "hmask t = of_nat (2 ^ k - 1)" by (auto simp: shape_def)
  then show ?thesis by (simp only: bucket_of_def and_size_minus_1) simp
qed

lemma bucket_of_cong: "hmask t' = hmask t \<Longrightarrow> bucket_of t' = bucket_of t"
  by (simp add: bucket_of_def fun_eq_iff)

lemma in_bucket: "b < length bs \<Longrightarrow> e \<in> set (bs ! b) \<Longrightarrow> e \<in> set (concat bs)"
  by (auto intro!: bexI [of _ "bs ! b"])

lemma entry_bucket:
  assumes "shape t" "e \<in> set (entries t)"
  shows "e \<in> set (bucketPtr t ! bucket_of t (namehash e))" "namehash e = hash_of (name e)"
proof -
  obtain b where "b < tsize t" "e \<in> set (bucketPtr t ! b)"
    using assms unfolding entries_def shape_def by (metis UN_E in_set_conv_nth set_concat)
  then show "e \<in> set (bucketPtr t ! bucket_of t (namehash e))" "namehash e = hash_of (name e)"
    using assms(1) by (auto simp: shape_def)
qed

subsection \<open>Entries of a table\<close>

lemma mset_concat_update:
  "b < length bs \<Longrightarrow> mset (concat (bs[b := es])) + mset (bs ! b) = mset (concat bs) + mset es"
proof (induction bs arbitrary: b)
  case (Cons x bs)
  show ?case
  proof (cases b)
    case (Suc c)
    then have "mset (concat (bs[c := es])) + mset (bs ! c) = mset (concat bs) + mset es" using Cons by simp
    then show ?thesis using Suc by (simp add: add.assoc)
  qed simp
qed simp

lemma link_entry_shape:
  assumes "shape t" "namehash e = hash_of (name e)"
  shows "shape (link_entry e t)" "mset (entries (link_entry e t)) = add_mset e (mset (entries t))"
    "tsize (link_entry e t) = tsize t" "numEntries (link_entry e t) = numEntries t"
proof -
  let ?b = "bucket_of t (namehash e)"
  have b: "?b < length (bucketPtr t)" using bucket_less [OF assms(1)] assms(1) by (simp add: shape_def)
  have same: "bucket_of (link_entry e t) = bucket_of t" by (rule bucket_of_cong) (simp add: link_entry_def Let_def)
  show "shape (link_entry e t)"
    unfolding shape_def same using assms b by (auto simp: shape_def link_entry_def Let_def nth_list_update) 
  show "mset (entries (link_entry e t)) = add_mset e (mset (entries t))"
    using mset_concat_update [OF b, of "e # bucketPtr t ! ?b"] by (simp add: entries_def link_entry_def Let_def)
  show "tsize (link_entry e t) = tsize t" "numEntries (link_entry e t) = numEntries t"
    by (simp_all add: link_entry_def Let_def)
qed

lemma link_entries_shape:
  assumes "shape t" "\<forall>e \<in> set es. namehash e = hash_of (name e)"
  shows "shape (fold link_entry es t)" "mset (entries (fold link_entry es t)) = mset es + mset (entries t)"
    "tsize (fold link_entry es t) = tsize t" "numEntries (fold link_entry es t) = numEntries t"
proof -
  have "shape (fold link_entry es t) \<and> mset (entries (fold link_entry es t)) = mset es + mset (entries t) \<and>
      tsize (fold link_entry es t) = tsize t \<and> numEntries (fold link_entry es t) = numEntries t"
    using assms
  proof (induction es arbitrary: t)
    case (Cons e es)
    have "namehash e = hash_of (name e)" using Cons.prems(2) by simp
    note l = link_entry_shape [OF Cons.prems(1) this]
    show ?case using Cons.IH [OF l(1)] Cons.prems(2) l by simp
  qed simp
  then show "shape (fold link_entry es t)" "mset (entries (fold link_entry es t)) = mset es + mset (entries t)"
    "tsize (fold link_entry es t) = tsize t" "numEntries (fold link_entry es t) = numEntries t" by blast+
qed

lemma fold_fold_concat: "fold (fold f) xss s = fold f (concat xss) s"
  by (induction xss arbitrary: s) simp_all

lemma RebuildTable_shape:
  assumes "shape t"
  shows "shape (RebuildTable t)" "mset (entries (RebuildTable t)) = mset (entries t)"
    "tsize (RebuildTable t) = 2 * tsize t" "numEntries (RebuildTable t) = numEntries t"
proof -
  let ?t = "t\<lparr>tsize := 2 * tsize t, hmask := of_nat (2 * tsize t - 1), bucketPtr := replicate (2 * tsize t) []\<rparr>"
  have e: "RebuildTable t = fold link_entry (entries t) ?t"
    by (simp add: RebuildTable_def Let_def fold_fold_concat entries_def)
  obtain k where "tsize t = 2 ^ k" using assms by (auto simp: shape_def)
  then have "shape ?t" unfolding shape_def by (intro conjI exI [of _ "Suc k"]) simp_all
  moreover have "\<forall>e \<in> set (entries t). namehash e = hash_of (name e)" using entry_bucket(2) [OF assms] by blast
  moreover have "entries ?t = []" by (simp add: entries_def concat_eq_Nil_conv)
  ultimately show "shape (RebuildTable t)" "mset (entries (RebuildTable t)) = mset (entries t)"
    "tsize (RebuildTable t) = 2 * tsize t" "numEntries (RebuildTable t) = numEntries t"
    unfolding e using link_entries_shape [of ?t "entries t"] by simp_all
qed

lemma table_ok_cong:
  assumes "mset (entries t') = mset (entries t)" "table_ok t" "shape t'" "numEntries t' = numEntries t" "tsize t \<le> tsize t'"
  shows "table_ok t'" "hmap t' = hmap t"
proof -
  have n: "mset (map name (entries t')) = mset (map name (entries t))" using assms(1) by simp
  have d: "distinct (map name (entries t'))" using assms(2) mset_eq_imp_distinct_iff [OF n] by (simp add: table_ok_def)
  have "length (entries t') = length (entries t)" by (rule mset_eq_length [OF assms(1)])
  then show "table_ok t'" using assms d by (auto simp: table_ok_def rebuildLimit_def)
  have "map_of (map (\<lambda>e. (name e, clientData e)) (entries t')) = map_of (map (\<lambda>e. (name e, clientData e)) (entries t))"
    using d assms(1,2) by (intro map_of_inject_set [THEN iffD2]) (auto simp: table_ok_def comp_def dest: mset_eq_setD)
  then show "hmap t' = hmap t" by (simp add: hmap_def)
qed

lemma hmap_Some:
  "table_ok t \<Longrightarrow> hmap t key = Some d \<longleftrightarrow> (\<exists>e \<in> set (entries t). name e = key \<and> clientData e = d)"
  unfolding hmap_def table_ok_def by (subst map_of_eq_Some_iff) (auto simp: comp_def)

lemma hmap_None: "hmap t key = None \<longleftrightarrow> key \<notin> name ` set (entries t)"
  by (simp add: hmap_def map_of_eq_None_iff image_image)

lemma same_name: "table_ok t \<Longrightarrow> e \<in> set (entries t) \<Longrightarrow> e' \<in> set (entries t) \<Longrightarrow> name e = name e' \<Longrightarrow> e = e'"
  unfolding table_ok_def by (metis distinct_map inj_onD)

subsection \<open>Looking up and creating\<close>

lemma Hash_FindEntry_iff:
  assumes "table_ok t"
  shows "Hash_FindEntry t key = Some e \<longleftrightarrow> e \<in> set (entries t) \<and> name e = key"
proof -
  have s: "shape t" using assms by (simp add: table_ok_def)
  let ?b = "bucketPtr t ! bucket_of t (hash_of key)"
  have sub: "set ?b \<subseteq> set (entries t)"
  proof
    have "bucket_of t (hash_of key) < length (bucketPtr t)" using bucket_less [OF s, of "hash_of key"] s by (simp add: shape_def)
    then show "e \<in> set (entries t)" if "e \<in> set ?b" for e
      unfolding entries_def using that by (rule in_bucket)
  qed
  have "Hash_FindEntry t key = Some e \<Longrightarrow> e \<in> set ?b \<and> name e = key"
    unfolding Hash_FindEntry_def find_in_def Let_def by (auto simp: find_Some_iff)
  moreover have "Hash_FindEntry t key = Some e" if e: "e \<in> set (entries t)" "name e = key"
  proof -
    have in_b: "e \<in> set ?b" "namehash e = hash_of key" using entry_bucket [OF s e(1)] e(2) by simp_all
    then have "Hash_FindEntry t key \<noteq> None"
      using e(2) by (auto simp: Hash_FindEntry_def find_in_def Let_def find_None_iff)
    then obtain e' where e': "Hash_FindEntry t key = Some e'" by blast
    then have "e' \<in> set ?b" "name e' = key" by (auto simp: Hash_FindEntry_def find_in_def Let_def find_Some_iff)
    then show ?thesis using e' same_name [OF assms e(1)] sub e(2) by auto
  qed
  ultimately show ?thesis using sub by blast
qed

text \<open>A look-up gives the entry of the name, if there is one.\<close>

theorem Hash_FindEntry_map:
  assumes "table_ok t"
  shows "map_option Hash_GetValue (Hash_FindEntry t key) = hmap t key"
proof (cases "Hash_FindEntry t key")
  case None
  have "key \<notin> name ` set (entries t)"
  proof
    assume "key \<in> name ` set (entries t)"
    then obtain e where "e \<in> set (entries t)" "name e = key" by blast
    then have "Hash_FindEntry t key = Some e" using Hash_FindEntry_iff [OF assms] by blast
    then show False using None by simp
  qed
  then have "hmap t key = None" by (simp add: hmap_None)
  then show ?thesis using None by simp
next
  case (Some e)
  then have "hmap t key = Some (clientData e)"
    using Hash_FindEntry_iff [OF assms] hmap_Some [OF assms] by blast
  then show ?thesis using Some by (simp add: Hash_GetValue_def)
qed

theorem Hash_CreateEntry_old:
  assumes "table_ok t" "Hash_FindEntry t key = Some e"
  shows "Hash_CreateEntry t key = (e, False, t)"
  using assms(2) by (simp add: Hash_CreateEntry_def Hash_FindEntry_def Let_def)

text \<open>A new entry has no value; the table grows when it is full, and keeps all its entries.\<close>

theorem Hash_CreateEntry_new:
  assumes "table_ok t" "Hash_FindEntry t key = None" "Hash_CreateEntry t key = (e, new, t')"
  shows "new \<and> table_ok t' \<and> Hash_FindEntry t' key = Some e \<and> hmap t' = (hmap t)(key \<mapsto> None)"
proof -
  define t1 where "t1 = (if numEntries t \<ge> rebuildLimit * tsize t then RebuildTable t else t)"
  have s: "shape t" "tsize t > 0" using assms(1) by (auto simp: table_ok_def shape_def)
  have ok1: "table_ok t1" "hmap t1 = hmap t" "numEntries t1 < rebuildLimit * tsize t1"
  proof -
    note r = RebuildTable_shape [OF s(1)]
    have "table_ok (RebuildTable t)" "hmap (RebuildTable t) = hmap t"
      using table_ok_cong [OF r(2) assms(1) r(1,4)] r(3) by simp_all
    then show "table_ok t1" "hmap t1 = hmap t" using assms(1) by (simp_all add: t1_def)
    have "numEntries t \<le> rebuildLimit * tsize t" using assms(1) by (simp add: table_ok_def)
    then show "numEntries t1 < rebuildLimit * tsize t1" using r(3,4) s(2) by (simp add: t1_def rebuildLimit_def)
  qed
  have s1: "shape t1" using ok1(1) by (simp add: table_ok_def)
  have e: "e = \<lparr>clientData = None, namehash = hash_of key, name = key\<rparr>" "new"
      "t' = (link_entry e t1)\<lparr>numEntries := numEntries t1 + 1\<rparr>"
    using assms(2,3) link_entry_shape(4) [OF s1]
    by (auto simp: Hash_CreateEntry_def Hash_FindEntry_def Let_def t1_def)
  have h: "namehash e = hash_of (name e)" using e(1) by simp
  note l = link_entry_shape [OF s1 h]
  have ent: "entries t' = entries (link_entry e t1)" "mset (entries t') = add_mset e (mset (entries t1))"
    using l(2) by (simp_all add: e(3) entries_def)
  then have n: "mset (map name (entries t')) = mset (key # map name (entries t1))" using e(1) by simp
  have fresh: "key \<notin> name ` set (entries t1)"
    using assms(1,2) Hash_FindEntry_map ok1(2) by (metis hmap_None option.simps(8))
  have "distinct (map name (entries t'))"
    using mset_eq_imp_distinct_iff [OF n] ok1(1) fresh by (simp add: table_ok_def)
  moreover have "length (entries t') = length (entries t1) + 1" using ent(2) by (metis size_add_mset size_mset Suc_eq_plus1)
  moreover have "bucket_of t' = bucket_of (link_entry e t1)" by (rule bucket_of_cong) (simp add: e(3))
  then have "shape t'" using l(1) unfolding shape_def by (simp add: e(3))
  ultimately have ok: "table_ok t'" using ok1 l(3) unfolding table_ok_def by (auto simp: e(3))
  have set': "set (entries t') = insert e (set (entries t1))" using ent(2) by (metis set_mset_add_mset_insert set_mset_mset)
  have "hmap t' k = ((hmap t1)(key \<mapsto> None)) k" for k
  proof (cases "hmap t' k")
    case None
    then have "k \<notin> name ` set (entries t')" by (simp only: hmap_None not_False_eq_True)
    then have "k \<noteq> key" "hmap t1 k = None" using set' e(1) by (simp_all add: hmap_None)
    then show ?thesis using None by simp
  next
    case (Some d)
    then obtain x where x: "x \<in> set (entries t')" "name x = k" "clientData x = d" using hmap_Some [OF ok] by blast
    show ?thesis
    proof (cases "x = e")
      case True
      then show ?thesis using x Some e(1) by auto
    next
      case False
      then have "x \<in> set (entries t1)" using x(1) set' by blast
      then have "hmap t1 k = Some d" "k \<noteq> key" using hmap_Some [OF ok1(1)] x fresh by blast+
      then show ?thesis using Some by simp
    qed
  qed
  then have "hmap t' = (hmap t)(key \<mapsto> None)" using ok1(2) by (simp add: fun_eq_iff)
  moreover have "Hash_FindEntry t' key = Some e" using Hash_FindEntry_iff [OF ok] set' e(1) by simp
  ultimately show ?thesis using ok e(2) by blast
qed

subsection \<open>Values\<close>

lemma bucket_at: "shape t \<Longrightarrow> bucket_of t h < length (bucketPtr t)"
  using bucket_less by (simp add: shape_def)

text \<open>Replacing a bucket by one with the same names.\<close>

lemma Hash_SetValue_entries:
  assumes "table_ok t" "e \<in> set (entries t)"
  shows "entries (Hash_SetValue e d t) = map (\<lambda>x. if name x = name e then x\<lparr>clientData := Some d\<rparr> else x) (entries t)"
proof -
  let ?b = "bucket_of t (namehash e)" and ?f = "\<lambda>x. if name x = name e then x\<lparr>clientData := Some d\<rparr> else x"
  have s: "shape t" using assms(1) by (simp add: table_ok_def)
  have other: "map ?f (bucketPtr t ! b) = bucketPtr t ! b" if "b < length (bucketPtr t)" "b \<noteq> ?b" for b
  proof -
    have "x \<in> set (bucketPtr t ! b) \<Longrightarrow> name x \<noteq> name e" for x
      using that s entry_bucket(2) [OF s assms(2)] unfolding shape_def by metis
    then show ?thesis by (simp add: map_idI)
  qed
  have "(bucketPtr t)[?b := map ?f (bucketPtr t ! ?b)] = map (map ?f) (bucketPtr t)"
    using bucket_at [OF s, of "namehash e"] by (intro nth_equalityI) (auto simp: nth_list_update other)
  then show ?thesis by (simp add: entries_def Hash_SetValue_def Let_def map_concat)
qed

theorem Hash_SetValue_map:
  assumes "table_ok t" "Hash_FindEntry t key = Some e"
  shows "table_ok (Hash_SetValue e d t) \<and> hmap (Hash_SetValue e d t) = (hmap t)(key \<mapsto> Some d)"
proof -
  let ?t = "Hash_SetValue e d t" and ?f = "\<lambda>x. if name x = name e then x\<lparr>clientData := Some d\<rparr> else x"
  have e: "e \<in> set (entries t)" "name e = key" using Hash_FindEntry_iff [OF assms(1)] assms(2) by blast+
  note m = Hash_SetValue_entries [OF assms(1) e(1), of d]
  have s: "shape t" using assms(1) by (simp add: table_ok_def)
  have same: "tsize ?t = tsize t" "hmask ?t = hmask t" "numEntries ?t = numEntries t" "bucket_of ?t = bucket_of t"
    by (simp_all add: Hash_SetValue_def Let_def bucket_of_def fun_eq_iff)
  have "shape ?t"
    unfolding shape_def same using s bucket_at [OF s, of "namehash e"] entry_bucket(2) [OF s e(1)]
    by (auto simp: shape_def Hash_SetValue_def Let_def nth_list_update)
  moreover have n: "map name (entries ?t) = map name (entries t)" unfolding m by simp
  have "distinct (map name (entries ?t))" "length (entries ?t) = length (entries t)"
    using n m assms(1) by (simp_all only: table_ok_def length_map)
  ultimately have ok: "table_ok ?t" using assms(1) same(1,3) by (simp add: table_ok_def)
  have "hmap ?t k = ((hmap t)(key \<mapsto> Some d)) k" for k
  proof (cases "k = key")
    case True
    have "e\<lparr>clientData := Some d\<rparr> \<in> set (entries ?t)" unfolding m using e(1) by force
    then have "hmap ?t key = Some (Some d)" using hmap_Some [OF ok] e(2) by fastforce
    then show ?thesis using True by simp
  next
    case False
    have "map_of (map (\<lambda>x. (name x, clientData x)) (map ?f xs)) k = map_of (map (\<lambda>x. (name x, clientData x)) xs) k" for xs
      using False e(2) by (induction xs) auto
    then show ?thesis using False by (simp add: hmap_def m)
  qed
  then show ?thesis using ok by (simp add: fun_eq_iff)
qed

subsection \<open>Deleting\<close>

lemma unlink_name_mset:
  "distinct (map name es) \<Longrightarrow> e \<in> set es \<Longrightarrow>
   \<exists>es'. unlink_name (name e) es = Some es' \<and> mset es = add_mset e (mset es')"
proof (induction es)
  case (Cons x es)
  show ?case
  proof (cases "name x = name e")
    case True
    then have "x = e" using Cons.prems by (auto simp: image_iff)
    then show ?thesis by simp
  next
    case False
    then have "e \<in> set es" "distinct (map name es)" using Cons.prems by auto
    then obtain es' where "unlink_name (name e) es = Some es'" "mset es = add_mset e (mset es')" using Cons.IH by blast
    then show ?thesis using False by simp
  qed
qed simp

lemma distinct_bucket: "distinct (map name (concat bs)) \<Longrightarrow> b < length bs \<Longrightarrow> distinct (map name (bs ! b))"
proof (induction bs arbitrary: b)
  case (Cons x bs)
  then show ?case by (cases b) auto
qed simp

theorem Hash_DeleteEntry_map:
  assumes "table_ok t" "Hash_FindEntry t key = Some e"
  shows "\<exists>t'. Hash_DeleteEntry t (Some e) = Deleted t' \<and> table_ok t' \<and> hmap t' = (hmap t)(key := None)"
proof -
  have e: "e \<in> set (entries t)" "name e = key" using Hash_FindEntry_iff [OF assms(1)] assms(2) by blast+
  have s: "shape t" and d: "distinct (map name (entries t))" using assms(1) by (simp_all add: table_ok_def)
  let ?b = "bucket_of t (namehash e)"
  note b = bucket_at [OF s, of "namehash e"]
  obtain es where es: "unlink_name (name e) (bucketPtr t ! ?b) = Some es" "mset (bucketPtr t ! ?b) = add_mset e (mset es)"
    using unlink_name_mset [OF distinct_bucket [OF d [unfolded entries_def] b] entry_bucket(1) [OF s e(1)]] by blast
  define t' where "t' = t\<lparr>bucketPtr := (bucketPtr t)[?b := es], numEntries := numEntries t - 1\<rparr>"
  have del: "Hash_DeleteEntry t (Some e) = Deleted t'" using es(1) by (simp add: Hash_DeleteEntry_def t'_def Let_def)
  have m: "mset (entries t) = add_mset e (mset (entries t'))"
    using mset_concat_update [OF b, of es] es(2) by (simp add: entries_def t'_def)
  have same: "tsize t' = tsize t" "hmask t' = hmask t" "bucket_of t' = bucket_of t"
    by (simp_all add: t'_def bucket_of_def fun_eq_iff)
  have sub: "set es \<subseteq> set (bucketPtr t ! ?b)" using es(2) by (metis set_mset_add_mset_insert set_mset_mset subset_insertI)
  have "shape t'"
    unfolding shape_def same using s b sub by (auto simp: shape_def t'_def nth_list_update)
  moreover have n: "mset (map name (entries t)) = mset (key # map name (entries t'))" using m e(2) by simp
  have d': "distinct (key # map name (entries t'))" using mset_eq_imp_distinct_iff [OF n] d by simp
  moreover have len: "length (entries t) = length (entries t') + 1" using m by (metis size_add_mset size_mset Suc_eq_plus1)
  moreover have "numEntries t' = numEntries t - 1" by (simp add: t'_def)
  ultimately have ok: "table_ok t'" using assms(1) same(1) by (simp add: table_ok_def)
  have set': "set (entries t) = insert e (set (entries t'))" using m by (metis set_mset_add_mset_insert set_mset_mset)
  have gone: "key \<notin> name ` set (entries t')" using d' by simp
  have "hmap t' k = ((hmap t)(key := None)) k" for k
  proof (cases "hmap t' k")
    case None
    show ?thesis
    proof (cases "k = key")
      case False
      have "k \<notin> name ` set (entries t')" using None by (simp only: hmap_None not_False_eq_True)
      then have "hmap t k = None" using set' e(2) False by (simp add: hmap_None)
      then show ?thesis using None False by simp
    next
      case True
      then show ?thesis using None by simp
    qed
  next
    case (Some v)
    then obtain x where x: "x \<in> set (entries t')" "name x = k" "clientData x = v" using hmap_Some [OF ok] by blast
    then have "hmap t k = Some v" "k \<noteq> key" using hmap_Some [OF assms(1)] set' gone by blast+
    then show ?thesis using Some by simp
  qed
  then show ?thesis using del ok by (auto simp: fun_eq_iff)
qed

subsection \<open>Making a table\<close>

lemma round_up_power:
  "n \<le> 2 ^ 30 \<Longrightarrow> 2 ^ k \<le> (2 ^ 30 :: nat) \<Longrightarrow> \<exists>j. round_up (2 ^ k) n = Some (2 ^ j) \<and> n \<le> 2 ^ j"
proof (induction "2 ^ 30 - 2 ^ k :: nat" arbitrary: k rule: less_induct)
  case less
  show ?case
  proof (cases "2 ^ k < n")
    case True
    then have k: "2 ^ k < (2 ^ 30 :: nat)" using less.prems(1) by simp
    then have "k < 30" by (rule power_less_imp_less_exp [rotated]) simp
    then have "Suc k \<le> 30" by simp
    then have k': "2 ^ Suc k \<le> (2 ^ 30 :: nat)" by (rule power_increasing) simp
    have "(2 ^ 30 :: nat) - 2 ^ Suc k < 2 ^ 30 - 2 ^ k" using k by (simp add: diff_less_mono2)
    then obtain j where "round_up (2 ^ Suc k) n = Some (2 ^ j)" "n \<le> 2 ^ j"
      using less.hyps [of "Suc k"] less.prems(1) k' by blast
    moreover have "2 * 2 ^ k < (2 ^ 31 :: nat)" using k by simp
    ultimately show ?thesis using True by (subst round_up.simps) auto
  next
    case False
    then show ?thesis by (subst round_up.simps) auto
  qed
qed

theorem Hash_InitTable_empty:
  assumes "n \<le> 2 ^ 30"
  shows "\<exists>t. Hash_InitTable n = Some t \<and> table_ok t \<and> hmap t = Map.empty \<and> n \<le> int (tsize t)"
proof -
  have "\<exists>j. (if n \<le> 0 then Some 16 else round_up 2 (nat n)) = Some (2 ^ j) \<and> n \<le> 2 ^ j"
  proof (cases "n \<le> 0")
    case True
    then show ?thesis by (intro exI [of _ 4]) (simp add: order_trans)
  next
    case False
    have "nat n \<le> 2 ^ 30" using assms by (simp add: nat_le_iff)
    then obtain j where "round_up (2 ^ 1) (nat n) = Some (2 ^ j)" "nat n \<le> 2 ^ j"
      using round_up_power [of "nat n" 1] by auto
    then show ?thesis using False by (intro exI [of _ j]) (simp add: nat_le_iff)
  qed
  then obtain j where j: "(if n \<le> 0 then Some 16 else round_up 2 (nat n)) = Some (2 ^ j)" "n \<le> 2 ^ j" by blast
  then show ?thesis
    by (auto simp: Hash_InitTable_def table_ok_def shape_def entries_def hmap_def concat_eq_Nil_conv)
qed

subsection \<open>Walking over all entries\<close>

text \<open>A client that goes on until there is no entry any more.\<close>

partial_function (option) enum_rest :: "'d hash_search \<Rightarrow> 'd hash_entry list option" where
  "enum_rest s =
     (case Hash_EnumNext s of
        (None, s) \<Rightarrow> Some []
      | (Some e, s) \<Rightarrow> do { es \<leftarrow> enum_rest s; Some (e # es) })"

declare enum_rest.simps [code]

definition enum_all :: "'d hash_table \<Rightarrow> 'd hash_entry list option" where
  "enum_all t =
     (case Hash_EnumFirst t of
        (None, s) \<Rightarrow> Some []
      | (Some e, s) \<Rightarrow> do { es \<leftarrow> enum_rest s; Some (e # es) })"

text \<open>What a search has still to give.\<close>

definition pending :: "'d hash_search \<Rightarrow> 'd hash_entry list" where
  "pending s =
     (case hashEntryPtr s of None \<Rightarrow> [] | Some e \<Rightarrow> entries_from (tablePtr s) e) @
     concat (drop (nextIndex s) (bucketPtr (tablePtr s)))"

lemma entries_from_split:
  assumes "table_ok t" "b < tsize t" "bucketPtr t ! b = xs @ e # ys"
  shows "entries_from t e = ys"
proof -
  have s: "shape t" using assms(1) by (simp add: table_ok_def)
  have b: "bucket_of t (namehash e) = b" using s assms(2,3) by (auto simp: shape_def)
  have "distinct (map name (bucketPtr t ! b))"
    using distinct_bucket [of "bucketPtr t" b] assms(1,2) by (simp add: table_ok_def shape_def entries_def)
  then have "\<forall>x \<in> set xs. name x \<noteq> name e" using assms(3) by (auto simp: image_iff)
  then have "dropWhile (\<lambda>x. name x \<noteq> name e) (xs @ e # ys) = e # ys" by (induction xs) auto
  then show ?thesis using b assms(3) by (simp add: entries_from_def)
qed

lemma next_bucket_pending:
  assumes "table_ok t"
  shows "case next_bucket t i of
      (None, j) \<Rightarrow> concat (drop i (bucketPtr t)) = []
    | (Some e, j) \<Rightarrow> e \<in> set (entries t) \<and> concat (drop i (bucketPtr t)) = e # entries_from t e @ concat (drop j (bucketPtr t))"
  using assms
proof (induction t i rule: next_bucket.induct)
  case (1 t i)
  have len: "length (bucketPtr t) = tsize t" using "1.prems" by (simp add: table_ok_def shape_def)
  show ?case
  proof (cases "i \<ge> tsize t")
    case True
    then show ?thesis using len by simp
  next
    case False
    then have d: "drop i (bucketPtr t) = bucketPtr t ! i # drop (Suc i) (bucketPtr t)" using len by (simp add: Cons_nth_drop_Suc)
    show ?thesis
    proof (cases "bucketPtr t ! i")
      case Nil
      then show ?thesis using "1.IH" [OF False Nil "1.prems"] False d Nil
        by (subst next_bucket.simps) (simp del: next_bucket.simps split: prod.splits option.splits)
    next
      case (Cons e es)
      then have "e \<in> set (entries t)" using False len in_bucket [of i "bucketPtr t" e] by (simp add: entries_def)
      moreover have "entries_from t e = es" using entries_from_split [OF "1.prems", of i "[]" e es] False Cons by simp
      ultimately show ?thesis using Cons False d by simp
    qed
  qed
qed

lemma EnumNext_pending:
  assumes "table_ok (tablePtr s)" "set_option (hashEntryPtr s) \<subseteq> set (entries (tablePtr s))"
  shows "case Hash_EnumNext s of
      (None, s') \<Rightarrow> pending s = []
    | (Some e, s') \<Rightarrow> pending s = e # pending s' \<and> tablePtr s' = tablePtr s \<and>
        set_option (hashEntryPtr s') \<subseteq> set (entries (tablePtr s'))"
proof -
  let ?t = "tablePtr s" and ?rest = "case hashEntryPtr s of None \<Rightarrow> [] | Some e \<Rightarrow> entries_from (tablePtr s) e"
  show ?thesis
  proof (cases ?rest)
    case Nil
    then show ?thesis
      using next_bucket_pending [OF assms(1), of "nextIndex s"]
      by (auto simp: Hash_EnumNext_def Let_def pending_def simp del: next_bucket.simps split: option.splits prod.splits)
  next
    case (Cons e es)
    then obtain p where p: "hashEntryPtr s = Some p" "entries_from ?t p = e # es" by (auto split: option.splits)
    let ?b = "bucket_of ?t (namehash p)"
    have s: "shape ?t" using assms(1) by (simp add: table_ok_def)
    obtain q where q: "dropWhile (\<lambda>x. name x \<noteq> name p) (bucketPtr ?t ! ?b) = q # e # es"
      using p(2) by (auto simp: entries_from_def tl_def split: list.splits)
    then obtain xs where xs: "bucketPtr ?t ! ?b = xs @ q # e # es" by (metis takeWhile_dropWhile_id)
    have b: "?b < tsize ?t" by (rule bucket_less [OF s])
    have "entries_from ?t e = es" using entries_from_split [OF assms(1) b, of "xs @ [q]" e es] xs by simp
    moreover have "e \<in> set (entries ?t)"
      unfolding entries_def by (rule in_bucket [OF bucket_at [OF s, of "namehash p"]]) (simp add: xs)
    ultimately show ?thesis using p by (simp add: Hash_EnumNext_def Let_def pending_def)
  qed
qed

lemma enum_rest_pending:
  assumes "table_ok (tablePtr s)" "set_option (hashEntryPtr s) \<subseteq> set (entries (tablePtr s))"
  shows "enum_rest s = Some (pending s)"
  using assms
proof (induction "length (pending s)" arbitrary: s rule: less_induct)
  case less
  obtain r s' where n: "Hash_EnumNext s = (r, s')" by fastforce
  show ?case
  proof (cases r)
    case None
    then show ?thesis using EnumNext_pending [OF less.prems] n by (subst enum_rest.simps) simp
  next
    case (Some e)
    have *: "pending s = e # pending s'" "tablePtr s' = tablePtr s" "set_option (hashEntryPtr s') \<subseteq> set (entries (tablePtr s'))"
      using EnumNext_pending [OF less.prems] unfolding n Some by auto
    then have "enum_rest s' = Some (pending s')" using less.hyps [of s'] less.prems(1) by simp
    then show ?thesis using n Some *(1) by (subst enum_rest.simps) simp
  qed
qed

text \<open>A walk ends and gives every entry once.\<close>

theorem enum_all_entries:
  assumes "table_ok t"
  shows "\<exists>es. enum_all t = Some es \<and> distinct (map name es) \<and>
    (\<forall>key. hmap t key = map_of (map (\<lambda>e. (name e, Hash_GetValue e)) es) key)"
proof -
  let ?s = "\<lparr>tablePtr = t, nextIndex = 0, hashEntryPtr = None\<rparr>"
  have "enum_all t = enum_rest ?s" unfolding enum_all_def Hash_EnumFirst_def by (subst enum_rest.simps) simp
  also have "\<dots> = Some (entries t)" using enum_rest_pending [of ?s] assms by (simp add: pending_def entries_def)
  finally show ?thesis
    using assms by (auto simp: table_ok_def hmap_def Hash_GetValue_def [abs_def])
qed

subsection \<open>Programs over a table\<close>

text \<open>What the build tool does with a table: look up, create without a value, set, delete.\<close>

datatype ('k, 'v) dict_op = Find 'k | Create 'k | Put 'k 'v | Del 'k

datatype 'v answer = Value "'v option option" | IsNew bool | Nothing

fun map_run :: "('k, 'v) dict_op list \<Rightarrow> ('k \<Rightarrow> 'v option option) \<Rightarrow> 'v answer list" where
  "map_run [] m = []"
| "map_run (Find k # os) m = Value (m k) # map_run os m"
| "map_run (Create k # os) m = IsNew (m k = None) # map_run os (if m k = None then m(k \<mapsto> None) else m)"
| "map_run (Put k v # os) m = Nothing # map_run os (m(k \<mapsto> Some v))"
| "map_run (Del k # os) m = Nothing # map_run os (m(k := None))"

fun dict_run :: "('t \<Rightarrow> 'k \<Rightarrow> 'v option option) \<Rightarrow> ('t \<Rightarrow> 'k \<Rightarrow> bool \<times> 't) \<Rightarrow> ('t \<Rightarrow> 'k \<Rightarrow> 'v \<Rightarrow> 't) \<Rightarrow> ('t \<Rightarrow> 'k \<Rightarrow> 't option) \<Rightarrow>
    ('k, 'v) dict_op list \<Rightarrow> 't \<Rightarrow> 'v answer list option" where
  "dict_run look create put del [] t = Some []"
| "dict_run look create put del (Find k # os) t =
     do { r \<leftarrow> dict_run look create put del os t; Some (Value (look t k) # r) }"
| "dict_run look create put del (Create k # os) t =
     (case create t k of (new, t) \<Rightarrow> do { r \<leftarrow> dict_run look create put del os t; Some (IsNew new # r) })"
| "dict_run look create put del (Put k v # os) t =
     do { r \<leftarrow> dict_run look create put del os (put t k v); Some (Nothing # r) }"
| "dict_run look create put del (Del k # os) t =
     do { t \<leftarrow> del t k; r \<leftarrow> dict_run look create put del os t; Some (Nothing # r) }"

locale dictionary =
  fixes ok :: "'t \<Rightarrow> bool"
    and view :: "'t \<Rightarrow> 'k \<Rightarrow> 'v option option"
    and look :: "'t \<Rightarrow> 'k \<Rightarrow> 'v option option"
    and create :: "'t \<Rightarrow> 'k \<Rightarrow> bool \<times> 't"
    and put :: "'t \<Rightarrow> 'k \<Rightarrow> 'v \<Rightarrow> 't"
    and del :: "'t \<Rightarrow> 'k \<Rightarrow> 't option"
  assumes look: "ok t \<Longrightarrow> look t k = view t k"
    and create: "ok t \<Longrightarrow> create t k = (new, t') \<Longrightarrow>
      ok t' \<and> new = (view t k = None) \<and> view t' = (if view t k = None then (view t)(k \<mapsto> None) else view t)"
    and put: "ok t \<Longrightarrow> ok (put t k v) \<and> view (put t k v) = (view t)(k \<mapsto> Some v)"
    and del: "ok t \<Longrightarrow> \<exists>t'. del t k = Some t' \<and> ok t' \<and> view t' = (view t)(k := None)"
begin

lemma run_is_map_run: "ok t \<Longrightarrow> dict_run look create put del os t = Some (map_run os (view t))"
proof (induction os arbitrary: t)
  case (Cons a os)
  show ?case
  proof (cases a)
    case (Find k)
    then show ?thesis using Cons look by simp
  next
    case (Create k)
    obtain new t' where c: "create t k = (new, t')" by fastforce
    note c' = create [OF Cons.prems c]
    then have "dict_run look create put del os t' = Some (map_run os (view t'))" using Cons.IH by blast
    then show ?thesis using Create c c' by simp
  next
    case (Put k v)
    then show ?thesis using Cons put by (simp del: fun_upd_apply)
  next
    case (Del k)
    obtain t' where "del t k = Some t'" "ok t'" "view t' = (view t)(k := None)" using del [OF Cons.prems] by blast
    then show ?thesis using Del Cons.IH [of t'] by (simp del: fun_upd_apply)
  qed
qed simp

end

text \<open>The same on the hash tables.\<close>

definition hash_find :: "'d hash_table \<Rightarrow> cstring \<Rightarrow> 'd option option" where
  "hash_find t key = map_option Hash_GetValue (Hash_FindEntry t key)"

definition hash_create :: "'d hash_table \<Rightarrow> cstring \<Rightarrow> bool \<times> 'd hash_table" where
  "hash_create t key = (case Hash_CreateEntry t key of (e, new, t) \<Rightarrow> (new, t))"

definition hash_put :: "'d hash_table \<Rightarrow> cstring \<Rightarrow> 'd \<Rightarrow> 'd hash_table" where
  "hash_put t key v = (case Hash_CreateEntry t key of (e, new, t) \<Rightarrow> Hash_SetValue e v t)"

definition hash_del :: "'d hash_table \<Rightarrow> cstring \<Rightarrow> 'd hash_table option" where
  "hash_del t key = (case Hash_DeleteEntry t (Hash_FindEntry t key) of Deleted t \<Rightarrow> Some t | Aborted \<Rightarrow> None)"

lemma Hash_CreateEntry_map:
  assumes "table_ok t" "Hash_CreateEntry t key = (e, new, t')"
  shows "table_ok t' \<and> Hash_FindEntry t' key = Some e \<and> new = (hmap t key = None) \<and>
    hmap t' = (if hmap t key = None then (hmap t)(key \<mapsto> None) else hmap t)"
proof (cases "Hash_FindEntry t key")
  case None
  then have "hmap t key = None" using Hash_FindEntry_map [OF assms(1), of key] by simp
  then show ?thesis using Hash_CreateEntry_new [OF assms(1) None assms(2)] by simp
next
  case (Some x)
  then have "hmap t key = Some (Hash_GetValue x)" using Hash_FindEntry_map [OF assms(1), of key] by simp
  then show ?thesis using Hash_CreateEntry_old [OF assms(1) Some] assms Some by simp
qed

interpretation hash: dictionary table_ok hmap hash_find hash_create hash_put hash_del
proof
  fix t :: "'d hash_table" and k v assume ok: "table_ok t"
  show "hash_find t k = hmap t k" using Hash_FindEntry_map [OF ok] by (simp add: hash_find_def)
  show "table_ok (hash_put t k v) \<and> hmap (hash_put t k v) = (hmap t)(k \<mapsto> Some v)"
  proof -
    obtain e new t' where c: "Hash_CreateEntry t k = (e, new, t')" by (cases "Hash_CreateEntry t k") auto
    note c' = Hash_CreateEntry_map [OF ok c]
    have "table_ok (Hash_SetValue e v t') \<and> hmap (Hash_SetValue e v t') = (hmap t')(k \<mapsto> Some v)"
      using c' by (intro Hash_SetValue_map) blast+
    then show ?thesis using c c' by (auto simp: hash_put_def)
  qed
  show "\<exists>t'. hash_del t k = Some t' \<and> table_ok t' \<and> hmap t' = (hmap t)(k := None)"
  proof (cases "Hash_FindEntry t k")
    case None
    then have "hmap t k = None" using Hash_FindEntry_map [OF ok, of k] by simp
    then show ?thesis using None ok by (simp add: hash_del_def Hash_DeleteEntry_def fun_upd_idem)
  next
    case (Some e)
    then show ?thesis using Hash_DeleteEntry_map [OF ok Some] by (auto simp: hash_del_def)
  qed
next
  fix t t' :: "'d hash_table" and k new assume "table_ok t" "hash_create t k = (new, t')"
  then show "table_ok t' \<and> new = (hmap t k = None) \<and> hmap t' = (if hmap t k = None then (hmap t)(k \<mapsto> None) else hmap t)"
    using Hash_CreateEntry_map [of t k _ new t'] by (auto simp: hash_create_def split: prod.splits)
qed

text \<open>
  C13. A new table and any sequence of operations on it, growing as it must, answers as a map from the
  empty map on would.
\<close>

theorem hash_table_is_map:
  assumes "n \<le> 2 ^ 30" "Hash_InitTable n = Some t"
  shows "dict_run hash_find hash_create hash_put hash_del os t = Some (map_run os Map.empty)"
proof -
  obtain t' :: "'a hash_table" where "Hash_InitTable n = Some t'" "table_ok t'" "hmap t' = Map.empty"
    using Hash_InitTable_empty [OF assms(1)] by blast
  then have "table_ok t" "hmap t = Map.empty" using assms(2) by simp_all
  then show ?thesis using hash.run_is_map_run [of t os] by simp
qed

theorem hash_table_is_map_witness:
  "\<exists>t. Hash_InitTable 1 = Some t \<and>
     dict_run hash_find hash_create hash_put hash_del [Put ''all'' (3 :: nat), Create ''x.o'', Del ''all'', Find ''x.o'', Find ''all''] t =
     Some [Nothing, IsNew True, Nothing, Value (Some None), Value None]"
proof -
  obtain t :: "nat hash_table" where t: "Hash_InitTable 1 = Some t" using Hash_InitTable_empty [of 1] by auto
  then show ?thesis
    using hash_table_is_map [of 1 t "[Put ''all'' 3, Create ''x.o'', Del ''all'', Find ''x.o'', Find ''all'']"] by simp
qed

theorem enum_all_entries_witness:
  "\<exists>t. Hash_InitTable 1 = Some t \<and> enum_all (snd (hash_create (hash_put t ''all'' (3 :: nat)) ''x.o'')) \<noteq> None"
proof -
  obtain t :: "nat hash_table" where t: "Hash_InitTable 1 = Some t" "table_ok t"
    using Hash_InitTable_empty [of 1] by auto
  have "table_ok (hash_put t ''all'' 3)" using hash.put [OF t(2)] by blast
  then have "table_ok (snd (hash_create (hash_put t ''all'' 3) ''x.o''))"
    using hash.create by (metis prod.collapse)
  then show ?thesis using enum_all_entries t(1) by fastforce
qed

lemma hash_of_example: "hash_of ''all'' = 96673"
  by code_simp

end
