(* ===== verification/Buf.thy ===== *)
theory Buf
  imports Libc
begin

text \<open>
  The byte buffers of the build tool, \<^verbatim>\<open>usr.bin/bmake/buf.c\<close> and the macros of
  \<^verbatim>\<open>buf.h\<close>: the pointers into the memory of a buffer are offsets, bytes that have not
  been written are \<open>None\<close>, and a write outside the memory has no result.
\<close>

subsection \<open>Buffers\<close>

record buffer =
  bsize :: int
  left :: int
  mem :: "char option list"
  inPtr :: nat
  outPtr :: nat

definition poke :: "nat \<Rightarrow> char \<Rightarrow> buffer \<Rightarrow> buffer option" where
  "poke i c b = (if i < length (mem b) then Some (b\<lparr>mem := (mem b)[i := Some c]\<rparr>) else None)"

text \<open>The size is doubled until there is room; \<^verbatim>\<open>erealloc\<close> keeps the old bytes.\<close>

partial_function (option) BufExpand :: "int \<Rightarrow> buffer \<Rightarrow> buffer option" where
  "BufExpand nb b =
     (if left b < nb + 1
      then (if 2 * bsize b < 2 ^ 31
            then let n = 2 * bsize b
                 in BufExpand nb (b\<lparr>mem := mem b @ replicate (nat n - length (mem b)) None, bsize := n, left := n - int (inPtr b)\<rparr>)
            else None)
      else Some b)"

declare BufExpand.simps [code]

definition Buf_OvAddByte :: "char \<Rightarrow> buffer \<Rightarrow> buffer option" where
  "Buf_OvAddByte c b =
     do { b \<leftarrow> BufExpand 1 (b\<lparr>left := 0\<rparr>);
          b \<leftarrow> poke (inPtr b) c b;
          let b = b\<lparr>inPtr := inPtr b + 1, left := left b - 1\<rparr>;
          poke (inPtr b) NUL b }"

definition Buf_AddByte :: "char \<Rightarrow> buffer \<Rightarrow> buffer option" where
  "Buf_AddByte c b =
     (let b = b\<lparr>left := left b - 1\<rparr> in
      if left b \<le> 0 then Buf_OvAddByte c b
      else do { b \<leftarrow> poke (inPtr b) c b;
                let b = b\<lparr>inPtr := inPtr b + 1\<rparr>;
                poke (inPtr b) NUL b })"

fun poke_all :: "nat \<Rightarrow> string \<Rightarrow> buffer \<Rightarrow> buffer option" where
  "poke_all i [] b = Some b"
| "poke_all i (c # cs) b = do { b \<leftarrow> poke i c b; poke_all (i + 1) cs b }"

text \<open>\<open>bytes\<close> are the \<^verbatim>\<open>numBytes\<close> bytes at the pointer.\<close>

definition Buf_AddBytes :: "string \<Rightarrow> buffer \<Rightarrow> buffer option" where
  "Buf_AddBytes bytes b =
     do { b \<leftarrow> BufExpand (int (length bytes)) b;
          b \<leftarrow> poke_all (inPtr b) bytes b;
          let b = b\<lparr>inPtr := inPtr b + length bytes, left := left b - int (length bytes)\<rparr>;
          poke (inPtr b) NUL b }"

text \<open>The memory from \<^verbatim>\<open>outPtr\<close> on, and the number of bytes in the buffer.\<close>

definition Buf_GetAll :: "buffer \<Rightarrow> char option list \<times> int" where
  "Buf_GetAll b = (drop (outPtr b) (mem b), int (inPtr b) - int (outPtr b))"

definition Buf_Size :: "buffer \<Rightarrow> int" where
  "Buf_Size b = int (inPtr b) - int (outPtr b)"

definition Buf_Discard :: "int \<Rightarrow> buffer \<Rightarrow> buffer option" where
  "Buf_Discard n b =
     (if int (inPtr b) - int (outPtr b) \<le> n
      then poke 0 NUL (b\<lparr>inPtr := 0, outPtr := 0, left := bsize b\<rparr>)
      else if int (outPtr b) + n < 0 then None
      else Some (b\<lparr>outPtr := nat (int (outPtr b) + n)\<rparr>))"

definition BUF_DEF_SIZE :: int where
  "BUF_DEF_SIZE = 256"

definition Buf_Init :: "int \<Rightarrow> buffer option" where
  "Buf_Init n =
     (let n = (if n \<le> 0 then BUF_DEF_SIZE else n)
      in poke 0 NUL \<lparr>bsize = n, left = n, mem = replicate (nat n) None, inPtr = 0, outPtr = 0\<rparr>)"

text \<open>The buffer is gone; its memory stays if the data are not to be freed.\<close>

definition Buf_Destroy :: "buffer \<Rightarrow> bool \<Rightarrow> char option list option" where
  "Buf_Destroy b freeData = (if freeData then None else Some (mem b))"

definition Buf_ReplaceLastByte :: "char \<Rightarrow> buffer \<Rightarrow> buffer option" where
  "Buf_ReplaceLastByte c b =
     (if inPtr b = outPtr b then Buf_AddByte c b
      else if inPtr b = 0 then None else poke (inPtr b - 1) c b)"

subsection \<open>The bytes in a buffer\<close>

definition buf_ok :: "buffer \<Rightarrow> bool" where
  "buf_ok b =
     (0 < bsize b \<and> length (mem b) = nat (bsize b) \<and> left b = bsize b - int (inPtr b) \<and> outPtr b \<le> inPtr b \<and>
      inPtr b < length (mem b) \<and> mem b ! inPtr b = Some NUL \<and> None \<notin> set (take (inPtr b) (mem b)))"

definition bytes_of :: "buffer \<Rightarrow> string" where
  "bytes_of b = map the (drop (outPtr b) (take (inPtr b) (mem b)))"

text \<open>A buffer \<open>b\<close> that can grow by \<open>n\<close> bytes: its size stays below the range of \<^verbatim>\<open>int\<close>.\<close>

definition room :: "nat \<Rightarrow> buffer \<Rightarrow> bool" where
  "room n b = (2 * (int (inPtr b) + int n + 1) < 2 ^ 31)"

lemma bytes_of_length [simp]: "buf_ok b \<Longrightarrow> length (bytes_of b) = inPtr b - outPtr b"
  by (simp add: bytes_of_def buf_ok_def)

lemma BufExpand_ok:
  assumes "0 < bsize b" "length (mem b) = nat (bsize b)"
    "left b = bsize b - int (inPtr b) \<or> left b = 0 \<and> bsize b < int (inPtr b) + nb + 1"
    "2 * (int (inPtr b) + nb + 1) < 2 ^ 31" "0 \<le> nb"
  shows "\<exists>b'. BufExpand nb b = Some b' \<and> (\<exists>k. mem b' = mem b @ replicate k None) \<and> inPtr b' = inPtr b \<and> outPtr b' = outPtr b \<and>
    length (mem b') = nat (bsize b') \<and> left b' = bsize b' - int (inPtr b') \<and> left b' \<ge> nb + 1 \<and> 0 < bsize b'"
  using assms
proof (induction "nat (2 ^ 31 - bsize b)" arbitrary: b rule: less_induct)
  case less
  show ?case
  proof (cases "left b < nb + 1")
    case True
    let ?n = "2 * bsize b"
    let ?b = "b\<lparr>mem := mem b @ replicate (nat ?n - length (mem b)) None, bsize := ?n, left := ?n - int (inPtr b)\<rparr>"
    have small: "bsize b < int (inPtr b) + nb + 1" using True less.prems(3) by auto
    then have n: "?n < 2 ^ 31" using less.prems(4) by simp
    have "nat (2 ^ 31 - bsize ?b) < nat (2 ^ 31 - bsize b)" using n less.prems(1) by simp
    moreover have "length (mem ?b) = nat (bsize ?b)" using less.prems(1,2) by simp
    ultimately obtain b' k where b': "BufExpand nb ?b = Some b'" "mem b' = mem ?b @ replicate k None" "inPtr b' = inPtr b"
        "outPtr b' = outPtr b" "length (mem b') = nat (bsize b')" "left b' = bsize b' - int (inPtr b')" "left b' \<ge> nb + 1"
        "0 < bsize b'"
      using less.hyps [of ?b] less.prems by auto
    have "BufExpand nb b = Some b'" using True n b'(1) by (subst BufExpand.simps) (simp add: Let_def)
    moreover have "\<exists>k. mem b' = mem b @ replicate k None" unfolding b'(2) by (auto simp: replicate_add [symmetric])
    ultimately show ?thesis using b'(3-8) by blast
  next
    case False
    then have "left b = bsize b - int (inPtr b)" using less.prems(3,5) by auto
    then show ?thesis using False less.prems by (subst BufExpand.simps) (auto intro!: exI [of _ 0])
  qed
qed

lemma poke_all_ok:
  "i + length cs \<le> length (mem b) \<Longrightarrow>
   poke_all i cs b = Some (b\<lparr>mem := take i (mem b) @ map Some cs @ drop (i + length cs) (mem b)\<rparr>)"
proof (induction cs arbitrary: i b)
  case (Cons c cs)
  then have "i < length (mem b)" by simp
  then have "take (Suc i) ((mem b)[i := Some c]) = take i (mem b) @ [Some c]" by (simp add: take_Suc_conv_app_nth)
  then show ?case using Cons by (simp add: poke_def drop_update_cancel)
qed simp

text \<open>The memory after the bytes \<open>cs\<close> and a NUL have been written at \<^verbatim>\<open>inPtr\<close>.\<close>

definition written :: "string \<Rightarrow> buffer \<Rightarrow> buffer \<Rightarrow> bool" where
  "written cs b b' =
     (buf_ok b' \<and> inPtr b' = inPtr b + length cs \<and> outPtr b' = outPtr b \<and>
      take (inPtr b') (mem b') = take (inPtr b) (mem b) @ map Some cs)"

lemma written_bytes:
  assumes "buf_ok b" "written cs b b'"
  shows "buf_ok b' \<and> bytes_of b' = bytes_of b @ cs"
  using assms by (auto simp: written_def bytes_of_def buf_ok_def comp_def)

lemma write_ok:
  assumes "buf_ok b" "mem b1 = mem b @ replicate k None" "inPtr b1 = inPtr b" "outPtr b1 = outPtr b"
    "length (mem b1) = nat (bsize b1)" "left b1 = bsize b1 - int (inPtr b1)" "left b1 \<ge> int (length cs) + 1" "0 < bsize b1"
  shows "\<exists>b'. (do { b \<leftarrow> poke_all (inPtr b1) cs b1;
                   let b = b\<lparr>inPtr := inPtr b + length cs, left := left b - int (length cs)\<rparr>;
                   poke (inPtr b) NUL b }) = Some b' \<and> written cs b b'"
proof -
  have len: "inPtr b1 + length cs < length (mem b1)" using assms(5-8) by simp
  let ?m = "take (inPtr b1) (mem b1) @ map Some cs @ drop (inPtr b1 + length cs) (mem b1)"
  let ?b = "b1\<lparr>mem := ?m[inPtr b1 + length cs := Some NUL], inPtr := inPtr b1 + length cs, left := left b1 - int (length cs)\<rparr>"
  have old: "take (inPtr b) (mem b1) = take (inPtr b) (mem b)" "inPtr b < length (mem b)"
    using assms(1,2) by (auto simp: buf_ok_def)
  have lm: "length ?m = length (mem b1)" using len by simp
  have "take (inPtr b1 + length cs) (?m[inPtr b1 + length cs := Some NUL]) = take (inPtr b) (mem b) @ map Some cs"
    using len old assms(3) by (simp add: take_append)
  then have "written cs b ?b"
    using assms(1,3-8) len lm unfolding written_def buf_ok_def by (auto simp: nth_append)
  moreover have "poke_all (inPtr b1) cs b1 = Some (b1\<lparr>mem := ?m\<rparr>)" using len by (intro poke_all_ok) simp
  then have "(do { b \<leftarrow> poke_all (inPtr b1) cs b1;
                   let b = b\<lparr>inPtr := inPtr b + length cs, left := left b - int (length cs)\<rparr>;
                   poke (inPtr b) NUL b }) = Some ?b"
    using len lm by (simp add: Let_def poke_def)
  ultimately show ?thesis by blast
qed

lemma Buf_AddBytes_written:
  assumes "buf_ok b" "room (length cs) b"
  shows "\<exists>b'. Buf_AddBytes cs b = Some b' \<and> written cs b b'"
proof -
  obtain b1 k where b1: "BufExpand (int (length cs)) b = Some b1" "mem b1 = mem b @ replicate k None" "inPtr b1 = inPtr b"
      "outPtr b1 = outPtr b" "length (mem b1) = nat (bsize b1)" "left b1 = bsize b1 - int (inPtr b1)"
      "left b1 \<ge> int (length cs) + 1" "0 < bsize b1"
    using BufExpand_ok [of b "int (length cs)"] assms by (auto simp: buf_ok_def room_def)
  obtain b' where b': "(do { b \<leftarrow> poke_all (inPtr b1) cs b1;
                   let b = b\<lparr>inPtr := inPtr b + length cs, left := left b - int (length cs)\<rparr>;
                   poke (inPtr b) NUL b }) = Some b'" "written cs b b'"
    using write_ok [OF assms(1) b1(2-8)] by blast
  then show ?thesis using b1(1) by (simp add: Buf_AddBytes_def)
qed

text \<open>Adding bytes appends them, however small the buffer is.\<close>

theorem Buf_AddBytes_appends:
  assumes "buf_ok b" "room (length cs) b"
  shows "\<exists>b'. Buf_AddBytes cs b = Some b' \<and> buf_ok b' \<and> bytes_of b' = bytes_of b @ cs"
  using Buf_AddBytes_written [OF assms] written_bytes [OF assms(1)] by blast

theorem Buf_AddByte_appends:
  assumes "buf_ok b" "room 1 b"
  shows "\<exists>b'. Buf_AddByte c b = Some b' \<and> buf_ok b' \<and> bytes_of b' = bytes_of b @ [c]"
proof (cases "left b \<le> 1")
  case True
  obtain b1 k where b1: "BufExpand 1 (b\<lparr>left := 0\<rparr>) = Some b1" "mem b1 = mem b @ replicate k None" "inPtr b1 = inPtr b"
      "outPtr b1 = outPtr b" "length (mem b1) = nat (bsize b1)" "left b1 = bsize b1 - int (inPtr b1)"
      "left b1 \<ge> int (length [c]) + 1" "0 < bsize b1"
    using BufExpand_ok [of "b\<lparr>left := 0\<rparr>" 1] assms True by (auto simp: buf_ok_def room_def)
  obtain b' where b': "(do { b \<leftarrow> poke_all (inPtr b1) [c] b1;
                   let b = b\<lparr>inPtr := inPtr b + length [c], left := left b - int (length [c])\<rparr>;
                   poke (inPtr b) NUL b }) = Some b'" "written [c] b b'"
    using write_ok [OF assms(1) b1(2-8)] by blast
  then have "Buf_AddByte c b = Some b'" using b1(1) True by (simp add: Buf_AddByte_def Buf_OvAddByte_def)
  then show ?thesis using written_bytes [OF assms(1) b'(2)] by blast
next
  case False
  let ?b1 = "b\<lparr>left := left b - 1\<rparr>"
  obtain b' where b': "(do { b \<leftarrow> poke_all (inPtr b) [c] b;
                   let b = b\<lparr>inPtr := inPtr b + length [c], left := left b - int (length [c])\<rparr>;
                   poke (inPtr b) NUL b }) = Some b'" "written [c] b b'"
    using write_ok [OF assms(1), of b 0 "[c]"] assms(1) False by (auto simp: buf_ok_def)
  have "Buf_AddByte c b = Some b'" using b'(1) False by (auto simp: Buf_AddByte_def poke_def Let_def split: if_splits)
  then show ?thesis using written_bytes [OF assms(1) b'(2)] by blast
qed

text \<open>Discarding takes bytes from the front; discarding all of them starts anew at the front.\<close>

theorem Buf_Discard_drops:
  assumes "buf_ok b" "0 \<le> n"
  shows "\<exists>b'. Buf_Discard n b = Some b' \<and> buf_ok b' \<and> bytes_of b' = drop (nat n) (bytes_of b)"
proof (cases "int (inPtr b) - int (outPtr b) \<le> n")
  case True
  then have "drop (nat n) (bytes_of b) = []" using assms by (simp add: nat_le_iff)
  then show ?thesis using True assms by (auto simp: Buf_Discard_def poke_def buf_ok_def bytes_of_def)
next
  case False
  let ?b = "b\<lparr>outPtr := nat (int (outPtr b) + n)\<rparr>"
  have o: "nat (int (outPtr b) + n) = nat n + outPtr b" using assms(2) by simp
  have "buf_ok ?b" using assms(1) False o by (simp add: buf_ok_def)
  moreover have "bytes_of ?b = drop (nat n) (bytes_of b)" by (simp add: bytes_of_def o drop_map)
  ultimately show ?thesis using False assms(2) by (simp add: Buf_Discard_def)
qed

theorem Buf_Init_empty: "\<exists>b. Buf_Init n = Some b \<and> buf_ok b \<and> bytes_of b = []"
  by (auto simp: Buf_Init_def BUF_DEF_SIZE_def poke_def buf_ok_def bytes_of_def Let_def)

theorem Buf_ReplaceLastByte_ok:
  assumes "buf_ok b" "room 1 b"
  shows "\<exists>b'. Buf_ReplaceLastByte c b = Some b' \<and> buf_ok b' \<and> bytes_of b' = butlast (bytes_of b) @ [c]"
proof (cases "inPtr b = outPtr b")
  case True
  then have "bytes_of b = []" by (simp add: bytes_of_def)
  then show ?thesis using Buf_AddByte_appends [OF assms, of c] True by (simp add: Buf_ReplaceLastByte_def)
next
  case False
  then obtain i where i: "inPtr b = Suc i" "outPtr b \<le> i" "i < length (mem b)" using assms(1) by (cases "inPtr b") (auto simp: buf_ok_def)
  have "bytes_of b = map the (drop (outPtr b) (take i (mem b))) @ [the (mem b ! i)]"
    using i by (simp add: bytes_of_def take_Suc_conv_app_nth)
  moreover have "bytes_of (b\<lparr>mem := (mem b)[i := Some c]\<rparr>) = map the (drop (outPtr b) (take i (mem b))) @ [c]"
    using i by (simp add: bytes_of_def take_Suc_conv_app_nth)
  moreover have "buf_ok (b\<lparr>mem := (mem b)[i := Some c]\<rparr>)"
    using assms(1) i by (auto simp: buf_ok_def take_Suc_conv_app_nth)
  ultimately show ?thesis using False i by (simp add: Buf_ReplaceLastByte_def poke_def)
qed

text \<open>The bytes in the buffer are behind \<^verbatim>\<open>outPtr\<close>, with a NUL after them.\<close>

theorem Buf_GetAll_string:
  assumes "buf_ok b"
  shows "\<exists>rest. fst (Buf_GetAll b) = map Some (bytes_of b) @ Some NUL # rest"
    "snd (Buf_GetAll b) = int (length (bytes_of b))"
proof -
  have p: "outPtr b \<le> inPtr b" "inPtr b < length (mem b)" "mem b ! inPtr b = Some NUL" "None \<notin> set (take (inPtr b) (mem b))"
    using assms(1) by (simp_all add: buf_ok_def)
  have "mem b = take (inPtr b) (mem b) @ Some NUL # drop (Suc (inPtr b)) (mem b)"
    using id_take_nth_drop [OF p(2)] p(3) by simp
  then have "drop (outPtr b) (mem b) = drop (outPtr b) (take (inPtr b) (mem b)) @ Some NUL # drop (Suc (inPtr b)) (mem b)"
    using p(1,2) by (metis drop_append diff_is_0_eq drop0 length_take min.absorb4)
  moreover have "drop (outPtr b) (take (inPtr b) (mem b)) = map Some (bytes_of b)"
  proof -
    have "x \<noteq> None" if "x \<in> set (drop (outPtr b) (take (inPtr b) (mem b)))" for x
      using in_set_dropD [OF that] p(4) by metis
    then show ?thesis by (simp add: bytes_of_def map_idI)
  qed
  ultimately show "\<exists>rest. fst (Buf_GetAll b) = map Some (bytes_of b) @ Some NUL # rest" by (simp add: Buf_GetAll_def)
  show "snd (Buf_GetAll b) = int (length (bytes_of b))" using assms(1) p(1) by (simp add: Buf_GetAll_def)
qed

end
