(* ===== verification/Makestr.thy ===== *)
theory Makestr
  imports Buf
begin

text \<open>
  The string functions of the build tool, \<^verbatim>\<open>usr.bin/bmake/str.c\<close>: joining, breaking a
  line into words, searching, matching with wild cards and the \<^verbatim>\<open>%\<close> substitution.
\<close>

subsection \<open>Joining\<close>

definition STR_ADDSPACE :: u32 where "STR_ADDSPACE = 1"
definition STR_ADDSLASH :: u32 where "STR_ADDSLASH = 4"

definition str_concat :: "cstring \<Rightarrow> cstring \<Rightarrow> u32 \<Rightarrow> cstring" where
  "str_concat s1 s2 flags =
     (if and flags STR_ADDSPACE \<noteq> 0 then s1 @ '' '' @ s2
      else if and flags STR_ADDSLASH \<noteq> 0 then s1 @ ''/'' @ s2
      else s1 @ s2)"

subsection \<open>Breaking into words\<close>

text \<open>
  \<open>buf\<close> is what has been written to the copy of the string, up to the pointer \<^verbatim>\<open>t\<close>;
  \<open>start\<close> and the words in \<open>argv\<close> are offsets into it. The array of the words grows as
  it must.
\<close>

definition is_quote :: "char \<Rightarrow> bool" where
  "is_quote c = (c = DQ \<or> c = CHR 0x27)"

definition is_blank :: "char \<Rightarrow> bool" where
  "is_blank c = (c = CHR '' '' \<or> c = CHR 0x09)"

definition put_char :: "char \<Rightarrow> nat option \<times> string \<Rightarrow> nat option \<times> string" where
  "put_char c sb = (case sb of (start, buf) \<Rightarrow> (Some (case start of None \<Rightarrow> length buf | Some s \<Rightarrow> s), buf @ [c]))"

definition escape_char :: "char \<Rightarrow> char" where
  "escape_char c =
     (if c = CHR ''b'' then CHR 0x08 else if c = CHR ''f'' then CHR 0x0C else if c = CHR ''n'' then NL
      else if c = CHR ''r'' then CHR 0x0D else if c = CHR ''t'' then CHR 0x09 else c)"

fun brk_loop :: "bool \<Rightarrow> cstring \<Rightarrow> char option \<Rightarrow> nat option \<times> string \<Rightarrow> nat list \<Rightarrow> (nat list \<times> string) option" where
  "brk_loop expand [] q sb argv =
     (case sb of (None, buf) \<Rightarrow> Some (argv, buf) | (Some s, buf) \<Rightarrow> Some (argv @ [s], buf @ [NUL]))"
| "brk_loop expand (c # p) q sb argv =
     (if is_quote c then
        (if q \<noteq> None \<and> q \<noteq> Some c then brk_loop expand p q (put_char c sb) argv
         else if q = None \<and> fst sb = None \<and> deref p = c
              then brk_loop expand p (Some c) (put_char c (Some (length (snd sb) + 1), snd sb)) argv
         else brk_loop expand p (if q = None then Some c else None) (if expand then sb else put_char c sb) argv)
      else if is_blank c \<or> c = NL then
        (if q \<noteq> None then brk_loop expand p q (put_char c sb) argv
         else (case sb of
                 (None, buf) \<Rightarrow> brk_loop expand p q sb argv
               | (Some s, buf) \<Rightarrow>
                   if c = NL then Some (argv @ [s], buf @ [NUL])
                   else brk_loop expand p q (None, buf @ [NUL]) (argv @ [s])))
      else if c = CHR 0x5C then
        (if \<not> expand then
           (case p of
              [] \<Rightarrow> None
            | d # p \<Rightarrow> brk_loop expand p q (put_char d (put_char CHR 0x5C sb)) argv)
         else if p = [] \<or> deref p = NL then brk_loop expand p q (put_char CHR 0x5C sb) argv
         else (case p of
                 [] \<Rightarrow> None
               | d # p \<Rightarrow> brk_loop expand p q (put_char (escape_char d) sb) argv))
      else brk_loop expand p q (put_char c sb) argv)"

text \<open>The words are in the copy, each up to its NUL. The first one starts at the start of the copy.\<close>

definition brk_string :: "cstring \<Rightarrow> bool \<Rightarrow> cstring list option" where
  "brk_string str expand =
     do { (argv, buf) \<leftarrow> brk_loop expand (dropWhile is_blank str) None (Some 0, []) [];
          Some (map (\<lambda>s. c_str (drop s buf)) argv) }"

subsection \<open>Searching\<close>

fun sub_at :: "cstring \<Rightarrow> cstring \<Rightarrow> bool" where
  "sub_at a [] = True"
| "sub_at [] (c # b) = False"
| "sub_at (d # a) (c # b) = (if d \<noteq> c then False else sub_at a b)"

fun Str_FindSubstring :: "cstring \<Rightarrow> cstring \<Rightarrow> cstring option" where
  "Str_FindSubstring [] substring = None"
| "Str_FindSubstring (c # string) substring =
     (if c \<noteq> deref substring then Str_FindSubstring string substring
      else if sub_at (c # string) substring then Some (c # string)
      else Str_FindSubstring string substring)"

subsection \<open>Wild cards\<close>

text \<open>The characters are compared as signed ones, as on i386.\<close>

definition schar :: "char \<Rightarrow> int" where
  "schar c = (if byte c < 128 then int (byte c) else int (byte c) - 256)"

definition in_range :: "char \<Rightarrow> char \<Rightarrow> char \<Rightarrow> bool" where
  "in_range x c y = (schar x \<le> schar c \<and> schar y \<ge> schar c \<or> schar x \<ge> schar c \<and> schar y \<le> schar c)"

text \<open>Where the character is accepted in the list behind a bracket, or \<open>None\<close> if it is not.\<close>

fun bracket_at :: "char \<Rightarrow> cstring \<Rightarrow> cstring option" where
  "bracket_at c [] = None"
| "bracket_at c (x # p) =
     (if x = CHR '']'' then None
      else if x = c then Some (x # p)
      else (case p of
              d # y # r \<Rightarrow>
                if d = CHR ''-'' then (if in_range x c y then Some (x # p) else bracket_at c r)
                else bracket_at c p
            | [d] \<Rightarrow> if d = CHR ''-'' then None else bracket_at c p
            | [] \<Rightarrow> None))"

lemma bracket_at_length: "bracket_at c p = Some r \<Longrightarrow> length r \<le> length p"
proof (induction c p rule: bracket_at.induct)
  case (2 c x p)
  show ?case
  proof (cases "x = CHR '']'' \<or> x = c")
    case False
    show ?thesis
    proof (cases p)
      case (Cons d q)
      show ?thesis
      proof (cases "d = CHR ''-''")
        case True
        then show ?thesis using 2 False Cons by (cases q) (fastforce split: if_splits)+
      next
        case d: False
        then have "bracket_at c p = Some r" using "2.prems" False Cons by (cases q) auto
        moreover have "bracket_at c p = Some r \<Longrightarrow> length r \<le> length p"
          using "2.IH" False d Cons by (cases q) auto
        ultimately show ?thesis by simp
      qed
    qed (use "2.prems" False in simp)
  qed (use "2.prems" in \<open>auto split: if_splits\<close>)
qed simp

lemma dropWhile_length: "dropWhile P xs = y # r \<Longrightarrow> length r < length xs"
  by (metis dual_order.strict_trans1 length_Cons length_dropWhile_le lessI)

text \<open>
  \<open>None\<close> is a pattern that is read behind its end: in the code the pointer goes on behind
  the NUL when a bracket is not closed.
\<close>

function Str_Match :: "cstring \<Rightarrow> cstring \<Rightarrow> bool option" and star_match :: "cstring \<Rightarrow> cstring \<Rightarrow> bool option" where
  "Str_Match s p =
     (case p of
        [] \<Rightarrow> Some (s = [])
      | c # p' \<Rightarrow>
          if s = [] \<and> c \<noteq> CHR ''*'' then Some False
          else if c = CHR ''*'' then (if p' = [] then Some True else star_match s p')
          else if c = CHR ''?'' then Str_Match (tl s) p'
          else if c = CHR ''['' then
            (case bracket_at (deref s) p' of
               None \<Rightarrow> Some False
             | Some r \<Rightarrow> (case dropWhile (\<lambda>x. x \<noteq> CHR '']'') r of
                            [] \<Rightarrow> None
                          | _ # r \<Rightarrow> Str_Match (tl s) r))
          else if c = CHR 0x5C then
            (case p' of [] \<Rightarrow> Some False | d # r \<Rightarrow> if d \<noteq> deref s then Some False else Str_Match (tl s) r)
          else if c \<noteq> deref s then Some False else Str_Match (tl s) p')"
| "star_match s p =
     (case s of
        [] \<Rightarrow> Some False
      | c # s' \<Rightarrow> do { r \<leftarrow> Str_Match s p; if r then Some True else star_match s' p })"
  by pat_completeness auto

termination
  by (relation "measures [\<lambda>x. case x of Inl (s, p) \<Rightarrow> length p | Inr (s, p) \<Rightarrow> length p,
      \<lambda>x. case x of Inl (s, p) \<Rightarrow> 2 * length s | Inr (s, p) \<Rightarrow> 2 * length s + 1]")
    (auto dest!: bracket_at_length dropWhile_length)

declare Str_Match.simps [simp del] star_match.simps [simp del]

subsection \<open>Suffix substitution\<close>

text \<open>\<^verbatim>\<open>strchr\<close>: what is before the character and what is behind it.\<close>

definition split_at_pct :: "cstring \<Rightarrow> (cstring \<times> cstring) option" where
  "split_at_pct p =
     (case dropWhile (\<lambda>c. c \<noteq> CHR ''%'') p of [] \<Rightarrow> None | _ # r \<Rightarrow> Some (takeWhile (\<lambda>c. c \<noteq> CHR ''%'') p, r))"

fun skip_prefix :: "cstring \<Rightarrow> cstring \<Rightarrow> cstring option" where
  "skip_prefix [] w = Some w"
| "skip_prefix (c # p) [] = None"
| "skip_prefix (c # p) (d # w) = (if d = c then skip_prefix p w else None)"

text \<open>The number of characters before the tail \<open>p\<close>.\<close>

fun tail_at :: "cstring \<Rightarrow> cstring \<Rightarrow> nat \<Rightarrow> nat option" where
  "tail_at p [] n = (if p = [] then Some n else None)"
| "tail_at p (c # w) n = (if p = c # w then Some n else tail_at p w (n + 1))"

text \<open>Where the part of the word for the \<^verbatim>\<open>%\<close> starts and how long it is.\<close>

definition Str_SYSVMatch :: "cstring \<Rightarrow> cstring \<Rightarrow> (cstring \<times> nat) option" where
  "Str_SYSVMatch word pattern =
     (if pattern = [] then Some (word, length word)
      else case split_at_pct pattern of
        None \<Rightarrow> map_option (\<lambda>n. (word, n)) (tail_at pattern word 0)
      | Some (pre, p) \<Rightarrow>
          (case skip_prefix pre word of
             None \<Rightarrow> None
           | Some w \<Rightarrow> if p = [] then Some (w, length w) else map_option (\<lambda>n. (w, n)) (tail_at p w 0)))"

text \<open>\<open>len\<close> bytes of \<open>src\<close>.\<close>

definition Str_SYSVSubst :: "buffer \<Rightarrow> cstring \<Rightarrow> cstring \<Rightarrow> nat \<Rightarrow> buffer option" where
  "Str_SYSVSubst buf pat src len =
     do { (buf, pat) \<leftarrow> (case split_at_pct pat of
                           None \<Rightarrow> Some (buf, pat)
                         | Some (pre, p) \<Rightarrow> do { buf \<leftarrow> Buf_AddBytes pre buf; Some (buf, p) });
          buf \<leftarrow> (if len \<le> length src then Buf_AddBytes (take len src) buf else None);
          Buf_AddBytes pat buf }"

text \<open>\<^verbatim>\<open>strrchr\<close>: what is before the last place of the character, and what is behind it.\<close>

definition strrchr :: "cstring \<Rightarrow> char \<Rightarrow> (cstring \<times> cstring) option" where
  "strrchr s c =
     (case dropWhile (\<lambda>d. d \<noteq> c) (rev s) of
        [] \<Rightarrow> None
      | _ # r \<Rightarrow> Some (rev r, rev (takeWhile (\<lambda>d. d \<noteq> c) (rev s))))"

end
