(* ===== verification/Makeglob.thy ===== *)
theory Makeglob
  imports Makestr
begin

text \<open>
  The string functions of \<^verbatim>\<open>usr.bin/bmake/str.c\<close> against what they are for: patterns
  against the sets of strings they stand for, words against quoting, substitution of a part of a word.
\<close>

subsection \<open>Patterns\<close>

datatype glob = Star | Quest | OneOf cstring | Lit char

function globs :: "cstring \<Rightarrow> glob list option" where
  "globs p =
     (case p of
        [] \<Rightarrow> Some []
      | c # p \<Rightarrow>
          if c = CHR ''*'' then map_option ((#) Star) (globs p)
          else if c = CHR ''?'' then map_option ((#) Quest) (globs p)
          else if c = CHR ''['' then
            (case dropWhile (\<lambda>x. x \<noteq> CHR '']'') p of
               [] \<Rightarrow> None
             | _ # r \<Rightarrow> map_option ((#) (OneOf (takeWhile (\<lambda>x. x \<noteq> CHR '']'') p))) (globs r))
          else if c = CHR 0x5C then (case p of [] \<Rightarrow> None | d # r \<Rightarrow> map_option ((#) (Lit d)) (globs r))
          else map_option ((#) (Lit c)) (globs p))"
  by auto
termination by (relation "measure length") (auto dest: dropWhile_length)

declare globs.simps [simp del]

lemma globs_Nil [simp]: "globs [] = Some []"
  by (simp add: globs.simps)

lemma globs_Cons [simp]:
  "globs (c # p) =
     (if c = CHR ''*'' then map_option ((#) Star) (globs p)
      else if c = CHR ''?'' then map_option ((#) Quest) (globs p)
      else if c = CHR ''['' then
        (case dropWhile (\<lambda>x. x \<noteq> CHR '']'') p of
           [] \<Rightarrow> None
         | _ # r \<Rightarrow> map_option ((#) (OneOf (takeWhile (\<lambda>x. x \<noteq> CHR '']'') p))) (globs r))
      else if c = CHR 0x5C then (case p of [] \<Rightarrow> None | d # r \<Rightarrow> map_option ((#) (Lit d)) (globs r))
      else map_option ((#) (Lit c)) (globs p))"
  by (subst globs.simps) simp

text \<open>The characters and ranges in brackets; a range must be complete.\<close>

fun class_ok :: "cstring \<Rightarrow> bool" where
  "class_ok [] = True"
| "class_ok (x # p) =
     (case p of
        [] \<Rightarrow> True
      | d # q \<Rightarrow> if d = CHR ''-'' then (case q of [] \<Rightarrow> False | y # r \<Rightarrow> class_ok r) else class_ok p)"

fun class_mem :: "char \<Rightarrow> cstring \<Rightarrow> bool" where
  "class_mem c [] = False"
| "class_mem c (x # p) =
     (c = x \<or>
      (case p of
         [] \<Rightarrow> False
       | d # q \<Rightarrow> if d = CHR ''-'' then (case q of [] \<Rightarrow> False | y # r \<Rightarrow> in_range x c y \<or> class_mem c r) else class_mem c p))"

fun glob_ok :: "glob \<Rightarrow> bool" where
  "glob_ok (OneOf b) = class_ok b"
| "glob_ok g = True"

fun char_match :: "glob \<Rightarrow> char \<Rightarrow> bool" where
  "char_match Star c = False"
| "char_match Quest c = True"
| "char_match (OneOf b) c = class_mem c b"
| "char_match (Lit d) c = (c = d)"

primrec gmatch :: "glob list \<Rightarrow> string \<Rightarrow> bool" where
  "gmatch [] = (\<lambda>s. s = [])"
| "gmatch (g # gs) =
     (\<lambda>s. if g = Star then list_ex (gmatch gs) (suffixes s)
          else (case s of [] \<Rightarrow> False | c # s \<Rightarrow> char_match g c \<and> gmatch gs s))"

lemma gmatch_Star: "gmatch (Star # gs) s \<longleftrightarrow> (\<exists>s'. suffix s' s \<and> gmatch gs s')"
  by (auto simp: list_ex_iff)

lemma gmatch_Nil: "gmatch gs [] \<longleftrightarrow> (\<forall>g \<in> set gs. g = Star)"
  by (induction gs) auto

lemma stars_end: "gs \<noteq> [] \<Longrightarrow> gmatch gs [] \<Longrightarrow> suffix [Star, Star] (Star # gs)"
proof -
  assume g: "gs \<noteq> []" "gmatch gs []"
  then have "gs = replicate (length gs) Star" by (simp add: gmatch_Nil replicate_length_same)
  moreover obtain n where "length gs = Suc n" using g(1) by (cases gs) auto
  ultimately have "Star # gs = replicate n Star @ [Star, Star]"
    by (metis append_Cons append_assoc append_Nil replicate_Suc replicate_append_same)
  then show ?thesis by (simp add: suffix_def)
qed

lemma bracket_at_class:
  "class_ok b \<Longrightarrow> CHR '']'' \<notin> set b \<Longrightarrow>
   (case bracket_at c (b @ CHR '']'' # r) of
      None \<Rightarrow> \<not> class_mem c b
    | Some q \<Rightarrow> class_mem c b \<and> dropWhile (\<lambda>x. x \<noteq> CHR '']'') q = CHR '']'' # r)"
proof (induction b rule: class_ok.induct)
  case (2 x p)
  have drop: "CHR '']'' \<notin> set q \<Longrightarrow> dropWhile (\<lambda>x. x \<noteq> CHR '']'') (q @ CHR '']'' # r) = CHR '']'' # r" for q
    by (induction q) auto
  have nx: "x \<noteq> CHR '']''" using "2.prems"(2) by auto
  show ?case
  proof (cases "x = c")
    case True
    then show ?thesis using "2.prems"(2) drop [of p] by auto
  next
    case False
    show ?thesis
    proof (cases p)
      case Nil
      then show ?thesis using False "2.prems"(2) by (cases r) auto
    next
      case (Cons d q)
      show ?thesis
      proof (cases "d = CHR ''-''")
        case True
        then obtain y q' where q: "q = y # q'" using "2.prems"(1) Cons by (cases q) auto
        show ?thesis
        proof (cases "in_range x c y")
          case True
          then show ?thesis using "2.prems"(2) drop [of q'] Cons q \<open>d = _\<close> False by auto
        next
          case nr: False
          have "case bracket_at c (q' @ CHR '']'' # r) of None \<Rightarrow> \<not> class_mem c q'
              | Some q \<Rightarrow> class_mem c q' \<and> dropWhile (\<lambda>x. x \<noteq> CHR '']'') q = CHR '']'' # r"
            using "2.IH"(1) [OF Cons True q] "2.prems" Cons q True by simp
          moreover have e: "bracket_at c ((x # p) @ CHR '']'' # r) = bracket_at c (q' @ CHR '']'' # r)"
              "class_mem c (x # p) = class_mem c q'"
            using "2.prems"(2) Cons q True False nr by auto
          ultimately show ?thesis by (simp only: e)
        qed
      next
        case d: False
        have IH: "case bracket_at c (p @ CHR '']'' # r) of None \<Rightarrow> \<not> class_mem c p
              | Some q \<Rightarrow> class_mem c p \<and> dropWhile (\<lambda>x. x \<noteq> CHR '']'') q = CHR '']'' # r"
          using "2.IH"(2) [OF Cons d] "2.prems" Cons d by simp
        have b: "bracket_at c ((x # p) @ CHR '']'' # r) = bracket_at c (p @ CHR '']'' # r)"
          using nx Cons d False by (cases q) simp_all
        have m: "class_mem c (x # p) = class_mem c p" using Cons d False by simp
        show ?thesis unfolding b m by (rule IH)
      qed
    qed
  qed
qed simp

lemma take_drop_stop: "dropWhile P p = y # r \<Longrightarrow> p = takeWhile P p @ y # r \<and> \<not> P y"
  by (metis hd_dropWhile list.distinct(1) list.sel(1) takeWhile_dropWhile_id)

lemma match_glob:
  "globs p = Some gs \<Longrightarrow> list_all glob_ok gs \<Longrightarrow> \<not> suffix [Star, Star] gs \<Longrightarrow> Str_Match s p = Some (gmatch gs s)"
  "globs p = Some gs \<Longrightarrow> list_all glob_ok gs \<Longrightarrow> \<not> suffix [Star, Star] gs \<Longrightarrow>
   star_match s p = Some (\<exists>s'. s' \<noteq> [] \<and> suffix s' s \<and> gmatch gs s')"
proof (induction s p and s p arbitrary: gs and gs rule: Str_Match_star_match.induct)
  case (1 s p)
  show ?case
  proof (cases p)
    case Nil
    then show ?thesis using "1.prems"(1) by (subst Str_Match.simps) auto
  next
    case (Cons c p')
    show ?thesis
    proof (cases "c = CHR ''*''")
      case True
      then obtain gs' where gs: "gs = Star # gs'" "globs p' = Some gs'" using "1.prems"(1) Cons by auto
      show ?thesis
      proof (cases "p' = []")
        case True
        then have "gs' = []" using gs(2) by simp
        then have "gmatch gs s" unfolding gs gmatch_Star by auto
        then show ?thesis using True Cons \<open>c = _\<close> by (subst Str_Match.simps) simp
      next
        case False
        then have ne: "gs' \<noteq> []" using gs(2) by (cases p') (auto split: if_splits list.splits)
        have suf: "\<not> suffix [Star, Star] gs'" using "1.prems"(3) gs(1) by (auto simp: suffix_def)
        have "\<not> gmatch gs' []" using stars_end [OF ne] "1.prems"(3) gs(1) by blast
        then have "(\<exists>t. t \<noteq> [] \<and> suffix t s \<and> gmatch gs' t) \<longleftrightarrow> gmatch gs s"
          unfolding gs gmatch_Star by (metis (no_types))
        moreover have "star_match s p' = Some (\<exists>t. t \<noteq> [] \<and> suffix t s \<and> gmatch gs' t)"
          using "1.IH"(1) [OF Cons _ True False gs(2) _ suf] "1.prems"(2) gs(1) True by simp
        ultimately show ?thesis using True False Cons by (subst Str_Match.simps) simp
      qed
    next
      case star: False
      show ?thesis
      proof (cases s)
        case Nil
        then have "gs \<noteq> [] \<and> hd gs \<noteq> Star" using star "1.prems"(1) Cons by (auto split: if_splits list.splits)
        then have "\<not> gmatch gs s" using Nil by (cases gs) simp_all
        then show ?thesis using Nil star Cons by (subst Str_Match.simps) simp
      next
        case s: (Cons d s')
        have step: "Str_Match s p = (if c = CHR ''?'' then Str_Match s' p'
            else if c = CHR ''['' then
              (case bracket_at d p' of
                 None \<Rightarrow> Some False
               | Some r \<Rightarrow> (case dropWhile (\<lambda>x. x \<noteq> CHR '']'') r of [] \<Rightarrow> None | _ # r \<Rightarrow> Str_Match s' r))
            else if c = CHR 0x5C then
              (case p' of [] \<Rightarrow> Some False | e # r \<Rightarrow> if e \<noteq> d then Some False else Str_Match s' r)
            else if c \<noteq> d then Some False else Str_Match s' p')"
          unfolding Cons s using star by (subst Str_Match.simps) (simp only: list.case deref_simps list.sel list.distinct simp_thms if_False)
        have nd: "\<not> (s = [] \<and> c \<noteq> CHR ''*'')" using s by simp
        have tl: "tl s = s'" using s by simp
        have tail: "\<not> suffix [Star, Star] gs'" "list_all glob_ok gs'" if "gs = g # gs'" for g gs'
          using "1.prems"(2,3) that by (auto simp: suffix_def)
        consider (q) "c = CHR ''?''" | (b) "c = CHR ''[''" | (e) "c = CHR 0x5C"
          | (l) "c \<noteq> CHR ''?''" "c \<noteq> CHR ''[''" "c \<noteq> CHR 0x5C" by blast
        then show ?thesis
        proof cases
          case q
          then obtain gs' where gs: "gs = Quest # gs'" "globs p' = Some gs'" using "1.prems"(1) Cons by auto
          have "Str_Match s' p' = Some (gmatch gs' s')"
            using "1.IH"(2) [OF Cons nd star q gs(2) tail(2,1) [OF gs(1)]] tl by simp
          then show ?thesis using step q gs s by simp
        next
          case b
          then obtain x r gs' where gs: "dropWhile (\<lambda>x. x \<noteq> CHR '']'') p' = x # r"
              "gs = OneOf (takeWhile (\<lambda>x. x \<noteq> CHR '']'') p') # gs'" "globs r = Some gs'"
            using "1.prems"(1) Cons by (auto split: list.splits)
          define body where "body = takeWhile (\<lambda>x. x \<noteq> CHR '']'') p'"
          note td = take_drop_stop [OF gs(1)]
          have x: "x = CHR '']''" using td by blast
          have p': "p' = body @ CHR '']'' # r" using td unfolding x body_def by blast
          have nb: "CHR '']'' \<notin> set body" unfolding body_def by (rule notI, drule set_takeWhileD) simp
          have ok: "class_ok body" using "1.prems"(2) gs(2) by (simp add: body_def)
          note br = bracket_at_class [OF ok nb, of d r, folded p']
          show ?thesis
          proof (cases "bracket_at d p'")
            case None
            then show ?thesis using step br b gs(2) s by (simp add: body_def)
          next
            case (Some u)
            then have u: "dropWhile (\<lambda>x. x \<noteq> CHR '']'') u = CHR '']'' # r" "class_mem d body" using br by simp_all
            have q: "c \<noteq> CHR ''?''" using b by simp
            have du: "bracket_at (deref s) p' = Some u" using Some s by simp
            have "Str_Match s' r = Some (gmatch gs' s')"
              using "1.IH"(3) [OF Cons nd star q b du u(1) gs(3) tail(2,1) [OF gs(2)]] tl by simp
            then show ?thesis using step b Some u gs(2) s by (simp add: body_def)
          qed
        next
          case e
          then obtain x r gs' where gs: "p' = x # r" "gs = Lit x # gs'" "globs r = Some gs'"
            using "1.prems"(1) Cons by (auto split: list.splits)
          have n: "c \<noteq> CHR ''?''" "c \<noteq> CHR ''[''" using e by simp_all
          have "x = d \<Longrightarrow> Str_Match s' r = Some (gmatch gs' s')"
            using "1.IH"(4) [OF Cons nd star n e gs(1) _ gs(3) tail(2,1) [OF gs(2)]] tl s by simp
          then show ?thesis using step e gs s by auto
        next
          case l
          then obtain gs' where gs: "gs = Lit c # gs'" "globs p' = Some gs'" using "1.prems"(1) Cons star by auto
          have "c = d \<Longrightarrow> Str_Match s' p' = Some (gmatch gs' s')"
            using "1.IH"(5) [OF Cons nd star l _ gs(2) tail(2,1) [OF gs(1)]] tl s by simp
          then show ?thesis using step l gs s by auto
        qed
      qed
    qed
  qed
next
  case (2 s p)
  show ?case
  proof (cases s)
    case Nil
    then show ?thesis by (subst star_match.simps) auto
  next
    case (Cons c s')
    then have m: "Str_Match s p = Some (gmatch gs s)" using "2.IH"(1) "2.prems" by simp
    have suf: "(\<exists>t. t \<noteq> [] \<and> suffix t s \<and> gmatch gs t) \<longleftrightarrow> gmatch gs s \<or> (\<exists>t. t \<noteq> [] \<and> suffix t s' \<and> gmatch gs t)"
      using Cons by (auto simp: suffix_Cons)
    show ?thesis
    proof (cases "gmatch gs s")
      case True
      then show ?thesis using m suf Cons by (subst star_match.simps) simp
    next
      case False
      have "star_match s' p = Some (\<exists>t. t \<noteq> [] \<and> suffix t s' \<and> gmatch gs t)"
        using "2.IH"(2) [OF Cons m False "2.prems"] .
      then show ?thesis using m suf Cons False by (subst star_match.simps) simp
    qed
  qed
qed

text \<open>
  C14. Matching is what the pattern means, and always ends without reading behind the pattern, when
  every bracket is closed, every range complete and there are not two stars at the end.
\<close>

theorem Str_Match_glob:
  assumes "globs p = Some gs" "list_all glob_ok gs" "\<not> suffix [Star, Star] gs"
  shows "Str_Match s p = Some (gmatch gs s)"
  using match_glob(1) [OF assms] .

theorem Str_Match_glob_witness:
  "Str_Match ''foo.c'' ''*[a-m]?.c'' = Some (gmatch [Star, OneOf ''a-m'', Quest, Lit CHR ''.'', Lit CHR ''c''] ''foo.c'')"
  by (rule Str_Match_glob; code_simp)

text \<open>Two stars do not match the empty string, and an open bracket is read behind its end.\<close>

theorem Str_Match_odd:
  "Str_Match [] ''**'' = Some False" "Str_Match [] ''*'' = Some True" "Str_Match ''ab'' ''[a'' = None"
  "Str_Match ''x'' ''[a-]x]'' = Some True"
  by code_simp+

subsection \<open>Searching\<close>

lemma sub_at_prefix: "sub_at a b \<longleftrightarrow> prefix b a"
  by (induction a b rule: sub_at.induct) auto

text \<open>The first place where the string is, if it is not empty.\<close>

theorem Str_FindSubstring_first:
  assumes "is_cstr s" "b \<noteq> []"
  shows "Str_FindSubstring s b = List.find (prefix b) (rev (suffixes s))"
  using assms(1)
proof (induction s)
  case Nil
  then show ?case using assms(2) by simp
next
  case (Cons c s)
  have "prefix b (c # s) \<Longrightarrow> c = deref b" using assms(2) by (cases b) simp_all
  then show ?case using Cons by (auto simp: sub_at_prefix)
qed

lemma Str_FindSubstring_empty: "is_cstr s \<Longrightarrow> Str_FindSubstring s [] = None"
  by (induction s) auto

subsection \<open>The substitution of suffixes\<close>

lemma split_at_pct_None: "split_at_pct p = None \<longleftrightarrow> CHR ''%'' \<notin> set p"
proof (cases "dropWhile (\<lambda>c. c \<noteq> CHR ''%'') p")
  case Nil
  then have "CHR ''%'' \<notin> set p" unfolding dropWhile_eq_Nil_conv by blast
  moreover have "split_at_pct p = None" unfolding split_at_pct_def Nil by simp
  ultimately show ?thesis by blast
next
  case (Cons y r)
  then have "p = takeWhile (\<lambda>c. c \<noteq> CHR ''%'') p @ CHR ''%'' # r" using take_drop_stop [OF Cons] by auto
  then have "CHR ''%'' \<in> set p" unfolding in_set_conv_decomp by blast
  then show ?thesis using Cons by (simp add: split_at_pct_def)
qed

lemma split_at_pct_Some: "split_at_pct p = Some (a, b) \<Longrightarrow> p = a @ CHR ''%'' # b"
  unfolding split_at_pct_def by (auto split: list.splits dest!: take_drop_stop)

lemma skip_prefix_iff: "skip_prefix p w = Some r \<longleftrightarrow> w = p @ r"
  by (induction p w rule: skip_prefix.induct) auto

lemma tail_at_Some: "tail_at p w n = Some k \<Longrightarrow> \<exists>m. w = m @ p \<and> k = n + length m"
proof (induction p w n rule: tail_at.induct)
  case (2 p c w n)
  show ?case
  proof (cases "p = c # w")
    case False
    then obtain m where "w = m @ p" "k = n + 1 + length m" using 2 by auto
    then show ?thesis by (intro exI [of _ "c # m"]) simp
  qed (use 2 in simp)
qed (simp split: if_splits)

lemma tail_at_append: "tail_at p (m @ p) n = Some (n + length m)"
proof (induction m arbitrary: n)
  case Nil
  then show ?case by (cases p) simp_all
next
  case (Cons c m)
  then show ?case by (auto dest: arg_cong [of _ _ length])
qed

text \<open>A word matches when the parts of the pattern are at its ends and do not overlap.\<close>

theorem Str_SYSVMatch_parts:
  assumes "split_at_pct pat = Some (pre, suf)"
  shows "Str_SYSVMatch w pat = Some (m, k) \<longleftrightarrow> (\<exists>stem. w = pre @ stem @ suf \<and> m = stem @ suf \<and> k = length stem)"
proof -
  have p: "pat \<noteq> []" using split_at_pct_Some [OF assms] by simp
  show ?thesis
  proof (cases "skip_prefix pre w")
    case None
    then have "w \<noteq> pre @ r" for r using skip_prefix_iff [of pre w r] by auto
    then show ?thesis using None p assms by (simp add: Str_SYSVMatch_def)
  next
    case (Some r)
    then have w: "w = pre @ r" by (simp add: skip_prefix_iff)
    show ?thesis
    proof (cases "suf = []")
      case True
      then show ?thesis using Some p assms w by (auto simp: Str_SYSVMatch_def)
    next
      case False
      have "tail_at suf r 0 = Some k \<longleftrightarrow> (\<exists>stem. r = stem @ suf \<and> k = length stem)"
        using tail_at_Some [of suf r 0 k] tail_at_append [of suf _ 0] by auto
      then show ?thesis using False Some p assms w by (auto simp: Str_SYSVMatch_def)
    qed
  qed
qed

text \<open>A matched word without the wild card: the pattern is a tail of the word.\<close>

lemma Str_SYSVMatch_tail:
  assumes "CHR ''%'' \<notin> set pat" "Str_SYSVMatch w pat = Some (m, k)"
  shows "m = w \<and> k \<le> length w \<and> w = take k w @ pat"
proof (cases "pat = []")
  case False
  then have "tail_at pat w 0 = Some k" "m = w"
    using assms split_at_pct_None [of pat] by (auto simp: Str_SYSVMatch_def)
  then show ?thesis using tail_at_Some [of pat w 0 k] by auto
qed (use assms in \<open>auto simp: Str_SYSVMatch_def\<close>)

lemma room_less: "room n b \<Longrightarrow> k \<le> n \<Longrightarrow> room k b"
  by (simp add: room_def)

lemma AddBytes_room:
  assumes "buf_ok b" "room n b" "length cs \<le> n"
  shows "\<exists>b'. Buf_AddBytes cs b = Some b' \<and> buf_ok b' \<and> bytes_of b' = bytes_of b @ cs \<and> room (n - length cs) b'"
proof -
  obtain b' where b': "Buf_AddBytes cs b = Some b'" "written cs b b'"
    using Buf_AddBytes_written [OF assms(1) room_less [OF assms(2,3)]] by blast
  have "room (n - length cs) b'" using b'(2) assms(2,3) by (simp add: written_def room_def)
  then show ?thesis using b' written_bytes [OF assms(1) b'(2)] by blast
qed

text \<open>
  What is put for the pattern is the pattern with the matched part for its wild card; a pattern
  without one is put behind it.
\<close>

theorem Str_SYSVSubst_appends:
  assumes "buf_ok b" "k \<le> length src" "room (length pat + k) b"
  shows "\<exists>b'. Str_SYSVSubst b pat src k = Some b' \<and> buf_ok b' \<and>
    bytes_of b' = bytes_of b @ (case split_at_pct pat of None \<Rightarrow> take k src @ pat | Some (pre, suf) \<Rightarrow> pre @ take k src @ suf)"
proof -
  define pre where "pre = (case split_at_pct pat of None \<Rightarrow> [] | Some (pre, suf) \<Rightarrow> pre)"
  define suf where "suf = (case split_at_pct pat of None \<Rightarrow> pat | Some (pre, suf) \<Rightarrow> suf)"
  have len: "length pre + (k + length suf) \<le> length pat + k"
    using split_at_pct_Some [of pat] by (auto simp: pre_def suf_def split: option.split)
  have room: "room (length pre + (k + length suf)) b" by (rule room_less [OF assms(3) len])
  obtain b1 where b1: "(case split_at_pct pat of None \<Rightarrow> Some (b, pat)
                         | Some (pre, p) \<Rightarrow> do { buf \<leftarrow> Buf_AddBytes pre b; Some (buf, p) }) = Some (b1, suf)"
      "buf_ok b1" "bytes_of b1 = bytes_of b @ pre" "room (k + length suf) b1"
    using AddBytes_room [OF assms(1) room, of pre] assms(1) room
    by (cases "split_at_pct pat") (auto simp: pre_def suf_def)
  obtain b2 where b2: "Buf_AddBytes (take k src) b1 = Some b2" "buf_ok b2" "bytes_of b2 = bytes_of b1 @ take k src"
      "room (length suf) b2"
    using AddBytes_room [OF b1(2,4), of "take k src"] assms(2) by auto
  obtain b3 where "Buf_AddBytes suf b2 = Some b3" "buf_ok b3" "bytes_of b3 = bytes_of b2 @ suf"
    using AddBytes_room [OF b2(2,4), of suf] by auto
  then show ?thesis
    using b1 b2 assms(2) by (auto simp: Str_SYSVSubst_def pre_def suf_def split: option.split)
qed

text \<open>C26. Putting the matched part into the same pattern gives the word again.\<close>

theorem SYSV_roundtrip:
  assumes "Str_SYSVMatch w pat = Some (m, k)" "buf_ok b" "room (length w + 1) b"
  shows "\<exists>b'. Str_SYSVSubst b pat m k = Some b' \<and> bytes_of b' = bytes_of b @ w"
proof (cases "split_at_pct pat")
  case None
  then have n: "m = w" "k \<le> length w" "w = take k w @ pat"
    using Str_SYSVMatch_tail [OF _ assms(1)] split_at_pct_None by blast+
  have "length w = k + length pat" using n(2,3) by (metis length_append length_take min.absorb2)
  then have "room (length pat + k) b" using room_less [OF assms(3)] by simp
  then show ?thesis using Str_SYSVSubst_appends [OF assms(2), of k m pat] n None by auto
next
  case (Some ps)
  obtain pre suf where ps: "ps = (pre, suf)" by fastforce
  then obtain stem where s: "w = pre @ stem @ suf" "m = stem @ suf" "k = length stem"
    using Str_SYSVMatch_parts [of pat pre suf w m k] Some assms(1) by auto
  have "length pat = length pre + 1 + length suf" using split_at_pct_Some [of pat pre suf] Some ps by simp
  then have "room (length pat + k) b" using room_less [OF assms(3)] s by simp
  then show ?thesis using Str_SYSVSubst_appends [OF assms(2), of k m pat] s Some ps by auto
qed

theorem SYSV_roundtrip_witness:
  "\<exists>b b'. Buf_Init 4 = Some b \<and> Str_SYSVSubst b ''lib%.a'' ''c.a'' 1 = Some b' \<and> bytes_of b' = ''libc.a''"
proof -
  obtain b where b: "Buf_Init 4 = Some b" "buf_ok b" "bytes_of b = []" using Buf_Init_empty by blast
  have "inPtr b = 0" using b(1) by (auto simp: Buf_Init_def poke_def Let_def)
  then have "room (length ''libc.a'' + 1) b" by (simp add: room_def)
  moreover have "Str_SYSVMatch ''libc.a'' ''lib%.a'' = Some (''c.a'', 1)" by code_simp
  ultimately show ?thesis using SYSV_roundtrip [of "''libc.a''" "''lib%.a''" "''c.a''" 1 b] b by auto
qed

subsection \<open>Words\<close>

text \<open>A word in double quotes, and a line of such words.\<close>

definition quoted :: "string \<Rightarrow> string" where
  "quoted w = DQ # concat (map (\<lambda>c. if c = DQ \<or> c = CHR 0x5C then [CHR 0x5C, c] else [c]) w) @ [DQ]"

fun line_of :: "string list \<Rightarrow> string" where
  "line_of [] = []"
| "line_of [w] = quoted w"
| "line_of (w # ws) = quoted w @ CHR '' '' # line_of ws"

definition words_in :: "nat list \<times> string \<Rightarrow> string list" where
  "words_in ab = (case ab of (argv, buf) \<Rightarrow> map (\<lambda>s. c_str (drop s buf)) argv)"

definition closed :: "nat list \<Rightarrow> string \<Rightarrow> bool" where
  "closed argv buf = (\<forall>s \<in> set argv. NUL \<in> set (drop s buf))"

lemma put_chars: "fold put_char w (Some s, buf) = (Some s, buf @ w)"
  "w \<noteq> [] \<Longrightarrow> fold put_char w (None, buf) = (Some (length buf), buf @ w)"
proof -
  show some: "fold put_char w (Some s, buf) = (Some s, buf @ w)" for w s buf
    by (induction w arbitrary: buf) (simp_all add: put_char_def)
  show "w \<noteq> [] \<Longrightarrow> fold put_char w (None, buf) = (Some (length buf), buf @ w)"
    by (cases w) (simp_all add: put_char_def some)
qed

lemma in_quotes:
  "brk_loop True (concat (map (\<lambda>c. if c = DQ \<or> c = CHR 0x5C then [CHR 0x5C, c] else [c]) w) @ DQ # r) (Some DQ) sb argv =
   brk_loop True r None (fold put_char w sb) argv"
  by (induction w arbitrary: sb) (auto simp: is_quote_def is_blank_def escape_char_def)

lemma read_quoted:
  assumes "st = None \<or> st = Some (length buf)"
  shows "\<exists>x s. brk_loop True (quoted w @ r) None (st, buf) argv = brk_loop True r None (Some s, buf @ x) argv \<and>
    drop s (buf @ x) = w \<and> s \<le> length (buf @ x)"
proof (cases "st = None \<and> w = []")
  case True
  then have "brk_loop True (quoted w @ r) None (st, buf) argv = brk_loop True r None (Some (length buf + 1), buf @ [DQ]) argv"
    by (simp add: quoted_def is_quote_def put_char_def)
  then show ?thesis using True by (intro exI [of _ "[DQ]"] exI [of _ "length buf + 1"]) simp
next
  case False
  have "deref (concat (map (\<lambda>c. if c = DQ \<or> c = CHR 0x5C then [CHR 0x5C, c] else [c]) w) @ DQ # r) \<noteq> DQ" if "w \<noteq> []"
    using that by (cases w) auto
  then have "brk_loop True (quoted w @ r) None (st, buf) argv = brk_loop True r None (fold put_char w (st, buf)) argv"
    using False by (auto simp: quoted_def is_quote_def in_quotes)
  moreover have "fold put_char w (st, buf) = (Some (length buf), buf @ w)"
    using assms False put_chars by auto
  ultimately show ?thesis by (intro exI [of _ w] exI [of _ "length buf"]) simp
qed

lemma words_in_append: "closed argv buf \<Longrightarrow> words_in (argv, buf @ x) = words_in (argv, buf)"
proof -
  assume c: "closed argv buf"
  have "c_str (drop s (buf @ x)) = c_str (drop s buf)" if "s \<in> set argv" for s
  proof -
    have "NUL \<in> set (drop s buf)" using c that by (simp add: closed_def)
    then show ?thesis unfolding c_str_def drop_append by (intro takeWhile_append1) auto
  qed
  then show ?thesis by (simp add: words_in_def)
qed

lemma words_in_end:
  assumes "closed argv buf" "drop s (buf @ x) = w" "is_cstr w" "s \<le> length (buf @ x)"
  shows "words_in (argv @ [s], buf @ x @ [NUL]) = words_in (argv, buf) @ [w]" "closed (argv @ [s]) (buf @ x @ [NUL])"
proof -
  have d: "drop s (buf @ x @ [NUL]) = w @ [NUL]"
    using assms(2,4) drop_append [of s "buf @ x" "[NUL]"] by simp
  have "c_str (w @ [NUL]) = w" using assms(3) by (simp add: c_str_def is_cstr_def takeWhile_append_stop)
  then have "words_in ([s], buf @ x @ [NUL]) = [w]" by (simp only: words_in_def prod.case list.map d)
  moreover have "words_in (argv @ [s], buf @ x @ [NUL]) = words_in (argv, buf @ x @ [NUL]) @ words_in ([s], buf @ x @ [NUL])"
    by (simp add: words_in_def)
  ultimately show "words_in (argv @ [s], buf @ x @ [NUL]) = words_in (argv, buf) @ [w]"
    using words_in_append [OF assms(1), of "x @ [NUL]"] by simp
  show "closed (argv @ [s]) (buf @ x @ [NUL])"
    unfolding closed_def
  proof
    fix t assume "t \<in> set (argv @ [s])"
    then consider "t \<in> set argv" | "t = s" by auto
    then show "NUL \<in> set (drop t (buf @ x @ [NUL]))"
      by cases (use assms(1) d in \<open>auto simp: closed_def simp del: drop_append\<close>, simp add: drop_append)
  qed
qed

lemma read_line:
  "st = None \<or> st = Some (length buf) \<Longrightarrow> closed argv buf \<Longrightarrow> ws \<noteq> [] \<Longrightarrow> list_all is_cstr ws \<Longrightarrow>
   \<exists>ab. brk_loop True (line_of ws) None (st, buf) argv = Some ab \<and> words_in ab = words_in (argv, buf) @ ws"
proof (induction ws arbitrary: st buf argv rule: line_of.induct)
  case (2 w)
  obtain x s where x: "brk_loop True (quoted w @ []) None (st, buf) argv = brk_loop True [] None (Some s, buf @ x) argv"
      "drop s (buf @ x) = w" "s \<le> length (buf @ x)"
    using read_quoted [OF "2.prems"(1)] by blast
  have "brk_loop True (line_of [w]) None (st, buf) argv = Some (argv @ [s], buf @ x @ [NUL])" using x(1) by simp
  moreover have "is_cstr w" using "2.prems"(4) by simp
  ultimately show ?case using words_in_end(1) [OF "2.prems"(2) x(2) _ x(3)] by blast
next
  case (3 w v ws)
  obtain x s where x: "brk_loop True (quoted w @ CHR '' '' # line_of (v # ws)) None (st, buf) argv =
        brk_loop True (CHR '' '' # line_of (v # ws)) None (Some s, buf @ x) argv"
      "drop s (buf @ x) = w" "s \<le> length (buf @ x)"
    using read_quoted [OF "3.prems"(1)] by blast
  have w: "is_cstr w" "list_all is_cstr (v # ws)" using "3.prems"(4) by simp_all
  note e = words_in_end [OF "3.prems"(2) x(2) w(1) x(3)]
  have "brk_loop True (line_of (w # v # ws)) None (st, buf) argv =
      brk_loop True (line_of (v # ws)) None (None, buf @ x @ [NUL]) (argv @ [s])"
    using x(1) by (simp add: is_quote_def is_blank_def)
  then show ?case using "3.IH" [of None "buf @ x @ [NUL]" "argv @ [s]"] e w(2) by simp
qed simp



text \<open>
  When quotes are kept, as for the modifiers of a variable, an empty word in quotes that is not
  the first loses one of them; a backslash at the end is read behind the end of the string; an
  empty line has an empty word.
\<close>

theorem brk_string_odd:
  "brk_string [CHR ''a'', CHR '' '', DQ, DQ] False = Some [''a'', [DQ]]"
  "brk_string [DQ, DQ, CHR '' '', CHR ''a''] False = Some [[DQ, DQ], ''a'']"
  "brk_string [CHR ''a'', CHR 0x5C] False = None"
  "brk_string [] expand = Some [[]]"
  by (code_simp, code_simp, code_simp, simp add: brk_string_def c_str_def)

end
