(* ===== verification/Condnum.thy ===== *)
theory Condnum
  imports Makestr
begin

text \<open>
  The numbers of the conditional directives: \<^verbatim>\<open>CondCvtArg\<close> of
  \<^verbatim>\<open>usr.bin/bmake/cond.c\<close>, with \<^verbatim>\<open>strtod\<close> of C89 (an optional sign, digits with
  a point, an exponent) and the doubles of IEEE 754, rounded to nearest, ties to even.
\<close>

subsection \<open>Doubles\<close>

text \<open>\<open>Finite m e\<close> is the number \<open>m * 2 ^ e\<close>.\<close>

datatype dbl = Finite int int | Infinite bool

fun log2_int :: "nat \<Rightarrow> int" where
  "log2_int n = (if n < 2 then 0 else 1 + log2_int (n div 2))"

declare log2_int.simps [simp del]

definition round_div :: "int \<Rightarrow> int \<Rightarrow> int" where
  "round_div n d =
     (let m = n div d; r = n mod d in
      if 2 * r < d then m else if 2 * r > d then m + 1 else if even m then m else m + 1)"

text \<open>The double nearest to \<open>a / b\<close>: 53 bits, the last bit not below that of the subnormal
  numbers; from \<open>2 ^ 1024\<close> on there is none.\<close>

definition to_double :: "bool \<Rightarrow> int \<Rightarrow> int \<Rightarrow> dbl" where
  "to_double neg a b =
     (if a = 0 then Finite 0 0
      else let k = log2_int (nat a) - log2_int (nat b);
               k = (if (if 0 \<le> k then b * 2 ^ nat k \<le> a else b \<le> a * 2 ^ nat (- k)) then k else k - 1);
               e = max (- 1074) (k - 52);
               m = (if 0 \<le> e then round_div a (b * 2 ^ nat e) else round_div (a * 2 ^ nat (- e)) b)
           in if 971 < e \<or> e = 971 \<and> m = 2 ^ 53 then Infinite neg
              else Finite (if neg then - m else m) e)"

fun dbl_less :: "dbl \<Rightarrow> dbl \<Rightarrow> bool" where
  "dbl_less (Finite m e) (Finite n f) = (m * 2 ^ nat (e - min e f) < n * 2 ^ nat (f - min e f))"
| "dbl_less (Finite m e) (Infinite b) = (\<not> b)"
| "dbl_less (Infinite a) (Finite n f) = a"
| "dbl_less (Infinite a) (Infinite b) = (a \<and> \<not> b)"

definition dbl_eq :: "dbl \<Rightarrow> dbl \<Rightarrow> bool" where
  "dbl_eq x y = (\<not> dbl_less x y \<and> \<not> dbl_less y x)"

subsection \<open>Reading a number\<close>

definition is_sign :: "char \<Rightarrow> bool" where
  "is_sign c = (c = CHR ''-'' \<or> c = CHR ''+'')"

definition digits_value :: "cstring \<Rightarrow> nat" where
  "digits_value s = fst (scan_digits 0 s)"

text \<open>The exponent, if a digit follows the letter.\<close>

definition scan_exp :: "cstring \<Rightarrow> int \<times> cstring" where
  "scan_exp s =
     (if deref s = CHR ''e'' \<or> deref s = CHR ''E'' then
        let neg = (deref (tl s) = CHR ''-'');
            r = (if is_sign (deref (tl s)) then tl (tl s) else tl s)
        in if isdigit (deref r)
           then (if neg then - int (digits_value r) else int (digits_value r), dropWhile isdigit r)
           else (0, s)
      else (0, s))"

definition strtod :: "cstring \<Rightarrow> dbl \<times> cstring" where
  "strtod str =
     (let s = dropWhile isspace str;
          neg = (deref s = CHR ''-'');
          s = (if is_sign (deref s) then tl s else s);
          ip = takeWhile isdigit s; r = dropWhile isdigit s;
          fp = (if deref r = CHR ''.'' then takeWhile isdigit (tl r) else []);
          r = (if deref r = CHR ''.'' then dropWhile isdigit (tl r) else r)
      in if ip = [] \<and> fp = [] then (Finite 0 0, str)
         else case scan_exp r of (e, r) \<Rightarrow>
           let n = int (digits_value (ip @ fp)); x = e - int (length fp)
           in (if 0 \<le> x then to_double neg (n * 10 ^ nat x) 1 else to_double neg n (10 ^ nat (- x)), r))"

definition isxdigit :: "char \<Rightarrow> bool" where
  "isxdigit c = (isdigit c \<or> (65 \<le> byte c \<and> byte c \<le> 70) \<or> (97 \<le> byte c \<and> byte c \<le> 102))"

text \<open>
  The digits after \<^verbatim>\<open>0x\<close>, in a 32-bit \<^verbatim>\<open>long\<close>. For a letter the source has
  \<^verbatim>\<open>x = 10 + *str - isupper(*str) ? 'A' : 'a'\<close>, which is
  \<^verbatim>\<open>(10 + *str - isupper(*str)) ? 'A' : 'a'\<close>, and the condition is never 0.
\<close>

fun hex_loop :: "int \<Rightarrow> cstring \<Rightarrow> int option" where
  "hex_loop i [] = Some i"
| "hex_loop i (c # s) =
     (if isdigit c then hex_loop (wrap32 (i * 16 + int (byte c) - 48)) s
      else if isxdigit c then hex_loop (wrap32 (i * 16 + 65)) s
      else None)"

definition CondCvtArg :: "cstring \<Rightarrow> dbl option" where
  "CondCvtArg str =
     (if deref str = CHR ''0'' \<and> deref (tl str) = CHR ''x''
      then map_option (\<lambda>i. Finite i 0) (hex_loop 0 (drop 2 str))
      else case strtod str of (v, eptr) \<Rightarrow> if eptr = [] then Some v else None)"

subsection \<open>Whole numbers\<close>

definition is_int :: "dbl \<Rightarrow> int \<Rightarrow> bool" where
  "is_int x i = (\<exists>e \<le> 0. x = Finite (i * 2 ^ nat (- e)) e)"

lemma scale: "e \<le> 0 \<Longrightarrow> f \<le> 0 \<Longrightarrow> (i * 2 ^ nat (- e)) * 2 ^ nat (e - min e f) = i * 2 ^ nat (- min e f)" for i e f :: int
proof -
  assume "e \<le> 0" "f \<le> 0"
  then have "nat (- e) + nat (e - min e f) = nat (- min e f)" by linarith
  then show ?thesis by (metis mult.assoc power_add)
qed

lemma dbl_less_int: "is_int x i \<Longrightarrow> is_int y j \<Longrightarrow> dbl_less x y \<longleftrightarrow> i < j"
proof -
  assume "is_int x i" "is_int y j"
  then obtain e f where "e \<le> 0" "f \<le> 0" "x = Finite (i * 2 ^ nat (- e)) e" "y = Finite (j * 2 ^ nat (- f)) f"
    by (auto simp: is_int_def)
  then have "dbl_less x y \<longleftrightarrow> i * 2 ^ nat (- min e f) < j * 2 ^ nat (- min e f)"
    using scale[of e f i] scale[of f e j] by (simp only: dbl_less.simps min.commute)
  then show ?thesis by simp
qed

lemma dbl_eq_int: "is_int x i \<Longrightarrow> is_int y j \<Longrightarrow> dbl_eq x y \<longleftrightarrow> i = j"
  using dbl_less_int[of x i y j] dbl_less_int[of y j x i] by (auto simp: dbl_eq_def)

lemma log2_int_bounds: "0 < n \<Longrightarrow> 0 \<le> log2_int n \<and> 2 ^ nat (log2_int n) \<le> n \<and> n < 2 * 2 ^ nat (log2_int n)"
proof (induction n rule: log2_int.induct)
  case (1 n)
  show ?case
  proof (cases "n < 2")
    case True
    then show ?thesis using 1 by (simp add: log2_int.simps)
  next
    case False
    then have IH: "0 \<le> log2_int (n div 2)" "2 ^ nat (log2_int (n div 2)) \<le> n div 2" "n div 2 < 2 * 2 ^ nat (log2_int (n div 2))"
      using 1 by auto
    have "log2_int n = 1 + log2_int (n div 2)" using False by (subst log2_int.simps) simp
    moreover have "nat (1 + log2_int (n div 2)) = Suc (nat (log2_int (n div 2)))" using IH(1) by simp
    moreover have "n div 2 + n div 2 \<le> n" "n < n div 2 + n div 2 + 2" by linarith+
    ultimately show ?thesis using IH by simp
  qed
qed

lemma round_div_1 [simp]: "round_div n 1 = n"
  by (simp add: round_div_def)

lemma to_double_int:
  assumes "0 \<le> n" "n < 2 ^ 53"
  shows "is_int (to_double neg n 1) (if neg then - n else n)"
proof (cases "n = 0")
  case True
  then show ?thesis by (auto simp: to_double_def is_int_def intro: exI[of _ 0])
next
  case False
  define k where "k = log2_int (nat n)"
  have k: "0 \<le> k" "2 ^ nat k \<le> nat n" using log2_int_bounds[of "nat n"] assms False by (auto simp: k_def)
  have "nat n < 2 ^ 53" using assms by (simp add: nat_less_iff)
  then have "(2::nat) ^ nat k < 2 ^ 53" using k(2) by (rule le_less_trans[rotated])
  then have "nat k < 53" by (rule power_less_imp_less_exp[rotated]) simp
  then have k2: "k \<le> 52" using k(1) by linarith
  have l1: "log2_int (nat 1) = 0" by (simp add: log2_int.simps)
  have "(2::int) ^ nat k \<le> n" using k(2) assms(1) by (metis int_nat_eq of_nat_le_iff of_nat_numeral of_nat_power)
  then have "to_double neg n 1 = Finite (if neg then - (n * 2 ^ nat (52 - k)) else n * 2 ^ nat (52 - k)) (k - 52)"
    using False k k2 l1 by (auto simp: to_double_def Let_def k_def[symmetric])
  then show ?thesis unfolding is_int_def using k2 by (intro exI[of _ "k - 52"]) auto
qed

lemma not_space_digit: "isdigit c \<Longrightarrow> \<not> isspace c \<and> \<not> is_sign c \<and> c \<noteq> CHR ''x'' \<and> c \<noteq> CHR ''-'' \<and> c \<noteq> CHR ''.''"
  by (auto simp: ctype_defs is_sign_def byte_def)

lemma dec_nat_cons: "\<exists>c s. dec_nat n = c # s \<and> isdigit c \<and> list_all isdigit s"
  using dec_nat_digits[of n] dec_nat_nonempty[of n] by (cases "dec_nat n") auto

lemma strtod_digits:
  assumes "list_all isdigit s" "s \<noteq> []"
  shows "strtod s = (to_double False (int (digits_value s)) 1, [])"
    and "strtod (CHR ''-'' # s) = (to_double True (int (digits_value s)) 1, [])"
proof -
  obtain c r where s: "s = c # r" using assms(2) by (cases s) auto
  have c: "isdigit c" "list_all isdigit r" using assms(1) s by auto
  have t: "takeWhile isdigit s = s" "dropWhile isdigit s = []"
    using assms(1) by (simp_all add: takeWhile_eq_all_conv dropWhile_eq_Nil_conv list_all_iff)
  show "strtod s = (to_double False (int (digits_value s)) 1, [])"
    using not_space_digit[OF c(1)] t s by (auto simp: strtod_def Let_def scan_exp_def)
  show "strtod (CHR ''-'' # s) = (to_double True (int (digits_value s)) 1, [])"
    using t s by (auto simp: strtod_def Let_def scan_exp_def is_sign_def isspace_def byte_def)
qed

text \<open>Whole numbers below \<open>2 ^ 53\<close> in decimal are converted exactly.\<close>

lemma CondCvtArg_dec:
  assumes "\<bar>i\<bar> < 2 ^ 53"
  shows "\<exists>x. CondCvtArg (dec i) = Some x \<and> is_int x i"
proof (cases "i < 0")
  case True
  have "digits_value (dec_nat (nat (- i))) = nat (- i)" by (simp add: digits_value_def scan_digits_dec_nat)
  then have "CondCvtArg (dec i) = Some (to_double True (- i) 1)"
    using True strtod_digits(2)[of "dec_nat (nat (- i))"] by (simp add: CondCvtArg_def dec_def)
  then show ?thesis using to_double_int[of "- i" True] True assms by auto
next
  case False
  obtain c s where s: "dec_nat (nat i) = c # s" "isdigit c" "list_all isdigit s" using dec_nat_cons by blast
  have "deref s \<noteq> CHR ''x''" using s(3) by (cases s) (auto dest: not_space_digit)
  moreover have "digits_value (dec_nat (nat i)) = nat i" by (simp add: digits_value_def scan_digits_dec_nat)
  ultimately have "CondCvtArg (dec i) = Some (to_double False i 1)"
    using False strtod_digits(1)[of "dec_nat (nat i)"] s by (simp add: CondCvtArg_def dec_def)
  then show ?thesis using to_double_int[of i False] False assms by auto
qed

text \<open>The letters of a hexadecimal number all count 65.\<close>

theorem hex_letters:
  "isxdigit c \<Longrightarrow> \<not> isdigit c \<Longrightarrow> CondCvtArg (''0x'' @ [c]) = Some (Finite 65 0)"
  by (simp add: CondCvtArg_def wrap32_def)

end
