(* ===== verification/Cond.thy ===== *)
theory Cond
  imports Makestr Condnum "HOL-Library.Monad_Syntax"
begin

text \<open>
  The conditional directives of the build tool, \<^verbatim>\<open>usr.bin/bmake/cond.c\<close>: the static
  variables of that file are the record \<open>cond_state\<close>, pointers into the line are offsets in it.
\<close>

subsection \<open>Pointers into the line\<close>

text \<open>
  \<open>cp_id\<close> tells the pointed lines apart: the pointers \<^verbatim>\<open>condExpr\<close> and \<^verbatim>\<open>rhs\<close>
  are compared with each other, and an expression that is evaluated inside another one leaves
  \<^verbatim>\<open>condExpr\<close> in its own line.
\<close>

record cptr =
  cp_id :: nat
  cp_line :: cstring
  cp_off :: int

definition text_at :: "cptr \<Rightarrow> cstring option" where
  "text_at p =
     (if 0 \<le> cp_off p \<and> cp_off p \<le> int (length (cp_line p)) then Some (drop (nat (cp_off p)) (cp_line p)) else None)"

definition cp_plus :: "cptr \<Rightarrow> int \<Rightarrow> cptr" where
  "cp_plus p n = p\<lparr>cp_off := cp_off p + n\<rparr>"

definition cp_skip :: "(char \<Rightarrow> bool) \<Rightarrow> cptr \<Rightarrow> cptr option" where
  "cp_skip P p = do { s \<leftarrow> text_at p; Some (cp_plus p (int (length (takeWhile P s)))) }"

subsection \<open>State\<close>

datatype Token = And | Or | TNot | TTrue | TFalse | LParen | RParen | EndOfFile | TNone | Err

datatype cond_fn = CondDoDefined | CondDoMake | CondDoExists | CondDoTarget | CondDoCommands

datatype parse_level = PARSE_WARNING | PARSE_FATAL

datatype cond_result = COND_PARSE | COND_SKIP | COND_INVALID

definition MAXIF :: int where "MAXIF = 30"

text \<open>\<open>messages\<close> are the calls of \<^verbatim>\<open>Parse_Error\<close>; \<open>vars\<close> is the state of the variables,
  \<open>lines\<close> the number of expressions evaluated so far.\<close>

record 'v cond_state =
  condExpr :: cptr
  condPushed :: Token
  condDefProc :: cond_fn
  condInvert :: bool
  condStack :: "bool list"
  condTop :: int
  skipIfLevel :: int
  skipLine :: bool
  messages :: "(parse_level \<times> cstring) list"
  lines :: nat
  vars :: 'v

text \<open>
  The rest of the program, as far as the conditionals use it. \<open>var_parse\<close> is
  \<^verbatim>\<open>Var_Parse\<close> in the context \<^verbatim>\<open>VAR_CMD\<close> on the text from the dollar sign, with
  the flag \<^verbatim>\<open>err\<close>: the value, \<open>None\<close> for \<^verbatim>\<open>var_Error\<close>, and the length of
  the reference; it may evaluate a conditional expression itself. \<open>var_value\<close> is
  \<^verbatim>\<open>Var_Value\<close>, \<open>created\<close> the list \<^verbatim>\<open>create\<close>, \<open>find_file\<close>
  \<^verbatim>\<open>Dir_FindFile\<close> on the search path, \<open>find_node\<close> what \<^verbatim>\<open>Targ_FindNode\<close> finds.
\<close>

record target =
  target_type :: u32
  target_commands :: "cstring list"

record 'v cond_env =
  var_parse :: "'v cond_state \<Rightarrow> cstring \<Rightarrow> bool \<Rightarrow> (cstring option \<times> nat \<times> 'v cond_state) option"
  var_value :: "'v \<Rightarrow> cstring \<Rightarrow> cstring option"
  created :: "cstring list"
  find_file :: "cstring \<Rightarrow> cstring option"
  find_node :: "cstring \<Rightarrow> target option"

definition Parse_Error :: "parse_level \<Rightarrow> cstring \<Rightarrow> 'v cond_state \<Rightarrow> 'v cond_state" where
  "Parse_Error lv m st = st\<lparr>messages := messages st @ [(lv, m)]\<rparr>"

definition cond_move :: "int \<Rightarrow> 'v cond_state \<Rightarrow> 'v cond_state" where
  "cond_move n st = st\<lparr>condExpr := cp_plus (condExpr st) n\<rparr>"

definition cond_skip :: "(char \<Rightarrow> bool) \<Rightarrow> 'v cond_state \<Rightarrow> 'v cond_state option" where
  "cond_skip P st = do { p \<leftarrow> cp_skip P (condExpr st); Some (st\<lparr>condExpr := p\<rparr>) }"

definition CondPushBack :: "Token \<Rightarrow> 'v cond_state \<Rightarrow> 'v cond_state" where
  "CondPushBack t st = st\<lparr>condPushed := t\<rparr>"

subsection \<open>The functions of an expression\<close>

text \<open>The argument; undefined variables count as empty. The loop ends at the bytes of \<^verbatim>\<open>" \\t)&|"\<close>.\<close>

definition arg_end :: "char \<Rightarrow> bool" where
  "arg_end c = (c \<in> {CHR '' '', CHR 0x09, CHR '')'', CHR ''&'', CHR ''|''})"

partial_function (option) arg_loop ::
    "'v cond_env \<Rightarrow> cptr \<Rightarrow> string \<Rightarrow> 'v cond_state \<Rightarrow> (string \<times> cptr \<times> 'v cond_state) option" where
  "arg_loop E cp buf st =
     do { s \<leftarrow> text_at cp;
          if s = [] \<or> arg_end (deref s) then Some (buf, cp, st)
          else if deref s = CHR ''$'' then do {
            (v, len, st) \<leftarrow> var_parse E st s True;
            arg_loop E (cp_plus cp (int len)) (buf @ (case v of None \<Rightarrow> [] | Some v \<Rightarrow> v)) st }
          else arg_loop E (cp_plus cp 1) (buf @ [deref s]) st }"

declare arg_loop.simps [code]

text \<open>The length counts the NUL at the end; 0 when there is no argument.\<close>

definition CondGetArg :: "'v cond_env \<Rightarrow> cstring \<Rightarrow> bool \<Rightarrow> 'v cond_state \<Rightarrow> (nat \<times> cstring \<times> 'v cond_state) option" where
  "CondGetArg E func parens st =
     do { cp \<leftarrow> (if parens then cp_skip (\<lambda>c. c \<noteq> CHR ''('') (condExpr st) else Some (condExpr st));
          s \<leftarrow> text_at cp;
          let cp = (if parens \<and> deref s = CHR ''('' then cp_plus cp 1 else cp);
          s \<leftarrow> text_at cp;
          if s = [] then Some (0, [], st)
          else do {
            cp \<leftarrow> cp_skip is_blank cp;
            (arg, cp, st) \<leftarrow> arg_loop E cp [] st;
            cp \<leftarrow> cp_skip is_blank cp;
            s \<leftarrow> text_at cp;
            if parens \<and> deref s \<noteq> CHR '')''
            then Some (0, arg, Parse_Error PARSE_WARNING (''Missing closing parenthesis for '' @ func @ ''()'') st)
            else Some (length arg + 1, arg, st\<lparr>condExpr := (if parens then cp_plus cp 1 else cp)\<rparr>) } }"

text \<open>\<^verbatim>\<open>Lst_Find (create, arg, CondStrMatch)\<close>.\<close>

fun any_match :: "cstring list \<Rightarrow> cstring \<Rightarrow> bool option" where
  "any_match [] p = Some False"
| "any_match (s # ss) p = do { b \<leftarrow> Str_Match s p; if b then Some True else any_match ss p }"

definition OP_OPMASK :: u32 where "OP_OPMASK = 7"

definition OP_NOP :: "u32 \<Rightarrow> bool" where
  "OP_NOP t = (and t OP_OPMASK = 0)"

fun cond_do :: "'v cond_env \<Rightarrow> cond_fn \<Rightarrow> 'v cond_state \<Rightarrow> cstring \<Rightarrow> bool option" where
  "cond_do E CondDoDefined st arg = Some (var_value E (vars st) arg \<noteq> None)"
| "cond_do E CondDoMake st arg = any_match (created E) arg"
| "cond_do E CondDoExists st arg = Some (find_file E arg \<noteq> None)"
| "cond_do E CondDoTarget st arg =
     Some (case find_node E arg of None \<Rightarrow> False | Some gn \<Rightarrow> \<not> OP_NOP (target_type gn))"
| "cond_do E CondDoCommands st arg =
     Some (case find_node E arg of None \<Rightarrow> False | Some gn \<Rightarrow> \<not> OP_NOP (target_type gn) \<and> target_commands gn \<noteq> [])"


text \<open>The function is called only if the value matters.\<close>

definition cond_apply :: "'v cond_env \<Rightarrow> bool \<Rightarrow> cond_fn \<Rightarrow> bool \<Rightarrow> cstring \<Rightarrow> 'v cond_state \<Rightarrow> (Token \<times> 'v cond_state) option" where
  "cond_apply E doEval f invert arg st =
     do { b \<leftarrow> (if doEval then cond_do E f st arg else Some True);
          Some (if b then (if invert then TFalse else TTrue) else (if invert then TTrue else TFalse), st) }"

definition cond_default :: "'v cond_env \<Rightarrow> bool \<Rightarrow> 'v cond_state \<Rightarrow> (Token \<times> 'v cond_state) option" where
  "cond_default E doEval st =
     do { let invert = condInvert st;
          let f = condDefProc st;
          (_, arg, st) \<leftarrow> CondGetArg E [] False st;
          cond_apply E doEval f invert arg st }"

definition cond_call :: "'v cond_env \<Rightarrow> bool \<Rightarrow> cstring \<Rightarrow> cond_fn \<Rightarrow> 'v cond_state \<Rightarrow> (Token \<times> 'v cond_state) option" where
  "cond_call E doEval func f st =
     do { (arglen, arg, st) \<leftarrow> CondGetArg E func True (cond_move (int (length func)) st);
          if arglen = 0 then cond_default E doEval (cond_move (- int (length func)) st)
          else cond_apply E doEval f False arg st }"

text \<open>\<^verbatim>\<open>empty(...)\<close>: the reference is parsed from the byte before the parenthesis.\<close>

definition cond_empty :: "'v cond_env \<Rightarrow> bool \<Rightarrow> 'v cond_state \<Rightarrow> (Token \<times> 'v cond_state) option" where
  "cond_empty E doEval st =
     do { let st1 = cond_move 5 st;
          s \<leftarrow> text_at (condExpr st1);
          let arglen = int (length (takeWhile (\<lambda>c. c \<noteq> CHR ''('') s));
          if arglen < int (length s) then do {
            t \<leftarrow> text_at (cp_plus (condExpr st1) (arglen - 1));
            (v, len, st) \<leftarrow> var_parse E st1 t doEval;
            Some (case v of None \<Rightarrow> Err
                  | Some v \<Rightarrow> if dropWhile isspace v = [] then TTrue else TFalse,
                  cond_move (arglen + int len - 1) st) }
          else cond_default E doEval st }"

subsection \<open>Comparisons\<close>

text \<open>The right side of a comparison of strings; \<open>qt\<close>: it is in quotes.\<close>

partial_function (option) str_loop ::
    "'v cond_env \<Rightarrow> bool \<Rightarrow> bool \<Rightarrow> cptr \<Rightarrow> string \<Rightarrow> 'v cond_state \<Rightarrow> (string \<times> cptr \<times> 'v cond_state) option" where
  "str_loop E doEval qt cp buf st =
     do { s \<leftarrow> text_at cp;
          if s = [] \<or> qt \<and> deref s = DQ \<or> \<not> qt \<and> (is_blank (deref s) \<or> deref s = CHR '')'')
          then Some (buf, cp, st)
          else if deref s = CHR 0x5C \<and> tl s \<noteq> [] then str_loop E doEval qt (cp_plus cp 2) (buf @ [deref (tl s)]) st
          else if deref s = CHR ''$'' then do {
            (v, len, st) \<leftarrow> var_parse E st s doEval;
            (case v of
               None \<Rightarrow> str_loop E doEval qt (cp_plus cp 1) (buf @ [deref s]) st
             | Some v \<Rightarrow> str_loop E doEval qt (cp_plus cp (int len)) (buf @ v) st) }
          else str_loop E doEval qt (cp_plus cp 1) (buf @ [deref s]) st }"

declare str_loop.simps [code]

text \<open>
  \<open>op\<close> are the two bytes at \<^verbatim>\<open>op\<close>, \<open>rhs\<close> is \<^verbatim>\<open>condExpr\<close> or the constant
  \<^verbatim>\<open>"0"\<close>, whose \<open>cp_id\<close> is 0.
\<close>

definition string_compare ::
    "'v cond_env \<Rightarrow> bool \<Rightarrow> cstring \<Rightarrow> char \<times> char \<Rightarrow> cptr \<Rightarrow> 'v cond_state \<Rightarrow> (Token \<times> 'v cond_state) option" where
  "string_compare E doEval lhs op rhs st =
     (if fst op \<notin> {CHR ''!'', CHR ''=''} \<or> snd op \<noteq> CHR ''=''
      then Some (Err, Parse_Error PARSE_WARNING ''String comparison operator should be either == or !='' st)
      else do {
        s \<leftarrow> text_at rhs;
        let qt = (deref s = DQ);
        (str, cp, st) \<leftarrow> str_loop E doEval qt (if qt then cp_plus rhs 1 else rhs) [] st;
        s \<leftarrow> text_at cp;
        Some (if (lhs = str) = (fst op = CHR ''='') then TTrue else TFalse,
              if rhs = condExpr st
              then st\<lparr>condExpr := (if \<not> qt \<and> deref s = CHR '')'' then cp else cp_plus cp 1)\<rparr>
              else st) })"

definition number_compare :: "dbl \<Rightarrow> dbl \<Rightarrow> char \<times> char \<Rightarrow> 'v cond_state \<Rightarrow> Token \<times> 'v cond_state" where
  "number_compare x y op st =
     (let tok = (\<lambda>b. if b then TTrue else TFalse) in
      if fst op \<in> {CHR ''!'', CHR ''=''} \<and> snd op \<noteq> CHR ''=''
      then (Err, Parse_Error PARSE_WARNING ''Unknown operator'' st)
      else if fst op = CHR ''!'' then (tok (\<not> dbl_eq x y), st)
      else if fst op = CHR ''='' then (tok (dbl_eq x y), st)
      else if fst op = CHR ''<'' then (tok (if snd op = CHR ''='' then \<not> dbl_less y x else dbl_less x y), st)
      else (tok (if snd op = CHR ''='' then \<not> dbl_less x y else dbl_less y x), st))"

definition do_compare ::
    "'v cond_env \<Rightarrow> bool \<Rightarrow> cstring \<Rightarrow> char \<times> char \<Rightarrow> cptr \<Rightarrow> 'v cond_state \<Rightarrow> (Token \<times> 'v cond_state) option" where
  "do_compare E doEval lhs op rhs st =
     do { s \<leftarrow> text_at rhs;
          case (if deref s = DQ then None else CondCvtArg lhs) of
            None \<Rightarrow> string_compare E doEval lhs op rhs st
          | Some x \<Rightarrow>
              if deref s = CHR ''$'' then do {
                (v, len, st) \<leftarrow> var_parse E st s doEval;
                case v of
                  None \<Rightarrow> Some (number_compare x (Finite 0 0) op st)
                | Some v \<Rightarrow>
                    (case CondCvtArg v of
                       None \<Rightarrow> string_compare E doEval lhs op rhs st
                     | Some y \<Rightarrow>
                         Some (number_compare x y op (if rhs = condExpr st then cond_move (int len) st else st))) }
              else (case CondCvtArg s of
                      None \<Rightarrow> string_compare E doEval lhs op rhs st
                    | Some y \<Rightarrow> do {
                        st \<leftarrow> (if rhs = condExpr st then cond_skip (\<lambda>c. \<not> isspace c) st else Some st);
                        Some (number_compare x y op st) }) }"

definition zero_rhs :: cptr where
  "zero_rhs = \<lparr>cp_id = 0, cp_line = ''0'', cp_off = 0\<rparr>"

text \<open>A term that starts with a dollar sign. What follows the reference up to the next white
  space belongs to the left side, unless it starts with an operator.\<close>

definition cond_variable :: "'v cond_env \<Rightarrow> bool \<Rightarrow> 'v cond_state \<Rightarrow> (Token \<times> 'v cond_state) option" where
  "cond_variable E doEval st =
     do { s \<leftarrow> text_at (condExpr st);
          (v, len, st) \<leftarrow> var_parse E st s doEval;
          case v of
            None \<Rightarrow> Some (Err, st)
          | Some lhs \<Rightarrow> do {
              let st = cond_move (int len) st;
              s \<leftarrow> text_at (condExpr st);
              let more = (if s = [] \<or> isspace (deref s) \<or> deref s \<in> set ''!=><'' then [] else takeWhile (\<lambda>c. \<not> isspace c) s);
              st \<leftarrow> cond_skip isspace (cond_move (int (length more)) st);
              s \<leftarrow> text_at (condExpr st);
              if deref s \<in> set ''!=<>'' then do {
                let op = (deref s, deref (tl s));
                st \<leftarrow> cond_skip isspace (cond_move (if snd op = CHR ''='' then 2 else 1) st);
                s \<leftarrow> text_at (condExpr st);
                if s = [] then Some (Err, Parse_Error PARSE_WARNING ''Missing right-hand-side of operator'' st)
                else do_compare E doEval (lhs @ more) op (condExpr st) st }
              else do_compare E doEval (lhs @ more) (CHR ''!'', CHR ''='') zero_rhs st } }"

subsection \<open>Tokens\<close>

definition CondToken :: "'v cond_env \<Rightarrow> bool \<Rightarrow> 'v cond_state \<Rightarrow> (Token \<times> 'v cond_state) option" where
  "CondToken E doEval st =
     (if condPushed st \<noteq> TNone then Some (condPushed st, st\<lparr>condPushed := TNone\<rparr>)
      else do {
        st \<leftarrow> cond_skip is_blank st;
        s \<leftarrow> text_at (condExpr st);
        if deref s = CHR ''('' then Some (LParen, cond_move 1 st)
        else if deref s = CHR '')'' then Some (RParen, cond_move 1 st)
        else if deref s = CHR ''|'' then Some (Or, cond_move (if deref (tl s) = CHR ''|'' then 2 else 1) st)
        else if deref s = CHR ''&'' then Some (And, cond_move (if deref (tl s) = CHR ''&'' then 2 else 1) st)
        else if deref s = CHR ''!'' then Some (TNot, cond_move 1 st)
        else if s = [] \<or> deref s = NL then Some (EndOfFile, st)
        else if deref s = CHR ''$'' then cond_variable E doEval st
        else if prefix ''defined'' s then cond_call E doEval ''defined'' CondDoDefined st
        else if prefix ''make'' s then cond_call E doEval ''make'' CondDoMake st
        else if prefix ''exists'' s then cond_call E doEval ''exists'' CondDoExists st
        else if prefix ''empty'' s then cond_empty E doEval st
        else if prefix ''target'' s then cond_call E doEval ''target'' CondDoTarget st
        else if prefix ''commands'' s then cond_call E doEval ''commands'' CondDoCommands st
        else cond_default E doEval st })"


subsection \<open>Expressions\<close>

text \<open>\<^verbatim>\<open>CondT\<close>, \<^verbatim>\<open>CondF\<close> and \<^verbatim>\<open>CondE\<close> call each other; they are one
  function of the nonterminal.\<close>

datatype cond_nt = NT | NF | NE

partial_function (option) cond_parse ::
    "'v cond_env \<Rightarrow> cond_nt \<Rightarrow> bool \<Rightarrow> 'v cond_state \<Rightarrow> (Token \<times> 'v cond_state) option" where
  "cond_parse E n doEval st =
     (case n of
        NT \<Rightarrow> do {
          (t, st) \<leftarrow> CondToken E doEval st;
          if t = EndOfFile then Some (Err, st)
          else if t = LParen then do {
            (t, st) \<leftarrow> cond_parse E NE doEval st;
            if t = Err then Some (Err, st)
            else do { (u, st) \<leftarrow> CondToken E doEval st; Some (if u = RParen then t else Err, st) } }
          else if t = TNot then do {
            (t, st) \<leftarrow> cond_parse E NT doEval st;
            Some (if t = TTrue then TFalse else if t = TFalse then TTrue else t, st) }
          else Some (t, st) }
      | NF \<Rightarrow> do {
          (l, st) \<leftarrow> cond_parse E NT doEval st;
          if l = Err then Some (l, st)
          else do {
            (u, st) \<leftarrow> CondToken E doEval st;
            if u \<noteq> And then Some (l, CondPushBack u st)
            else if l = TTrue then cond_parse E NF doEval st
            else do { (_, st) \<leftarrow> cond_parse E NF False st; Some (l, st) } } }
      | NE \<Rightarrow> do {
          (l, st) \<leftarrow> cond_parse E NF doEval st;
          if l = Err then Some (l, st)
          else do {
            (u, st) \<leftarrow> CondToken E doEval st;
            if u \<noteq> Or then Some (l, CondPushBack u st)
            else if l = TFalse then cond_parse E NE doEval st
            else do { (_, st) \<leftarrow> cond_parse E NE False st; Some (l, st) } } })"

declare cond_parse.simps [code]

definition CondT :: "'v cond_env \<Rightarrow> bool \<Rightarrow> 'v cond_state \<Rightarrow> (Token \<times> 'v cond_state) option" where
  "CondT E = cond_parse E NT"

definition CondF :: "'v cond_env \<Rightarrow> bool \<Rightarrow> 'v cond_state \<Rightarrow> (Token \<times> 'v cond_state) option" where
  "CondF E = cond_parse E NF"

definition CondE :: "'v cond_env \<Rightarrow> bool \<Rightarrow> 'v cond_state \<Rightarrow> (Token \<times> 'v cond_state) option" where
  "CondE E = cond_parse E NE"

text \<open>The value is \<open>None\<close> when \<^verbatim>\<open>*value\<close> is left alone.\<close>

definition Cond_EvalExpression ::
    "'v cond_env \<Rightarrow> bool \<Rightarrow> cstring \<Rightarrow> bool \<Rightarrow> 'v cond_state \<Rightarrow> (cond_result \<times> bool option \<times> 'v cond_state) option" where
  "Cond_EvalExpression E dosetup ln eprint st =
     do { let st = (if dosetup then st\<lparr>condDefProc := CondDoDefined, condInvert := False\<rparr> else st);
          let ln = dropWhile is_blank ln;
          let st = st\<lparr>lines := lines st + 1, condPushed := TNone,
                      condExpr := \<lparr>cp_id = lines st + 1, cp_line = ln, cp_off = 0\<rparr>\<rparr>;
          let err = (\<lambda>st. (COND_INVALID, None,
                (if eprint then Parse_Error PARSE_FATAL (''Malformed conditional ('' @ ln @ '')'') st else st)));
          (t, st) \<leftarrow> CondE E True st;
          if t = TTrue \<or> t = TFalse then do {
            (u, st) \<leftarrow> CondToken E True st;
            Some (if u = EndOfFile then (COND_PARSE, Some (t = TTrue), st) else err st) }
          else if t = Err then Some (err st)
          else Some (COND_PARSE, None, st) }"

subsection \<open>Directives\<close>

definition ifs :: "(cstring \<times> bool \<times> cond_fn) list" where
  "ifs = [(''ifdef'', False, CondDoDefined), (''ifndef'', True, CondDoDefined),
          (''ifmake'', False, CondDoMake), (''ifnmake'', True, CondDoMake),
          (''if'', False, CondDoDefined)]"

text \<open>The end of \<^verbatim>\<open>Cond_Eval\<close>, when the value of the condition is known.\<close>

definition cond_decide :: "bool \<Rightarrow> bool \<Rightarrow> 'v cond_state \<Rightarrow> (cond_result \<times> 'v cond_state) option" where
  "cond_decide isElse value st =
     do { skip \<leftarrow> (if \<not> isElse then Some False
                  else if skipIfLevel st \<noteq> 0 then Some True
                  else nth_opt (condStack st) (condTop st));
          if skip then Some (COND_SKIP, st\<lparr>skipLine := True\<rparr>)
          else do {
            let st = (if isElse then st else st\<lparr>condTop := condTop st - 1\<rparr>);
            if condTop st < 0
            then Some (COND_INVALID, Parse_Error PARSE_FATAL (''Too many nested if''@[CHR 0x27]@''s. 30 max.'') st)
            else if condTop st < MAXIF
            then Some (if value then COND_PARSE else COND_SKIP,
                       st\<lparr>condStack := (condStack st)[nat (condTop st) := value], skipLine := \<not> value\<rparr>)
            else None } }"

definition cond_if_line :: "'v cond_env \<Rightarrow> bool \<Rightarrow> cstring \<Rightarrow> 'v cond_state \<Rightarrow> (cond_result \<times> 'v cond_state) option" where
  "cond_if_line E isElse ln st =
     (case find (\<lambda>(form, _). prefix form ln) ifs of
        None \<Rightarrow>
          if isElse \<and> deref ln = CHR ''s'' \<and> deref (tl ln) = CHR ''e'' then
            if condTop st = MAXIF then Some (COND_INVALID, Parse_Error PARSE_FATAL ''if-less else'' st)
            else if skipIfLevel st = 0 then do {
              v \<leftarrow> nth_opt (condStack st) (condTop st);
              cond_decide isElse (\<not> v) st }
            else Some (COND_SKIP, st)
          else Some (COND_INVALID, st)
      | Some (form, doNot, defProc) \<Rightarrow>
          if isElse \<and> condTop st = MAXIF
          then Some (COND_INVALID, Parse_Error PARSE_FATAL ''if-less elif'' st)
          else if isElse \<and> skipIfLevel st \<noteq> 0 then Some (COND_SKIP, st)
          else if \<not> isElse \<and> skipLine st then Some (COND_SKIP, st\<lparr>skipIfLevel := skipIfLevel st + 1\<rparr>)
          else do {
            (res, value, st) \<leftarrow> Cond_EvalExpression E False (drop (length form) ln) True
                                  (st\<lparr>condDefProc := defProc, condInvert := doNot\<rparr>);
            if res = COND_INVALID then Some (COND_INVALID, st)
            else cond_decide isElse (value = Some True) st })"

definition Cond_Eval :: "'v cond_env \<Rightarrow> cstring \<Rightarrow> 'v cond_state \<Rightarrow> (cond_result \<times> 'v cond_state) option" where
  "Cond_Eval E line st =
     do { ln \<leftarrow> adv line;
          let ln = dropWhile is_blank ln;
          if prefix ''el'' ln then cond_if_line E True (drop 2 ln) st
          else if prefix ''endif'' ln then
            Some (if skipIfLevel st \<noteq> 0 then (COND_SKIP, st\<lparr>skipIfLevel := skipIfLevel st - 1\<rparr>)
                  else if condTop st = MAXIF then (COND_INVALID, Parse_Error PARSE_FATAL ''if-less endif'' st)
                  else (COND_PARSE, st\<lparr>skipLine := False, condTop := condTop st + 1\<rparr>))
          else cond_if_line E False ln st }"

definition Cond_End :: "'v cond_state \<Rightarrow> 'v cond_state" where
  "Cond_End st =
     (let n = MAXIF - condTop st;
          st = (if condTop st \<noteq> MAXIF
                then Parse_Error PARSE_FATAL (dec n @ '' open conditional'' @ (if n = 1 then [] else ''s'')) st
                else st)
      in st\<lparr>condTop := MAXIF\<rparr>)"

text \<open>The static variables at the start of the program.\<close>

definition cond_start :: "'v \<Rightarrow> 'v cond_state" where
  "cond_start v =
     \<lparr>condExpr = \<lparr>cp_id = 0, cp_line = [], cp_off = 0\<rparr>, condPushed = TNone, condDefProc = CondDoDefined,
      condInvert = False, condStack = replicate 30 False, condTop = MAXIF, skipIfLevel = 0, skipLine = False,
      messages = [], lines = 0, vars = v\<rparr>"

end
