(* ===== verification/Condexpr.thy ===== *)
theory Condexpr
  imports Cond
begin

subsection \<open>Where the parser is\<close>

definition raw :: "cstring \<Rightarrow> 'v cond_state \<Rightarrow> bool" where
  "raw s st =
     (condPushed st = TNone \<and> (\<exists>t. text_at (condExpr st) = Some t \<and> dropWhile is_blank t = dropWhile is_blank s))"

definition same :: "'v cond_state \<Rightarrow> 'v cond_state \<Rightarrow> bool" where
  "same st st' = (st' = st\<lparr>condExpr := condExpr st', condPushed := condPushed st'\<rparr>)"

lemma same_refl [simp]: "same st st"
  by (simp add: same_def)

lemma same_trans: "same a b \<Longrightarrow> same b c \<Longrightarrow> same a c"
  by (cases a, cases b, cases c) (simp add: same_def)

lemma same_sel:
  "same st st' \<Longrightarrow> vars st' = vars st \<and> condDefProc st' = condDefProc st \<and> condInvert st' = condInvert st"
  by (cases st, cases st') (simp add: same_def)

lemma same_upd [simp]: "same st (st\<lparr>condExpr := p\<rparr>)" "same st (st\<lparr>condPushed := u\<rparr>)" "same st (cond_move n st)"
  "same st (CondPushBack u st)"
  by (simp_all add: same_def cond_move_def CondPushBack_def)

lemma text_at_plus:
  assumes "text_at p = Some (a @ b)"
  shows "text_at (cp_plus p (int (length a))) = Some b"
proof -
  from assms have o: "0 \<le> cp_off p" "cp_off p \<le> int (length (cp_line p))" and d: "drop (nat (cp_off p)) (cp_line p) = a @ b"
    by (auto simp: text_at_def split: if_splits)
  from d have "length (cp_line p) - nat (cp_off p) = length a + length b"
    by (metis length_append length_drop)
  then have "cp_off p + int (length a) \<le> int (length (cp_line p))" using o by linarith
  moreover have "drop (nat (cp_off p + int (length a))) (cp_line p) = b"
    using o d by (simp add: nat_add_distrib drop_drop[symmetric] add.commute)
  ultimately show ?thesis using o by (simp add: text_at_def cp_plus_def)
qed

lemma text_at_plus1: "text_at p = Some (c # b) \<Longrightarrow> text_at (cp_plus p 1) = Some b"
  using text_at_plus[of p "[c]" b] by simp

lemma text_at_plus2: "text_at p = Some (c # d # b) \<Longrightarrow> text_at (cp_plus p 2) = Some b"
  using text_at_plus[of p "[c, d]" b] by simp

lemma cp_skip_Some: "text_at p = Some s \<Longrightarrow> \<exists>q. cp_skip P p = Some q \<and> text_at q = Some (dropWhile P s)"
  using text_at_plus[of p "takeWhile P s" "dropWhile P s"] by (simp add: cp_skip_def)

lemma cond_skip_Some:
  "text_at (condExpr st) = Some s \<Longrightarrow>
   \<exists>q. cond_skip P st = Some (st\<lparr>condExpr := q\<rparr>) \<and> text_at q = Some (dropWhile P s)"
  using cp_skip_Some[of "condExpr st" s P] by (auto simp: cond_skip_def)

lemma raw_skip:
  "raw s st \<Longrightarrow> \<exists>q. cond_skip is_blank st = Some (st\<lparr>condExpr := q\<rparr>) \<and> text_at q = Some (dropWhile is_blank s)"
  using cond_skip_Some unfolding raw_def by metis

subsection \<open>What follows a term\<close>

text \<open>The texts that may follow: the end, a closing parenthesis, an operator between blanks.\<close>

definition AND :: cstring where "AND = '' && ''"
definition OR :: cstring where "OR = '' || ''"

fun after :: "Token \<Rightarrow> cstring \<Rightarrow> cstring" where
  "after RParen r = CHR '')'' # r"
| "after And r = AND @ r"
| "after Or r = OR @ r"
| "after _ r = []"

definition follow :: "Token set" where "follow = {EndOfFile, RParen, And, Or}"

text \<open>The parser stands before the token \<open>u\<close>, which it may have read and pushed back.\<close>

definition before :: "Token \<Rightarrow> cstring \<Rightarrow> 'v cond_state \<Rightarrow> bool" where
  "before u r st =
     (if condPushed st = TNone then raw (after u r) st
      else condPushed st = u \<and> (\<exists>t. text_at (condExpr st) = Some t \<and> (u = EndOfFile \<and> t = [] \<or> u \<noteq> EndOfFile \<and> dropWhile is_blank t = dropWhile is_blank r)))"

lemma blanks [simp]: "is_blank CHR '' ''" "is_blank (CHR 0x09)" "\<not> is_blank CHR '')''" "\<not> is_blank CHR ''&''" "\<not> is_blank CHR ''|''"
  "\<not> is_blank CHR ''!''" "\<not> is_blank CHR ''(''"
  by (simp_all add: is_blank_def)

lemma CondToken_raw:
  assumes "raw s st" and "dropWhile is_blank s = t"
  shows "\<exists>q. text_at q = Some t \<and> cond_skip is_blank st = Some (st\<lparr>condExpr := q\<rparr>) \<and> condPushed st = TNone"
  using raw_skip[OF assms(1)] assms by (auto simp: raw_def)

lemma token_follow:
  assumes u: "u \<in> follow" and st: "before u r st"
  shows "\<exists>st'. CondToken E d st = Some (u, st') \<and> same st st' \<and>
           condPushed st' = TNone \<and> (u \<noteq> EndOfFile \<longrightarrow> raw r st') \<and> before u r (CondPushBack u st')"
proof (cases "condPushed st = TNone")
  case True
  with st have r: "raw (after u r) st" by (simp add: before_def)
  then obtain q where q: "text_at q = Some (dropWhile is_blank (after u r))"
    "cond_skip is_blank st = Some (st\<lparr>condExpr := q\<rparr>)" using CondToken_raw by blast
  have "u = EndOfFile \<or> u = RParen \<or> u = And \<or> u = Or" using u by (auto simp: follow_def)
  then show ?thesis using q True
    by (elim disjE)
       (auto simp: CondToken_def raw_def before_def CondPushBack_def cond_move_def AND_def OR_def same_def text_at_plus1 dest: text_at_plus1 text_at_plus2)
next
  case False
  then show ?thesis using st u
    by (auto simp: CondToken_def before_def raw_def CondPushBack_def same_def follow_def)
qed


subsection \<open>Arguments\<close>

definition plain_arg :: "cstring \<Rightarrow> bool" where
  "plain_arg a = (\<forall>c \<in> set a. \<not> arg_end c \<and> c \<noteq> CHR ''$'')"

lemma arg_loop_plain:
  assumes "plain_arg a" "r = [] \<or> arg_end (deref r)" "text_at p = Some (a @ r)"
  shows "\<exists>q. arg_loop E p buf st = Some (buf @ a, q, st) \<and> text_at q = Some r"
  using assms
proof (induction a arbitrary: p buf)
  case Nil
  then show ?case by (simp add: arg_loop.simps)
next
  case (Cons c a)
  from Cons.prems(3) have "text_at (cp_plus p 1) = Some (a @ r)" by (simp add: text_at_plus1)
  then obtain q where q: "arg_loop E (cp_plus p 1) (buf @ [c]) st = Some ((buf @ [c]) @ a, q, st)" "text_at q = Some r"
    using Cons.IH[of "cp_plus p 1" "buf @ [c]"] Cons.prems by (auto simp: plain_arg_def)
  then show ?case using Cons.prems by (simp add: arg_loop.simps[of E p] plain_arg_def)
qed

lemma not_blank_plain: "plain_arg (c # a) \<Longrightarrow> \<not> is_blank c"
  by (auto simp: plain_arg_def arg_end_def is_blank_def)

lemma dropWhile_plain: "plain_arg a \<Longrightarrow> (r = [] \<or> \<not> is_blank (deref r)) \<Longrightarrow> dropWhile is_blank (a @ r) = a @ r"
  by (cases a; cases r) (auto dest: not_blank_plain)

text \<open>\<open>defined(a)\<close> and the other calls; a symbol.\<close>

lemma GetArg_call:
  assumes a: "plain_arg a" and st: "text_at (condExpr st) = Some (CHR ''('' # a @ CHR '')'' # r)"
  shows "\<exists>q. CondGetArg E func True st = Some (length a + 1, a, st\<lparr>condExpr := q\<rparr>) \<and> text_at q = Some r"
proof -
  obtain p0 where p0: "cp_skip (\<lambda>c. c \<noteq> CHR ''('') (condExpr st) = Some p0"
      "text_at p0 = Some (CHR ''('' # a @ CHR '')'' # r)"
    using cp_skip_Some[OF st, of "\<lambda>c. c \<noteq> CHR ''(''"] by auto
  then have p1: "text_at (cp_plus p0 1) = Some (a @ CHR '')'' # r)" by (simp add: text_at_plus1)
  obtain p2 where p2: "cp_skip is_blank (cp_plus p0 1) = Some p2" "text_at p2 = Some (a @ CHR '')'' # r)"
    using cp_skip_Some[OF p1, of is_blank] dropWhile_plain[OF a, of "CHR '')'' # r"] by auto
  obtain p3 where p3: "arg_loop E p2 [] st = Some (a, p3, st)" "text_at p3 = Some (CHR '')'' # r)"
    using arg_loop_plain[OF a _ p2(2), of E "[]" st] by (auto simp: arg_end_def)
  obtain p4 where p4: "cp_skip is_blank p3 = Some p4" "text_at p4 = Some (CHR '')'' # r)"
    using cp_skip_Some[OF p3(2), of is_blank] by auto
  show ?thesis
    using p0 p1 p2 p3 p4 by (auto simp: CondGetArg_def Let_def dest: text_at_plus1)
qed

lemma after_arg_end: "u \<in> follow \<Longrightarrow> after u r = [] \<or> arg_end (deref (after u r))"
  by (auto simp: follow_def arg_end_def AND_def OR_def)

lemma GetArg_symbol:
  assumes a: "plain_arg a" "a \<noteq> []" and u: "u \<in> follow" and st: "text_at (condExpr st) = Some (a @ after u r)"
  shows "\<exists>q. CondGetArg E func False st = Some (length a + 1, a, st\<lparr>condExpr := q\<rparr>) \<and>
             text_at q = Some (dropWhile is_blank (after u r))"
proof -
  from a have "dropWhile is_blank (a @ after u r) = a @ after u r"
    by (cases a) (auto dest: not_blank_plain)
  then obtain p2 where p2: "cp_skip is_blank (condExpr st) = Some p2" "text_at p2 = Some (a @ after u r)"
    using cp_skip_Some[OF st, of is_blank] by auto
  obtain p3 where p3: "arg_loop E p2 [] st = Some (a, p3, st)" "text_at p3 = Some (after u r)"
    using arg_loop_plain[OF a(1) after_arg_end[OF u] p2(2), of E "[]" st] by auto
  obtain p4 where "cp_skip is_blank p3 = Some p4" "text_at p4 = Some (dropWhile is_blank (after u r))"
    using cp_skip_Some[OF p3(2), of is_blank] by auto
  then show ?thesis using st p2 p3 a(2) by (auto simp: CondGetArg_def Let_def)
qed

lemma apply_value:
  assumes "cond_do E f st a = Some b"
  shows "\<exists>t. cond_apply E d f neg a st = Some (t, st) \<and> t \<in> {TTrue, TFalse} \<and> (d \<longrightarrow> t = (if b \<noteq> neg then TTrue else TFalse))"
  using assms by (cases d; cases b; cases neg) (simp_all add: cond_apply_def)

lemma cond_do_vars: "cond_do E f (st\<lparr>condExpr := p\<rparr>) a = cond_do E f st a"
  by (cases f) simp_all

subsection \<open>Boolean expressions\<close>

datatype bexp = Sym cstring | Call cond_fn cstring | Is cstring bool cstring | Neg bexp | Conj bexp bexp | Disj bexp bexp

fun fn_name :: "cond_fn \<Rightarrow> cstring" where
  "fn_name CondDoDefined = ''defined''"
| "fn_name CondDoMake = ''make''"
| "fn_name CondDoExists = ''exists''"
| "fn_name CondDoTarget = ''target''"
| "fn_name CondDoCommands = ''commands''"

definition quoted :: "cstring \<Rightarrow> cstring" where
  "quoted s = [DQ] @ s @ [DQ]"

text \<open>\<open>Is x eq s\<close> is a comparison of the variable \<open>x\<close> with a string in quotes.\<close>

fun show_c :: "cond_nt \<Rightarrow> bexp \<Rightarrow> cstring" where
  "show_c n (Sym s) = s"
| "show_c n (Call f a) = fn_name f @ ''('' @ a @ '')''"
| "show_c n (Is x eq s) = ''${'' @ x @ ''}'' @ (if eq then '' == '' else '' != '') @ quoted s"
| "show_c n (Neg b) = ''!'' @ show_c NT b"
| "show_c n (Conj a b) =
     (if n = NT then ''('' @ show_c NT a @ AND @ show_c NF b @ '')'' else show_c NT a @ AND @ show_c NF b)"
| "show_c n (Disj a b) =
     (if n = NE then show_c NF a @ OR @ show_c NE b else ''('' @ show_c NF a @ OR @ show_c NE b @ '')'')"

text \<open>Words that are not taken for a symbol: the names of the functions and what starts like them.\<close>

definition symbol :: "cstring \<Rightarrow> bool" where
  "symbol s =
     (s \<noteq> [] \<and> plain_arg s \<and> deref s \<notin> set ''(!'' \<and> deref s \<noteq> NL \<and>
      list_all (\<lambda>k. \<not> prefix k s) [''defined'', ''make'', ''exists'', ''empty'', ''target'', ''commands''])"

definition plain_text :: "cstring \<Rightarrow> bool" where
  "plain_text s = (\<forall>c \<in> set s. c \<noteq> DQ \<and> c \<noteq> CHR 0x5C \<and> c \<noteq> CHR ''$'')"

text \<open>
  What the value of an expression needs of the rest of the program, in the state \<open>v\<close> of the
  variables: a variable in braces has its value and is read without other effects; patterns of targets can be matched.
\<close>

definition reads_var :: "'v cond_env \<Rightarrow> 'v \<Rightarrow> cstring \<Rightarrow> cstring \<Rightarrow> bool" where
  "reads_var E v x val =
     (\<forall>st s err. vars st = v \<longrightarrow> var_parse E st (''${'' @ x @ ''}'' @ s) err = Some (Some val, length x + 3, st))"

fun eval_fn :: "'v cond_env \<Rightarrow> 'v \<Rightarrow> cond_fn \<Rightarrow> cstring \<Rightarrow> bool" where
  "eval_fn E v f a = (cond_do E f (cond_start v) a = Some True)"

fun beval :: "'v cond_env \<Rightarrow> cond_fn \<Rightarrow> bool \<Rightarrow> 'v \<Rightarrow> bexp \<Rightarrow> bool" where
  "beval E f neg v (Sym s) = (eval_fn E v f s \<noteq> neg)"
| "beval E f neg v (Call g a) = eval_fn E v g a"
| "beval E f neg v (Is x eq s) = ((var_value E v x = Some s) = eq)"
| "beval E f neg v (Neg b) = (\<not> beval E f neg v b)"
| "beval E f neg v (Conj a b) = (beval E f neg v a \<and> beval E f neg v b)"
| "beval E f neg v (Disj a b) = (beval E f neg v a \<or> beval E f neg v b)"

fun wf_c :: "'v cond_env \<Rightarrow> cond_fn \<Rightarrow> 'v \<Rightarrow> bexp \<Rightarrow> bool" where
  "wf_c E f v (Sym s) = (symbol s \<and> cond_do E f (cond_start v) s \<noteq> None)"
| "wf_c E f v (Call g a) = (plain_arg a \<and> cond_do E g (cond_start v) a \<noteq> None)"
| "wf_c E f v (Is x eq s) = (plain_text s \<and> (case var_value E v x of None \<Rightarrow> False | Some val \<Rightarrow> reads_var E v x val))"
| "wf_c E f v (Neg b) = wf_c E f v b"
| "wf_c E f v (Conj a b) = (wf_c E f v a \<and> wf_c E f v b)"
| "wf_c E f v (Disj a b) = (wf_c E f v a \<and> wf_c E f v b)"

lemma cond_do_start: "cond_do E f (cond_start (vars st)) a = cond_do E f st a"
  by (cases f) (simp_all add: cond_start_def)

text \<open>The parser returns the value of \<open>b\<close> and stands before the next token.\<close>

definition parses :: "'v cond_env \<Rightarrow> cond_nt \<Rightarrow> bexp \<Rightarrow> bool" where
  "parses E n b =
     (\<forall>d st u r. u \<in> follow \<longrightarrow> (n = NF \<longrightarrow> u \<noteq> And) \<longrightarrow> (n = NE \<longrightarrow> u \<noteq> And \<and> u \<noteq> Or) \<longrightarrow>
        raw (show_c n b @ after u r) st \<longrightarrow> wf_c E (condDefProc st) (vars st) b \<longrightarrow>
        (\<exists>t st'. cond_parse E n d st = Some (t, st') \<and> same st st' \<and> before u r st' \<and> t \<in> {TTrue, TFalse} \<and>
           (d \<longrightarrow> t = (if beval E (condDefProc st) (condInvert st) (vars st) b then TTrue else TFalse))))"


lemma parsesD:
  assumes "parses E n b" "u \<in> follow" "n = NF \<Longrightarrow> u \<noteq> And" "n = NE \<Longrightarrow> u \<noteq> And \<and> u \<noteq> Or"
    and "raw (show_c n b @ after u r) st" "wf_c E (condDefProc st) (vars st) b"
  obtains t st' where "cond_parse E n d st = Some (t, st')" "same st st'" "before u r st'" "t \<in> {TTrue, TFalse}"
    "d \<Longrightarrow> t = (if beval E (condDefProc st) (condInvert st) (vars st) b then TTrue else TFalse)"
  using assms unfolding parses_def by metis

lemma parses_run:
  assumes "parses E n b" "u \<in> follow" "n = NF \<longrightarrow> u \<noteq> And" "n = NE \<longrightarrow> u \<noteq> And \<and> u \<noteq> Or"
    and "raw (show_c n b @ after u r) st" "wf_c E f v b" "vars st = v" "condDefProc st = f" "condInvert st = neg"
  shows "\<exists>t st'. cond_parse E n d st = Some (t, st') \<and> same st st' \<and> before u r st' \<and> t \<in> {TTrue, TFalse} \<and>
           (d \<longrightarrow> t = (if beval E f neg v b then TTrue else TFalse))"
  using assms unfolding parses_def by blast

subsection \<open>From one nonterminal to the next\<close>

lemma beforeI: "raw (after u r) st \<Longrightarrow> before u r st"
  by (auto simp: before_def raw_def)

lemma before_raw: "raw (after u r) st \<longleftrightarrow> before u r st \<and> condPushed st = TNone"
  by (auto simp: before_def raw_def)

lemma parses_NF:
  assumes "parses E NT b" and "show_c NF b = show_c NT b"
  shows "parses E NF b"
  unfolding parses_def
proof (intro allI impI)
  fix d st u r
  assume u: "u \<in> follow" "NF = NF \<longrightarrow> u \<noteq> And" and st: "raw (show_c NF b @ after u r) st" "wf_c E (condDefProc st) (vars st) b"
  then obtain t st1 where 1: "cond_parse E NT d st = Some (t, st1)" "same st st1" "before u r st1" "t \<in> {TTrue, TFalse}"
      "d \<longrightarrow> t = (if beval E (condDefProc st) (condInvert st) (vars st) b then TTrue else TFalse)"
    using assms unfolding parses_def by (metis cond_nt.distinct(2) cond_nt.distinct(4))
  obtain st2 where "CondToken E d st1 = Some (u, st2)" "same st1 st2" "before u r (CondPushBack u st2)"
    using token_follow[OF u(1) 1(3)] by blast
  then show "\<exists>t st'. cond_parse E NF d st = Some (t, st') \<and> same st st' \<and> before u r st' \<and> t \<in> {TTrue, TFalse} \<and>
           (d \<longrightarrow> t = (if beval E (condDefProc st) (condInvert st) (vars st) b then TTrue else TFalse))"
    using 1 u by (auto simp: cond_parse.simps[of E NF] intro: same_trans)
qed

lemma parses_NE:
  assumes "parses E NF b" and "show_c NE b = show_c NF b"
  shows "parses E NE b"
  unfolding parses_def
proof (intro allI impI)
  fix d st u r
  assume u: "u \<in> follow" "NE = NE \<longrightarrow> u \<noteq> And \<and> u \<noteq> Or" and st: "raw (show_c NE b @ after u r) st" "wf_c E (condDefProc st) (vars st) b"
  then obtain t st1 where 1: "cond_parse E NF d st = Some (t, st1)" "same st st1" "before u r st1" "t \<in> {TTrue, TFalse}"
      "d \<longrightarrow> t = (if beval E (condDefProc st) (condInvert st) (vars st) b then TTrue else TFalse)"
    using assms unfolding parses_def by (metis cond_nt.distinct(5))
  obtain st2 where "CondToken E d st1 = Some (u, st2)" "same st1 st2" "before u r (CondPushBack u st2)"
    using token_follow[OF u(1) 1(3)] by blast
  then show "\<exists>t st'. cond_parse E NE d st = Some (t, st') \<and> same st st' \<and> before u r st' \<and> t \<in> {TTrue, TFalse} \<and>
           (d \<longrightarrow> t = (if beval E (condDefProc st) (condInvert st) (vars st) b then TTrue else TFalse))"
    using 1 u by (auto simp: cond_parse.simps[of E NE] intro: same_trans)
qed

lemma CondToken_char:
  assumes "raw (c # s) st" "\<not> is_blank c"
  shows "\<exists>q. text_at q = Some (c # s) \<and> cond_skip is_blank st = Some (st\<lparr>condExpr := q\<rparr>) \<and> condPushed st = TNone"
  using CondToken_raw[OF assms(1)] assms(2) by simp

lemma parses_paren:
  assumes "parses E NE b" and "show_c NT b = ''('' @ show_c NE b @ '')''"
  shows "parses E NT b"
  unfolding parses_def
proof (intro allI impI)
  fix d st u r
  assume u: "u \<in> follow" and raw: "raw (show_c NT b @ after u r) st" and wf: "wf_c E (condDefProc st) (vars st) b"
  obtain q where q: "text_at q = Some (CHR ''('' # show_c NE b @ after RParen (after u r))"
      "cond_skip is_blank st = Some (st\<lparr>condExpr := q\<rparr>)" "condPushed st = TNone"
    using CondToken_char[of "CHR ''(''" "show_c NE b @ CHR '')'' # after u r" st] raw assms(2) by auto
  define st1 where "st1 = cond_move 1 (st\<lparr>condExpr := q\<rparr>)"
  have tok: "CondToken E d st = Some (LParen, st1)" using q by (simp add: CondToken_def st1_def)
  have s1: "same st st1" "raw (show_c NE b @ after RParen (after u r)) st1"
    using q text_at_plus1[OF q(1)] by (auto simp: st1_def same_def raw_def cond_move_def)
  from s1(1) have v: "vars st1 = vars st" "condDefProc st1 = condDefProc st" "condInvert st1 = condInvert st"
    by (auto dest: same_sel)
  have "RParen \<in> follow" by (simp add: follow_def)
  then obtain t st2 where 2: "cond_parse E NE d st1 = Some (t, st2)" "same st1 st2" "before RParen (after u r) st2"
      "t \<in> {TTrue, TFalse}" "d \<longrightarrow> t = (if beval E (condDefProc st) (condInvert st) (vars st) b then TTrue else TFalse)"
    using parsesD[OF assms(1), of RParen "after u r" st1 d] s1(2) wf v by (auto simp: follow_def)
  obtain st3 where "CondToken E d st2 = Some (RParen, st3)" "same st2 st3" "raw (after u r) st3"
    using token_follow[OF \<open>RParen \<in> follow\<close> 2(3)] by auto
  then show "\<exists>t st'. cond_parse E NT d st = Some (t, st') \<and> same st st' \<and> before u r st' \<and> t \<in> {TTrue, TFalse} \<and>
           (d \<longrightarrow> t = (if beval E (condDefProc st) (condInvert st) (vars st) b then TTrue else TFalse))"
    using 2 tok s1(1) by (auto simp: cond_parse.simps[of E NT] before_raw intro: same_trans)
qed


lemma parses_levels:
  "parses E NT b \<Longrightarrow> show_c NF b = show_c NT b \<Longrightarrow> show_c NE b = show_c NF b \<Longrightarrow> parses E n b"
  using parses_NF[of E b] parses_NE[of E b] by (cases n) auto

subsection \<open>The terms\<close>

lemma after_first: "u \<in> follow \<Longrightarrow> after u r = [] \<or> deref (after u r) \<in> set '' )''"
  by (auto simp: follow_def AND_def OR_def)

lemma prefix_after:
  assumes "u \<in> follow" "\<forall>c \<in> set k. c \<notin> set '' )''" "\<not> prefix k s"
  shows "\<not> prefix k (s @ after u r)"
proof
  assume "prefix k (s @ after u r)"
  then obtain k' where k: "k = s @ k'" "prefix k' (after u r)" using assms(3) by (auto simp: prefix_append)
  from k(1) assms(3) have "k' \<noteq> []" by fastforce
  then obtain c l where "k' = c # l" by (cases k') simp
  then show False using k assms(2) after_first[OF assms(1), of r] by (cases "after u r") auto
qed

lemma parses_Sym: "parses E NT (Sym s)"
  unfolding parses_def
proof (intro allI impI)
  fix d st u r
  assume u: "u \<in> follow" and raw: "raw (show_c NT (Sym s) @ after u r) st" and wf: "wf_c E (condDefProc st) (vars st) (Sym s)"
  from wf have s: "s \<noteq> []" "plain_arg s" "deref s \<notin> set ''(!''" "deref s \<noteq> NL"
    and k: "list_all (\<lambda>k. \<not> prefix k s) [''defined'', ''make'', ''exists'', ''empty'', ''target'', ''commands'']"
    by (auto simp: symbol_def)
  obtain c s' where cs: "s = c # s'" using s(1) by (cases s) auto
  have "\<not> is_blank c" using s(2) cs not_blank_plain by simp
  moreover have "\<not> arg_end c \<and> c \<noteq> CHR ''$''" using s(2) cs by (simp add: plain_arg_def)
  moreover have "c \<noteq> CHR ''('' \<and> c \<noteq> CHR ''!'' \<and> c \<noteq> NL" using s(3,4) cs by simp
  ultimately have c: "\<not> is_blank c" "\<not> arg_end c" "c \<noteq> CHR ''$''" "c \<noteq> CHR ''(''" "c \<noteq> CHR ''!''" "c \<noteq> NL" by auto
  obtain q where q: "text_at q = Some (s @ after u r)" "cond_skip is_blank st = Some (st\<lparr>condExpr := q\<rparr>)" "condPushed st = TNone"
    using CondToken_char[of c "s' @ after u r" st] raw c(1) cs by auto
  define st1 where "st1 = st\<lparr>condExpr := q\<rparr>"
  have "\<not> prefix ''defined'' (s @ after u r) \<and> \<not> prefix ''make'' (s @ after u r) \<and> \<not> prefix ''exists'' (s @ after u r) \<and>
        \<not> prefix ''empty'' (s @ after u r) \<and> \<not> prefix ''target'' (s @ after u r) \<and> \<not> prefix ''commands'' (s @ after u r)"
    using k by (intro conjI prefix_after[OF u]) simp_all
  then have "CondToken E d st = cond_default E d st1"
    using q c cs by (auto simp: CondToken_def st1_def arg_end_def simp del: after.simps)
  moreover obtain q2 where "CondGetArg E [] False st1 = Some (length s + 1, s, st1\<lparr>condExpr := q2\<rparr>)"
      and q2: "text_at q2 = Some (dropWhile is_blank (after u r))"
    using GetArg_symbol[OF s(2,1) u, of st1 r E "[]"] q(1) by (auto simp: st1_def)
  moreover obtain b where b: "cond_do E (condDefProc st) st s = Some b" using wf by (auto simp: cond_do_start)
  ultimately obtain t where t: "CondToken E d st = Some (t, st\<lparr>condExpr := q2\<rparr>)" "t \<in> {TTrue, TFalse}"
      "d \<longrightarrow> t = (if b \<noteq> condInvert st then TTrue else TFalse)"
    using apply_value[of E "condDefProc st" "st\<lparr>condExpr := q2\<rparr>" s b d "condInvert st"]
    by (auto simp: cond_default_def st1_def cond_do_vars)
  have "before u r (st\<lparr>condExpr := q2\<rparr>)" using q(3) q2 by (intro beforeI) (auto simp: raw_def)
  then show "\<exists>t st'. cond_parse E NT d st = Some (t, st') \<and> same st st' \<and> before u r st' \<and> t \<in> {TTrue, TFalse} \<and>
           (d \<longrightarrow> t = (if beval E (condDefProc st) (condInvert st) (vars st) (Sym s) then TTrue else TFalse))"
    using t b by (auto simp: cond_parse.simps[of E NT] cond_do_start)
qed

lemma CondToken_fn:
  assumes "condPushed st = TNone" "cond_skip is_blank st = Some st1" "text_at (condExpr st1) = Some (fn_name f @ CHR ''('' # x)"
  shows "CondToken E d st = cond_call E d (fn_name f) f st1"
  using assms by (cases f) (simp_all add: CondToken_def)

lemma fn_name_first: "\<exists>c k. fn_name f = c # k \<and> \<not> is_blank c"
  by (cases f) (simp_all add: is_blank_def)

lemma parses_Call: "parses E NT (Call f a)"
  unfolding parses_def
proof (intro allI impI)
  fix d st u r
  assume u: "u \<in> follow" and raw: "raw (show_c NT (Call f a) @ after u r) st" and wf: "wf_c E (condDefProc st) (vars st) (Call f a)"
  obtain c k where ck: "fn_name f = c # k" "\<not> is_blank c" using fn_name_first by blast
  obtain q where q: "text_at q = Some (fn_name f @ CHR ''('' # a @ CHR '')'' # after u r)"
      "cond_skip is_blank st = Some (st\<lparr>condExpr := q\<rparr>)" "condPushed st = TNone"
    using CondToken_char[of c "k @ CHR ''('' # a @ CHR '')'' # after u r" st] raw ck by auto
  define st1 where "st1 = cond_move (int (length (fn_name f))) (st\<lparr>condExpr := q\<rparr>)"
  have "text_at (condExpr st1) = Some (CHR ''('' # a @ CHR '')'' # after u r)"
    using text_at_plus[OF q(1)] by (simp add: st1_def cond_move_def)
  then obtain q2 where q2: "CondGetArg E (fn_name f) True st1 = Some (length a + 1, a, st1\<lparr>condExpr := q2\<rparr>)"
      "text_at q2 = Some (after u r)"
    using GetArg_call[of a st1 "after u r"] wf by auto
  obtain b where b: "cond_do E f st a = Some b" using wf by (auto simp: cond_do_start)
  have st1: "st1\<lparr>condExpr := p\<rparr> = st\<lparr>condExpr := p\<rparr>" for p by (simp add: st1_def cond_move_def)
  obtain t where t: "CondToken E d st = Some (t, st\<lparr>condExpr := q2\<rparr>)" "t \<in> {TTrue, TFalse}"
      "d \<longrightarrow> t = (if b then TTrue else TFalse)"
    using apply_value[of E f "st\<lparr>condExpr := q2\<rparr>" a b d False] b q2(1)
      CondToken_fn[OF q(3,2), of f "a @ CHR '')'' # after u r" E d] q(1)
    by (auto simp: cond_call_def st1 cond_do_vars st1_def[symmetric])
  have "before u r (st\<lparr>condExpr := q2\<rparr>)" using q(3) q2 by (intro beforeI) (auto simp: raw_def)
  then show "\<exists>t st'. cond_parse E NT d st = Some (t, st') \<and> same st st' \<and> before u r st' \<and> t \<in> {TTrue, TFalse} \<and>
           (d \<longrightarrow> t = (if beval E (condDefProc st) (condInvert st) (vars st) (Call f a) then TTrue else TFalse))"
    using t b by (auto simp: cond_parse.simps[of E NT] cond_do_start)
qed

lemma str_loop_plain:
  assumes "plain_text s" "text_at p = Some (s @ DQ # r)"
  shows "\<exists>q. str_loop E d True p buf st = Some (buf @ s, q, st) \<and> text_at q = Some (DQ # r)"
  using assms
proof (induction s arbitrary: p buf)
  case Nil
  then show ?case by (simp add: str_loop.simps)
next
  case (Cons c s)
  from Cons.prems(2) have "text_at (cp_plus p 1) = Some (s @ DQ # r)" by (simp add: text_at_plus1)
  then show ?case
    using Cons.IH[of "cp_plus p 1" "buf @ [c]"] Cons.prems by (auto simp: plain_text_def str_loop.simps[of E d True p])
qed

lemma space_simps [simp]: "isspace CHR '' ''" "\<not> isspace CHR ''=''" "\<not> isspace CHR ''!''" "\<not> isspace DQ"
  by (simp_all add: isspace_def byte_def)

lemma compare_quoted:
  assumes "plain_text s" "text_at (condExpr st) = Some (quoted s @ r)"
  shows "\<exists>q. do_compare E d lhs (if eq then CHR ''='' else CHR ''!'', CHR ''='') (condExpr st) st =
             Some (if (lhs = s) = eq then TTrue else TFalse, st\<lparr>condExpr := q\<rparr>) \<and> text_at q = Some r"
proof -
  from assms(2) have 1: "text_at (cp_plus (condExpr st) 1) = Some (s @ DQ # r)" by (simp add: quoted_def text_at_plus1)
  obtain q where q: "str_loop E d True (cp_plus (condExpr st) 1) [] st = Some (s, q, st)" "text_at q = Some (DQ # r)"
    using str_loop_plain[OF assms(1) 1, of E d "[]" st] by auto
  then show ?thesis using assms(2)
    by (cases eq) (auto simp: do_compare_def string_compare_def quoted_def Let_def dest: text_at_plus1)
qed

lemma parses_Is: "parses E NT (Is x eq s)"
  unfolding parses_def
proof (intro allI impI)
  fix d st u r
  assume u: "u \<in> follow" and raw: "raw (show_c NT (Is x eq s) @ after u r) st" and wf: "wf_c E (condDefProc st) (vars st) (Is x eq s)"
  from wf obtain val where s: "plain_text s" and val: "var_value E (vars st) x = Some val" "reads_var E (vars st) x val"
    by (auto split: option.splits)
  let ?rest = "(if eq then '' == '' else '' != '') @ quoted s @ after u r"
  obtain q where q: "text_at q = Some (''${'' @ x @ ''}'' @ ?rest)"
      "cond_skip is_blank st = Some (st\<lparr>condExpr := q\<rparr>)" "condPushed st = TNone"
    using CondToken_char[of "CHR ''$''" "''{'' @ x @ ''}'' @ ?rest" st] raw by (cases eq) (auto simp: is_blank_def)
  define st1 where "st1 = cond_move (int (length x) + 3) (st\<lparr>condExpr := q\<rparr>)"
  have v: "var_parse E (st\<lparr>condExpr := q\<rparr>) (''${'' @ x @ ''}'' @ ?rest) d = Some (Some val, length x + 3, st\<lparr>condExpr := q\<rparr>)"
    using val(2) unfolding reads_var_def by simp
  have t1: "text_at (condExpr st1) = Some ?rest"
    using text_at_plus[of q "''${'' @ x @ ''}''" ?rest] q(1) by (simp add: st1_def cond_move_def add.commute)
  obtain p1 where p1: "cond_skip isspace st1 = Some (st1\<lparr>condExpr := p1\<rparr>)"
      "text_at p1 = Some ((if eq then ''== '' else ''!= '') @ quoted s @ after u r)"
    using cond_skip_Some[OF t1, of isspace] by (cases eq) auto
  define st2 where "st2 = cond_move 2 (st1\<lparr>condExpr := p1\<rparr>)"
  have "text_at (condExpr st2) = Some (CHR '' '' # quoted s @ after u r)"
    using p1(2) by (cases eq) (auto simp: st2_def cond_move_def dest!: text_at_plus2)
  then obtain p2 where p2: "cond_skip isspace st2 = Some (st2\<lparr>condExpr := p2\<rparr>)" "text_at p2 = Some (quoted s @ after u r)"
    using cond_skip_Some[of st2 _ isspace] by (fastforce simp: quoted_def)
  obtain q2 where q2: "do_compare E d val (if eq then CHR ''='' else CHR ''!'', CHR ''='') p2 (st2\<lparr>condExpr := p2\<rparr>) =
       Some (if (val = s) = eq then TTrue else TFalse, st2\<lparr>condExpr := q2\<rparr>)" "text_at q2 = Some (after u r)"
    using compare_quoted[OF s, of "st2\<lparr>condExpr := p2\<rparr>" "after u r" E d val eq] p2(2) by auto
  have st2: "st2\<lparr>condExpr := p\<rparr> = st\<lparr>condExpr := p\<rparr>" for p by (simp add: st2_def st1_def cond_move_def)
  have move0: "cond_move 0 y = y" for y :: "'a cond_state" by (simp add: cond_move_def cp_plus_def)
  have "cond_variable E d (st\<lparr>condExpr := q\<rparr>) = Some (if (val = s) = eq then TTrue else TFalse, st\<lparr>condExpr := q2\<rparr>)"
    using q(1) v t1 p1 p2 q2
    by (cases eq) (simp_all add: cond_variable_def Let_def st1_def[symmetric] st2_def[symmetric] st2 move0 quoted_def)
  then have "CondToken E d st = Some (if (val = s) = eq then TTrue else TFalse, st\<lparr>condExpr := q2\<rparr>)"
    using q by (simp add: CondToken_def)
  moreover have "before u r (st\<lparr>condExpr := q2\<rparr>)" using q(3) q2 by (intro beforeI) (auto simp: raw_def)
  ultimately show "\<exists>t st'. cond_parse E NT d st = Some (t, st') \<and> same st st' \<and> before u r st' \<and> t \<in> {TTrue, TFalse} \<and>
           (d \<longrightarrow> t = (if beval E (condDefProc st) (condInvert st) (vars st) (Is x eq s) then TTrue else TFalse))"
    using val(1) by (auto simp: cond_parse.simps[of E NT])
qed


lemma parses_Neg:
  assumes "parses E NT b"
  shows "parses E NT (Neg b)"
  unfolding parses_def
proof (intro allI impI)
  fix d st u r
  assume u: "u \<in> follow" and raw: "raw (show_c NT (Neg b) @ after u r) st" and wf: "wf_c E (condDefProc st) (vars st) (Neg b)"
  obtain q where q: "text_at q = Some (CHR ''!'' # show_c NT b @ after u r)"
      "cond_skip is_blank st = Some (st\<lparr>condExpr := q\<rparr>)" "condPushed st = TNone"
    using CondToken_char[of "CHR ''!''" "show_c NT b @ after u r" st] raw by auto
  define st1 where "st1 = cond_move 1 (st\<lparr>condExpr := q\<rparr>)"
  have tok: "CondToken E d st = Some (TNot, st1)" using q by (simp add: CondToken_def st1_def)
  have s1: "same st st1" "raw (show_c NT b @ after u r) st1"
    using q text_at_plus1[OF q(1)] by (auto simp: st1_def same_def raw_def cond_move_def)
  from s1(1) have v: "vars st1 = vars st" "condDefProc st1 = condDefProc st" "condInvert st1 = condInvert st"
    by (auto dest: same_sel)
  obtain t st2 where 2: "cond_parse E NT d st1 = Some (t, st2)" "same st1 st2" "before u r st2"
      "t \<in> {TTrue, TFalse}" "d \<longrightarrow> t = (if beval E (condDefProc st) (condInvert st) (vars st) b then TTrue else TFalse)"
    using parsesD[OF assms u, of r st1 d] s1(2) wf v by auto
  then show "\<exists>t st'. cond_parse E NT d st = Some (t, st') \<and> same st st' \<and> before u r st' \<and> t \<in> {TTrue, TFalse} \<and>
           (d \<longrightarrow> t = (if beval E (condDefProc st) (condInvert st) (vars st) (Neg b) then TTrue else TFalse))"
    using tok same_trans[OF s1(1) 2(2)] by (auto simp: cond_parse.simps[of E NT d st])
qed

text \<open>The two sides of an operator: the right one is read without evaluation when the left one decides.\<close>

lemma parses_Conj:
  assumes a: "parses E NT a" and b: "parses E NF b"
  shows "parses E NF (Conj a b)"
  unfolding parses_def
proof (intro allI impI)
  fix d st u r
  assume u: "u \<in> follow" "NF = NF \<longrightarrow> u \<noteq> And" and raw: "raw (show_c NF (Conj a b) @ after u r) st"
    and wf: "wf_c E (condDefProc st) (vars st) (Conj a b)"
  have And: "And \<in> follow" by (simp add: follow_def)
  obtain t st1 where 1: "cond_parse E NT d st = Some (t, st1)" "same st st1" "before And (show_c NF b @ after u r) st1"
      "t \<in> {TTrue, TFalse}" "d \<Longrightarrow> t = (if beval E (condDefProc st) (condInvert st) (vars st) a then TTrue else TFalse)"
    using parsesD[OF a And, of "show_c NF b @ after u r" st d] raw wf by auto
  obtain st2 where 2: "CondToken E d st1 = Some (And, st2)" "same st1 st2" "raw (show_c NF b @ after u r) st2"
    using token_follow[OF And 1(3)] by auto
  have s: "same st st2" using same_trans[OF 1(2) 2(2)] .
  then have v: "vars st2 = vars st" "condDefProc st2 = condDefProc st" "condInvert st2 = condInvert st"
    by (auto dest: same_sel)
  define d' where "d' = (if t = TTrue then d else False)"
  obtain t' st3 where 3: "cond_parse E NF d' st2 = Some (t', st3)" "same st2 st3" "before u r st3" "t' \<in> {TTrue, TFalse}"
      "d' \<longrightarrow> t' = (if beval E (condDefProc st) (condInvert st) (vars st) b then TTrue else TFalse)"
    using parses_run[OF b u(1) _ _ 2(3) _ v, of d'] u(2) wf by auto
  then show "\<exists>t st'. cond_parse E NF d st = Some (t, st') \<and> same st st' \<and> before u r st' \<and> t \<in> {TTrue, TFalse} \<and>
           (d \<longrightarrow> t = (if beval E (condDefProc st) (condInvert st) (vars st) (Conj a b) then TTrue else TFalse))"
    using 1 2(1) same_trans[OF s 3(2)] by (auto simp: cond_parse.simps[of E NF d st] d'_def split: if_splits)
qed

lemma parses_Disj:
  assumes a: "parses E NF a" and b: "parses E NE b"
  shows "parses E NE (Disj a b)"
  unfolding parses_def
proof (intro allI impI)
  fix d st u r
  assume u: "u \<in> follow" "NE = NE \<longrightarrow> u \<noteq> And \<and> u \<noteq> Or" and raw: "raw (show_c NE (Disj a b) @ after u r) st"
    and wf: "wf_c E (condDefProc st) (vars st) (Disj a b)"
  have Or: "Or \<in> follow" by (simp add: follow_def)
  obtain t st1 where 1: "cond_parse E NF d st = Some (t, st1)" "same st st1" "before Or (show_c NE b @ after u r) st1"
      "t \<in> {TTrue, TFalse}" "d \<Longrightarrow> t = (if beval E (condDefProc st) (condInvert st) (vars st) a then TTrue else TFalse)"
    using parsesD[OF a Or, of "show_c NE b @ after u r" st d] raw wf by auto
  obtain st2 where 2: "CondToken E d st1 = Some (Or, st2)" "same st1 st2" "raw (show_c NE b @ after u r) st2"
    using token_follow[OF Or 1(3)] by auto
  have s: "same st st2" using same_trans[OF 1(2) 2(2)] .
  then have v: "vars st2 = vars st" "condDefProc st2 = condDefProc st" "condInvert st2 = condInvert st"
    by (auto dest: same_sel)
  define d' where "d' = (if t = TFalse then d else False)"
  obtain t' st3 where 3: "cond_parse E NE d' st2 = Some (t', st3)" "same st2 st3" "before u r st3" "t' \<in> {TTrue, TFalse}"
      "d' \<longrightarrow> t' = (if beval E (condDefProc st) (condInvert st) (vars st) b then TTrue else TFalse)"
    using parses_run[OF b u(1) _ _ 2(3) _ v, of d'] u(2) wf by auto
  then show "\<exists>t st'. cond_parse E NE d st = Some (t, st') \<and> same st st' \<and> before u r st' \<and> t \<in> {TTrue, TFalse} \<and>
           (d \<longrightarrow> t = (if beval E (condDefProc st) (condInvert st) (vars st) (Disj a b) then TTrue else TFalse))"
    using 1 2(1) same_trans[OF s 3(2)] by (auto simp: cond_parse.simps[of E NE d st] d'_def split: if_splits)
qed

lemma parses_all: "parses E n b"
proof (induction b arbitrary: n)
  case (Sym s)
  show ?case by (rule parses_levels[OF parses_Sym]) simp_all
next
  case (Call f a)
  show ?case by (rule parses_levels[OF parses_Call]) simp_all
next
  case (Is x eq s)
  show ?case by (rule parses_levels[OF parses_Is]) simp_all
next
  case (Neg b)
  then show ?case by (intro parses_levels[OF parses_Neg]) simp_all
next
  case (Conj a b)
  have F: "parses E NF (Conj a b)" using Conj parses_Conj by blast
  have E: "parses E NE (Conj a b)" by (rule parses_NE[OF F]) simp
  have "parses E NT (Conj a b)" by (rule parses_paren[OF E]) simp
  then show ?case using F E by (cases n) auto
next
  case (Disj a b)
  have E: "parses E NE (Disj a b)" using Disj parses_Disj by blast
  have T: "parses E NT (Disj a b)" by (rule parses_paren[OF E]) simp
  have "parses E NF (Disj a b)" by (rule parses_NF[OF T]) simp
  then show ?case using T E by (cases n) auto
qed

lemma expression_value:
  assumes "wf_c E f v b" and "f = (if dosetup then CondDoDefined else condDefProc st)"
    and "neg = (if dosetup then False else condInvert st)" and "vars st = v"
  shows "\<exists>st'. Cond_EvalExpression E dosetup (show_c NE b) ep st = Some (COND_PARSE, Some (beval E f neg v b), st') \<and>
           st' = st\<lparr>condExpr := condExpr st', condPushed := TNone, lines := lines st + 1,
                    condDefProc := f, condInvert := neg\<rparr> \<and> text_at (condExpr st') = Some []"
proof -
  let ?ln = "dropWhile is_blank (show_c NE b)"
  define st0 where "st0 = (if dosetup then st\<lparr>condDefProc := CondDoDefined, condInvert := False\<rparr> else st)"
  define st1 where "st1 = st0\<lparr>lines := Suc (lines st0), condPushed := TNone,
        condExpr := \<lparr>cp_id = Suc (lines st0), cp_line = ?ln, cp_off = 0\<rparr>\<rparr>"
  have v: "vars st1 = v" "condDefProc st1 = f" "condInvert st1 = neg"
    using assms by (auto simp: st1_def st0_def)
  have dd: "dropWhile is_blank ?ln = ?ln" by simp
  have raw: "raw (show_c NE b @ after EndOfFile []) st1"
    by (simp add: raw_def st1_def text_at_def)
  have "EndOfFile \<in> follow" by (simp add: follow_def)
  then obtain t st2 where 2: "cond_parse E NE True st1 = Some (t, st2)" "same st1 st2" "before EndOfFile [] st2"
      "t = (if beval E f neg v b then TTrue else TFalse)"
    using parses_run[OF parses_all _ _ _ raw assms(1) v, of True] by auto
  obtain st3 where 3: "CondToken E True st2 = Some (EndOfFile, st3)" "same st2 st3" "condPushed st3 = TNone"
      "text_at (condExpr st3) = Some []"
    using token_follow[OF \<open>EndOfFile \<in> follow\<close> 2(3)] by (auto simp: before_def CondPushBack_def)
  from 2 3 have "Cond_EvalExpression E dosetup (show_c NE b) ep st = Some (COND_PARSE, Some (beval E f neg v b), st3)"
    unfolding Cond_EvalExpression_def CondE_def
    by (simp add: Let_def st0_def[symmetric] st1_def[symmetric])
  moreover have "st3 = st\<lparr>condExpr := condExpr st3, condPushed := TNone, lines := lines st + 1, condDefProc := f, condInvert := neg\<rparr>"
    using same_trans[OF 2(2) 3(2)] 3(3) assms by (cases st) (auto simp: same_def st1_def st0_def)
  ultimately show ?thesis using 3(4) by blast
qed

text \<open>
  C16. A written expression has the value it denotes: operators, negation, parentheses and calls are
  read as they are printed, \<open>&&\<close> binds more strongly than \<open>||\<close>, and the evaluation changes
  neither variables nor messages.
\<close>

theorem EvalExpression_value:
  assumes "wf_c E f v b" and "f = (if dosetup then CondDoDefined else condDefProc st)"
    and "neg = (if dosetup then False else condInvert st)" and "vars st = v"
  shows "\<exists>st'. Cond_EvalExpression E dosetup (show_c NE b) ep st = Some (COND_PARSE, Some (beval E f neg v b), st') \<and>
           st' = st\<lparr>condExpr := condExpr st', condPushed := TNone, lines := lines st + 1,
                    condDefProc := f, condInvert := neg\<rparr> \<and> text_at (condExpr st') = Some []"
  using assms by (rule expression_value)

end
