(* ===== verification/Makeread.thy ===== *)
theory Makeread
  imports Cond
begin

text \<open>
  How the build tool reads a makefile: \<^verbatim>\<open>ParseReadLine\<close>, \<^verbatim>\<open>ParseSkipLine\<close>,
  \<^verbatim>\<open>ParseEOF\<close> and the loop of \<^verbatim>\<open>Parse_File\<close> in \<^verbatim>\<open>usr.bin/bmake/parse.c\<close>,
  and the loops of \<^verbatim>\<open>for.c\<close>, whose bodies are read as sources of their own.
\<close>

subsection \<open>Sources\<close>

text \<open>
  \<open>ptr\<close>: the source is a string in memory, not a file; its bytes are signed, so that the byte
  \<^verbatim>\<open>0xff\<close> is \<^verbatim>\<open>EOF\<close>.
\<close>

fun ParseReadc :: "bool \<Rightarrow> string \<Rightarrow> char option \<times> string" where
  "ParseReadc ptr [] = (None, [])"
| "ParseReadc ptr (c # s) = (if ptr \<and> c = CHR 0xFF then None else Some c, s)"

definition ParseUnreadc :: "char \<Rightarrow> string \<Rightarrow> string" where
  "ParseUnreadc c s = c # s"

fun next_nonblank :: "bool \<Rightarrow> string \<Rightarrow> char option \<times> string" where
  "next_nonblank ptr [] = (None, [])"
| "next_nonblank ptr (c # s) = (if is_blank c then next_nonblank ptr s else ParseReadc ptr (c # s))"

fun skip_comment :: "bool \<Rightarrow> string \<Rightarrow> string" where
  "skip_comment ptr [] = []"
| "skip_comment ptr (c # s) = (if c = NL \<or> ptr \<and> c = CHR 0xFF then s else skip_comment ptr s)"

lemma ParseReadc_length: "ParseReadc ptr s = (Some c, s') \<Longrightarrow> length s' < length s"
  by (cases s) (auto split: if_splits)

lemma next_nonblank_length: "next_nonblank ptr s = (c, s') \<Longrightarrow> length s' \<le> length s"
  by (induction ptr s rule: next_nonblank.induct) (auto split: if_splits)

subsection \<open>Lines that are read\<close>

record line_state =
  semiNL :: bool
  ignDepOp :: bool
  ignComment :: bool
  lastc :: char
  lbuf :: string

text \<open>The character \<open>c\<close> from the label \<^verbatim>\<open>test_char\<close> on; the first result tells whether the line ends.\<close>

definition test_char :: "bool \<Rightarrow> line_state \<Rightarrow> char \<Rightarrow> string \<Rightarrow> bool \<times> line_state \<times> string" where
  "test_char ptr r c s =
     (if c = CHR '';'' \<and> semiNL r then (True, r, ParseUnreadc (CHR 0x09) s)
      else if c = CHR ''#'' \<and> \<not> ignComment r
      then (if lastc r \<noteq> CHR 0x5C then (True, r, skip_comment ptr s) else (False, r\<lparr>lastc := c\<rparr>, s))
      else let r = (if c = CHR ''='' then
                      (if \<not> semiNL r then r\<lparr>ignDepOp := True\<rparr>
                       else if lastc r = CHR '':'' \<or> lastc r = CHR ''!'' then r\<lparr>ignDepOp := True, semiNL := False\<rparr>
                       else r)
                    else if (c = CHR '':'' \<or> c = CHR ''!'') \<and> \<not> ignDepOp r then r\<lparr>semiNL := True\<rparr>
                    else r)
           in (False, r\<lparr>lbuf := lbuf r @ [lastc r], lastc := c\<rparr>, s))"

lemma test_char_rest: "test_char ptr r c s = (False, r', s') \<Longrightarrow> s' = s"
  by (auto simp: test_char_def Let_def split: if_splits)

function read_loop :: "bool \<Rightarrow> nat \<Rightarrow> line_state \<Rightarrow> string \<Rightarrow> line_state \<times> nat \<times> string" where
  "read_loop ptr n r s =
     (case ParseReadc ptr s of
        (None, s) \<Rightarrow> (r, n, s)
      | (Some c, s) \<Rightarrow>
          if c = NL \<and> lastc r \<noteq> CHR 0x5C then (r, n, s)
          else if c = NL then
            (let r = r\<lparr>lastc := CHR '' ''\<rparr> in
             case next_nonblank ptr s of
               (None, s) \<Rightarrow> (r, n + 1, s)
             | (Some c, s) \<Rightarrow>
                 if c = NL then (r, n + 1, s)
                 else case test_char ptr r c s of
                        (fin, r, s) \<Rightarrow> if fin then (r, n + 1, s) else read_loop ptr (n + 1) r s)
          else case test_char ptr r c s of
                 (fin, r, s) \<Rightarrow> if fin then (r, n, s) else read_loop ptr n r s)"
  by auto
termination
  by (relation "measure (\<lambda>(ptr, n, r, s). length s)")
    (auto dest!: ParseReadc_length[OF sym] next_nonblank_length[OF sym] test_char_rest[OF sym])

declare read_loop.simps [simp del]

text \<open>Blanks at the end of the line, unless a backslash is before them; the line is reversed.\<close>

fun strip_rev :: "string \<Rightarrow> string" where
  "strip_rev (x # y # zs) = (if is_blank x \<and> y \<noteq> CHR 0x5C then strip_rev (y # zs) else x # y # zs)"
| "strip_rev s = s"

definition strip_line :: "cstring \<Rightarrow> cstring" where
  "strip_line l = rev (strip_rev (rev l))"

text \<open>The line and the number of lines read so far; empty lines are passed over.\<close>

definition raw_line :: "bool \<Rightarrow> nat \<Rightarrow> string \<Rightarrow> cstring option \<times> nat \<times> string" where
  "raw_line ptr n s =
     (let n = n + length (takeWhile (\<lambda>c. c = NL) s) in
      case ParseReadc ptr (dropWhile (\<lambda>c. c = NL) s) of
        (None, s) \<Rightarrow> (None, n, s)
      | (Some c, s) \<Rightarrow>
          let s = (if c = CHR ''#'' then ParseUnreadc c s else s);
              tab = (c = CHR 0x09);
              (r, n, s) = read_loop ptr n \<lparr>semiNL = False, ignDepOp = tab, ignComment = tab, lastc = c, lbuf = []\<rparr> s;
              b = lbuf r @ (if lastc r \<noteq> NUL then [lastc r] else [])
          in (Some (strip_line (c_str b)), n + 1, s))"

subsection \<open>Lines that are skipped\<close>

function skip_chars :: "bool \<Rightarrow> char \<Rightarrow> string \<Rightarrow> nat \<Rightarrow> string \<Rightarrow> string option \<times> nat \<times> string" where
  "skip_chars ptr lc buf n s =
     (case ParseReadc ptr s of
        (None, s) \<Rightarrow> (None, n, s)
      | (Some c, s) \<Rightarrow>
          if c = NL \<and> lc \<noteq> CHR 0x5C then (Some buf, n, s)
          else if c = NL then
            (case next_nonblank ptr s of
               (None, s) \<Rightarrow> (None, n + 1, s)
             | (Some c, s) \<Rightarrow> skip_chars ptr c (butlast buf @ [CHR '' '', c]) (n + 1) s)
          else skip_chars ptr c (buf @ [c]) n s)"
  by auto
termination
  by (relation "measure (\<lambda>(ptr, lc, buf, n, s). length s)") (auto dest!: ParseReadc_length[OF sym] next_nonblank_length[OF sym])

declare skip_chars.simps [simp del]

lemma skip_chars_length: "skip_chars ptr lc buf n s = (Some b, n', s') \<Longrightarrow> length s' < length s"
proof (induction ptr lc buf n s rule: skip_chars.induct)
  case (1 ptr lc buf n s)
  obtain c s1 where c: "ParseReadc ptr s = (Some c, s1)"
    using "1.prems" by (subst (asm) skip_chars.simps) (auto split: prod.splits option.splits)
  note l1 = ParseReadc_length[OF c]
  show ?case
  proof (cases "c = NL \<and> lc = CHR 0x5C")
    case True
    obtain d s2 where d: "next_nonblank ptr s1 = (Some d, s2)"
      using "1.prems" c True by (subst (asm) skip_chars.simps) (auto split: prod.splits option.splits)
    have "skip_chars ptr d (butlast buf @ [CHR '' '', d]) (Suc n) s2 = (Some b, n', s')"
      using "1.prems" c d True by (subst (asm) skip_chars.simps) simp
    then have "length s' < length s2" using "1.IH"(1) c d True by simp
    then show ?thesis using l1 next_nonblank_length[OF d] by simp
  next
    case False
    then show ?thesis using 1 c l1 by (fastforce simp: skip_chars.simps[of ptr lc] split: if_splits)
  qed
qed

function ParseSkipLine :: "bool \<Rightarrow> bool \<Rightarrow> nat \<Rightarrow> string \<Rightarrow> cstring option \<times> nat \<times> string" where
  "ParseSkipLine ptr skip n s =
     (case skip_chars ptr NUL [] n s of
        (None, n, s) \<Rightarrow> (None, n, s)
      | (Some b, n, s) \<Rightarrow>
          if skip \<and> deref (c_str b) \<noteq> CHR ''.'' then ParseSkipLine ptr skip (n + 1) s
          else (Some (c_str b), n + 1, s))"
  by auto
termination
  by (relation "measure (\<lambda>(ptr, skip, n, s). length s)") (auto dest!: skip_chars_length[OF sym])

declare ParseSkipLine.simps [simp del]


subsection \<open>State\<close>

text \<open>
  \<open>rtext\<close> is what is left of the current source, \<open>rptr\<close> tells what it is, \<open>fname\<close> names the file it is in;
  \<open>sources\<close> are the sources that were interrupted (\<^verbatim>\<open>includes\<close>). \<open>forLevel\<close> and the fields after
  it are the static variables of \<^verbatim>\<open>for.c\<close>.
\<close>

record 'v reader =
  rtext :: string
  rptr :: bool
  lineno :: nat
  fname :: cstring
  sources :: "(string \<times> bool \<times> nat \<times> cstring) list"
  forLevel :: int
  for_buf :: "cstring option"
  for_vars :: "cstring list option"
  for_lst :: "cstring list option"
  rcond :: "'v cond_state"

text \<open>
  What the reader uses of \<^verbatim>\<open>var.c\<close>: \<^verbatim>\<open>Var_Subst\<close> of one variable or of all, in the
  context of the global variables and without complaints, \<^verbatim>\<open>Var_Set\<close> and
  \<^verbatim>\<open>Var_Delete\<close> of a global variable.
\<close>

record 'v read_env =
  cenv :: "'v cond_env"
  var_subst :: "cstring option \<Rightarrow> cstring \<Rightarrow> 'v cond_state \<Rightarrow> (cstring \<times> 'v cond_state) option"
  var_set :: "cstring \<Rightarrow> cstring \<Rightarrow> 'v cond_state \<Rightarrow> 'v cond_state option"
  var_delete :: "cstring \<Rightarrow> 'v cond_state \<Rightarrow> 'v cond_state option"

definition read_error :: "cstring \<Rightarrow> 'v reader \<Rightarrow> 'v reader" where
  "read_error m st = st\<lparr>rcond := Parse_Error PARSE_FATAL m (rcond st)\<rparr>"

definition Parse_FromString :: "cstring \<Rightarrow> 'v reader \<Rightarrow> 'v reader" where
  "Parse_FromString s st =
     st\<lparr>sources := (rtext st, rptr st, lineno st, fname st) # sources st, rtext := s, rptr := True, lineno := 0\<rparr>"

text \<open>The variables that name the file.\<close>

definition ParseSetParseFile :: "'v read_env \<Rightarrow> cstring \<Rightarrow> 'v cond_state \<Rightarrow> 'v cond_state option" where
  "ParseSetParseFile R name cs =
     (case strrchr name CHR ''/'' of
        None \<Rightarrow> do { cs \<leftarrow> var_set R ''.PARSEDIR'' ''.'' cs; var_set R ''.PARSEFILE'' name cs }
      | Some (dir, file) \<Rightarrow> do { cs \<leftarrow> var_set R ''.PARSEDIR'' dir cs; var_set R ''.PARSEFILE'' file cs })"

text \<open>The result tells whether there is more to read.\<close>

definition ParseEOF :: "'v read_env \<Rightarrow> 'v reader \<Rightarrow> (bool \<times> 'v reader) option" where
  "ParseEOF R st =
     (case sources st of
        [] \<Rightarrow> do {
          cs \<leftarrow> var_delete R ''.PARSEDIR'' (rcond st);
          cs \<leftarrow> var_delete R ''.PARSEFILE'' cs;
          Some (False, st\<lparr>rcond := cs\<rparr>) }
      | (s, p, n, f) # is \<Rightarrow> do {
          cs \<leftarrow> ParseSetParseFile R f (rcond st);
          Some (True, st\<lparr>rtext := s, rptr := p, lineno := n, fname := f, sources := is, rcond := cs\<rparr>) })"

definition skip_line :: "bool \<Rightarrow> 'v reader \<Rightarrow> cstring option \<times> 'v reader" where
  "skip_line skip st =
     (case ParseSkipLine (rptr st) skip (lineno st) (rtext st) of
        (l, n, s) \<Rightarrow>
          let st = st\<lparr>lineno := n, rtext := s\<rparr>
          in (l, if l = None then read_error ''Unclosed conditional/for loop'' st else st))"

subsection \<open>Loops\<close>

function space_words :: "cstring \<Rightarrow> cstring list" where
  "space_words s =
     (case dropWhile isspace s of
        [] \<Rightarrow> []
      | c # r \<Rightarrow> (c # takeWhile (\<lambda>x. \<not> isspace x) r) # space_words (dropWhile (\<lambda>x. \<not> isspace x) r))"
  by auto
termination
  by (relation "measure length") (auto dest!: dropWhile_length intro: le_less_trans[OF length_dropWhile_le])

declare space_words.simps [simp del]

text \<open>The text before the word \<open>in\<close>, with the space before it left out, and the text after it.\<close>

fun find_in :: "cstring \<Rightarrow> (cstring \<times> cstring) option" where
  "find_in [] = None"
| "find_in (c # s) =
     (if isspace c \<and> deref s = CHR ''i'' \<and> deref (tl s) = CHR ''n'' \<and> (drop 2 s = [] \<or> isspace (deref (drop 2 s)))
      then Some ([], drop 2 s)
      else map_option (\<lambda>(a, b). (c # a, b)) (find_in s))"

text \<open>The words of the list are put in front of it, so that it is reversed.\<close>

definition for_head :: "'v read_env \<Rightarrow> cstring \<Rightarrow> 'v reader \<Rightarrow> (bool \<times> 'v reader) option" where
  "for_head R line st =
     do { ptr \<leftarrow> adv line;
          let ptr = dropWhile isspace ptr;
          if \<not> (prefix ''for'' ptr \<and> isspace (deref (drop 3 ptr))) then Some (False, st)
          else case find_in (dropWhile isspace (drop 3 ptr)) of
                 None \<Rightarrow> Some (False, read_error (''missing `in''@[CHR 0x27]@'' in for'') st)
               | Some (names, rest) \<Rightarrow>
                   if space_words names = []
                   then Some (False, read_error ''no iteration variables in for'' st\<lparr>for_vars := None\<rparr>)
                   else do {
                     (sub, cs) \<leftarrow> var_subst R None (dropWhile isspace rest) (rcond st);
                     Some (True, st\<lparr>rcond := cs, for_vars := Some (space_words names), for_lst := Some (rev (space_words sub)),
                                    for_buf := Some [], forLevel := forLevel st + 1\<rparr>) } }"

definition for_accumulate :: "cstring \<Rightarrow> 'v reader \<Rightarrow> (bool \<times> 'v reader) option" where
  "for_accumulate line st =
     (let ptr = dropWhile isspace (tl line);
          dot = (deref line = CHR ''.'');
          st = (if dot \<and> prefix ''endfor'' ptr \<and> (drop 6 ptr = [] \<or> isspace (deref (drop 6 ptr)))
                then st\<lparr>forLevel := forLevel st - 1\<rparr>
                else if dot \<and> prefix ''for'' ptr \<and> isspace (deref (drop 3 ptr))
                then st\<lparr>forLevel := forLevel st + 1\<rparr>
                else st)
      in if forLevel st < 0 then Some (False, read_error ''for-less endfor'' st)
         else if forLevel st \<noteq> 0
         then do { b \<leftarrow> for_buf st; Some (True, st\<lparr>for_buf := Some (b @ line @ [NL])\<rparr>) }
         else Some (False, st))"

definition For_Eval :: "'v read_env \<Rightarrow> cstring \<Rightarrow> 'v reader \<Rightarrow> (bool \<times> 'v reader) option" where
  "For_Eval R line st = (if forLevel st = 0 then for_head R line st else for_accumulate line st)"

text \<open>One round: the variables are set, replaced one after the other in the body, and deleted.\<close>

definition for_round :: "'v read_env \<Rightarrow> cstring list \<Rightarrow> cstring list \<Rightarrow> cstring \<Rightarrow> 'v reader \<Rightarrow> 'v reader option" where
  "for_round R names values body st =
     do { cs \<leftarrow> foldM (\<lambda>(x, v). var_set R x v) (zip names values) (rcond st);
          (guy, cs) \<leftarrow> foldM (\<lambda>x (guy, cs). var_subst R (Some x) guy cs) names (body, cs);
          let st = Parse_FromString guy (st\<lparr>rcond := cs\<rparr>);
          cs \<leftarrow> foldM (var_delete R) names (rcond st);
          Some (st\<lparr>rcond := cs\<rparr>) }"

text \<open>The values of a round are taken from the reversed list, the last one first.\<close>

function for_rounds :: "'v read_env \<Rightarrow> cstring list \<Rightarrow> cstring list \<Rightarrow> cstring \<Rightarrow> 'v reader \<Rightarrow> 'v reader option" where
  "for_rounds R names lst body st =
     (if names = [] then None
      else if length lst < length names
      then Some (if lst = [] then st else read_error ''Not enough words in for substitution list'' st)
      else do { st \<leftarrow> for_round R names (rev (take (length names) lst)) body st;
                for_rounds R names (drop (length names) lst) body st })"
  by auto
termination by (relation "measure (\<lambda>(R, names, lst, body, st). length lst)") (auto simp: not_less neq_Nil_conv)

declare for_rounds.simps [simp del]

definition For_Run :: "'v read_env \<Rightarrow> 'v reader \<Rightarrow> 'v reader option" where
  "For_Run R st =
     (case (for_buf st, for_vars st, for_lst st) of
        (Some body, Some names, Some lst) \<Rightarrow>
          for_rounds R names lst body (st\<lparr>for_buf := None, for_vars := None, for_lst := None\<rparr>)
      | _ \<Rightarrow> Some st)"

subsection \<open>Reading a line\<close>

definition read_cond :: "'v read_env \<Rightarrow> cstring \<Rightarrow> 'v reader \<Rightarrow> (cond_result \<times> 'v reader) option" where
  "read_cond R line st = do { (c, cs) \<leftarrow> Cond_Eval (cenv R) line (rcond st); Some (c, st\<lparr>rcond := cs\<rparr>) }"

text \<open>To the next directive after which lines are read again; the result tells whether there is one.\<close>

partial_function (option) skip_to_parse :: "'v read_env \<Rightarrow> 'v reader \<Rightarrow> (bool \<times> 'v reader) option" where
  "skip_to_parse R st =
     (case skip_line True st of
        (None, st) \<Rightarrow> Some (False, st)
      | (Some line, st) \<Rightarrow> do {
          (c, st) \<leftarrow> read_cond R line st;
          if c = COND_PARSE then Some (True, st) else skip_to_parse R st })"

declare skip_to_parse.simps [code]

partial_function (option) for_body :: "'v read_env \<Rightarrow> 'v reader \<Rightarrow> (bool \<times> 'v reader) option" where
  "for_body R st =
     (case skip_line False st of
        (None, st) \<Rightarrow> Some (False, read_error (''Unexpected end of file in for loop.''@[NL]) st)
      | (Some line, st) \<Rightarrow> do {
          (cont, st) \<leftarrow> For_Eval R line st;
          if cont then for_body R st else Some (True, st) })"

declare for_body.simps [code]

partial_function (option) ParseReadLine :: "'v read_env \<Rightarrow> 'v reader \<Rightarrow> (cstring option \<times> 'v reader) option" where
  "ParseReadLine R st =
     (case raw_line (rptr st) (lineno st) (rtext st) of
        (None, n, s) \<Rightarrow> Some (None, st\<lparr>lineno := n, rtext := s\<rparr>)
      | (Some line, n, s) \<Rightarrow>
          if deref line \<noteq> CHR ''.'' then Some (Some line, st\<lparr>lineno := n, rtext := s\<rparr>)
          else do {
            (c, st) \<leftarrow> read_cond R line (st\<lparr>lineno := n, rtext := s\<rparr>);
            if c = COND_PARSE then ParseReadLine R st
            else if c = COND_SKIP then do {
              (cont, st) \<leftarrow> skip_to_parse R st;
              if cont then ParseReadLine R st else Some (None, st) }
            else do {
              (loop, st) \<leftarrow> For_Eval R line st;
              if loop then do {
                (cont, st) \<leftarrow> for_body R st;
                st \<leftarrow> (if cont then For_Run R st else Some st);
                ParseReadLine R st }
              else Some (Some line, st) } })"

declare ParseReadLine.simps [code]

text \<open>The loop of \<^verbatim>\<open>Parse_File\<close>; what it does with a line is the argument \<open>handle\<close>.\<close>

partial_function (option) parse_lines ::
    "'v read_env \<Rightarrow> (cstring \<Rightarrow> 'v reader \<Rightarrow> 'v reader option) \<Rightarrow> 'v reader \<Rightarrow> 'v reader option" where
  "parse_lines R handle st =
     do { (line, st) \<leftarrow> ParseReadLine R st;
          case line of
            Some line \<Rightarrow> do { st \<leftarrow> handle line st; parse_lines R handle st }
          | None \<Rightarrow> do { (cont, st) \<leftarrow> ParseEOF R st; if cont then parse_lines R handle st else Some st } }"

declare parse_lines.simps [code]

text \<open>\<open>Inl\<close>: fatal errors were found and the program ends.\<close>

definition Parse_File ::
    "'v read_env \<Rightarrow> (cstring \<Rightarrow> 'v reader \<Rightarrow> 'v reader option) \<Rightarrow> cstring \<Rightarrow> string \<Rightarrow> 'v reader \<Rightarrow> ('v reader + 'v reader) option" where
  "Parse_File R handle name s st =
     do { let old = length (messages (rcond st));
          cs \<leftarrow> ParseSetParseFile R name (rcond st);
          st \<leftarrow> parse_lines R handle (st\<lparr>rtext := s, rptr := False, lineno := 0, fname := name, rcond := cs\<rparr>);
          let st = st\<lparr>rcond := Cond_End (rcond st)\<rparr>;
          Some (if \<exists>m \<in> set (drop old (messages (rcond st))). fst m = PARSE_FATAL then Inl st else Inr st) }"

definition reader_start :: "'v cond_state \<Rightarrow> 'v reader" where
  "reader_start cs =
     \<lparr>rtext = [], rptr = False, lineno = 0, fname = [], sources = [], forLevel = 0, for_buf = None, for_vars = None,
      for_lst = None, rcond = cs\<rparr>"

end
