(* ===== verification/Condlines.thy ===== *)
theory Condlines
  imports Condexpr Makeread
begin

text \<open>
  Makefiles with conditional blocks, as the lines that are written and as a tree: the reader of
  \<^verbatim>\<open>parse.c\<close> with the state of \<^verbatim>\<open>cond.c\<close> reads the branches that the tree selects.
\<close>

subsection \<open>Lines without continuation\<close>

definition line_char :: "char \<Rightarrow> bool" where
  "line_char c = (c \<noteq> NL \<and> c \<noteq> NUL \<and> c \<noteq> CHR 0x5C \<and> c \<noteq> CHR ''#'' \<and> c \<noteq> CHR '';'' \<and> c \<noteq> CHR 0xFF)"

definition file_line :: "cstring \<Rightarrow> bool" where
  "file_line l = (l \<noteq> [] \<and> list_all line_char l \<and> \<not> is_blank (last l))"

definition file_text :: "cstring list \<Rightarrow> string" where
  "file_text ls = concat (map (\<lambda>l. l @ [NL]) ls)"

lemma file_text_simps [simp]: "file_text [] = []" "file_text (l # ls) = l @ NL # file_text ls"
  by (simp_all add: file_text_def)

lemma read_loop_plain:
  assumes "list_all line_char cs" "lastc r \<noteq> CHR 0x5C"
  shows "\<exists>r'. read_loop ptr n r (cs @ NL # s) = (r', n, s) \<and> lbuf r' @ [lastc r'] = lbuf r @ [lastc r] @ cs"
  using assms
proof (induction cs arbitrary: r)
  case Nil
  then show ?case by (subst read_loop.simps) simp
next
  case (Cons c cs)
  from Cons.prems have c: "line_char c" "list_all line_char cs" by auto
  obtain r1 where r1: "test_char ptr r c (cs @ NL # s) = (False, r1, cs @ NL # s)" "lastc r1 = c" "lbuf r1 = lbuf r @ [lastc r]"
    using c(1) by (auto simp: test_char_def line_char_def Let_def)
  have "read_loop ptr n r ((c # cs) @ NL # s) = read_loop ptr n r1 (cs @ NL # s)"
    using c(1) r1(1) by (subst read_loop.simps) (auto simp: line_char_def)
  moreover have "lastc r1 \<noteq> CHR 0x5C" using r1(2) c(1) by (simp add: line_char_def)
  ultimately show ?case using Cons.IH[of r1] c r1(2,3) by simp
qed

lemma strip_rev_id: "\<not> is_blank (hd l) \<Longrightarrow> strip_rev l = l"
  by (cases l rule: strip_rev.cases) simp_all

lemma strip_line_id: "l \<noteq> [] \<Longrightarrow> \<not> is_blank (last l) \<Longrightarrow> strip_line l = l"
  by (simp add: strip_line_def strip_rev_id hd_rev)

lemma c_str_plain: "list_all line_char l \<Longrightarrow> c_str l = l"
  by (auto simp: c_str_def takeWhile_eq_all_conv list_all_iff line_char_def)

lemma raw_line_plain:
  assumes "file_line l"
  shows "raw_line ptr n (l @ NL # s) = (Some l, n + 1, s)"
proof -
  obtain c cs where l: "l = c # cs" using assms by (cases l) (auto simp: file_line_def)
  then have c: "line_char c" "list_all line_char cs" using assms by (auto simp: file_line_def)
  define r0 where "r0 = \<lparr>semiNL = False, ignDepOp = c = CHR 0x09, ignComment = c = CHR 0x09, lastc = c, lbuf = []\<rparr>"
  obtain r where r: "read_loop ptr n r0 (cs @ NL # s) = (r, n, s)" "lbuf r @ [lastc r] = l"
    using read_loop_plain[OF c(2), of r0 ptr n s] c(1) l by (auto simp: r0_def line_char_def)
  have "lastc r \<in> set l" using r(2) by (metis in_set_conv_decomp)
  then have "lastc r \<noteq> NUL" using assms by (auto simp: file_line_def list_all_iff line_char_def)
  then show ?thesis
    using assms c r l strip_line_id[of l] c_str_plain[of l]
    by (auto simp: raw_line_def file_line_def line_char_def r0_def)
qed

lemma skip_chars_plain:
  assumes "list_all line_char l" "lc \<noteq> CHR 0x5C"
  shows "skip_chars ptr lc buf n (l @ NL # s) = (Some (buf @ l), n, s)"
  using assms
proof (induction l arbitrary: lc buf)
  case Nil
  then show ?case by (subst skip_chars.simps) simp
next
  case (Cons c l)
  then have "skip_chars ptr lc buf n ((c # l) @ NL # s) = skip_chars ptr c (buf @ [c]) n (l @ NL # s)"
    by (subst skip_chars.simps) (auto simp: line_char_def)
  then show ?case using Cons by (auto simp: line_char_def)
qed

lemma ParseSkipLine_plain:
  assumes "file_line l"
  shows "ParseSkipLine ptr True n (l @ NL # s) =
           (if deref l = CHR ''.'' then (Some l, n + 1, s) else ParseSkipLine ptr True (n + 1) s)"
  using assms skip_chars_plain[of l NUL ptr "[]" n s] c_str_plain[of l]
  by (subst ParseSkipLine.simps) (auto simp: file_line_def)

subsection \<open>The state between two lines\<close>

type_synonym 'v cond_view = "int \<times> bool list \<times> int \<times> bool \<times> 'v \<times> (parse_level \<times> cstring) list"

definition view :: "'v cond_state \<Rightarrow> 'v cond_view" where
  "view cs = (condTop cs, condStack cs, skipIfLevel cs, skipLine cs, vars cs, messages cs)"

definition at :: "'v reader \<Rightarrow> cstring list \<Rightarrow> 'v cond_view \<Rightarrow> 'v reader \<Rightarrow> bool" where
  "at base ls w st =
     (rtext st = file_text ls \<and> view (rcond st) = w \<and>
      st = base\<lparr>rtext := rtext st, lineno := lineno st, rcond := rcond st\<rparr>)"

text \<open>What is done with a line changes the variables.\<close>

definition line_handler :: "(cstring \<Rightarrow> 'v \<Rightarrow> 'v) \<Rightarrow> cstring \<Rightarrow> 'v reader \<Rightarrow> 'v reader option" where
  "line_handler f l st = Some (st\<lparr>rcond := (rcond st)\<lparr>vars := f l (vars (rcond st))\<rparr>\<rparr>)"

text \<open>The rest of the file when the reader is looking for the next directive that ends the skipping.\<close>

definition skipping :: "'v read_env \<Rightarrow> (cstring \<Rightarrow> 'v reader \<Rightarrow> 'v reader option) \<Rightarrow> 'v reader \<Rightarrow> 'v reader option" where
  "skipping R h st =
     do { (cont, st) \<leftarrow> skip_to_parse R st;
          if cont then parse_lines R h st
          else do { (cont, st) \<leftarrow> ParseEOF R st; if cont then parse_lines R h st else Some st } }"

lemma parse_lines_eq: "ParseReadLine R st = ParseReadLine R st' \<Longrightarrow> parse_lines R h st = parse_lines R h st'"
  by (simp add: parse_lines.simps)

definition next_line :: "'v reader \<Rightarrow> cstring list \<Rightarrow> 'v cond_state \<Rightarrow> 'v reader" where
  "next_line st ls cs = st\<lparr>lineno := lineno st + 1, rtext := file_text ls, rcond := cs\<rparr>"

lemma at_next: "at base (l # ls) w st \<Longrightarrow> at base ls (view cs) (next_line st ls cs)"
  by (cases st; cases base) (auto simp: at_def next_line_def)

lemma at_sources: "at base ls w st \<Longrightarrow> sources st = sources base \<and> rptr st = rptr base"
  by (cases st; cases base) (simp add: at_def)

lemma read_text:
  assumes "at base (l # ls) (T, stk, k, sk, v, m) st" "file_line l" "deref l \<noteq> CHR ''.''"
  shows "\<exists>st'. parse_lines R (line_handler f) st = parse_lines R (line_handler f) st' \<and> at base ls (T, stk, k, sk, f l v, m) st'"
proof -
  let ?st = "st\<lparr>lineno := lineno st + 1, rtext := file_text ls\<rparr>"
  have "ParseReadLine R st = Some (Some l, ?st)"
    using assms raw_line_plain[OF assms(2)] by (subst ParseReadLine.simps) (simp add: at_def)
  then have "parse_lines R (line_handler f) st = parse_lines R (line_handler f) (next_line st ls ((rcond st)\<lparr>vars := f l (vars (rcond st))\<rparr>))"
    by (subst parse_lines.simps) (simp add: line_handler_def next_line_def)
  moreover have "view ((rcond st)\<lparr>vars := f l (vars (rcond st))\<rparr>) = (T, stk, k, sk, f l v, m)"
    using assms(1) by (auto simp: at_def view_def)
  ultimately show ?thesis using at_next[OF assms(1)] by metis
qed

lemma read_directive:
  assumes "at base (l # ls) w st" "file_line l" "deref l = CHR ''.''"
    and "Cond_Eval (cenv R) l (rcond st) = Some (res, cs)" "res \<noteq> COND_INVALID"
  shows "parse_lines R h st =
           (if res = COND_PARSE then parse_lines R h (next_line st ls cs) else skipping R h (next_line st ls cs))"
proof -
  have raw: "raw_line (rptr st) (lineno st) (rtext st) = (Some l, lineno st + 1, file_text ls)"
    using assms raw_line_plain[OF assms(2)] by (simp add: at_def)
  have nl: "next_line st ls cs = st\<lparr>lineno := Suc (lineno st), rtext := file_text ls, rcond := cs\<rparr>"
    by (simp add: next_line_def)
  show ?thesis
  proof (cases "res = COND_PARSE")
    case True
    then have "ParseReadLine R st = ParseReadLine R (next_line st ls cs)"
      using assms raw nl by (subst ParseReadLine.simps) (simp add: read_cond_def)
    then show ?thesis using True parse_lines_eq by auto
  next
    case False
    then have "ParseReadLine R st =
        do { (cont, st) \<leftarrow> skip_to_parse R (next_line st ls cs); if cont then ParseReadLine R st else Some (None, st) }"
      using assms raw nl by (subst ParseReadLine.simps) (cases res; simp add: read_cond_def)
    then show ?thesis using False
      by (cases "skip_to_parse R (next_line st ls cs)")
         (auto simp: skipping_def parse_lines.simps[of R h st] parse_lines.simps[of R h] split: prod.splits)
  qed
qed

lemma skip_text:
  assumes "at base (l # ls) w st" "file_line l" "deref l \<noteq> CHR ''.''"
  shows "\<exists>st'. skipping R h st = skipping R h st' \<and> at base ls w st'"
proof -
  have "skip_to_parse R st = skip_to_parse R (next_line st ls (rcond st))"
    using assms ParseSkipLine_plain[OF assms(2)]
    by (subst (1 2) skip_to_parse.simps) (simp add: skip_line_def at_def next_line_def)
  then show ?thesis using at_next[OF assms(1), of "rcond st"] assms(1) by (auto simp: skipping_def at_def)
qed

lemma skip_directive:
  assumes "at base (l # ls) w st" "file_line l" "deref l = CHR ''.''"
    and "Cond_Eval (cenv R) l (rcond st) = Some (res, cs)"
  shows "skipping R h st =
           (if res = COND_PARSE then parse_lines R h (next_line st ls cs) else skipping R h (next_line st ls cs))"
proof -
  have "skip_to_parse R st = (if res = COND_PARSE then Some (True, next_line st ls cs) else skip_to_parse R (next_line st ls cs))"
    using assms ParseSkipLine_plain[OF assms(2)]
    by (subst skip_to_parse.simps) (simp add: skip_line_def at_def next_line_def read_cond_def)
  then show ?thesis by (simp add: skipping_def)
qed


subsection \<open>The directives\<close>

type_synonym kind = "cstring \<times> bool \<times> cond_fn"

definition if_line :: "kind \<Rightarrow> bexp \<Rightarrow> cstring" where
  "if_line k c = ''.'' @ fst k @ '' '' @ show_c NE c"

definition elif_line :: "kind \<Rightarrow> bexp \<Rightarrow> cstring" where
  "elif_line k c = ''.el'' @ fst k @ '' '' @ show_c NE c"

text \<open>The value of the condition in the state \<open>v\<close> of the variables.\<close>

definition holds :: "'v cond_env \<Rightarrow> 'v \<Rightarrow> kind \<Rightarrow> bexp \<Rightarrow> bool" where
  "holds E v k c = (case k of (_, neg, f) \<Rightarrow> beval E f neg v c)"

definition cond_ok :: "'v cond_env \<Rightarrow> 'v \<Rightarrow> kind \<Rightarrow> bexp \<Rightarrow> bool" where
  "cond_ok E v k c = (case k of (_, neg, f) \<Rightarrow> wf_c E f v c)"

lemma in_ifs:
  assumes "(form, neg, f) \<in> set ifs"
  shows "(form = ''ifdef'' \<and> \<not> neg \<and> f = CondDoDefined) \<or> (form = ''ifndef'' \<and> neg \<and> f = CondDoDefined) \<or>
         (form = ''ifmake'' \<and> \<not> neg \<and> f = CondDoMake) \<or> (form = ''ifnmake'' \<and> neg \<and> f = CondDoMake) \<or>
         (form = ''if'' \<and> \<not> neg \<and> f = CondDoDefined)"
  using assms by (simp add: ifs_def)

lemma find_form: "(form, neg, f) \<in> set ifs \<Longrightarrow> find (\<lambda>(g, _). prefix g (form @ CHR '' '' # x)) ifs = Some (form, neg, f)"
  by (drule in_ifs, elim disjE conjE) (simp_all add: ifs_def)

lemma not_el: "(form, neg, f) \<in> set ifs \<Longrightarrow> \<exists>x. form = CHR ''i'' # CHR ''f'' # x"
  by (drule in_ifs) auto

lemma eval_expr:
  assumes "wf_c E f (vars cs) c"
  shows "\<exists>cs'. Cond_EvalExpression E False (CHR '' '' # show_c NE c) True (cs\<lparr>condDefProc := f, condInvert := neg\<rparr>) =
               Some (COND_PARSE, Some (beval E f neg (vars cs) c), cs') \<and> view cs' = view cs"
proof -
  have "Cond_EvalExpression E False (CHR '' '' # show_c NE c) True x = Cond_EvalExpression E False (show_c NE c) True x" for x
    by (simp add: Cond_EvalExpression_def)
  moreover obtain cs' where "Cond_EvalExpression E False (show_c NE c) True (cs\<lparr>condDefProc := f, condInvert := neg\<rparr>) =
        Some (COND_PARSE, Some (beval E f neg (vars cs) c), cs')"
      and cs': "cs' = cs\<lparr>condDefProc := f, condInvert := neg\<rparr>\<lparr>condExpr := condExpr cs', condPushed := TNone,
                   lines := lines cs + 1, condDefProc := f, condInvert := neg\<rparr>"
    using expression_value[of E f "vars cs" c False "cs\<lparr>condDefProc := f, condInvert := neg\<rparr>" neg True] assms by auto
  moreover have "view cs' = view cs" by (subst cs') (simp add: view_def)
  ultimately show ?thesis by auto
qed

lemma eval_if:
  assumes "k \<in> set ifs" "cond_ok E v k c" "view cs = (T, stk, l, False, v, m)" "0 < T" "T \<le> 30"
  shows "\<exists>cs'. Cond_Eval E (if_line k c) cs = Some (if holds E v k c then COND_PARSE else COND_SKIP, cs') \<and>
               view cs' = (T - 1, stk[nat (T - 1) := holds E v k c], l, \<not> holds E v k c, v, m)"
proof -
  obtain form neg f where k: "k = (form, neg, f)" by (cases k)
  have vw: "condTop cs = T" "condStack cs = stk" "skipIfLevel cs = l" "\<not> skipLine cs" "vars cs = v" "messages cs = m"
    using assms(3) by (simp_all add: view_def)
  obtain cs' where cs': "Cond_EvalExpression E False (CHR '' '' # show_c NE c) True (cs\<lparr>condDefProc := f, condInvert := neg\<rparr>) =
        Some (COND_PARSE, Some (holds E v k c), cs')" "view cs' = view cs"
    using eval_expr[of E f cs c neg] assms(2) k vw(5) by (auto simp: cond_ok_def holds_def)
  obtain x where x: "form = CHR ''i'' # CHR ''f'' # x" using not_el assms(1) k by blast
  have "Cond_Eval E (if_line k c) cs = cond_if_line E False (form @ CHR '' '' # show_c NE c) cs"
    using x by (simp add: Cond_Eval_def if_line_def k is_blank_def)
  also have "\<dots> = cond_decide False (holds E v k c) cs'"
    using find_form[of form neg f] assms(1) k vw cs' by (auto simp: cond_if_line_def)
  finally show ?thesis
    using cs'(2) assms(3-5) by (auto simp: cond_decide_def view_def MAXIF_def)
qed

lemma eval_if_skipped:
  assumes "k \<in> set ifs" "view cs = (T, stk, l, True, v, m)"
  shows "\<exists>cs'. Cond_Eval E (if_line k c) cs = Some (COND_SKIP, cs') \<and> view cs' = (T, stk, l + 1, True, v, m)"
proof -
  obtain form neg f where k: "k = (form, neg, f)" by (cases k)
  obtain x where x: "form = CHR ''i'' # CHR ''f'' # x" using not_el assms(1) k by blast
  have "Cond_Eval E (if_line k c) cs = cond_if_line E False (form @ CHR '' '' # show_c NE c) cs"
    using x by (simp add: Cond_Eval_def if_line_def k is_blank_def)
  also have "\<dots> = Some (COND_SKIP, cs\<lparr>skipIfLevel := skipIfLevel cs + 1\<rparr>)"
    using find_form[of form neg f] assms k by (auto simp: cond_if_line_def view_def)
  finally show ?thesis using assms(2) by (simp add: view_def)
qed

lemma elif_line_eq:
  assumes "k = (form, neg, f)"
  shows "Cond_Eval E (elif_line k c) cs = cond_if_line E True (form @ CHR '' '' # show_c NE c) cs"
  using assms by (simp add: Cond_Eval_def elif_line_def is_blank_def)

lemma eval_elif_inner:
  assumes "k \<in> set ifs" "view cs = (T, stk, l, sk, v, m)" "l \<noteq> 0" "T \<noteq> 30"
  shows "Cond_Eval E (elif_line k c) cs = Some (COND_SKIP, cs)"
proof -
  obtain form neg f where k: "k = (form, neg, f)" by (cases k)
  show ?thesis
    unfolding elif_line_eq[OF k]
    using find_form[of form neg f] assms k by (auto simp: cond_if_line_def view_def MAXIF_def)
qed

lemma eval_elif:
  assumes "k \<in> set ifs" "cond_ok E v k c" "view cs = (T, stk, 0, sk, v, m)" "0 \<le> T" "T < 30" "length stk = 30"
  shows "\<exists>cs'. Cond_Eval E (elif_line k c) cs =
                 Some (if \<not> stk ! nat T \<and> holds E v k c then COND_PARSE else COND_SKIP, cs') \<and>
               view cs' = (if stk ! nat T then (T, stk, 0, True, v, m)
                           else (T, stk[nat T := holds E v k c], 0, \<not> holds E v k c, v, m))"
proof -
  obtain form neg f where k: "k = (form, neg, f)" by (cases k)
  have vw: "condTop cs = T" "condStack cs = stk" "skipIfLevel cs = 0" "vars cs = v" "messages cs = m"
    using assms(3) by (simp_all add: view_def)
  obtain cs' where cs': "Cond_EvalExpression E False (CHR '' '' # show_c NE c) True (cs\<lparr>condDefProc := f, condInvert := neg\<rparr>) =
        Some (COND_PARSE, Some (holds E v k c), cs')" "view cs' = view cs"
    using eval_expr[of E f cs c neg] assms(2) k vw(4) by (auto simp: cond_ok_def holds_def)
  have "Cond_Eval E (elif_line k c) cs = cond_decide True (holds E v k c) cs'"
    unfolding elif_line_eq[OF k]
    using find_form[of form neg f] assms(1,5) k vw cs' by (auto simp: cond_if_line_def MAXIF_def)
  then show ?thesis
    using cs'(2) assms(3-) by (auto simp: cond_decide_def view_def MAXIF_def nth_opt_def)
qed

lemma eval_else_inner:
  assumes "view cs = (T, stk, l, sk, v, m)" "l \<noteq> 0" "T \<noteq> 30"
  shows "Cond_Eval E ''.else'' cs = Some (COND_SKIP, cs)"
  using assms by (auto simp: Cond_Eval_def cond_if_line_def ifs_def view_def MAXIF_def is_blank_def)

lemma eval_else:
  assumes "view cs = (T, stk, 0, sk, v, m)" "0 \<le> T" "T < 30" "length stk = 30"
  shows "\<exists>cs'. Cond_Eval E ''.else'' cs = Some (if stk ! nat T then COND_SKIP else COND_PARSE, cs') \<and>
               view cs' = (if stk ! nat T then (T, stk, 0, True, v, m) else (T, stk[nat T := True], 0, False, v, m))"
  using assms by (auto simp: Cond_Eval_def cond_if_line_def ifs_def view_def MAXIF_def is_blank_def nth_opt_def cond_decide_def)

lemma eval_endif_inner:
  assumes "view cs = (T, stk, l, sk, v, m)" "l \<noteq> 0"
  shows "\<exists>cs'. Cond_Eval E ''.endif'' cs = Some (COND_SKIP, cs') \<and> view cs' = (T, stk, l - 1, sk, v, m)"
  using assms by (auto simp: Cond_Eval_def view_def is_blank_def)

lemma eval_endif:
  assumes "view cs = (T, stk, 0, sk, v, m)" "T \<noteq> 30"
  shows "\<exists>cs'. Cond_Eval E ''.endif'' cs = Some (COND_PARSE, cs') \<and> view cs' = (T + 1, stk, 0, False, v, m)"
  using assms by (auto simp: Cond_Eval_def view_def is_blank_def MAXIF_def)


subsection \<open>Blocks\<close>

text \<open>A makefile as a tree: lines, and conditional blocks with what follows their first branch.\<close>

datatype items = Done | Text cstring items | If kind bexp items rest items
and rest = Endif | Else items | Elif kind bexp items rest

primrec lines_of :: "items \<Rightarrow> cstring list" and rest_lines :: "rest \<Rightarrow> cstring list" where
  "lines_of Done = []"
| "lines_of (Text l is) = l # lines_of is"
| "lines_of (If k c b r is) = if_line k c # lines_of b @ rest_lines r @ lines_of is"
| "rest_lines Endif = [''.endif'']"
| "rest_lines (Else b) = ''.else'' # lines_of b @ [''.endif'']"
| "rest_lines (Elif k c b r) = elif_line k c # lines_of b @ rest_lines r"

text \<open>The effect: \<open>f\<close> is what a line does to the variables; the first branch whose condition holds is taken.\<close>

primrec run :: "'v cond_env \<Rightarrow> (cstring \<Rightarrow> 'v \<Rightarrow> 'v) \<Rightarrow> items \<Rightarrow> 'v \<Rightarrow> 'v"
  and run_rest :: "'v cond_env \<Rightarrow> (cstring \<Rightarrow> 'v \<Rightarrow> 'v) \<Rightarrow> rest \<Rightarrow> 'v \<Rightarrow> 'v" where
  "run E f Done v = v"
| "run E f (Text l is) v = run E f is (f l v)"
| "run E f (If k c b r is) v = run E f is (if holds E v k c then run E f b v else run_rest E f r v)"
| "run_rest E f Endif v = v"
| "run_rest E f (Else b) v = run E f b v"
| "run_rest E f (Elif k c b r) v = (if holds E v k c then run E f b v else run_rest E f r v)"

text \<open>No line of text starts with a dot, the directives are known, and blocks are at most \<open>d\<close> deep.\<close>

primrec shape :: "nat \<Rightarrow> items \<Rightarrow> bool" and shape_rest :: "nat \<Rightarrow> rest \<Rightarrow> bool" where
  "shape d Done = True"
| "shape d (Text l is) = (deref l \<noteq> CHR ''.'' \<and> shape d is)"
| "shape d (If k c b r is) = (0 < d \<and> k \<in> set ifs \<and> shape (d - 1) b \<and> shape_rest (d - 1) r \<and> shape d is)"
| "shape_rest d Endif = True"
| "shape_rest d (Else b) = shape d b"
| "shape_rest d (Elif k c b r) = (k \<in> set ifs \<and> shape d b \<and> shape_rest d r)"

text \<open>The conditions that are evaluated can be: those of \<^verbatim>\<open>elif\<close> are evaluated even after a branch was taken.\<close>

primrec taken_ok :: "'v cond_env \<Rightarrow> rest \<Rightarrow> 'v \<Rightarrow> bool" where
  "taken_ok E Endif v = True"
| "taken_ok E (Else b) v = True"
| "taken_ok E (Elif k c b r) v = (cond_ok E v k c \<and> taken_ok E r v)"

primrec conds_ok :: "'v cond_env \<Rightarrow> (cstring \<Rightarrow> 'v \<Rightarrow> 'v) \<Rightarrow> items \<Rightarrow> 'v \<Rightarrow> bool"
  and rest_ok :: "'v cond_env \<Rightarrow> (cstring \<Rightarrow> 'v \<Rightarrow> 'v) \<Rightarrow> rest \<Rightarrow> 'v \<Rightarrow> bool" where
  "conds_ok E f Done v = True"
| "conds_ok E f (Text l is) v = conds_ok E f is (f l v)"
| "conds_ok E f (If k c b r is) v =
     (cond_ok E v k c \<and>
      (if holds E v k c then conds_ok E f b v \<and> taken_ok E r (run E f b v) else rest_ok E f r v) \<and>
      conds_ok E f is (if holds E v k c then run E f b v else run_rest E f r v))"
| "rest_ok E f Endif v = True"
| "rest_ok E f (Else b) v = conds_ok E f b v"
| "rest_ok E f (Elif k c b r) v =
     (cond_ok E v k c \<and>
      (if holds E v k c then conds_ok E f b v \<and> taken_ok E r (run E f b v) else rest_ok E f r v))"

definition agree :: "nat \<Rightarrow> bool list \<Rightarrow> bool list \<Rightarrow> bool" where
  "agree d stk stk' = (length stk' = length stk \<and> (\<forall>i. d \<le> i \<longrightarrow> i < length stk \<longrightarrow> stk' ! i = stk ! i))"

lemma agree_refl [simp]: "agree d s s"
  by (simp add: agree_def)

lemma agree_trans: "agree d a b \<Longrightarrow> agree d b c \<Longrightarrow> agree d a c"
  by (simp add: agree_def)

lemma agree_mono: "agree d a b \<Longrightarrow> d \<le> e \<Longrightarrow> agree e a b"
  by (simp add: agree_def)

lemma agree_upd: "agree (Suc d) a (a[d := x])"
  by (simp add: agree_def)

lemma agree_length: "agree d a b \<Longrightarrow> length b = length a"
  by (simp add: agree_def)

lemma agree_nth: "agree d a b \<Longrightarrow> d < length a \<Longrightarrow> b ! d = a ! d"
  by (simp add: agree_def)

lemma dot_if [simp]: "deref (if_line k c) = CHR ''.''" "deref (elif_line k c) = CHR ''.''"
  by (simp_all add: if_line_def elif_line_def)

lemma dot_lines: "file_line ''.else''" "file_line ''.endif''"
  by (simp_all add: file_line_def line_char_def is_blank_def)

text \<open>Blocks inside a skipped part are passed over, whatever they contain.\<close>

lemma skip_block:
  "shape d is \<Longrightarrow> list_all file_line (lines_of is) \<Longrightarrow> 0 \<le> l \<Longrightarrow> T \<noteq> 30 \<Longrightarrow>
   at base (lines_of is @ ls) (T, stk, l, True, v, m) st \<Longrightarrow>
   \<exists>st'. skipping R h st = skipping R h st' \<and> at base ls (T, stk, l, True, v, m) st'"
  "shape_rest d r \<Longrightarrow> list_all file_line (rest_lines r) \<Longrightarrow> 0 < l \<Longrightarrow> T \<noteq> 30 \<Longrightarrow>
   at base (rest_lines r @ ls) (T, stk, l, True, v, m) st \<Longrightarrow>
   \<exists>st'. skipping R h st = skipping R h st' \<and> at base ls (T, stk, l - 1, True, v, m) st'"
proof (induction "is" and r arbitrary: d l ls st and d l ls st)
  case Done
  then show ?case by auto
next
  case (Text x "is")
  then obtain st1 where "skipping R h st = skipping R h st1" "at base (lines_of is @ ls) (T, stk, l, True, v, m) st1"
    using skip_text[of base x "lines_of is @ ls" "(T, stk, l, True, v, m)" st R h] by auto
  then show ?case using Text.IH[of d l ls st1] Text.prems by auto
next
  case (If k c b r "is")
  have vw: "view (rcond st) = (T, stk, l, True, v, m)" using If.prems by (simp add: at_def)
  obtain cs where cs: "Cond_Eval (cenv R) (if_line k c) (rcond st) = Some (COND_SKIP, cs)" "view cs = (T, stk, l + 1, True, v, m)"
    using eval_if_skipped[OF _ vw] If.prems by fastforce
  define st1 where "st1 = next_line st (lines_of b @ rest_lines r @ lines_of is @ ls) cs"
  have at0: "at base (if_line k c # lines_of b @ rest_lines r @ lines_of is @ ls) (T, stk, l, True, v, m) st"
    using If.prems by simp
  have 1: "skipping R h st = skipping R h st1" "at base (lines_of b @ rest_lines r @ lines_of is @ ls) (T, stk, l + 1, True, v, m) st1"
    using skip_directive[OF at0 _ _ cs(1)] at_next[OF at0, of cs] cs(2) If.prems by (auto simp: st1_def)
  obtain st2 where 2: "skipping R h st1 = skipping R h st2" "at base (rest_lines r @ lines_of is @ ls) (T, stk, l + 1, True, v, m) st2"
    using If.IH(1)[OF _ _ _ _ 1(2)] If.prems by auto
  obtain st3 where 3: "skipping R h st2 = skipping R h st3" "at base (lines_of is @ ls) (T, stk, l, True, v, m) st3"
    using If.IH(2)[OF _ _ _ _ 2(2)] If.prems by auto
  show ?case using If.IH(3)[OF _ _ _ _ 3(2)] If.prems 1 2 3 by auto
next
  case Endif
  have vw: "view (rcond st) = (T, stk, l, True, v, m)" using Endif.prems by (simp add: at_def)
  obtain cs where cs: "Cond_Eval (cenv R) ''.endif'' (rcond st) = Some (COND_SKIP, cs)" "view cs = (T, stk, l - 1, True, v, m)"
    using eval_endif_inner[OF vw] Endif.prems by fastforce
  have at0: "at base (''.endif'' # ls) (T, stk, l, True, v, m) st" using Endif.prems by simp
  show ?case
    using skip_directive[OF at0 dot_lines(2) _ cs(1), of h] at_next[OF at0, of cs] cs(2) by auto
next
  case (Else b)
  have vw: "view (rcond st) = (T, stk, l, True, v, m)" using Else.prems by (simp add: at_def)
  have at0: "at base (''.else'' # lines_of b @ ''.endif'' # ls) (T, stk, l, True, v, m) st" using Else.prems by simp
  define st1 where "st1 = next_line st (lines_of b @ ''.endif'' # ls) (rcond st)"
  have 1: "skipping R h st = skipping R h st1" "at base (lines_of b @ ''.endif'' # ls) (T, stk, l, True, v, m) st1"
    using skip_directive[OF at0 dot_lines(1) _ eval_else_inner[OF vw]] at_next[OF at0, of "rcond st"] vw Else.prems
    by (auto simp: st1_def)
  obtain st2 where 2: "skipping R h st1 = skipping R h st2" "at base (''.endif'' # ls) (T, stk, l, True, v, m) st2"
    using Else.IH[OF _ _ _ _ 1(2)] Else.prems by auto
  then have vw2: "view (rcond st2) = (T, stk, l, True, v, m)" by (simp add: at_def)
  obtain cs where cs: "Cond_Eval (cenv R) ''.endif'' (rcond st2) = Some (COND_SKIP, cs)" "view cs = (T, stk, l - 1, True, v, m)"
    using eval_endif_inner[OF vw2] Else.prems by fastforce
  show ?case
    using skip_directive[OF 2(2) dot_lines(2) _ cs(1), of h] at_next[OF 2(2), of cs] cs(2) 1 2 by auto
next
  case (Elif k c b r)
  have vw: "view (rcond st) = (T, stk, l, True, v, m)" using Elif.prems by (simp add: at_def)
  have at0: "at base (elif_line k c # lines_of b @ rest_lines r @ ls) (T, stk, l, True, v, m) st" using Elif.prems by simp
  define st1 where "st1 = next_line st (lines_of b @ rest_lines r @ ls) (rcond st)"
  have 1: "skipping R h st = skipping R h st1" "at base (lines_of b @ rest_lines r @ ls) (T, stk, l, True, v, m) st1"
    using skip_directive[OF at0 _ _ eval_elif_inner[OF _ vw]] at_next[OF at0, of "rcond st"] vw Elif.prems
    by (auto simp: st1_def)
  obtain st2 where 2: "skipping R h st1 = skipping R h st2" "at base (rest_lines r @ ls) (T, stk, l, True, v, m) st2"
    using Elif.IH(1)[OF _ _ _ _ 1(2)] Elif.prems by auto
  show ?case using Elif.IH(2)[OF _ _ _ _ 2(2)] Elif.prems 1 2 by auto
qed


lemma read_endif:
  assumes "at base (''.endif'' # ls) (int d, stk, 0, sk, v, m) st" "d < 30"
  shows "\<exists>st'. parse_lines R h st = parse_lines R h st' \<and> skipping R h st = parse_lines R h st' \<and>
               at base ls (int d + 1, stk, 0, False, v, m) st'"
proof -
  have vw: "view (rcond st) = (int d, stk, 0, sk, v, m)" using assms by (simp add: at_def)
  obtain cs where cs: "Cond_Eval (cenv R) ''.endif'' (rcond st) = Some (COND_PARSE, cs)" "view cs = (int d + 1, stk, 0, False, v, m)"
    using eval_endif[OF vw] assms(2) by fastforce
  show ?thesis
    using read_directive[OF assms(1) dot_lines(2) _ cs(1), of h] skip_directive[OF assms(1) dot_lines(2) _ cs(1), of h]
      at_next[OF assms(1), of cs] cs(2) by auto
qed

text \<open>After a branch that was taken, no other is; the reader may be reading or skipping.\<close>

lemma rest_taken:
  assumes "shape_rest e r" "list_all file_line (rest_lines r)" "taken_ok (cenv R) r v"
    and "at base (rest_lines r @ ls) (int d, stk, 0, sk, v, m) st" "d < 30" "length stk = 30" "stk ! d"
  shows "\<exists>st'. (parse_lines R h st = parse_lines R h st' \<and> skipping R h st = parse_lines R h st') \<and>
               at base ls (int d + 1, stk, 0, False, v, m) st'"
  using assms
proof (induction r arbitrary: sk st rule: rest.induct[where ?P1.0 = "\<lambda>_. True"])
  case Endif
  then show ?case using read_endif[of base ls d stk sk v m st R h] by auto
next
  case (Else b)
  have vw: "view (rcond st) = (int d, stk, 0, sk, v, m)" using Else.prems by (simp add: at_def)
  have at0: "at base (''.else'' # lines_of b @ ''.endif'' # ls) (int d, stk, 0, sk, v, m) st" using Else.prems by simp
  obtain cs where cs: "Cond_Eval (cenv R) ''.else'' (rcond st) = Some (COND_SKIP, cs)" "view cs = (int d, stk, 0, True, v, m)"
    using eval_else[OF vw] Else.prems by fastforce
  define st1 where "st1 = next_line st (lines_of b @ ''.endif'' # ls) cs"
  have 1: "parse_lines R h st = skipping R h st1" "skipping R h st = skipping R h st1"
      "at base (lines_of b @ ''.endif'' # ls) (int d, stk, 0, True, v, m) st1"
    using read_directive[OF at0 dot_lines(1) _ cs(1), of h] skip_directive[OF at0 dot_lines(1) _ cs(1), of h]
      at_next[OF at0, of cs] cs(2) by (auto simp: st1_def)
  obtain st2 where 2: "skipping R h st1 = skipping R h st2" "at base (''.endif'' # ls) (int d, stk, 0, True, v, m) st2"
    using skip_block(1)[of e b, OF _ _ _ _ 1(3)] Else.prems by auto
  show ?case using read_endif[OF 2(2), of R h] Else.prems 1 2 by auto
next
  case (Elif k c b r)
  have vw: "view (rcond st) = (int d, stk, 0, sk, v, m)" using Elif.prems by (simp add: at_def)
  have at0: "at base (elif_line k c # lines_of b @ rest_lines r @ ls) (int d, stk, 0, sk, v, m) st" using Elif.prems by simp
  have k: "k \<in> set ifs" "cond_ok (cenv R) v k c" "file_line (elif_line k c)" using Elif.prems by auto
  obtain cs where cs: "Cond_Eval (cenv R) (elif_line k c) (rcond st) = Some (COND_SKIP, cs)" "view cs = (int d, stk, 0, True, v, m)"
    using eval_elif[OF k(1,2) vw] Elif.prems by fastforce
  define st1 where "st1 = next_line st (lines_of b @ rest_lines r @ ls) cs"
  have 1: "parse_lines R h st = skipping R h st1" "skipping R h st = skipping R h st1"
      "at base (lines_of b @ rest_lines r @ ls) (int d, stk, 0, True, v, m) st1"
    using read_directive[OF at0 k(3) _ cs(1), of h] skip_directive[OF at0 k(3) _ cs(1), of h]
      at_next[OF at0, of cs] cs(2) by (auto simp: st1_def)
  obtain st2 where 2: "skipping R h st1 = skipping R h st2" "at base (rest_lines r @ ls) (int d, stk, 0, True, v, m) st2"
    using skip_block(1)[of e b, OF _ _ _ _ 1(3)] Elif.prems by auto
  show ?case using Elif.IH[OF _ _ _ 2(2)] Elif.prems 1 2 by auto
qed auto

text \<open>
  The lines of a tree are read, the selected branches among them: the statements for items and for what
  follows a branch that was not taken, over the rest of the file.
\<close>

definition reads_items :: "'v read_env \<Rightarrow> (cstring \<Rightarrow> 'v \<Rightarrow> 'v) \<Rightarrow> items \<Rightarrow> bool" where
  "reads_items R f is =
     (\<forall>base m d v stk ls st. shape d is \<longrightarrow> list_all file_line (lines_of is) \<longrightarrow> conds_ok (cenv R) f is v \<longrightarrow>
        d \<le> 30 \<longrightarrow> length stk = 30 \<longrightarrow> at base (lines_of is @ ls) (int d, stk, 0, False, v, m) st \<longrightarrow>
        (\<exists>st' stk'. parse_lines R (line_handler f) st = parse_lines R (line_handler f) st' \<and> agree d stk stk' \<and>
           at base ls (int d, stk', 0, False, run (cenv R) f is v, m) st'))"

definition reads_rest :: "'v read_env \<Rightarrow> (cstring \<Rightarrow> 'v \<Rightarrow> 'v) \<Rightarrow> rest \<Rightarrow> bool" where
  "reads_rest R f r =
     (\<forall>base m d v stk ls st. shape_rest d r \<longrightarrow> list_all file_line (rest_lines r) \<longrightarrow> rest_ok (cenv R) f r v \<longrightarrow>
        d < 30 \<longrightarrow> length stk = 30 \<longrightarrow> \<not> stk ! d \<longrightarrow> at base (rest_lines r @ ls) (int d, stk, 0, True, v, m) st \<longrightarrow>
        (\<exists>st' stk'. skipping R (line_handler f) st = parse_lines R (line_handler f) st' \<and> agree (Suc d) stk stk' \<and>
           at base ls (int d + 1, stk', 0, False, run_rest (cenv R) f r v, m) st'))"

lemma reads_itemsD:
  assumes "reads_items R f is" "shape d is" "list_all file_line (lines_of is)" "conds_ok (cenv R) f is v" "d \<le> 30" "length stk = 30"
    and "at base (lines_of is @ ls) (int d, stk, 0, False, v, m) st"
  shows "\<exists>st' stk'. parse_lines R (line_handler f) st = parse_lines R (line_handler f) st' \<and> agree d stk stk' \<and>
           at base ls (int d, stk', 0, False, run (cenv R) f is v, m) st'"
  using assms unfolding reads_items_def by blast

lemma reads_restD:
  assumes "reads_rest R f r" "shape_rest d r" "list_all file_line (rest_lines r)" "rest_ok (cenv R) f r v" "d < 30" "length stk = 30"
    and "\<not> stk ! d" "at base (rest_lines r @ ls) (int d, stk, 0, True, v, m) st"
  shows "\<exists>st' stk'. skipping R (line_handler f) st = parse_lines R (line_handler f) st' \<and> agree (Suc d) stk stk' \<and>
           at base ls (int d + 1, stk', 0, False, run_rest (cenv R) f r v, m) st'"
  using assms unfolding reads_rest_def by blast

text \<open>A branch \<open>b\<close> whose condition has the value \<open>x\<close>, and what follows it.\<close>

lemma read_branch:
  assumes b: "reads_items R f b" "shape d b" "list_all file_line (lines_of b)"
    and r: "reads_rest R f r" "shape_rest d r" "list_all file_line (rest_lines r)"
    and ok: "if x then conds_ok (cenv R) f b v \<and> taken_ok (cenv R) r (run (cenv R) f b v) else rest_ok (cenv R) f r v"
    and d: "d < 30" "length stk = 30" "stk ! d = x"
    and st: "at base (lines_of b @ rest_lines r @ ls) (int d, stk, 0, \<not> x, v, m) st"
  shows "\<exists>st' stk'. (if x then parse_lines R (line_handler f) st else skipping R (line_handler f) st) = parse_lines R (line_handler f) st' \<and>
           agree (Suc d) stk stk' \<and>
           at base ls (int d + 1, stk', 0, False, if x then run (cenv R) f b v else run_rest (cenv R) f r v, m) st'"
proof (cases x)
  case True
  then obtain st2 stk2 where 2: "parse_lines R (line_handler f) st = parse_lines R (line_handler f) st2" "agree d stk stk2"
      "at base (rest_lines r @ ls) (int d, stk2, 0, False, run (cenv R) f b v, m) st2"
    using reads_itemsD[OF b _ _ d(2)] ok d(1) st by fastforce
  have "stk2 ! d" "length stk2 = 30" using agree_nth[OF 2(2)] agree_length[OF 2(2)] d True by auto
  then obtain st3 where "parse_lines R (line_handler f) st2 = parse_lines R (line_handler f) st3"
      "at base ls (int d + 1, stk2, 0, False, run (cenv R) f b v, m) st3"
    using rest_taken[OF r(2,3) _ 2(3) d(1)] ok True by auto
  moreover have "agree (Suc d) stk stk2" using agree_mono[OF 2(2)] by simp
  ultimately show ?thesis using 2(1) True by auto
next
  case False
  then obtain st2 where 2: "skipping R (line_handler f) st = skipping R (line_handler f) st2"
      "at base (rest_lines r @ ls) (int d, stk, 0, True, v, m) st2"
    using skip_block(1)[OF b(2,3), of 0 "int d" base "rest_lines r @ ls" stk v m st R "line_handler f"] d(1) st by auto
  show ?thesis using reads_restD[OF r _ d(1,2) _ 2(2)] ok d(3) False 2(1) by auto
qed

lemma read_If:
  assumes "reads_items R f b" "reads_rest R f r" "reads_items R f is"
  shows "reads_items R f (If k c b r is)"
  unfolding reads_items_def
proof (intro allI impI)
  fix base :: "'a reader" and m d v stk ls st
  assume sh: "shape d (If k c b r is)" and fl: "list_all file_line (lines_of (If k c b r is))" and ok: "conds_ok (cenv R) f (If k c b r is) v"
    and n: "d \<le> 30" "length stk = 30" and at: "at base (lines_of (If k c b r is) @ ls) (int d, stk, 0, False, v, m) st"
  let ?x = "holds (cenv R) v k c" and ?v = "run (cenv R) f (If k c b r Done) v" and ?h = "line_handler f"
  obtain e where d: "d = Suc e" using sh by (cases d) auto
  have k: "k \<in> set ifs" "cond_ok (cenv R) v k c" "file_line (if_line k c)" using sh fl ok by auto
  have vw: "view (rcond st) = (int d, stk, 0, False, v, m)" using at by (simp add: at_def)
  define stk1 where "stk1 = stk[e := ?x]"
  have stk1: "agree d stk stk1" "length stk1 = 30" "stk1 ! e = ?x" using n d by (auto simp: stk1_def agree_upd)
  obtain cs where cs: "Cond_Eval (cenv R) (if_line k c) (rcond st) = Some (if ?x then COND_PARSE else COND_SKIP, cs)"
      "view cs = (int e, stk1, 0, \<not> ?x, v, m)"
    using eval_if[OF k(1,2) vw] n d by (auto simp: stk1_def)
  have at0: "at base (if_line k c # lines_of b @ rest_lines r @ lines_of is @ ls) (int d, stk, 0, False, v, m) st"
    using at by simp
  define st1 where "st1 = next_line st (lines_of b @ rest_lines r @ lines_of is @ ls) cs"
  have 1: "parse_lines R ?h st = (if ?x then parse_lines R ?h st1 else skipping R ?h st1)"
      "at base (lines_of b @ rest_lines r @ lines_of is @ ls) (int e, stk1, 0, \<not> ?x, v, m) st1"
    using read_directive[OF at0 k(3) _ cs(1), of ?h] at_next[OF at0, of cs] cs(2) by (auto simp: st1_def)
  obtain st3 stk3 where 3: "parse_lines R ?h st = parse_lines R ?h st3" "agree d stk1 stk3"
      "at base (lines_of is @ ls) (int d, stk3, 0, False, ?v, m) st3"
    using read_branch[OF assms(1) _ _ assms(2) _ _ _ _ stk1(2,3) 1(2)] 1(1) sh fl ok n d by (auto simp: add.commute)
  have 4: "agree d stk stk3" "length stk3 = 30" using agree_trans[OF stk1(1) 3(2)] agree_length[OF 3(2)] stk1(2) by auto
  obtain st4 stk4 where "parse_lines R ?h st3 = parse_lines R ?h st4" "agree d stk3 stk4"
      "at base ls (int d, stk4, 0, False, run (cenv R) f is ?v, m) st4"
    using reads_itemsD[OF assms(3) _ _ _ n(1) 4(2) 3(3)] sh fl ok by auto
  then show "\<exists>st' stk'. parse_lines R ?h st = parse_lines R ?h st' \<and> agree d stk stk' \<and>
      at base ls (int d, stk', 0, False, run (cenv R) f (If k c b r is) v, m) st'"
    using 3(1) agree_trans[OF 4(1)] by (intro exI[of _ st4] exI[of _ stk4]) simp
qed

lemma read_Elif:
  assumes "reads_items R f b" "reads_rest R f r"
  shows "reads_rest R f (Elif k c b r)"
  unfolding reads_rest_def
proof (intro allI impI)
  fix base :: "'a reader" and m d v stk ls st
  assume sh: "shape_rest d (Elif k c b r)" and fl: "list_all file_line (rest_lines (Elif k c b r))" and ok: "rest_ok (cenv R) f (Elif k c b r) v"
    and n: "d < 30" "length stk = 30" and s: "\<not> stk ! d" and at: "at base (rest_lines (Elif k c b r) @ ls) (int d, stk, 0, True, v, m) st"
  let ?x = "holds (cenv R) v k c" and ?h = "line_handler f"
  have k: "k \<in> set ifs" "cond_ok (cenv R) v k c" "file_line (elif_line k c)" using sh fl ok by auto
  have vw: "view (rcond st) = (int d, stk, 0, True, v, m)" using at by (simp add: at_def)
  have at0: "at base (elif_line k c # lines_of b @ rest_lines r @ ls) (int d, stk, 0, True, v, m) st" using at by simp
  define stk1 where "stk1 = stk[d := ?x]"
  have stk1: "agree (Suc d) stk stk1" "length stk1 = 30" "stk1 ! d = ?x" using n by (auto simp: stk1_def agree_upd)
  obtain cs where cs: "Cond_Eval (cenv R) (elif_line k c) (rcond st) = Some (if ?x then COND_PARSE else COND_SKIP, cs)"
      "view cs = (int d, stk1, 0, \<not> ?x, v, m)"
    using eval_elif[OF k(1,2) vw] n s by (fastforce simp: stk1_def)
  define st1 where "st1 = next_line st (lines_of b @ rest_lines r @ ls) cs"
  have 1: "skipping R ?h st = (if ?x then parse_lines R ?h st1 else skipping R ?h st1)"
      "at base (lines_of b @ rest_lines r @ ls) (int d, stk1, 0, \<not> ?x, v, m) st1"
    using skip_directive[OF at0 k(3) _ cs(1), of ?h] at_next[OF at0, of cs] cs(2) by (auto simp: st1_def)
  obtain st3 stk3 where "skipping R ?h st = parse_lines R ?h st3" "agree (Suc d) stk1 stk3"
      "at base ls (int d + 1, stk3, 0, False, run_rest (cenv R) f (Elif k c b r) v, m) st3"
    using read_branch[OF assms(1) _ _ assms(2) _ _ _ n(1) stk1(2,3) 1(2)] 1(1) sh fl ok by auto
  then show "\<exists>st' stk'. skipping R ?h st = parse_lines R ?h st' \<and> agree (Suc d) stk stk' \<and>
      at base ls (int d + 1, stk', 0, False, run_rest (cenv R) f (Elif k c b r) v, m) st'"
    using agree_trans[OF stk1(1)] by blast
qed

lemma read_Else:
  assumes "reads_items R f b"
  shows "reads_rest R f (Else b)"
  unfolding reads_rest_def
proof (intro allI impI)
  fix base :: "'a reader" and m d v stk ls st
  assume sh: "shape_rest d (Else b)" and fl: "list_all file_line (rest_lines (Else b))" and ok: "rest_ok (cenv R) f (Else b) v"
    and n: "d < 30" "length stk = 30" and s: "\<not> stk ! d" and at: "at base (rest_lines (Else b) @ ls) (int d, stk, 0, True, v, m) st"
  let ?h = "line_handler f"
  have vw: "view (rcond st) = (int d, stk, 0, True, v, m)" using at by (simp add: at_def)
  have at0: "at base (''.else'' # lines_of b @ ''.endif'' # ls) (int d, stk, 0, True, v, m) st" using at by simp
  define stk1 where "stk1 = stk[d := True]"
  have stk1: "agree (Suc d) stk stk1" "length stk1 = 30" using n by (auto simp: stk1_def agree_upd)
  obtain cs where cs: "Cond_Eval (cenv R) ''.else'' (rcond st) = Some (COND_PARSE, cs)" "view cs = (int d, stk1, 0, False, v, m)"
    using eval_else[OF vw] n s by (fastforce simp: stk1_def)
  define st1 where "st1 = next_line st (lines_of b @ ''.endif'' # ls) cs"
  have 1: "skipping R ?h st = parse_lines R ?h st1" "at base (lines_of b @ ''.endif'' # ls) (int d, stk1, 0, False, v, m) st1"
    using skip_directive[OF at0 dot_lines(1) _ cs(1), of ?h] at_next[OF at0, of cs] cs(2) by (auto simp: st1_def)
  obtain st2 stk2 where 2: "parse_lines R ?h st1 = parse_lines R ?h st2" "agree d stk1 stk2"
      "at base (''.endif'' # ls) (int d, stk2, 0, False, run (cenv R) f b v, m) st2"
    using reads_itemsD[OF assms _ _ _ _ stk1(2) 1(2)] sh fl ok n by auto
  have "agree (Suc d) stk stk2" using agree_trans[OF stk1(1) agree_mono[OF 2(2)]] by auto
  then show "\<exists>st' stk'. skipping R ?h st = parse_lines R ?h st' \<and> agree (Suc d) stk stk' \<and>
      at base ls (int d + 1, stk', 0, False, run_rest (cenv R) f (Else b) v, m) st'"
    using read_endif[OF 2(3) n(1), of R ?h] 1 2 by auto
qed

lemma read_all: "reads_items R f is" "reads_rest R f r"
proof (induction "is" and r)
  case Done
  show ?case unfolding reads_items_def using agree_refl by fastforce
next
  case (Text x "is")
  show ?case
    unfolding reads_items_def
  proof (intro allI impI)
    fix base :: "'a reader" and m d v stk ls st
    assume p: "shape d (Text x is)" "list_all file_line (lines_of (Text x is))" "conds_ok (cenv R) f (Text x is) v"
        "d \<le> 30" "length stk = 30" "at base (lines_of (Text x is) @ ls) (int d, stk, 0, False, v, m) st"
    then obtain st1 where 1: "parse_lines R (line_handler f) st = parse_lines R (line_handler f) st1"
        "at base (lines_of is @ ls) (int d, stk, 0, False, f x v, m) st1"
      using read_text[of base x "lines_of is @ ls" "int d" stk 0 False v m st R f] by auto
    show "\<exists>st' stk'. parse_lines R (line_handler f) st = parse_lines R (line_handler f) st' \<and> agree d stk stk' \<and>
        at base ls (int d, stk', 0, False, run (cenv R) f (Text x is) v, m) st'"
      using reads_itemsD[OF Text.IH _ _ _ p(4,5) 1(2)] p 1(1) by auto
  qed
next
  case Endif
  show ?case unfolding reads_rest_def using read_endif[of _ _ _ _ True] agree_refl by fastforce
qed (auto intro: read_If read_Elif read_Else)

text \<open>The variables that name the file, when they are set and deleted as they should be.\<close>

definition file_vars :: "'v read_env \<Rightarrow> (cstring \<Rightarrow> cstring \<Rightarrow> 'v \<Rightarrow> 'v) \<Rightarrow> (cstring \<Rightarrow> 'v \<Rightarrow> 'v) \<Rightarrow> bool" where
  "file_vars R put del =
     ((\<forall>x w cs. var_set R x w cs = Some (cs\<lparr>vars := put x w (vars cs)\<rparr>)) \<and>
      (\<forall>x cs. var_delete R x cs = Some (cs\<lparr>vars := del x (vars cs)\<rparr>)))"

definition enter_file :: "(cstring \<Rightarrow> cstring \<Rightarrow> 'v \<Rightarrow> 'v) \<Rightarrow> cstring \<Rightarrow> 'v \<Rightarrow> 'v" where
  "enter_file put name v =
     (case (case strrchr name CHR ''/'' of None \<Rightarrow> (''.'', name) | Some df \<Rightarrow> df) of
        (dir, file) \<Rightarrow> put ''.PARSEFILE'' file (put ''.PARSEDIR'' dir v))"

text \<open>
  A makefile of lines and conditional blocks, at most 30 deep, is read as its tree says; \<open>v1\<close> are the variables
  when the file has been entered and \<open>v2\<close> those when it has been left.
\<close>

lemma blocks_read:
  assumes "shape 30 is" "list_all file_line (lines_of is)" "conds_ok (cenv R) f is v1"
    and "view (rcond st) = (30, stk, 0, False, v, m)" "length stk = 30" "sources st = []"
    and "ParseSetParseFile R name (rcond st) = Some ((rcond st)\<lparr>vars := v1\<rparr>)"
    and "\<And>cs. vars cs = run (cenv R) f is v1 \<Longrightarrow>
      (do { cs \<leftarrow> var_delete R ''.PARSEDIR'' cs; var_delete R ''.PARSEFILE'' cs }) = Some (cs\<lparr>vars := v2\<rparr>)"
  shows "\<exists>st'. Parse_File R (line_handler f) name (file_text (lines_of is)) st = Some (Inr st') \<and>
               vars (rcond st') = v2 \<and> messages (rcond st') = m \<and>
               condTop (rcond st') = MAXIF \<and> skipIfLevel (rcond st') = 0 \<and> \<not> skipLine (rcond st')"
proof -
  define cs where "cs = (rcond st)\<lparr>vars := v1\<rparr>"
  let ?st = "st\<lparr>rtext := file_text (lines_of is), rptr := False, lineno := 0, fname := name, rcond := cs\<rparr>"
  have enter: "ParseSetParseFile R name (rcond st) = Some cs" using assms(7) by (simp add: cs_def)
  have "at ?st (lines_of is @ []) (int 30, stk, 0, False, v1, m) ?st" using assms(4) by (simp add: at_def view_def cs_def)
  then obtain st1 stk1 where 1: "parse_lines R (line_handler f) ?st = parse_lines R (line_handler f) st1"
      "at ?st [] (int 30, stk1, 0, False, run (cenv R) f is v1, m) st1"
    using reads_itemsD[OF read_all(1) assms(1-3) _ assms(5)] by blast
  define cs1 where "cs1 = (rcond st1)\<lparr>vars := v2\<rparr>"
  have s: "rtext st1 = []" "sources st1 = []" "rptr st1 = False" using 1(2) at_sources[OF 1(2)] assms(6) by (auto simp: at_def)
  have w: "view (rcond st1) = (30, stk1, 0, False, run (cenv R) f is v1, m)" using 1(2) by (simp add: at_def)
  then have "vars (rcond st1) = run (cenv R) f is v1" by (simp add: view_def)
  then have d: "(do { cs \<leftarrow> var_delete R ''.PARSEDIR'' (rcond st1); var_delete R ''.PARSEFILE'' cs }) = Some cs1"
    using assms(8)[of "rcond st1"] by (simp add: cs1_def)
  then obtain u where u: "var_delete R ''.PARSEDIR'' (rcond st1) = Some u" "var_delete R ''.PARSEFILE'' u = Some cs1"
    by (cases "var_delete R ''.PARSEDIR'' (rcond st1)") auto
  have "parse_lines R (line_handler f) st1 = Some (st1\<lparr>lineno := lineno st1, rtext := [], rcond := cs1\<rparr>)"
    using s u by (subst parse_lines.simps, subst ParseReadLine.simps) (simp add: raw_line_def ParseEOF_def)
  moreover have "messages (rcond st) = m" using assms(4) by (simp add: view_def)
  ultimately show ?thesis
    using 1(1) enter w by (auto simp: Parse_File_def view_def Cond_End_def MAXIF_def cs1_def)
qed

end
