(* ===== verification/Condodd.thy ===== *)
theory Condodd
  imports Condlines
begin

text \<open>
  Conditional directives on inputs at the edge: numbers, what is read wrongly, where the reader
  leaves the line, and an instance of the environment for concrete makefiles.
\<close>

subsection \<open>Variables in braces\<close>

text \<open>A reader of references without modifiers, over a map of variables: \<open>${x}\<close>, \<open>$(x)\<close> and \<open>$x\<close>.\<close>

definition braces_parse ::
    "(cstring \<Rightarrow> cstring option) cond_state \<Rightarrow> cstring \<Rightarrow> bool \<Rightarrow> (cstring option \<times> nat \<times> (cstring \<Rightarrow> cstring option) cond_state) option" where
  "braces_parse st s err =
     (let val = (\<lambda>x. case vars st x of Some w \<Rightarrow> Some w | None \<Rightarrow> if err then None else Some []);
          c = deref (tl s); e = (if c = CHR ''('' then CHR '')'' else CHR ''}'');
          x = takeWhile (\<lambda>d. d \<noteq> e) (drop 2 s)
      in if c = CHR ''('' \<or> c = CHR ''{''
         then (if length x + 2 = length s then Some (None, length s, st) else Some (val x, length x + 3, st))
         else Some (val (take 1 (tl s)), 2, st))"

definition braces_env :: "cstring list \<Rightarrow> (cstring \<Rightarrow> cstring option) cond_env" where
  "braces_env targets =
     \<lparr>var_parse = braces_parse, var_value = (\<lambda>v x. v x), created = targets, find_file = (\<lambda>_. None), find_node = (\<lambda>_. None)\<rparr>"

lemma takeWhile_upto: "c \<notin> set x \<Longrightarrow> takeWhile (\<lambda>d. d \<noteq> c) (x @ c # s) = x"
  by (induction x) auto

lemma braces_reads_var: "v x = Some w \<Longrightarrow> CHR ''}'' \<notin> set x \<Longrightarrow> reads_var (braces_env targets) v x w"
  by (simp add: reads_var_def braces_env_def braces_parse_def Let_def takeWhile_upto)

theorem EvalExpression_value_witness:
  "\<exists>st'. Cond_EvalExpression (braces_env [''all'']) True
           (show_c NE (Disj (Conj (Call CondDoDefined ''A'') (Neg (Is ''B'' True ''x''))) (Sym ''C''))) True
           (cond_start [''A'' \<mapsto> ''1'', ''B'' \<mapsto> ''y'']) = Some (COND_PARSE, Some True, st')"
proof -
  have "reads_var (braces_env [''all'']) [''A'' \<mapsto> ''1'', ''B'' \<mapsto> ''y''] ''B'' ''y''"
    by (rule braces_reads_var) simp_all
  then have wf: "wf_c (braces_env [''all'']) CondDoDefined [''A'' \<mapsto> ''1'', ''B'' \<mapsto> ''y'']
      (Disj (Conj (Call CondDoDefined ''A'') (Neg (Is ''B'' True ''x''))) (Sym ''C''))"
    by (simp add: symbol_def plain_arg_def plain_text_def arg_end_def braces_env_def)
  show ?thesis
    using EvalExpression_value[OF wf, of True "cond_start [''A'' \<mapsto> ''1'', ''B'' \<mapsto> ''y'']" False True]
    by (auto simp: braces_env_def cond_start_def)
qed

subsection \<open>The start of an expression\<close>

definition expr_start :: "bool \<Rightarrow> cstring \<Rightarrow> 'v cond_state \<Rightarrow> 'v cond_state" where
  "expr_start dosetup ln st =
     (let st = (if dosetup then st\<lparr>condDefProc := CondDoDefined, condInvert := False\<rparr> else st)
      in st\<lparr>lines := Suc (lines st), condPushed := TNone,
            condExpr := \<lparr>cp_id = Suc (lines st), cp_line = ln, cp_off = 0\<rparr>\<rparr>)"

lemma expr_start_simps [simp]:
  "vars (expr_start dosetup ln st) = vars st" "condPushed (expr_start dosetup ln st) = TNone"
  "text_at (condExpr (expr_start dosetup ln st)) = Some ln" "messages (expr_start dosetup ln st) = messages st"
  "cp_id (condExpr (expr_start dosetup ln st)) = Suc (lines st)"
  by (simp_all add: expr_start_def Let_def text_at_def)

lemma EvalExpression_start:
  assumes "\<not> is_blank (deref ln)"
  shows "Cond_EvalExpression E dosetup ln ep st =
    do { (t, st) \<leftarrow> CondE E True (expr_start dosetup ln st);
         let err = (\<lambda>st. (COND_INVALID, None,
               (if ep then Parse_Error PARSE_FATAL (''Malformed conditional ('' @ ln @ '')'') st else st)));
         if t = TTrue \<or> t = TFalse then do {
           (u, st) \<leftarrow> CondToken E True st;
           Some (if u = EndOfFile then (COND_PARSE, Some (t = TTrue), st) else err st) }
         else if t = Err then Some (err st)
         else Some (COND_PARSE, None, st) }"
proof -
  have "dropWhile is_blank ln = ln" using assms by (cases ln) auto
  then show ?thesis by (cases dosetup) (simp_all add: Cond_EvalExpression_def expr_start_def Let_def)
qed

lemma EvalExpression_None:
  "\<not> is_blank (deref ln) \<Longrightarrow> CondE E True (expr_start dosetup ln st) = None \<Longrightarrow> Cond_EvalExpression E dosetup ln ep st = None"
  by (simp add: EvalExpression_start)

lemma EvalExpression_Err:
  "\<not> is_blank (deref ln) \<Longrightarrow> CondE E True (expr_start dosetup ln st) = Some (Err, st') \<Longrightarrow>
   Cond_EvalExpression E dosetup ln ep st =
     Some (COND_INVALID, None, if ep then Parse_Error PARSE_FATAL (''Malformed conditional ('' @ ln @ '')'') st' else st')"
  by (simp add: EvalExpression_start Let_def)

lemma EvalExpression_odd:
  "\<not> is_blank (deref ln) \<Longrightarrow> CondE E True (expr_start dosetup ln st) = Some (t, st') \<Longrightarrow> t \<notin> {TTrue, TFalse, Err} \<Longrightarrow>
   Cond_EvalExpression E dosetup ln ep st = Some (COND_PARSE, None, st')"
  by (simp add: EvalExpression_start Let_def)

lemma EvalExpression_End:
  "\<not> is_blank (deref ln) \<Longrightarrow> CondE E True (expr_start dosetup ln st) = Some (t, st') \<Longrightarrow> t \<in> {TTrue, TFalse} \<Longrightarrow>
   CondToken E True st' = Some (EndOfFile, st'') \<Longrightarrow>
   Cond_EvalExpression E dosetup ln ep st = Some (COND_PARSE, Some (t = TTrue), st'')"
  by (simp add: EvalExpression_start Let_def)

lemma push_token: "condPushed st = TNone \<Longrightarrow> u \<noteq> TNone \<Longrightarrow> CondToken E d (CondPushBack u st) = Some (u, st)"
  by (cases st) (simp add: CondToken_def CondPushBack_def)

subsection \<open>What follows a variable\<close>

text \<open>The token at a reference to a variable in braces, at the start of an expression.\<close>

lemma variable_token:
  assumes "reads_var E v x w" "vars st = v" "condPushed st = TNone" "text_at (condExpr st) = Some (''${'' @ x @ ''}'' @ r)"
  shows "\<exists>q. CondToken E d st = cond_variable E d st \<and> text_at q = Some r \<and>
             var_parse E st (''${'' @ x @ ''}'' @ r) d = Some (Some w, length x + 3, st) \<and>
             cond_move (int (length x + 3)) st = st\<lparr>condExpr := q\<rparr>"
proof -
  have "var_parse E st (''${'' @ x @ ''}'' @ r) d = Some (Some w, length x + 3, st)"
    using assms(1,2) unfolding reads_var_def by blast
  moreover have "text_at (cp_plus (condExpr st) (int (length x + 3))) = Some r"
    using text_at_plus[of "condExpr st" "''${'' @ x @ ''}''" r] assms(4) by (simp add: add.commute)
  moreover have "cond_skip is_blank st = Some st"
    using assms(4) by (simp add: cond_skip_def cp_skip_def is_blank_def cp_plus_def)
  ultimately show ?thesis
    using assms(3,4) by (auto simp: CondToken_def cond_move_def)
qed

definition word_char :: "char \<Rightarrow> bool" where
  "word_char c = (\<not> isspace c \<and> c \<noteq> DQ \<and> c \<noteq> CHR '')'' \<and> c \<noteq> CHR 0x5C \<and> c \<noteq> CHR ''$'' \<and> c \<noteq> NUL)"

definition plain_word :: "cstring \<Rightarrow> bool" where
  "plain_word s = (s \<noteq> [] \<and> list_all word_char s)"

definition op_text :: "char \<Rightarrow> bool \<Rightarrow> cstring" where
  "op_text a eq = (if eq then [a, CHR ''=''] else [a])"

text \<open>The state in which the comparison of \<open>${x} op s\<close> is made.\<close>

lemma variable_compare:
  assumes "reads_var E v x w" "vars st = v" "condPushed st = TNone"
    and "text_at (condExpr st) = Some (''${'' @ x @ ''} '' @ op_text a eq @ '' '' @ s)" "plain_word s"
    and "a \<in> set ''!=<>''"
  shows "\<exists>q. CondToken E d st = do_compare E d w (a, if eq then CHR ''='' else CHR '' '') q (st\<lparr>condExpr := q\<rparr>) \<and> text_at q = Some s"
proof -
  have a: "a = CHR ''!'' \<or> a = CHR ''='' \<or> a = CHR ''<'' \<or> a = CHR ''>''" using assms(6) by auto
  then have na: "\<not> isspace a" by (auto simp: isspace_def byte_def)
  obtain c s' where s: "s = c # s'" using assms(5) by (cases s) (auto simp: plain_word_def)
  then have nc: "\<not> isspace c" using assms(5) by (auto simp: plain_word_def word_char_def)
  obtain q0 where q0: "CondToken E d st = cond_variable E d st" "text_at q0 = Some (CHR '' '' # op_text a eq @ CHR '' '' # s)"
      "var_parse E st (''${'' @ x @ ''}'' @ CHR '' '' # op_text a eq @ CHR '' '' # s) d = Some (Some w, length x + 3, st)"
      "cond_move (int (length x + 3)) st = st\<lparr>condExpr := q0\<rparr>"
    using variable_token[OF assms(1-3), of "CHR '' '' # op_text a eq @ CHR '' '' # s" d] assms(4) by auto
  have t: "text_at (condExpr st) = Some (''${'' @ x @ ''}'' @ CHR '' '' # op_text a eq @ CHR '' '' # s)" using assms(4) by simp
  define q1 where "q1 = cp_plus q0 1"
  have q1: "text_at q1 = Some (op_text a eq @ CHR '' '' # s)" using q0(2) by (simp add: q1_def text_at_plus1)
  have sk1: "cond_skip isspace (cond_move 0 (st\<lparr>condExpr := q0\<rparr>)) = Some (st\<lparr>condExpr := q1\<rparr>)"
    using q0(2) na by (simp add: cond_skip_def cp_skip_def cond_move_def cp_plus_def q1_def op_text_def)
  define q2 where "q2 = cp_plus q1 (if eq then 2 else 1)"
  have q2: "text_at q2 = Some (CHR '' '' # s)" using q1 text_at_plus1[of q1] text_at_plus2[of q1] by (cases eq) (simp_all add: q2_def op_text_def)
  define q3 where "q3 = cp_plus q2 1"
  have q3: "text_at q3 = Some s" using q2 by (simp add: q3_def text_at_plus1)
  have sk2: "cond_skip isspace (cond_move (if eq then 2 else 1) (st\<lparr>condExpr := q1\<rparr>)) = Some (st\<lparr>condExpr := q3\<rparr>)"
    using q2 nc s by (simp add: cond_skip_def cp_skip_def cond_move_def q2_def q3_def cp_plus_def)
  have "cond_variable E d st = do_compare E d w (a, if eq then CHR ''='' else CHR '' '') q3 (st\<lparr>condExpr := q3\<rparr>)"
    using t q0(2-4) q1 q3 sk1 sk2 a s
    by (cases eq) (simp_all add: cond_variable_def Let_def op_text_def)
  then show ?thesis using q0(1) q3 by metis
qed


subsection \<open>A word without quotes\<close>

lemma str_loop_word:
  assumes "list_all word_char s" "text_at p = Some s"
  shows "\<exists>q. str_loop E d False p buf st = Some (buf @ s, q, st) \<and> text_at q = Some [] \<and> q = cp_plus p (int (length s))"
  using assms
proof (induction s arbitrary: p buf)
  case Nil
  then show ?case by (simp add: str_loop.simps cp_plus_def)
next
  case (Cons c s)
  from Cons.prems(2) have "text_at (cp_plus p 1) = Some s" by (simp add: text_at_plus1)
  moreover have "\<not> is_blank c" using Cons.prems(1) by (auto simp: word_char_def is_blank_def isspace_def byte_def)
  ultimately show ?case
    using Cons.IH[of "cp_plus p 1" "buf @ [c]"] Cons.prems
    by (auto simp: word_char_def str_loop.simps[of E d False p] cp_plus_def add.assoc)
qed

lemma text_at_end: "text_at q = Some [] \<Longrightarrow> text_at (cp_plus q 1) = None"
  by (auto simp: text_at_def cp_plus_def split: if_splits)

lemma CondToken_outside: "condPushed st = TNone \<Longrightarrow> text_at (condExpr st) = None \<Longrightarrow> CondToken E d st = None"
  by (simp add: CondToken_def cond_skip_def cp_skip_def)

text \<open>
  An unquoted string at the end of the line: \<open>${x} == word\<close>. The pointer is set behind the NUL of the line,
  and the next token is read from there.
\<close>

theorem unquoted_at_end:
  assumes "reads_var E (vars st) x w" "plain_word s" "CondCvtArg w = None \<or> CondCvtArg s = None"
  shows "Cond_EvalExpression E dosetup (''${'' @ x @ ''} == '' @ s) ep st = None"
proof -
  let ?ln = "''${'' @ x @ ''} == '' @ s"
  define st1 where "st1 = expr_start dosetup ?ln st"
  have 1: "vars st1 = vars st" "condPushed st1 = TNone" "text_at (condExpr st1) = Some (''${'' @ x @ ''} '' @ op_text CHR ''='' True @ '' '' @ s)"
    by (auto simp: st1_def op_text_def)
  obtain q where q: "CondToken E True st1 = do_compare E True w (CHR ''='', CHR ''='') q (st1\<lparr>condExpr := q\<rparr>)" "text_at q = Some s"
    using variable_compare[OF assms(1) 1 assms(2), of True] by auto
  obtain c s' where s: "s = c # s'" "word_char c" using assms(2) by (cases s) (auto simp: plain_word_def)
  have "list_all word_char s" using assms(2) by (simp add: plain_word_def)
  then obtain q2 where q2: "str_loop E True False q [] (st1\<lparr>condExpr := q\<rparr>) = Some (s, q2, st1\<lparr>condExpr := q\<rparr>)" "text_at q2 = Some []"
    using str_loop_word[OF _ q(2), of E True "[]"] by auto
  have "do_compare E True w (CHR ''='', CHR ''='') q (st1\<lparr>condExpr := q\<rparr>) =
        string_compare E True w (CHR ''='', CHR ''='') q (st1\<lparr>condExpr := q\<rparr>)"
    using q(2) s assms(3) by (auto simp: do_compare_def word_char_def split: option.splits)
  also have "\<dots> = Some (if w = s then TTrue else TFalse, st1\<lparr>condExpr := cp_plus q2 1\<rparr>)"
    using q(2) q2 s by (auto simp: string_compare_def word_char_def Let_def)
  finally have tok: "CondToken E True st1 = Some (if w = s then TTrue else TFalse, st1\<lparr>condExpr := cp_plus q2 1\<rparr>)"
    using q(1) by simp
  have "CondToken E True (st1\<lparr>condExpr := cp_plus q2 1\<rparr>) = None"
    using CondToken_outside[of "st1\<lparr>condExpr := cp_plus q2 1\<rparr>" E True] text_at_end[OF q2(2)] 1(2) by simp
  then have "CondE E True st1 = None"
    using tok by (simp add: CondE_def cond_parse.simps[of E NE] cond_parse.simps[of E NF] cond_parse.simps[of E NT])
  then show ?thesis unfolding st1_def by (intro EvalExpression_None) (simp_all add: is_blank_def)
qed

theorem unquoted_at_end_witness:
  "Cond_EvalExpression (braces_env []) False ''${ARCH} == i386'' True (cond_start [''ARCH'' \<mapsto> ''i386'']) = None"
proof -
  have "reads_var (braces_env []) (vars (cond_start [''ARCH'' \<mapsto> ''i386''])) ''ARCH'' ''i386''"
    by (simp add: cond_start_def braces_reads_var)
  moreover have "plain_word ''i386''" by (simp add: plain_word_def word_char_def isspace_def byte_def)
  moreover have "CondCvtArg ''i386'' = None" by code_simp
  ultimately show ?thesis using unquoted_at_end[of "braces_env []" "cond_start [''ARCH'' \<mapsto> ''i386'']" "''ARCH''" "''i386''" "''i386''" False True] by simp
qed


fun int_op :: "char \<Rightarrow> bool \<Rightarrow> int \<Rightarrow> int \<Rightarrow> bool" where
  "int_op a eq i j =
     (if a = CHR ''='' then i = j else if a = CHR ''!'' then i \<noteq> j
      else if a = CHR ''<'' then (if eq then i \<le> j else i < j) else (if eq then j \<le> i else j < i))"

lemma number_compare_int:
  assumes "is_int x i" "is_int y j" "a \<in> set ''!=<>''" "a \<in> set ''!='' \<longrightarrow> eq"
  shows "number_compare x y (a, if eq then CHR ''='' else CHR '' '') st = (if int_op a eq i j then TTrue else TFalse, st)"
proof -
  have "a = CHR ''!'' \<or> a = CHR ''='' \<or> a = CHR ''<'' \<or> a = CHR ''>''" using assms(3) by auto
  then show ?thesis
    using assms(4) dbl_less_int[OF assms(1,2)] dbl_less_int[OF assms(2,1)] dbl_eq_int[OF assms(1,2)]
    by (elim disjE) (cases eq; simp add: number_compare_def Let_def not_less)+
qed

text \<open>
  A number at the end of the line is compared as a number; that of whole numbers is exact.
\<close>

theorem number_at_end:
  assumes "reads_var E (vars st) x (dec i)" "\<bar>i\<bar> < 2 ^ 53" "\<bar>j\<bar> < 2 ^ 53"
    and "a \<in> set ''!=<>''" "a \<in> set ''!='' \<longrightarrow> eq"
  shows "\<exists>st'. Cond_EvalExpression E dosetup (''${'' @ x @ ''} '' @ op_text a eq @ '' '' @ dec j) ep st =
                 Some (COND_PARSE, Some (int_op a eq i j), st') \<and> messages st' = messages st"
proof -
  let ?ln = "''${'' @ x @ ''} '' @ op_text a eq @ '' '' @ dec j"
  define st1 where "st1 = expr_start dosetup ?ln st"
  have 1: "vars st1 = vars st" "condPushed st1 = TNone" "text_at (condExpr st1) = Some ?ln" "messages st1 = messages st"
    by (auto simp: st1_def)
  have digit_word: "word_char c" if "isdigit c \<or> c = CHR ''-''" for c
    using that by (auto simp: word_char_def ctype_defs byte_def)
  then have word: "list_all word_char (dec j)"
    using dec_nat_digits by (auto simp: dec_def list_all_iff)
  then have pw: "plain_word (dec j)" by (simp add: plain_word_def)
  obtain q where q: "CondToken E True st1 = do_compare E True (dec i) (a, if eq then CHR ''='' else CHR '' '') q (st1\<lparr>condExpr := q\<rparr>)"
      "text_at q = Some (dec j)"
    using variable_compare[OF assms(1) 1(1-3) pw assms(4), of True] by auto
  obtain c s' where s: "dec j = c # s'" "word_char c" using pw by (cases "dec j") (auto simp: plain_word_def)
  define q2 where "q2 = cp_plus q (int (length (dec j)))"
  have tw: "takeWhile (\<lambda>c. \<not> isspace c) (dec j) = dec j"
    using word by (auto simp: takeWhile_eq_all_conv list_all_iff word_char_def)
  have "cp_skip (\<lambda>c. \<not> isspace c) q = Some q2"
    by (simp only: cp_skip_def q(2) Option.bind.simps tw q2_def)
  then have sk: "cond_skip (\<lambda>c. \<not> isspace c) (st1\<lparr>condExpr := q\<rparr>) = Some (st1\<lparr>condExpr := q2\<rparr>)"
    by (simp add: cond_skip_def)
  have q2: "text_at q2 = Some []" using text_at_plus[of q "dec j" "[]"] q(2) by (simp add: q2_def)
  obtain x1 y1 where xy: "CondCvtArg (dec i) = Some x1" "is_int x1 i" "CondCvtArg (dec j) = Some y1" "is_int y1 j"
    using CondCvtArg_dec assms(2,3) by blast
  have tok: "CondToken E True st1 = Some (if int_op a eq i j then TTrue else TFalse, st1\<lparr>condExpr := q2\<rparr>)"
    using q s xy sk number_compare_int[OF xy(2,4) assms(4,5), of "st1\<lparr>condExpr := q2\<rparr>"]
    by (cases eq) (simp_all add: do_compare_def word_char_def del: int_op.simps)
  have eof: "CondToken E True (st1\<lparr>condExpr := q2\<rparr>) = Some (EndOfFile, st1\<lparr>condExpr := q2\<rparr>)"
    using q2 1(2) by (simp add: CondToken_def cond_skip_def cp_skip_def cp_plus_def)
  have push: "CondToken E True (CondPushBack EndOfFile (st1\<lparr>condExpr := q2\<rparr>)) = Some (EndOfFile, st1\<lparr>condExpr := q2\<rparr>)"
    using push_token[of "st1\<lparr>condExpr := q2\<rparr>"] 1(2) by simp
  have "CondE E True st1 = Some (if int_op a eq i j then TTrue else TFalse, CondPushBack EndOfFile (st1\<lparr>condExpr := q2\<rparr>))"
    using tok eof push
    by (simp add: CondE_def cond_parse.simps[of E NE] cond_parse.simps[of E NF] cond_parse.simps[of E NT] del: int_op.simps)
  then have "Cond_EvalExpression E dosetup ?ln ep st = Some (COND_PARSE, Some (int_op a eq i j), st1\<lparr>condExpr := q2\<rparr>)"
    using EvalExpression_End[of ?ln E dosetup st _ _ "st1\<lparr>condExpr := q2\<rparr>" ep] push
    by (cases "int_op a eq i j") (simp_all add: st1_def is_blank_def del: int_op.simps)
  then show ?thesis using 1(4) by auto
qed

theorem number_at_end_witness:
  "\<exists>st'. Cond_EvalExpression (braces_env []) False ''${N} >= 9'' True (cond_start [''N'' \<mapsto> ''10'']) =
           Some (COND_PARSE, Some True, st')"
proof -
  have d: "dec 10 = ''10''" "dec 9 = ''9''" by code_simp+
  have "reads_var (braces_env []) (vars (cond_start [''N'' \<mapsto> ''10''])) ''N'' (dec 10)"
    by (simp add: cond_start_def braces_reads_var d)
  then show ?thesis
    using number_at_end[of "braces_env []" "cond_start [''N'' \<mapsto> ''10'']" "''N''" 10 9 "CHR ''>''" True False True]
    by (auto simp: d op_text_def)
qed

subsection \<open>Parentheses, operators and names\<close>

lemma number_compare_neq:
  "number_compare a b (CHR ''!'', CHR ''='') st = (if dbl_eq a b then TFalse else TTrue, st)"
  by (simp add: number_compare_def)

text \<open>
  A closing parenthesis right after a variable is taken for a part of its value: \<open>(${x})\<close> is malformed.
\<close>

theorem parenthesis_swallowed:
  assumes "reads_var E (vars st) x w"
  shows "\<exists>st'. Cond_EvalExpression E dosetup (''(${'' @ x @ ''})'') True st = Some (COND_INVALID, None, st') \<and>
               messages st' = messages st @ [(PARSE_FATAL, ''Malformed conditional ((${'' @ x @ ''}))'')]"
proof -
  let ?ln = "''(${'' @ x @ ''})''"
  define st1 where "st1 = expr_start dosetup ?ln st"
  have 1: "vars st1 = vars st" "condPushed st1 = TNone" "text_at (condExpr st1) = Some ?ln" "messages st1 = messages st"
    by (auto simp: st1_def)
  define st2 where "st2 = cond_move 1 st1"
  have tok1: "CondToken E True st1 = Some (LParen, st2)"
    using 1 by (simp add: CondToken_def cond_skip_def cp_skip_def cp_plus_def is_blank_def st2_def)
  have 2: "vars st2 = vars st" "condPushed st2 = TNone" "text_at (condExpr st2) = Some (''${'' @ x @ ''}'' @ '')'')"
    using 1 by (auto simp: st2_def cond_move_def text_at_plus1)
  obtain q where q: "CondToken E True st2 = cond_variable E True st2" "text_at q = Some '')''"
      "var_parse E st2 (''${'' @ x @ ''}'' @ '')'') True = Some (Some w, length x + 3, st2)"
      "cond_move (int (length x + 3)) st2 = st2\<lparr>condExpr := q\<rparr>"
    using variable_token[OF assms 2(1,2,3), of True] by auto
  define q2 where "q2 = cp_plus q 1"
  have q2: "text_at q2 = Some []" using q(2) by (simp add: q2_def text_at_plus1)
  have sk: "cond_skip isspace (cond_move 1 (st2\<lparr>condExpr := q\<rparr>)) = Some (st2\<lparr>condExpr := q2\<rparr>)"
    using q2 by (simp add: cond_skip_def cp_skip_def cond_move_def q2_def cp_plus_def)
  have id: "cp_id q2 = Suc (lines st)"
    using arg_cong[OF q(4), of "\<lambda>s. cp_id (condExpr s)"]
    by (simp add: q2_def cp_plus_def cond_move_def st2_def st1_def)
  have var: "cond_variable E True st2 = do_compare E True (w @ '')'') (CHR ''!'', CHR ''='') zero_rhs (st2\<lparr>condExpr := q2\<rparr>)"
    using 2(3) q(2,3,4) sk q2 by (simp add: cond_variable_def Let_def isspace_def byte_def)
  have z: "text_at zero_rhs = Some ''0''" "zero_rhs \<noteq> q2" using id by (auto simp: zero_rhs_def text_at_def)
  have "\<exists>t. do_compare E True (w @ '')'') (CHR ''!'', CHR ''='') zero_rhs (st2\<lparr>condExpr := q2\<rparr>) = Some (t, st2\<lparr>condExpr := q2\<rparr>) \<and> t \<in> {TTrue, TFalse}"
  proof -
    have w0: "list_all word_char ''0''" by (simp add: word_char_def isspace_def byte_def)
    obtain p where p: "str_loop E True False zero_rhs [] (st2\<lparr>condExpr := q2\<rparr>) = Some (''0'', p, st2\<lparr>condExpr := q2\<rparr>)" "text_at p = Some []"
      using str_loop_word[OF w0 z(1), of E True "[]"] by auto
    have c0: "CondCvtArg ''0'' \<noteq> None" by code_simp
    show ?thesis
      using z p c0 by (auto simp: do_compare_def string_compare_def number_compare_neq Let_def split: option.splits)
  qed
  then obtain t where t: "CondToken E True st2 = Some (t, st2\<lparr>condExpr := q2\<rparr>)" "t \<in> {TTrue, TFalse}"
    using q(1) var by auto
  have eof: "CondToken E True (st2\<lparr>condExpr := q2\<rparr>) = Some (EndOfFile, st2\<lparr>condExpr := q2\<rparr>)"
    using q2 2(2) by (simp add: CondToken_def cond_skip_def cp_skip_def cp_plus_def)
  have push: "CondToken E d (CondPushBack EndOfFile (st2\<lparr>condExpr := q2\<rparr>)) = Some (EndOfFile, st2\<lparr>condExpr := q2\<rparr>)" for d
    using push_token[of "st2\<lparr>condExpr := q2\<rparr>"] 2(2) by simp
  have "cond_parse E NT True st2 = Some (t, st2\<lparr>condExpr := q2\<rparr>)"
    using t by (auto simp: cond_parse.simps[of E NT])
  then have "cond_parse E NF True st2 = Some (t, CondPushBack EndOfFile (st2\<lparr>condExpr := q2\<rparr>))"
    using t eof by (auto simp: cond_parse.simps[of E NF])
  then have "cond_parse E NE True st2 = Some (t, CondPushBack EndOfFile (st2\<lparr>condExpr := q2\<rparr>))"
    using t push by (auto simp: cond_parse.simps[of E NE])
  then have "cond_parse E NT True st1 = Some (Err, st2\<lparr>condExpr := q2\<rparr>)"
    using t(2) push tok1 by (auto simp: cond_parse.simps[of E NT])
  then have "CondE E True st1 = Some (Err, st2\<lparr>condExpr := q2\<rparr>)"
    by (simp add: CondE_def cond_parse.simps[of E NE] cond_parse.simps[of E NF])
  then have "Cond_EvalExpression E dosetup ?ln True st =
      Some (COND_INVALID, None, Parse_Error PARSE_FATAL (''Malformed conditional ('' @ ?ln @ '')'') (st2\<lparr>condExpr := q2\<rparr>))"
    using EvalExpression_Err[of ?ln E dosetup st _ True] by (simp add: st1_def is_blank_def)
  moreover have "messages st2 = messages st" using 1(4) by (simp add: st2_def cond_move_def)
  ultimately show ?thesis by (simp add: Parse_Error_def)
qed

text \<open>An operator with nothing on either side is accepted, and \<^verbatim>\<open>*value\<close> is left alone.\<close>

theorem operator_alone:
  "\<exists>st'. Cond_EvalExpression E dosetup ''&&'' ep st = Some (COND_PARSE, None, st') \<and> messages st' = messages st"
proof -
  define st1 where "st1 = expr_start dosetup ''&&'' st"
  have 1: "condPushed st1 = TNone" "text_at (condExpr st1) = Some ''&&''" "messages st1 = messages st" by (auto simp: st1_def)
  define st2 where "st2 = cond_move 2 st1"
  have 2: "condPushed st2 = TNone" "text_at (condExpr st2) = Some []" "messages st2 = messages st"
    using 1 text_at_plus2[OF 1(2)] by (auto simp: st2_def cond_move_def)
  have tok: "CondToken E True st1 = Some (And, st2)"
    using 1 by (simp add: CondToken_def cond_skip_def cp_skip_def cp_plus_def is_blank_def st2_def)
  have eof: "CondToken E d st2 = Some (EndOfFile, st2)" for d
    using 2 by (simp add: CondToken_def cond_skip_def cp_skip_def cp_plus_def)
  have push: "CondToken E d (CondPushBack EndOfFile st2) = Some (EndOfFile, st2)" for d
    using push_token 2(1) by blast
  have "CondE E True st1 = Some (And, CondPushBack EndOfFile st2)"
    using tok eof push by (simp add: CondE_def cond_parse.simps[of E NE] cond_parse.simps[of E NF] cond_parse.simps[of E NT])
  then have "Cond_EvalExpression E dosetup ''&&'' ep st = Some (COND_PARSE, None, CondPushBack EndOfFile st2)"
    using EvalExpression_odd[of "''&&''" E dosetup st And _ ep] by (simp add: st1_def is_blank_def)
  then show ?thesis using 2(3) by (simp add: CondPushBack_def)
qed


text \<open>
  A variable whose modifiers evaluate a condition, as \<^verbatim>\<open>:?\<close> does: the pointer of the outer
  expression is left at the end of the inner one, and the length of the reference is added to it.
\<close>

theorem nested_condition:
  assumes "wf_c E' CondDoDefined (vars st) c" "0 < n"
    and "\<And>st'. var_parse E st' s True = map_option (\<lambda>(_, _, st'). (Some w, n, st')) (Cond_EvalExpression E' True (show_c NE c) False st')"
    and "deref s = CHR ''$''"
  shows "Cond_EvalExpression E dosetup s ep st = None"
proof -
  define st1 where "st1 = expr_start dosetup s st"
  have 1: "vars st1 = vars st" "condPushed st1 = TNone" "text_at (condExpr st1) = Some s" by (auto simp: st1_def)
  obtain st2 where 2: "Cond_EvalExpression E' True (show_c NE c) False st1 = Some (COND_PARSE, Some (beval E' CondDoDefined False (vars st) c), st2)"
      "text_at (condExpr st2) = Some []"
    using expression_value[OF assms(1), of True st1 False False] 1(1) by auto
  have "text_at (cp_plus (condExpr st2) (int n)) = None"
    using 2(2) assms(2) by (auto simp: text_at_def cp_plus_def split: if_splits)
  then have "cond_variable E True st1 = None"
    using 1 2(1) assms(3)[of st1] by (simp add: cond_variable_def cond_move_def Let_def)
  moreover have "cond_skip is_blank st1 = Some st1"
    using 1(3) assms(4) by (cases s) (auto simp: cond_skip_def cp_skip_def is_blank_def cp_plus_def)
  ultimately have "CondToken E True st1 = None"
    using 1(2,3) assms(4) by (cases s) (auto simp: CondToken_def)
  then have "CondE E True st1 = None"
    by (simp add: CondE_def cond_parse.simps[of E NE] cond_parse.simps[of E NF] cond_parse.simps[of E NT])
  then show ?thesis unfolding st1_def using assms(4) by (intro EvalExpression_None) (simp_all add: is_blank_def)
qed

text \<open>An environment in which every reference is \<open>defined(A)\<close> with \<^verbatim>\<open>:?\<close>.\<close>

definition ternary_env :: "(cstring \<Rightarrow> cstring option) cond_env" where
  "ternary_env = (braces_env [])
     \<lparr>var_parse := (\<lambda>st s err. map_option (\<lambda>(_, _, st'). (Some ''yes'', 20, st'))
                      (Cond_EvalExpression (braces_env []) True (show_c NE (Call CondDoDefined ''A'')) False st))\<rparr>"

theorem nested_condition_witness:
  "Cond_EvalExpression ternary_env False ''${${A}:?yes:no} == yes'' True (cond_start [''A'' \<mapsto> ''1'']) = None"
  by (rule nested_condition[of "braces_env []" _ "Call CondDoDefined ''A''" 20 _ _ "''yes''"])
    (simp_all add: ternary_env_def plain_arg_def arg_end_def)

subsection \<open>Names\<close>

text \<open>
  A symbol that starts like a function is taken for it, and the argument is that of the next
  parenthesis on the line, whatever is between.
\<close>

theorem symbol_like_make:
  assumes "plain_arg a" "CHR ''('' \<notin> set between" "any_match (created E) a = Some b"
  shows "\<exists>st'. Cond_EvalExpression E dosetup (''make'' @ between @ ''('' @ a @ '')'') ep st = Some (COND_PARSE, Some b, st')"
proof -
  let ?ln = "''make'' @ between @ ''('' @ a @ '')''"
  define st1 where "st1 = expr_start dosetup ?ln st"
  have 1: "condPushed st1 = TNone" "text_at (condExpr st1) = Some (''make'' @ between @ CHR ''('' # a @ '')'')" by (auto simp: st1_def)
  define st2 where "st2 = cond_move 4 st1"
  have t2: "text_at (condExpr st2) = Some (between @ CHR ''('' # a @ '')'')"
    using text_at_plus[of "condExpr st1" "''make''" "between @ CHR ''('' # a @ '')''"] 1(2) by (simp add: st2_def cond_move_def)
  have dw: "dropWhile (\<lambda>c. c \<noteq> CHR ''('') (between @ CHR ''('' # r) = CHR ''('' # r" for r
    using assms(2) by (induction between) auto
  obtain p0 where p0: "cp_skip (\<lambda>c. c \<noteq> CHR ''('') (condExpr st2) = Some p0" "text_at p0 = Some (CHR ''('' # a @ '')'')"
    using cp_skip_Some[OF t2, of "\<lambda>c. c \<noteq> CHR ''(''"] dw by auto
  then have p1: "text_at (cp_plus p0 1) = Some (a @ '')'')" by (simp add: text_at_plus1)
  obtain p2 where p2: "cp_skip is_blank (cp_plus p0 1) = Some p2" "text_at p2 = Some (a @ '')'')"
    using cp_skip_Some[OF p1, of is_blank] dropWhile_plain[OF assms(1), of "'')''"] by auto
  obtain p3 where p3: "arg_loop E p2 [] st2 = Some (a, p3, st2)" "text_at p3 = Some '')''"
    using arg_loop_plain[OF assms(1) _ p2(2), of E "[]" st2] by (auto simp: arg_end_def)
  obtain p4 where p4: "cp_skip is_blank p3 = Some p4" "text_at p4 = Some '')''"
    using cp_skip_Some[OF p3(2), of is_blank] by auto
  define st3 where "st3 = st2\<lparr>condExpr := cp_plus p4 1\<rparr>"
  have arg: "CondGetArg E ''make'' True st2 = Some (length a + 1, a, st3)"
    using p0 p1 p2 p3 p4 by (auto simp: CondGetArg_def Let_def st3_def)
  have sk: "cond_skip is_blank st1 = Some st1"
    using 1(2) by (simp add: cond_skip_def cp_skip_def is_blank_def cp_plus_def)
  have tok: "CondToken E True st1 = Some (if b then TTrue else TFalse, st3)"
    using sk 1 arg assms(3) by (simp add: CondToken_def cond_call_def st2_def[symmetric] cond_apply_def)
  have eof: "CondToken E True st3 = Some (EndOfFile, st3)"
    using p4(2) 1(1) by (simp add: CondToken_def cond_skip_def cp_skip_def cp_plus_def st3_def st2_def cond_move_def text_at_plus1[unfolded cp_plus_def])
  have push: "CondToken E True (CondPushBack EndOfFile st3) = Some (EndOfFile, st3)"
    using push_token[of st3] 1(1) by (simp add: st3_def st2_def cond_move_def)
  have "CondE E True st1 = Some (if b then TTrue else TFalse, CondPushBack EndOfFile st3)"
    using tok eof push by (simp add: CondE_def cond_parse.simps[of E NE] cond_parse.simps[of E NF] cond_parse.simps[of E NT])
  then have "Cond_EvalExpression E dosetup ?ln ep st = Some (COND_PARSE, Some b, st3)"
    using EvalExpression_End[of ?ln E dosetup st _ _ st3 ep] push by (cases b) (simp_all add: st1_def is_blank_def)
  then show ?thesis by blast
qed

subsection \<open>Nesting and the end of the file\<close>

text \<open>
  The thirty-first block: the level goes below the stack, and the next \<^verbatim>\<open>else\<close> reads in front of it.
\<close>

theorem too_many_ifs:
  assumes "k \<in> set ifs" "cond_ok E v k c" "view cs = (0, stk, 0, False, v, m)"
  shows "\<exists>cs'. Cond_Eval E (if_line k c) cs = Some (COND_INVALID, cs') \<and> condTop cs' = - 1 \<and> Cond_Eval E ''.else'' cs' = None"
proof -
  obtain form neg f where k: "k = (form, neg, f)" by (cases k)
  have vw: "condTop cs = 0" "condStack cs = stk" "skipIfLevel cs = 0" "\<not> skipLine cs" "vars cs = v" "messages cs = m"
    using assms(3) by (simp_all add: view_def)
  obtain cs' where cs': "Cond_EvalExpression E False (CHR '' '' # show_c NE c) True (cs\<lparr>condDefProc := f, condInvert := neg\<rparr>) =
        Some (COND_PARSE, Some (holds E v k c), cs')" "view cs' = view cs"
    using eval_expr[of E f cs c neg] assms(2) k vw(5) by (auto simp: cond_ok_def holds_def)
  obtain x where x: "form = CHR ''i'' # CHR ''f'' # x" using not_el assms(1) k by blast
  have "Cond_Eval E (if_line k c) cs = cond_if_line E False (form @ CHR '' '' # show_c NE c) cs"
    using x by (simp add: Cond_Eval_def if_line_def k is_blank_def)
  also have "\<dots> = cond_decide False (holds E v k c) cs'"
    using find_form[of form neg f] assms(1) k vw cs' by (auto simp: cond_if_line_def)
  finally show ?thesis
    using cs'(2) assms(3)
    by (auto simp: cond_decide_def view_def Parse_Error_def Cond_Eval_def cond_if_line_def ifs_def MAXIF_def is_blank_def nth_opt_def)
qed

text \<open>
  A file that ends with the line of \<^verbatim>\<open>endif\<close> but without a newline after it, while lines are skipped:
  the directive is not seen and the file is rejected.
\<close>

theorem last_line_lost:
  assumes "k \<in> set ifs" "cond_ok (cenv R) v k c" "\<not> holds (cenv R) v k c" "file_line (if_line k c)"
    and "view (rcond st) = (30, stk, 0, False, v0, m)" "v = enter_file put name v0" "sources st = []" "file_vars R put del"
  shows "\<exists>st'. Parse_File R h name (if_line k c @ [NL] @ ''.endif'') st = Some (Inl st') \<and>
               (PARSE_FATAL, ''Unclosed conditional/for loop'') \<in> set (messages (rcond st'))"
proof -
  let ?s = "if_line k c @ NL # ''.endif''"
  define cs0 where "cs0 = (rcond st)\<lparr>vars := v\<rparr>"
  let ?st = "st\<lparr>rtext := ?s, rptr := False, lineno := 0, fname := name, rcond := cs0\<rparr>"
  have enter: "ParseSetParseFile R name (rcond st) = Some cs0"
    using assms(5,6,8) by (auto simp: ParseSetParseFile_def file_vars_def enter_file_def view_def cs0_def split: option.splits)
  have "view cs0 = (30, stk, 0, False, v, m)" using assms(5) by (simp add: view_def cs0_def)
  then obtain cs where cs: "Cond_Eval (cenv R) (if_line k c) cs0 = Some (COND_SKIP, cs)"
      "view cs = (29, stk[29 := False], 0, True, v, m)"
    using eval_if[OF assms(1,2)] assms(3) by fastforce
  have raw: "raw_line False 0 ?s = (Some (if_line k c), 1, ''.endif'')"
    using raw_line_plain[OF assms(4)] by simp
  have end0: "ParseSkipLine False True n ''.endif'' = (None, n, [])" for n
    by (simp add: ParseSkipLine.simps skip_chars.simps)
  define st2 where "st2 = read_error ''Unclosed conditional/for loop'' (st\<lparr>rptr := False, fname := name, rcond := cs, lineno := 1, rtext := []\<rparr>)"
  define st3 where "st3 = st2\<lparr>rcond := (rcond st2)\<lparr>vars := del ''.PARSEFILE'' (del ''.PARSEDIR'' (vars (rcond st2)))\<rparr>\<rparr>"
  have "ParseReadLine R ?st = Some (None, st2)"
    using raw cs(1) end0
    by (subst ParseReadLine.simps) (simp add: read_cond_def skip_to_parse.simps skip_line_def Let_def st2_def)
  then have "parse_lines R h ?st = Some st3"
    using assms(7,8) by (subst parse_lines.simps) (simp add: ParseEOF_def file_vars_def st3_def st2_def read_error_def)
  moreover have "messages (rcond st3) = m @ [(PARSE_FATAL, ''Unclosed conditional/for loop'')]"
    using cs(2) by (simp add: st3_def st2_def read_error_def Parse_Error_def view_def)
  moreover have "messages (rcond st) = m" using assms(5) by (simp add: view_def)
  ultimately show ?thesis using enter by (auto simp: Parse_File_def Cond_End_def Let_def Parse_Error_def)
qed

subsection \<open>A makefile\<close>

definition plain_reader :: "(cstring \<Rightarrow> cstring option) read_env" where
  "plain_reader =
     \<lparr>cenv = braces_env [], var_subst = (\<lambda>_ s cs. Some (s, cs)),
      var_set = (\<lambda>x w cs. Some (cs\<lparr>vars := (vars cs)(x \<mapsto> w)\<rparr>)),
      var_delete = (\<lambda>x cs. Some (cs\<lparr>vars := (vars cs)(x := None)\<rparr>))\<rparr>"

lemma plain_reader_file: "file_vars plain_reader (\<lambda>x w v. v(x \<mapsto> w)) (\<lambda>x v. v(x := None))"
  by (simp add: file_vars_def plain_reader_def)

theorem symbol_like_make_witness:
  "\<exists>st'. Cond_EvalExpression (braces_env [''X'']) True ''makedir && defined(X)'' True (cond_start Map.empty) =
           Some (COND_PARSE, Some True, st')"
proof -
  have "Str_Match ''X'' ''X'' = Some True" by code_simp
  then have "plain_arg ''X''" "CHR ''('' \<notin> set ''dir && defined''" "any_match (created (braces_env [''X''])) ''X'' = Some True"
    by (simp_all add: plain_arg_def arg_end_def braces_env_def)
  then show ?thesis
    using symbol_like_make[of "''X''" "''dir && defined''" "braces_env [''X'']" True True True] by simp
qed

theorem parenthesis_swallowed_witness:
  "\<exists>st'. Cond_EvalExpression (braces_env []) True ''(${X})'' True (cond_start [''X'' \<mapsto> ''1'']) = Some (COND_INVALID, None, st')"
proof -
  have "reads_var (braces_env []) (vars (cond_start [''X'' \<mapsto> ''1''])) ''X'' ''1''"
    by (simp add: cond_start_def braces_reads_var)
  then show ?thesis
    using parenthesis_swallowed[of "braces_env []" "cond_start [''X'' \<mapsto> ''1'']" "''X''" "''1''" True] by auto
qed

theorem last_line_lost_witness:
  "\<exists>st'. Parse_File plain_reader (\<lambda>l st. Some st) ''Makefile'' (''.if A'' @ [NL] @ ''.endif'') (reader_start (cond_start Map.empty)) = Some (Inl st') \<and>
         (PARSE_FATAL, ''Unclosed conditional/for loop'') \<in> set (messages (rcond st'))"
proof -
  let ?k = "(''if'', False, CondDoDefined)" and ?put = "\<lambda>x w v :: cstring \<Rightarrow> cstring option. v(x \<mapsto> w)"
  have l: "if_line ?k (Sym ''A'') = ''.if A''" by (simp add: if_line_def)
  have v: "enter_file ?put ''Makefile'' Map.empty = [''.PARSEDIR'' \<mapsto> ''.'', ''.PARSEFILE'' \<mapsto> ''Makefile'']"
    by (simp add: enter_file_def strrchr_def)
  have 1: "?k \<in> set ifs" "file_line (if_line ?k (Sym ''A''))"
    by (simp_all add: ifs_def file_line_def line_char_def if_line_def is_blank_def)
  have 2: "cond_ok (cenv plain_reader) (enter_file ?put ''Makefile'' Map.empty) ?k (Sym ''A'')"
      "\<not> holds (cenv plain_reader) (enter_file ?put ''Makefile'' Map.empty) ?k (Sym ''A'')"
    unfolding v by (auto simp: plain_reader_def cond_ok_def holds_def braces_env_def symbol_def plain_arg_def arg_end_def cond_start_def)
  have 3: "view (rcond (reader_start (cond_start Map.empty))) = (30, replicate 30 False, 0, False, Map.empty, [])"
      "sources (reader_start (cond_start Map.empty)) = []"
    by (simp_all add: view_def reader_start_def cond_start_def MAXIF_def)
  show ?thesis
    using last_line_lost[OF 1(1) 2 1(2) 3(1) refl 3(2) plain_reader_file] unfolding l by simp
qed

end
