(* ===== verification/Forloop.thy ===== *)
theory Forloop
  imports Condlines
begin

text \<open>
  The loops of \<^verbatim>\<open>for.c\<close>: the body is collected up to the matching end and becomes one source
  for every word of the list, in the order of the list.
\<close>

subsection \<open>The lines of a loop\<close>

definition for_line :: "cstring \<Rightarrow> cstring \<Rightarrow> cstring" where
  "for_line x ws = ''.for '' @ x @ '' in '' @ ws"

text \<open>A line of the body that neither starts nor ends a loop.\<close>

definition body_line :: "cstring \<Rightarrow> bool" where
  "body_line l =
     (file_line l \<and>
      \<not> (deref l = CHR ''.'' \<and> (prefix ''for'' (dropWhile isspace (tl l)) \<or> prefix ''endfor'' (dropWhile isspace (tl l)))))"

lemma file_line_plain: "file_line l \<Longrightarrow> list_all line_char l"
  by (simp add: file_line_def)

lemma skip_line_plain:
  assumes "file_line l" "rtext st = l @ NL # s"
  shows "skip_line False st = (Some l, st\<lparr>lineno := lineno st + 1, rtext := s\<rparr>)"
  using assms skip_chars_plain[of l NUL "rptr st" "[]" "lineno st" s] c_str_plain[of l]
  by (simp add: skip_line_def ParseSkipLine.simps file_line_def)

lemma accumulate_body:
  assumes "body_line l" "forLevel st = 1" "for_buf st = Some b"
  shows "for_accumulate l st = Some (True, st\<lparr>for_buf := Some (b @ l @ [NL])\<rparr>)"
  using assms by (auto simp: for_accumulate_def body_line_def Let_def)

lemma for_body_lines:
  assumes "list_all body_line ls" "forLevel st = 1" "for_buf st = Some b" "rtext st = file_text ls @ ''.endfor'' @ NL # s"
  shows "\<exists>n. for_body R st = Some (True, st\<lparr>lineno := n, rtext := s, for_buf := Some (b @ file_text ls), forLevel := 0\<rparr>)"
  using assms
proof (induction ls arbitrary: st b)
  case Nil
  have f: "file_line ''.endfor''" by (simp add: file_line_def line_char_def is_blank_def)
  have "skip_line False st = (Some ''.endfor'', st\<lparr>lineno := lineno st + 1, rtext := s\<rparr>)"
    using skip_line_plain[OF f, of st s] Nil.prems(4) by simp
  then show ?case using Nil.prems
    by (subst for_body.simps, intro exI[of _ "Suc (lineno st)"], cases st)
       (auto simp: For_Eval_def for_accumulate_def isspace_def byte_def Let_def)
next
  case (Cons l ls)
  have f: "file_line l" "body_line l" using Cons.prems(1) by (auto simp: body_line_def)
  define st1 where "st1 = st\<lparr>lineno := lineno st + 1, rtext := file_text ls @ ''.endfor'' @ NL # s\<rparr>"
  have "skip_line False st = (Some l, st1)"
    using skip_line_plain[OF f(1), of st] Cons.prems(4) by (simp add: st1_def)
  moreover have "for_accumulate l st1 = Some (True, st1\<lparr>for_buf := Some (b @ l @ [NL])\<rparr>)"
    using accumulate_body[OF f(2), of st1 b] Cons.prems(2,3) by (simp add: st1_def)
  ultimately have "for_body R st = for_body R (st1\<lparr>for_buf := Some (b @ l @ [NL])\<rparr>)"
    using Cons.prems(2) by (subst for_body.simps) (simp add: For_Eval_def st1_def)
  then show ?case
    using Cons.IH[of "st1\<lparr>for_buf := Some (b @ l @ [NL])\<rparr>" "b @ l @ [NL]"] Cons.prems by (auto simp: st1_def)
qed

subsection \<open>The rounds\<close>

text \<open>What one round does, when setting, replacing and deleting the variable leaves the rest as it was.\<close>

definition replaces :: "'v read_env \<Rightarrow> cstring \<Rightarrow> cstring \<Rightarrow> 'v cond_state \<Rightarrow> (cstring \<Rightarrow> cstring) \<Rightarrow> cstring \<Rightarrow> bool" where
  "replaces R x body cs rep w =
     (\<exists>cs1 cs2. var_set R x w cs = Some cs1 \<and> var_subst R (Some x) body cs1 = Some (rep w, cs2) \<and> var_delete R x cs2 = Some cs)"

lemma rounds_pushed:
  assumes "\<forall>w \<in> set lst. replaces R x body (rcond st) rep w"
  shows "for_rounds R [x] lst body st = Some (fold (\<lambda>w. Parse_FromString (rep w)) lst st)"
  using assms
proof (induction lst arbitrary: st)
  case Nil
  then show ?case by (simp add: for_rounds.simps)
next
  case (Cons w lst)
  have "for_round R [x] [w] body st = Some (Parse_FromString (rep w) st)"
    using Cons.prems by (auto simp: for_round_def replaces_def Parse_FromString_def)
  moreover have "rcond (Parse_FromString (rep w) st) = rcond st" by (simp add: Parse_FromString_def)
  ultimately show ?case using Cons.IH[of "Parse_FromString (rep w) st"] Cons.prems
    by (subst for_rounds.simps) simp
qed

text \<open>The sources of a reader, the current one first.\<close>

definition all_sources :: "'v reader \<Rightarrow> (string \<times> bool \<times> nat \<times> cstring) list" where
  "all_sources st = (rtext st, rptr st, lineno st, fname st) # sources st"

lemma pushed_sources:
  "all_sources (fold (\<lambda>w. Parse_FromString (rep w)) lst st) = rev (map (\<lambda>w. (rep w, True, 0, fname st)) lst) @ all_sources st"
  by (induction lst arbitrary: st) (simp_all add: Parse_FromString_def all_sources_def)

lemma pushed_rest: "rcond (fold (\<lambda>w. Parse_FromString (rep w)) lst st) = rcond st"
    "forLevel (fold (\<lambda>w. Parse_FromString (rep w)) lst st) = forLevel st"
    "fname (fold (\<lambda>w. Parse_FromString (rep w)) lst st) = fname st"
  by (induction lst arbitrary: st) (simp_all add: Parse_FromString_def)

subsection \<open>A loop\<close>

lemma space_words_single: "x \<noteq> [] \<Longrightarrow> list_all (\<lambda>c. \<not> isspace c) x \<Longrightarrow> space_words x = [x]"
proof -
  assume x: "x \<noteq> []" "list_all (\<lambda>c. \<not> isspace c) x"
  then obtain c r where c: "x = c # r" "\<not> isspace c" "list_all (\<lambda>c. \<not> isspace c) r" by (cases x) auto
  then have "takeWhile (\<lambda>c. \<not> isspace c) r = r" "dropWhile (\<lambda>c. \<not> isspace c) r = []"
    by (simp_all add: takeWhile_eq_all_conv list_all_iff)
  then show ?thesis using c by (simp add: space_words.simps[of "c # r"] space_words.simps[of "[]"])
qed

lemma find_in_name: "list_all (\<lambda>c. \<not> isspace c) x \<Longrightarrow> find_in (x @ '' in '' @ ws) = Some (x, CHR '' '' # ws)"
  by (induction x) (auto simp: isspace_def byte_def)

lemma Cond_Eval_for: "Cond_Eval E (for_line x ws) cs = Some (COND_INVALID, cs)"
  by (simp add: Cond_Eval_def for_line_def cond_if_line_def ifs_def is_blank_def)

lemma for_loop_text:
  assumes x: "x \<noteq> []" "list_all (\<lambda>c. \<not> isspace c) x" and f: "file_line (for_line x ws)"
    and b: "list_all body_line body" and st: "forLevel st = 0" "rtext st = for_line x ws @ NL # file_text body @ ''.endfor'' @ NL # s"
    and sub: "var_subst R None (dropWhile isspace ws) (rcond st) = Some (ws', rcond st)"
    and rep: "\<forall>w \<in> set (space_words ws'). replaces R x (file_text body) (rcond st) rep w"
  shows "\<exists>st' n. ParseReadLine R st = ParseReadLine R st' \<and> rcond st' = rcond st \<and> forLevel st' = 0 \<and>
           all_sources st' = map (\<lambda>w. (rep w, True, 0, fname st)) (space_words ws') @ (s, rptr st, n, fname st) # sources st"
proof -
  define rest where "rest = file_text body @ ''.endfor'' @ NL # s"
  define st1 where "st1 = st\<lparr>lineno := Suc (lineno st), rtext := rest\<rparr>"
  define st2 where "st2 = st1\<lparr>for_vars := Some [x], for_lst := Some (rev (space_words ws')), for_buf := Some [], forLevel := 1\<rparr>"
  have raw: "raw_line (rptr st) (lineno st) (rtext st) = (Some (for_line x ws), Suc (lineno st), rest)"
    using raw_line_plain[OF f] st(2) by (simp add: rest_def)
  have dot: "deref (for_line x ws) = CHR ''.''" by (simp add: for_line_def)
  obtain c r where c: "x = c # r" "\<not> isspace c" using x by (cases x) auto
  have dw: "dropWhile isspace (x @ y) = x @ y" for y using c by simp
  have sp: "isspace CHR '' ''" by (simp add: isspace_def byte_def)
  have nf: "\<not> isspace CHR ''f''" by (simp add: isspace_def byte_def)
  have head: "For_Eval R (for_line x ws) st1 = Some (True, st2)"
    using x(1) sub st(1) find_in_name[OF x(2), of ws] space_words_single[OF x] sp nf dw
    by (simp add: For_Eval_def for_head_def for_line_def st1_def st2_def)
  obtain n where body: "for_body R st2 = Some (True, st2\<lparr>lineno := n, rtext := s, for_buf := Some (file_text body), forLevel := 0\<rparr>)"
    using for_body_lines[OF b, of st2 "[]" s R] by (auto simp: st2_def st1_def rest_def)
  define st3 where "st3 = st2\<lparr>lineno := n, rtext := s, forLevel := 0, for_buf := None, for_vars := None, for_lst := None\<rparr>"
  have st3: "rcond st3 = rcond st" "forLevel st3 = 0" "fname st3 = fname st" "all_sources st3 = (s, rptr st, n, fname st) # sources st"
    by (simp_all add: st3_def st2_def st1_def all_sources_def)
  have "For_Run R (st2\<lparr>lineno := n, rtext := s, for_buf := Some (file_text body), forLevel := 0\<rparr>) =
        for_rounds R [x] (rev (space_words ws')) (file_text body) st3"
    by (simp add: For_Run_def st3_def st2_def)
  also have "\<dots> = Some (fold (\<lambda>w. Parse_FromString (rep w)) (rev (space_words ws')) st3)"
    using rounds_pushed[of "rev (space_words ws')" R x "file_text body" st3 rep] rep st3(1) by simp
  finally have "ParseReadLine R st = ParseReadLine R (fold (\<lambda>w. Parse_FromString (rep w)) (rev (space_words ws')) st3)"
    using raw head body dot
    by (subst ParseReadLine.simps) (simp add: read_cond_def Cond_Eval_for st1_def[symmetric])
  moreover have "all_sources (fold (\<lambda>w. Parse_FromString (rep w)) (rev (space_words ws')) st3) =
      map (\<lambda>w. (rep w, True, 0, fname st)) (space_words ws') @ (s, rptr st, n, fname st) # sources st"
    by (simp only: pushed_sources st3(3,4) rev_map rev_rev_ident)
  ultimately show ?thesis using pushed_rest[of rep "rev (space_words ws')" st3] st3(1,2) by metis
qed

text \<open>
  A loop over the words \<open>ws\<close> becomes one source for every word, in order, before the rest of the
  file: the body with the word in the place of the variable.
\<close>

theorem for_loop_sources:
  assumes x: "x \<noteq> []" "list_all (\<lambda>c. \<not> isspace c) x" and f: "file_line (for_line x ws)"
    and b: "list_all body_line body" and st: "forLevel st = 0" "rtext st = for_line x ws @ NL # file_text body @ ''.endfor'' @ NL # s"
    and sub: "var_subst R None (dropWhile isspace ws) (rcond st) = Some (ws', rcond st)"
    and rep: "\<forall>w \<in> set (space_words ws'). replaces R x (file_text body) (rcond st) rep w"
  shows "\<exists>st' n. ParseReadLine R st = ParseReadLine R st' \<and> rcond st' = rcond st \<and> forLevel st' = 0 \<and>
           all_sources st' = map (\<lambda>w. (rep w, True, 0, fname st)) (space_words ws') @ (s, rptr st, n, fname st) # sources st"
  by (rule for_loop_text[OF assms])


text \<open>Two variables: the words are taken in pairs from the end, and a first word that is left over is an error.\<close>

lemma for_rounds_short:
  assumes "names \<noteq> []" "length lst < length names" "lst \<noteq> []"
  shows "for_rounds R names lst body st = Some (read_error ''Not enough words in for substitution list'' st)"
  using assms by (simp add: for_rounds.simps)

definition marked :: "cstring \<Rightarrow> cstring" where
  "marked w = w @ [NL]"

definition mark_env :: "(cstring \<Rightarrow> cstring option) cond_env \<Rightarrow> (cstring \<Rightarrow> cstring option) read_env" where
  "mark_env E =
     \<lparr>cenv = E,
      var_subst = (\<lambda>x s cs. Some (case x of None \<Rightarrow> s | Some x \<Rightarrow> (case vars cs x of None \<Rightarrow> s | Some w \<Rightarrow> marked w), cs)),
      var_set = (\<lambda>x w cs. Some (cs\<lparr>vars := (vars cs)(x \<mapsto> w)\<rparr>)),
      var_delete = (\<lambda>x cs. Some (cs\<lparr>vars := (vars cs)(x := None)\<rparr>))\<rparr>"

definition no_targets :: "(cstring \<Rightarrow> cstring option) cond_env" where
  "no_targets =
     \<lparr>var_parse = (\<lambda>_ _ _. None), var_value = (\<lambda>v x. v x), created = [], find_file = (\<lambda>_. None), find_node = (\<lambda>_. None)\<rparr>"

theorem for_loop_sources_witness:
  "\<exists>st' n. ParseReadLine (mark_env no_targets) ((reader_start (cond_start Map.empty))\<lparr>rtext := ''.for i in a b'' @ NL # ''$i'' @ NL # ''.endfor'' @ NL # ''rest'' @ [NL]\<rparr>) = ParseReadLine (mark_env no_targets) st' \<and> all_sources st' = [(marked ''a'', True, 0, []), (marked ''b'', True, 0, []), (''rest'' @ [NL], False, n, [])]"
proof -
  let ?st = "(reader_start (cond_start Map.empty))\<lparr>rtext := ''.for i in a b'' @ NL # ''$i'' @ NL # ''.endfor'' @ NL # ''rest'' @ [NL]\<rparr>"
  have sp: "isspace CHR '' ''" "\<not> isspace CHR ''a''" "\<not> isspace CHR ''b''" "\<not> isspace CHR ''i''" by (simp_all add: isspace_def byte_def)
  have w: "space_words ''a b'' = [''a'', ''b'']"
    using sp by (simp add: space_words.simps)
  have 1: "file_line (for_line ''i'' ''a b'')" "list_all body_line [''$i'']"
    by (simp_all add: file_line_def for_line_def line_char_def is_blank_def body_line_def)
  have 2: "\<forall>v \<in> set (space_words ''a b''). replaces (mark_env no_targets) ''i'' (file_text [''$i'']) (rcond ?st) marked v"
    by (auto simp: replaces_def mark_env_def reader_start_def cond_start_def)
  have "forLevel ?st = 0" "rtext ?st = for_line ''i'' ''a b'' @ NL # file_text [''$i''] @ ''.endfor'' @ NL # (''rest'' @ [NL])"
    by (simp_all add: reader_start_def for_line_def)
  from for_loop_sources[OF _ _ 1 this _ 2] show ?thesis
    using w sp by (auto simp: mark_env_def reader_start_def)
qed

end
