(* ===== verification/Varwords.thy ===== *)
theory Varwords
  imports Makeglob Condlines
begin

text \<open>
  The modifiers of variables that work on words, in \<^verbatim>\<open>usr.bin/bmake/var.c\<close>. A buffer is
  the string of its bytes (\<^theory_text>\<open>Buf\<close> shows that adding bytes appends them).
\<close>

subsection \<open>One word\<close>

text \<open>
  A function for a word gets what it keeps between words, the word, the flag \<^verbatim>\<open>addSpace\<close> and
  the buffer.
\<close>

type_synonym 's mod_proc = "'s \<Rightarrow> cstring \<Rightarrow> bool \<Rightarrow> string \<Rightarrow> ('s \<times> bool \<times> string) option"

definition sp :: "bool \<Rightarrow> string" where
  "sp addSpace = (if addSpace then '' '' else [])"

definition VarHead :: "unit mod_proc" where
  "VarHead s word addSpace buf =
     Some (s, True, buf @ sp addSpace @ (case strrchr word CHR ''/'' of Some (h, _) \<Rightarrow> h | None \<Rightarrow> ''.''))"

definition VarTail :: "unit mod_proc" where
  "VarTail s word addSpace buf =
     Some (s, True, buf @ sp addSpace @ (case strrchr word CHR ''/'' of Some (_, t) \<Rightarrow> t | None \<Rightarrow> word))"

definition VarSuffix :: "unit mod_proc" where
  "VarSuffix s word addSpace buf =
     Some (case strrchr word CHR ''.'' of
             Some (_, t) \<Rightarrow> (s, True, buf @ sp addSpace @ t)
           | None \<Rightarrow> (s, addSpace, buf))"

definition VarRoot :: "unit mod_proc" where
  "VarRoot s word addSpace buf =
     Some (s, True, buf @ sp addSpace @ (case strrchr word CHR ''.'' of Some (r, _) \<Rightarrow> r | None \<Rightarrow> word))"

definition VarMatch :: "cstring mod_proc" where
  "VarMatch pattern word addSpace buf =
     do { b \<leftarrow> Str_Match word pattern;
          Some (if b then (pattern, True, buf @ sp addSpace @ word) else (pattern, addSpace, buf)) }"

definition VarNoMatch :: "cstring mod_proc" where
  "VarNoMatch pattern word addSpace buf =
     do { b \<leftarrow> Str_Match word pattern;
          Some (if \<not> b then (pattern, True, buf @ sp addSpace @ word) else (pattern, addSpace, buf)) }"

text \<open>What \<^verbatim>\<open>Str_SYSVSubst\<close> appends; \<open>expand\<close> is \<^verbatim>\<open>Var_Subst\<close> on the right side.\<close>

definition sysv_text :: "cstring \<Rightarrow> cstring \<Rightarrow> nat \<Rightarrow> string" where
  "sysv_text pat src n = (case split_at_pct pat of None \<Rightarrow> take n src @ pat | Some (pre, suf) \<Rightarrow> pre @ take n src @ suf)"

definition VarSYSVMatch :: "(cstring \<Rightarrow> 's \<Rightarrow> (cstring \<times> 's) option) \<Rightarrow> cstring \<Rightarrow> cstring \<Rightarrow> 's mod_proc" where
  "VarSYSVMatch expand lhs rhs s word addSpace buf =
     (case Str_SYSVMatch word lhs of
        Some (src, n) \<Rightarrow> do { (varexp, s) \<leftarrow> expand rhs s; Some (s, True, buf @ sp addSpace @ sysv_text varexp src n) }
      | None \<Rightarrow> Some (s, True, buf @ sp addSpace @ word))"

subsection \<open>Substitution\<close>

record var_pattern =
  pat_lhs :: cstring
  pat_rhs :: cstring
  sub_global :: bool
  sub_one :: bool
  sub_matched :: bool
  match_start :: bool
  match_end :: bool

lemma FindSubstring_suffix: "Str_FindSubstring s l = Some cp \<Longrightarrow> suffix cp s \<and> prefix l cp"
  by (induction s l rule: Str_FindSubstring.induct) (auto simp: suffix_ConsI sub_at_prefix split: if_splits)

lemma rest_shorter: "(if l = [] then None else Str_FindSubstring word l) = Some cp \<Longrightarrow> length (drop (length l) cp) < length word"
proof -
  assume "(if l = [] then None else Str_FindSubstring word l) = Some cp"
  then have *: "l \<noteq> []" "Str_FindSubstring word l = Some cp" by (auto split: if_splits)
  have "length cp \<le> length word" "length l \<le> length cp" "0 < length l"
    using FindSubstring_suffix[OF *(2)] *(1) by (auto dest: suffix_length_le prefix_length_le)
  then show ?thesis by (simp only: length_drop)
qed

text \<open>
  The loop for a pattern without anchors: what is left of the word, whether a space is still needed,
  the buffer and whether there was a match. An empty pattern is found nowhere.
\<close>

function sub_loop :: "cstring \<Rightarrow> cstring \<Rightarrow> bool \<Rightarrow> cstring \<Rightarrow> bool \<Rightarrow> string \<Rightarrow> bool \<Rightarrow> cstring \<times> bool \<times> string \<times> bool" where
  "sub_loop l r glob word addSpace buf matched =
     (case (if l = [] then None else Str_FindSubstring word l) of
        None \<Rightarrow> (word, addSpace, buf, matched)
      | Some cp \<Rightarrow>
          (let pre = take (length word - length cp) word;
               space = (addSpace \<and> pre @ r \<noteq> []);
               buf = buf @ sp space @ pre @ r;
               addSpace = (addSpace \<and> \<not> space);
               rest = drop (length l) cp
           in if rest = [] \<or> \<not> glob then (rest, addSpace, buf, True)
              else sub_loop l r glob rest addSpace buf True))"
  by auto

termination
  by (relation "measure (\<lambda>(l, r, glob, word, addSpace, buf, matched). length word)") (use rest_shorter in \<open>auto simp del: length_drop split: if_splits\<close>)

declare sub_loop.simps [simp del]

definition VarSubstitute :: "var_pattern mod_proc" where
  "VarSubstitute p word addSpace buf =
     (let l = pat_lhs p; r = pat_rhs p;
          nosub = (p, True, buf @ sp addSpace @ word);
          cp = drop (length word - length l) word in
      Some (
        if sub_one p \<and> sub_matched p then nosub
        else if match_start p \<and> prefix l word then
          (if match_end p \<and> length word = length l then
             (p\<lparr>sub_matched := True\<rparr>, (if r \<noteq> [] then True else addSpace), buf @ (if r \<noteq> [] then sp addSpace @ r else []))
           else if match_end p then nosub
           else (let out = r @ drop (length l) word in
                 (p\<lparr>sub_matched := True\<rparr>, (if out \<noteq> [] then True else addSpace), buf @ (if out \<noteq> [] then sp addSpace @ out else []))))
        else if match_start p then nosub
        else if match_end p then
          (if length l \<le> length word \<and> prefix l cp then
             (let out = take (length word - length l) word @ r in
              (p\<lparr>sub_matched := True\<rparr>, (if out \<noteq> [] then True else addSpace), buf @ (if out \<noteq> [] then sp addSpace @ out else [])))
           else nosub)
        else (case sub_loop l r (sub_global p) word addSpace buf (sub_matched p) of
                (rest, space, buf', m) \<Rightarrow>
                  (let buf' = buf' @ (if rest \<noteq> [] then sp space @ rest else []) in
                   (p\<lparr>sub_matched := m\<rparr>, length buf' \<noteq> length buf \<or> space, buf')))))"

subsection \<open>Lists of words\<close>

fun mod_words :: "'s mod_proc \<Rightarrow> 's \<Rightarrow> cstring list \<Rightarrow> bool \<Rightarrow> string \<Rightarrow> ('s \<times> string) option" where
  "mod_words f s [] addSpace buf = Some (s, buf)"
| "mod_words f s (w # ws) addSpace buf =
     do { (s, addSpace, buf) \<leftarrow> f s w addSpace buf; mod_words f s ws addSpace buf }"

definition VarModify :: "'s mod_proc \<Rightarrow> cstring \<Rightarrow> 's \<Rightarrow> (cstring \<times> 's) option" where
  "VarModify f str s =
     do { av \<leftarrow> brk_string str False;
          (s, buf) \<leftarrow> mod_words f s av False [];
          Some (c_str buf, s) }"

fun join_words :: "cstring list \<Rightarrow> cstring" where
  "join_words [] = []"
| "join_words [w] = w"
| "join_words (w # ws) = w @ '' '' @ join_words ws"

text \<open>\<^verbatim>\<open>strcmp\<close> compares bytes without sign; \<^verbatim>\<open>qsort\<close> sorts.\<close>

fun word_le :: "cstring \<Rightarrow> cstring \<Rightarrow> bool" where
  "word_le [] t = True"
| "word_le (c # s) [] = False"
| "word_le (c # s) (d # t) = (byte c < byte d \<or> c = d \<and> word_le s t)"

fun insert_word :: "cstring \<Rightarrow> cstring list \<Rightarrow> cstring list" where
  "insert_word w [] = [w]"
| "insert_word w (v # vs) = (if word_le w v then w # v # vs else v # insert_word w vs)"

definition VarSort :: "cstring \<Rightarrow> cstring option" where
  "VarSort str = do { av \<leftarrow> brk_string str False; Some (join_words (foldr insert_word av [])) }"

text \<open>Each word is compared with the last one that was kept.\<close>

fun uniq_words :: "cstring list \<Rightarrow> cstring list" where
  "uniq_words (v # w # ws) = (if w = v then uniq_words (v # ws) else v # uniq_words (w # ws))"
| "uniq_words ws = ws"

definition VarUniq :: "cstring \<Rightarrow> cstring option" where
  "VarUniq str = do { av \<leftarrow> brk_string str False; Some (join_words (uniq_words av)) }"

definition meta :: string where
  "meta = [NL, CHR '' '', CHR 0x09, CHR 0x27, CHR ''`'', DQ] @ '';&<>()|*?{}[]'' @ [CHR 0x5C] @ ''$!#^~''"

fun VarQuote :: "cstring \<Rightarrow> cstring" where
  "VarQuote [] = []"
| "VarQuote (c # s) = (if c \<in> set meta then [CHR 0x5C, c] else [c]) @ VarQuote s"

end
