(* ===== verification/Varstore.thy ===== *)
theory Varstore
  imports Varwords
begin

text \<open>
  The variables of the build tool, \<^verbatim>\<open>usr.bin/bmake/var.c\<close>: the contexts, each a hash table and
  so a map (\<^theory_text>\<open>Hashmap\<close>), and the environment.
\<close>

subsection \<open>State\<close>

text \<open>\<open>Node\<close>: the context of a target.\<close>

datatype context_id = VAR_CMD | VAR_GLOBAL | Node nat

text \<open>
  \<open>in_use\<close> are the variables with the flag \<^verbatim>\<open>VAR_IN_USE\<close>; \<open>being_read\<close> are those whose
  buffer a caller holds a pointer into. \<open>errors\<close> are the calls of \<^verbatim>\<open>Error\<close>.
\<close>

record make_vars =
  contexts :: "context_id \<Rightarrow> cstring \<Rightarrow> cstring option"
  environ :: "cstring \<Rightarrow> cstring option"
  in_use :: "(context_id \<times> cstring) list"
  being_read :: "(context_id \<times> cstring) list"
  errors :: "cstring list"
  errorReported :: bool

type_synonym make_state = "make_vars cond_state"

text \<open>
  What \<^verbatim>\<open>var.c\<close> uses of the rest of the program: the options, \<^verbatim>\<open>Cmd_Exec\<close> (output and
  message), the path of a target, the regular expressions of the library (\<^verbatim>\<open>regcomp\<close> answers a
  message or the number of subexpressions; \<^verbatim>\<open>regexec\<close> a message, or the offsets of the match and
  its subexpressions, or no match), and what the conditions use.
\<close>

datatype reg_match = NoMatch | RegError cstring | Matched "(int \<times> int) list"

record var_env =
  checkEnvFirst :: bool
  oldVars :: bool
  cmd_exec :: "make_vars \<Rightarrow> cstring \<Rightarrow> cstring \<times> cstring option"
  node_path :: "cstring \<Rightarrow> cstring option"
  reg_comp :: "cstring \<Rightarrow> cstring + nat"
  reg_exec :: "cstring \<Rightarrow> bool \<Rightarrow> cstring \<Rightarrow> reg_match"
  cond_created :: "cstring list"
  cond_file :: "cstring \<Rightarrow> cstring option"
  cond_node :: "cstring \<Rightarrow> target option"

subsection \<open>Finding a variable\<close>

definition local_names :: "(cstring \<times> cstring) list" where
  "local_names =
     [(''.ALLSRC'', ''>''), (''.ARCHIVE'', ''!''), (''.IMPSRC'', ''<''), (''.MEMBER'', ''%''),
      (''.OODATE'', ''?''), (''.PREFIX'', ''*''), (''.TARGET'', ''@'')]"

definition short_name :: "cstring \<Rightarrow> cstring" where
  "short_name name = (case map_of local_names name of Some x \<Rightarrow> x | None \<Rightarrow> name)"

datatype find_flag = FIND_CMD | FIND_GLOBAL | FIND_ENV

definition FIND_ALL :: "find_flag list" where
  "FIND_ALL = [FIND_ENV, FIND_GLOBAL, FIND_CMD]"

text \<open>A variable of a context, a copy from the environment, or the one made up for a name that is not defined.\<close>

datatype variable = Stored context_id cstring cstring | FromEnv cstring cstring | Junk cstring

fun var_name :: "variable \<Rightarrow> cstring" where
  "var_name (Stored c x v) = x"
| "var_name (FromEnv x v) = x"
| "var_name (Junk x) = x"

fun var_text :: "variable \<Rightarrow> cstring" where
  "var_text (Stored c x v) = v"
| "var_text (FromEnv x v) = v"
| "var_text (Junk x) = []"

definition in_context :: "make_vars \<Rightarrow> context_id \<Rightarrow> cstring \<Rightarrow> variable option" where
  "in_context m c x = map_option (Stored c x) (contexts m c x)"

definition VarFind :: "var_env \<Rightarrow> make_vars \<Rightarrow> cstring \<Rightarrow> context_id \<Rightarrow> find_flag list \<Rightarrow> variable option" where
  "VarFind E m name ctxt flags =
     (let name = short_name name;
          var = in_context m ctxt name;
          var = (if var = None \<and> FIND_CMD \<in> set flags \<and> ctxt \<noteq> VAR_CMD then in_context m VAR_CMD name else var);
          var = (if \<not> checkEnvFirst E \<and> var = None \<and> FIND_GLOBAL \<in> set flags \<and> ctxt \<noteq> VAR_GLOBAL
                 then in_context m VAR_GLOBAL name else var)
      in if var = None \<and> FIND_ENV \<in> set flags then
           (case environ m name of
              Some env \<Rightarrow> Some (FromEnv name env)
            | None \<Rightarrow> if checkEnvFirst E \<and> FIND_GLOBAL \<in> set flags \<and> ctxt \<noteq> VAR_GLOBAL
                      then in_context m VAR_GLOBAL name else None)
         else var)"

definition Var_Exists :: "var_env \<Rightarrow> make_vars \<Rightarrow> cstring \<Rightarrow> context_id \<Rightarrow> bool" where
  "Var_Exists E m name ctxt = (VarFind E m name ctxt FIND_ALL \<noteq> None)"

definition Var_Value :: "var_env \<Rightarrow> make_vars \<Rightarrow> cstring \<Rightarrow> context_id \<Rightarrow> cstring option" where
  "Var_Value E m name ctxt = map_option var_text (VarFind E m name ctxt FIND_ALL)"

subsection \<open>Changing a variable\<close>

definition put_var :: "context_id \<Rightarrow> cstring \<Rightarrow> cstring \<Rightarrow> make_vars \<Rightarrow> make_vars" where
  "put_var c x v m = m\<lparr>contexts := (contexts m)(c := (contexts m c)(x \<mapsto> v))\<rparr>"

text \<open>A new value for a variable that is there; its buffer must not be read at the time.\<close>

definition overwrite :: "context_id \<Rightarrow> cstring \<Rightarrow> cstring \<Rightarrow> make_vars \<Rightarrow> make_vars option" where
  "overwrite c x v m = (if (c, x) \<in> set (being_read m) then None else Some (put_var c x v m))"

definition VarAdd :: "cstring \<Rightarrow> cstring \<Rightarrow> context_id \<Rightarrow> make_vars \<Rightarrow> make_vars" where
  "VarAdd name val ctxt m = put_var ctxt name val m"

definition Var_Delete :: "cstring \<Rightarrow> context_id \<Rightarrow> make_vars \<Rightarrow> make_vars option" where
  "Var_Delete name ctxt m =
     (if contexts m ctxt name = None then Some m
      else if (ctxt, name) \<in> set (being_read m) then None
      else Some (m\<lparr>contexts := (contexts m)(ctxt := (contexts m ctxt)(name := None))\<rparr>))"

text \<open>\<^verbatim>\<open>Var_Append\<close> and \<^verbatim>\<open>Var_Set\<close> from where the name is expanded.\<close>

definition append_named :: "var_env \<Rightarrow> cstring \<Rightarrow> cstring \<Rightarrow> context_id \<Rightarrow> make_vars \<Rightarrow> make_vars option" where
  "append_named E name val ctxt m =
     (case VarFind E m name ctxt (if ctxt = VAR_GLOBAL then [FIND_ENV] else []) of
        Some (Stored c x v) \<Rightarrow> overwrite c x (v @ '' '' @ val) m
      | Some (FromEnv x v) \<Rightarrow> Some (put_var ctxt name (v @ '' '' @ val) m)
      | _ \<Rightarrow> Some (VarAdd name val ctxt m))"

definition setenv :: "cstring \<Rightarrow> cstring \<Rightarrow> make_vars \<Rightarrow> make_vars" where
  "setenv name val m = (if name = [] \<or> CHR ''='' \<in> set name then m else m\<lparr>environ := (environ m)(name \<mapsto> val)\<rparr>)"

definition set_named :: "var_env \<Rightarrow> cstring \<Rightarrow> cstring \<Rightarrow> context_id \<Rightarrow> bool \<Rightarrow> make_vars \<Rightarrow> make_vars option" where
  "set_named E name val ctxt no_export m =
     do { m \<leftarrow> (case VarFind E m name ctxt [] of
                 Some (Stored c x v) \<Rightarrow> overwrite c x val m
               | _ \<Rightarrow> Some (VarAdd name val ctxt m));
          if ctxt = VAR_CMD \<and> \<not> no_export
          then append_named E ''.MAKEOVERRIDES'' name VAR_GLOBAL (setenv name val m)
          else Some m }"

end
