(* ===== verification/Varparse.thy ===== *)
theory Varparse
  imports Varstore
begin

text \<open>
  References to variables, \<^verbatim>\<open>Var_Parse\<close> and \<^verbatim>\<open>Var_Subst\<close> of
  \<^verbatim>\<open>usr.bin/bmake/var.c\<close>, with all modifiers. A pointer into the text is what is left of it.
  \<open>None\<close> stands for a result that C does not define: a read behind the text, a static string that
  is freed, a buffer that is changed while it is read; and for the exit of the program when a
  variable is recursive.
\<close>

subsection \<open>Values and parsers\<close>

datatype var_val = VarError | VarNoError | Val cstring

fun text_of :: "var_val \<Rightarrow> cstring" where
  "text_of (Val s) = s"
| "text_of VarError = []"
| "text_of VarNoError = []"

text \<open>The value, the length of the reference, \<^verbatim>\<open>*freePtr\<close>.\<close>

type_synonym parser = "context_id \<Rightarrow> cstring \<Rightarrow> bool \<Rightarrow> make_state \<Rightarrow> (var_val \<times> nat \<times> bool \<times> make_state) option"

definition advance :: "nat \<Rightarrow> cstring \<Rightarrow> cstring option" where
  "advance n s = (if n \<le> length s then Some (drop n s) else None)"

definition change :: "(make_vars \<Rightarrow> make_vars) \<Rightarrow> make_state \<Rightarrow> make_state" where
  "change f st = st\<lparr>vars := f (vars st)\<rparr>"

definition change_opt :: "(make_vars \<Rightarrow> make_vars option) \<Rightarrow> make_state \<Rightarrow> make_state option" where
  "change_opt f st = map_option (\<lambda>m. st\<lparr>vars := m\<rparr>) (f (vars st))"

definition Error :: "cstring \<Rightarrow> make_state \<Rightarrow> make_state" where
  "Error msg = change (\<lambda>m. m\<lparr>errors := errors m @ [msg]\<rparr>)"

text \<open>A nested reference whose value is copied and freed if it must be.\<close>

definition nested :: "parser \<Rightarrow> context_id \<Rightarrow> cstring \<Rightarrow> bool \<Rightarrow> make_state \<Rightarrow> (cstring \<times> cstring \<times> make_state) option" where
  "nested P ctxt s err st =
     do { (v, len, free, st) \<leftarrow> P ctxt s err st;
          rest \<leftarrow> advance len s;
          if free \<and> (v = VarError \<or> v = VarNoError) then None else Some (text_of v, rest, st) }"

subsection \<open>Texts\<close>

text \<open>
  The loop of \<^verbatim>\<open>Var_Subst\<close> for one variable: it passes over other references. The result tells
  whether the reference at the text is to be expanded.
\<close>

function find_ref :: "cstring \<Rightarrow> cstring \<Rightarrow> string \<Rightarrow> (bool \<times> cstring \<times> string) option" where
  "find_ref var str buf =
     (if deref (tl str) \<noteq> CHR ''('' \<and> deref (tl str) \<noteq> CHR ''{'' then
        (if deref (tl str) \<noteq> deref var \<or> 1 < length var
         then do { rest \<leftarrow> advance 2 str; Some (False, rest, buf @ take 2 str) }
         else Some (True, str, buf))
      else
        let name = takeWhile (\<lambda>c. c \<notin> set '':)}$'') (drop 2 str);
            p = drop (length name) (drop 2 str)
        in if deref p = CHR ''$'' then find_ref var p (buf @ take 2 str @ name)
           else if name \<noteq> var
           then Some (False, dropWhile (\<lambda>c. c \<noteq> CHR ''$'') p, buf @ take 2 str @ name @ takeWhile (\<lambda>c. c \<noteq> CHR ''$'') p)
           else Some (True, str, buf))"
  by auto
termination
proof (relation "measure (\<lambda>(var, str, buf). length str)", goal_cases)
  case (2 var str buf name p)
  from 2(1) have "str \<noteq> []" by auto
  moreover have "length p \<le> length str - 2" using 2(3) by simp
  ultimately show ?case by (cases str) auto
qed simp

declare find_ref.simps [simp del]

definition undefined_ref :: "var_env \<Rightarrow> bool \<Rightarrow> cstring \<Rightarrow> nat \<Rightarrow> string \<Rightarrow> make_state \<Rightarrow> (cstring \<times> string \<times> make_state) option" where
  "undefined_ref E err str len buf st =
     (if oldVars E then do { rest \<leftarrow> advance len str; Some (rest, buf, st) }
      else if err then do {
        rest \<leftarrow> advance len str;
        let st = (if errorReported (vars st) then st
                  else Parse_Error PARSE_FATAL (''Undefined variable '' @ [DQ] @ take len str @ [DQ]) st);
        Some (rest, buf, change (\<lambda>m. m\<lparr>errorReported := True\<rparr>) st) }
      else Some (tl str, buf @ [deref str], st))"

text \<open>One turn of the loop of \<^verbatim>\<open>Var_Subst\<close>.\<close>

definition subst_step ::
    "var_env \<Rightarrow> parser \<Rightarrow> cstring option \<Rightarrow> context_id \<Rightarrow> bool \<Rightarrow> cstring \<Rightarrow> string \<Rightarrow> make_state \<Rightarrow> (cstring \<times> string \<times> make_state) option" where
  "subst_step E P var ctxt err str buf st =
     (if var = None \<and> deref str = CHR ''$'' \<and> deref (tl str) = CHR ''$''
      then Some (tl (tl str), buf @ ''$'', st)
      else if deref str \<noteq> CHR ''$''
      then Some (dropWhile (\<lambda>c. c \<noteq> CHR ''$'') str, buf @ takeWhile (\<lambda>c. c \<noteq> CHR ''$'') str, st)
      else do {
        (expand, str, buf) \<leftarrow> (case var of None \<Rightarrow> Some (True, str, buf) | Some x \<Rightarrow> find_ref x str buf);
        if \<not> expand then Some (str, buf, st)
        else do {
          (v, len, _, st) \<leftarrow> P ctxt str err st;
          case v of
            Val s \<Rightarrow> do { rest \<leftarrow> advance len str; Some (rest, buf @ s, st) }
          | _ \<Rightarrow> undefined_ref E err str len buf st } })"

partial_function (option) subst_loop ::
    "var_env \<Rightarrow> parser \<Rightarrow> cstring option \<Rightarrow> context_id \<Rightarrow> bool \<Rightarrow> cstring \<Rightarrow> string \<Rightarrow> make_state \<Rightarrow> (cstring \<times> make_state) option" where
  "subst_loop E P var ctxt err str buf st =
     (if str = [] then Some (buf, st)
      else do {
        (str, buf, st) \<leftarrow> subst_step E P var ctxt err str buf st;
        subst_loop E P var ctxt err str buf st })"

declare subst_loop.simps [code]

definition subst_with :: "var_env \<Rightarrow> parser \<Rightarrow> cstring option \<Rightarrow> cstring \<Rightarrow> context_id \<Rightarrow> bool \<Rightarrow> make_state \<Rightarrow> (cstring \<times> make_state) option" where
  "subst_with E P var str ctxt err st =
     subst_loop E P var ctxt err str [] (change (\<lambda>m. m\<lparr>errorReported := False\<rparr>) st)"

subsection \<open>Setting and appending\<close>

definition expand_name :: "var_env \<Rightarrow> parser \<Rightarrow> cstring \<Rightarrow> context_id \<Rightarrow> make_state \<Rightarrow> (cstring \<times> make_state) option" where
  "expand_name E P name ctxt st =
     (if CHR ''$'' \<in> set name then subst_with E P None name ctxt False st else Some (name, st))"

definition set_with :: "var_env \<Rightarrow> parser \<Rightarrow> cstring \<Rightarrow> cstring \<Rightarrow> context_id \<Rightarrow> bool \<Rightarrow> make_state \<Rightarrow> make_state option" where
  "set_with E P name val ctxt no_export st =
     do { (name, st) \<leftarrow> expand_name E P name ctxt st; change_opt (set_named E name val ctxt no_export) st }"

definition append_with :: "var_env \<Rightarrow> parser \<Rightarrow> cstring \<Rightarrow> cstring \<Rightarrow> context_id \<Rightarrow> make_state \<Rightarrow> make_state option" where
  "append_with E P name val ctxt st =
     do { (name, st) \<leftarrow> expand_name E P name ctxt st; change_opt (append_named E name val ctxt) st }"

subsection \<open>Patterns\<close>

text \<open>A reference that is copied as it is: up to the end of its brackets; the first character is the one before.\<close>

fun ref_scan :: "char \<Rightarrow> char \<Rightarrow> char \<Rightarrow> nat \<Rightarrow> cstring \<Rightarrow> nat" where
  "ref_scan have_c want prev depth [] = 0"
| "ref_scan have_c want prev depth (c # s) =
     (if depth = 0 then 0
      else let depth = (if prev = CHR 0x5C then depth
                        else depth + (if c = have_c then 1 else 0) - (if c = want then 1 else 0))
           in Suc (ref_scan have_c want c depth s))"

text \<open>
  \<open>flags\<close>: \<open>None\<close> for no flags, or the flag \<^verbatim>\<open>VAR_NOSUBST\<close>; \<open>amp\<close>: the left side that
  replaces an ampersand. The results are the text (\<open>None\<close>: no delimiter), the pointer, and whether the pattern ends in
  a dollar sign.
\<close>

definition pattern_step ::
    "parser \<Rightarrow> context_id \<Rightarrow> bool \<Rightarrow> char \<Rightarrow> bool option \<Rightarrow> cstring option \<Rightarrow> cstring \<Rightarrow> make_state \<Rightarrow>
     (string \<times> cstring \<times> bool \<times> make_state) option" where
  "pattern_step P ctxt err delim flags amp cp st =
     (if deref cp = CHR 0x5C \<and> tl cp \<noteq> [] \<and>
              (deref (tl cp) \<in> {delim, CHR 0x5C, CHR ''$''} \<or> amp \<noteq> None \<and> deref (tl cp) = CHR ''&'')
      then Some ([deref (tl cp)], tl (tl cp), False, st)
      else if deref cp = CHR ''$'' then
        (if tl cp \<noteq> [] \<and> deref (tl cp) = delim
         then Some (if flags = None then (''$'', tl cp, False, st) else ([], tl cp, True, st))
         else if flags \<noteq> Some True then do {
           (s, rest, st) \<leftarrow> nested P ctxt cp err st;
           Some (s, rest, False, st) }
         else if deref (tl cp) = CHR ''('' \<or> deref (tl cp) = CHR ''{'' then
           (let have_c = deref (tl cp); want = (if have_c = CHR ''('' then CHR '')'' else CHR ''}'');
                n = 2 + ref_scan have_c want have_c 1 (drop 2 cp)
            in Some (take n cp, drop n cp, False, st))
         else Some (''$'', tl cp, False, st))
      else Some (if deref cp = CHR ''&'' then (case amp of Some l \<Rightarrow> l | None \<Rightarrow> ''&'') else [deref cp], tl cp, False, st))"

partial_function (option) pattern_loop ::
    "parser \<Rightarrow> context_id \<Rightarrow> bool \<Rightarrow> char \<Rightarrow> bool option \<Rightarrow> cstring option \<Rightarrow> cstring \<Rightarrow> string \<Rightarrow> bool \<Rightarrow> make_state \<Rightarrow>
     (string \<times> cstring \<times> bool \<times> make_state) option" where
  "pattern_loop P ctxt err delim flags amp cp buf mend st =
     (if cp = [] \<or> deref cp = delim then Some (buf, cp, mend, st)
      else do {
        (s, cp, m, st) \<leftarrow> pattern_step P ctxt err delim flags amp cp st;
        pattern_loop P ctxt err delim flags amp cp (buf @ s) (mend \<or> m) st })"

declare pattern_loop.simps [code]

definition VarGetPattern ::
    "parser \<Rightarrow> context_id \<Rightarrow> bool \<Rightarrow> cstring \<Rightarrow> char \<Rightarrow> bool option \<Rightarrow> cstring option \<Rightarrow> make_state \<Rightarrow>
     (cstring option \<times> cstring \<times> bool \<times> make_state) option" where
  "VarGetPattern P ctxt err tstr delim flags amp st =
     do { (buf, cp, mend, st) \<leftarrow> pattern_loop P ctxt err delim flags amp tstr [] False st;
          Some (if cp = [] then (None, cp, mend, st) else (Some buf, tl cp, mend, st)) }"

subsection \<open>One modifier\<close>

text \<open>
  What a modifier answers: the place where it ends, the new value (\<open>None\<close>: the old one) and whether the name of
  the variable is still allocated; or a jump to \<^verbatim>\<open>cleanup\<close> with the pointer and the missing
  character; or an error of \<^verbatim>\<open>regcomp\<close>. A name that is not defined is kept after some of them.
\<close>

datatype mod_result = Go cstring "var_val option" bool bool | Cleanup cstring char | RegFail cstring

text \<open>What a modifier gets: how to parse, where, with complaints, the bracket around the reference.\<close>

record mod_env =
  me_var :: var_env
  me_parse :: parser
  me_ctxt :: context_id
  me_err :: bool
  me_startc :: char
  me_endc :: char
  me_junk :: bool
  me_name :: cstring

definition me_subst :: "mod_env \<Rightarrow> cstring \<Rightarrow> bool \<Rightarrow> make_state \<Rightarrow> (cstring \<times> make_state) option" where
  "me_subst M s err = subst_with (me_var M) (me_parse M) None s (me_ctxt M) err"

definition me_pattern :: "mod_env \<Rightarrow> cstring \<Rightarrow> char \<Rightarrow> bool option \<Rightarrow> cstring option \<Rightarrow> make_state \<Rightarrow>
    (cstring option \<times> cstring \<times> bool \<times> make_state) option" where
  "me_pattern M = VarGetPattern (me_parse M) (me_ctxt M) (me_err M)"

definition me_end :: "mod_env \<Rightarrow> char \<Rightarrow> bool" where
  "me_end M c = (c = me_endc M \<or> c = CHR '':'')"

text \<open>\<open>::=\<close> and its kind. The context of a variable that is defined is not set in the global context.\<close>

definition assign_context :: "mod_env \<Rightarrow> make_state \<Rightarrow> context_id option" where
  "assign_context M st =
     (if me_junk M then Some (me_ctxt M)
      else if me_ctxt M = VAR_GLOBAL then None
      else Some (if VarFind (me_var M) (vars st) (me_name M) (me_ctxt M) [] = None then VAR_GLOBAL else me_ctxt M))"

definition mod_assign :: "mod_env \<Rightarrow> cstring \<Rightarrow> make_state \<Rightarrow> (mod_result \<times> make_state) option" where
  "mod_assign M tstr st =
     do { let how = deref (tl tstr);
          let ctxt = assign_context M st;
          let E = me_var M;
          (rhs, cp, _, st) \<leftarrow> me_pattern M (drop (if how \<in> set ''+?!'' then 3 else 2) tstr) CHR ''}'' None None st;
          case rhs of
            None \<Rightarrow> Some (Cleanup cp CHR ''}'', st)
          | Some rhs \<Rightarrow> do {
              st \<leftarrow> (if how = CHR ''+'' then do { c \<leftarrow> ctxt; append_with E (me_parse M) (me_name M) rhs c st }
                    else if how = CHR ''!'' then
                      (case cmd_exec E (vars st) rhs of
                         (out, None) \<Rightarrow> do { c \<leftarrow> ctxt; set_with E (me_parse M) (me_name M) out c False st }
                       | (out, Some msg) \<Rightarrow> Some (Error msg st))
                    else if how = CHR ''?'' \<and> \<not> me_junk M then Some st
                    else do { c \<leftarrow> ctxt; set_with E (me_parse M) (me_name M) rhs c False st });
              Some (Go (CHR ''}'' # cp) (Some VarError) False (me_junk M), st) } }"

text \<open>\<open>:@x@text@\<close>: the text for every word, with the word as value of the variable.\<close>

definition VarLoopExpand :: "mod_env \<Rightarrow> cstring \<Rightarrow> cstring \<Rightarrow> make_state mod_proc" where
  "VarLoopExpand M tvar text st word addSpace buf =
     (if word = [] then Some (st, addSpace, buf)
      else do {
        st \<leftarrow> set_with (me_var M) (me_parse M) tvar word (me_ctxt M) True st;
        (s, st) \<leftarrow> me_subst M text (me_err M) st;
        Some (if s = [] then (st, addSpace, buf)
              else (st, last s \<noteq> NL, buf @ sp (addSpace \<and> deref s \<noteq> NL) @ s)) })"

definition mod_loop :: "mod_env \<Rightarrow> cstring \<Rightarrow> cstring \<Rightarrow> make_state \<Rightarrow> (mod_result \<times> make_state) option" where
  "mod_loop M str tstr st =
     do { (tvar, cp, _, st) \<leftarrow> me_pattern M (tl tstr) CHR ''@'' (Some True) None st;
          case tvar of
            None \<Rightarrow> Some (Cleanup cp CHR ''@'', st)
          | Some tvar \<Rightarrow> do {
              (text, cp, _, st) \<leftarrow> me_pattern M cp CHR ''@'' (Some True) None st;
              case text of
                None \<Rightarrow> Some (Cleanup cp CHR ''@'', st)
              | Some text \<Rightarrow> do {
                  (new, st) \<leftarrow> VarModify (VarLoopExpand M tvar text) str st;
                  Some (Go cp (Some (Val new)) False False, st) } } }"

partial_function (option) default_loop :: "mod_env \<Rightarrow> cstring \<Rightarrow> string \<Rightarrow> make_state \<Rightarrow> (string \<times> cstring \<times> make_state) option" where
  "default_loop M cp buf st =
     (if cp = [] \<or> me_end M (deref cp) then Some (buf, cp, st)
      else if deref cp = CHR 0x5C \<and> tl cp \<noteq> [] \<and> (deref (tl cp) \<in> {CHR ''$'', CHR 0x5C} \<or> me_end M (deref (tl cp)))
      then default_loop M (tl (tl cp)) (buf @ [deref (tl cp)]) st
      else if deref cp = CHR ''$'' then do {
        (s, rest, st) \<leftarrow> nested (me_parse M) (me_ctxt M) cp (me_err M) st;
        default_loop M rest (buf @ s) st }
      else default_loop M (tl cp) (buf @ [deref cp]) st)"

declare default_loop.simps [code]

text \<open>\<open>:D\<close> and \<open>:U\<close>.\<close>

definition mod_default :: "mod_env \<Rightarrow> cstring \<Rightarrow> make_state \<Rightarrow> (mod_result \<times> make_state) option" where
  "mod_default M tstr st =
     do { (buf, cp, st) \<leftarrow> default_loop M (tl tstr) [] st;
          let wantit = (if deref tstr = CHR ''U'' then me_junk M else \<not> me_junk M);
          Some (Go cp (if wantit then Some (Val buf) else None) (me_junk M) False, st) }"

text \<open>\<open>:!command!\<close>.\<close>

definition mod_command :: "mod_env \<Rightarrow> cstring \<Rightarrow> make_state \<Rightarrow> (mod_result \<times> make_state) option" where
  "mod_command M tstr st =
     do { (cmd, cp, _, st) \<leftarrow> me_pattern M (tl tstr) CHR ''!'' None None st;
          case cmd of
            None \<Rightarrow> Some (Cleanup cp CHR ''!'', st)
          | Some cmd \<Rightarrow>
              (case cmd_exec (me_var M) (vars st) cmd of
                 (out, msg) \<Rightarrow> Some (Go cp (Some (Val out)) (me_junk M) False,
                                    (case msg of None \<Rightarrow> st | Some msg \<Rightarrow> Error msg st))) }"

text \<open>\<open>:M\<close> and \<open>:N\<close>: the length of the pattern, and whether a backslash is in it.\<close>

fun match_scan :: "mod_env \<Rightarrow> nat \<Rightarrow> cstring \<Rightarrow> nat \<times> bool" where
  "match_scan M nest [] = (0, False)"
| "match_scan M nest (c # s) =
     (if c = CHR '':'' then (0, False)
      else if c = CHR 0x5C \<and> s \<noteq> [] \<and> (me_end M (deref s) \<or> deref s = me_startc M)
      then (case s of [] \<Rightarrow> (0, True) | _ # s \<Rightarrow> (2 + fst (match_scan M nest s), True))
      else let nest = (if c = me_startc M then nest + 1 else nest) in
           if c = me_endc M \<and> nest = 1 then (0, False)
           else (let nest = (if c = me_endc M then nest - 1 else nest); r = match_scan M nest s
                 in (1 + fst r, snd r)))"

fun compress :: "mod_env \<Rightarrow> cstring \<Rightarrow> cstring" where
  "compress M (c # d # s) = (if c = CHR 0x5C \<and> me_end M d then d # compress M s else c # compress M (d # s))"
| "compress M s = s"

definition mod_match :: "mod_env \<Rightarrow> cstring \<Rightarrow> cstring \<Rightarrow> make_state \<Rightarrow> (mod_result \<times> make_state) option" where
  "mod_match M str tstr st =
     do { let (n, copy) = match_scan M 1 (tl tstr);
          let cp = drop n (tl tstr);
          let pat = (if copy then compress M (take n (tl tstr)) else take n (tl tstr));
          (pat, st) \<leftarrow> (if CHR ''$'' \<in> set pat then me_subst M pat (me_err M) st else Some (pat, st));
          (new, _) \<leftarrow> VarModify (if deref tstr = CHR ''M'' then VarMatch else VarNoMatch) str pat;
          Some (Go cp (Some (Val new)) False False, st) }"

text \<open>\<open>:S/old/new/\<close>.\<close>

definition is_sub_flag :: "char \<Rightarrow> bool" where
  "is_sub_flag c = (c = CHR ''g'' \<or> c = CHR ''1'')"

definition mod_subst :: "mod_env \<Rightarrow> cstring \<Rightarrow> cstring \<Rightarrow> make_state \<Rightarrow> (mod_result \<times> make_state) option" where
  "mod_subst M str tstr st =
     do { let delim = deref (tl tstr);
          tstr \<leftarrow> advance 2 tstr;
          let start = (deref tstr = CHR ''^'');
          (l, cp, mend, st) \<leftarrow> me_pattern M (if start then tl tstr else tstr) delim (Some False) None st;
          case l of
            None \<Rightarrow> Some (Cleanup cp delim, st)
          | Some l \<Rightarrow> do {
              (r, cp, _, st) \<leftarrow> me_pattern M cp delim None (Some l) st;
              case r of
                None \<Rightarrow> Some (Cleanup cp delim, st)
              | Some r \<Rightarrow> do {
                  let flags = takeWhile is_sub_flag cp;
                  (new, _) \<leftarrow> VarModify VarSubstitute str
                    \<lparr>pat_lhs = l, pat_rhs = r, sub_global = (CHR ''g'' \<in> set flags), sub_one = (CHR ''1'' \<in> set flags),
                     sub_matched = False, match_start = start, match_end = mend\<rparr>;
                  Some (Go (dropWhile is_sub_flag cp) (Some (Val new)) False False, st) } } }"

text \<open>The conditions inside a modifier parse references in the context \<^verbatim>\<open>VAR_CMD\<close>.\<close>

definition parse_for_cond :: "parser \<Rightarrow> make_state \<Rightarrow> cstring \<Rightarrow> bool \<Rightarrow> (cstring option \<times> nat \<times> make_state) option" where
  "parse_for_cond P st s err =
     do { (v, len, free, st) \<leftarrow> P VAR_CMD s err st;
          if free \<and> (v = VarError \<or> v = VarNoError) then None
          else Some (case v of VarError \<Rightarrow> None | v \<Rightarrow> Some (text_of v), len, st) }"

definition env_with :: "var_env \<Rightarrow> parser \<Rightarrow> make_vars cond_env" where
  "env_with E P =
     \<lparr>var_parse = parse_for_cond P, var_value = (\<lambda>m x. Var_Value E m x VAR_CMD),
      created = cond_created E, find_file = cond_file E, find_node = cond_node E\<rparr>"

text \<open>\<open>:?yes:no\<close>.\<close>

definition mod_cond :: "mod_env \<Rightarrow> cstring \<Rightarrow> cstring \<Rightarrow> make_state \<Rightarrow> (mod_result \<times> make_state) option" where
  "mod_cond M str tstr st =
     do { (l, cp, _, st) \<leftarrow> me_pattern M (tl tstr) CHR '':'' None None st;
          case l of
            None \<Rightarrow> Some (Cleanup cp CHR '':'', st)
          | Some l \<Rightarrow> do {
              (r, cp, _, st) \<leftarrow> me_pattern M cp CHR ''}'' None None st;
              case r of
                None \<Rightarrow> Some (Cleanup cp CHR ''}'', st)
              | Some r \<Rightarrow> do {
                  (res, value, st) \<leftarrow> Cond_EvalExpression (env_with (me_var M) (me_parse M)) True str False st;
                  if res = COND_INVALID
                  then Some (Cleanup (CHR ''}'' # cp) NUL,
                             Error (''Bad conditional expression `'' @ str @ [CHR 0x27] @ '' in '' @ str @ ''?'' @ l @ '':'' @ r) st)
                  else do { b \<leftarrow> value; Some (Go (CHR ''}'' # cp) (Some (Val (if b then l else r))) False False, st) } } } }"

subsection \<open>Regular expressions\<close>

record re_pattern =
  re_text :: cstring
  re_nsub :: nat
  re_replace :: cstring
  re_global :: bool
  re_one :: bool
  re_matched :: bool

text \<open>
  A subexpression in the replacement. An index beyond the array \<^verbatim>\<open>matches\<close> is read when it is
  just \<^verbatim>\<open>nsub\<close>; offsets outside the word do not occur.
\<close>

definition re_part :: "re_pattern \<Rightarrow> (int \<times> int) list \<Rightarrow> cstring \<Rightarrow> nat \<Rightarrow> cstring \<Rightarrow> make_state \<Rightarrow> (cstring \<times> make_state) option" where
  "re_part p matches wp n errstr st =
     (if re_nsub p < n then Some ([], Error (''No subexpression '' @ errstr) st)
      else do {
        (so, eo) \<leftarrow> nth_opt matches (int n);
        if so = - 1 \<and> eo = - 1 then Some ([], Error (''No match for subexpression '' @ errstr) st)
        else Some (take (nat (eo - so)) (drop (nat so) wp), st) })"

text \<open>The text for one match, and whether anything, even empty, was added.\<close>

function re_expand :: "re_pattern \<Rightarrow> (int \<times> int) list \<Rightarrow> cstring \<Rightarrow> cstring \<Rightarrow> make_state \<Rightarrow> (string \<times> make_state) option" where
  "re_expand p matches wp [] st = Some ([], st)"
| "re_expand p matches wp (c # rp) st =
     (if c = CHR 0x5C \<and> (deref rp = CHR ''&'' \<or> deref rp = CHR 0x5C)
      then do { (s, st) \<leftarrow> re_expand p matches wp (tl rp) st; Some (deref rp # s, st) }
      else if c = CHR ''&'' then do {
        (x, st) \<leftarrow> re_part p matches wp 0 ''&'' st;
        (s, st) \<leftarrow> re_expand p matches wp rp st; Some (x @ s, st) }
      else if c = CHR 0x5C \<and> isdigit (deref rp) then do {
        (x, st) \<leftarrow> re_part p matches wp (byte (deref rp) - 48) [c, deref rp] st;
        (s, st) \<leftarrow> re_expand p matches wp (tl rp) st; Some (x @ s, st) }
      else do { (s, st) \<leftarrow> re_expand p matches wp rp st; Some (c # s, st) })"
  by pat_completeness auto
termination by (relation "measure (\<lambda>(p, matches, wp, rp, st). length rp)") auto

declare re_expand.simps [simp del]

partial_function (option) re_loop ::
    "var_env \<Rightarrow> re_pattern \<Rightarrow> bool \<Rightarrow> cstring \<Rightarrow> string \<Rightarrow> make_state \<Rightarrow> (re_pattern \<times> string \<times> make_state) option" where
  "re_loop E p notbol wp out st =
     (case reg_exec E (re_text p) notbol wp of
        NoMatch \<Rightarrow> Some (p, out @ wp, st)
      | RegError msg \<Rightarrow> Some (p, out @ wp, Error (''Unexpected regex error: '' @ msg) st)
      | Matched ms \<Rightarrow> do {
          (so, eo) \<leftarrow> nth_opt ms 0;
          let p = p\<lparr>re_matched := True\<rparr>;
          (s, st) \<leftarrow> re_expand p ms wp (re_replace p) st;
          let out = out @ take (nat so) wp @ s;
          let rest = drop (nat eo) wp;
          if \<not> re_global p then Some (p, out @ rest, st)
          else if so = 0 \<and> eo = 0 then
            (case rest of
               [] \<Rightarrow> None
             | c # rest \<Rightarrow> if rest = [] then Some (p, out @ [c], st) else re_loop E p True rest (out @ [c]) st)
          else if rest = [] then Some (p, out, st) else re_loop E p True rest out st })"

declare re_loop.simps [code]

definition VarRESubstitute :: "var_env \<Rightarrow> (re_pattern \<times> make_state) mod_proc" where
  "VarRESubstitute E ps word addSpace buf =
     (case ps of (p, st) \<Rightarrow> do {
        (p, out, st) \<leftarrow> (if re_one p \<and> re_matched p then Some (p, word, st) else re_loop E p False word [] st);
        Some ((p, st), addSpace \<or> out \<noteq> [], buf @ sp (addSpace \<and> out \<noteq> []) @ out) })"

text \<open>\<open>:C/old/new/\<close>.\<close>

definition mod_regex :: "mod_env \<Rightarrow> cstring \<Rightarrow> cstring \<Rightarrow> make_state \<Rightarrow> (mod_result \<times> make_state) option" where
  "mod_regex M str tstr st =
     do { let delim = deref (tl tstr);
          tstr \<leftarrow> advance 2 tstr;
          (re, cp, _, st) \<leftarrow> me_pattern M tstr delim None None st;
          case re of
            None \<Rightarrow> Some (Cleanup cp delim, st)
          | Some re \<Rightarrow> do {
              (r, cp, _, st) \<leftarrow> me_pattern M cp delim None None st;
              case r of
                None \<Rightarrow> Some (Cleanup cp delim, st)
              | Some r \<Rightarrow>
                  (let flags = takeWhile is_sub_flag cp; cp = dropWhile is_sub_flag cp in
                   case reg_comp (me_var M) re of
                     Inl msg \<Rightarrow> Some (RegFail cp, Error (''RE substitution error: '' @ msg) st)
                   | Inr nsub \<Rightarrow> do {
                       (new, _, st) \<leftarrow> VarModify (VarRESubstitute (me_var M)) str
                         (\<lparr>re_text = re, re_nsub = min 10 (nsub + 1), re_replace = r, re_global = (CHR ''g'' \<in> set flags),
                           re_one = (CHR ''1'' \<in> set flags), re_matched = False\<rparr>, st);
                       Some (Go cp (Some (Val new)) False False, st) }) } }"

end
