(* ===== verification/Varref.thy ===== *)
theory Varref
  imports Varparse
begin

text \<open>
  \<^verbatim>\<open>Var_Parse\<close> itself, and with it \<^verbatim>\<open>Var_Subst\<close>, \<^verbatim>\<open>Var_Set\<close> and
  \<^verbatim>\<open>Var_Append\<close>. References nest, so these functions call themselves: the model has a number
  for the depth of the calls of \<^verbatim>\<open>Var_Parse\<close>, and depth 0 gives \<open>None\<close>.
\<close>

subsection \<open>The modifiers of a reference\<close>

text \<open>
  The value while modifiers are applied. \<open>rf_buffer\<close>: it is still the buffer of this variable;
  \<open>rf_free\<close> is \<^verbatim>\<open>*freePtr\<close>; \<open>rf_keep\<close> the flag \<^verbatim>\<open>VAR_KEEP\<close>;
  \<open>rf_lost\<close>: the name points to memory that is freed.
\<close>

record ref_state =
  rf_str :: var_val
  rf_buffer :: "(context_id \<times> cstring) option"
  rf_free :: bool
  rf_keep :: bool
  rf_lost :: bool

text \<open>The pointer into the buffer is given up.\<close>

definition unread :: "(context_id \<times> cstring) option \<Rightarrow> make_state \<Rightarrow> make_state" where
  "unread b st = (case b of None \<Rightarrow> st | Some x \<Rightarrow> change (\<lambda>m. m\<lparr>being_read := remove1 x (being_read m)\<rparr>) st)"

definition word_modifier :: "char \<Rightarrow> cstring \<Rightarrow> cstring option" where
  "word_modifier c str =
     (if c = CHR ''Q'' then Some (VarQuote str)
      else if c = CHR ''T'' then map_option fst (VarModify VarTail str ())
      else if c = CHR ''H'' then map_option fst (VarModify VarHead str ())
      else if c = CHR ''E'' then map_option fst (VarModify VarSuffix str ())
      else if c = CHR ''R'' then map_option fst (VarModify VarRoot str ())
      else if c = CHR ''O'' then VarSort str
      else VarUniq str)"

text \<open>The end of \<open>:old=new\<close>: the text up to the bracket that ends the reference, and whether there is an equals sign in it.\<close>

fun sysv_scan :: "mod_env \<Rightarrow> nat \<Rightarrow> cstring \<Rightarrow> nat \<times> bool" where
  "sysv_scan M n [] = (0, False)"
| "sysv_scan M n (c # s) =
     (if c = me_endc M \<and> c \<noteq> CHR ''='' \<and> n = 1 then (0, False)
      else let n = (if c = CHR ''='' then n else if c = me_endc M then n - 1 else if c = me_startc M then n + 1 else n);
               r = sysv_scan M n s
           in (1 + fst r, c = CHR ''='' \<or> snd r))"

definition mod_sysv :: "mod_env \<Rightarrow> cstring \<Rightarrow> cstring \<Rightarrow> make_state \<Rightarrow> (mod_result \<times> make_state) option" where
  "mod_sysv M str tstr st =
     (case sysv_scan M 1 tstr of (n, eqFound) \<Rightarrow>
        if deref (drop n tstr) = me_endc M \<and> eqFound then do {
          let l = takeWhile (\<lambda>c. c \<noteq> CHR ''='') tstr;
          let r = drop (length l + 1) tstr;
          let k = fst (sysv_scan M 1 r);
          (new, st) \<leftarrow> VarModify (VarSYSVMatch (\<lambda>s. me_subst M s False) l (take k r)) str st;
          Some (Go (drop k r) (Some (Val new)) False False, st) }
        else if tstr = [] then None
        else Some (Go (dropWhile (\<lambda>c. \<not> me_end M c) (tl tstr)) (Some VarError) False False,
                   Error (''Unknown modifier '' @ [CHR 0x27, deref tstr, CHR 0x27, NL]) st))"

definition is_assign :: "cstring \<Rightarrow> bool" where
  "is_assign tstr =
     (deref tstr = CHR '':'' \<and>
      (deref (tl tstr) = CHR ''='' \<or> deref (tl (tl tstr)) = CHR ''='' \<and> deref (tl tstr) \<in> set ''!+?''))"

text \<open>One modifier, by its first character. A letter that is not followed by the end falls through to \<open>:sh\<close>, all of them.\<close>

definition modifier :: "mod_env \<Rightarrow> cstring \<Rightarrow> cstring \<Rightarrow> make_state \<Rightarrow> (mod_result \<times> make_state) option" where
  "modifier M str tstr st =
     (let c = deref tstr; d = deref (tl tstr); e = deref (tl (tl tstr)) in
      if is_assign tstr then mod_assign M tstr st
      else if c = CHR ''@'' then mod_loop M str tstr st
      else if c = CHR ''D'' \<or> c = CHR ''U'' then mod_default M tstr st
      else if c = CHR ''L'' then Some (Go (tl tstr) (Some (Val (me_name M))) (me_junk M) False, st)
      else if c = CHR ''P'' then
        Some (Go (tl tstr) (Some (Val (case node_path (me_var M) (me_name M) of Some p \<Rightarrow> p | None \<Rightarrow> me_name M))) (me_junk M) False, st)
      else if c = CHR ''!'' then mod_command M tstr st
      else if c = CHR ''N'' \<or> c = CHR ''M'' then mod_match M str tstr st
      else if c = CHR ''S'' then mod_subst M str tstr st
      else if c = CHR ''?'' then mod_cond M str tstr st
      else if c = CHR ''C'' then mod_regex M str tstr st
      else if c \<in> set ''QTHEROu'' \<and> me_end M d then do {
        new \<leftarrow> word_modifier c str;
        Some (Go (tl tstr) (Some (Val new)) False False, st) }
      else if c \<in> set ''QTHEROus'' \<and> d = CHR ''h'' \<and> me_end M e then
        (case cmd_exec (me_var M) (vars st) str of
           (out, msg) \<Rightarrow> Some (Go (drop 2 tstr) (Some (Val out)) False False, (case msg of None \<Rightarrow> st | Some msg \<Rightarrow> Error msg st)))
      else mod_sysv M str tstr st)"

text \<open>
  These modifiers evaluate references while the value may still be the buffer of the variable;
  the others copy the value first, or do not read it.
\<close>

definition reads_value :: "cstring \<Rightarrow> bool" where
  "reads_value tstr = (deref tstr \<in> set ''DU!NMS?C'')"

text \<open>
  One turn of the loop over the modifiers: \<open>Inr\<close> where it goes on, \<open>Inl\<close> the length of a
  reference that is given up.
\<close>

definition mod_step :: "mod_env \<Rightarrow> nat \<Rightarrow> cstring \<Rightarrow> ref_state \<Rightarrow> make_state \<Rightarrow> ((nat + cstring) \<times> ref_state \<times> make_state) option" where
  "mod_step M len tstr rf st =
     (if rf_lost rf \<and> deref tstr \<in> set ''LP:'' then None
      else do {
        let str = text_of (rf_str rf);
        let (st, rf) = (if reads_value tstr then (st, rf) else (unread (rf_buffer rf) st, rf\<lparr>rf_buffer := None\<rparr>));
        (res, st) \<leftarrow> modifier M str tstr st;
        case res of
          Go cp new keep lost \<Rightarrow>
            if cp = [] then None
            else let rf = rf\<lparr>rf_keep := rf_keep rf \<or> keep, rf_lost := rf_lost rf \<or> lost\<rparr> in
              Some (Inr (if deref cp = CHR '':'' then tl cp else cp),
                case new of
                  None \<Rightarrow> (rf, st)
                | Some v \<Rightarrow> (rf\<lparr>rf_str := v, rf_buffer := None, rf_free := (v \<noteq> VarError \<and> v \<noteq> VarNoError)\<rparr>,
                            unread (rf_buffer rf) st))
        | Cleanup cp delim \<Rightarrow>
            if delim \<noteq> NUL \<and> (rf_lost rf \<or> is_assign tstr \<and> me_junk M \<and> rf_free rf) then None
            else Some (Inl (len - length cp + 1), rf,
              (if delim = NUL then st
               else Error (''Unclosed substitution for '' @ (if is_assign tstr \<and> me_junk M then str else me_name M) @
                           '' ('' @ [delim] @ '' missing)'') st))
        | RegFail cp \<Rightarrow> Some (Inl (len - length cp + 1), rf, st) })"

partial_function (option) mod_loops :: "mod_env \<Rightarrow> nat \<Rightarrow> cstring \<Rightarrow> ref_state \<Rightarrow> make_state \<Rightarrow> ((nat + cstring) \<times> ref_state \<times> make_state) option" where
  "mod_loops M len tstr rf st =
     (if deref tstr = me_endc M then Some (Inr tstr, rf, st)
      else do {
        (next, rf, st) \<leftarrow> mod_step M len tstr rf st;
        case next of
          Inl n \<Rightarrow> Some (Inl n, rf, st)
        | Inr tstr \<Rightarrow> mod_loops M len tstr rf st })"

declare mod_loops.simps [code]

subsection \<open>References\<close>

text \<open>The name in brackets, with the references in it expanded.\<close>

partial_function (option) name_loop :: "parser \<Rightarrow> context_id \<Rightarrow> bool \<Rightarrow> char \<Rightarrow> cstring \<Rightarrow> string \<Rightarrow> make_state \<Rightarrow> (string \<times> cstring \<times> make_state) option" where
  "name_loop P ctxt err endc tstr buf st =
     (if tstr = [] \<or> deref tstr = endc \<or> deref tstr = CHR '':'' then Some (buf, tstr, st)
      else if deref tstr = CHR ''$'' then do {
        (s, tstr, st) \<leftarrow> nested P ctxt tstr err st;
        name_loop P ctxt err endc tstr (buf @ s) st }
      else name_loop P ctxt err endc (tl tstr) (buf @ [deref tstr]) st)"

declare name_loop.simps [code]

definition is_local_ctxt :: "context_id \<Rightarrow> bool" where
  "is_local_ctxt c = (c \<noteq> VAR_CMD \<and> c \<noteq> VAR_GLOBAL)"

definition is_FD :: "cstring \<Rightarrow> bool" where
  "is_FD name = (length name = 2 \<and> (name ! 1 = CHR ''F'' \<or> name ! 1 = CHR ''D''))"

text \<open>Whether a name that is not defined stands for itself until a target is known.\<close>

definition is_dynamic :: "context_id \<Rightarrow> cstring \<Rightarrow> bool" where
  "is_dynamic ctxt name =
     (\<not> is_local_ctxt ctxt \<and>
      (if length name = 1 \<or> is_FD name then deref name \<in> set ''@%*!''
       else 2 < length name \<and> deref name = CHR ''.'' \<and> isupper (name ! 1) \<and>
            (\<exists>x \<in> set [''.TARGET'', ''.ARCHIVE'', ''.PREFIX'', ''.MEMBER''].
               take (length name - 1) name = take (length name - 1) x)))"

text \<open>A single character without brackets that is not defined.\<close>

definition short_undefined :: "context_id \<Rightarrow> char \<Rightarrow> bool \<Rightarrow> var_val" where
  "short_undefined ctxt c err =
     (if is_local_ctxt ctxt then (if err then VarError else VarNoError)
      else if c = CHR ''@'' then Val ''$(.TARGET)''
      else if c = CHR ''%'' then Val ''$(.ARCHIVE)''
      else if c = CHR ''*'' then Val ''$(.PREFIX)''
      else if c = CHR ''!'' then Val ''$(.MEMBER)''
      else if err then VarError else VarNoError)"

text \<open>The value of the variable with the references in it expanded; \<open>None\<close> also when it is recursive.\<close>

definition expand_value :: "var_env \<Rightarrow> parser \<Rightarrow> context_id \<Rightarrow> bool \<Rightarrow> variable \<Rightarrow> make_state \<Rightarrow> (ref_state \<times> make_state) option" where
  "expand_value E P ctxt err v st =
     (let val = var_text v; expand = (CHR ''$'' \<in> set val);
          rf = (\<lambda>s b. \<lparr>rf_str = Val s, rf_buffer = b, rf_free = expand, rf_keep = False, rf_lost = False\<rparr>) in
      case v of
        Stored c x _ \<Rightarrow>
          if (c, x) \<in> set (in_use (vars st)) then None
          else if expand then do {
            (s, st) \<leftarrow> subst_with E P None val ctxt err
                        (change (\<lambda>m. m\<lparr>in_use := (c, x) # in_use m, being_read := (c, x) # being_read m\<rparr>) st);
            Some (rf s None, change (\<lambda>m. m\<lparr>in_use := remove1 (c, x) (in_use m), being_read := remove1 (c, x) (being_read m)\<rparr>) st) }
          else Some (rf val (Some (c, x)), change (\<lambda>m. m\<lparr>being_read := (c, x) # being_read m\<rparr>) st)
      | _ \<Rightarrow> if expand then do { (s, st) \<leftarrow> subst_with E P None val ctxt err st; Some (rf s None, st) }
            else Some (rf val None, st))"

text \<open>The end of \<^verbatim>\<open>Var_Parse\<close>; \<open>ref\<close> is the text of the reference.\<close>

definition finish :: "variable \<Rightarrow> bool \<Rightarrow> cstring \<Rightarrow> ref_state \<Rightarrow> bool \<Rightarrow> make_state \<Rightarrow> (var_val \<times> nat \<times> bool \<times> make_state) option" where
  "finish v dynamic ref rf unchanged st =
     (let st = unread (rf_buffer rf) st; n = length ref in
      case v of
        Stored c x val \<Rightarrow> Some (rf_str rf, n, rf_free rf, st)
      | FromEnv x val \<Rightarrow> Some (rf_str rf, n, rf_free rf \<or> unchanged, st)
      | Junk x \<Rightarrow>
          if rf_lost rf then None
          else if rf_keep rf then Some (rf_str rf, n, rf_free rf, st)
          else if dynamic then Some (Val ref, n, True, st)
          else Some (VarError, n, False, st))"

text \<open>The modifiers and the end, for a variable and the text behind its name.\<close>

definition modify :: "var_env \<Rightarrow> parser \<Rightarrow> context_id \<Rightarrow> bool \<Rightarrow> char \<Rightarrow> variable \<Rightarrow> bool \<Rightarrow> cstring \<Rightarrow> cstring \<Rightarrow> make_state \<Rightarrow>
    (var_val \<times> nat \<times> bool \<times> make_state) option" where
  "modify E P ctxt err startc v dynamic start tstr st =
     do { (rf, st) \<leftarrow> expand_value E P ctxt err v st;
          let endc = (if startc = CHR ''('' then CHR '')'' else CHR ''}'');
          if deref tstr \<noteq> CHR '':'' then
            finish v dynamic (take (length start - length tstr + 1) start) rf (\<not> rf_free rf) st
          else do {
            let M = \<lparr>me_var = E, me_parse = P, me_ctxt = ctxt, me_err = err, me_startc = startc, me_endc = endc,
                     me_junk = (case v of Junk _ \<Rightarrow> True | _ \<Rightarrow> False), me_name = var_name v\<rparr>;
            (next, rf', st) \<leftarrow> mod_loops M (length start) (tl tstr) rf st;
            case next of
              Inl n \<Rightarrow> Some (VarError, n, rf_free rf', unread (rf_buffer rf') st)
            | Inr tstr \<Rightarrow> finish v dynamic (take (length start - length tstr + 1) start) rf'
                            (\<not> rf_free rf \<and> rf' = rf) st } }"

definition parse_body :: "var_env \<Rightarrow> parser \<Rightarrow> parser" where
  "parse_body E P ctxt str err st =
     (let c = deref (tl str) in
      if c \<noteq> CHR ''('' \<and> c \<noteq> CHR ''{'' then
        (case VarFind E (vars st) (take 1 (tl str)) ctxt FIND_ALL of
           None \<Rightarrow> Some (short_undefined ctxt c err, 2, False, st)
         | Some v \<Rightarrow> do { (rf, st) \<leftarrow> expand_value E P ctxt err v st;
                         finish v False (take 2 str) rf (\<not> rf_free rf) st })
      else do {
        (name, tstr, st) \<leftarrow> name_loop P ctxt err (if c = CHR ''('' then CHR '')'' else CHR ''}'') (drop 2 str) [] st;
        if tstr = [] then Some (VarError, length str, False, st)
        else
          let len = length str - length tstr + 1;
              local = (if is_FD name \<and> is_local_ctxt ctxt \<and> deref name \<in> set ''@%*!><''
                       then VarFind E (vars st) (take 1 name) ctxt [] else None)
          in case VarFind E (vars st) name ctxt FIND_ALL of
               Some v \<Rightarrow> modify E P ctxt err c v False str tstr st
             | None \<Rightarrow>
                 (case local of
                    Some w \<Rightarrow> do {
                      (val, _) \<leftarrow> VarModify (if name ! 1 = CHR ''D'' then VarHead else VarTail) (var_text w) ();
                      Some (Val val, len, True, st) }
                  | None \<Rightarrow>
                      if deref tstr = CHR '':'' then modify E P ctxt err c (Junk name) (is_dynamic ctxt name) str tstr st
                      else if is_dynamic ctxt name then Some (Val (take len str), len, True, st)
                      else Some (if err then VarError else VarNoError, len, False, st)) })"

primrec Var_Parse :: "nat \<Rightarrow> var_env \<Rightarrow> parser" where
  "Var_Parse 0 E = (\<lambda>ctxt str err st. None)"
| "Var_Parse (Suc n) E = parse_body E (Var_Parse n E)"

definition Var_Subst :: "nat \<Rightarrow> var_env \<Rightarrow> cstring option \<Rightarrow> cstring \<Rightarrow> context_id \<Rightarrow> bool \<Rightarrow> make_state \<Rightarrow> (cstring \<times> make_state) option" where
  "Var_Subst n E = subst_with E (Var_Parse n E)"

definition Var_Set :: "nat \<Rightarrow> var_env \<Rightarrow> cstring \<Rightarrow> cstring \<Rightarrow> context_id \<Rightarrow> bool \<Rightarrow> make_state \<Rightarrow> make_state option" where
  "Var_Set n E = set_with E (Var_Parse n E)"

definition Var_Append :: "nat \<Rightarrow> var_env \<Rightarrow> cstring \<Rightarrow> cstring \<Rightarrow> context_id \<Rightarrow> make_state \<Rightarrow> make_state option" where
  "Var_Append n E = append_with E (Var_Parse n E)"

text \<open>The start of the program: no variables, \<open>env\<close> in the environment.\<close>

definition vars_start :: "(cstring \<Rightarrow> cstring option) \<Rightarrow> make_vars" where
  "vars_start env =
     \<lparr>contexts = (\<lambda>_. Map.empty), environ = env, in_use = [], being_read = [], errors = [], errorReported = False\<rparr>"

end
