(* ===== verification/Wordlaws.thy ===== *)
theory Wordlaws
  imports Varwords "HOL-Library.Multiset"
begin

text \<open>
  The modifiers that work on words, on values that are lists of words separated by blanks: each is a
  function on the list of words. The locale is what \<^verbatim>\<open>VarModify\<close> asks of the function for a word.
\<close>

subsection \<open>Words\<close>

definition word_ok :: "cstring \<Rightarrow> bool" where
  "word_ok w = (w \<noteq> [] \<and> (\<forall>c \<in> set w. \<not> is_quote c \<and> \<not> is_blank c \<and> c \<noteq> NL \<and> c \<noteq> CHR 0x5C \<and> c \<noteq> NUL))"

lemma read_plain:
  assumes "word_ok w" "st = None \<or> st = Some (length buf)"
  shows "brk_loop e (w @ r) None (st, buf) argv = brk_loop e r None (Some (length buf), buf @ w) argv"
proof -
  have *: "brk_loop e (w @ r) None sb argv = brk_loop e r None (fold put_char w sb) argv"
    if "\<forall>c \<in> set w. \<not> is_quote c \<and> \<not> is_blank c \<and> c \<noteq> NL \<and> c \<noteq> CHR 0x5C" for w sb
    using that by (induction w arbitrary: sb) auto
  have "fold put_char w (st, buf) = (Some (length buf), buf @ w)"
    using assms put_chars by (auto simp: word_ok_def)
  then show ?thesis using *[of w "(st, buf)"] assms(1) by (simp add: word_ok_def)
qed

lemma word_ok_cstr: "word_ok w \<Longrightarrow> is_cstr w"
  by (simp add: word_ok_def is_cstr_def list_all_iff)

lemma read_words:
  "st = None \<or> st = Some (length buf) \<Longrightarrow> closed argv buf \<Longrightarrow> ws \<noteq> [] \<Longrightarrow> list_all word_ok ws \<Longrightarrow>
   \<exists>ab. brk_loop e (join_words ws) None (st, buf) argv = Some ab \<and> words_in ab = words_in (argv, buf) @ ws"
proof (induction ws arbitrary: st buf argv rule: join_words.induct)
  case (2 w)
  have "brk_loop e (join_words [w]) None (st, buf) argv = Some (argv @ [length buf], buf @ w @ [NUL])"
    using read_plain[of w st buf e "[]"] 2 by simp
  then show ?case using words_in_end(1)[OF "2.prems"(2), of "length buf" w w] "2.prems"(4) word_ok_cstr by simp
next
  case (3 w v ws)
  have w: "word_ok w" "is_cstr w" "list_all word_ok (v # ws)" using "3.prems"(4) word_ok_cstr by simp_all
  note e = words_in_end[OF "3.prems"(2), of "length buf" w w]
  have "brk_loop e (join_words (w # v # ws)) None (st, buf) argv =
      brk_loop e (join_words (v # ws)) None (None, buf @ w @ [NUL]) (argv @ [length buf])"
    using read_plain[OF w(1) "3.prems"(1), of e "CHR '' '' # join_words (v # ws)"] by (simp add: is_quote_def is_blank_def)
  then show ?case using "3.IH"[of None "buf @ w @ [NUL]" "argv @ [length buf]"] e w by simp
qed simp

lemma brk_words:
  assumes "ws \<noteq> []" "list_all word_ok ws"
  shows "brk_string (join_words ws) e = Some ws"
proof -
  obtain w vs where ws: "ws = w # vs" "word_ok w" using assms by (cases ws) auto
  then obtain c x where "join_words ws = c # x" "\<not> is_blank c"
    by (cases vs; cases w) (auto simp: word_ok_def)
  then have "dropWhile is_blank (join_words ws) = join_words ws" by simp
  moreover obtain ab where "brk_loop e (join_words ws) None (Some 0, []) [] = Some ab" "words_in ab = ws"
    using read_words[of "Some 0" "[]" "[]" ws e] assms by (auto simp: closed_def words_in_def)
  ultimately show ?thesis by (simp add: brk_string_def words_in_def split: prod.splits)
qed

lemma is_cstr_join: "list_all is_cstr ws \<Longrightarrow> is_cstr (join_words ws)"
  by (induction ws rule: join_words.induct) (auto simp: is_cstr_def)

subsection \<open>A function for every word\<close>

text \<open>\<open>g\<close>: what is put into the result for a word, if anything.\<close>

locale word_step =
  fixes f :: "'s mod_proc" and s :: 's and ok :: "cstring \<Rightarrow> bool" and g :: "cstring \<Rightarrow> cstring option"
  assumes step: "ok w \<Longrightarrow> f s w addSpace buf =
      Some (case g w of None \<Rightarrow> (s, addSpace, buf) | Some x \<Rightarrow> (s, True, buf @ sp addSpace @ x))"
    and strings: "is_cstr w \<Longrightarrow> g w = Some x \<Longrightarrow> is_cstr x"
begin

lemma all_words:
  "list_all ok ws \<Longrightarrow> mod_words f s ws addSpace buf =
     Some (s, buf @ sp (addSpace \<and> List.map_filter g ws \<noteq> []) @ join_words (List.map_filter g ws))"
proof (induction ws arbitrary: addSpace buf)
  case (Cons w ws)
  show ?case
  proof (cases "g w")
    case None
    then show ?thesis using Cons step[of w] by (simp add: map_filter_simps)
  next
    case (Some x)
    have "x @ sp (v \<noteq> []) @ join_words v = join_words (x # v)" for v
      by (cases v) (simp_all add: sp_def)
    then show ?thesis using Cons step[of w] Some by (simp add: map_filter_simps)
  qed
qed (simp add: sp_def map_filter_simps)

lemma modified:
  assumes "ws \<noteq> []" "list_all word_ok ws" "list_all ok ws"
  shows "VarModify f (join_words ws) s = Some (join_words (List.map_filter g ws), s)"
proof -
  have "list_all is_cstr (List.map_filter g ws)"
    using assms(2) by (auto simp: list_all_iff map_filter_def intro: strings[OF word_ok_cstr])
  then have "c_str (join_words (List.map_filter g ws)) = join_words (List.map_filter g ws)"
    using is_cstr_join c_str_id by blast
  then show ?thesis using brk_words[OF assms(1,2)] all_words[OF assms(3)] by (simp add: VarModify_def sp_def)
qed

end

lemma strrchr_None: "strrchr s c = None \<longleftrightarrow> c \<notin> set s"
proof -
  have "dropWhile (\<lambda>d. d \<noteq> c) (rev s) = [] \<longleftrightarrow> c \<notin> set s" by (auto simp: dropWhile_eq_Nil_conv)
  moreover have "strrchr s c = None \<longleftrightarrow> dropWhile (\<lambda>d. d \<noteq> c) (rev s) = []"
    by (simp add: strrchr_def split: list.split del: dropWhile_eq_Nil_conv)
  ultimately show ?thesis by simp
qed

lemma strrchr_append: "c \<notin> set b \<Longrightarrow> strrchr (a @ c # b) c = Some (a, b)"
proof -
  assume "c \<notin> set b"
  then have "dropWhile (\<lambda>d. d \<noteq> c) (rev b @ c # rev a) = c # rev a" "takeWhile (\<lambda>d. d \<noteq> c) (rev b @ c # rev a) = rev b"
    by (auto intro!: takeWhile_append_stop dropWhile_append_stop simp: list_all_iff)
  then show ?thesis by (simp add: strrchr_def)
qed

lemma strrchr_Some: "strrchr s c = Some (a, b) \<longleftrightarrow> s = a @ c # b \<and> c \<notin> set b"
proof
  assume "strrchr s c = Some (a, b)"
  moreover from this obtain a' b' where "s = a' @ c # b'" "c \<notin> set b'"
    using strrchr_None[of s c] split_list_last[of c s] by auto
  ultimately show "s = a @ c # b \<and> c \<notin> set b" using strrchr_append by fastforce
qed (auto simp: strrchr_append)

definition head_of :: "cstring \<Rightarrow> cstring" where
  "head_of w = (case strrchr w CHR ''/'' of Some (h, _) \<Rightarrow> h | None \<Rightarrow> ''.'')"

definition tail_of :: "cstring \<Rightarrow> cstring" where
  "tail_of w = (case strrchr w CHR ''/'' of Some (_, t) \<Rightarrow> t | None \<Rightarrow> w)"

definition root_of :: "cstring \<Rightarrow> cstring" where
  "root_of w = (case strrchr w CHR ''.'' of Some (r, _) \<Rightarrow> r | None \<Rightarrow> w)"

definition suffix_of :: "cstring \<Rightarrow> cstring option" where
  "suffix_of w = map_option snd (strrchr w CHR ''.'')"

lemma parts_cstr: "is_cstr w \<Longrightarrow> strrchr w c = Some (a, b) \<Longrightarrow> is_cstr a \<and> is_cstr b"
  by (auto simp: strrchr_Some is_cstr_def)

lemma dot_cstr: "is_cstr ''.''"
  by (simp add: is_cstr_def)

interpretation head: word_step VarHead "()" "\<lambda>_. True" "\<lambda>w. Some (head_of w)"
  by unfold_locales (auto simp: VarHead_def head_of_def dot_cstr dest: parts_cstr split: option.splits)

interpretation tail: word_step VarTail "()" "\<lambda>_. True" "\<lambda>w. Some (tail_of w)"
  by unfold_locales (auto simp: VarTail_def tail_of_def dest: parts_cstr split: option.splits)

interpretation root: word_step VarRoot "()" "\<lambda>_. True" "\<lambda>w. Some (root_of w)"
  by unfold_locales (auto simp: VarRoot_def root_of_def dest: parts_cstr split: option.splits)

interpretation suffix: word_step VarSuffix "()" "\<lambda>_. True" suffix_of
  by unfold_locales (auto simp: VarSuffix_def suffix_of_def dest: parts_cstr split: option.splits)

interpretation match: word_step VarMatch pattern "\<lambda>w. Str_Match w pattern \<noteq> None" "\<lambda>w. if Str_Match w pattern = Some True then Some w else None"
  for pattern by unfold_locales (auto simp: VarMatch_def split: if_splits)

interpretation no_match: word_step VarNoMatch pattern "\<lambda>w. Str_Match w pattern \<noteq> None" "\<lambda>w. if Str_Match w pattern = Some True then None else Some w"
  for pattern by unfold_locales (auto simp: VarNoMatch_def split: if_splits)

lemma path_parts:
  "CHR ''/'' \<notin> set b \<Longrightarrow> head_of (a @ CHR ''/'' # b) = a \<and> tail_of (a @ CHR ''/'' # b) = b"
  "CHR ''/'' \<notin> set b \<Longrightarrow> head_of b = ''.'' \<and> tail_of b = b"
  "CHR ''.'' \<notin> set b \<Longrightarrow> root_of (a @ CHR ''.'' # b) = a \<and> suffix_of (a @ CHR ''.'' # b) = Some b"
  "CHR ''.'' \<notin> set b \<Longrightarrow> root_of b = b \<and> suffix_of b = None"
  by (simp_all add: head_of_def tail_of_def root_of_def suffix_of_def strrchr_append strrchr_None[THEN iffD2])



text \<open>
  C22. The modifiers \<open>:M\<close> and \<open>:N\<close>, for a value of words with single blanks between them, at least one, without
  quotes, blanks, newlines, backslashes and NUL, whose match with the pattern is defined: the first keeps
  the words that match the pattern, the second the others, both in order and with single blanks.
\<close>

theorem match_modifiers:
  assumes "ws \<noteq> []" "list_all word_ok ws" "list_all (\<lambda>w. Str_Match w pattern \<noteq> None) ws"
  shows "VarModify VarMatch (join_words ws) pattern = Some (join_words (filter (\<lambda>w. Str_Match w pattern = Some True) ws), pattern) \<and>
         VarModify VarNoMatch (join_words ws) pattern = Some (join_words (filter (\<lambda>w. Str_Match w pattern \<noteq> Some True) ws), pattern)"
proof -
  have "List.map_filter (\<lambda>w. if P w then Some w else None) ws = filter P ws"
      "List.map_filter (\<lambda>w. if P w then None else Some w) ws = filter (\<lambda>w. \<not> P w) ws" for P :: "cstring \<Rightarrow> bool"
    by (induction ws) (simp_all add: map_filter_simps)
  then show ?thesis using match.modified[OF assms] no_match.modified[OF assms] by simp
qed

theorem match_modifiers_witness:
  "VarModify VarMatch ''a.c b.o'' ''*.c'' = Some (''a.c'', ''*.c'') \<and> VarModify VarNoMatch ''a.c b.o'' ''*.c'' = Some (''b.o'', ''*.c'')"
proof -
  have "Str_Match ''a.c'' ''*.c'' = Some True" "Str_Match ''b.o'' ''*.c'' = Some False" by code_simp+
  then show ?thesis using match_modifiers[of "[''a.c'', ''b.o'']" "''*.c''"]
    by (auto simp: word_ok_def is_quote_def is_blank_def)
qed

subsection \<open>Sorting and repeated words\<close>

lemma word_le_total: "word_le x y \<or> word_le y x"
proof (induction x y rule: word_le.induct)
  case (3 c s d t)
  have "c = d" if "byte c = byte d" using that by (simp add: byte_def)
  then show ?case using 3 by (cases "byte c" "byte d" rule: linorder_cases) auto
qed auto

lemma word_le_trans: "word_le x y \<Longrightarrow> word_le y z \<Longrightarrow> word_le x z"
proof (induction x y arbitrary: z rule: word_le.induct)
  case (3 c s d t)
  then show ?case by (cases z) auto
qed auto

lemma insert_word_sorted: "sorted_wrt word_le ws \<Longrightarrow> sorted_wrt word_le (insert_word w ws) \<and> mset (insert_word w ws) = add_mset w (mset ws)"
proof (induction ws)
  case (Cons v vs)
  have s: "set (insert_word w vs) = insert w (set vs)" using Cons by (metis set_mset_add_mset_insert set_mset_mset sorted_wrt.simps(2))
  show ?case
  proof (cases "word_le w v")
    case True
    then show ?thesis using Cons.prems word_le_trans by (auto simp: sorted_wrt.simps)
  next
    case False
    then have "word_le v w" using word_le_total by blast
    then show ?thesis using False Cons s by auto
  qed
qed simp

text \<open>C23. \<open>:O\<close> sorts the words, by bytes; \<open>:u\<close> leaves out words equal to the one before.\<close>

theorem sort_modifier:
  assumes "ws \<noteq> []" "list_all word_ok ws"
  shows "(\<exists>vs. VarSort (join_words ws) = Some (join_words vs) \<and> sorted_wrt word_le vs \<and> mset vs = mset ws) \<and>
         VarUniq (join_words ws) = Some (join_words (remdups_adj ws))"
proof -
  have "sorted_wrt word_le (foldr insert_word ws []) \<and> mset (foldr insert_word ws []) = mset ws"
    by (induction ws) (simp_all add: insert_word_sorted)
  then have sort: "\<exists>vs. VarSort (join_words ws) = Some (join_words vs) \<and> sorted_wrt word_le vs \<and> mset vs = mset ws"
    using brk_words[OF assms] by (auto simp: VarSort_def)
  have "uniq_words ws = remdups_adj ws"
    by (induction ws rule: uniq_words.induct) auto
  then show ?thesis using sort brk_words[OF assms] by (simp add: VarUniq_def)
qed

theorem sort_modifier_witness:
  "\<exists>vs. VarSort ''b a b'' = Some (join_words vs) \<and> sorted_wrt word_le vs \<and> mset vs = {#''b'', ''a'', ''b''#}"
  using sort_modifier[of "[''b'', ''a'', ''b'']"]
  by (simp add: word_ok_def is_quote_def is_blank_def)

subsection \<open>Quoting\<close>

text \<open>
  How a shell reads the arguments of a command outside quotes: blanks end a word; a backslash and a newline
  are removed, a backslash and another character are that character of the word; the characters that a
  shell takes for something else than themselves (operators, quotes, expansions, patterns, comments, the
  end of the line) are answered with \<open>None\<close>. The first argument is the word that has begun.
\<close>

definition sh_special :: string where
  "sh_special = ''|&;<>()$`*?[]{}#~!^'' @ [DQ, CHR 0x27, NL]"

definition sh_add :: "cstring option \<Rightarrow> char \<Rightarrow> cstring option" where
  "sh_add cur c = Some (case cur of None \<Rightarrow> [c] | Some w \<Rightarrow> w @ [c])"

fun sh_words :: "cstring option \<Rightarrow> cstring \<Rightarrow> cstring list option" where
  "sh_words cur [] = Some (case cur of None \<Rightarrow> [] | Some w \<Rightarrow> [w])"
| "sh_words cur (c # s) =
     (if c = CHR 0x5C then
        (case s of
           [] \<Rightarrow> None
         | d # r \<Rightarrow> if d = NL then sh_words cur r else sh_words (sh_add cur d) r)
      else if c = CHR '' '' \<or> c = CHR 0x09 then
        (case cur of None \<Rightarrow> sh_words None s | Some w \<Rightarrow> map_option (Cons w) (sh_words None s))
      else if c \<in> set sh_special then None
      else sh_words (sh_add cur c) s)"

lemma special_quoted: "set sh_special \<union> {CHR 0x5C, CHR '' '', CHR 0x09} \<subseteq> set meta"
  by code_simp

lemma sh_words_quote:
  "sh_words cur (VarQuote s @ r) = sh_words (fold (\<lambda>c w. sh_add w c) (filter (\<lambda>c. c \<noteq> NL) s) cur) r"
proof (induction s arbitrary: cur)
  case (Cons c s)
  have "CHR 0x5C \<in> set meta" "NL \<in> set meta" by (simp_all add: meta_def)
  then show ?case using Cons special_quoted by (cases "c \<in> set meta") auto
qed simp

lemma fold_sh_add: "fold (\<lambda>c w. sh_add w c) t (Some w) = Some (w @ t)"
  by (induction t arbitrary: w) (simp_all add: sh_add_def)

text \<open>
  C24. \<open>:Q\<close>: a shell reads the quoted text as one argument, the text without its newlines; a text that
  is empty or has newlines only is read as no argument.
\<close>

theorem quote_modifier:
  "sh_words None (VarQuote s) = Some (let t = filter (\<lambda>c. c \<noteq> NL) s in if t = [] then [] else [t])"
proof (cases "filter (\<lambda>c. c \<noteq> NL) s")
  case Nil
  then show ?thesis using sh_words_quote [of None s "[]"] by (simp add: Let_def)
next
  case (Cons c t)
  then show ?thesis using sh_words_quote [of None s "[]"] fold_sh_add [of t "[c]"] by (simp add: Let_def sh_add_def [of None])
qed

end
