(* ===== verification/Varexpand.thy ===== *)
theory Varexpand
  imports Varref
begin

text \<open>
  \<^verbatim>\<open>Var_Subst\<close> against the meaning of a text: a text is a list of pieces, some of which are
  references with modifiers, and the values of variables are such texts again.
\<close>

subsection \<open>Texts\<close>

datatype piece = Lit cstring | Dollar | Short char | Ref bool cstring "char list"

definition mods_text :: "char list \<Rightarrow> cstring" where
  "mods_text ms = concat (map (\<lambda>c. [CHR '':'', c]) ms)"

definition closing :: "bool \<Rightarrow> char" where
  "closing b = (if b then CHR ''}'' else CHR '')'')"

fun show_piece :: "piece \<Rightarrow> cstring" where
  "show_piece (Lit s) = s"
| "show_piece Dollar = ''$$''"
| "show_piece (Short c) = [CHR ''$'', c]"
| "show_piece (Ref b x ms) = [CHR ''$'', if b then CHR ''{'' else CHR ''(''] @ x @ mods_text ms @ [closing b]"

definition show_text :: "piece list \<Rightarrow> cstring" where
  "show_text ps = concat (map show_piece ps)"

definition var_chars :: "cstring \<Rightarrow> bool" where
  "var_chars x = (set x \<inter> set ''$:{}()'' = {})"

definition word_mods :: string where
  "word_mods = ''QTHEROu''"

text \<open>The modifiers of a reference, one after the other.\<close>

fun apply_mods :: "char list \<Rightarrow> cstring \<Rightarrow> cstring option" where
  "apply_mods [] s = Some s"
| "apply_mods (m # ms) s = do { s \<leftarrow> word_modifier m s; apply_mods ms s }"

text \<open>
  Variables have ranks, and the value of a variable refers to variables of lower ranks only: so none is
  recursive. \<open>expands k ps s\<close>: the text, with references to variables of ranks below \<open>k\<close>, stands for \<open>s\<close>.
\<close>

fun var_rank :: "(context_id option \<times> cstring \<Rightarrow> nat) \<Rightarrow> variable \<Rightarrow> nat" where
  "var_rank rk (Stored c x v) = rk (Some c, x)"
| "var_rank rk (FromEnv x v) = rk (None, x)"
| "var_rank rk (Junk x) = 0"

inductive expands :: "var_env \<Rightarrow> make_vars \<Rightarrow> context_id \<Rightarrow> (context_id option \<times> cstring \<Rightarrow> nat) \<Rightarrow> nat \<Rightarrow> piece list \<Rightarrow> cstring \<Rightarrow> bool"
  for E m c rk where
  expands_Nil: "expands E m c rk k [] []"
| expands_Lit: "CHR ''$'' \<notin> set s \<Longrightarrow> expands E m c rk k ps t \<Longrightarrow> expands E m c rk k (Lit s # ps) (s @ t)"
| expands_Dollar: "expands E m c rk k ps t \<Longrightarrow> expands E m c rk k (Dollar # ps) (CHR ''$'' # t)"
| expands_Short:
    "VarFind E m [a] c FIND_ALL = Some v \<Longrightarrow> a \<notin> set ''$({'' \<Longrightarrow> var_rank rk v < k \<Longrightarrow> var_text v = show_text ps' \<Longrightarrow>
     expands E m c rk (var_rank rk v) ps' s \<Longrightarrow> expands E m c rk k ps t \<Longrightarrow> expands E m c rk k (Short a # ps) (s @ t)"
| expands_Ref:
    "VarFind E m x c FIND_ALL = Some v \<Longrightarrow> var_chars x \<Longrightarrow> set ms \<subseteq> set word_mods \<Longrightarrow> var_rank rk v < k \<Longrightarrow>
     var_text v = show_text ps' \<Longrightarrow> expands E m c rk (var_rank rk v) ps' s \<Longrightarrow> apply_mods ms s = Some w \<Longrightarrow>
     expands E m c rk k ps t \<Longrightarrow> expands E m c rk k (Ref b x ms # ps) (w @ t)"
| expands_undefined:
    "VarFind E m x c FIND_ALL = None \<Longrightarrow> var_chars x \<Longrightarrow> \<not> is_dynamic c x \<Longrightarrow> \<not> is_FD x \<Longrightarrow> oldVars E \<Longrightarrow> 0 < k \<Longrightarrow>
     expands E m c rk k ps t \<Longrightarrow> expands E m c rk k (Ref b x [] # ps) t"

lemma show_text_simps [simp]: "show_text [] = []" "show_text (p # ps) = show_piece p @ show_text ps"
  by (simp_all add: show_text_def)

lemma expands_plain: "expands E m c rk k ps s \<Longrightarrow> CHR ''$'' \<notin> set (show_text ps) \<Longrightarrow> s = show_text ps"
proof (induction rule: expands.induct)
  case (expands_Lit s k ps t)
  then show ?case by simp
next
  case (expands_Short a v k ps' s ps t)
  from expands_Short.prems show ?case by simp
next
  case (expands_Ref x v ms k ps' s w ps t b)
  from expands_Ref.prems show ?case by simp
next
  case (expands_undefined x k ps t b)
  from expands_undefined.prems show ?case by simp
next
  case (expands_Dollar k ps t)
  from expands_Dollar.prems show ?case by simp
qed simp

subsection \<open>The state\<close>

definition quiet :: "make_state \<Rightarrow> make_state" where
  "quiet st = change (\<lambda>m. m\<lparr>errorReported := False\<rparr>) st"

definition same_store :: "make_vars \<Rightarrow> make_state \<Rightarrow> bool" where
  "same_store m st = (contexts (vars st) = contexts m \<and> environ (vars st) = environ m)"

lemma VarFind_cong: "same_store m st \<Longrightarrow> VarFind E (vars st) x c fl = VarFind E m x c fl"
  by (simp only: VarFind_def in_context_def same_store_def)

lemma quiet_quiet [simp]: "quiet (quiet st) = quiet st"
  by (simp add: quiet_def change_def)

lemma same_store_quiet [simp]: "same_store m (quiet st) = same_store m st"
  by (simp add: quiet_def change_def same_store_def)

text \<open>What a reference may do to the state.\<close>

definition still :: "make_state \<Rightarrow> make_state \<Rightarrow> bool" where
  "still st st' = (st' = st \<or> st' = quiet st)"

lemma still_quiet: "still (quiet st) st' \<Longrightarrow> st' = quiet st"
  by (auto simp: still_def)

subsection \<open>The loop over a text\<close>

lemma subst_Lit:
  assumes "CHR ''$'' \<notin> set s"
  shows "subst_loop E P None c err (s @ rest) buf st = subst_loop E P None c err rest (buf @ s) st"
proof (cases "s = []")
  case False
  have tw: "takeWhile (\<lambda>c. c \<noteq> CHR ''$'') (s @ rest) = s @ takeWhile (\<lambda>c. c \<noteq> CHR ''$'') rest"
      "dropWhile (\<lambda>c. c \<noteq> CHR ''$'') (s @ rest) = dropWhile (\<lambda>c. c \<noteq> CHR ''$'') rest"
    using assms by (auto intro!: takeWhile_append2 dropWhile_append2)
  have d: "deref (s @ rest) \<noteq> CHR ''$''" using False assms by (cases s) auto
  have l: "subst_loop E P None c err (s @ rest) buf st =
      subst_loop E P None c err (dropWhile (\<lambda>c. c \<noteq> CHR ''$'') rest) (buf @ s @ takeWhile (\<lambda>c. c \<noteq> CHR ''$'') rest) st"
    using False d tw by (subst subst_loop.simps) (simp add: subst_step_def)
  show ?thesis
  proof (cases "rest = [] \<or> deref rest = CHR ''$''")
    case True
    then have "takeWhile (\<lambda>c. c \<noteq> CHR ''$'') rest = []" "dropWhile (\<lambda>c. c \<noteq> CHR ''$'') rest = rest" by (cases rest; auto)+
    then show ?thesis using l by simp
  next
    case n: False
    then have "subst_loop E P None c err rest (buf @ s) st =
      subst_loop E P None c err (dropWhile (\<lambda>c. c \<noteq> CHR ''$'') rest) (buf @ s @ takeWhile (\<lambda>c. c \<noteq> CHR ''$'') rest) st"
      by (subst subst_loop.simps) (simp add: subst_step_def)
    then show ?thesis using l by simp
  qed
qed simp

lemma subst_Dollar: "subst_loop E P None c err (CHR ''$'' # CHR ''$'' # rest) buf st = subst_loop E P None c err rest (buf @ ''$'') st"
  by (subst subst_loop.simps) (simp add: subst_step_def)

lemma subst_Val:
  assumes "P c (CHR ''$'' # r @ rest) err st = Some (Val s, Suc (length r), free, st')" "r \<noteq> []" "deref r \<noteq> CHR ''$''"
  shows "subst_loop E P None c err (CHR ''$'' # r @ rest) buf st = subst_loop E P None c err rest (buf @ s) st'"
proof -
  have "deref (r @ rest) = deref r" using assms(2) by (cases r) auto
  then show ?thesis using assms by (subst subst_loop.simps) (simp add: subst_step_def advance_def)
qed

lemma subst_undefined:
  assumes "P c (CHR ''$'' # r @ rest) err st = Some (v, Suc (length r), free, st')" "r \<noteq> []" "deref r \<noteq> CHR ''$''"
    and "v = VarError \<or> v = VarNoError" "oldVars E"
  shows "subst_loop E P None c err (CHR ''$'' # r @ rest) buf st = subst_loop E P None c err rest buf st'"
proof -
  have "deref (r @ rest) = deref r" using assms(2) by (cases r) auto
  then show ?thesis using assms by (subst subst_loop.simps) (auto simp: subst_step_def advance_def undefined_ref_def)
qed

subsection \<open>Modifiers\<close>

definition after_mods :: "char list \<Rightarrow> char \<Rightarrow> cstring \<Rightarrow> cstring" where
  "after_mods ms e rest = (if ms = [] then e # rest else tl (mods_text ms @ e # rest))"

lemma mods_text_simps [simp]: "mods_text [] = []" "mods_text (m # ms) = CHR '':'' # m # mods_text ms"
  by (simp_all add: mods_text_def)

lemma mod_step_word:
  assumes "m \<in> set word_mods" "word_modifier m s = Some w" "me_endc M = CHR ''}'' \<or> me_endc M = CHR '')''"
    and "rf_str rf = Val s" "\<not> rf_lost rf"
  shows "mod_step M len (after_mods (m # ms) (me_endc M) rest) rf st =
           Some (Inr (after_mods ms (me_endc M) rest), rf\<lparr>rf_str := Val w, rf_buffer := None, rf_free := True\<rparr>, unread (rf_buffer rf) st)"
proof -
  have m: "m \<in> set ''QTHEROu''" "m \<notin> set ''DU!NMS?C''" "m \<notin> set ''LP:''" "m \<noteq> CHR ''@''"
    using assms(1) by (auto simp: word_mods_def)
  obtain d r where dr: "mods_text ms @ me_endc M # rest = d # r" "me_end M d"
    by (cases ms) (auto simp: me_end_def)
  have t: "after_mods (m # ms) (me_endc M) rest = m # d # r" using dr by (simp add: after_mods_def)
  have next_t: "(if d = CHR '':'' then r else d # r) = after_mods ms (me_endc M) rest"
    using dr assms(3) by (cases ms) (auto simp: after_mods_def)
  have "m = CHR ''Q'' \<or> m = CHR ''T'' \<or> m = CHR ''H'' \<or> m = CHR ''E'' \<or> m = CHR ''R'' \<or> m = CHR ''O'' \<or> m = CHR ''u''"
    using m(1) by simp
  then have mdf: "modifier M s (m # d # r) st' = Some (Go (d # r) (Some (Val w)) False False, st')" for st'
    using assms(2) dr(2) by (elim disjE) (simp_all add: modifier_def is_assign_def)
  have u: "reads_value (m # d # r) = False" using m(2) by (simp add: reads_value_def)
  have n: "unread None st' = st'" for st' by (simp add: unread_def)
  have "mod_step M len (m # d # r) rf st =
      Some (Inr (if d = CHR '':'' then r else d # r), rf\<lparr>rf_str := Val w, rf_buffer := None, rf_free := True\<rparr>, unread (rf_buffer rf) st)"
    using assms(4,5) by (simp add: mod_step_def u mdf n)
  then show ?thesis unfolding t next_t .
qed

lemma mod_loops_word:
  assumes "set ms \<subseteq> set word_mods" "apply_mods ms s = Some w" "me_endc M = CHR ''}'' \<or> me_endc M = CHR '')''"
    and "rf_str rf = Val s" "\<not> rf_lost rf"
  shows "\<exists>rf' st'. mod_loops M len (after_mods ms (me_endc M) rest) rf st = Some (Inr (me_endc M # rest), rf', st') \<and>
           rf_str rf' = Val w \<and> \<not> rf_lost rf' \<and> unread (rf_buffer rf') st' = unread (rf_buffer rf) st"
  using assms
proof (induction ms arbitrary: s rf st)
  case Nil
  then show ?case by (auto simp: after_mods_def mod_loops.simps)
next
  case (Cons m ms)
  obtain s1 where s1: "word_modifier m s = Some s1" "apply_mods ms s1 = Some w"
    using Cons.prems(2) by (auto simp: bind_eq_Some_conv)
  define rf1 where "rf1 = rf\<lparr>rf_str := Val s1, rf_buffer := None, rf_free := True\<rparr>"
  have step: "mod_step M len (after_mods (m # ms) (me_endc M) rest) rf st =
      Some (Inr (after_mods ms (me_endc M) rest), rf1, unread (rf_buffer rf) st)"
    using mod_step_word[OF _ s1(1) Cons.prems(3-5)] Cons.prems(1) by (auto simp: rf1_def)
  have "m \<in> set word_mods" using Cons.prems(1) by simp
  then have "m \<noteq> me_endc M" using Cons.prems(3) by (auto simp: word_mods_def)
  moreover have "deref (after_mods (m # ms) (me_endc M) rest) = m" by (simp add: after_mods_def)
  ultimately have "mod_loops M len (after_mods (m # ms) (me_endc M) rest) rf st =
      mod_loops M len (after_mods ms (me_endc M) rest) rf1 (unread (rf_buffer rf) st)"
    by (subst mod_loops.simps) (simp add: step)
  then show ?case
    using Cons.IH[OF _ s1(2) Cons.prems(3), of rf1 "unread (rf_buffer rf) st"] Cons.prems(1,5)
    by (auto simp: rf1_def unread_def)
qed

subsection \<open>References\<close>

lemma name_loop_plain:
  assumes "var_chars x" "y \<noteq> []" "deref y = endc \<or> deref y = CHR '':''" "endc = CHR ''}'' \<or> endc = CHR '')''"
  shows "name_loop P c err endc (x @ y) buf st = Some (buf @ x, y, st)"
  using assms(1)
proof (induction x arbitrary: buf)
  case Nil
  then show ?case using assms(2,3) by (auto simp: name_loop.simps)
next
  case (Cons a x)
  then have "a \<noteq> CHR ''$''" "a \<noteq> endc" "a \<noteq> CHR '':''" "var_chars x" using assms(4) by (auto simp: var_chars_def)
  then show ?case using Cons.IH[of "buf @ [a]"] by (subst name_loop.simps) simp
qed

text \<open>What holds of the state inside a text whose references have ranks below \<open>k\<close>.\<close>

definition ranked :: "make_vars \<Rightarrow> (context_id option \<times> cstring \<Rightarrow> nat) \<Rightarrow> nat \<Rightarrow> make_state \<Rightarrow> bool" where
  "ranked m rk k st = (same_store m st \<and> (\<forall>(c, x) \<in> set (in_use (vars st)). k \<le> rk (Some c, x)))"

lemma ranked_quiet [simp]: "ranked m rk k (quiet st) = ranked m rk k st"
  by (simp add: ranked_def quiet_def change_def same_store_def)

lemma VarFind_real: "VarFind E m x c fl = Some v \<Longrightarrow> (\<exists>c x val. v = Stored c x val) \<or> (\<exists>x val. v = FromEnv x val)"
  by (auto simp: VarFind_def in_context_def Let_def split: if_splits option.splits)

lemma expand_value_text:
  assumes v: "(\<exists>c x val. v = Stored c x val) \<or> (\<exists>x val. v = FromEnv x val)"
    and r: "ranked m rk k st" "var_rank rk v < k"
    and sub: "\<And>st'. ranked m rk (var_rank rk v) st' \<Longrightarrow> subst_with E P None (var_text v) c err st' = Some (s, quiet st')"
    and plain: "CHR ''$'' \<notin> set (var_text v) \<Longrightarrow> s = var_text v"
  shows "\<exists>rf st1. expand_value E P c err v st = Some (rf, st1) \<and> rf_str rf = Val s \<and> \<not> rf_lost rf \<and> still st (unread (rf_buffer rf) st1)"
  using v
proof (elim disjE exE)
  fix d x val assume V: "v = Stored d x val"
  have n: "(d, x) \<notin> set (in_use (vars st))" using r V by (auto simp: ranked_def)
  show ?thesis
  proof (cases "CHR ''$'' \<in> set val")
    case True
    define st' where "st' = change (\<lambda>m. m\<lparr>in_use := (d, x) # in_use m, being_read := (d, x) # being_read m\<rparr>) st"
    have "ranked m rk (var_rank rk v) st'"
      using r V by (auto simp: ranked_def st'_def change_def same_store_def)
    then have "subst_with E P None val c err st' = Some (s, quiet st')" using sub V by simp
    moreover have "change (\<lambda>m. m\<lparr>in_use := remove1 (d, x) (in_use m), being_read := remove1 (d, x) (being_read m)\<rparr>) (quiet st') = quiet st"
      by (cases "vars st") (simp add: st'_def change_def quiet_def)
    ultimately show ?thesis using True n V
      by (simp add: expand_value_def st'_def[symmetric] unread_def still_def Let_def)
  next
    case False
    then have "s = val" using plain V by simp
    moreover have "unread (Some (d, x)) (change (\<lambda>m. m\<lparr>being_read := (d, x) # being_read m\<rparr>) st) = st"
      by (cases st; cases "vars st") (simp add: change_def unread_def)
    ultimately show ?thesis using False n V by (simp add: expand_value_def still_def Let_def)
  qed
next
  fix x val assume V: "v = FromEnv x val"
  have "ranked m rk (var_rank rk v) st" using r by (auto simp: ranked_def)
  then show ?thesis using sub plain V by (auto simp: expand_value_def unread_def still_def Let_def)
qed

lemma finish_real:
  assumes "(\<exists>c x val. v = Stored c x val) \<or> (\<exists>x val. v = FromEnv x val)"
  shows "\<exists>free. finish v dyn ref rf un st = Some (rf_str rf, length ref, free, unread (rf_buffer rf) st)"
  using assms by (auto simp: finish_def Let_def)

lemma parse_Ref:
  assumes f: "VarFind E (vars st) x c FIND_ALL = Some v" and x: "var_chars x" and ms: "set ms \<subseteq> set word_mods"
    and e: "expand_value E P c err v st = Some (rf, st1)" "rf_str rf = Val s" "\<not> rf_lost rf" "still st (unread (rf_buffer rf) st1)"
    and w: "apply_mods ms s = Some w"
  shows "\<exists>free st'. parse_body E P c (show_piece (Ref b x ms) @ rest) err st =
           Some (Val w, length (show_piece (Ref b x ms)), free, st') \<and> still st st'"
proof -
  define endc where "endc = closing b"
  define sc where "sc = (if b then CHR ''{'' else CHR ''('')"
  have ec: "endc = CHR ''}'' \<or> endc = CHR '')''" "(if sc = CHR ''('' then CHR '')'' else CHR ''}'') = endc"
    by (auto simp: endc_def closing_def sc_def)
  define y where "y = mods_text ms @ endc # rest"
  define start where "start = CHR ''$'' # sc # x @ y"
  have st0: "show_piece (Ref b x ms) @ rest = start" by (simp add: start_def sc_def y_def endc_def)
  have y: "y \<noteq> []" "deref y = endc \<or> deref y = CHR '':''" by (cases ms; simp add: y_def)+
  have nl: "name_loop P c err endc (x @ y) [] st = Some (x, y, st)" using name_loop_plain[OF x y ec(1), of P c err "[]"] by simp
  have tk: "take (length start - length (endc # rest) + 1) start = show_piece (Ref b x ms)"
  proof -
    have l: "length start - length (endc # rest) + 1 = length (show_piece (Ref b x ms))"
      by (simp add: start_def y_def)
    show ?thesis unfolding l st0[symmetric] by simp
  qed
  have v: "(\<exists>c x val. v = Stored c x val) \<or> (\<exists>x val. v = FromEnv x val)" using VarFind_real[OF f] .
  have fin: "\<exists>free. finish v False (take (length start - length (endc # rest) + 1) start) rf' un st' =
      Some (rf_str rf', length (show_piece (Ref b x ms)), free, unread (rf_buffer rf') st')" for rf' un st'
    unfolding tk by (rule finish_real[OF v])
  have body: "parse_body E P c start err st = modify E P c err sc v False start y st"
  proof -
    have "sc = CHR ''('' \<or> sc = CHR ''{''" by (simp add: sc_def)
    then show ?thesis using f nl y(1) ec(2) by (auto simp: parse_body_def start_def)
  qed
  have "\<exists>free st'. modify E P c err sc v False start y st = Some (Val w, length (show_piece (Ref b x ms)), free, st') \<and> still st st'"
  proof (cases ms)
    case Nil
    then have "y = endc # rest" "endc \<noteq> CHR '':''" "s = w" using ec(1) w by (auto simp: y_def)
    then show ?thesis using e fin[of rf "\<not> rf_free rf" st1] by (auto simp: modify_def)
  next
    case (Cons m ms')
    then have d: "deref y = CHR '':''" "tl y = after_mods ms endc rest" by (simp_all add: y_def after_mods_def)
    define M where "M = \<lparr>me_var = E, me_parse = P, me_ctxt = c, me_err = err, me_startc = sc, me_endc = endc,
                     me_junk = (case v of Junk _ \<Rightarrow> True | _ \<Rightarrow> False), me_name = var_name v\<rparr>"
    have "me_endc M = endc" by (simp add: M_def)
    then obtain rf' st' where "mod_loops M (length start) (after_mods ms endc rest) rf st1 = Some (Inr (endc # rest), rf', st')"
        "rf_str rf' = Val w" "\<not> rf_lost rf'" "unread (rf_buffer rf') st' = unread (rf_buffer rf) st1"
      using mod_loops_word[OF ms w, of M rf "length start" rest st1] ec(1) e(2,3) by auto
    then show ?thesis using e fin[of rf' "\<not> rf_free rf \<and> rf' = rf" st'] d ec(2)
      by (auto simp: modify_def M_def[symmetric])
  qed
  then show ?thesis using body st0 by simp
qed

lemma parse_Short:
  assumes f: "VarFind E (vars st) [a] c FIND_ALL = Some v" and a: "a \<notin> set ''$({''"
    and e: "expand_value E P c err v st = Some (rf, st1)" "rf_str rf = Val s" "\<not> rf_lost rf" "still st (unread (rf_buffer rf) st1)"
  shows "\<exists>free st'. parse_body E P c (show_piece (Short a) @ rest) err st = Some (Val s, 2, free, st') \<and> still st st'"
proof -
  obtain free where "finish v False [CHR ''$'', a] rf (\<not> rf_free rf) st1 = Some (Val s, 2, free, unread (rf_buffer rf) st1)"
    using finish_real[OF VarFind_real[OF f], of False "[CHR ''$'', a]" rf "\<not> rf_free rf" st1] e(2) by auto
  then show ?thesis using f a e by (auto simp: parse_body_def)
qed

lemma parse_undefined:
  assumes f: "VarFind E (vars st) x c FIND_ALL = None" and x: "var_chars x" "\<not> is_dynamic c x" "\<not> is_FD x"
  shows "parse_body E P c (show_piece (Ref b x []) @ rest) err st =
           Some (if err then VarError else VarNoError, length (show_piece (Ref b x [])), False, st)"
proof -
  have "name_loop P c err (closing b) (x @ closing b # rest) [] st = Some (x, closing b # rest, st)"
    using name_loop_plain[OF x(1), of "closing b # rest" "closing b" P c err "[]" st] by (auto simp: closing_def)
  then show ?thesis using f x(2,3) by (cases b) (auto simp: parse_body_def closing_def)
qed

subsection \<open>A text and its meaning\<close>

lemma subst_expands:
  assumes "expands E m c rk k ps s" "ranked m rk k st" "k \<le> n" "quiet st = st"
  shows "subst_loop E (Var_Parse n E) None c err (show_text ps @ rest) buf st =
         subst_loop E (Var_Parse n E) None c err rest (buf @ s) st"
  using assms
proof (induction arbitrary: n st buf rest rule: expands.induct)
  case (expands_Lit s k ps t)
  then show ?case by (simp add: subst_Lit)
next
  case (expands_Dollar k ps t)
  then show ?case by (simp add: subst_Dollar)
next
  case (expands_Short a v k ps' s ps t)
  obtain n' where n: "n = Suc n'" "var_rank rk v \<le> n'" using expands_Short.prems(2) expands_Short.hyps(3) by (cases n) auto
  have f: "VarFind E (vars st) [a] c FIND_ALL = Some v"
    using expands_Short.hyps(1) expands_Short.prems(1) VarFind_cong[of m st E] by (simp add: ranked_def)
  have sub: "subst_with E (Var_Parse n' E) None (var_text v) c err st' = Some (s, quiet st')" if "ranked m rk (var_rank rk v) st'" for st'
    using expands_Short.IH(1)[of "quiet st'" n' "[]" "[]"] that n(2)
    by (simp add: expands_Short.hyps(4) subst_with_def quiet_def[symmetric] subst_loop.simps[of _ _ _ _ _ "[]"])
  have pl: "CHR ''$'' \<notin> set (var_text v) \<Longrightarrow> s = var_text v"
    using expands_plain[OF expands_Short.hyps(5)] expands_Short.hyps(4) by simp
  obtain rf st1 where e: "expand_value E (Var_Parse n' E) c err v st = Some (rf, st1)" "rf_str rf = Val s" "\<not> rf_lost rf"
      "still st (unread (rf_buffer rf) st1)"
    using expand_value_text[OF VarFind_real[OF f] expands_Short.prems(1) expands_Short.hyps(3) sub pl] by blast
  obtain free st' where "parse_body E (Var_Parse n' E) c (show_piece (Short a) @ show_text ps @ rest) err st = Some (Val s, 2, free, st')" "still st st'"
    using parse_Short[OF f expands_Short.hyps(2) e] by blast
  then have "Var_Parse n E c (CHR ''$'' # [a] @ show_text ps @ rest) err st = Some (Val s, Suc (length [a]), free, st)"
    using expands_Short.prems(3) by (auto simp: n still_def)
  then have "subst_loop E (Var_Parse n E) None c err (CHR ''$'' # [a] @ show_text ps @ rest) buf st =
      subst_loop E (Var_Parse n E) None c err (show_text ps @ rest) (buf @ s) st"
    by (rule subst_Val) (use expands_Short.hyps(2) in auto)
  then show ?case using expands_Short.IH(2)[OF expands_Short.prems, of rest "buf @ s"] by simp
next
  case (expands_Ref x v ms k ps' s w ps t b)
  obtain n' where n: "n = Suc n'" "var_rank rk v \<le> n'" using expands_Ref.prems(2) expands_Ref.hyps(4) by (cases n) auto
  have f: "VarFind E (vars st) x c FIND_ALL = Some v"
    using expands_Ref.hyps(1) expands_Ref.prems(1) VarFind_cong[of m st E] by (simp add: ranked_def)
  have sub: "subst_with E (Var_Parse n' E) None (var_text v) c err st' = Some (s, quiet st')" if "ranked m rk (var_rank rk v) st'" for st'
    using expands_Ref.IH(1)[of "quiet st'" n' "[]" "[]"] that n(2)
    by (simp add: expands_Ref.hyps(5) subst_with_def quiet_def[symmetric] subst_loop.simps[of _ _ _ _ _ "[]"])
  have pl: "CHR ''$'' \<notin> set (var_text v) \<Longrightarrow> s = var_text v"
    using expands_plain[OF expands_Ref.hyps(6)] expands_Ref.hyps(5) by simp
  obtain rf st1 where e: "expand_value E (Var_Parse n' E) c err v st = Some (rf, st1)" "rf_str rf = Val s" "\<not> rf_lost rf"
      "still st (unread (rf_buffer rf) st1)"
    using expand_value_text[OF VarFind_real[OF f] expands_Ref.prems(1) expands_Ref.hyps(4) sub pl] by blast
  obtain free st' where "parse_body E (Var_Parse n' E) c (show_piece (Ref b x ms) @ show_text ps @ rest) err st =
      Some (Val w, length (show_piece (Ref b x ms)), free, st')" "still st st'"
    using parse_Ref[OF f expands_Ref.hyps(2,3) e expands_Ref.hyps(7)] by blast
  moreover define r where "r = (if b then CHR ''{'' else CHR ''('') # x @ mods_text ms @ [closing b]"
  ultimately have "Var_Parse n E c (CHR ''$'' # r @ show_text ps @ rest) err st = Some (Val w, Suc (length r), free, st)"
    using expands_Ref.prems(3) by (auto simp: n still_def)
  then have "subst_loop E (Var_Parse n E) None c err (CHR ''$'' # r @ show_text ps @ rest) buf st =
      subst_loop E (Var_Parse n E) None c err (show_text ps @ rest) (buf @ w) st"
    by (rule subst_Val) (simp_all add: r_def)
  then show ?case using expands_Ref.IH(2)[OF expands_Ref.prems, of rest "buf @ w"] by (simp add: r_def)
next
  case (expands_undefined x k ps t b)
  obtain n' where n: "n = Suc n'" using expands_undefined.prems(2) expands_undefined.hyps(6) by (cases n) auto
  have f: "VarFind E (vars st) x c FIND_ALL = None"
    using expands_undefined.hyps(1) expands_undefined.prems(1) VarFind_cong[of m st E] by (simp add: ranked_def)
  define r where "r = (if b then CHR ''{'' else CHR ''('') # x @ [closing b]"
  have "Var_Parse n E c (CHR ''$'' # r @ show_text ps @ rest) err st =
      Some (if err then VarError else VarNoError, Suc (length r), False, st)"
    using parse_undefined[OF f expands_undefined.hyps(2-4), of "Var_Parse n' E" b "show_text ps @ rest" err] by (simp add: n r_def)
  then have "subst_loop E (Var_Parse n E) None c err (CHR ''$'' # r @ show_text ps @ rest) buf st =
      subst_loop E (Var_Parse n E) None c err (show_text ps @ rest) buf st"
    by (rule subst_undefined) (simp_all add: r_def expands_undefined.hyps(5))
  then show ?case using expands_undefined.IH[OF expands_undefined.prems, of rest buf] by (simp add: r_def)
qed simp

text \<open>
  C17. The expansion of a text by \<^verbatim>\<open>Var_Subst\<close> when no variable is being expanded. The text and the values of the
  variables it needs are made of literal parts, of doubled dollar signs, of references with one character, and of
  references in brackets whose name has no dollar sign, colon or bracket, with any number of the modifiers
  \<^verbatim>\<open>:Q\<close>, \<^verbatim>\<open>:T\<close>, \<^verbatim>\<open>:H\<close>, \<^verbatim>\<open>:E\<close>, \<^verbatim>\<open>:R\<close>, \<^verbatim>\<open>:O\<close>, \<^verbatim>\<open>:u\<close> (no others); no variable
  needs itself (ranks). A variable that is not defined is in brackets and has no modifiers, is none of the
  variables of a target, and the mode of old variables is on. Then literal parts are kept, two dollar signs stand for one, a
  reference stands for the expanded value with the modifiers applied in order, an undefined one for nothing; no
  variable is changed and nothing is complained about. A depth of calls of the rank of the text is enough.
\<close>

theorem Var_Subst_expands:
  assumes "expands E (vars st) c rk k ps s" "in_use (vars st) = []" "k \<le> n"
  shows "Var_Subst n E None (show_text ps) c err st = Some (s, st\<lparr>vars := (vars st)\<lparr>errorReported := False\<rparr>\<rparr>)"
proof -
  have "ranked (vars st) rk k (quiet st)" using assms(2) by (simp add: ranked_def same_store_def quiet_def change_def)
  then have "subst_loop E (Var_Parse n E) None c err (show_text ps @ []) [] (quiet st) =
      subst_loop E (Var_Parse n E) None c err [] ([] @ s) (quiet st)"
    by (rule subst_expands[OF assms(1) _ assms(3)]) simp
  then show ?thesis
    by (simp add: Var_Subst_def subst_with_def quiet_def change_def subst_loop.simps[of _ _ _ _ _ "[]"])
qed

end
