(* ===== verification/Varlaws.thy ===== *)
theory Varlaws
  imports Varexpand
begin

text \<open>
  The laws of the variables: where a value is found, what setting, appending and deleting do, and the conditional
  directives over the variables themselves.
\<close>

subsection \<open>Finding\<close>

fun first_of :: "'a option list \<Rightarrow> 'a option" where
  "first_of [] = None"
| "first_of (None # xs) = first_of xs"
| "first_of (Some x # xs) = Some x"

lemma Value_order:
  "Var_Value E m x c =
     first_of ([contexts m c (short_name x), contexts m VAR_CMD (short_name x)] @
               (if checkEnvFirst E then [environ m (short_name x), contexts m VAR_GLOBAL (short_name x)]
                else [contexts m VAR_GLOBAL (short_name x), environ m (short_name x)]))"
  by (cases "contexts m c (short_name x)"; cases "contexts m VAR_CMD (short_name x)";
      cases "contexts m VAR_GLOBAL (short_name x)"; cases "environ m (short_name x)"; cases c)
     (simp_all add: Var_Value_def VarFind_def FIND_ALL_def in_context_def Let_def)

subsection \<open>Setting, appending, deleting\<close>

definition plain_name :: "cstring \<Rightarrow> bool" where
  "plain_name x = (CHR ''$'' \<notin> set x \<and> short_name x = x)"

lemma VarFind_own: "short_name x = x \<Longrightarrow> VarFind E m x c [] = map_option (Stored c x) (contexts m c x)"
  by (simp add: VarFind_def in_context_def)

lemma set_named_global:
  assumes "short_name x = x" "(c, x) \<notin> set (being_read m)" "c \<noteq> VAR_CMD \<or> no_export"
  shows "set_named E x w c no_export m = Some (put_var c x w m)"
  using assms by (cases "contexts m c x") (auto simp: set_named_def VarFind_own VarAdd_def overwrite_def)

lemma Var_Set_plain:
  assumes "plain_name x" "(c, x) \<notin> set (being_read (vars st))" "c \<noteq> VAR_CMD \<or> no_export"
  shows "Var_Set n E x w c no_export st = Some (st\<lparr>vars := put_var c x w (vars st)\<rparr>)"
  using assms set_named_global[of x c "vars st" no_export E w]
  by (simp add: Var_Set_def set_with_def expand_name_def plain_name_def change_opt_def)

lemma put_var_contexts: "contexts (put_var c x w m) d = (if d = c then (contexts m c)(x \<mapsto> w) else contexts m d)"
    "environ (put_var c x w m) = environ m"
  by (simp_all add: put_var_def)

lemma set_append_value:
  assumes "plain_name x" "(c, x) \<notin> set (being_read (vars st))" "c \<noteq> VAR_CMD"
  shows "\<exists>st'. Var_Set n E x w c no_export st = Some st' \<and> Var_Value E (vars st') x c = Some w \<and>
           (\<forall>y d. short_name y \<noteq> x \<longrightarrow> Var_Value E (vars st') y d = Var_Value E (vars st) y d)"
    and "\<exists>st'. Var_Append n E x w c st = Some st' \<and>
           Var_Value E (vars st') x c =
             Some (case first_of [contexts (vars st) c x, if c = VAR_GLOBAL then environ (vars st) x else None] of
                     None \<Rightarrow> w | Some v \<Rightarrow> v @ '' '' @ w) \<and>
           (\<forall>y d. short_name y \<noteq> x \<longrightarrow> Var_Value E (vars st') y d = Var_Value E (vars st) y d)"
proof -
  have sx: "short_name x = x" "CHR ''$'' \<notin> set x" using assms(1) by (simp_all add: plain_name_def)
  have put: "Var_Value E (put_var c x u (vars st)) x c = Some u"
      "short_name y \<noteq> x \<Longrightarrow> Var_Value E (put_var c x u (vars st)) y d = Var_Value E (vars st) y d" for u y d
    by (simp_all add: Value_order put_var_contexts sx(1))
  show "\<exists>st'. Var_Set n E x w c no_export st = Some st' \<and> Var_Value E (vars st') x c = Some w \<and>
           (\<forall>y d. short_name y \<noteq> x \<longrightarrow> Var_Value E (vars st') y d = Var_Value E (vars st) y d)"
    using Var_Set_plain[OF assms(1,2)] assms(3) put by simp
  define u where "u = (case first_of [contexts (vars st) c x, if c = VAR_GLOBAL then environ (vars st) x else None] of
                     None \<Rightarrow> w | Some v \<Rightarrow> v @ '' '' @ w)"
  have "append_named E x w c (vars st) = Some (put_var c x u (vars st))"
    using assms(2) sx(1)
    by (cases "contexts (vars st) c x"; cases "environ (vars st) x")
       (auto simp: append_named_def VarFind_def in_context_def overwrite_def VarAdd_def u_def Let_def)
  then have "Var_Append n E x w c st = Some (st\<lparr>vars := put_var c x u (vars st)\<rparr>)"
    using sx(2) by (simp add: Var_Append_def append_with_def expand_name_def change_opt_def)
  then show "\<exists>st'. Var_Append n E x w c st = Some st' \<and>
           Var_Value E (vars st') x c =
             Some (case first_of [contexts (vars st) c x, if c = VAR_GLOBAL then environ (vars st) x else None] of
                     None \<Rightarrow> w | Some v \<Rightarrow> v @ '' '' @ w) \<and>
           (\<forall>y d. short_name y \<noteq> x \<longrightarrow> Var_Value E (vars st') y d = Var_Value E (vars st) y d)"
    using put unfolding u_def[symmetric] by simp
qed


text \<open>A variable that is set under a long name of a target variable is never found.\<close>

theorem long_name_lost:
  assumes "(x, y) \<in> set local_names" "contexts (vars st) c y = None"
  shows "\<exists>st'. Var_Set n E x w c True st = Some st' \<and> contexts (vars st') c x = Some w \<and>
               Var_Value E (vars st') x d = Var_Value E (vars st) x d"
proof -
  have xy: "short_name x = y" "CHR ''$'' \<notin> set x" "y \<noteq> x" using assms(1) by (auto simp: local_names_def short_name_def)
  have "set_named E x w c True (vars st) = Some (put_var c x w (vars st))"
    using assms(2) xy(1) by (simp add: set_named_def VarFind_def in_context_def VarAdd_def)
  then have "Var_Set n E x w c True st = Some (st\<lparr>vars := put_var c x w (vars st)\<rparr>)"
    using xy(2) by (simp add: Var_Set_def set_with_def expand_name_def change_opt_def)
  then show ?thesis using xy by (simp add: Value_order put_var_contexts)
qed

subsection \<open>Conditions over the variables\<close>

text \<open>The conditional directives with \<^verbatim>\<open>Var_Parse\<close> and \<^verbatim>\<open>Var_Value\<close> themselves.\<close>

definition real_env :: "nat \<Rightarrow> var_env \<Rightarrow> make_vars cond_env" where
  "real_env n E = env_with E (Var_Parse n E)"

lemma real_reads_var:
  assumes "var_chars x" "in_use v = []" "Var_Value E v x VAR_CMD = Some w" "CHR ''$'' \<notin> set w"
  shows "reads_var (real_env (Suc n) E) v x w"
  unfolding reads_var_def
proof (intro allI impI)
  fix st :: make_state and s err
  assume st: "vars st = v"
  obtain var where var: "VarFind E (vars st) x VAR_CMD FIND_ALL = Some var" "var_text var = w"
    using assms(3) st by (auto simp: Var_Value_def)
  note real = VarFind_real[OF var(1)]
  define rk :: "context_id option \<times> cstring \<Rightarrow> nat" where "rk = (\<lambda>_. 0)"
  have nd: "\<exists>rf st1. expand_value E (Var_Parse n E) VAR_CMD err var st = Some (rf, st1) \<and> rf_str rf = Val w \<and>
      \<not> rf_lost rf \<and> unread (rf_buffer rf) st1 = st"
    using real
  proof (elim disjE exE)
    fix d y val assume V: "var = Stored d y val"
    have "unread (Some (d, y)) (change (\<lambda>m. m\<lparr>being_read := (d, y) # being_read m\<rparr>) st) = st"
      by (cases st; cases "vars st") (simp add: change_def unread_def)
    then show ?thesis using V var(2) assms(2,4) st by (simp add: expand_value_def Let_def)
  next
    fix y val assume "var = FromEnv y val"
    then show ?thesis using var(2) assms(4) by (simp add: expand_value_def Let_def unread_def)
  qed
  then obtain rf st1 where e: "expand_value E (Var_Parse n E) VAR_CMD err var st = Some (rf, st1)" "rf_str rf = Val w"
      "\<not> rf_lost rf" "unread (rf_buffer rf) st1 = st" by blast
  define y where "y = CHR ''}'' # s"
  have nl: "name_loop (Var_Parse n E) VAR_CMD err CHR ''}'' (x @ y) [] st = Some (x, y, st)"
    using name_loop_plain[OF assms(1), of y "CHR ''}''" "Var_Parse n E" VAR_CMD err "[]" st] by (simp add: y_def)
  have "\<exists>free. Var_Parse (Suc n) E VAR_CMD (''${'' @ x @ y) err st = Some (Val w, length x + 3, free, st)"
  proof -
    obtain free where "finish var False (''${'' @ x @ ''}'') rf (\<not> rf_free rf) st1 = Some (Val w, length x + 3, free, st)"
      using finish_real[OF real, of False "''${'' @ x @ ''}''" rf "\<not> rf_free rf" st1] e(2,4) by auto
    then show ?thesis using nl var(1) e(1) by (simp add: parse_body_def modify_def y_def)
  qed
  then show "var_parse (real_env (Suc n) E) st (''${'' @ x @ ''}'' @ s) err = Some (Some w, length x + 3, st)"
    by (auto simp: real_env_def env_with_def parse_for_cond_def y_def)
qed

text \<open>The hypotheses of a condition on the variables: those it compares have plain values.\<close>

fun plain_bexp :: "var_env \<Rightarrow> make_vars \<Rightarrow> bexp \<Rightarrow> bool" where
  "plain_bexp E v (Sym s) = symbol s"
| "plain_bexp E v (Call g a) = (plain_arg a \<and> g \<noteq> CondDoMake)"
| "plain_bexp E v (Is x eq s) =
     (plain_text s \<and> var_chars x \<and> (case Var_Value E v x VAR_CMD of None \<Rightarrow> False | Some w \<Rightarrow> CHR ''$'' \<notin> set w))"
| "plain_bexp E v (Neg b) = plain_bexp E v b"
| "plain_bexp E v (Conj a b) = (plain_bexp E v a \<and> plain_bexp E v b)"
| "plain_bexp E v (Disj a b) = (plain_bexp E v a \<and> plain_bexp E v b)"

fun var_bexp :: "var_env \<Rightarrow> make_vars \<Rightarrow> bexp \<Rightarrow> bool" where
  "var_bexp E v (Sym s) = (Var_Value E v s VAR_CMD \<noteq> None)"
| "var_bexp E v (Call g a) =
     (case g of
        CondDoDefined \<Rightarrow> Var_Value E v a VAR_CMD \<noteq> None
      | CondDoMake \<Rightarrow> False
      | CondDoExists \<Rightarrow> cond_file E a \<noteq> None
      | CondDoTarget \<Rightarrow> (case cond_node E a of None \<Rightarrow> False | Some gn \<Rightarrow> \<not> OP_NOP (target_type gn))
      | CondDoCommands \<Rightarrow> (case cond_node E a of None \<Rightarrow> False | Some gn \<Rightarrow> \<not> OP_NOP (target_type gn) \<and> target_commands gn \<noteq> []))"
| "var_bexp E v (Is x eq s) = ((Var_Value E v x VAR_CMD = Some s) = eq)"
| "var_bexp E v (Neg b) = (\<not> var_bexp E v b)"
| "var_bexp E v (Conj a b) = (var_bexp E v a \<and> var_bexp E v b)"
| "var_bexp E v (Disj a b) = (var_bexp E v a \<or> var_bexp E v b)"

lemma real_env_fields [simp]:
  "var_value (real_env n E) v x = Var_Value E v x VAR_CMD" "find_file (real_env n E) = cond_file E"
  "find_node (real_env n E) = cond_node E" "created (real_env n E) = cond_created E"
  by (simp_all add: real_env_def env_with_def)

lemma real_cond_do:
  "cond_do (real_env n E) CondDoDefined (cond_start v) a = Some (Var_Value E v a VAR_CMD \<noteq> None)"
  "cond_do (real_env n E) CondDoExists (cond_start v) a = Some (cond_file E a \<noteq> None)"
  "cond_do (real_env n E) CondDoTarget (cond_start v) a =
     Some (case cond_node E a of None \<Rightarrow> False | Some gn \<Rightarrow> \<not> OP_NOP (target_type gn))"
  "cond_do (real_env n E) CondDoCommands (cond_start v) a =
     Some (case cond_node E a of None \<Rightarrow> False | Some gn \<Rightarrow> \<not> OP_NOP (target_type gn) \<and> target_commands gn \<noteq> [])"
  by (simp_all add: cond_start_def)

lemma plain_wf: "in_use v = [] \<Longrightarrow> plain_bexp E v b \<Longrightarrow> wf_c (real_env (Suc n) E) CondDoDefined v b"
proof (induction b)
  case (Call g a)
  then show ?case by (cases g) (simp_all add: real_cond_do)
next
  case (Is x eq s)
  then show ?case
    using real_reads_var[of x v E _ n] by (auto split: option.splits)
qed (simp_all add: real_cond_do)

lemma plain_beval: "plain_bexp E v b \<Longrightarrow> beval (real_env n E) CondDoDefined False v b = var_bexp E v b"
proof (induction b)
  case (Call g a)
  then show ?case by (cases g) (simp_all add: cond_start_def)
qed (simp_all add: cond_start_def)

text \<open>
  C19. The directive \<^verbatim>\<open>.if\<close> with the variables of the program, when no variable is being expanded. The condition
  is made by negation, conjunction and disjunction from names, from \<^verbatim>\<open>defined\<close>, \<^verbatim>\<open>exists\<close>,
  \<^verbatim>\<open>target\<close> and \<^verbatim>\<open>commands\<close> (not \<^verbatim>\<open>make\<close> and \<^verbatim>\<open>empty\<close>), and from comparisons of a
  variable in braces with a quoted text for equality; the variables compared are defined and their values have no
  dollar sign; texts have no quote, backslash or dollar sign; arguments and names no dollar sign, blank, bar, ampersand
  or closing parenthesis; names do not begin like a function, a parenthesis or a negation. Then the evaluation succeeds, its result is the value of the condition for the values
  that \<^verbatim>\<open>Var_Value\<close> finds on the command line, in the makefile and in the environment, and no variable is changed
  and nothing is complained about.
\<close>

theorem condition_on_variables:
  assumes "plain_bexp E (vars st) b" "in_use (vars st) = []"
  shows "\<exists>st'. Cond_EvalExpression (real_env (Suc n) E) True (show_c NE b) ep st =
           Some (COND_PARSE, Some (var_bexp E (vars st) b), st') \<and> vars st' = vars st \<and> messages st' = messages st"
proof -
  obtain st' where "Cond_EvalExpression (real_env (Suc n) E) True (show_c NE b) ep st =
           Some (COND_PARSE, Some (beval (real_env (Suc n) E) CondDoDefined False (vars st) b), st')"
      "st' = st\<lparr>condExpr := condExpr st', condPushed := TNone, lines := lines st + 1, condDefProc := CondDoDefined, condInvert := False\<rparr>"
    using expression_value[OF plain_wf[OF assms(2,1)], of True st False n ep] by auto
  moreover have "vars st' = vars st" "messages st' = messages st"
    using arg_cong[OF calculation(2), of vars] arg_cong[OF calculation(2), of messages] by simp_all
  ultimately show ?thesis using plain_beval[OF assms(1)] by auto
qed

end
