(* ===== verification/Varloop.thy ===== *)
theory Varloop
  imports Varlaws Forloop
begin

text \<open>
  The loops of \<^verbatim>\<open>for.c\<close> with the variables of the program: \<^verbatim>\<open>Var_Subst\<close> for one
  variable, and the body of a loop for every word.
\<close>

subsection \<open>Replacing one variable\<close>

text \<open>What is put in the place of a piece: the value of \<open>x\<close> is \<open>w\<close>, everything else is left as it is.\<close>

fun subst_piece :: "cstring \<Rightarrow> cstring \<Rightarrow> piece \<Rightarrow> cstring option" where
  "subst_piece x w (Short a) = Some (if x = [a] then w else show_piece (Short a))"
| "subst_piece x w (Ref b y ms) = (if y = x then apply_mods ms w else Some (show_piece (Ref b y ms)))"
| "subst_piece x w p = Some (show_piece p)"

fun subst_text :: "cstring \<Rightarrow> cstring \<Rightarrow> piece list \<Rightarrow> cstring option" where
  "subst_text x w [] = Some []"
| "subst_text x w (p # ps) = do { s \<leftarrow> subst_piece x w p; t \<leftarrow> subst_text x w ps; Some (s @ t) }"

fun piece_ok :: "piece \<Rightarrow> bool" where
  "piece_ok (Lit s) = (CHR ''$'' \<notin> set s)"
| "piece_ok Dollar = True"
| "piece_ok (Short a) = (a \<notin> set ''$({'')"
| "piece_ok (Ref b y ms) = (var_chars y \<and> set ms \<subseteq> set word_mods)"

lemma subst_skip:
  "subst_loop E P v c err rest buf st =
   subst_loop E P v c err (dropWhile (\<lambda>c. c \<noteq> CHR ''$'') rest) (buf @ takeWhile (\<lambda>c. c \<noteq> CHR ''$'') rest) st"
proof (cases "rest = [] \<or> deref rest = CHR ''$''")
  case True
  then show ?thesis by (cases rest) auto
next
  case False
  then show ?thesis by (subst subst_loop.simps) (simp add: subst_step_def)
qed

lemma skip_plain:
  assumes "CHR ''$'' \<notin> set s"
  shows "subst_loop E P v c err (dropWhile (\<lambda>c. c \<noteq> CHR ''$'') (s @ rest)) (buf @ takeWhile (\<lambda>c. c \<noteq> CHR ''$'') (s @ rest)) st =
         subst_loop E P v c err rest (buf @ s) st"
proof -
  have "takeWhile (\<lambda>c. c \<noteq> CHR ''$'') (s @ rest) = s @ takeWhile (\<lambda>c. c \<noteq> CHR ''$'') rest"
      "dropWhile (\<lambda>c. c \<noteq> CHR ''$'') (s @ rest) = dropWhile (\<lambda>c. c \<noteq> CHR ''$'') rest"
    using assms by (auto intro!: takeWhile_append2 dropWhile_append2)
  then show ?thesis using subst_skip[of E P v c err rest "buf @ s" st] by simp
qed

lemma mods_no_dollar: "set ms \<subseteq> set word_mods \<Longrightarrow> CHR ''$'' \<notin> set (mods_text ms)"
  by (induction ms) (auto simp: word_mods_def)

lemma ref_name:
  assumes "var_chars y"
  shows "takeWhile (\<lambda>c. c \<notin> set '':)}$'') (y @ mods_text ms @ closing b # rest) = y"
proof -
  have "y @ mods_text ms @ closing b # rest = y @ (mods_text ms @ closing b # rest)" by simp
  moreover have "takeWhile (\<lambda>c. c \<notin> set '':)}$'') (mods_text ms @ closing b # rest) = []"
    by (cases ms) (simp_all add: closing_def)
  moreover have "\<forall>c \<in> set y. c \<notin> set '':)}$''" using assms by (auto simp: var_chars_def)
  ultimately show ?thesis by (simp add: takeWhile_append2)
qed

lemma find_bracket:
  assumes "sc = CHR ''('' \<or> sc = CHR ''{''" "takeWhile (\<lambda>c. c \<notin> set '':)}$'') (y @ q) = y" "deref q \<noteq> CHR ''$''"
  shows "find_ref x (CHR ''$'' # sc # y @ q) buf =
     (if y = x then Some (True, CHR ''$'' # sc # y @ q, buf)
      else Some (False, dropWhile (\<lambda>c. c \<noteq> CHR ''$'') q, buf @ [CHR ''$'', sc] @ y @ takeWhile (\<lambda>c. c \<noteq> CHR ''$'') q))"
proof -
  have "drop 2 (CHR ''$'' # sc # y @ q) = y @ q" "take 2 (CHR ''$'' # sc # y @ q) = [CHR ''$'', sc]"
      "deref (tl (CHR ''$'' # sc # y @ q)) = sc" by simp_all
  then show ?thesis using assms by (subst find_ref.simps) (simp only: Let_def, auto)
qed

lemma find_Ref:
  assumes "var_chars y"
  shows "find_ref x (show_piece (Ref b y ms) @ rest) buf =
     (if y = x then Some (True, show_piece (Ref b y ms) @ rest, buf)
      else let p = mods_text ms @ closing b # rest in
           Some (False, dropWhile (\<lambda>c. c \<noteq> CHR ''$'') p, buf @ [CHR ''$'', if b then CHR ''{'' else CHR ''(''] @ y @ takeWhile (\<lambda>c. c \<noteq> CHR ''$'') p))"
proof -
  define q where "q = mods_text ms @ closing b # rest"
  have d: "deref q \<noteq> CHR ''$''" by (cases ms) (simp_all add: closing_def q_def)
  have t: "show_piece (Ref b y ms) @ rest = CHR ''$'' # (if b then CHR ''{'' else CHR ''('') # y @ q" by (simp add: q_def)
  have n: "takeWhile (\<lambda>c. c \<notin> set '':)}$'') (y @ q) = y" using ref_name[OF assms, of ms b rest] by (simp only: q_def)
  have sc: "(if b then CHR ''{'' else CHR ''('') = CHR ''('' \<or> (if b then CHR ''{'' else CHR ''('') = CHR ''{''" by simp
  show ?thesis unfolding t using find_bracket[OF sc n d, of x buf] by (simp only: q_def[symmetric] Let_def)
qed

lemma subst_Ref_other:
  assumes "piece_ok (Ref b y ms)" "y \<noteq> x"
  shows "subst_loop E P (Some x) c err (show_piece (Ref b y ms) @ rest) buf st =
         subst_loop E P (Some x) c err rest (buf @ show_piece (Ref b y ms)) st"
proof -
  define p where "p = mods_text ms @ [closing b]"
  have p: "CHR ''$'' \<notin> set p" using mods_no_dollar assms(1) by (auto simp: p_def closing_def)
  define q where "q = [CHR ''$'', if b then CHR ''{'' else CHR ''(''] @ y"
  have q: "q @ p = show_piece (Ref b y ms)" by (simp add: q_def p_def)
  have "find_ref x (show_piece (Ref b y ms) @ rest) buf =
      Some (False, dropWhile (\<lambda>c. c \<noteq> CHR ''$'') (p @ rest), (buf @ q) @ takeWhile (\<lambda>c. c \<noteq> CHR ''$'') (p @ rest))"
    using find_Ref[of y x b ms rest buf] assms by (simp add: Let_def p_def q_def)
  moreover have "deref (show_piece (Ref b y ms) @ rest) = CHR ''$''" "show_piece (Ref b y ms) @ rest \<noteq> []" by simp_all
  ultimately have "subst_step E P (Some x) c err (show_piece (Ref b y ms) @ rest) buf st =
      Some (dropWhile (\<lambda>c. c \<noteq> CHR ''$'') (p @ rest), (buf @ q) @ takeWhile (\<lambda>c. c \<noteq> CHR ''$'') (p @ rest), st)"
    by (simp add: subst_step_def)
  then have "subst_loop E P (Some x) c err (show_piece (Ref b y ms) @ rest) buf st =
      subst_loop E P (Some x) c err (dropWhile (\<lambda>c. c \<noteq> CHR ''$'') (p @ rest)) ((buf @ q) @ takeWhile (\<lambda>c. c \<noteq> CHR ''$'') (p @ rest)) st"
    by (subst subst_loop.simps) simp
  also have "\<dots> = subst_loop E P (Some x) c err rest ((buf @ q) @ p) st" by (rule skip_plain[OF p])
  finally show ?thesis using q by (metis append.assoc)
qed

lemma subst_two:
  assumes "a \<noteq> CHR ''(''" "a \<noteq> CHR ''{''" "x \<noteq> [a]" "x \<noteq> []"
  shows "subst_loop E P (Some x) c err (CHR ''$'' # a # rest) buf st = subst_loop E P (Some x) c err rest (buf @ [CHR ''$'', a]) st"
proof -
  have "a \<noteq> deref x \<or> 1 < length x" using assms(3,4) by (cases x; cases "tl x") auto
  then have "find_ref x (CHR ''$'' # a # rest) buf = Some (False, rest, buf @ [CHR ''$'', a])"
    using assms by (subst find_ref.simps) (simp add: advance_def)
  then show ?thesis by (subst subst_loop.simps) (simp add: subst_step_def)
qed

lemma subst_found:
  assumes "find_ref x (CHR ''$'' # r @ rest) buf = Some (True, CHR ''$'' # r @ rest, buf)"
    and "P c (CHR ''$'' # r @ rest) err st = Some (Val s, Suc (length r), free, st')"
  shows "subst_loop E P (Some x) c err (CHR ''$'' # r @ rest) buf st = subst_loop E P (Some x) c err rest (buf @ s) st'"
  using assms by (subst subst_loop.simps) (simp add: subst_step_def advance_def)

text \<open>A stored variable with a plain value.\<close>

lemma expand_plain_stored:
  assumes "VarFind E (vars st) x c FIND_ALL = Some (Stored d y w)" "CHR ''$'' \<notin> set w" "in_use (vars st) = []"
  shows "\<exists>rf st1. expand_value E P c err (Stored d y w) st = Some (rf, st1) \<and> rf_str rf = Val w \<and> \<not> rf_lost rf \<and>
           still st (unread (rf_buffer rf) st1)"
proof -
  have "unread (Some (d, y)) (change (\<lambda>m. m\<lparr>being_read := (d, y) # being_read m\<rparr>) st) = st"
    by (cases st; cases "vars st") (simp add: change_def unread_def)
  then show ?thesis using assms(2,3) by (simp add: expand_value_def still_def Let_def)
qed

lemma subst_one:
  assumes "list_all piece_ok ps" "subst_text x w ps = Some t" "x \<noteq> []"
    and "VarFind E (vars st) x c FIND_ALL = Some (Stored d y w)" "CHR ''$'' \<notin> set w" "in_use (vars st) = []" "quiet st = st" "var_chars x"
  shows "subst_loop E (Var_Parse (Suc n) E) (Some x) c err (show_text ps @ rest) buf st =
         subst_loop E (Var_Parse (Suc n) E) (Some x) c err rest (buf @ t) st"
  using assms(1,2)
proof (induction ps arbitrary: t buf)
  case (Cons p ps)
  obtain s u where su: "subst_piece x w p = Some s" "subst_text x w ps = Some u" "t = s @ u"
    using Cons.prems(2) by (auto simp: bind_eq_Some_conv)
  have "subst_loop E (Var_Parse (Suc n) E) (Some x) c err (show_piece p @ show_text ps @ rest) buf st =
        subst_loop E (Var_Parse (Suc n) E) (Some x) c err (show_text ps @ rest) (buf @ s) st"
  proof (cases p)
    case (Lit l)
    then have "CHR ''$'' \<notin> set l" "s = l" using Cons.prems(1) su(1) by auto
    then show ?thesis using subst_skip[of E _ "Some x" c err "l @ show_text ps @ rest" buf st] skip_plain[of l] Lit by simp
  next
    case Dollar
    have "x \<noteq> ''$''" using assms(8) by (auto simp: var_chars_def)
    moreover have "s = ''$$''" using su(1) Dollar by simp
    ultimately show ?thesis using subst_two[of "CHR ''$''" x E "Var_Parse (Suc n) E" c err "show_text ps @ rest" buf st] Dollar assms(3)
      by (simp del: Var_Parse.simps)
  next
    case (Short a)
    then have a: "a \<notin> set ''$({''" using Cons.prems(1) by simp
    show ?thesis
    proof (cases "x = [a]")
      case False
      moreover have "s = [CHR ''$'', a]" using su(1) Short False by simp
      ultimately show ?thesis
        using subst_two[of a x E "Var_Parse (Suc n) E" c err "show_text ps @ rest" buf st] Short assms(3) a
        by (simp del: Var_Parse.simps)
    next
      case True
      obtain rf st1 where e: "expand_value E (Var_Parse n E) c err (Stored d y w) st = Some (rf, st1)" "rf_str rf = Val w"
          "\<not> rf_lost rf" "still st (unread (rf_buffer rf) st1)"
        using expand_plain_stored[OF assms(4-6)] by blast
      have fv: "VarFind E (vars st) [a] c FIND_ALL = Some (Stored d y w)" using assms(4) True by simp
      obtain free st' where "parse_body E (Var_Parse n E) c (show_piece (Short a) @ show_text ps @ rest) err st = Some (Val w, 2, free, st')"
          "still st st'"
        using parse_Short[OF fv a e, of "show_text ps @ rest"] by blast
      then have "Var_Parse (Suc n) E c (CHR ''$'' # [a] @ show_text ps @ rest) err st = Some (Val w, Suc (length [a]), free, st)"
        using assms(7) by (auto simp: still_def)
      moreover have "find_ref x (CHR ''$'' # [a] @ show_text ps @ rest) buf = Some (True, CHR ''$'' # [a] @ show_text ps @ rest, buf)"
        using True a by (subst find_ref.simps) simp
      ultimately show ?thesis using subst_found[of x "[a]" "show_text ps @ rest" buf "Var_Parse (Suc n) E" c err st w free st E] Short True su(1) by simp
    qed
  next
    case (Ref b z ms)
    then have ok: "piece_ok (Ref b z ms)" using Cons.prems(1) by simp
    show ?thesis
    proof (cases "z = x")
      case False
      then have "s = show_piece (Ref b z ms)" using su(1) Ref by simp
      then show ?thesis
        using subst_Ref_other[OF ok False, of E "Var_Parse (Suc n) E" c err "show_text ps @ rest" buf st] Ref by (simp only: append.assoc)
    next
      case True
      have z: "var_chars x" "set ms \<subseteq> set word_mods" "apply_mods ms w = Some s" using ok True Ref su(1) by auto
      obtain rf st1 where e: "expand_value E (Var_Parse n E) c err (Stored d y w) st = Some (rf, st1)" "rf_str rf = Val w"
          "\<not> rf_lost rf" "still st (unread (rf_buffer rf) st1)"
        using expand_plain_stored[OF assms(4-6)] by blast
      define r where "r = (if b then CHR ''{'' else CHR ''('') # x @ mods_text ms @ [closing b]"
      have sr: "show_piece (Ref b x ms) = CHR ''$'' # r" by (simp add: r_def)
      obtain free st' where "parse_body E (Var_Parse n E) c (show_piece (Ref b x ms) @ show_text ps @ rest) err st =
          Some (Val s, length (show_piece (Ref b x ms)), free, st')" "still st st'"
        using parse_Ref[OF assms(4) z(1,2) e z(3)] by blast
      then have "Var_Parse (Suc n) E c (CHR ''$'' # r @ show_text ps @ rest) err st = Some (Val s, Suc (length r), free, st)"
        using assms(7) by (auto simp: still_def sr simp del: show_piece.simps)
      moreover have "find_ref x (CHR ''$'' # r @ show_text ps @ rest) buf = Some (True, CHR ''$'' # r @ show_text ps @ rest, buf)"
        using find_Ref[OF z(1), of x b ms "show_text ps @ rest" buf] by (simp only: sr append_Cons simp_thms if_True)
      ultimately show ?thesis
        using subst_found[of x r "show_text ps @ rest" buf "Var_Parse (Suc n) E" c err st s free st E] True Ref sr
        by (simp del: show_piece.simps)
    qed
  qed
  then show ?case using Cons.IH[OF _ su(2), of "buf @ s"] Cons.prems(1) su(3) by simp
qed simp

subsection \<open>Loops over the variables\<close>

text \<open>The reader of makefiles with the variables of the program; for loops use the global context.\<close>

definition real_reader :: "nat \<Rightarrow> var_env \<Rightarrow> make_vars read_env" where
  "real_reader n E =
     \<lparr>cenv = real_env n E,
      var_subst = (\<lambda>x s cs. Var_Subst n E x s VAR_GLOBAL False cs),
      var_set = (\<lambda>x w cs. Var_Set n E x w VAR_GLOBAL False cs),
      var_delete = (\<lambda>x cs. change_opt (Var_Delete x VAR_GLOBAL) cs)\<rparr>"

lemma put_then_delete:
  "contexts m c x = None \<Longrightarrow> (c, x) \<notin> set (being_read m) \<Longrightarrow> Var_Delete x c (put_var c x w m) = Some m"
  by (cases m) (auto simp: Var_Delete_def put_var_def fun_eq_iff)

lemma real_replaces:
  assumes x: "plain_name x" "var_chars x" "x \<noteq> []" and w: "CHR ''$'' \<notin> set w"
    and ps: "list_all piece_ok ps" "subst_text x w ps = Some t"
    and cs: "contexts (vars cs) VAR_GLOBAL x = None" "being_read (vars cs) = []" "in_use (vars cs) = []" "\<not> errorReported (vars cs)"
  shows "replaces (real_reader (Suc n) E) x (show_text ps) cs (\<lambda>_. t) w"
proof -
  define cs1 where "cs1 = cs\<lparr>vars := put_var VAR_GLOBAL x w (vars cs)\<rparr>"
  have set_x: "Var_Set (Suc n) E x w VAR_GLOBAL False cs = Some cs1"
    using Var_Set_plain[OF x(1), of VAR_GLOBAL cs False "Suc n" E w] cs(2) by (simp add: cs1_def)
  have q: "quiet cs1 = cs1" using cs(4) by (cases cs; cases "vars cs") (simp add: quiet_def change_def cs1_def put_var_def)
  have f: "VarFind E (vars cs1) x VAR_GLOBAL FIND_ALL = Some (Stored VAR_GLOBAL x w)"
    using x(1) by (simp add: cs1_def VarFind_def in_context_def put_var_contexts plain_name_def Let_def)
  have u: "in_use (vars cs1) = []" using cs(3) by (simp add: cs1_def put_var_def)
  have "subst_loop E (Var_Parse (Suc n) E) (Some x) VAR_GLOBAL False (show_text ps @ []) [] cs1 =
        subst_loop E (Var_Parse (Suc n) E) (Some x) VAR_GLOBAL False [] ([] @ t) cs1"
    by (rule subst_one[OF ps x(3) f w u q x(2)])
  then have "Var_Subst (Suc n) E (Some x) (show_text ps) VAR_GLOBAL False cs1 = Some (t, cs1)"
    using q by (simp add: Var_Subst_def subst_with_def quiet_def[symmetric] subst_loop.simps[of _ _ _ _ _ "[]"] del: Var_Parse.simps)
  moreover have "change_opt (Var_Delete x VAR_GLOBAL) cs1 = Some cs"
    using put_then_delete[of "vars cs" VAR_GLOBAL x w] cs(1,2) by (simp add: change_opt_def cs1_def)
  ultimately show ?thesis using set_x by (auto simp: replaces_def real_reader_def)
qed


subsection \<open>Conditional blocks\<close>

text \<open>The variables of the program after the name of the file was set, and without it.\<close>

definition enter_vars :: "cstring \<Rightarrow> make_vars \<Rightarrow> make_vars" where
  "enter_vars name v = enter_file (put_var VAR_GLOBAL) name v"

definition without :: "cstring \<Rightarrow> make_vars \<Rightarrow> make_vars" where
  "without x v = v\<lparr>contexts := (contexts v)(VAR_GLOBAL := (contexts v VAR_GLOBAL)(x := None))\<rparr>"

lemma put_var_being_read [simp]: "being_read (put_var c x w v) = being_read v" "in_use (put_var c x w v) = in_use v"
  by (simp_all add: put_var_def)

lemma delete_unread: "being_read v = [] \<Longrightarrow> Var_Delete x VAR_GLOBAL v = Some (without x v)"
  by (cases v) (auto simp: Var_Delete_def without_def fun_eq_iff)

lemma run_being_read:
  assumes "\<And>l u. being_read (f l u) = being_read u"
  shows "being_read (run E f is v) = being_read v" "being_read (run_rest E f r v) = being_read v"
  by (induction "is" and r arbitrary: v and v) (simp_all add: assms)

lemma parse_file_names: "plain_name ''.PARSEDIR''" "plain_name ''.PARSEFILE''"
  by code_simp+

lemma real_enter:
  assumes "being_read (vars cs) = []"
  shows "ParseSetParseFile (real_reader n E) name cs = Some (cs\<lparr>vars := enter_vars name (vars cs)\<rparr>)"
proof -
  have s: "Var_Set n E x w VAR_GLOBAL False u = Some (u\<lparr>vars := put_var VAR_GLOBAL x w (vars u)\<rparr>)"
    if "x \<in> {''.PARSEDIR'', ''.PARSEFILE''}" "being_read (vars u) = []" for x w u
    using that parse_file_names Var_Set_plain[of x VAR_GLOBAL u False n E w] by auto
  show ?thesis
    using assms by (simp add: ParseSetParseFile_def real_reader_def enter_vars_def enter_file_def s split: option.split prod.split)
qed

lemma real_leave:
  assumes "being_read (vars cs) = []"
  shows "(do { cs \<leftarrow> var_delete (real_reader n E) ''.PARSEDIR'' cs; var_delete (real_reader n E) ''.PARSEFILE'' cs }) =
    Some (cs\<lparr>vars := without ''.PARSEFILE'' (without ''.PARSEDIR'' (vars cs))\<rparr>)"
proof -
  have "being_read (without x v) = being_read v" for x v by (simp add: without_def)
  then show ?thesis using assms by (simp add: real_reader_def change_opt_def delete_unread)
qed

text \<open>
  C15. \<^verbatim>\<open>Parse_File\<close> on a makefile with conditional blocks, with the variables of \<^verbatim>\<open>var.c\<close>: lines and blocks of all
  five forms of \<^verbatim>\<open>.if\<close> with \<^verbatim>\<open>elif\<close> forms and \<^verbatim>\<open>else\<close>, at most 30 deep. No line is empty, ends in a
  blank, or has a comment sign, semicolon, backslash, NUL or byte 255; a line of text does not begin with a dot.
  The conditions evaluated are printed expressions with plain names, texts and arguments, defined patterns,
  and comparisons of variables that read as their values. A line of text does what \<open>f\<close> says to the
  variables, and no value is being read at the beginning or after such a line. No conditional is open at the beginning.
  Then the lines of the branches whose conditions hold are handled, in order, each condition with the variables as
  they are at its line; at the end no conditional is open, nothing was complained about, and
  \<^verbatim>\<open>.PARSEDIR\<close> and \<^verbatim>\<open>.PARSEFILE\<close>, set at the beginning, are gone.
\<close>

theorem makefile_blocks:
  assumes "shape 30 is" "list_all file_line (lines_of is)" "conds_ok (real_env (Suc n) E) f is (enter_vars name v)"
    and "view (rcond st) = (30, stk, 0, False, v, m)" "length stk = 30" "sources st = []"
    and "being_read v = []" "\<And>l u. being_read (f l u) = being_read u"
  shows "\<exists>st'. Parse_File (real_reader (Suc n) E) (line_handler f) name (file_text (lines_of is)) st = Some (Inr st') \<and>
     vars (rcond st') = without ''.PARSEFILE'' (without ''.PARSEDIR'' (run (real_env (Suc n) E) f is (enter_vars name v))) \<and>
     messages (rcond st') = m \<and> condTop (rcond st') = MAXIF \<and> skipIfLevel (rcond st') = 0 \<and> \<not> skipLine (rcond st')"
proof -
  have c: "cenv (real_reader (Suc n) E) = real_env (Suc n) E" by (simp add: real_reader_def)
  have "vars (rcond st) = v" using assms(4) by (simp add: view_def)
  then have e: "ParseSetParseFile (real_reader (Suc n) E) name (rcond st) = Some ((rcond st)\<lparr>vars := enter_vars name v\<rparr>)"
    using real_enter[of "rcond st"] assms(7) by simp
  have "being_read (run (real_env (Suc n) E) f is (enter_vars name v)) = []"
    using run_being_read(1)[of f, OF assms(8)] assms(7)
    by (simp add: enter_vars_def enter_file_def split: option.split prod.split)
  then have l: "(do { cs \<leftarrow> var_delete (real_reader (Suc n) E) ''.PARSEDIR'' cs; var_delete (real_reader (Suc n) E) ''.PARSEFILE'' cs }) =
      Some (cs\<lparr>vars := without ''.PARSEFILE'' (without ''.PARSEDIR'' (run (real_env (Suc n) E) f is (enter_vars name v)))\<rparr>)"
    if "vars cs = run (real_env (Suc n) E) f is (enter_vars name v)" for cs
    using real_leave[of cs "Suc n" E] that by simp
  show ?thesis
    using blocks_read[OF assms(1,2) assms(3)[folded c] assms(4-6) e l[folded c]] by (simp add: c)
qed

end
