(* ===== verification/Varodd.thy ===== *)
theory Varodd
  imports Varloop
begin

text \<open>
  Concrete programs: the theorems about texts, conditions and loops applied, and the references that are read
  wrongly.
\<close>

subsection \<open>A program\<close>

definition plain_env :: var_env where
  "plain_env =
     \<lparr>checkEnvFirst = False, oldVars = True, cmd_exec = (\<lambda>_ c. (''ran '' @ c, None)), node_path = (\<lambda>_. None),
      reg_comp = (\<lambda>_. Inr 0), reg_exec = (\<lambda>_ _ _. NoMatch), cond_created = [], cond_file = (\<lambda>_. None), cond_node = (\<lambda>_. None)\<rparr>"

definition start_with :: "(context_id \<times> cstring \<times> cstring) list \<Rightarrow> make_state" where
  "start_with vs = cond_start (fold (\<lambda>(c, x, v). put_var c x v) vs (vars_start Map.empty))"

definition sample_vars :: make_state where
  "sample_vars = start_with [(VAR_GLOBAL, ''SRC'', ''b/x.c y.c''), (VAR_GLOBAL, ''OBJ'', ''${SRC:T:R}!'')]"

lemma sample_find:
  "VarFind plain_env (vars sample_vars) ''SRC'' VAR_CMD FIND_ALL = Some (Stored VAR_GLOBAL ''SRC'' ''b/x.c y.c'')"
  "VarFind plain_env (vars sample_vars) ''OBJ'' VAR_CMD FIND_ALL = Some (Stored VAR_GLOBAL ''OBJ'' ''${SRC:T:R}!'')"
  "VarFind plain_env (vars sample_vars) ''NONE'' VAR_CMD FIND_ALL = None"
  by code_simp+

lemma sample_mods: "apply_mods ''TR'' ''b/x.c y.c'' = Some ''x y''"
  by code_simp

theorem Var_Subst_expands_witness:
  "Var_Subst 3 plain_env None ''<$(OBJ)> $$ ${NONE}'' VAR_CMD True sample_vars = Some (''<x y!> $ '', sample_vars)"
proof -
  define rk :: "context_id option \<times> cstring \<Rightarrow> nat" where "rk = (\<lambda>(c, x). if x = ''OBJ'' then 2 else 1)"
  let ?ex = "expands plain_env (vars sample_vars) VAR_CMD rk"
  have 0: "?ex 1 [Lit ''b/x.c y.c''] (''b/x.c y.c'' @ [])" by (intro expands_Lit expands_Nil) simp
  have e: "?ex 2 [Lit ''!''] (''!'' @ [])" by (intro expands_Lit expands_Nil) simp
  have 1: "?ex 2 [Ref True ''SRC'' ''TR'', Lit ''!''] (''x y'' @ ''!'' @ [])"
    by (rule expands_Ref[OF sample_find(1) _ _ _ _ _ sample_mods, of rk 2 "[Lit ''b/x.c y.c'']"])
       (use 0 e in \<open>simp_all add: var_chars_def word_mods_def rk_def\<close>)
  have 2: "?ex 3 [Lit ''<'', Ref False ''OBJ'' [], Lit ''> '', Dollar, Lit '' '', Ref True ''NONE'' []]
      (''<'' @ (''x y!'' @ (''> '' @ (CHR ''$'' # ('' '' @ [])))))"
  proof (intro expands_Lit expands_Dollar expands_Nil)
    have u: "?ex 3 [Ref True ''NONE'' []] []"
      by (rule expands_undefined[OF sample_find(3)])
         (simp_all add: var_chars_def is_dynamic_def is_FD_def plain_env_def expands_Nil is_local_ctxt_def isupper_def)
    then have r: "?ex 3 [Lit ''> '', Dollar, Lit '' '', Ref True ''NONE'' []] (''> '' @ (CHR ''$'' # ('' '' @ [])))"
      by (intro expands_Lit expands_Dollar) simp_all
    show "?ex 3 [Ref False ''OBJ'' [], Lit ''> '', Dollar, Lit '' '', Ref True ''NONE'' []]
        (''x y!'' @ (''> '' @ (CHR ''$'' # ('' '' @ []))))"
      by (rule expands_Ref[OF sample_find(2), of _ rk 3 "[Ref True ''SRC'' ''TR'', Lit ''!'']" "''x y!''"])
         (use 1 r in \<open>simp_all add: var_chars_def rk_def closing_def\<close>)
  qed simp
  have "in_use (vars sample_vars) = []" by code_simp
  from Var_Subst_expands[OF 2 this, of 3 True]
  have "Var_Subst 3 plain_env None ''<$(OBJ)> $$ ${NONE}'' VAR_CMD True sample_vars =
      Some (''<x y!> $ '', sample_vars\<lparr>vars := (vars sample_vars)\<lparr>errorReported := False\<rparr>\<rparr>)"
    by (simp add: closing_def)
  moreover have "sample_vars\<lparr>vars := (vars sample_vars)\<lparr>errorReported := False\<rparr>\<rparr> = sample_vars"
    by (simp add: sample_vars_def start_with_def cond_start_def vars_start_def put_var_def)
  ultimately show ?thesis by simp
qed


theorem long_name_lost_witness:
  "\<exists>st'. Var_Set 0 plain_env ''.TARGET'' ''a.out'' VAR_GLOBAL True sample_vars = Some st' \<and>
         Var_Value plain_env (vars st') ''.TARGET'' VAR_CMD = None"
proof -
  have 1: "(''.TARGET'', ''@'') \<in> set local_names" by (simp add: local_names_def)
  have 2: "contexts (vars sample_vars) VAR_GLOBAL ''@'' = None" "Var_Value plain_env (vars sample_vars) ''.TARGET'' VAR_CMD = None"
    by code_simp+
  show ?thesis using long_name_lost[OF 1 2(1), of 0 plain_env "''a.out''" VAR_CMD] 2(2) by auto
qed

theorem condition_on_variables_witness:
  "\<exists>st'. Cond_EvalExpression (real_env 1 plain_env) True
           (show_c NE (Conj (Is ''SRC'' True ''b/x.c y.c'') (Neg (Call CondDoDefined ''NONE'')))) True sample_vars =
           Some (COND_PARSE, Some True, st')"
proof -
  have v: "Var_Value plain_env (vars sample_vars) ''SRC'' VAR_CMD = Some ''b/x.c y.c''"
      "Var_Value plain_env (vars sample_vars) ''NONE'' VAR_CMD = None"
    by code_simp+
  have "plain_bexp plain_env (vars sample_vars) (Conj (Is ''SRC'' True ''b/x.c y.c'') (Neg (Call CondDoDefined ''NONE'')))"
    using v by (simp add: plain_text_def var_chars_def plain_arg_def arg_end_def)
  moreover have "in_use (vars sample_vars) = []" by code_simp
  ultimately show ?thesis
    using condition_on_variables[of plain_env sample_vars _ 0 True] v by fastforce
qed


subsection \<open>References that are read wrongly\<close>

text \<open>
  A dollar sign at the end of a text and a modifier that is not closed: the text is read behind its end.
  An assignment to a variable that is not defined frees its name twice, and in the global context an assignment to
  a defined one goes to a context that was never set. A letter that is followed by an h runs the value as a command.
  The names of two variables of a target that is not known yet are exchanged.
\<close>

theorem references_odd:
  "Var_Subst 3 plain_env None ''x$'' VAR_CMD True sample_vars = None"
  "Var_Subst 3 plain_env None ''${SRC:S/a'' VAR_CMD True sample_vars = None"
  "Var_Subst 3 plain_env None ''${NONE::=x}'' VAR_CMD True sample_vars = None"
  "Var_Subst 3 plain_env None ''${SRC::=x}'' VAR_GLOBAL True sample_vars = None"
  "map_option fst (Var_Subst 3 plain_env None ''${SRC:Th}'' VAR_CMD True sample_vars) = Some ''ran b/x.c y.c''"
  "map_option fst (Var_Subst 3 plain_env None ''$%'' VAR_CMD True sample_vars) = Some ''$(.ARCHIVE)''"
  "map_of local_names ''.ARCHIVE'' = Some ''!''"
  by code_simp+

text \<open>A makefile that asks for a variable, and what notes the last line that was handled.\<close>

definition sample_blocks :: items where
  "sample_blocks =
     Text ''x = 1'' (If (''if'', False, CondDoDefined) (Conj (Call CondDoDefined ''A'') (Neg (Is ''A'' True ''1'')))
       (Text ''y = 2'' Done)
       (Elif (''ifndef'', True, CondDoDefined) (Sym ''C'') (Text ''y = 3'' Done) (Else (Text ''y = 4'' Done)))
       Done)"

definition last_line :: "cstring \<Rightarrow> make_vars \<Rightarrow> make_vars" where
  "last_line l = put_var VAR_GLOBAL ''LAST'' l"

lemma plain_cond:
  "f = CondDoDefined \<Longrightarrow> in_use v = [] \<Longrightarrow> plain_bexp E v b \<Longrightarrow> cond_ok (real_env (Suc n) E) v (k, neg, f) b"
  "f = CondDoDefined \<Longrightarrow> plain_bexp E v b \<Longrightarrow> holds (real_env n E) v (k, False, f) b = var_bexp E v b"
  by (simp_all add: cond_ok_def plain_wf holds_def plain_beval)

lemma holds_ifndef: "holds (real_env n E) v (k, True, CondDoDefined) (Sym x) = (Var_Value E v x VAR_CMD = None)"
  by (simp add: holds_def cond_start_def)

theorem makefile_blocks_witness:
  "\<exists>st'. Parse_File (real_reader 1 plain_env) (line_handler last_line) ''Makefile'' (file_text (lines_of sample_blocks))
      (reader_start (start_with [(VAR_GLOBAL, ''A'', ''1'')])) = Some (Inr st') \<and>
    contexts (vars (rcond st')) VAR_GLOBAL ''LAST'' = Some ''y = 3'' \<and> condTop (rcond st') = MAXIF"
proof -
  define v where "v = vars (start_with [(VAR_GLOBAL, ''A'', ''1'')])"
  have s: "short_name ''A'' = ''A''" "short_name ''C'' = ''C''" by code_simp+
  define w where "w = last_line ''x = 1'' (enter_vars ''Makefile'' v)"
  have w: "contexts w VAR_GLOBAL = [''A'' \<mapsto> ''1'', ''.PARSEDIR'' \<mapsto> ''.'', ''.PARSEFILE'' \<mapsto> ''Makefile'', ''LAST'' \<mapsto> ''x = 1'']"
      "contexts w VAR_CMD = Map.empty" "environ w = Map.empty" "in_use w = []"
    by (simp_all add: w_def v_def start_with_def cond_start_def vars_start_def enter_vars_def enter_file_def strrchr_def
        last_line_def put_var_def)
  have A: "Var_Value plain_env w ''A'' VAR_CMD = Some ''1''" "Var_Value plain_env w ''C'' VAR_CMD = None"
    by (simp_all add: Value_order s w plain_env_def)
  let ?c = "Conj (Call CondDoDefined ''A'') (Neg (Is ''A'' True ''1''))"
  have c: "plain_bexp plain_env w ?c" "plain_bexp plain_env w (Sym ''C'')" "\<not> var_bexp plain_env w ?c"
    by (simp_all add: A plain_arg_def arg_end_def symbol_def plain_text_def var_chars_def)
  have 1: "shape 30 sample_blocks" "list_all file_line (lines_of sample_blocks)"
    by (simp_all add: sample_blocks_def ifs_def file_line_def line_char_def if_line_def elif_line_def is_blank_def AND_def quoted_def)
  have ok: "cond_ok (real_env (Suc 0) plain_env) w (''if'', False, CondDoDefined) ?c"
      "cond_ok (real_env (Suc 0) plain_env) w (''ifndef'', True, CondDoDefined) (Sym ''C'')"
    using plain_cond(1)[OF refl w(4) c(1)] plain_cond(1)[OF refl w(4) c(2)] by blast+
  have h: "\<not> holds (real_env (Suc 0) plain_env) w (''if'', False, CondDoDefined) ?c"
      "holds (real_env (Suc 0) plain_env) w (''ifndef'', True, CondDoDefined) (Sym ''C'')"
    using plain_cond(2)[OF refl c(1)] c(3) A(2) by (simp_all add: holds_ifndef)
  have 2: "conds_ok (real_env (Suc 0) plain_env) last_line sample_blocks (enter_vars ''Makefile'' v)"
    unfolding sample_blocks_def conds_ok.simps rest_ok.simps taken_ok.simps w_def[symmetric] using ok h by simp
  have r: "run (real_env (Suc 0) plain_env) last_line sample_blocks (enter_vars ''Makefile'' v) = last_line ''y = 3'' w"
    unfolding sample_blocks_def run.simps run_rest.simps w_def[symmetric] using h by simp
  have 3: "view (rcond (reader_start (start_with [(VAR_GLOBAL, ''A'', ''1'')]))) = (30, replicate 30 False, 0, False, v, [])"
    by (simp add: view_def reader_start_def start_with_def cond_start_def MAXIF_def v_def)
  have b: "being_read v = []" by (simp add: v_def start_with_def cond_start_def vars_start_def)
  obtain st' where "Parse_File (real_reader (Suc 0) plain_env) (line_handler last_line) ''Makefile'' (file_text (lines_of sample_blocks))
      (reader_start (start_with [(VAR_GLOBAL, ''A'', ''1'')])) = Some (Inr st')"
      "vars (rcond st') = without ''.PARSEFILE'' (without ''.PARSEDIR'' (last_line ''y = 3'' w))" "condTop (rcond st') = MAXIF"
    using makefile_blocks[OF 1 2 3 _ _ b] unfolding r by (auto simp: reader_start_def last_line_def)
  then show ?thesis by (auto simp: without_def last_line_def put_var_def)
qed

end
