(* ===== verification/Spec2Isabelle.thy ===== *)
theory Spec2Isabelle
  imports StrBuf ItemList Netmask EnvTable Template Misc ConfFile Checks Handlers Generators Page Cgi Request Session Runled Srec Tcpdwl Flashcfg Pshd Instwords Instdisk Instmenu Sysinst Instlog Install
    Lst Lstrep Lstops Lstloops Lstbulk Lstconcat Hash Hashmap Buf Makestr Makeglob
    Condnum Cond Condexpr Makeread Condlines Condodd Forloop
    Varwords Varstore Varparse Varref Wordlaws Varexpand Varlaws Varloop Varodd
begin

text \<open>
  A model of the programs that SSD/Linux adds to the software it packages. Most of the
  repository is build glue, patches and third-party sources; its own logic is in
  \<^verbatim>\<open>src/contrib/setup\<close>, a CGI program that configures the machine from a web page, and in
  small programs for the boards under \<^verbatim>\<open>src/usr.sbin\<close>: \<^verbatim>\<open>flashcfg\<close>,
  \<^verbatim>\<open>runled\<close>, \<^verbatim>\<open>pshd\<close> and \<^verbatim>\<open>tcpdwl\<close>, and in the installer
  \<^verbatim>\<open>src/distrib/utils/sysinst\<close>.

  How \<^verbatim>\<open>setup.cgi\<close> works. One process serves one request. It reads the saved
  configuration into a table of variables, decodes the request on top of it, checks the login,
  finds the page, checks the fields that were sent, runs the handler of the page, which changes
  the table, writes a temporary configuration, and prints the page from a template. The
  saving page generates the files of the services from the table and moves the temporary
  configuration over the saved one.

  Theories and sources of \<^verbatim>\<open>setup.cgi\<close> (all under \<^verbatim>\<open>src/contrib/setup\<close>):

  \<^item> \<^theory_text>\<open>Prelude\<close>, \<^theory_text>\<open>Libc\<close>: shared lemmas; the parts of the C library the sources
    use, as functions on character lists: \<^verbatim>\<open>strtol\<close>, \<^verbatim>\<open>sprintf\<close> of numbers,
    \<^verbatim>\<open>strtok\<close>, character classes.
  \<^item> \<^theory_text>\<open>StrBuf\<close>: \<^verbatim>\<open>str.c\<close>, the growing text buffer, with the allocated size explicit.
  \<^item> \<^theory_text>\<open>ItemList\<close>: \<^verbatim>\<open>list.c\<close>, lists of words inside a value; the locale of a
    numbered list and its interpretation.
  \<^item> \<^theory_text>\<open>Netmask\<close>: the address arithmetic of \<^verbatim>\<open>eval.c\<close>, \<^verbatim>\<open>ok.c\<close> and
    \<^verbatim>\<open>rc2conf.c\<close>.
  \<^item> \<^theory_text>\<open>EnvTable\<close>: the table of variables in \<^verbatim>\<open>eval.c\<close> and the record
    \<^verbatim>\<open>cgi\<close> of the whole state: the globals of \<^verbatim>\<open>setup.c\<close>, the files, the
    clock, the log of commands, the printed page.
  \<^item> \<^theory_text>\<open>Template\<close>: the language of the page templates in \<^verbatim>\<open>eval.c\<close>.
  \<^item> \<^theory_text>\<open>Misc\<close>: \<^verbatim>\<open>misc.c\<close>, quoting, decoding and the ring of blocks.
  \<^item> \<^theory_text>\<open>ConfFile\<close>: reading and writing the configuration, \<^verbatim>\<open>eval.c\<close>.
  \<^item> \<^theory_text>\<open>Checks\<close>: \<^verbatim>\<open>valtab.c\<close>, the check of every field.
  \<^item> \<^theory_text>\<open>Handlers\<close>: \<^verbatim>\<open>ok.c\<close>, what each page does.
  \<^item> \<^theory_text>\<open>Generators\<close>: \<^verbatim>\<open>rc2conf.c\<close>, \<^verbatim>\<open>sysupdate\<close> of \<^verbatim>\<open>setup.c\<close> and
    \<^verbatim>\<open>yazaki-main.c\<close>: the files of the services.
  \<^item> \<^theory_text>\<open>Page\<close>, \<^theory_text>\<open>Cgi\<close>: \<^verbatim>\<open>setup.c\<close>, the menus and the printing; the request, the
    login, the pages, \<^verbatim>\<open>main\<close>.
  \<^item> \<^theory_text>\<open>Request\<close>, \<^theory_text>\<open>Session\<close>: properties of whole requests and of sequences of them.

  The programs for the boards (under \<^verbatim>\<open>src/usr.sbin\<close>), which share nothing but the flash
  and NVRAM of the machine with \<^verbatim>\<open>setup.cgi\<close>, whose saving page runs
  \<^verbatim>\<open>flashcfg -s\<close>:

  \<^item> \<^theory_text>\<open>Flashcfg\<close>: \<^verbatim>\<open>flashcfg/obs266/flashcfg.c\<close>, which writes boot images, saved
    files and the boot device; what it does to the flash is a list of operations, and
    \<open>content\<close> is what they leave on a NOR flash.
  \<^item> \<^theory_text>\<open>Srec\<close>, \<^theory_text>\<open>Tcpdwl\<close>: \<^verbatim>\<open>tcpdwl/tcpdwl.c\<close>, the preparation of an image and
    the protocol that sends it to a board; the answers of the board are a list.
  \<^item> \<^theory_text>\<open>Runled\<close>: \<^verbatim>\<open>runled/*/runled.c\<close>, the display daemons; the endless loop is given
    by its first rounds, for any number of them.
  \<^item> \<^theory_text>\<open>Pshd\<close>: \<^verbatim>\<open>pshd/pshd.c\<close>, the daemon of the push button.

  The installer (\<^verbatim>\<open>src/distrib/utils/sysinst/sysinst.c\<close>, with the options of the i386
  build: card probe, network, boot block, GRUB), which is run from the boot disk. It probes the
  machine, reads the partitions, lets the user change the table of partitions in menus, makes
  file systems, mounts them, unpacks the distributions and writes the files of the new system:

  \<^item> \<^theory_text>\<open>Instwords\<close>: lines, words, addresses.
  \<^item> \<^theory_text>\<open>Instdisk\<close>: disks, media and partitions; the files of \<^verbatim>\<open>/proc\<close> and the
    output of \<^verbatim>\<open>fdisk\<close> are lists of lines.
  \<^item> \<^theory_text>\<open>Instmenu\<close>: the menus, over the text the user types.
  \<^item> \<^theory_text>\<open>Sysinst\<close>: the operations on the machine and \<^verbatim>\<open>main\<close>; a step appends the
    commands it runs and the files it writes to a log, and whether a command can be started or a
    file be opened is a function of the log so far.
  \<^item> \<^theory_text>\<open>Instlog\<close>: each operation works through a list of actions; \<^theory_text>\<open>Install\<close>:
    whole runs. The locale \<open>step_order\<close> holds what any relation needs to be kept by
    sequences of steps.

  The build tool (\<^verbatim>\<open>src/usr.bin/bmake\<close>), the parts all others of it rest on:

  \<^item> \<^theory_text>\<open>Lst\<close>: \<^verbatim>\<open>lst.lib\<close>, doubly linked lists on a heap of nodes and
    headers; \<^theory_text>\<open>Lstrep\<close>, \<^theory_text>\<open>Lstops\<close>, \<^theory_text>\<open>Lstloops\<close>, \<^theory_text>\<open>Lstbulk\<close>,
    \<^theory_text>\<open>Lstconcat\<close>: the heap as a map from headers to sequences (\<open>store\<close>), and every
    operation on it; the locale \<open>fifo\<close> is what the client of a queue relies on.
  \<^item> \<^theory_text>\<open>Hash\<close>: \<^verbatim>\<open>hash.c\<close>, hash tables that grow; \<^theory_text>\<open>Hashmap\<close>: the
    invariant, every operation as one on maps, the walk over all entries; the locale
    \<open>dictionary\<close> is the contract of a table.
  \<^item> \<^theory_text>\<open>Buf\<close>: \<^verbatim>\<open>buf.c\<close>, buffers of bytes with their memory.
  \<^item> \<^theory_text>\<open>Makestr\<close>: \<^verbatim>\<open>str.c\<close>, words, wild cards, suffix substitution;
    \<^theory_text>\<open>Makeglob\<close>: patterns against their meaning, words against quoting.
  \<^item> \<^theory_text>\<open>Condnum\<close>, \<^theory_text>\<open>Cond\<close>: \<^verbatim>\<open>cond.c\<close>, the directives \<^verbatim>\<open>.if\<close>: numbers,
    tokens, expressions, the stack of open blocks; the static variables are a record, pointers into
    the line are offsets. \<^theory_text>\<open>Condexpr\<close>: the parser against the meaning of an
    expression; \<^theory_text>\<open>Condodd\<close>: the inputs that are read wrongly.
  \<^item> \<^theory_text>\<open>Makeread\<close>: \<^verbatim>\<open>parse.c\<close> and \<^verbatim>\<open>for.c\<close>, how lines are read, skipped and
    repeated, with the stack of sources; \<^theory_text>\<open>Condlines\<close>: a makefile of blocks against its
    tree; \<^theory_text>\<open>Forloop\<close>: a loop against its words.
  \<^item> \<^theory_text>\<open>Varwords\<close>, \<^theory_text>\<open>Varstore\<close>: \<^verbatim>\<open>var.c\<close>, the modifiers that work on
    words; the contexts of variables as maps (the hash tables, by \<^theory_text>\<open>Hashmap\<close>), the
    environment, finding, setting, appending, deleting. \<^theory_text>\<open>Varparse\<close>, \<^theory_text>\<open>Varref\<close>:
    references and every modifier, \<^verbatim>\<open>Var_Parse\<close> and \<^verbatim>\<open>Var_Subst\<close>. A pointer into a text
    is what is left of the text. A read of a buffer that was changed meanwhile, a static string
    that is freed, and the exit through \<^verbatim>\<open>Fatal\<close> for a recursive variable are
    \<^const>\<open>None\<close>.
  \<^item> \<^theory_text>\<open>Wordlaws\<close>: the modifiers of words against functions on lists of words; the locale
    \<open>word_step\<close> is what the list needs of a function for one word. \<^theory_text>\<open>Varexpand\<close>:
    what a text of references means, as a relation \<open>expands\<close>, and that
    \<^verbatim>\<open>Var_Subst\<close> computes it. \<^theory_text>\<open>Varlaws\<close>: where values come from, setting and
    appending, conditions on variables. \<^theory_text>\<open>Varloop\<close>: loops with the words and
    the body expanded, and makefiles of conditional blocks, with the model of \<^verbatim>\<open>var.c\<close>. \<^theory_text>\<open>Varodd\<close>: a program, and the references that are read wrongly.
  \<^item> What these theories take as arguments: for conditions and lines, the values of references,
    setting and deleting of variables (\<open>real_env\<close> and \<open>real_reader\<close> put the model of
    \<^verbatim>\<open>var.c\<close> there), the search for files and targets, and what is done with a line; for
    variables, \<^verbatim>\<open>Cmd_Exec\<close>, \<^verbatim>\<open>regcomp\<close> and \<^verbatim>\<open>regexec\<close>, the path of a target.
    The properties that need anything of them have it as hypotheses.

  Conventions. A C string is a list of characters without NUL; NULL is \<^const>\<open>None\<close> of
  \<^typ>\<open>string option\<close>. A function that has no defined result in C on some inputs (a read or a
  write outside a block, a NULL pointer, a loop that does not end) has an option result, and
  \<^const>\<open>None\<close> means exactly that; the theorems that say where it does are stated as
  equivalences or give the input. A function that may end the program through
  \<^verbatim>\<open>panic\<close> returns a sum, \<^const>\<open>Inl\<close> the state at the exit. \<^verbatim>\<open>int\<close> is a 32-bit
  number: \<^typ>\<open>int\<close> with the wrap-around written out, or a word where bits matter. Calls of
  \<^verbatim>\<open>system\<close> append to a log; what a command of \<^verbatim>\<open>setup.cgi\<close> does to the files is the field
  \<open>sys_effect\<close> of the state, any function, and the properties that need commands to leave some files alone
  say so (\<open>tame\<close>). The files of \<^verbatim>\<open>setup.cgi\<close> have canonical names: a name that is made from a value is
  resolved (\<open>real_path\<close>), so one with \<^verbatim>\<open>..\<close> is the file it leads to (there are no links).
  A local variable that was never assigned is \<^const>\<open>None\<close> as well (\<open>dhcp\<close> of the installer); memory
  that was allocated and not cleared has whatever values are given as an argument. \<^verbatim>\<open>crypt\<close>, the host's address lookup and the
  current time are fields of the state and are not assumed to have any values; the properties
  about session keys state what they need of \<^verbatim>\<open>crypt\<close>.

  What the lemmas show. \<^theory_text>\<open>StrBuf\<close> to \<^theory_text>\<open>Misc\<close>: the data structures against lists and
  maps, where they are safe, and the inputs where they are not. \<^theory_text>\<open>ConfFile\<close>: what is
  written is read back. \<^theory_text>\<open>Checks\<close>: what a field must be like to pass, and which
  fields are not looked at. \<^theory_text>\<open>Handlers\<close>, \<^theory_text>\<open>Generators\<close>: what a form does to the
  configuration and to the files of the services. \<^theory_text>\<open>Request\<close>, \<^theory_text>\<open>Session\<close>: what a
  request can change at all, without a login, with a rejected form, and over any number of
  requests. \<^theory_text>\<open>Flashcfg\<close>: what the flash holds after each option. \<^theory_text>\<open>Tcpdwl\<close>: a
  download sends all blocks but the last when the board acknowledges, the last one ends in a write behind
  an array, and whatever the board answers only announced data is sent before; where a second start and the
  conversion of S-records go wrong.
  \<^theory_text>\<open>Runled\<close>: which command lines are read to the end, and that the display goes on for
  ever. \<^theory_text>\<open>Instdisk\<close>, \<^theory_text>\<open>Instmenu\<close>: the table of partitions against the partitions of the
  disks, and that no menu breaks it. \<^theory_text>\<open>Install\<close>: in which order a run changes the
  machine, that nothing happens to it without consent, and what the run does that installs from
  the network with the defaults (a run from a CD reads a variable that was never set). \<^theory_text>\<open>Lstops\<close> to \<^theory_text>\<open>Lstconcat\<close>: lists are sequences, whatever else
  is on the heap, and every loop over them ends. \<^theory_text>\<open>Hashmap\<close>: a table answers as a map.
  \<^theory_text>\<open>Makeglob\<close>: which patterns mean what they should, and which are read wrongly.
  \<^theory_text>\<open>Condexpr\<close>, \<^theory_text>\<open>Condlines\<close>: conditions have the value they denote, and the lines
  that are handled are those of the branches that hold. \<^theory_text>\<open>Forloop\<close>: the body once for every
  word. \<^theory_text>\<open>Condodd\<close>: conditions with an undefined result or a wrong one. \<^theory_text>\<open>Wordlaws\<close>
  to \<^theory_text>\<open>Varodd\<close>: as listed above.

  Fuel: \<^verbatim>\<open>ring_readln\<close> is modelled by the lines of the file, its loop on a line of
  1023 bytes being an undefined result; the growth loop of \<^verbatim>\<open>str_append_charp\<close> is a
  \<^theory_text>\<open>partial_function\<close> that is shown to return; \<^verbatim>\<open>Var_Parse\<close> calls itself through \<^verbatim>\<open>Var_Subst\<close>, the modifiers and the
  conditions: its number is the depth of these calls, and a text whose references are ranked (every
  variable above those of its value) needs no more than its rank, by \<^theory_text>\<open>Varexpand\<close>. All
  other loops are structural or have a measure, or are \<^theory_text>\<open>partial_function\<close> where a text may
  be read past its end.

  Not modelled: \<^verbatim>\<open>env.c\<close> (not built), the functions that only free or print memory
  (\<^verbatim>\<open>str_delete\<close>, \<^verbatim>\<open>list_delete\<close>, \<^verbatim>\<open>list_dump\<close>), the variadic wrappers
  (\<^verbatim>\<open>ring_sprintf\<close>: their calls are written as concatenations), the rest of the build tool
  (dependency lines, suffix rules, archives, directories, jobs; in \<^verbatim>\<open>var.c\<close> the
  printing of all variables), and the third-party sources of the repository.
\<close>

end
